(* ===== verification/Prelude.thy ===== *)
theory Prelude
  imports Main "HOL-Library.AList" "HOL-Library.Sublist" "HOL-Library.List_Lexorder" "HOL-Library.Char_ord" "HOL-Library.Multiset"
begin

text \<open>
  Shared vocabulary of the development.

  \<^item> \<open>'a res\<close>: a Python call that may raise. Every exception class of the server carries a
    stable \<open>code\<close> and a human-readable \<open>detail\<close>; the model keeps the code (\<open>Inl code\<close>) and
    drops the detail. \<open>bind_res\<close> is the sequential composition of such calls.
  \<^item> \<open>time\<close>: an aware UTC \<^verbatim>\<open>datetime\<close>, as microseconds since the epoch (Python's resolution);
    \<open>seconds\<close>, \<open>minutes\<close> and \<open>hours\<close> are the \<^verbatim>\<open>timedelta\<close> constructors.
  \<^item> \<open>'s jval\<close>: a Python value as \<^verbatim>\<open>json\<close> sees it, over a type \<open>'s\<close> of strings; \<open>json\<close> is the
    instance over \<open>string\<close>. A dict is an association list in insertion order.
  \<^item> string operations of the Python standard library that the sources use, and a few facts on
    lists, options and association lists that the components share.
\<close>

section \<open>Calls that may raise\<close>

named_theorems res_simps \<open>rewriting calls that may raise\<close>
named_theorems inv_intros \<open>preservation of component invariants\<close>

type_synonym 'a res = "string + 'a"

definition bind_res :: "'e + 'a \<Rightarrow> ('a \<Rightarrow> 'e + 'b) \<Rightarrow> 'e + 'b" where
  "bind_res m k = (case m of Inl e \<Rightarrow> Inl e | Inr a \<Rightarrow> k a)"

lemma bind_res_Inl [simp]: "bind_res (Inl e) k = Inl e"
  by (simp add: bind_res_def)

lemma bind_res_Inr [simp]: "bind_res (Inr a) k = k a"
  by (simp add: bind_res_def)

lemma bind_res_eq_Inr [res_simps]:
  "bind_res m k = Inr b \<longleftrightarrow> (\<exists>a. m = Inr a \<and> k a = Inr b)"
  by (cases m) auto

lemma bind_res_eq_Inl [res_simps]:
  "bind_res m k = Inl e \<longleftrightarrow> m = Inl e \<or> (\<exists>a. m = Inr a \<and> k a = Inl e)"
  by (cases m) auto

lemma bind_res_cong [fundef_cong]:
  assumes "m = m'" and "\<And>a. m' = Inr a \<Longrightarrow> k a = k' a"
  shows "bind_res m k = bind_res m' k'"
  using assms by (cases m') auto

fun sequence_res :: "('e + 'a) list \<Rightarrow> 'e + 'a list" where
  "sequence_res [] = Inr []"
| "sequence_res (r # rs) = bind_res r (\<lambda>x. bind_res (sequence_res rs) (\<lambda>xs. Inr (x # xs)))"

lemma sequence_res_eq_Inr [res_simps]:
  "sequence_res rs = Inr xs \<longleftrightarrow> rs = map Inr xs"
  by (induction rs arbitrary: xs) (auto simp: res_simps)

lemma sequence_res_map_Inr [simp]: "sequence_res (map (\<lambda>x. Inr (f x)) xs) = Inr (map f xs)"
  by (induction xs) simp_all

text \<open>A loop whose body may raise, over the elements of a list.\<close>

fun fold_res :: "('a \<Rightarrow> 's \<Rightarrow> 'e + 's) \<Rightarrow> 'a list \<Rightarrow> 's \<Rightarrow> 'e + 's" where
  "fold_res f [] s = Inr s"
| "fold_res f (x # xs) s = bind_res (f x s) (fold_res f xs)"

lemma fold_res_append:
  "fold_res f (xs @ ys) s = bind_res (fold_res f xs s) (fold_res f ys)"
  by (induction xs arbitrary: s) (auto simp: bind_res_def split: sum.splits)

lemma fold_res_invariant:
  assumes step: "\<And>x s s'. x \<in> set xs \<Longrightarrow> P s \<Longrightarrow> f x s = Inr s' \<Longrightarrow> P s'"
    and "P s" and "fold_res f xs s = Inr s'"
  shows "P s'"
  using assms
proof (induction xs arbitrary: s)
  case (Cons x xs)
  then obtain t where t: "f x s = Inr t" "fold_res f xs t = Inr s'"
    by (auto simp: res_simps)
  with Cons.prems have "P t" by (meson list.set_intros(1))
  show ?case
  proof (rule Cons.IH [OF _ \<open>P t\<close> t(2)])
    fix y u u'
    assume "y \<in> set xs" "P u" "f y u = Inr u'"
    then show "P u'" using Cons.prems(1) by (meson list.set_intros(2))
  qed
qed simp

section \<open>Time\<close>

type_synonym time = int

definition seconds :: "int \<Rightarrow> int" where
  "seconds n = n * 1000000"

definition minutes :: "int \<Rightarrow> int" where
  "minutes n = seconds (60 * n)"

definition hours :: "int \<Rightarrow> int" where
  "hours n = minutes (60 * n)"

section \<open>Python values\<close>

text \<open>
  A finite \<^verbatim>\<open>float\<close> is given by the parts of its \<^verbatim>\<open>repr\<close>: sign, integer digits, fraction digits and
  exponent (\<open>repr\<close> always prints the shortest digits that read back to the same double).
  \<open>JBadKeys\<close> is a mapping with a key that is not a string, and \<open>JOpaque\<close> a value of a type that
  is neither a scalar, a mapping nor a sequence.
\<close>

datatype pyfloat =
    FNan
  | FInf bool
  | FFin bool "nat list" "nat list" "int option"

datatype 's jval =
    JNull
  | JBool bool
  | JInt int
  | JFloat pyfloat
  | JStr 's
  | JArr "'s jval list"
  | JObj "('s \<times> 's jval) list"
  | JBadKeys
  | JOpaque

type_synonym json = "string jval"
type_synonym pydict = "(string \<times> json) list"

text \<open>\<^verbatim>\<open>d.get(k)\<close> where the schema of the payload gives the type of the value.\<close>

definition get_str :: "pydict \<Rightarrow> string \<Rightarrow> string option" where
  "get_str d k = (case map_of d k of Some (JStr s) \<Rightarrow> Some s | _ \<Rightarrow> None)"

definition get_int :: "pydict \<Rightarrow> string \<Rightarrow> int option" where
  "get_int d k = (case map_of d k of Some (JInt n) \<Rightarrow> Some n | _ \<Rightarrow> None)"

definition get_obj :: "pydict \<Rightarrow> string \<Rightarrow> pydict option" where
  "get_obj d k = (case map_of d k of Some (JObj o') \<Rightarrow> Some o' | _ \<Rightarrow> None)"

definition get_strs :: "pydict \<Rightarrow> string \<Rightarrow> string list option" where
  "get_strs d k = (case map_of d k of
      Some (JArr xs) \<Rightarrow> Some (List.map_filter (\<lambda>v. case v of JStr s \<Rightarrow> Some s | _ \<Rightarrow> None) xs)
    | _ \<Rightarrow> None)"

definition jopt :: "string option \<Rightarrow> json" where
  "jopt x = (case x of None \<Rightarrow> JNull | Some s \<Rightarrow> JStr s)"

definition get_default :: "'a \<Rightarrow> 'a option \<Rightarrow> 'a" where
  "get_default d x = (case x of None \<Rightarrow> d | Some v \<Rightarrow> v)"

lemma get_default_simps [simp]:
  "get_default d None = d" "get_default d (Some v) = v"
  by (simp_all add: get_default_def)

text \<open>Truthiness of \<^verbatim>\<open>str | None\<close>, and \<^verbatim>\<open>a or b\<close> on such values.\<close>

definition truthy :: "string option \<Rightarrow> bool" where
  "truthy x \<longleftrightarrow> x \<noteq> None \<and> x \<noteq> Some []"

definition or_str :: "string option \<Rightarrow> string option \<Rightarrow> string option" where
  "or_str a b = (if truthy a then a else b)"

lemma truthy_simps [simp]: "\<not> truthy None" "truthy (Some s) \<longleftrightarrow> s \<noteq> []"
  by (simp_all add: truthy_def)

section \<open>Strings\<close>

definition starts_with :: "string \<Rightarrow> string \<Rightarrow> bool" where
  "starts_with p s \<longleftrightarrow> prefix p s"

definition ends_with :: "string \<Rightarrow> string \<Rightarrow> bool" where
  "ends_with p s \<longleftrightarrow> suffix p s"

text \<open>\<^verbatim>\<open>s.partition(c)\<close>: head, whether the separator occurs, tail.\<close>

fun partition_at :: "char \<Rightarrow> string \<Rightarrow> string \<times> bool \<times> string" where
  "partition_at c [] = ([], False, [])"
| "partition_at c (x # xs) =
     (if x = c then ([], True, xs)
      else (let (h, found, t) = partition_at c xs in (x # h, found, t)))"

text \<open>\<^verbatim>\<open>s.split(c)\<close>.\<close>

fun split_at :: "char \<Rightarrow> string \<Rightarrow> string list" where
  "split_at c [] = [[]]"
| "split_at c (x # xs) =
     (if x = c then [] # split_at c xs
      else (case split_at c xs of [] \<Rightarrow> [[x]] | w # ws \<Rightarrow> (x # w) # ws))"

lemma split_at_nonempty [simp]: "split_at c s \<noteq> []"
  by (cases s) (auto split: list.splits)

lemma split_at_no_sep: "c \<notin> set s \<Longrightarrow> split_at c s = [s]"
  by (induction s) auto

lemma split_at_append:
  "c \<notin> set a \<Longrightarrow> split_at c (a @ c # b) = a # split_at c b"
  by (induction a) auto

lemma partition_at_append:
  "c \<notin> set a \<Longrightarrow> partition_at c (a @ c # b) = (a, True, b)"
  by (induction a) auto

text \<open>\<^verbatim>\<open>str.strip\<close>: the white space of the first 256 code points.\<close>

definition is_space :: "char \<Rightarrow> bool" where
  "is_space c \<longleftrightarrow> (let n = of_char c :: nat in
     9 \<le> n \<and> n \<le> 13 \<or> 28 \<le> n \<and> n \<le> 32 \<or> n = 133 \<or> n = 160)"

definition strip :: "string \<Rightarrow> string" where
  "strip s = rev (dropWhile is_space (rev (dropWhile is_space s)))"

text \<open>\<^verbatim>\<open>str.split()\<close> without a separator.\<close>

fun split_by :: "(char \<Rightarrow> bool) \<Rightarrow> string \<Rightarrow> string list" where
  "split_by P [] = [[]]"
| "split_by P (x # xs) =
     (if P x then [] # split_by P xs
      else (case split_by P xs of [] \<Rightarrow> [[x]] | w # ws \<Rightarrow> (x # w) # ws))"

definition words_of :: "string \<Rightarrow> string list" where
  "words_of s = filter (\<lambda>w. w \<noteq> []) (split_by is_space s)"

lemma split_by_nonempty [simp]: "split_by P s \<noteq> []"
  by (cases s) (auto split: list.splits)

lemma split_by_no_sep: "\<forall>c \<in> set w. \<not> P c \<Longrightarrow> split_by P w = [w]"
  by (induction w) auto

lemma split_by_append:
  "\<forall>c \<in> set w. \<not> P c \<Longrightarrow> P d \<Longrightarrow> split_by P (w @ d # s) = w # split_by P s"
  by (induction w) auto

lemma split_by_clean: "w \<in> set (split_by P s) \<Longrightarrow> c \<in> set w \<Longrightarrow> \<not> P c"
proof (induction s arbitrary: w c)
  case (Cons x s)
  then show ?case by (cases "split_by P s") (fastforce split: if_splits)+
qed simp

text \<open>\<^verbatim>\<open>sep.join(ws)\<close> with a one-character separator.\<close>

fun join_with :: "char \<Rightarrow> string list \<Rightarrow> string" where
  "join_with c [] = []"
| "join_with c [w] = w"
| "join_with c (w # ws) = w @ c # join_with c ws"

lemma words_of_join:
  assumes "\<forall>w \<in> set ws. w \<noteq> [] \<and> (\<forall>c \<in> set w. \<not> is_space c)"
  shows "words_of (join_with (CHR '' '') ws) = ws"
  using assms
proof (induction "CHR '' ''" ws rule: join_with.induct)
  case (2 w)
  then show ?case by (simp add: words_of_def split_by_no_sep)
next
  case (3 w v ws)
  have "is_space (CHR '' '')" by (simp add: is_space_def)
  then show ?case using 3 by (simp add: words_of_def split_by_append)
qed (simp add: words_of_def)

text \<open>Decimal digits, \<^verbatim>\<open>str(n)\<close> and \<^verbatim>\<open>int(s)\<close> of a non-empty digit string.\<close>

fun dec_digits :: "nat \<Rightarrow> nat list" where
  "dec_digits n = (if n < 10 then [n] else dec_digits (n div 10) @ [n mod 10])"

declare dec_digits.simps [simp del]

definition digits_value :: "nat list \<Rightarrow> nat" where
  "digits_value ds = foldl (\<lambda>n d. 10 * n + d) 0 ds"

lemma digits_value_snoc [simp]: "digits_value (ds @ [d]) = 10 * digits_value ds + d"
  by (simp add: digits_value_def)

lemma digits_value_dec_digits [simp]: "digits_value (dec_digits n) = n"
proof (induction n rule: dec_digits.induct)
  case (1 n)
  show ?case
  proof (cases "n < 10")
    case True
    then show ?thesis by (subst dec_digits.simps) (simp add: digits_value_def)
  next
    case False
    with 1 show ?thesis by (subst dec_digits.simps) simp
  qed
qed

lemma dec_digits_inj: "dec_digits m = dec_digits n \<Longrightarrow> m = n"
  by (metis digits_value_dec_digits)

lemma dec_digits_nonempty [simp]: "dec_digits n \<noteq> []"
  by (subst dec_digits.simps) simp

lemma dec_digits_range: "d \<in> set (dec_digits n) \<Longrightarrow> d < 10"
proof (induction n rule: dec_digits.induct)
  case (1 n)
  show ?case
  proof (cases "n < 10")
    case True
    with 1 show ?thesis by (simp add: dec_digits.simps [of n])
  next
    case False
    with 1 show ?thesis by (auto simp: dec_digits.simps [of n])
  qed
qed

definition digit_char :: "nat \<Rightarrow> char" where
  "digit_char d = char_of (48 + d)"

definition nat_str :: "nat \<Rightarrow> string" where
  "nat_str n = map digit_char (dec_digits n)"

definition int_str :: "int \<Rightarrow> string" where
  "int_str i = (if i < 0 then CHR ''-'' # nat_str (nat (- i)) else nat_str (nat i))"

definition is_digit :: "char \<Rightarrow> bool" where
  "is_digit c \<longleftrightarrow> 48 \<le> (of_char c :: nat) \<and> (of_char c :: nat) \<le> 57"

definition digit_val :: "char \<Rightarrow> nat" where
  "digit_val c = of_char c - 48"

definition str_value :: "string \<Rightarrow> nat" where
  "str_value s = digits_value (map digit_val s)"

lemma of_char_digit_char: "d < 10 \<Longrightarrow> (of_char (digit_char d) :: nat) = 48 + d"
  by (simp add: digit_char_def)

lemma digit_val_digit_char: "d < 10 \<Longrightarrow> digit_val (digit_char d) = d"
  by (simp add: digit_val_def of_char_digit_char)

lemma is_digit_digit_char: "d < 10 \<Longrightarrow> is_digit (digit_char d)"
  by (simp add: is_digit_def of_char_digit_char)

lemma nat_str_digits: "c \<in> set (nat_str n) \<Longrightarrow> is_digit c"
  by (auto simp: nat_str_def dest: dec_digits_range intro: is_digit_digit_char)

lemma str_value_nat_str [simp]: "str_value (nat_str n) = n"
proof -
  have "map digit_val (map digit_char (dec_digits n)) = dec_digits n"
    by (simp add: map_idI digit_val_digit_char dec_digits_range)
  then show ?thesis by (simp add: str_value_def nat_str_def del: map_map)
qed

lemma nat_str_inj [simp]: "nat_str m = nat_str n \<longleftrightarrow> m = n"
  by (metis str_value_nat_str)

lemma nat_str_nonempty [simp]: "nat_str n \<noteq> []"
  by (simp add: nat_str_def)

section \<open>Lists\<close>

lemma filter_last_snoc: "P x \<Longrightarrow> last (filter P (xs @ [x])) = x"
  by simp

lemma subseq_snoc_same: "subseq xs ys \<Longrightarrow> subseq (xs @ [z]) (ys @ [z])"
  by (simp add: list_emb_append_mono)

lemma subseq_snoc_skip: "subseq xs ys \<Longrightarrow> subseq xs (ys @ [z])"
  by (meson prefixI prefix_imp_subseq subseq_order.trans)

lemma sum_list_filter_le:
  fixes f :: "'a \<Rightarrow> int"
  assumes "\<And>x. x \<in> set xs \<Longrightarrow> 0 \<le> f x"
  shows "sum_list (map f (filter P xs)) \<le> sum_list (map f xs)"
  using assms by (induction xs) (auto simp: add_increasing)

text \<open>Ordering a table by a unique column.\<close>

lemma sort_key_desc:
  fixes f :: "'a \<Rightarrow> int"
  assumes "sorted_wrt (<) (map f xs)"
  shows "sort_key (\<lambda>x. - f x) xs = rev xs"
proof (rule sort_key_inj_key_eq)
  have "distinct (map f xs)" using assms strict_sorted_iff by blast
  then show "inj_on (\<lambda>x. - f x) (set xs)" by (auto simp: distinct_map inj_on_def)
  have "sorted_wrt (\<lambda>x y. f y < f x) (rev xs)"
    using assms by (simp add: sorted_wrt_rev sorted_wrt_map)
  then show "sorted (map (\<lambda>x. - f x) (rev xs))"
    by (simp add: sorted_wrt_map sorted_wrt_mono_rel [of _ "\<lambda>x y. f y < f x"])
qed simp

lemma sort_key_asc: "sorted_wrt (<) (map f xs) \<Longrightarrow> sort_key f xs = xs" for f :: "'a \<Rightarrow> int"
  by (intro sort_key_id_if_sorted) (use strict_sorted_iff in blast)

text \<open>\<^verbatim>\<open>dict.fromkeys\<close> keeps the first occurrence of each key, in order.\<close>

fun dedup :: "'a list \<Rightarrow> 'a list" where
  "dedup [] = []"
| "dedup (x # xs) = x # filter (\<lambda>y. y \<noteq> x) (dedup xs)"

lemma set_dedup [simp]: "set (dedup xs) = set xs"
  by (induction xs) auto

lemma distinct_dedup [simp]: "distinct (dedup xs)"
  by (induction xs) auto

end
