(* ===== verification/Canonical.thy ===== *)
theory Canonical
  imports Prelude "HOL-Library.Multiset"
begin

text \<open>
  Canonical JSON (RFC 8785), the bytes under every hash of the server:
  \<^verbatim>\<open>src/server/events/canonical.py\<close>.

  A Python \<^verbatim>\<open>str\<close> is a list of code points (\<open>ustr\<close>). The serializer returns the text it would
  join, or the exception it raises: \<open>CanonicalizationError\<close>, or the \<open>UnicodeEncodeError\<close> of
  \<^verbatim>\<open>str.encode\<close> on a lone surrogate. The main results: the canonical bytes determine the value up
  to the order of object keys (\<open>canonical_json_injective\<close>), and do not depend on that order
  (\<open>canonical_json_key_order\<close>).
\<close>

section \<open>Text and its encodings\<close>

type_synonym ustr = "nat list"
type_synonym bytes = "nat list"

datatype canon_error = CanonicalizationError | UnicodeEncodeError

definition codes :: "string \<Rightarrow> ustr" where
  "codes s = map of_char s"

definition surrogate :: "nat \<Rightarrow> bool" where
  "surrogate c \<longleftrightarrow> 55296 \<le> c \<and> c \<le> 57343"

definition utf16_units :: "nat \<Rightarrow> nat list" where
  "utf16_units c =
     (if c < 65536 then [c]
      else [55296 + (c - 65536) div 1024, 56320 + (c - 65536) mod 1024])"

definition utf16_be :: "ustr \<Rightarrow> bytes" where
  "utf16_be s = concat (map (\<lambda>u. [u div 256, u mod 256]) (concat (map utf16_units s)))"

definition utf8_char :: "nat \<Rightarrow> bytes" where
  "utf8_char c =
     (if c < 128 then [c]
      else if c < 2048 then [192 + c div 64, 128 + c mod 64]
      else if c < 65536 then [224 + c div 4096, 128 + c div 64 mod 64, 128 + c mod 64]
      else [240 + c div 262144, 128 + c div 4096 mod 64, 128 + c div 64 mod 64, 128 + c mod 64])"

definition utf8_encode :: "ustr \<Rightarrow> canon_error + bytes" where
  "utf8_encode s =
     (if list_ex surrogate s then Inl UnicodeEncodeError else Inr (concat (map utf8_char s)))"

section \<open>The serializer\<close>

definition hex_digit :: "nat \<Rightarrow> nat" where
  "hex_digit d = (if d < 10 then 48 + d else 87 + d)"

definition escape_char :: "nat \<Rightarrow> ustr" where
  "escape_char c =
     (if c = 8 then [92, 98] else if c = 9 then [92, 116] else if c = 10 then [92, 110]
      else if c = 12 then [92, 102] else if c = 13 then [92, 114]
      else if c = 34 then [92, 34] else if c = 92 then [92, 92]
      else if c < 32 then
        [92, 117, hex_digit (c div 4096), hex_digit (c div 256 mod 16),
         hex_digit (c div 16 mod 16), hex_digit (c mod 16)]
      else [c])"

definition escape_string :: "ustr \<Rightarrow> ustr" where
  "escape_string s = 34 # concat (map escape_char s) @ [34]"

definition digit_codes :: "nat list \<Rightarrow> ustr" where
  "digit_codes ds = map ((+) 48) ds"

definition int_codes :: "int \<Rightarrow> ustr" where
  "int_codes i =
     (if i < 0 then 45 # digit_codes (dec_digits (nat (- i)))
      else digit_codes (dec_digits (nat i)))"

definition lstrip0 :: "nat list \<Rightarrow> nat list" where
  "lstrip0 ds = dropWhile (\<lambda>d. d = 0) ds"

definition rstrip0 :: "nat list \<Rightarrow> nat list" where
  "rstrip0 ds = rev (dropWhile (\<lambda>d. d = 0) (rev ds))"

text \<open>ECMAScript number text from the digits of \<^verbatim>\<open>repr\<close>: \<open>n\<close> is the position of the point.\<close>

definition es6_layout :: "nat list \<Rightarrow> int \<Rightarrow> ustr" where
  "es6_layout digits n =
     (let k = int (length digits); ds = digit_codes digits in
      if k \<le> n \<and> n \<le> 21 then ds @ replicate (nat (n - k)) 48
      else if 0 < n \<and> n \<le> 21 then take (nat n) ds @ [46] @ drop (nat n) ds
      else if - 6 < n \<and> n \<le> 0 then [48, 46] @ replicate (nat (- n)) 48 @ ds
      else
        (let e = n - 1;
             exp_text = 101 # (if 0 \<le> e then 43 else 45) # digit_codes (dec_digits (nat \<bar>e\<bar>)) in
         if k = 1 then ds @ exp_text else take 1 ds @ [46] @ drop 1 ds @ exp_text))"

definition es6_number :: "pyfloat \<Rightarrow> canon_error + ustr" where
  "es6_number v = (case v of
      FNan \<Rightarrow> Inl CanonicalizationError
    | FInf _ \<Rightarrow> Inl CanonicalizationError
    | FFin neg int_part frac_part exp_part \<Rightarrow>
        if list_all (\<lambda>d. d = 0) (int_part @ frac_part) then Inr [48]
        else
          (let sgn' = (if neg then [45] else []);
               ex = get_default 0 exp_part;
               stripped = lstrip0 frac_part;
               (digits, n) =
                 (if int_part = [0]
                  then (stripped, - (int (length frac_part) - int (length stripped)) + ex)
                  else (lstrip0 (int_part @ frac_part), int (length int_part) + ex));
               digits' = (if rstrip0 digits = [] then [0] else rstrip0 digits)
           in Inr (sgn' @ es6_layout digits' n)))"

fun join_commas :: "ustr list \<Rightarrow> ustr" where
  "join_commas [] = []"
| "join_commas (x # xs) = x @ concat (map (\<lambda>s. 44 # s) xs)"

fun serialize :: "ustr jval \<Rightarrow> canon_error + ustr" where
  "serialize JNull = Inr (codes ''null'')"
| "serialize (JBool b) = Inr (if b then codes ''true'' else codes ''false'')"
| "serialize (JInt i) = Inr (int_codes i)"
| "serialize (JFloat x) = es6_number x"
| "serialize (JStr s) = Inr (escape_string s)"
| "serialize (JObj kvs) =
     (if list_ex (\<lambda>(k, _). list_ex surrogate k) kvs then Inl UnicodeEncodeError
      else
        bind_res
          (sequence_res
            (map (\<lambda>(k, r). bind_res r (\<lambda>s. Inr (escape_string k @ 58 # s)))
              (sort_key (\<lambda>(k, _). utf16_be k) (map (\<lambda>(k, v). (k, serialize v)) kvs))))
          (\<lambda>items. Inr (123 # join_commas items @ [125])))"
| "serialize (JArr vs) =
     bind_res (sequence_res (map serialize vs)) (\<lambda>items. Inr (91 # join_commas items @ [93]))"
| "serialize JBadKeys = Inl CanonicalizationError"
| "serialize JOpaque = Inl CanonicalizationError"

definition canonical_json :: "ustr jval \<Rightarrow> canon_error + bytes" where
  "canonical_json v = bind_res (serialize v) utf8_encode"

section \<open>Normal forms\<close>

text \<open>The value with every object's members in key order, and its text printed in that order.\<close>

fun normal :: "ustr jval \<Rightarrow> ustr jval" where
  "normal (JObj kvs) =
     JObj (sort_key (\<lambda>(k, _). utf16_be k) (map (\<lambda>(k, v). (k, normal v)) kvs))"
| "normal (JArr vs) = JArr (map normal vs)"
| "normal v = v"

fun text_of :: "ustr jval \<Rightarrow> ustr" where
  "text_of JNull = codes ''null''"
| "text_of (JBool b) = (if b then codes ''true'' else codes ''false'')"
| "text_of (JInt i) = int_codes i"
| "text_of (JStr s) = escape_string s"
| "text_of (JObj kvs) =
     123 # join_commas (map (\<lambda>(k, v). escape_string k @ 58 # text_of v) kvs) @ [125]"
| "text_of (JArr vs) = 91 # join_commas (map text_of vs) @ [93]"
| "text_of _ = []"

text \<open>Values without floats; every string of such a value is a Python string.\<close>

fun float_free :: "ustr jval \<Rightarrow> bool" where
  "float_free (JFloat _) = False"
| "float_free (JObj kvs) = list_all (\<lambda>(k, v). float_free v) kvs"
| "float_free (JArr vs) = list_all float_free vs"
| "float_free _ = True"

fun code_points :: "ustr jval \<Rightarrow> bool" where
  "code_points (JStr s) = list_all (\<lambda>c. c < 1114112) s"
| "code_points (JObj kvs) = list_all (\<lambda>(k, v). list_all (\<lambda>c. c < 1114112) k \<and> code_points v) kvs"
| "code_points (JArr vs) = list_all code_points vs"
| "code_points _ = True"


lemma insort_key_map_comm: "insort_key f (h x) (map h xs) = map h (insort_key (\<lambda>y. f (h y)) x xs)"
  by (induction xs) auto

lemma sort_key_map_comm: "sort_key f (map h xs) = map h (sort_key (\<lambda>y. f (h y)) xs)"
  by (induction xs) (auto simp: insort_key_map_comm)

lemma insort_key_cong_on:
  "(\<And>y. y \<in> insert x (set xs) \<Longrightarrow> f y = g y) \<Longrightarrow> insort_key f x xs = insort_key g x xs"
  by (induction xs) auto

lemma sort_pairs_map:
  "sort_key (\<lambda>p. f (fst p)) (map (\<lambda>p. (fst p, h (snd p))) kvs) =
   map (\<lambda>p. (fst p, h (snd p))) (sort_key (\<lambda>p. f (fst p)) kvs)"
  by (simp add: sort_key_map_comm)

text \<open>Serialization sorts keys itself, so it does not see the difference to the normal form.\<close>

lemma sort_key_sorted: "sort_key f (sort_key f xs) = sort_key f xs"
  by (rule sort_key_id_if_sorted) simp

lemma serialize_normal: "serialize (normal v) = serialize v"
proof (induction v rule: normal.induct)
  case (1 kvs)
  let ?srt = "sort_key (\<lambda>p. utf16_be (fst p))"
  have set_eq: "list_ex Q (?srt (map (\<lambda>p. (fst p, normal (snd p))) kvs)) \<longleftrightarrow>
      list_ex Q (map (\<lambda>p. (fst p, normal (snd p))) kvs)" for Q
    by (simp add: list_ex_iff)
  have "map (\<lambda>p. (fst p, serialize (snd p))) (?srt (map (\<lambda>p. (fst p, normal (snd p))) kvs)) =
      map (\<lambda>p. (fst p, serialize (snd p))) (?srt kvs)"
    using 1 [of p "fst p" "snd p" for p] by (simp add: sort_pairs_map comp_def)
  then have "?srt (map (\<lambda>p. (fst p, serialize (snd p))) (?srt (map (\<lambda>p. (fst p, normal (snd p))) kvs)))
      = ?srt (map (\<lambda>p. (fst p, serialize (snd p))) (?srt kvs))"
    by (simp only:)
  also have "\<dots> = ?srt (map (\<lambda>p. (fst p, serialize (snd p))) kvs)"
    by (simp add: sort_pairs_map sort_key_sorted)
  finally have "?srt (map (\<lambda>p. (fst p, serialize (snd p))) (?srt (map (\<lambda>p. (fst p, normal (snd p))) kvs)))
      = ?srt (map (\<lambda>p. (fst p, serialize (snd p))) kvs)" .
  then show ?case by (simp add: case_prod_unfold set_eq list_ex_iff)
next
  case (2 vs)
  then have "map serialize (map normal vs) = map serialize vs" by simp
  then show ?case by (simp only: normal.simps serialize.simps)
qed simp_all

lemma float_free_normal: "float_free (normal v) \<longleftrightarrow> float_free v"
proof (induction v rule: normal.induct)
  case (1 kvs)
  then show ?case by (fastforce simp: list_all_iff)
qed (auto simp: list_all_iff)

section \<open>Correctness of the text\<close>

lemma serialize_text:
  "serialize v = Inr s \<Longrightarrow> float_free v \<Longrightarrow> s = text_of (normal v)"
proof (induction v arbitrary: s rule: serialize.induct)
  case (6 kvs)
  let ?srt = "sort_key (\<lambda>(k, _). utf16_be k)"
  let ?item = "\<lambda>(k, v). escape_string k @ 58 # text_of (normal v)"
  from 6 obtain items where
    items: "map (\<lambda>(k, r). bind_res r (\<lambda>s. Inr (escape_string k @ 58 # s)))
              (?srt (map (\<lambda>(k, v). (k, serialize v)) kvs)) = map Inr items"
    and s: "s = 123 # join_commas items @ [125]"
    and nosur: "\<not> list_ex (\<lambda>(k, _). list_ex surrogate k) kvs"
    by (auto simp: res_simps split: if_splits)
  have eq: "map (\<lambda>(k, v). bind_res (serialize v) (\<lambda>s. Inr (escape_string k @ 58 # s))) (?srt kvs)
      = map Inr items"
    using items by (simp add: sort_pairs_map case_prod_unfold comp_def)
  have "map ?item (?srt kvs) = items"
  proof (rule nth_equalityI)
    show len: "length (map ?item (?srt kvs)) = length items"
      using arg_cong [OF eq, of length] by simp
    fix i
    assume i: "i < length (map ?item (?srt kvs))"
    obtain k v where kv: "?srt kvs ! i = (k, v)" by fastforce
    have mem: "(k, v) \<in> set kvs"
      using i kv by (metis length_map length_sort nth_mem set_sort)
    have "bind_res (serialize v) (\<lambda>s. Inr (escape_string k @ 58 # s)) = Inr (items ! i)"
      using arg_cong [OF eq, of "\<lambda>l. l ! i"] i kv len by simp
    then obtain t where t: "serialize v = Inr t" "items ! i = escape_string k @ 58 # t"
      by (auto simp: res_simps)
    moreover have "float_free v" using 6(3) mem by (auto simp: list_all_iff)
    ultimately have "t = text_of (normal v)" using 6(1) [OF nosur mem] by auto
    then show "map ?item (?srt kvs) ! i = items ! i"
      using i kv t by simp
  qed
  then show ?case
    using s by (simp add: sort_pairs_map case_prod_unfold comp_def)
next
  case (7 vs)
  then obtain items where items: "map serialize vs = map Inr items"
    and s: "s = 91 # join_commas items @ [93]"
    by (auto simp: res_simps)
  have len: "length items = length vs" using arg_cong [OF items, of length] by simp
  have "items = map (text_of \<circ> normal) vs"
  proof (rule nth_equalityI)
    fix i
    assume "i < length items"
    then have i: "i < length vs" using len by simp
    then have "serialize (vs ! i) = Inr (items ! i)"
      using arg_cong [OF items, of "\<lambda>l. l ! i"] len by simp
    moreover have "float_free (vs ! i)" using 7(3) i by (auto simp: list_all_length)
    ultimately show "items ! i = map (text_of \<circ> normal) vs ! i" using 7(1) i by simp
  qed (simp add: len)
  then show ?case using s by simp
qed simp_all

section \<open>The text determines the value\<close>

definition no_digit :: "ustr \<Rightarrow> bool" where
  "no_digit r \<longleftrightarrow> r = [] \<or> \<not> (48 \<le> hd r \<and> hd r \<le> 57)"

lemma no_digit_simps [simp]: "no_digit []" "no_digit (c # r) \<longleftrightarrow> \<not> (48 \<le> c \<and> c \<le> 57)"
  by (simp_all add: no_digit_def)

text \<open>Reading one escaped character back.\<close>

definition hex_val :: "nat \<Rightarrow> nat" where
  "hex_val c = (if c < 58 then c - 48 else c - 87)"

lemma hex_val_digit [simp]: "d < 16 \<Longrightarrow> hex_val (hex_digit d) = d"
  by (simp add: hex_val_def hex_digit_def)

definition unescape :: "ustr \<Rightarrow> nat \<times> ustr" where
  "unescape s =
     (if hd s = 92 then
        (let c = s ! 1 in
         if c = 117 then
           (4096 * hex_val (s ! 2) + 256 * hex_val (s ! 3) + 16 * hex_val (s ! 4) + hex_val (s ! 5),
            drop 6 s)
         else (if c = 98 then 8 else if c = 116 then 9 else if c = 110 then 10
               else if c = 102 then 12 else if c = 114 then 13 else c, drop 2 s))
      else (hd s, tl s))"

lemma unescape_escape: "unescape (escape_char c @ r) = (c, r)"
proof (cases "c < 32")
  case True
  then have "c div 4096 = 0" "c div 256 = 0" "c div 16 < 16" by simp_all
  moreover have "16 * (c div 16) + c mod 16 = c" by simp
  moreover have "hex_digit 0 = 48" "hex_val 48 = 0" by (simp_all add: hex_digit_def hex_val_def)
  ultimately have u: "unescape (92 # 117 # hex_digit (c div 4096) # hex_digit (c div 256 mod 16)
      # hex_digit (c div 16 mod 16) # hex_digit (c mod 16) # r) = (c, r)"
    by (simp add: unescape_def Let_def)
  show ?thesis
  proof (cases "c \<in> {8, 9, 10, 12, 13}")
    case True
    then show ?thesis
      by (elim insertE emptyE) (simp_all add: unescape_def escape_char_def)
  next
    case False
    with \<open>c < 32\<close> have "escape_char c @ r = 92 # 117 # hex_digit (c div 4096)
        # hex_digit (c div 256 mod 16) # hex_digit (c div 16 mod 16) # hex_digit (c mod 16) # r"
      unfolding escape_char_def by simp
    with u show ?thesis by simp
  qed
next
  case False
  then show ?thesis by (auto simp: unescape_def escape_char_def Let_def)
qed

lemma escape_char_prefix_code:
  "escape_char c @ r = escape_char c' @ r' \<Longrightarrow> c = c' \<and> r = r'"
  by (metis unescape_escape prod.inject)

lemma escape_char_not_quote: "escape_char c \<noteq> [] \<and> hd (escape_char c) \<noteq> 34"
  by (auto simp: escape_char_def)

lemma escape_head: "\<exists>x xs. escape_char c = x # xs \<and> x \<noteq> 34"
  using escape_char_not_quote [of c] by (cases "escape_char c") auto

lemma escape_body_prefix_code:
  "concat (map escape_char s) @ 34 # r = concat (map escape_char s') @ 34 # r' \<Longrightarrow> s = s' \<and> r = r'"
proof (induction s arbitrary: s')
  case Nil
  then show ?case
  proof (cases s')
    case (Cons c t)
    with Nil escape_head [of c] show ?thesis by auto
  qed simp
next
  case (Cons c s)
  show ?case
  proof (cases s')
    case Nil
    with Cons.prems escape_head [of c] show ?thesis by auto
  next
    case s': (Cons c' t)
    have "escape_char c @ (concat (map escape_char s) @ 34 # r) =
      escape_char c' @ (concat (map escape_char t) @ 34 # r')"
      using Cons.prems s' by simp
    from escape_char_prefix_code [OF this] Cons.IH [of t] s' show ?thesis by blast
  qed
qed

lemma escape_string_prefix_code:
  "escape_string s @ r = escape_string s' @ r' \<Longrightarrow> s = s' \<and> r = r'"
  unfolding escape_string_def using escape_body_prefix_code [of s r s' r'] by simp

lemma digit_codes_prefix_code:
  assumes "digit_codes (dec_digits m) @ r = digit_codes (dec_digits n) @ r'"
    and "no_digit r" and "no_digit r'"
  shows "m = n \<and> r = r'"
proof -
  let ?dig = "\<lambda>c. 48 \<le> c \<and> c \<le> (57::nat)"
  have all: "\<forall>c \<in> set (digit_codes (dec_digits k)). ?dig c" for k
    using dec_digits_range [of _ k] by (fastforce simp: digit_codes_def)
  have stop: "takeWhile ?dig q = []" "dropWhile ?dig q = q" if "no_digit q" for q
    using that by (cases q; auto)+
  have tw: "takeWhile ?dig (digit_codes (dec_digits k) @ q) = digit_codes (dec_digits k)"
    "dropWhile ?dig (digit_codes (dec_digits k) @ q) = q" if "no_digit q" for k q
    using all [of k] stop [OF that] by (simp_all add: takeWhile_append2 dropWhile_append2)
  have "digit_codes (dec_digits m) = digit_codes (dec_digits n)" "r = r'"
    using tw [OF assms(2), of m] tw [OF assms(3), of n] assms(1) by metis+
  then show ?thesis
    using dec_digits_inj inj_mapD [of "(+) (48::nat)"] by (auto simp: digit_codes_def)
qed

lemma digit_codes_hd: "hd (digit_codes (dec_digits n) @ r) \<in> {48..57}"
proof -
  have "hd (dec_digits n) < 10" by (rule dec_digits_range [of _ n]) simp
  then show ?thesis by (simp add: digit_codes_def hd_map)
qed

lemma int_codes_head: "hd (int_codes i @ r) = 45 \<longleftrightarrow> i < 0"
  using digit_codes_hd [of "nat i" r] by (auto simp: int_codes_def)

lemma int_codes_prefix_code:
  assumes eq: "int_codes i @ r = int_codes j @ r'" and nd: "no_digit r" "no_digit r'"
  shows "i = j \<and> r = r'"
proof -
  have sgn: "i < 0 \<longleftrightarrow> j < 0"
    using int_codes_head [of i r] int_codes_head [of j r'] eq by simp
  show ?thesis
  proof (cases "i < 0")
    case True
    with eq sgn have "digit_codes (dec_digits (nat (- i))) @ r =
        digit_codes (dec_digits (nat (- j))) @ r'"
      by (simp add: int_codes_def)
    from digit_codes_prefix_code [OF this nd] True sgn show ?thesis by auto
  next
    case False
    with eq sgn have "digit_codes (dec_digits (nat i)) @ r = digit_codes (dec_digits (nat j)) @ r'"
      by (simp add: int_codes_def)
    from digit_codes_prefix_code [OF this nd] False sgn show ?thesis by auto
  qed
qed

text \<open>The first character tells the constructor.\<close>

datatype jkind = KNull | KTrue | KFalse | KInt | KStr | KObj | KArr

definition kind_of_head :: "nat \<Rightarrow> jkind" where
  "kind_of_head c =
     (if c = 110 then KNull else if c = 116 then KTrue else if c = 102 then KFalse
      else if c = 34 then KStr else if c = 123 then KObj else if c = 91 then KArr else KInt)"

fun kind_of :: "ustr jval \<Rightarrow> jkind" where
  "kind_of JNull = KNull"
| "kind_of (JBool b) = (if b then KTrue else KFalse)"
| "kind_of (JStr _) = KStr"
| "kind_of (JObj _) = KObj"
| "kind_of (JArr _) = KArr"
| "kind_of _ = KInt"

text \<open>Values the serializer accepts.\<close>

fun printable :: "ustr jval \<Rightarrow> bool" where
  "printable (JFloat _) = False"
| "printable JBadKeys = False"
| "printable JOpaque = False"
| "printable (JObj kvs) = list_all (\<lambda>(k, v). printable v) kvs"
| "printable (JArr vs) = list_all printable vs"
| "printable _ = True"

lemma text_of_head:
  assumes "printable v"
  shows "text_of v \<noteq> [] \<and> kind_of_head (hd (text_of v)) = kind_of v \<and>
    hd (text_of v) \<notin> {44, 93, 125}"
proof (cases v)
  case (JInt i)
  then show ?thesis
    using digit_codes_hd [of "nat i" "[]"]
    by (auto simp: int_codes_def kind_of_head_def digit_codes_def)
qed (use assms in \<open>auto simp: codes_def kind_of_head_def escape_string_def\<close>)

lemma text_kind:
  assumes "printable v" and "printable w" and "text_of v @ r = text_of w @ r'"
  shows "kind_of v = kind_of w"
  using text_of_head [OF assms(1)] text_of_head [OF assms(2)] assms(3)
  by (metis hd_append2)

text \<open>A comma-separated list of items closed by a bracket, for any prefix code of items.\<close>

definition prefix_code_on :: "('a \<Rightarrow> ustr) \<Rightarrow> 'a set \<Rightarrow> 'a set \<Rightarrow> bool" where
  "prefix_code_on f A B \<longleftrightarrow>
     (\<forall>x\<in>A. \<forall>y\<in>B. \<forall>r r'. no_digit r \<longrightarrow> no_digit r' \<longrightarrow> f x @ r = f y @ r' \<longrightarrow> x = y \<and> r = r')"

lemma items_tail_prefix_code:
  assumes "prefix_code_on f (set xs) (set ys)" and "e \<noteq> 44" and "\<not> (48 \<le> e \<and> e \<le> 57)"
    and "concat (map (\<lambda>s. 44 # s) (map f xs)) @ e # r = concat (map (\<lambda>s. 44 # s) (map f ys)) @ e # r'"
  shows "xs = ys \<and> r = r'"
  using assms
proof (induction xs arbitrary: ys)
  case Nil
  then show ?case by (cases ys) auto
next
  case (Cons x xs)
  show ?case
  proof (cases ys)
    case Nil
    with Cons.prems show ?thesis by auto
  next
    case (Cons y zs)
    let ?t = "\<lambda>us. concat (map (\<lambda>s. 44 # s) (map f us))"
    have nd: "no_digit (?t us @ e # q)" for us q
      using Cons.prems(3) by (cases us) auto
    have "f x @ (?t xs @ e # r) = f y @ (?t zs @ e # r')"
      using Cons.prems(4) Cons by simp
    with Cons.prems(1) Cons nd have "x = y \<and> ?t xs @ e # r = ?t zs @ e # r'"
      unfolding prefix_code_on_def by (meson list.set_intros(1))
    moreover have "prefix_code_on f (set xs) (set zs)"
      using Cons.prems(1) Cons unfolding prefix_code_on_def by (meson list.set_intros(2))
    ultimately show ?thesis using Cons.IH [of zs] Cons.prems(2,3) Cons by auto
  qed
qed

lemma items_prefix_code:
  assumes code: "prefix_code_on f (set xs) (set ys)" and e: "e \<noteq> 44" "\<not> (48 \<le> e \<and> e \<le> 57)"
    and hd: "\<And>x. x \<in> set xs \<union> set ys \<Longrightarrow> f x \<noteq> [] \<and> hd (f x) \<noteq> e"
    and eq: "join_commas (map f xs) @ e # r = join_commas (map f ys) @ e # r'"
  shows "xs = ys \<and> r = r'"
proof (cases xs; cases ys)
  fix y zs
  assume "xs = []" "ys = y # zs"
  with eq hd [of y] show ?thesis by (cases "f y") auto
next
  fix x us
  assume "xs = x # us" "ys = []"
  with eq hd [of x] show ?thesis by (cases "f x") auto
next
  fix x us y zs
  assume xs: "xs = x # us" "ys = y # zs"
  let ?t = "\<lambda>us. concat (map (\<lambda>s. 44 # s) (map f us))"
  have nd: "no_digit (?t vs @ e # q)" for vs q using e by (cases vs) auto
  from eq xs have "f x @ (?t us @ e # r) = f y @ (?t zs @ e # r')" by simp
  with code xs nd have "x = y \<and> ?t us @ e # r = ?t zs @ e # r'"
    unfolding prefix_code_on_def by (meson list.set_intros(1))
  moreover have "prefix_code_on f (set us) (set zs)"
    using code xs unfolding prefix_code_on_def by (meson list.set_intros(2))
  ultimately show ?thesis using items_tail_prefix_code [of f us zs e r r'] e xs by auto
qed (use eq in auto)

lemma text_of_prefix_code:
  assumes "printable v" and "printable w" and "no_digit r" and "no_digit r'"
    and "text_of v @ r = text_of w @ r'"
  shows "v = w \<and> r = r'"
  using assms
proof (induction v arbitrary: w r r' rule: text_of.induct)
  case (3 i)
  then obtain j where "w = JInt j"
    using text_kind [OF 3(1,2,5)] by (cases w) (auto split: if_splits)
  with 3 show ?case using int_codes_prefix_code [of i r j r'] by simp
next
  case (4 s)
  then obtain t where "w = JStr t"
    using text_kind [OF 4(1,2,5)] by (cases w) (auto split: if_splits)
  with 4 show ?case using escape_string_prefix_code [of s r t r'] by simp
next
  case (5 kvs)
  let ?f = "\<lambda>(k, v). escape_string k @ 58 # text_of v"
  obtain kws where w: "w = JObj kws"
    using text_kind [OF 5(2,3,6)] 5(3) by (cases w) (auto split: if_splits)
  have "prefix_code_on ?f (set kvs) (set kws)"
    unfolding prefix_code_on_def
  proof (intro ballI allI impI)
    fix x y q q'
    assume xy: "x \<in> set kvs" "y \<in> set kws" "no_digit q" "no_digit q'" "?f x @ q = ?f y @ q'"
    obtain k v k' v' where kv: "x = (k, v)" "y = (k', v')" by fastforce
    then have "k = k' \<and> 58 # text_of v @ q = 58 # text_of v' @ q'"
      using xy escape_string_prefix_code [of k "58 # text_of v @ q" k' "58 # text_of v' @ q'"]
      by simp
    moreover have "printable v" "printable v'"
      using 5(2,3) w xy kv by (auto simp: list_all_iff)
    ultimately show "x = y \<and> q = q'"
      using 5(1) [of x k v v' q q'] xy kv by auto
  qed
  then have "kvs = kws \<and> r = r'"
    by (rule items_prefix_code [where e = 125])
      (use 5(6) w in \<open>auto simp: escape_string_def\<close>)
  then show ?case using w by simp
next
  case (6 vs)
  obtain ws where w: "w = JArr ws"
    using text_kind [OF 6(2,3,6)] 6(3) by (cases w) (auto split: if_splits)
  have pr: "printable u" if "u \<in> set vs \<union> set ws" for u
    using that 6(2,3) w by (auto simp: list_all_iff)
  have "prefix_code_on text_of (set vs) (set ws)"
    unfolding prefix_code_on_def using 6(1) pr by blast
  then have "vs = ws \<and> r = r'"
    by (rule items_prefix_code [where e = 93])
      (use 6(6) w pr text_of_head in auto)
  then show ?case using w by simp
next
  case 1
  then show ?case using text_kind [OF 1(1,2,5)] by (cases w) (auto split: if_splits)
next
  case (2 b)
  then show ?case using text_kind [OF 2(1,2,5)] by (cases w) (auto split: if_splits)
qed simp_all

section \<open>The encodings are injective\<close>

text \<open>
  A character code with a decoder for its first character is injective on the lists it can encode.
\<close>

lemma concat_code_inj:
  assumes dec: "\<And>c r. P c \<Longrightarrow> dec (enc c @ r) = (c, r)"
    and ne: "\<And>c. P c \<Longrightarrow> enc c \<noteq> []"
    and eq: "concat (map enc s) = concat (map enc t)"
    and ps: "list_all P s" "list_all P t"
  shows "s = t"
  using eq ps
proof (induction s arbitrary: t)
  case Nil
  then show ?case using ne by (cases t) auto
next
  case (Cons c s)
  then obtain d u where t: "t = d # u" using ne by (cases t) auto
  then have "enc c @ concat (map enc s) = enc d @ concat (map enc u)" "P c" "P d"
    using Cons.prems by auto
  then have "(c, concat (map enc s)) = (d, concat (map enc u))"
    by (metis dec)
  then show ?case using Cons.IH [of u] Cons.prems t by simp
qed

definition utf8_next :: "bytes \<Rightarrow> nat \<times> bytes" where
  "utf8_next b =
     (if hd b < 128 then (hd b, tl b)
      else if hd b < 224 then ((hd b - 192) * 64 + (b ! 1 - 128), drop 2 b)
      else if hd b < 240 then
        ((hd b - 224) * 4096 + (b ! 1 - 128) * 64 + (b ! 2 - 128), drop 3 b)
      else ((hd b - 240) * 262144 + (b ! 1 - 128) * 4096 + (b ! 2 - 128) * 64 + (b ! 3 - 128),
            drop 4 b))"

lemma base64_3: "c div 4096 * 4096 + c div 64 mod 64 * 64 + c mod 64 = (c::nat)"
proof -
  have "c div 64 div 64 = c div 4096" by (simp flip: div_mult2_eq)
  moreover have "c div 64 div 64 * 64 + c div 64 mod 64 = c div 64" by simp
  moreover have "c div 64 * 64 + c mod 64 = c" by simp
  ultimately show ?thesis by linarith
qed

lemma base64_4:
  "c div 262144 * 262144 + c div 4096 mod 64 * 4096 + c div 64 mod 64 * 64 + c mod 64 = (c::nat)"
proof -
  have "c div 4096 div 64 = c div 262144" by (simp flip: div_mult2_eq)
  moreover have "c div 4096 div 64 * 64 + c div 4096 mod 64 = c div 4096" by simp
  ultimately show ?thesis using base64_3 [of c] by linarith
qed

lemma utf8_next_char:
  assumes "c < 1114112"
  shows "utf8_next (utf8_char c @ r) = (c, r)"
proof -
  consider "c < 128" | "128 \<le> c" "c < 2048" | "2048 \<le> c" "c < 65536" | "65536 \<le> c"
    by linarith
  then show ?thesis
  proof cases
    case 3
    then have "c div 4096 < 16" by simp
    with 3 base64_3 [of c] show ?thesis by (simp add: utf8_char_def utf8_next_def)
  next
    case 4
    with base64_4 [of c] show ?thesis by (simp add: utf8_char_def utf8_next_def)
  qed (auto simp: utf8_char_def utf8_next_def)
qed

lemma utf8_encode_inj:
  assumes "utf8_encode s = Inr b" and "utf8_encode t = Inr b"
    and "list_all (\<lambda>c. c < 1114112) s" and "list_all (\<lambda>c. c < 1114112) t"
  shows "s = t"
proof (rule concat_code_inj [where enc = utf8_char and dec = utf8_next])
  show "concat (map utf8_char s) = concat (map utf8_char t)"
    using assms(1,2) by (auto simp: utf8_encode_def split: if_splits)
  show "utf8_next (utf8_char c @ r) = (c, r)" if "c < 1114112" for c r
    using that by (rule utf8_next_char)
  show "utf8_char c \<noteq> []" for c
    by (simp add: utf8_char_def)
qed (use assms in auto)

definition utf16_next :: "nat list \<Rightarrow> nat \<times> nat list" where
  "utf16_next us =
     (if 55296 \<le> hd us \<and> hd us < 56320
      then (65536 + (hd us - 55296) * 1024 + (us ! 1 - 56320), drop 2 us)
      else (hd us, tl us))"

lemma utf16_next_units:
  assumes "c < 1114112" and "\<not> surrogate c"
  shows "utf16_next (utf16_units c @ r) = (c, r)"
proof (cases "c < 65536")
  case True
  with assms show ?thesis by (auto simp: utf16_next_def utf16_units_def surrogate_def)
next
  case False
  let ?d = "c - 65536"
  have "?d div 1024 < 1024" using assms by simp
  moreover have "65536 + ?d div 1024 * 1024 + ?d mod 1024 = c" using False by presburger
  ultimately show ?thesis using False by (simp add: utf16_next_def utf16_units_def)
qed

lemma utf16_be_inj:
  assumes eq: "utf16_be s = utf16_be t"
    and s: "list_all (\<lambda>c. c < 1114112 \<and> \<not> surrogate c) s"
    and t: "list_all (\<lambda>c. c < 1114112 \<and> \<not> surrogate c) t"
  shows "s = t"
proof -
  have units: "concat (map utf16_units s) = concat (map utf16_units t)"
  proof (rule concat_code_inj [where enc = "\<lambda>u. [u div 256, u mod 256]" and P = "\<lambda>_. True"
        and dec = "\<lambda>b. (256 * hd b + b ! 1, drop 2 b)"])
    show "concat (map (\<lambda>u. [u div 256, u mod 256]) (concat (map utf16_units s))) =
        concat (map (\<lambda>u. [u div 256, u mod 256]) (concat (map utf16_units t)))"
      using eq by (simp add: utf16_be_def)
  qed (auto simp: list_all_iff)
  show ?thesis
    by (rule concat_code_inj [OF _ _ units s t, where dec = utf16_next])
      (auto simp: utf16_next_units, auto simp: utf16_units_def split: if_splits)
qed

section \<open>Main results\<close>

lemma serialize_printable: "serialize v = Inr s \<Longrightarrow> float_free v \<Longrightarrow> printable v"
proof (induction v arbitrary: s rule: serialize.induct)
  case (6 kvs)
  let ?srt = "sort_key (\<lambda>p. utf16_be (fst p))"
  from 6 obtain items where
    nosur: "\<not> list_ex (\<lambda>(k, _). list_ex surrogate k) kvs"
    and eq: "map (\<lambda>p. bind_res (serialize (snd p)) (\<lambda>s. Inr (escape_string (fst p) @ 58 # s)))
      (?srt kvs) = map Inr items"
    by (auto simp: res_simps case_prod_unfold sort_pairs_map comp_def split: if_splits)
  have "printable v" if mem: "(k, v) \<in> set kvs" for k v
  proof -
    have "bind_res (serialize v) (\<lambda>s. Inr (escape_string k @ 58 # s)) \<in> set (map Inr items)"
      using mem by (subst eq [symmetric]) force
    then obtain t where "serialize v = Inr t" by (auto simp: res_simps)
    moreover have "float_free v" using 6(3) mem by (auto simp: list_all_iff)
    ultimately show ?thesis using 6(1) [OF nosur mem] by auto
  qed
  then show ?case by (auto simp: list_all_iff)
next
  case (7 vs)
  then obtain items where "map serialize vs = map Inr items" by (auto simp: res_simps)
  then have "\<exists>t. serialize v = Inr t" if "v \<in> set vs" for v
    using that by (metis (no_types, lifting) image_iff list.set_map)
  with 7 show ?case by (force simp: list_all_iff)
qed simp_all

lemma printable_normal: "printable v \<Longrightarrow> printable (normal v)"
  by (induction v rule: normal.induct) (auto simp: list_all_iff)

abbreviation valid_points :: "ustr \<Rightarrow> bool" where
  "valid_points s \<equiv> list_all (\<lambda>c. c < 1114112) s"

lemma valid_join: "list_all valid_points xs \<Longrightarrow> valid_points (join_commas xs)"
  by (cases xs) (auto simp: list_all_iff)

lemma hex_digit_bound: "d < 16 \<Longrightarrow> hex_digit d < 1114112"
  by (simp add: hex_digit_def)

lemma valid_escape_char: "c < 1114112 \<Longrightarrow> valid_points (escape_char c)"
  using hex_digit_bound [of "c div 4096"] by (simp add: escape_char_def hex_digit_bound)

lemma valid_escape: "valid_points s \<Longrightarrow> valid_points (escape_string s)"
  using valid_escape_char by (fastforce simp: escape_string_def list_all_iff)

lemma valid_codes: "valid_points (codes s)"
  by (auto simp: codes_def list_all_iff intro: less_le_trans [OF nat_of_char_less_256])

lemma valid_int_codes: "valid_points (int_codes i)"
  using dec_digits_range by (force simp: int_codes_def digit_codes_def list_all_iff)

lemma valid_text: "code_points v \<Longrightarrow> valid_points (text_of v)"
proof (induction v rule: text_of.induct)
  case (5 kvs)
  have "list_all valid_points (map (\<lambda>(k, v). escape_string k @ 58 # text_of v) kvs)"
    using 5 valid_escape by (fastforce simp: list_all_iff)
  then show ?case using valid_join by simp
next
  case (6 vs)
  then have "list_all valid_points (map text_of vs)" by (auto simp: list_all_iff)
  then show ?case using valid_join by simp
qed (auto simp: valid_escape valid_int_codes valid_codes)

lemma code_points_normal: "code_points v \<Longrightarrow> code_points (normal v)"
  by (induction v rule: normal.induct) (auto simp: list_all_iff)

text \<open>Serialization succeeds on every printable value without surrogates.\<close>

fun encodable :: "ustr jval \<Rightarrow> bool" where
  "encodable (JStr s) = list_all (\<lambda>c. \<not> surrogate c) s"
| "encodable (JObj kvs) = list_all (\<lambda>(k, v). list_all (\<lambda>c. \<not> surrogate c) k \<and> encodable v) kvs"
| "encodable (JArr vs) = list_all encodable vs"
| "encodable _ = True"

lemma serialize_total:
  "printable v \<Longrightarrow> encodable v \<Longrightarrow> serialize v = Inr (text_of (normal v))"
proof (induction v rule: serialize.induct)
  case (6 kvs)
  let ?srt = "sort_key (\<lambda>p. utf16_be (fst p))"
  have nosur: "\<not> list_ex (\<lambda>(k, _). list_ex surrogate k) kvs"
    using 6(3) by (fastforce simp: list_all_iff list_ex_iff)
  have "serialize (snd p) = Inr (text_of (normal (snd p)))" if "p \<in> set kvs" for p
    using 6(1) [OF nosur, of p "fst p" "snd p"] 6(2,3) that
    by (auto simp: list_all_iff case_prod_unfold)
  then have "sequence_res (map (\<lambda>p. bind_res (serialize (snd p))
      (\<lambda>s. Inr (escape_string (fst p) @ 58 # s))) (?srt kvs)) =
    Inr (map (\<lambda>p. escape_string (fst p) @ 58 # text_of (normal (snd p))) (?srt kvs))"
    by (subst sequence_res_eq_Inr) simp
  then show ?case using nosur by (simp add: case_prod_unfold sort_pairs_map comp_def)
next
  case (7 vs)
  then have "sequence_res (map serialize vs) = Inr (map (\<lambda>v. text_of (normal v)) vs)"
    by (subst sequence_res_eq_Inr) (auto simp: list_all_iff)
  then show ?case by (simp add: comp_def)
qed simp_all

abbreviation no_surrogates :: "ustr \<Rightarrow> bool" where
  "no_surrogates s \<equiv> list_all (\<lambda>c. \<not> surrogate c) s"

lemma no_surrogates_small: "list_all (\<lambda>c. c < 55296) s \<Longrightarrow> no_surrogates s"
  by (auto simp: list_all_iff surrogate_def)

lemma no_surrogates_join: "list_all no_surrogates xs \<Longrightarrow> no_surrogates (join_commas xs)"
  by (cases xs) (auto simp: list_all_iff surrogate_def)

lemma no_surrogates_escape_char: "\<not> surrogate c \<Longrightarrow> no_surrogates (escape_char c)"
proof (cases "c < 32")
  case True
  have hex: "\<not> surrogate (hex_digit (d mod 16))" for d
    by (simp add: surrogate_def hex_digit_def not_le less_le_trans [OF mod_less_divisor])
  from True hex [of "c div 4096"] hex [of "c div 256"] hex [of "c div 16"] hex [of c]
  show ?thesis by (simp add: escape_char_def surrogate_def)
qed (auto simp: escape_char_def surrogate_def)

lemma no_surrogates_escape: "no_surrogates s \<Longrightarrow> no_surrogates (escape_string s)"
  using no_surrogates_escape_char by (fastforce simp: escape_string_def list_all_iff surrogate_def)

lemma no_surrogates_codes: "no_surrogates (codes s)"
  by (rule no_surrogates_small)
    (auto simp: codes_def list_all_iff intro: less_le_trans [OF nat_of_char_less_256])

lemma no_surrogates_int: "no_surrogates (int_codes i)"
  using dec_digits_range
  by (intro no_surrogates_small) (force simp: int_codes_def digit_codes_def list_all_iff)

lemma no_surrogates_text: "encodable v \<Longrightarrow> no_surrogates (text_of v)"
proof (induction v rule: text_of.induct)
  case (5 kvs)
  have "list_all no_surrogates (map (\<lambda>(k, v). escape_string k @ 58 # text_of v) kvs)"
    using 5 no_surrogates_escape by (fastforce simp: list_all_iff surrogate_def)
  then show ?case using no_surrogates_join by (simp add: surrogate_def)
next
  case (6 vs)
  then have "list_all no_surrogates (map text_of vs)" by (auto simp: list_all_iff)
  then show ?case using no_surrogates_join by (simp add: surrogate_def)
qed (auto simp: no_surrogates_escape no_surrogates_int no_surrogates_codes)

lemma encodable_normal: "encodable v \<Longrightarrow> encodable (normal v)"
  by (induction v rule: normal.induct) (auto simp: list_all_iff)

lemma canonical_json_total:
  assumes "printable v" and "encodable v"
  shows "\<exists>b. canonical_json v = Inr b"
proof -
  have "no_surrogates (text_of (normal v))"
    using assms encodable_normal no_surrogates_text by blast
  then have "\<not> list_ex surrogate (text_of (normal v))" by (auto simp: list_all_iff list_ex_iff)
  then show ?thesis
    using serialize_total [OF assms] by (simp add: canonical_json_def utf8_encode_def)
qed

lemma canonical_json_inj:
  assumes v: "canonical_json v = Inr b" "float_free v" "code_points v"
    and w: "canonical_json w = Inr b" "float_free w" "code_points w"
  shows "normal v = normal w"
proof -
  have enc: "\<exists>s. utf8_encode s = Inr b \<and> s = text_of (normal u) \<and> printable (normal u)
      \<and> valid_points s"
    if "canonical_json u = Inr b" "float_free u" "code_points u" for u
    using that serialize_text serialize_printable printable_normal valid_text code_points_normal
    by (fastforce simp: canonical_json_def res_simps)
  from enc [OF v] enc [OF w] have "text_of (normal v) = text_of (normal w)"
    using utf8_encode_inj by blast
  with enc [OF v] enc [OF w] text_of_prefix_code [of "normal v" "normal w" "[]" "[]"]
  show ?thesis by simp
qed

text \<open>
  The values for which canonicalization is unambiguous: no float, every key a string, every
  character a Unicode scalar value.
\<close>

definition canonical_ok :: "ustr jval \<Rightarrow> bool" where
  "canonical_ok v \<longleftrightarrow> printable v \<and> code_points v \<and> encodable v"

lemma printable_float_free: "printable v \<Longrightarrow> float_free v"
  by (induction v rule: printable.induct) (auto simp: list_all_iff)

text \<open>
  C1. Canonicalization of a float-free value succeeds, and two values have the same canonical
  bytes exactly when they are the same value up to the order of object keys, so that a hash over
  the bytes commits to the value and to nothing else.
\<close>

theorem canonical_json_injective:
  assumes "canonical_ok v" and "canonical_ok w"
  shows "(\<exists>b. canonical_json v = Inr b) \<and>
         (canonical_json v = canonical_json w \<longleftrightarrow> normal v = normal w)"
proof -
  obtain b where b: "canonical_json v = Inr b"
    using assms canonical_json_total [of v] by (auto simp: canonical_ok_def)
  have ser: "serialize u = Inr (text_of (normal u))" if "canonical_ok u" for u
    using that serialize_total [of u] by (simp add: canonical_ok_def)
  have "canonical_json v = canonical_json w" if "normal v = normal w"
    unfolding canonical_json_def ser [OF assms(1)] ser [OF assms(2)] that ..
  moreover have "normal v = normal w" if "canonical_json v = canonical_json w"
    by (rule canonical_json_inj [of v b w])
      (use that assms b in \<open>auto simp: canonical_ok_def intro: printable_float_free\<close>)
  ultimately show ?thesis using b by blast
qed

definition sample_obj :: "ustr jval" where
  "sample_obj = JObj [([98], JInt 1), ([97], JArr [JNull, JStr [8364]])]"

definition sample_obj' :: "ustr jval" where
  "sample_obj' = JObj [([97], JArr [JNull, JStr [8364]]), ([98], JInt 1)]"

theorem canonical_json_injective_witness:
  "canonical_ok sample_obj \<and> canonical_ok sample_obj' \<and>
   canonical_json sample_obj = canonical_json sample_obj' \<and>
   canonical_json sample_obj \<noteq> canonical_json JNull"
proof -
  have ok: "canonical_ok sample_obj" "canonical_ok sample_obj'" "canonical_ok JNull"
    by (simp_all add: canonical_ok_def sample_obj_def sample_obj'_def surrogate_def)
  have "normal sample_obj = normal sample_obj'" "normal sample_obj \<noteq> normal JNull"
    by (simp_all add: sample_obj_def sample_obj'_def utf16_be_def utf16_units_def)
  then show ?thesis
    using ok canonical_json_injective [OF ok(1,2)] canonical_json_injective [OF ok(1,3)] by simp
qed

text \<open>
  The canonical bytes of an object do not depend on the insertion order of its keys.
\<close>

lemma canonical_json_key_order:
  assumes perm: "mset kvs = mset kvs'" and dist: "distinct (map fst kvs)"
    and pts: "code_points (JObj kvs)"
  shows "canonical_json (JObj kvs) = canonical_json (JObj kvs')"
proof -
  have set_eq: "set kvs = set kvs'" using perm by (metis set_mset_mset)
  show ?thesis
  proof (cases "list_ex (\<lambda>(k, _). list_ex surrogate k) kvs")
    case True
    then have "list_ex (\<lambda>(k, _). list_ex surrogate k) kvs'" using set_eq by (simp add: list_ex_iff)
    with True show ?thesis by (simp add: canonical_json_def)
  next
    case False
    then have nosur': "\<not> list_ex (\<lambda>(k, _). list_ex surrogate k) kvs'"
      using set_eq by (simp add: list_ex_iff)
    have inj: "p = q" if "p \<in> set kvs" "q \<in> set kvs" "utf16_be (fst p) = utf16_be (fst q)" for p q
    proof -
      have "list_all (\<lambda>c. c < 1114112 \<and> \<not> surrogate c) (fst p)" if "p \<in> set kvs" for p
        using that pts False by (fastforce simp: list_all_iff list_ex_iff)
      with that have "fst p = fst q" by (blast intro: utf16_be_inj)
      with that dist show ?thesis by (metis (no_types, lifting) distinct_map inj_on_def)
    qed
    have dist': "distinct kvs" "distinct kvs'"
      using dist perm by (auto simp: distinct_map dest: mset_eq_imp_distinct_iff)
    have "sort_key (\<lambda>p. utf16_be (fst p)) kvs' = sort_key (\<lambda>p. utf16_be (fst p)) kvs"
    proof (rule properties_for_sort_key)
      fix k
      assume "k \<in> set (sort_key (\<lambda>p. utf16_be (fst p)) kvs)"
      then have k: "k \<in> set kvs" by simp
      let ?P = "\<lambda>x. utf16_be (fst k) = utf16_be (fst x)"
      have single: "filter ?P l = [k]" if "set l = set kvs" "distinct l" for l
      proof -
        have "set (filter ?P l) = set [k]" using inj [OF k] k that(1) by fastforce
        then have "mset (filter ?P l) = {#k#}"
          using that(2) set_eq_iff_mset_eq_distinct [of "filter ?P l" "[k]"]
          by (simp del: mset_filter set_filter)
        then show ?thesis by (simp only: mset_single_iff)
      qed
      show "filter ?P (sort_key (\<lambda>p. utf16_be (fst p)) kvs) = filter ?P kvs'"
        using single [of kvs'] single [of "sort_key (\<lambda>p. utf16_be (fst p)) kvs"] dist' set_eq
        by simp
    qed (use perm in simp_all)
    then show ?thesis
      using False nosur' by (simp add: canonical_json_def case_prod_unfold sort_pairs_map)
  qed
qed

end
