(* ===== verification/Events.thy ===== *)
theory Events
  imports Canonical
begin

text \<open>
  Event envelopes, content hashes and the per-aggregate hash chain:
  \<^verbatim>\<open>src/server/events/hashing.py\<close> and the envelope of \<^verbatim>\<open>src/server/events/store.py\<close>.

  \<open>prims\<close> collects what the sources take from outside the program text: SHA-256, strict base64
  decoding and the stream of \<^verbatim>\<open>uuid4().hex\<close> values. Every theorem holds for all choices of them;
  where a result rests on collision resistance it says so by offering a collision as the
  alternative (\<open>chain_tamper_evident\<close>).
\<close>

record prims =
  sha256 :: "bytes \<Rightarrow> string"
  b64decode :: "string \<Rightarrow> bytes option"
  uuid_hex :: "nat \<Rightarrow> string"

section \<open>Envelopes\<close>

record event =
  ev_event_id :: string
  ev_schema_version :: int
  ev_workspace_id :: string
  ev_aggregate_type :: string
  ev_aggregate_id :: string
  ev_aggregate_seq :: int
  ev_channel_id :: "string option"
  ev_task_id :: "string option"
  ev_type :: string
  ev_actor_account_id :: string
  ev_caused_by :: "string option"
  ev_correlation_id :: string
  ev_idempotency_scope :: string
  ev_idempotency_key :: string
  ev_policy_version :: string
  ev_payload :: pydict
  ev_sensitive_payload_ciphertext :: "string option"
  ev_sensitive_payload_key_ref :: "string option"
  ev_previous_hash :: "string option"
  ev_occurred_at :: string
  ev_content_hash :: string
  ev_recorded_seq :: int

definition canon_code :: "canon_error \<Rightarrow> string" where
  "canon_code e = (case e of
      CanonicalizationError \<Rightarrow> ''CanonicalizationError''
    | UnicodeEncodeError \<Rightarrow> ''UnicodeEncodeError'')"

text \<open>\<^verbatim>\<open>canonical_json\<close> of a value whose strings are \<open>string\<close>s.\<close>

definition canonical_bytes :: "json \<Rightarrow> bytes res" where
  "canonical_bytes v = (case canonical_json (map_jval codes v) of
      Inl e \<Rightarrow> Inl (canon_code e) | Inr b \<Rightarrow> Inr b)"

definition sha256_hex :: "prims \<Rightarrow> bytes \<Rightarrow> string" where
  "sha256_hex P data = sha256 P data"

definition ciphertext_digest :: "prims \<Rightarrow> string option \<Rightarrow> string option res" where
  "ciphertext_digest P c = (case c of
      None \<Rightarrow> Inr None
    | Some t \<Rightarrow> (case b64decode P t of
        None \<Rightarrow> Inl ''binascii.Error''
      | Some b \<Rightarrow> Inr (Some (sha256_hex P b))))"

text \<open>\<^verbatim>\<open>HASHED_METADATA_FIELDS\<close>, in the order of the source.\<close>

definition hashed_metadata :: "event \<Rightarrow> pydict" where
  "hashed_metadata e =
    [(''event_id'', JStr (ev_event_id e)),
     (''schema_version'', JInt (ev_schema_version e)),
     (''workspace_id'', JStr (ev_workspace_id e)),
     (''aggregate_type'', JStr (ev_aggregate_type e)),
     (''aggregate_id'', JStr (ev_aggregate_id e)),
     (''aggregate_seq'', JInt (ev_aggregate_seq e)),
     (''channel_id'', jopt (ev_channel_id e)),
     (''task_id'', jopt (ev_task_id e)),
     (''type'', JStr (ev_type e)),
     (''actor_account_id'', JStr (ev_actor_account_id e)),
     (''caused_by'', jopt (ev_caused_by e)),
     (''correlation_id'', JStr (ev_correlation_id e)),
     (''idempotency_scope'', JStr (ev_idempotency_scope e)),
     (''idempotency_key'', JStr (ev_idempotency_key e)),
     (''policy_version'', JStr (ev_policy_version e)),
     (''occurred_at'', JStr (ev_occurred_at e)),
     (''sensitive_payload_key_ref'', jopt (ev_sensitive_payload_key_ref e))]"

definition hash_body :: "prims \<Rightarrow> event \<Rightarrow> pydict res" where
  "hash_body P e =
     bind_res (ciphertext_digest P (ev_sensitive_payload_ciphertext e)) (\<lambda>digest.
       Inr (hashed_metadata e @
         [(''payload'', JObj (ev_payload e)),
          (''sensitive_payload_sha256'', jopt digest),
          (''previous_hash'', jopt (ev_previous_hash e))]))"

definition compute_content_hash :: "prims \<Rightarrow> event \<Rightarrow> string res" where
  "compute_content_hash P e =
     bind_res (hash_body P e) (\<lambda>body.
       bind_res (canonical_bytes (JObj body)) (\<lambda>b. Inr (sha256_hex P b)))"

definition verify_content_hash :: "prims \<Rightarrow> event \<Rightarrow> bool res" where
  "verify_content_hash P e =
     bind_res (compute_content_hash P e) (\<lambda>h. Inr (ev_content_hash e = h))"

section \<open>Chain verification\<close>

datatype chain_problem = SeqProblem string | PreviousProblem string | HashProblem string

fun verify_chain_from ::
  "prims \<Rightarrow> int \<Rightarrow> string option \<Rightarrow> event list \<Rightarrow> chain_problem list res" where
  "verify_chain_from P expected_seq previous [] = Inr []"
| "verify_chain_from P expected_seq previous (e # es) =
     bind_res (verify_content_hash P e) (\<lambda>ok.
     bind_res (verify_chain_from P (expected_seq + 1) (Some (ev_content_hash e)) es) (\<lambda>rest.
       Inr ((if ev_aggregate_seq e \<noteq> expected_seq then [SeqProblem (ev_event_id e)] else []) @
            (if ev_previous_hash e \<noteq> previous then [PreviousProblem (ev_event_id e)] else []) @
            (if \<not> ok then [HashProblem (ev_event_id e)] else []) @ rest)))"

definition verify_chain :: "prims \<Rightarrow> event list \<Rightarrow> chain_problem list res" where
  "verify_chain P es = verify_chain_from P 1 None es"

text \<open>The chain condition itself: an intact stream.\<close>

fun intact_from :: "prims \<Rightarrow> int \<Rightarrow> string option \<Rightarrow> event list \<Rightarrow> bool" where
  "intact_from P n prev [] = True"
| "intact_from P n prev (e # es) =
     (ev_aggregate_seq e = n \<and> ev_previous_hash e = prev \<and>
      compute_content_hash P e = Inr (ev_content_hash e) \<and>
      intact_from P (n + 1) (Some (ev_content_hash e)) es)"

lemma verify_chain_from_intact:
  "verify_chain_from P n prev es = Inr [] \<longleftrightarrow> intact_from P n prev es"
  by (induction es arbitrary: n prev) (auto simp: verify_content_hash_def res_simps)

lemma verify_chain_intact: "verify_chain P es = Inr [] \<longleftrightarrow> intact_from P 1 None es"
  by (simp add: verify_chain_def verify_chain_from_intact)

fun chain_end :: "string option \<Rightarrow> event list \<Rightarrow> string option" where
  "chain_end prev [] = prev"
| "chain_end prev (e # es) = chain_end (Some (ev_content_hash e)) es"

lemma chain_end_snoc [simp]: "chain_end prev (es @ [e]) = Some (ev_content_hash e)"
  by (induction es arbitrary: prev) auto

lemma chain_end_last: "es \<noteq> [] \<Longrightarrow> chain_end prev es = Some (ev_content_hash (last es))"
  by (induction es arbitrary: prev) auto

lemma intact_from_append:
  "intact_from P n prev (es @ fs) \<longleftrightarrow>
     intact_from P n prev es \<and> intact_from P (n + int (length es)) (chain_end prev es) fs"
  by (induction es arbitrary: n prev) (auto simp: algebra_simps)

lemma intact_seqs:
  "intact_from P n prev es \<Longrightarrow> map ev_aggregate_seq es = map (\<lambda>i. n + int i) [0..<length es]"
proof (induction es arbitrary: n prev)
  case (Cons e es)
  then have "map ev_aggregate_seq es = map (\<lambda>i. (n + 1) + int i) [0..<length es]" by auto
  also have "\<dots> = map (\<lambda>i. n + int i) [1..<Suc (length es)]"
    by (simp add: map_Suc_upt [symmetric] del: upt_Suc)
  finally show ?case using Cons.prems by (simp add: upt_conv_Cons del: upt_Suc)
qed simp

lemma intact_last_seq:
  "intact_from P 1 None es \<Longrightarrow> es \<noteq> [] \<Longrightarrow> ev_aggregate_seq (last es) = int (length es)"
  using arg_cong [OF intact_seqs, of P 1 None es last]
  by (simp add: last_map last_upt of_nat_diff Suc_le_eq)

section \<open>What a content hash commits to\<close>

definition float_free_json :: "json \<Rightarrow> bool" where
  "float_free_json v \<longleftrightarrow> float_free (map_jval codes v)"

definition same_json :: "json \<Rightarrow> json \<Rightarrow> bool" where
  "same_json v w \<longleftrightarrow> normal (map_jval codes v) = normal (map_jval codes w)"

lemma same_json_canonical: "same_json v w \<Longrightarrow> canonical_bytes v = canonical_bytes w"
  by (metis canonical_bytes_def canonical_json_def same_json_def serialize_normal)

lemma same_json_member:
  assumes "same_json v w"
  shows "same_json (JObj (a @ (k, v) # b)) (JObj (a @ (k, w) # b))"
  using assms by (simp add: same_json_def)

lemma same_json_refl [simp]: "same_json v v"
  by (simp add: same_json_def)

lemma same_json_obj:
  assumes "list_all2 (\<lambda>p q. fst p = fst q \<and> same_json (snd p) (snd q)) a b"
  shows "same_json (JObj a) (JObj b)"
proof -
  have "map (\<lambda>p. (codes (fst p), normal (map_jval codes (snd p)))) a =
      map (\<lambda>p. (codes (fst p), normal (map_jval codes (snd p)))) b"
    using assms by (induction rule: list_all2_induct) (auto simp: same_json_def)
  then show ?thesis by (simp add: same_json_def case_prod_unfold comp_def)
qed

lemma same_json_float_free: "same_json v w \<Longrightarrow> float_free_json v \<longleftrightarrow> float_free_json w"
  by (metis float_free_json_def float_free_normal same_json_def)

definition collision :: "prims \<Rightarrow> bool" where
  "collision P \<longleftrightarrow> (\<exists>x y. x \<noteq> y \<and> sha256 P x = sha256 P y)"

lemma codes_valid: "list_all (\<lambda>c. c < 1114112) (codes s)"
  by (rule valid_codes)

lemma code_points_codes: "code_points (map_jval codes v)"
proof (induction v)
  case (JObj kvs)
  have "code_points (map_jval codes v)" if "(k, v) \<in> set kvs" for k v
    using JObj [of "(k, v)" v] that by (simp add: snds.simps)
  then show ?case by (auto simp: list_all_iff valid_codes [unfolded list_all_iff])
qed (auto simp: list_all_iff valid_codes [unfolded list_all_iff])

lemma encodable_codes: "encodable (map_jval codes v)"
proof (induction v)
  case (JObj kvs)
  have "encodable (map_jval codes v)" if "(k, v) \<in> set kvs" for k v
    using JObj [of "(k, v)" v] that by (simp add: snds.simps)
  then show ?case by (auto simp: list_all_iff no_surrogates_codes [unfolded list_all_iff])
qed (auto simp: list_all_iff no_surrogates_codes [unfolded list_all_iff])

lemma canonical_bytes_total:
  "printable (map_jval codes v) \<Longrightarrow> \<exists>b. canonical_bytes v = Inr b"
  using canonical_json_total [OF _ encodable_codes] by (fastforce simp: canonical_bytes_def)

lemma codes_inj [simp]: "codes s = codes t \<longleftrightarrow> s = t"
  unfolding codes_def by (rule inj_map_eq_map) (metis inj_def of_char_eq_iff)

lemma hash_commits:
  assumes a: "canonical_bytes v = Inr b" and b: "canonical_bytes w = Inr c"
    and eq: "sha256_hex P b = sha256_hex P c" and ff: "float_free_json v" "float_free_json w"
  shows "collision P \<or> same_json v w"
proof (cases "b = c")
  case True
  then show ?thesis
    using a b ff canonical_json_inj [of "map_jval codes v" b "map_jval codes w"]
    by (auto simp: canonical_bytes_def same_json_def float_free_json_def code_points_codes
        split: sum.splits)
next
  case False
  then show ?thesis using eq by (auto simp: collision_def sha256_hex_def)
qed

text \<open>Two objects with the same normal form agree on every key.\<close>

lemma same_json_lookup:
  assumes same: "same_json (JObj a) (JObj b)"
    and dist: "distinct (map fst a)" "distinct (map fst b)"
    and k: "map_of a k = Some v"
  shows "\<exists>w. map_of b k = Some w \<and> same_json v w"
proof -
  let ?n = "\<lambda>p. (codes (fst p), normal (map_jval codes (snd p)))"
  have eq: "sort_key (\<lambda>(k, _). utf16_be k) (map ?n a) = sort_key (\<lambda>(k, _). utf16_be k) (map ?n b)"
    using same by (simp add: same_json_def case_prod_unfold comp_def)
  have set_n: "set (map ?n a) = set (map ?n b)"
    using arg_cong [OF eq, of set] by (simp only: set_sort)
  have "?n (k, v) \<in> set (map ?n a)" using k map_of_SomeD by force
  then obtain p where p: "p \<in> set b" "?n (k, v) = ?n p" using set_n by auto
  then show ?thesis
    using dist(2) by (intro exI [of _ "snd p"]) (auto simp: same_json_def map_of_eq_Some_iff)
qed

lemma same_json_members:
  assumes same: "same_json (JObj a) (JObj b)"
    and keys: "map fst a = map fst b" and dist: "distinct (map fst a)"
  shows "list_all2 same_json (map snd a) (map snd b)"
proof (rule list_all2_all_nthI)
  show len: "length (map snd a) = length (map snd b)"
    using arg_cong [OF keys, of length] by simp
  fix i
  assume "i < length (map snd a)"
  then have i: "i < length a" "i < length b" using len by simp_all
  have k: "fst (a ! i) = fst (b ! i)"
    using arg_cong [OF keys, of "\<lambda>l. l ! i"] i by simp
  have "map_of a (fst (a ! i)) = Some (snd (a ! i))" "map_of b (fst (b ! i)) = Some (snd (b ! i))"
    using dist keys i by (simp_all add: map_of_eq_Some_iff)
  then show "same_json (map snd a ! i) (map snd b ! i)"
    using same_json_lookup [OF same dist] keys dist i k by fastforce
qed

lemma same_json_scalar [simp]:
  "same_json (JStr s) (JStr t) \<longleftrightarrow> s = t"
  "same_json (JInt i) (JInt j) \<longleftrightarrow> i = j"
  "same_json (jopt x) (jopt y) \<longleftrightarrow> x = y"
  by (auto simp: same_json_def jopt_def split: option.splits)

text \<open>The contents of two events agree: metadata, payload and ciphertext digest.\<close>

definition same_content :: "prims \<Rightarrow> event \<Rightarrow> event \<Rightarrow> bool" where
  "same_content P e f \<longleftrightarrow>
     ev_event_id e = ev_event_id f \<and> ev_schema_version e = ev_schema_version f \<and>
     ev_workspace_id e = ev_workspace_id f \<and> ev_aggregate_type e = ev_aggregate_type f \<and>
     ev_aggregate_id e = ev_aggregate_id f \<and> ev_aggregate_seq e = ev_aggregate_seq f \<and>
     ev_channel_id e = ev_channel_id f \<and> ev_task_id e = ev_task_id f \<and>
     ev_type e = ev_type f \<and> ev_actor_account_id e = ev_actor_account_id f \<and>
     ev_caused_by e = ev_caused_by f \<and> ev_correlation_id e = ev_correlation_id f \<and>
     ev_idempotency_scope e = ev_idempotency_scope f \<and>
     ev_idempotency_key e = ev_idempotency_key f \<and>
     ev_policy_version e = ev_policy_version f \<and> ev_occurred_at e = ev_occurred_at f \<and>
     ev_sensitive_payload_key_ref e = ev_sensitive_payload_key_ref f \<and>
     same_json (JObj (ev_payload e)) (JObj (ev_payload f)) \<and>
     ciphertext_digest P (ev_sensitive_payload_ciphertext e) =
       ciphertext_digest P (ev_sensitive_payload_ciphertext f) \<and>
     ev_previous_hash e = ev_previous_hash f"

lemma same_body_same_content:
  assumes e: "hash_body P e = Inr a" and f: "hash_body P f = Inr b"
    and same: "same_json (JObj a) (JObj b)"
  shows "same_content P e f"
proof -
  obtain d where d: "ciphertext_digest P (ev_sensitive_payload_ciphertext e) = Inr d"
    and a: "a = hashed_metadata e @ [(''payload'', JObj (ev_payload e)),
      (''sensitive_payload_sha256'', jopt d), (''previous_hash'', jopt (ev_previous_hash e))]"
    using e by (auto simp: hash_body_def res_simps)
  obtain d' where d': "ciphertext_digest P (ev_sensitive_payload_ciphertext f) = Inr d'"
    and b: "b = hashed_metadata f @ [(''payload'', JObj (ev_payload f)),
      (''sensitive_payload_sha256'', jopt d'), (''previous_hash'', jopt (ev_previous_hash f))]"
    using f by (auto simp: hash_body_def res_simps)
  have "map fst a = map fst b" "distinct (map fst a)"
    by (simp_all add: a b hashed_metadata_def)
  from same_json_members [OF same this] show ?thesis
    unfolding same_content_def d d' by (simp add: a b hashed_metadata_def)
qed

definition float_free_event :: "event \<Rightarrow> bool" where
  "float_free_event e \<longleftrightarrow> float_free_json (JObj (ev_payload e))"

lemma float_free_jopt: "float_free_json (jopt x)"
  by (cases x) (simp_all add: float_free_json_def jopt_def)

lemma float_free_body:
  assumes "hash_body P e = Inr a" and "float_free_event e"
  shows "float_free_json (JObj a)"
proof -
  have "float_free (map_jval codes v)" if "(k, v) \<in> set a" for k v
    using that assms float_free_jopt
    by (auto simp: hash_body_def hashed_metadata_def res_simps float_free_event_def
        float_free_json_def)
  then show ?thesis by (auto simp: float_free_json_def list_all_iff)
qed

lemma printable_jopt [simp]: "printable (map_jval codes (jopt x))"
  by (cases x) (simp_all add: jopt_def)

lemma compute_content_hash_total:
  assumes "printable (map_jval codes (JObj (ev_payload e)))"
    and "ev_sensitive_payload_ciphertext e = None"
  shows "\<exists>h. compute_content_hash P e = Inr h"
proof -
  obtain a where a: "hash_body P e = Inr a"
    using assms(2) by (simp add: hash_body_def ciphertext_digest_def)
  have "printable (map_jval codes (JObj a))"
    using a assms by (auto simp: hash_body_def hashed_metadata_def ciphertext_digest_def)
  then show ?thesis
    using canonical_bytes_total [of "JObj a"] a by (auto simp: compute_content_hash_def)
qed

lemma content_hash_commits:
  assumes "compute_content_hash P e = Inr h" and "compute_content_hash P f = Inr h"
    and "float_free_event e" and "float_free_event f"
  shows "collision P \<or> same_content P e f"
proof -
  obtain a b where a: "hash_body P e = Inr a" "canonical_bytes (JObj a) = Inr b"
      "sha256_hex P b = h"
    using assms(1) by (auto simp: compute_content_hash_def res_simps)
  obtain a' b' where a': "hash_body P f = Inr a'" "canonical_bytes (JObj a') = Inr b'"
      "sha256_hex P b' = h"
    using assms(2) by (auto simp: compute_content_hash_def res_simps)
  have "collision P \<or> same_json (JObj a) (JObj a')"
    using hash_commits [OF a(2) a'(2)] a(3) a'(3) float_free_body [OF a(1) assms(3)]
      float_free_body [OF a'(1) assms(4)] by simp
  then show ?thesis using same_body_same_content [OF a(1) a'(1)] by blast
qed

lemma chain_end_eq_None: "chain_end prev es = None \<longleftrightarrow> prev = None \<and> es = []"
  by (induction es arbitrary: prev) auto

lemma chain_end_None [simp]: "chain_end None es = None \<longleftrightarrow> es = []"
  by (simp add: chain_end_eq_None)

lemma chains_agree:
  assumes "\<not> collision P"
    and "intact_from P 1 None es" and "intact_from P 1 None fs"
    and "chain_end None es = chain_end None fs"
    and "\<forall>e \<in> set es \<union> set fs. float_free_event e"
  shows "list_all2 (same_content P) es fs"
  using assms(2-)
proof (induction es arbitrary: fs rule: rev_induct)
  case Nil
  then have "chain_end None fs = None" by (metis chain_end.simps(1))
  then show ?case by simp
next
  case (snoc e es)
  then obtain f fs' where fs: "fs = fs' @ [f]"
    by (metis chain_end_None snoc_eq_iff_butlast)
  have he: "compute_content_hash P e = Inr (ev_content_hash e)"
    and hf: "compute_content_hash P f = Inr (ev_content_hash e)"
    using snoc.prems fs by (auto simp: intact_from_append)
  with snoc.prems fs have same: "same_content P e f"
    using content_hash_commits [OF he hf] assms(1) by simp
  have "chain_end None es = chain_end None fs'"
    using same snoc.prems(1,2) fs by (auto simp: same_content_def intact_from_append)
  then have "list_all2 (same_content P) es fs'"
    using snoc.IH [of fs'] snoc.prems fs by (auto simp: intact_from_append)
  with same fs show ?case by (simp add: list_all2_appendI)
qed

text \<open>
  C2. Tamper evidence of an aggregate's stream: if two streams both pass \<open>verify_chain\<close> and end in
  the same content hash, then they hold the same events with the same contents (metadata, payload
  up to key order, ciphertext digest, links), or SHA-256 has a collision. Changing, inserting,
  dropping or reordering any event of a verified stream therefore changes its last hash.
\<close>

theorem chain_tamper_evident:
  assumes es: "verify_chain P es = Inr []" "es \<noteq> []"
    and fs: "verify_chain P fs = Inr []" "fs \<noteq> []"
    and last: "ev_content_hash (last es) = ev_content_hash (last fs)"
    and ff: "\<forall>e \<in> set es \<union> set fs. float_free_event e"
  shows "collision P \<or> list_all2 (same_content P) es fs"
proof -
  have "chain_end None es = chain_end None fs"
    using es(2) fs(2) last by (simp add: chain_end_last)
  then show ?thesis
    using chains_agree [of P es fs] es(1) fs(1) ff by (auto simp: verify_chain_intact)
qed

text \<open>
  A concrete instance of the outside functions, for evaluating the model on examples; its digest is
  injective.
\<close>

definition unary :: "nat \<Rightarrow> string" where
  "unary n = replicate n CHR ''1'' @ ''0''"

definition ununary :: "string \<Rightarrow> nat list" where
  "ununary s = butlast (map length (split_at CHR ''0'' s))"

definition toy_prims :: prims where
  "toy_prims = \<lparr>sha256 = (\<lambda>b. concat (map unary b)), b64decode = (\<lambda>s. Some (ununary s)),
     uuid_hex = nat_str\<rparr>"

lemma split_unary:
  "split_at CHR ''0'' (concat (map unary b)) = map (\<lambda>n. replicate n CHR ''1'') b @ [[]]"
  by (induction b) (simp_all add: unary_def split_at_append)

lemma ununary_unary: "ununary (concat (map unary b)) = b"
  by (simp add: ununary_def split_unary comp_def butlast_append)

lemma unary_prefix_code: "unary m @ x = unary n @ y \<longleftrightarrow> m = n \<and> x = y"
proof (induction m arbitrary: n)
  case 0
  then show ?case by (cases n) (auto simp: unary_def)
next
  case (Suc m)
  then show ?case by (cases n) (auto simp: unary_def)
qed

lemma concat_unary_inj: "concat (map unary xs) = concat (map unary ys) \<longleftrightarrow> xs = ys"
proof (induction xs arbitrary: ys)
  case Nil
  then show ?case by (cases ys) (auto simp: unary_def)
next
  case (Cons x xs)
  then show ?case
  proof (cases ys)
    case Nil
    then show ?thesis by (simp add: unary_def)
  qed (simp add: unary_prefix_code Cons.IH)
qed

lemma toy_no_collision: "\<not> collision toy_prims"
  by (simp add: collision_def toy_prims_def concat_unary_inj)

lemma toy_uuid_inj: "inj (uuid_hex toy_prims)"
  by (simp add: toy_prims_def inj_def)

definition sample_event :: event where
  "sample_event =
     \<lparr>ev_event_id = ''evt-1'', ev_schema_version = 1, ev_workspace_id = ''ws'',
      ev_aggregate_type = ''task'', ev_aggregate_id = ''task-1'', ev_aggregate_seq = 1,
      ev_channel_id = None, ev_task_id = None, ev_type = ''TASK_CREATED'',
      ev_actor_account_id = ''acct'', ev_caused_by = None, ev_correlation_id = ''c'',
      ev_idempotency_scope = ''task:create'', ev_idempotency_key = ''k'',
      ev_policy_version = ''policy-v1'', ev_payload = [(''title'', JStr ''T'')],
      ev_sensitive_payload_ciphertext = None, ev_sensitive_payload_key_ref = None,
      ev_previous_hash = None, ev_occurred_at = ''t0'', ev_content_hash = [],
      ev_recorded_seq = 1\<rparr>"

theorem chain_tamper_evident_witness:
  "\<exists>e. verify_chain toy_prims [e] = Inr [] \<and> \<not> collision toy_prims \<and>
     list_all2 (same_content toy_prims) [e] [e]"
proof -
  obtain h where "compute_content_hash toy_prims sample_event = Inr h"
    using compute_content_hash_total [of sample_event toy_prims] by (auto simp: sample_event_def)
  then have "compute_content_hash toy_prims (sample_event\<lparr>ev_content_hash := h\<rparr>) = Inr h"
    by (simp add: compute_content_hash_def hash_body_def hashed_metadata_def)
  then have e: "verify_chain toy_prims [sample_event\<lparr>ev_content_hash := h\<rparr>] = Inr []"
    by (simp add: verify_chain_intact sample_event_def)
  have "float_free_event (sample_event\<lparr>ev_content_hash := h\<rparr>)"
    by (simp add: float_free_event_def float_free_json_def sample_event_def)
  then have "list_all2 (same_content toy_prims) [sample_event\<lparr>ev_content_hash := h\<rparr>]
      [sample_event\<lparr>ev_content_hash := h\<rparr>]"
    using chain_tamper_evident [OF e _ e] toy_no_collision by simp
  with e toy_no_collision show ?thesis by (intro exI conjI)
qed

end
