(* ===== verification/Event_Store.thy ===== *)
theory Event_Store
  imports Events
begin

text \<open>
  The Event store: \<^verbatim>\<open>src/server/events/store.py\<close>.

  \<open>append_request\<close> and \<open>append_result\<close> are the dataclasses of the protocol, \<open>mem_store\<close> with
  \<open>mem_append\<close> and \<open>mem_stream\<close> the in-memory store with the sequence and idempotency semantics
  every store has. The state also holds the text of the injected clock (\<open>ms_now\<close>) and how many
  identifiers were drawn (\<open>ms_drawn\<close>). The locale \<open>event_log\<close> states what clients rely on:
  appends only extend the log, and the stream of every aggregate stays an intact hash chain.
\<close>

section \<open>Requests and results\<close>

record append_request =
  ar_workspace_id :: string
  ar_aggregate_type :: string
  ar_aggregate_id :: string
  ar_type :: string
  ar_actor_account_id :: string
  ar_correlation_id :: string
  ar_idempotency_scope :: string
  ar_idempotency_key :: string
  ar_payload :: pydict
  ar_policy_version :: string
  ar_channel_id :: "string option"
  ar_task_id :: "string option"
  ar_caused_by :: "string option"
  ar_expected_seq :: "int option"
  ar_sensitive :: "pydict option"
  ar_schema_version :: int

definition request_body :: "append_request \<Rightarrow> pydict" where
  "request_body r =
    [(''workspace_id'', JStr (ar_workspace_id r)),
     (''aggregate_type'', JStr (ar_aggregate_type r)),
     (''aggregate_id'', JStr (ar_aggregate_id r)),
     (''type'', JStr (ar_type r)),
     (''payload'', JObj (ar_payload r)),
     (''sensitive'', (case ar_sensitive r of None \<Rightarrow> JNull | Some d \<Rightarrow> JObj d)),
     (''channel_id'', jopt (ar_channel_id r)),
     (''task_id'', jopt (ar_task_id r)),
     (''caused_by'', jopt (ar_caused_by r))]"

definition request_body_hash :: "prims \<Rightarrow> append_request \<Rightarrow> string res" where
  "request_body_hash P r =
     bind_res (canonical_bytes (JObj (request_body r))) (\<lambda>b. Inr (sha256_hex P b))"

record append_result =
  res_event_id :: string
  res_aggregate_seq :: int
  res_content_hash :: string
  res_recorded_seq :: int
  res_replayed :: bool

type_synonym idem_key = "string \<times> string \<times> string \<times> string"

definition idem_key_of :: "append_request \<Rightarrow> idem_key" where
  "idem_key_of r = (ar_workspace_id r, ar_actor_account_id r, ar_idempotency_scope r,
     ar_idempotency_key r)"

section \<open>The in-memory store\<close>

record mem_store =
  ms_events :: "event list"
  ms_idem :: "idem_key \<rightharpoonup> string \<times> string"
  ms_now :: string
  ms_drawn :: nat

definition empty_store :: "string \<Rightarrow> mem_store" where
  "empty_store now = \<lparr>ms_events = [], ms_idem = (\<lambda>_. None), ms_now = now, ms_drawn = 0\<rparr>"

definition in_aggregate :: "string \<Rightarrow> string \<Rightarrow> string \<Rightarrow> event \<Rightarrow> bool" where
  "in_aggregate ws t a e \<longleftrightarrow>
     ev_workspace_id e = ws \<and> ev_aggregate_type e = t \<and> ev_aggregate_id e = a"

definition last_in :: "mem_store \<Rightarrow> string \<Rightarrow> string \<Rightarrow> string \<Rightarrow> event option" where
  "last_in s ws t a = List.find (in_aggregate ws t a) (rev (ms_events s))"

definition mem_stream :: "mem_store \<Rightarrow> string \<Rightarrow> string \<Rightarrow> string \<Rightarrow> event list" where
  "mem_stream s ws t a = filter (in_aggregate ws t a) (ms_events s)"

definition result_of_event :: "bool \<Rightarrow> event \<Rightarrow> append_result" where
  "result_of_event replayed e =
     \<lparr>res_event_id = ev_event_id e, res_aggregate_seq = ev_aggregate_seq e,
      res_content_hash = ev_content_hash e, res_recorded_seq = ev_recorded_seq e,
      res_replayed = replayed\<rparr>"

text \<open>The event dict of \<^verbatim>\<open>append\<close>, before its hash and its global sequence number are set.\<close>

definition draft_event ::
  "append_request \<Rightarrow> string \<Rightarrow> int \<Rightarrow> string option \<Rightarrow> string \<Rightarrow> event" where
  "draft_event r new_id next_seq prev now =
     \<lparr>ev_event_id = new_id, ev_schema_version = ar_schema_version r,
      ev_workspace_id = ar_workspace_id r, ev_aggregate_type = ar_aggregate_type r,
      ev_aggregate_id = ar_aggregate_id r, ev_aggregate_seq = next_seq,
      ev_channel_id = ar_channel_id r, ev_task_id = ar_task_id r, ev_type = ar_type r,
      ev_actor_account_id = ar_actor_account_id r, ev_caused_by = ar_caused_by r,
      ev_correlation_id = ar_correlation_id r,
      ev_idempotency_scope = ar_idempotency_scope r,
      ev_idempotency_key = ar_idempotency_key r, ev_policy_version = ar_policy_version r,
      ev_payload = ar_payload r, ev_sensitive_payload_ciphertext = None,
      ev_sensitive_payload_key_ref = None, ev_previous_hash = prev, ev_occurred_at = now,
      ev_content_hash = [], ev_recorded_seq = 0\<rparr>"

definition mem_append :: "prims \<Rightarrow> mem_store \<Rightarrow> append_request \<Rightarrow> (mem_store \<times> append_result) res" where
  "mem_append P s r =
     bind_res (request_body_hash P r) (\<lambda>body_hash.
     case ms_idem s (idem_key_of r) of
       Some (prior_hash, prior_event_id) \<Rightarrow>
         if prior_hash \<noteq> body_hash then Inl ''IDEMPOTENCY_CONFLICT''
         else
           (case List.find (\<lambda>e. ev_event_id e = prior_event_id) (ms_events s) of
              None \<Rightarrow> Inl ''StopIteration''
            | Some prior \<Rightarrow> Inr (s, result_of_event True prior))
     | None \<Rightarrow>
         (let last = last_in s (ar_workspace_id r) (ar_aggregate_type r) (ar_aggregate_id r);
              next_seq = (case last of None \<Rightarrow> 1 | Some e \<Rightarrow> ev_aggregate_seq e + 1)
          in if ar_expected_seq r \<noteq> None \<and> ar_expected_seq r \<noteq> Some next_seq
             then Inl ''SEQUENCE_CONFLICT''
             else if ar_caused_by r \<noteq> None \<and>
               \<not> list_ex (\<lambda>e. Some (ev_event_id e) = ar_caused_by r) (ms_events s)
             then Inl ''CAUSED_BY_UNKNOWN''
             else
               (let draft = draft_event r (''evt-'' @ uuid_hex P (ms_drawn s)) next_seq
                      (map_option ev_content_hash last) (ms_now s)
                in bind_res (compute_content_hash P draft) (\<lambda>h.
                   let e = draft\<lparr>ev_content_hash := h,
                             ev_recorded_seq := int (length (ms_events s)) + 1\<rparr>
                   in Inr (s\<lparr>ms_events := ms_events s @ [e],
                             ms_idem := (ms_idem s)(idem_key_of r \<mapsto> (body_hash, ev_event_id e)),
                             ms_drawn := ms_drawn s + 1\<rparr>,
                           result_of_event False e)))))"

text \<open>The clock advances between calls.\<close>

definition set_now :: "string \<Rightarrow> mem_store \<Rightarrow> mem_store" where
  "set_now now s = s\<lparr>ms_now := now\<rparr>"

section \<open>Invariant\<close>

definition store_inv :: "prims \<Rightarrow> mem_store \<Rightarrow> bool" where
  "store_inv P s \<longleftrightarrow>
     (\<forall>ws t a. intact_from P 1 None (mem_stream s ws t a)) \<and>
     (\<forall>e \<in> set (ms_events s). \<exists>i < ms_drawn s. ev_event_id e = ''evt-'' @ uuid_hex P i) \<and>
     distinct (map ev_event_id (ms_events s)) \<and>
     map ev_recorded_seq (ms_events s) = map (\<lambda>i. int i + 1) [0..<length (ms_events s)] \<and>
     (\<forall>k h i. ms_idem s k = Some (h, i) \<longrightarrow> (\<exists>e \<in> set (ms_events s). ev_event_id e = i))"

lemma store_inv_empty: "store_inv P (empty_store now)"
  by (simp add: store_inv_def empty_store_def mem_stream_def)

lemma store_inv_set_now [simp]: "store_inv P (set_now now s) \<longleftrightarrow> store_inv P s"
  by (simp add: store_inv_def set_now_def mem_stream_def)

lemma last_in_stream:
  "last_in s ws t a = (if mem_stream s ws t a = [] then None else Some (last (mem_stream s ws t a)))"
proof -
  have "List.find Q (rev xs) = (if filter Q xs = [] then None else Some (last (filter Q xs)))"
    for Q and xs :: "event list"
    by (induction xs rule: rev_induct) (auto simp: find_None_iff filter_empty_conv)
  then show ?thesis by (simp add: last_in_def mem_stream_def)
qed

text \<open>The two ways \<open>mem_append\<close> succeeds.\<close>

lemma mem_append_cases:
  assumes "mem_append P s r = Inr (s', res)"
  obtains (replay) h i prior where "s' = s" "request_body_hash P r = Inr h"
      "ms_idem s (idem_key_of r) = Some (h, i)"
      "List.find (\<lambda>e. ev_event_id e = i) (ms_events s) = Some prior"
      "res = result_of_event True prior"
  | (fresh) h last e where
      "ms_idem s (idem_key_of r) = None" "request_body_hash P r = Inr h"
      "last = last_in s (ar_workspace_id r) (ar_aggregate_type r) (ar_aggregate_id r)"
      "ev_event_id e = ''evt-'' @ uuid_hex P (ms_drawn s)"
      "ev_aggregate_seq e = (case last of None \<Rightarrow> 1 | Some l \<Rightarrow> ev_aggregate_seq l + 1)"
      "ar_expected_seq r = None \<or> ar_expected_seq r = Some (ev_aggregate_seq e)"
      "ev_previous_hash e = map_option ev_content_hash last"
      "ev_workspace_id e = ar_workspace_id r" "ev_aggregate_type e = ar_aggregate_type r"
      "ev_aggregate_id e = ar_aggregate_id r" "ev_type e = ar_type r"
      "ev_payload e = ar_payload r" "ev_task_id e = ar_task_id r"
      "ev_actor_account_id e = ar_actor_account_id r" "ev_caused_by e = ar_caused_by r"
      "ev_channel_id e = ar_channel_id r" "ev_idempotency_scope e = ar_idempotency_scope r"
      "ev_idempotency_key e = ar_idempotency_key r"
      "ev_recorded_seq e = int (length (ms_events s)) + 1"
      "compute_content_hash P e = Inr (ev_content_hash e)"
      "s' = s\<lparr>ms_events := ms_events s @ [e],
         ms_idem := (ms_idem s)(idem_key_of r \<mapsto> (h, ev_event_id e)), ms_drawn := ms_drawn s + 1\<rparr>"
      "res = result_of_event False e"
proof (cases "ms_idem s (idem_key_of r)")
  case (Some p)
  obtain h i where p: "p = (h, i)" by fastforce
  from assms Some p obtain prior where "s' = s" "request_body_hash P r = Inr h"
      "List.find (\<lambda>e. ev_event_id e = i) (ms_events s) = Some prior"
      "res = result_of_event True prior"
    by (auto simp: mem_append_def res_simps split: if_splits option.splits)
  with Some p show ?thesis by (intro replay) simp_all
next
  case None
  let ?last = "last_in s (ar_workspace_id r) (ar_aggregate_type r) (ar_aggregate_id r)"
  let ?seq = "case ?last of None \<Rightarrow> 1 | Some e \<Rightarrow> ev_aggregate_seq e + 1"
  let ?d = "draft_event r (''evt-'' @ uuid_hex P (ms_drawn s)) ?seq
      (map_option ev_content_hash ?last) (ms_now s)"
  obtain bh h where h: "request_body_hash P r = Inr bh" "compute_content_hash P ?d = Inr h"
    and exp: "ar_expected_seq r = None \<or> ar_expected_seq r = Some ?seq"
    and s': "s' = s\<lparr>ms_events := ms_events s @ [?d\<lparr>ev_content_hash := h,
         ev_recorded_seq := int (length (ms_events s)) + 1\<rparr>],
       ms_idem := (ms_idem s)(idem_key_of r \<mapsto> (bh, ev_event_id ?d)), ms_drawn := ms_drawn s + 1\<rparr>"
    and res: "res = result_of_event False (?d\<lparr>ev_content_hash := h,
         ev_recorded_seq := int (length (ms_events s)) + 1\<rparr>)"
    using assms None by (auto simp: mem_append_def Let_def res_simps split: if_splits)
  have "compute_content_hash P (?d\<lparr>ev_content_hash := h, ev_recorded_seq := n\<rparr>) = Inr h" for n
    using h(2) by (simp add: compute_content_hash_def hash_body_def hashed_metadata_def)
  with h exp s' res None show ?thesis
    by (intro fresh [of bh ?last "?d\<lparr>ev_content_hash := h,
         ev_recorded_seq := int (length (ms_events s)) + 1\<rparr>"])
      (simp_all add: draft_event_def)
qed

lemma mem_append_inv [inv_intros]:
  assumes inv: "store_inv P s" and inj: "inj (uuid_hex P)"
    and app: "mem_append P s r = Inr (s', res)"
  shows "store_inv P s'"
  using app
proof (cases rule: mem_append_cases)
  case replay
  with inv show ?thesis by simp
next
  case (fresh h last e)
  have chain: "intact_from P 1 None (mem_stream s' ws t a)" for ws t a
  proof (cases "in_aggregate ws t a e")
    case False
    then show ?thesis using inv fresh by (simp add: store_inv_def mem_stream_def)
  next
    case True
    let ?es = "mem_stream s ws t a"
    have st: "mem_stream s' ws t a = ?es @ [e]"
      using True fresh by (simp add: mem_stream_def)
    have es: "intact_from P 1 None ?es" using inv by (simp add: store_inv_def)
    have l: "last = (if ?es = [] then None else Some (List.last ?es))"
      using True fresh by (simp add: in_aggregate_def last_in_stream)
    have "ev_aggregate_seq (List.last ?es) = int (length ?es)" if "?es \<noteq> []"
      using intact_last_seq [OF es that] .
    then have "ev_aggregate_seq e = 1 + int (length ?es)" using l fresh by auto
    moreover have "ev_previous_hash e = chain_end None ?es"
      using l fresh by (auto simp: chain_end_last)
    ultimately show ?thesis using es st fresh by (simp add: intact_from_append)
  qed
  have new: "ev_event_id f \<noteq> ev_event_id e" if "f \<in> set (ms_events s)" for f
    using that inv fresh inj by (fastforce simp: store_inv_def dest: injD)
  then have "distinct (map ev_event_id (ms_events s'))"
    using inv fresh by (auto simp: store_inv_def)
  moreover have "\<forall>f \<in> set (ms_events s'). \<exists>i < ms_drawn s'. ev_event_id f = ''evt-'' @ uuid_hex P i"
    using inv fresh by (fastforce simp: store_inv_def less_Suc_eq)
  moreover have "map ev_recorded_seq (ms_events s') = map (\<lambda>i. int i + 1) [0..<length (ms_events s')]"
    using inv fresh by (simp add: store_inv_def)
  moreover have "\<forall>k h i. ms_idem s' k = Some (h, i) \<longrightarrow> (\<exists>f \<in> set (ms_events s'). ev_event_id f = i)"
    using inv fresh by (auto simp: store_inv_def)
  ultimately show ?thesis using chain by (simp add: store_inv_def)
qed

lemma mem_append_extends:
  assumes "mem_append P s r = Inr (s', res)"
  shows "\<exists>es. ms_events s' = ms_events s @ es \<and> length es \<le> 1"
  using assms by (cases rule: mem_append_cases) auto

lemma request_body_hash_total:
  assumes "printable (map_jval codes (JObj (ar_payload r)))" and "ar_sensitive r = None"
  shows "\<exists>h. request_body_hash P r = Inr h"
proof -
  have "printable (map_jval codes (JObj (request_body r)))"
    using assms by (simp add: request_body_def)
  from canonical_bytes_total [OF this] show ?thesis by (auto simp: request_body_hash_def)
qed

lemma mem_append_empty:
  assumes "printable (map_jval codes (JObj (ar_payload r)))" and "ar_sensitive r = None"
    and "ar_expected_seq r = None \<or> ar_expected_seq r = Some 1" and "ar_caused_by r = None"
  shows "\<exists>s' res. mem_append P (empty_store now) r = Inr (s', res) \<and> res_aggregate_seq res = 1"
proof -
  obtain b where b: "request_body_hash P r = Inr b"
    using request_body_hash_total [OF assms(1,2)] by blast
  let ?d = "draft_event r (''evt-'' @ uuid_hex P 0) 1 None now"
  obtain h where "compute_content_hash P ?d = Inr h"
    using compute_content_hash_total [of ?d P] assms(1) by (auto simp: draft_event_def)
  with b assms(3,4) show ?thesis
    by (auto simp: mem_append_def empty_store_def last_in_def Let_def result_of_event_def
        draft_event_def)
qed

section \<open>The interface clients rely on\<close>

text \<open>What an accepted, new request puts into its event.\<close>

definition event_of :: "append_request \<Rightarrow> event \<Rightarrow> bool" where
  "event_of r e \<longleftrightarrow>
     in_aggregate (ar_workspace_id r) (ar_aggregate_type r) (ar_aggregate_id r) e \<and>
     ev_type e = ar_type r \<and> ev_task_id e = ar_task_id r \<and> ev_channel_id e = ar_channel_id r \<and>
     ev_actor_account_id e = ar_actor_account_id r \<and>
     ev_idempotency_scope e = ar_idempotency_scope r \<and>
     ev_idempotency_key e = ar_idempotency_key r \<and>
     (\<forall>n. ar_expected_seq r = Some n \<longrightarrow> ev_aggregate_seq e = n) \<and>
     (\<forall>k. get_str (ev_payload e) k = get_str (ar_payload r) k \<and>
          get_int (ev_payload e) k = get_int (ar_payload r) k)"

text \<open>
  A store for its clients: a log of events in recorded order. \<open>admits\<close> are the requests and
  \<open>ok\<close> the states the promises are about.
\<close>

locale event_log =
  fixes P :: prims
    and append :: "'s \<Rightarrow> append_request \<Rightarrow> ('s \<times> append_result) res"
    and log :: "'s \<Rightarrow> event list"
    and ok :: "'s \<Rightarrow> bool"
    and admits :: "append_request \<Rightarrow> bool"
  assumes log_chain: "ok s \<Longrightarrow> intact_from P 1 None (filter (in_aggregate ws t a) (log s))"
    and log_sorted: "ok s \<Longrightarrow> sorted_wrt (<) (map ev_recorded_seq (log s))"
    and append_ok: "ok s \<Longrightarrow> admits r \<Longrightarrow> append s r = Inr (s', res) \<Longrightarrow> ok s'"
    and append_replayed:
      "ok s \<Longrightarrow> admits r \<Longrightarrow> append s r = Inr (s', res) \<Longrightarrow> res_replayed res \<Longrightarrow> log s' = log s"
    and append_new:
      "ok s \<Longrightarrow> admits r \<Longrightarrow> append s r = Inr (s', res) \<Longrightarrow> \<not> res_replayed res \<Longrightarrow>
       \<exists>e. log s' = log s @ [e] \<and> event_of r e \<and> res = result_of_event False e"
begin

lemma append_prefix:
  assumes "ok s" and "admits r" and "append s r = Inr (s', res)"
  shows "prefix (log s) (log s')"
  using append_replayed [OF assms] append_new [OF assms] by (cases "res_replayed res") auto

definition append_all :: "append_request list \<Rightarrow> 's \<Rightarrow> 's res" where
  "append_all rs s = fold_res (\<lambda>r s. bind_res (append s r) (\<lambda>(s', _). Inr s')) rs s"

lemma append_all_ok:
  assumes "ok s" and "list_all admits rs" and "append_all rs s = Inr s'"
  shows "ok s' \<and> prefix (log s) (log s')"
proof -
  let ?Q = "\<lambda>u. ok u \<and> prefix (log s) (log u)"
  show ?thesis
  proof (rule fold_res_invariant [where P = ?Q, OF _ _ assms(3) [unfolded append_all_def]])
    fix r u u'
    assume "r \<in> set rs" "?Q u" "bind_res (append u r) (\<lambda>(s', _). Inr s') = Inr u'"
    then obtain res where "append u r = Inr (u', res)" by (auto simp: res_simps)
    with \<open>?Q u\<close> \<open>r \<in> set rs\<close> assms(2) show "?Q u'"
      using append_ok append_prefix by (metis list_all_iff prefix_order.trans)
  qed (use assms(1) in simp)
qed

text \<open>The state of any aggregate after a run starts with its state before: nothing is rewritten.\<close>

lemma append_all_streams:
  assumes "ok s" and "list_all admits rs" and "append_all rs s = Inr s'"
  shows "prefix (filter Q (log s)) (filter Q (log s')) \<and>
         verify_chain P (filter (in_aggregate ws t a) (log s')) = Inr []"
  using append_all_ok [OF assms] log_chain [of s']
  by (auto simp: verify_chain_intact prefix_def)

lemma stream_seq_length:
  assumes "ok s" and "filter (in_aggregate ws t a) (log s) \<noteq> []"
  shows "ev_aggregate_seq (last (filter (in_aggregate ws t a) (log s))) =
         int (length (filter (in_aggregate ws t a) (log s)))"
  using intact_last_seq [OF log_chain [OF assms(1)] assms(2)] .

end

lemma mem_append_event_of:
  assumes "mem_append P s r = Inr (s', res)" and "\<not> res_replayed res"
  shows "\<exists>e. ms_events s' = ms_events s @ [e] \<and> event_of r e \<and> res = result_of_event False e"
  using assms(1)
proof (cases rule: mem_append_cases)
  case (replay h i prior)
  then show ?thesis using assms(2) by (simp add: result_of_event_def)
next
  case (fresh h last e)
  then show ?thesis by (intro exI [of _ e]) (auto simp: event_of_def in_aggregate_def)
qed

interpretation mem: event_log P "mem_append P" ms_events
    "\<lambda>s. store_inv P s \<and> inj (uuid_hex P)" "\<lambda>_. True"
  for P
proof
  fix s r s' res
  assume app: "mem_append P s r = Inr (s', res)"
  show "ms_events s' = ms_events s" if "res_replayed res"
    using app by (cases rule: mem_append_cases) (use that in \<open>auto simp: result_of_event_def\<close>)
  show "\<exists>e. ms_events s' = ms_events s @ [e] \<and> event_of r e \<and> res = result_of_event False e"
    if "\<not> res_replayed res"
    using mem_append_event_of [OF app that] .
  show "store_inv P s' \<and> inj (uuid_hex P)" if "store_inv P s \<and> inj (uuid_hex P)"
    using that mem_append_inv app by blast
next
  fix s ws t a
  assume inv: "store_inv P s \<and> inj (uuid_hex P)"
  then show "intact_from P 1 None (filter (in_aggregate ws t a) (ms_events s))"
    by (simp add: store_inv_def mem_stream_def)
  show "sorted_wrt (<) (map ev_recorded_seq (ms_events s))"
    using inv sorted_wrt_upt [of 0 "length (ms_events s)"]
    by (simp add: store_inv_def sorted_wrt_map sorted_wrt_mono_rel [of _ "(<)"])
qed

section \<open>Histories\<close>

datatype store_op = Append append_request | Tick string

fun mem_step :: "prims \<Rightarrow> store_op \<Rightarrow> mem_store \<Rightarrow> mem_store" where
  "mem_step P (Append r) s = (case mem_append P s r of Inl _ \<Rightarrow> s | Inr (s', _) \<Rightarrow> s')"
| "mem_step P (Tick now) s = set_now now s"

definition mem_run :: "prims \<Rightarrow> store_op list \<Rightarrow> mem_store \<Rightarrow> mem_store" where
  "mem_run P ops s = fold (mem_step P) ops s"

lemma mem_run_induct:
  assumes "Q s" and "\<And>u op. Q u \<Longrightarrow> Q (mem_step P op u)"
  shows "Q (mem_run P ops s)"
  using assms unfolding mem_run_def by (induction ops arbitrary: s) auto

lemma mem_step_inv: "store_inv P s \<Longrightarrow> inj (uuid_hex P) \<Longrightarrow> store_inv P (mem_step P op s)"
  by (cases op) (auto split: sum.splits intro: mem_append_inv)

lemma mem_run_inv: "store_inv P s \<Longrightarrow> inj (uuid_hex P) \<Longrightarrow> store_inv P (mem_run P ops s)"
  by (rule mem_run_induct) (auto intro: mem_step_inv)

text \<open>An accepted request: its key is recorded with its body hash and its event.\<close>

definition recorded :: "prims \<Rightarrow> append_request \<Rightarrow> event \<Rightarrow> mem_store \<Rightarrow> bool" where
  "recorded P r e s \<longleftrightarrow>
     (\<exists>h. request_body_hash P r = Inr h \<and> ms_idem s (idem_key_of r) = Some (h, ev_event_id e)) \<and>
     e \<in> set (ms_events s)"

lemma recorded_mem_step: "recorded P r e s \<Longrightarrow> recorded P r e (mem_step P op s)"
proof (cases op)
  case (Append q)
  assume rec: "recorded P r e s"
  show ?thesis
  proof (cases "mem_append P s q")
    case (Inr p)
    obtain s' res where p: "p = (s', res)" by fastforce
    from Inr p have "mem_append P s q = Inr (s', res)" by simp
    then have "recorded P r e s'"
      using rec by (cases rule: mem_append_cases) (auto simp: recorded_def)
    with Append Inr p show ?thesis by simp
  qed (use Append rec in simp)
qed (simp add: recorded_def set_now_def)

lemma find_event_id:
  assumes "distinct (map ev_event_id es)" and "e \<in> set es"
  shows "List.find (\<lambda>f. ev_event_id f = ev_event_id e) es = Some e"
  using assms by (induction es) auto

lemma recorded_replays:
  assumes "recorded P r e s" and "store_inv P s"
  shows "mem_append P s r = Inr (s, result_of_event True e)"
  using assms find_event_id [of "ms_events s" e]
  by (auto simp: recorded_def store_inv_def mem_append_def)

lemma mem_append_recorded:
  assumes "mem_append P s r = Inr (s', res)" and "store_inv P s"
  shows "\<exists>e. recorded P r e s' \<and> res = result_of_event (res_replayed res) e"
  using assms(1)
proof (cases rule: mem_append_cases)
  case (replay h i prior)
  then have "prior \<in> set (ms_events s)" "ev_event_id prior = i"
    by (auto simp: find_Some_iff in_set_conv_nth)
  with replay show ?thesis by (auto simp: recorded_def result_of_event_def)
next
  case (fresh h last e)
  then show ?thesis by (auto simp: recorded_def result_of_event_def intro!: exI [of _ e])
qed

text \<open>
  Every stream of a store passes chain verification, whatever requests were sent to it:
  sequence numbers are gap-free from 1, every \<open>previous_hash\<close> is the preceding content hash, and
  every content hash is correct. (Identifiers drawn from \<^verbatim>\<open>uuid4\<close> are assumed distinct.)
\<close>

lemma streams_verify:
  assumes "inj (uuid_hex P)"
  shows "verify_chain P (mem_stream (mem_run P ops (empty_store now)) ws t a) = Inr []"
  using mem_run_inv [OF store_inv_empty assms]
  by (simp add: store_inv_def verify_chain_intact)

lemma streams_verify_example:
  "inj (uuid_hex toy_prims) \<and>
   verify_chain toy_prims (mem_stream (mem_run toy_prims [Tick ''t1''] (empty_store ''t0''))
     ''ws'' ''task'' ''task-1'') = Inr []"
proof -
  show ?thesis using toy_uuid_inj streams_verify [OF toy_uuid_inj] by blast
qed

text \<open>
  Exactly-once appends: once a request was accepted, sending the same request again - after
  any further requests and clock changes - returns the original event, flagged as replayed, and
  leaves the store unchanged.
\<close>

theorem append_exactly_once:
  assumes inv: "store_inv P s" and inj: "inj (uuid_hex P)"
    and app: "mem_append P s r = Inr (s1, res)"
    and s2: "s2 = mem_run P ops s1"
  shows "mem_append P s2 r = Inr (s2, res\<lparr>res_replayed := True\<rparr>)"
proof -
  obtain e where e: "recorded P r e s1" "res = result_of_event (res_replayed res) e"
    using mem_append_recorded [OF app inv] by blast
  have "recorded P r e s2"
    unfolding s2 using e(1) by (rule mem_run_induct) (rule recorded_mem_step)
  moreover have "store_inv P s2"
    unfolding s2 using mem_append_inv [OF inv inj app] inj by (rule mem_run_inv)
  moreover have "res\<lparr>res_replayed := True\<rparr> = result_of_event True e"
    using e(2) by (cases res) (simp add: result_of_event_def)
  ultimately show ?thesis using recorded_replays by simp
qed

definition sample_request :: append_request where
  "sample_request =
     \<lparr>ar_workspace_id = ''ws'', ar_aggregate_type = ''task'', ar_aggregate_id = ''task-1'',
      ar_type = ''TASK_CREATED'', ar_actor_account_id = ''acct'', ar_correlation_id = ''c'',
      ar_idempotency_scope = ''task:create'', ar_idempotency_key = ''k'',
      ar_payload = [(''title'', JStr ''T'')], ar_policy_version = ''policy-v1'',
      ar_channel_id = None, ar_task_id = None, ar_caused_by = None, ar_expected_seq = Some 1,
      ar_sensitive = None, ar_schema_version = 1\<rparr>"

theorem append_exactly_once_example:
  "\<exists>s1 res. mem_append toy_prims (empty_store ''t0'') sample_request = Inr (s1, res) \<and>
     res_aggregate_seq res = 1 \<and>
     (let s2 = mem_run toy_prims [Tick ''t1''] s1
      in mem_append toy_prims s2 sample_request = Inr (s2, res\<lparr>res_replayed := True\<rparr>))"
proof -
  obtain s1 res where
    app: "mem_append toy_prims (empty_store ''t0'') sample_request = Inr (s1, res)"
    and seq: "res_aggregate_seq res = 1"
    using mem_append_empty [of sample_request toy_prims "''t0''"]
    by (auto simp: sample_request_def)
  from append_exactly_once [OF store_inv_empty toy_uuid_inj app refl, of "[Tick ''t1'']"] app seq
  show ?thesis by (auto simp: Let_def)
qed

text \<open>
  The same idempotency key with a different body is refused, and a compare-and-swap append
  succeeds only at the sequence number it names.
\<close>

theorem append_conflicts:
  assumes "store_inv P s"
  shows "(\<forall>e h. recorded P q e s \<and> idem_key_of r = idem_key_of q \<and>
             request_body_hash P r = Inr h \<and> request_body_hash P r \<noteq> request_body_hash P q
             \<longrightarrow> mem_append P s r = Inl ''IDEMPOTENCY_CONFLICT'') \<and>
         (\<forall>s' res n. mem_append P s r = Inr (s', res) \<and> \<not> res_replayed res \<and>
             ar_expected_seq r = Some n
             \<longrightarrow> res_aggregate_seq res = n \<and>
               n = int (length (mem_stream s (ar_workspace_id r) (ar_aggregate_type r)
                 (ar_aggregate_id r))) + 1)"
proof (intro conjI allI impI)
  fix e h
  assume "recorded P q e s \<and> idem_key_of r = idem_key_of q \<and> request_body_hash P r = Inr h \<and>
    request_body_hash P r \<noteq> request_body_hash P q"
  then show "mem_append P s r = Inl ''IDEMPOTENCY_CONFLICT''"
    by (auto simp: recorded_def mem_append_def)
next
  fix s' res n
  assume a: "mem_append P s r = Inr (s', res) \<and> \<not> res_replayed res \<and> ar_expected_seq r = Some n"
  let ?es = "mem_stream s (ar_workspace_id r) (ar_aggregate_type r) (ar_aggregate_id r)"
  have es: "intact_from P 1 None ?es" using assms by (simp add: store_inv_def)
  from a have "mem_append P s r = Inr (s', res)" by simp
  then have "res_aggregate_seq res = n \<and> n = int (length ?es) + 1"
  proof (cases rule: mem_append_cases)
    case (fresh h last e)
    have "ev_aggregate_seq (List.last ?es) = int (length ?es)" if "?es \<noteq> []"
      using intact_last_seq [OF es that] .
    then show ?thesis
      using fresh a by (auto simp: result_of_event_def last_in_stream split: if_splits)
  qed (use a in \<open>simp add: result_of_event_def\<close>)
  then show "res_aggregate_seq res = n" "n = int (length ?es) + 1" by simp_all
qed

lemma toy_body_hash_inj:
  assumes "request_body_hash toy_prims r = Inr h" and "request_body_hash toy_prims q = Inr h"
    and "float_free_json (JObj (request_body r))" and "float_free_json (JObj (request_body q))"
  shows "same_json (JObj (request_body r)) (JObj (request_body q))"
  using assms hash_commits [of "JObj (request_body r)" _ "JObj (request_body q)" _ toy_prims]
    toy_no_collision by (auto simp: request_body_hash_def res_simps)

definition other_request :: append_request where
  "other_request = sample_request\<lparr>ar_payload := [(''title'', JStr ''U'')]\<rparr>"

lemma other_request_differs:
  "request_body_hash toy_prims other_request \<noteq> request_body_hash toy_prims sample_request"
proof
  assume eq: "request_body_hash toy_prims other_request = request_body_hash toy_prims sample_request"
  obtain h where "request_body_hash toy_prims sample_request = Inr h"
    using request_body_hash_total [of sample_request toy_prims] by (auto simp: sample_request_def)
  then have same: "same_json (JObj (request_body other_request)) (JObj (request_body sample_request))"
    using eq by (intro toy_body_hash_inj)
      (simp_all add: other_request_def sample_request_def request_body_def float_free_json_def
        jopt_def)
  have keys: "map fst (request_body other_request) = map fst (request_body sample_request)"
    "distinct (map fst (request_body other_request))" by (simp_all add: request_body_def)
  from same_json_members [OF same keys]
  have "same_json (JObj [(''title'', JStr ''U'')]) (JObj [(''title'', JStr ''T'')])"
    by (simp add: request_body_def other_request_def sample_request_def)
  then have "same_json (JStr ''U'') (JStr ''T'')"
    using same_json_lookup [of "[(''title'', JStr ''U'')]" "[(''title'', JStr ''T'')]" "''title''"]
    by (simp split: if_splits)
  then show False by simp
qed

theorem append_conflicts_example:
  "\<exists>s1 res. mem_append toy_prims (empty_store ''t0'') sample_request = Inr (s1, res) \<and>
     res_aggregate_seq res = 1 \<and>
     mem_append toy_prims s1 other_request = Inl ''IDEMPOTENCY_CONFLICT''"
proof -
  obtain s1 res where
    app: "mem_append toy_prims (empty_store ''t0'') sample_request = Inr (s1, res)"
    and seq: "res_aggregate_seq res = 1"
    using mem_append_empty [of sample_request toy_prims "''t0''"]
    by (auto simp: sample_request_def)
  have inv: "store_inv toy_prims s1"
    using mem_append_inv [OF store_inv_empty toy_uuid_inj app] .
  obtain e where e: "recorded toy_prims sample_request e s1"
    using mem_append_recorded [OF app store_inv_empty] by blast
  obtain h where "request_body_hash toy_prims other_request = Inr h"
    using request_body_hash_total [of other_request toy_prims]
    by (auto simp: other_request_def sample_request_def)
  moreover have "idem_key_of other_request = idem_key_of sample_request"
    by (simp add: other_request_def idem_key_of_def)
  ultimately have "mem_append toy_prims s1 other_request = Inl ''IDEMPOTENCY_CONFLICT''"
    using append_conflicts [OF inv, of sample_request other_request] e other_request_differs
    by blast
  with app seq show ?thesis by blast
qed

end
