(* ===== verification/Contract.thy ===== *)
theory Contract
  imports Events
begin

text \<open>
  Event contract validation: \<^verbatim>\<open>src/server/events/contract.py\<close>.

  The registry's tables are data files and its JSON-Schema validators a library; both are fields of
  \<open>schema_registry\<close>, the checks of \<open>validate_type\<close> and their order are the source's.
\<close>

record type_info =
  ti_name :: string
  ti_aggregate_type :: string
  ti_phase :: int
  ti_schema_version :: int
  ti_extension :: bool

record schema_registry =
  sr_types :: "(string \<times> type_info) list"
  sr_id_prefix :: "(string \<times> string) list"
  sr_envelope_valid :: "event \<Rightarrow> bool"
  sr_payload_valid :: "string \<Rightarrow> pydict \<Rightarrow> bool"

definition validate_envelope :: "schema_registry \<Rightarrow> event \<Rightarrow> unit res" where
  "validate_envelope R e = (if sr_envelope_valid R e then Inr () else Inl ''SCHEMA_INVALID'')"

definition validate_type :: "schema_registry \<Rightarrow> event \<Rightarrow> type_info res" where
  "validate_type R e =
     (case map_of (sr_types R) (ev_type e) of
        None \<Rightarrow> Inl ''UNKNOWN_EVENT_TYPE''
      | Some info \<Rightarrow>
          if ev_schema_version e \<noteq> ti_schema_version info then Inl ''UNSUPPORTED_SCHEMA_VERSION''
          else if ev_aggregate_type e \<noteq> ti_aggregate_type info then Inl ''AGGREGATE_TYPE_MISMATCH''
          else (case map_of (sr_id_prefix R) (ev_aggregate_type e) of
              None \<Rightarrow> Inl ''UNKNOWN_AGGREGATE_TYPE''
            | Some pre \<Rightarrow>
                if \<not> starts_with pre (ev_aggregate_id e) then Inl ''AGGREGATE_ID_INVALID''
                else if fst (partition_at CHR '':'' (ev_idempotency_scope e)) \<noteq> ev_aggregate_type e
                then Inl ''IDEMPOTENCY_SCOPE_INVALID''
                else if \<not> sr_payload_valid R (ti_name info) (ev_payload e) then Inl ''PAYLOAD_INVALID''
                else Inr info))"

definition validate_hash :: "prims \<Rightarrow> event \<Rightarrow> unit res" where
  "validate_hash P e =
     (case compute_content_hash P e of
        Inl _ \<Rightarrow> Inl ''HASH_INPUT_INVALID''
      | Inr h \<Rightarrow> if ev_content_hash e \<noteq> h then Inl ''HASH_MISMATCH'' else Inr ())"

definition validate_event :: "prims \<Rightarrow> schema_registry \<Rightarrow> event \<Rightarrow> type_info res" where
  "validate_event P R e =
     bind_res (validate_envelope R e) (\<lambda>_.
     bind_res (validate_type R e) (\<lambda>info.
     bind_res (validate_hash P e) (\<lambda>_. Inr info)))"

definition validate_contract :: "schema_registry \<Rightarrow> event \<Rightarrow> unit res" where
  "validate_contract R e =
     bind_res (validate_envelope R e) (\<lambda>_. bind_res (validate_type R e) (\<lambda>_. Inr ()))"

lemma validate_contract_Inr:
  assumes "validate_contract R e = Inr ()"
  obtains info pre where "map_of (sr_types R) (ev_type e) = Some info"
    "ev_aggregate_type e = ti_aggregate_type info" "ev_schema_version e = ti_schema_version info"
    "map_of (sr_id_prefix R) (ev_aggregate_type e) = Some pre" "prefix pre (ev_aggregate_id e)"
    "fst (partition_at CHR '':'' (ev_idempotency_scope e)) = ev_aggregate_type e"
  using assms
  by (auto simp: validate_contract_def validate_type_def starts_with_def res_simps
      split: option.splits if_splits)

lemma validate_event_contract:
  assumes "validate_event P R e = Inr info"
  shows "validate_contract R e = Inr () \<and> compute_content_hash P e = Inr (ev_content_hash e)"
  using assms
  by (auto simp: validate_event_def validate_contract_def validate_hash_def res_simps
      split: sum.splits if_splits)

end
