(* ===== verification/Clock.thy ===== *)
theory Clock
  imports Prelude
begin

text \<open>
  The injectable clock and the timestamp format: \<^verbatim>\<open>src/server/domain/clock.py\<close>.

  Times are microseconds since the epoch (UTC). \<open>civil_of_days\<close> is the proleptic Gregorian calendar
  of Python's \<^verbatim>\<open>datetime\<close>; \<open>isoformat_utc\<close> prints milliseconds, so two readings of the clock within
  one millisecond print alike.
\<close>

section \<open>Calendar\<close>

definition civil_of_days :: "int \<Rightarrow> int \<times> int \<times> int" where
  "civil_of_days days =
     (let z = days + 719468; era = z div 146097; doe = z mod 146097;
          yoe = (doe - doe div 1460 + doe div 36524 - doe div 146096) div 365;
          doy = doe - (365 * yoe + yoe div 4 - yoe div 100);
          mp = (5 * doy + 2) div 153;
          d = doy - (153 * mp + 2) div 5 + 1;
          m = (if mp < 10 then mp + 3 else mp - 9)
      in (yoe + era * 400 + of_bool (m \<le> 2), m, d))"

definition US_PER_DAY :: int where
  "US_PER_DAY = 86400000000"

definition pad :: "nat \<Rightarrow> int \<Rightarrow> string" where
  "pad w n = (let s = int_str n in replicate (w - length s) CHR ''0'' @ s)"

section \<open>Clocks\<close>

record fixed_clock =
  fc_now :: time
  fc_step :: int

text \<open>\<^verbatim>\<open>FixedClock\<close> is the instance with step 0, \<^verbatim>\<open>SteppingClock\<close> advances on every reading.\<close>

definition clock_now :: "fixed_clock \<Rightarrow> time \<times> fixed_clock" where
  "clock_now c = (fc_now c, c\<lparr>fc_now := fc_now c + fc_step c\<rparr>)"

definition clock_advance :: "int \<Rightarrow> fixed_clock \<Rightarrow> fixed_clock" where
  "clock_advance delta c = c\<lparr>fc_now := fc_now c + delta\<rparr>"

definition clock_set :: "time \<Rightarrow> fixed_clock \<Rightarrow> fixed_clock" where
  "clock_set at c = c\<lparr>fc_now := at\<rparr>"

fun clock_readings :: "nat \<Rightarrow> fixed_clock \<Rightarrow> time list" where
  "clock_readings 0 c = []"
| "clock_readings (Suc n) c = (let (t, c') = clock_now c in t # clock_readings n c')"

lemma clock_readings_nth:
  "clock_readings n c = map (\<lambda>i. fc_now c + int i * fc_step c) [0..<n]"
proof (induction n arbitrary: c)
  case (Suc n)
  show ?case
    unfolding clock_readings.simps Suc.IH clock_now_def Let_def split_conv upt_conv_Cons [OF zero_less_Suc]
    by (simp add: map_Suc_upt [symmetric] algebra_simps del: upt_Suc)
qed simp

section \<open>Timestamps\<close>

definition isoformat_utc :: "time \<Rightarrow> string" where
  "isoformat_utc t =
     (let ms = t div 1000; secs = ms div 1000; (y, m, d) = civil_of_days (secs div 86400);
          sod = secs mod 86400
      in pad 4 y @ ''-'' @ pad 2 m @ ''-'' @ pad 2 d @ ''T'' @
         pad 2 (sod div 3600) @ '':'' @ pad 2 (sod div 60 mod 60) @ '':'' @ pad 2 (sod mod 60) @
         ''.'' @ pad 3 (ms mod 1000) @ ''Z'')"

lemma isoformat_millisecond:
  "t div 1000 = u div 1000 \<Longrightarrow> isoformat_utc t = isoformat_utc u"
  by (simp add: isoformat_utc_def)

lemma isoformat_same_second:
  assumes "t div 1000 div 1000 = u div 1000 div 1000"
  shows "isoformat_utc t = isoformat_utc u \<longleftrightarrow>
    pad 3 (t div 1000 mod 1000) = pad 3 (u div 1000 mod 1000)"
  unfolding isoformat_utc_def Let_def assms by (simp add: split_beta)

lemma isoformat_tick: "isoformat_utc 0 \<noteq> isoformat_utc 1000"
proof -
  have "pad 3 0 \<noteq> pad 3 1"
    by (simp add: pad_def int_str_def nat_str_def dec_digits.simps digit_char_def)
  then show ?thesis using isoformat_same_second [of 0 1000] by simp
qed

text \<open>The source prints \<^verbatim>\<open>microsecond // 1000\<close>.\<close>

lemma milliseconds_of_microsecond: "(t mod 1000000) div 1000 = (t div 1000) mod (1000 :: int)"
  using zmod_zmult2_eq [of 1000 t 1000] by simp

end
