(* ===== verification/Pg_Store.thy ===== *)
theory Pg_Store
  imports Event_Store Contract Clock
begin

text \<open>
  The PostgreSQL Event store: \<^verbatim>\<open>src/server/events/postgres_store.py\<close>.

  \<open>pg_store\<close> holds the rows of the tables the store reads and writes; \<open>pg_append\<close> is the whole
  append, from the body hash to the handling of a violated constraint. Its argument \<open>race\<close> are the
  rows other transactions commit between its reads and its \<^verbatim>\<open>INSERT\<close>; the advisory lock keeps them
  off the request's own aggregate. \<open>pg_env\<close> collects what the store takes from outside: the
  database's treatment of \<^verbatim>\<open>uuid\<close> and \<^verbatim>\<open>jsonb\<close> columns and its constraint names, envelope
  encryption, the schema registry and the readings of the injected clock, numbered in the order
  they are taken.

  The store is an \<open>event_log\<close> as long as the two clock readings of an append fall into one
  millisecond; \<open>clock_skew_breaks_chain\<close> shows what happens otherwise.
\<close>

section \<open>State\<close>

datatype violation = EventIdUnique | AggregateSeqUnique | IdempotencyUnique

record pg_env =
  pe_prims :: prims
  pe_b64encode :: "bytes \<Rightarrow> string"
  pe_uuid :: "string \<Rightarrow> string option"
  pe_jsonb :: "pydict \<Rightarrow> pydict"
  pe_encrypt :: "(string \<Rightarrow> string \<Rightarrow> string \<Rightarrow> pydict \<Rightarrow> (bytes \<times> string) res) option"
  pe_registry :: schema_registry
  pe_constraint_name :: "violation \<Rightarrow> string"
  pe_clock :: "nat \<Rightarrow> time"

record pg_row =
  row_event :: event
  row_ciphertext :: "bytes option"
  row_body_hash :: string
  row_occurred_at :: time

record pg_store =
  pg_rows :: "pg_row list"
  pg_accounts :: "string \<rightharpoonup> string"
  pg_channels :: "string \<rightharpoonup> string"
  pg_tasks :: "string \<rightharpoonup> string"
  pg_seq :: int
  pg_draws :: nat
  pg_reads :: nat

definition row_to_event :: "pg_env \<Rightarrow> pg_row \<Rightarrow> event" where
  "row_to_event E row = (row_event row)\<lparr>
     ev_sensitive_payload_ciphertext := map_option (pe_b64encode E) (row_ciphertext row),
     ev_occurred_at := isoformat_utc (row_occurred_at row)\<rparr>"

definition uuid_arg :: "pg_env \<Rightarrow> string \<Rightarrow> string res" where
  "uuid_arg E s = (case pe_uuid E s of None \<Rightarrow> Inl ''ValueError'' | Some u \<Rightarrow> Inr u)"

section \<open>Operations\<close>

definition row_has_key :: "string \<times> string \<times> string \<times> string \<Rightarrow> pg_row \<Rightarrow> bool" where
  "row_has_key k row \<longleftrightarrow> (let e = row_event row in
     (ev_workspace_id e, ev_actor_account_id e, ev_idempotency_scope e, ev_idempotency_key e) = k)"

definition find_idempotent :: "pg_env \<Rightarrow> pg_row list \<Rightarrow> append_request \<Rightarrow> pg_row option res" where
  "find_idempotent E rows r =
     bind_res (uuid_arg E (ar_workspace_id r)) (\<lambda>ws.
     bind_res (uuid_arg E (ar_actor_account_id r)) (\<lambda>actor.
       Inr (List.find (row_has_key (ws, actor, ar_idempotency_scope r, ar_idempotency_key r)) rows)))"

definition pg_replay :: "pg_row \<Rightarrow> string \<Rightarrow> append_result res" where
  "pg_replay prior body_hash =
     (if row_body_hash prior \<noteq> body_hash then Inl ''IDEMPOTENCY_CONFLICT''
      else Inr (result_of_event True (row_event prior)))"

definition check_workspace :: "pg_env \<Rightarrow> pg_store \<Rightarrow> append_request \<Rightarrow> unit res" where
  "check_workspace E s r =
     bind_res (uuid_arg E (ar_workspace_id r)) (\<lambda>ws.
     bind_res (uuid_arg E (ar_actor_account_id r)) (\<lambda>actor.
     case pg_accounts s actor of
       None \<Rightarrow> Inl ''ACTOR_UNKNOWN''
     | Some actor_ws \<Rightarrow>
       if actor_ws \<noteq> ws then Inl ''WORKSPACE_MISMATCH'' else
       bind_res
         (case ar_channel_id r of
            None \<Rightarrow> Inr ()
          | Some c \<Rightarrow> bind_res (uuid_arg E c) (\<lambda>ch.
              case pg_channels s ch of
                None \<Rightarrow> Inl ''CHANNEL_UNKNOWN''
              | Some ch_ws \<Rightarrow> if ch_ws \<noteq> ws then Inl ''WORKSPACE_MISMATCH'' else Inr ())) (\<lambda>_.
       bind_res
         (case ar_task_id r of
            None \<Rightarrow> Inr ()
          | Some t \<Rightarrow> (case pg_tasks s t of
              None \<Rightarrow> Inr ()
            | Some task_ws \<Rightarrow> if task_ws \<noteq> ws then Inl ''WORKSPACE_MISMATCH'' else Inr ())) (\<lambda>_.
       case ar_caused_by r of
         None \<Rightarrow> Inr ()
       | Some c \<Rightarrow>
           (case List.find (\<lambda>row. ev_event_id (row_event row) = c) (pg_rows s) of
              None \<Rightarrow> Inl ''CAUSED_BY_UNKNOWN''
            | Some row \<Rightarrow> if ev_workspace_id (row_event row) \<noteq> ws then Inl ''WORKSPACE_MISMATCH''
                          else Inr ())))))"

definition rows_in :: "string \<Rightarrow> string \<Rightarrow> string \<Rightarrow> pg_row list \<Rightarrow> pg_row list" where
  "rows_in ws t a rows = filter (\<lambda>row. in_aggregate ws t a (row_event row)) rows"

text \<open>\<^verbatim>\<open>ORDER BY aggregate_seq DESC LIMIT 1\<close>.\<close>

definition pg_last :: "pg_store \<Rightarrow> string \<Rightarrow> string \<Rightarrow> string \<Rightarrow> event option" where
  "pg_last s ws t a =
     (case sort_key (\<lambda>row. - ev_aggregate_seq (row_event row)) (rows_in ws t a (pg_rows s)) of
        [] \<Rightarrow> None | row # _ \<Rightarrow> Some (row_event row))"

definition pg_stream :: "pg_env \<Rightarrow> pg_store \<Rightarrow> string \<Rightarrow> string \<Rightarrow> string \<Rightarrow> event list res" where
  "pg_stream E s ws t a =
     bind_res (uuid_arg E ws) (\<lambda>w.
       Inr (map (row_to_event E)
         (sort_key (\<lambda>row. ev_aggregate_seq (row_event row)) (rows_in w t a (pg_rows s)))))"

definition read_since :: "pg_env \<Rightarrow> pg_store \<Rightarrow> string \<Rightarrow> int \<Rightarrow> int \<Rightarrow> event list res" where
  "read_since E s ws after limit =
     bind_res (uuid_arg E ws) (\<lambda>w.
       Inr (map (row_to_event E)
         (take (nat (min (max limit 1) 1000))
           (sort_key (\<lambda>row. ev_recorded_seq (row_event row))
             (filter (\<lambda>row. ev_workspace_id (row_event row) = w \<and>
                ev_recorded_seq (row_event row) > after) (pg_rows s))))))"

definition pg_get :: "pg_env \<Rightarrow> pg_store \<Rightarrow> string \<Rightarrow> event option" where
  "pg_get E s i =
     map_option (row_to_event E) (List.find (\<lambda>row. ev_event_id (row_event row) = i) (pg_rows s))"

text \<open>The unique constraints of the table, in the order the database checks them.\<close>

definition insert_violation :: "pg_row list \<Rightarrow> event \<Rightarrow> violation option" where
  "insert_violation rows e =
     (if list_ex (\<lambda>row. ev_event_id (row_event row) = ev_event_id e) rows then Some EventIdUnique
      else if list_ex (\<lambda>row. ev_aggregate_seq (row_event row) = ev_aggregate_seq e \<and>
           in_aggregate (ev_workspace_id e) (ev_aggregate_type e) (ev_aggregate_id e) (row_event row)) rows
      then Some AggregateSeqUnique
      else if list_ex (row_has_key (ev_workspace_id e, ev_actor_account_id e,
           ev_idempotency_scope e, ev_idempotency_key e)) rows
      then Some IdempotencyUnique
      else None)"

definition commit_race :: "pg_row list \<Rightarrow> pg_store \<Rightarrow> pg_store" where
  "commit_race race s = s\<lparr>pg_rows := pg_rows s @ race,
     pg_seq := fold max (map (\<lambda>row. ev_recorded_seq (row_event row) + 1) race) (pg_seq s)\<rparr>"

definition encrypt_sensitive ::
  "pg_env \<Rightarrow> append_request \<Rightarrow> (bytes option \<times> string option) res" where
  "encrypt_sensitive E r =
     (case ar_sensitive r of
        None \<Rightarrow> Inr (None, None)
      | Some d \<Rightarrow> (case pe_encrypt E of
          None \<Rightarrow> Inl ''SENSITIVE_UNSUPPORTED''
        | Some enc \<Rightarrow> bind_res (enc (ar_workspace_id r) (ar_aggregate_type r) (ar_aggregate_id r) d)
            (\<lambda>(c, k). Inr (Some c, Some k))))"

text \<open>The event dict that is hashed and validated, and the row that is inserted.\<close>

definition pg_event ::
  "pg_env \<Rightarrow> append_request \<Rightarrow> string \<Rightarrow> event option \<Rightarrow> bytes option \<Rightarrow> string option \<Rightarrow> time \<Rightarrow> event"
where
  "pg_event E r new_id prev cipher key_ref now =
     (draft_event r new_id (case prev of None \<Rightarrow> 1 | Some e \<Rightarrow> ev_aggregate_seq e + 1)
        (map_option ev_content_hash prev) (isoformat_utc now))
     \<lparr>ev_sensitive_payload_ciphertext :=
        (case cipher of None \<Rightarrow> None | Some c \<Rightarrow> if c = [] then None else Some (pe_b64encode E c)),
      ev_sensitive_payload_key_ref := key_ref\<rparr>"

definition pg_row_of ::
  "pg_env \<Rightarrow> event \<Rightarrow> string \<Rightarrow> string \<Rightarrow> string option \<Rightarrow> bytes option \<Rightarrow> string \<Rightarrow> time \<Rightarrow> int \<Rightarrow> pg_row"
where
  "pg_row_of E e ws actor channel cipher body_hash now recorded_seq =
     \<lparr>row_event = e\<lparr>ev_workspace_id := ws, ev_actor_account_id := actor, ev_channel_id := channel,
        ev_payload := pe_jsonb E (ev_payload e), ev_sensitive_payload_ciphertext := None,
        ev_recorded_seq := recorded_seq\<rparr>,
      row_ciphertext = cipher, row_body_hash = body_hash, row_occurred_at = now\<rparr>"

definition pg_insert ::
  "pg_env \<Rightarrow> pg_store \<Rightarrow> append_request \<Rightarrow> string \<Rightarrow> pg_row \<Rightarrow> (pg_store \<times> append_result) res" where
  "pg_insert E s r body_hash row =
     (case insert_violation (pg_rows s) (row_event row) of
        None \<Rightarrow> Inr (s\<lparr>pg_rows := pg_rows s @ [row], pg_seq := pg_seq s + 1\<rparr>,
                     result_of_event False (row_event row))
      | Some v \<Rightarrow>
          (let name = pe_constraint_name E v; s' = s\<lparr>pg_seq := pg_seq s + 1\<rparr>;
               other = (if sublist ''aggregate_seq'' name then Inl ''SEQUENCE_CONFLICT''
                        else Inl ''EVENT_INSERT_FAILED'')
           in if sublist ''idempotency'' name then
                bind_res (find_idempotent E (pg_rows s) r) (\<lambda>prior.
                  case prior of
                    Some p \<Rightarrow> bind_res (pg_replay p body_hash) (\<lambda>res. Inr (s', res))
                  | None \<Rightarrow> other)
              else other))"

definition pg_append ::
  "pg_env \<Rightarrow> pg_row list \<Rightarrow> pg_store \<Rightarrow> append_request \<Rightarrow> (pg_store \<times> append_result) res" where
  "pg_append E race s r =
     bind_res (request_body_hash (pe_prims E) r) (\<lambda>body_hash.
     bind_res (find_idempotent E (pg_rows s) r) (\<lambda>prior.
     case prior of
       Some p \<Rightarrow> bind_res (pg_replay p body_hash) (\<lambda>res. Inr (s, res))
     | None \<Rightarrow>
       bind_res (check_workspace E s r) (\<lambda>_.
       bind_res (uuid_arg E (ar_workspace_id r)) (\<lambda>ws.
       let last = pg_last s ws (ar_aggregate_type r) (ar_aggregate_id r);
           next_seq = (case last of None \<Rightarrow> 1 | Some e \<Rightarrow> ev_aggregate_seq e + 1)
       in if ar_expected_seq r \<noteq> None \<and> ar_expected_seq r \<noteq> Some next_seq
          then Inl ''SEQUENCE_CONFLICT''
          else
            bind_res (encrypt_sensitive E r) (\<lambda>(cipher, key_ref).
            let draft = pg_event E r (''evt-'' @ uuid_hex (pe_prims E) (pg_draws s)) last cipher key_ref
                  (pe_clock E (pg_reads s))
            in bind_res (compute_content_hash (pe_prims E) draft) (\<lambda>h.
            let event = draft\<lparr>ev_content_hash := h\<rparr>
            in bind_res (validate_contract (pe_registry E) event) (\<lambda>_.
            bind_res (case ar_channel_id r of None \<Rightarrow> Inr None
                | Some c \<Rightarrow> if c = [] then Inr None else map_sum id Some (uuid_arg E c)) (\<lambda>channel.
            bind_res (uuid_arg E (ar_actor_account_id r)) (\<lambda>actor.
            let s1 = (commit_race race s)\<lparr>pg_draws := pg_draws s + 2, pg_reads := pg_reads s + 2\<rparr>
            in pg_insert E s1 r body_hash
                 (pg_row_of E event ws actor channel cipher body_hash (pe_clock E (pg_reads s + 1))
                   (pg_seq s1)))))))))))"

section \<open>Assumptions on the environment\<close>

text \<open>
  Documented behaviour of the database and of base64: decoding inverts encoding; \<^verbatim>\<open>jsonb\<close> keeps the
  value of a document, not the order of its keys; a ciphertext is not empty.
\<close>

definition env_laws :: "pg_env \<Rightarrow> bool" where
  "env_laws E \<longleftrightarrow>
     (\<forall>b. b64decode (pe_prims E) (pe_b64encode E b) = Some b) \<and>
     (\<forall>p. same_json (JObj (pe_jsonb E p)) (JObj p)) \<and>
     (\<forall>p k. get_str (pe_jsonb E p) k = get_str p k \<and> get_int (pe_jsonb E p) k = get_int p k) \<and>
     (\<forall>enc ws t a d c k. pe_encrypt E = Some enc \<longrightarrow> enc ws t a d = Inr (c, k) \<longrightarrow> c \<noteq> [])"

text \<open>The two readings of the clock in one append print alike.\<close>

definition steady :: "pg_env \<Rightarrow> nat \<Rightarrow> bool" where
  "steady E n \<longleftrightarrow> isoformat_utc (pe_clock E n) = isoformat_utc (pe_clock E (n + 1))"

text \<open>Identifiers in requests are the canonical text of a UUID.\<close>

definition pg_admits :: "pg_env \<Rightarrow> append_request \<Rightarrow> bool" where
  "pg_admits E r \<longleftrightarrow> pe_uuid E (ar_workspace_id r) = Some (ar_workspace_id r) \<and>
     pe_uuid E (ar_actor_account_id r) = Some (ar_actor_account_id r) \<and>
     (\<forall>c. ar_channel_id r = Some c \<longrightarrow> c \<noteq> [] \<and> pe_uuid E c = Some c)"

section \<open>Invariant\<close>

definition pg_log :: "pg_env \<Rightarrow> pg_store \<Rightarrow> event list" where
  "pg_log E s = map (row_to_event E) (pg_rows s)"

definition row_key :: "pg_row \<Rightarrow> idem_key" where
  "row_key row = (let e = row_event row in
     (ev_workspace_id e, ev_actor_account_id e, ev_idempotency_scope e, ev_idempotency_key e))"

definition pg_inv :: "pg_env \<Rightarrow> pg_store \<Rightarrow> bool" where
  "pg_inv E s \<longleftrightarrow>
     (\<forall>ws t a. intact_from (pe_prims E) 1 None (filter (in_aggregate ws t a) (pg_log E s))) \<and>
     sorted_wrt (<) (map (\<lambda>row. ev_recorded_seq (row_event row)) (pg_rows s)) \<and>
     (\<forall>row \<in> set (pg_rows s). ev_recorded_seq (row_event row) < pg_seq s) \<and>
     distinct (map (\<lambda>row. ev_event_id (row_event row)) (pg_rows s)) \<and>
     distinct (map row_key (pg_rows s))"

lemma row_has_key_iff [simp]: "row_has_key k row \<longleftrightarrow> row_key row = k"
  by (simp add: row_has_key_def row_key_def Let_def)

lemma row_to_event_sel [simp]:
  "ev_event_id (row_to_event E row) = ev_event_id (row_event row)"
  "ev_workspace_id (row_to_event E row) = ev_workspace_id (row_event row)"
  "ev_aggregate_type (row_to_event E row) = ev_aggregate_type (row_event row)"
  "ev_aggregate_id (row_to_event E row) = ev_aggregate_id (row_event row)"
  "ev_aggregate_seq (row_to_event E row) = ev_aggregate_seq (row_event row)"
  "ev_content_hash (row_to_event E row) = ev_content_hash (row_event row)"
  "ev_recorded_seq (row_to_event E row) = ev_recorded_seq (row_event row)"
  "ev_previous_hash (row_to_event E row) = ev_previous_hash (row_event row)"
  "result_of_event b (row_to_event E row) = result_of_event b (row_event row)"
  by (simp_all add: row_to_event_def result_of_event_def)

lemma log_rows_in:
  "filter (in_aggregate ws t a) (pg_log E s) = map (row_to_event E) (rows_in ws t a (pg_rows s))"
  by (simp add: pg_log_def rows_in_def filter_map comp_def in_aggregate_def)

lemma rows_in_seqs:
  assumes "intact_from P 1 None (map (row_to_event E) rows)"
  shows "map (\<lambda>row. ev_aggregate_seq (row_event row)) rows = map (\<lambda>i. 1 + int i) [0..<length rows]"
  using intact_seqs [OF assms] by (simp add: comp_def)

lemma rows_in_sorted:
  assumes "intact_from P 1 None (map (row_to_event E) rows)"
  shows "sorted_wrt (<) (map (\<lambda>row. ev_aggregate_seq (row_event row)) rows)"
  using sorted_wrt_upt [of 0 "length rows"]
  by (simp add: rows_in_seqs [OF assms] sorted_wrt_map sorted_wrt_mono_rel [of _ "(<)"])

lemma pg_last_correct:
  assumes "intact_from P 1 None (map (row_to_event E) (rows_in ws t a (pg_rows s)))"
  shows "pg_last s ws t a =
     (let rs = rows_in ws t a (pg_rows s) in if rs = [] then None else Some (row_event (last rs)))"
proof -
  have "sort_key (\<lambda>row. - ev_aggregate_seq (row_event row)) (rows_in ws t a (pg_rows s)) =
      rev (rows_in ws t a (pg_rows s))"
    using rows_in_sorted [OF assms] by (rule sort_key_desc)
  then show ?thesis
    by (cases "rows_in ws t a (pg_rows s)" rule: rev_cases) (simp_all add: pg_last_def)
qed

lemma pg_stream_log:
  assumes "pg_inv E s" and "pe_uuid E ws = Some ws"
  shows "pg_stream E s ws t a = Inr (filter (in_aggregate ws t a) (pg_log E s))"
proof -
  have "intact_from (pe_prims E) 1 None (map (row_to_event E) (rows_in ws t a (pg_rows s)))"
    using assms(1) by (simp add: pg_inv_def log_rows_in)
  from rows_in_sorted [OF this]
  have "sorted (map (\<lambda>row. ev_aggregate_seq (row_event row)) (rows_in ws t a (pg_rows s)))"
    using strict_sorted_iff by blast
  then show ?thesis
    using assms(2) by (simp add: pg_stream_def uuid_arg_def log_rows_in sort_key_id_if_sorted)
qed

text \<open>The hash does not see the database's reordering of payload keys.\<close>

lemma content_hash_payload:
  assumes "same_json (JObj p) (JObj (ev_payload e))"
  shows "compute_content_hash P (e\<lparr>ev_payload := p\<rparr>) = compute_content_hash P e"
proof -
  have "canonical_bytes (JObj (hashed_metadata e @ (''payload'', JObj p) # rest)) =
      canonical_bytes (JObj (hashed_metadata e @ (''payload'', JObj (ev_payload e)) # rest))" for rest
    using same_json_member [OF assms] by (rule same_json_canonical)
  moreover have "hashed_metadata (e\<lparr>ev_payload := p\<rparr>) = hashed_metadata e"
    by (simp add: hashed_metadata_def)
  ultimately show ?thesis by (simp add: compute_content_hash_def hash_body_def bind_res_def
        split: sum.split)
qed

lemma content_hash_unhashed [simp]:
  "compute_content_hash P (e\<lparr>ev_content_hash := h\<rparr>) = compute_content_hash P e"
  "compute_content_hash P (e\<lparr>ev_recorded_seq := n\<rparr>) = compute_content_hash P e"
  by (simp_all add: compute_content_hash_def hash_body_def hashed_metadata_def)

section \<open>The ways an append succeeds\<close>

definition racing :: "pg_row list \<Rightarrow> pg_store \<Rightarrow> pg_store" where
  "racing race s = (commit_race race s)\<lparr>pg_draws := pg_draws s + 2, pg_reads := pg_reads s + 2\<rparr>"

text \<open>What a new row is made of.\<close>

definition new_row ::
  "pg_env \<Rightarrow> pg_row list \<Rightarrow> pg_store \<Rightarrow> append_request \<Rightarrow> string \<Rightarrow> event \<Rightarrow> pg_row \<Rightarrow> bool" where
  "new_row E race s r bh draft row \<longleftrightarrow>
     (\<exists>ws actor channel cipher key_ref h lst.
        pe_uuid E (ar_workspace_id r) = Some ws \<and> pe_uuid E (ar_actor_account_id r) = Some actor \<and>
        (case ar_channel_id r of None \<Rightarrow> channel = None
         | Some c \<Rightarrow> c = [] \<and> channel = None \<or> c \<noteq> [] \<and> channel = pe_uuid E c \<and> channel \<noteq> None) \<and>
        encrypt_sensitive E r = Inr (cipher, key_ref) \<and>
        lst = pg_last s ws (ar_aggregate_type r) (ar_aggregate_id r) \<and>
        (ar_expected_seq r = None \<or> ar_expected_seq r = Some (ev_aggregate_seq draft)) \<and>
        draft = pg_event E r (''evt-'' @ uuid_hex (pe_prims E) (pg_draws s)) lst cipher key_ref
          (pe_clock E (pg_reads s)) \<and>
        compute_content_hash (pe_prims E) draft = Inr h \<and>
        validate_contract (pe_registry E) (draft\<lparr>ev_content_hash := h\<rparr>) = Inr () \<and>
        row = pg_row_of E (draft\<lparr>ev_content_hash := h\<rparr>) ws actor channel cipher bh
          (pe_clock E (pg_reads s + 1)) (pg_seq (racing race s)))"

lemma pg_insert_cases:
  assumes "pg_insert E s r bh row = Inr (s', res)"
  obtains (replay) p where "find_idempotent E (pg_rows s) r = Inr (Some p)" "row_body_hash p = bh"
      "s' = s\<lparr>pg_seq := pg_seq s + 1\<rparr>" "res = result_of_event True (row_event p)"
  | (inserted) "insert_violation (pg_rows s) (row_event row) = None"
      "s' = s\<lparr>pg_rows := pg_rows s @ [row], pg_seq := pg_seq s + 1\<rparr>"
      "res = result_of_event False (row_event row)"
proof (cases "insert_violation (pg_rows s) (row_event row)")
  case None
  then show ?thesis using assms by (intro inserted) (simp_all add: pg_insert_def)
next
  case (Some v)
  then obtain p where "find_idempotent E (pg_rows s) r = Inr (Some p)"
      "pg_replay p bh = Inr res" "s' = s\<lparr>pg_seq := pg_seq s + 1\<rparr>"
    using assms by (auto simp: pg_insert_def Let_def res_simps split: if_splits option.splits)
  then show ?thesis by (intro replay) (auto simp: pg_replay_def split: if_splits)
qed

lemma uuid_arg_Inr [simp]: "uuid_arg E s = Inr u \<longleftrightarrow> pe_uuid E s = Some u"
  by (simp add: uuid_arg_def split: option.split)

lemma map_sum_eq_Inr: "map_sum f g x = Inr b \<longleftrightarrow> (\<exists>a. x = Inr a \<and> g a = b)"
  by (cases x) auto

lemma pg_append_cases:
  assumes "pg_append E race s r = Inr (s', res)"
  obtains (replay) bh p where "request_body_hash (pe_prims E) r = Inr bh"
      "find_idempotent E (pg_rows s') r = Inr (Some p)" "row_body_hash p = bh"
      "s' = s \<or> s' = (racing race s)\<lparr>pg_seq := pg_seq (racing race s) + 1\<rparr>"
      "res = result_of_event True (row_event p)"
  | (fresh) bh draft row where "request_body_hash (pe_prims E) r = Inr bh"
      "find_idempotent E (pg_rows s) r = Inr None" "new_row E race s r bh draft row"
      "check_workspace E s r = Inr ()"
      "insert_violation (pg_rows (racing race s)) (row_event row) = None"
      "s' = (racing race s)\<lparr>pg_rows := pg_rows (racing race s) @ [row],
         pg_seq := pg_seq (racing race s) + 1\<rparr>"
      "res = result_of_event False (row_event row)"
proof -
  obtain bh prior where bh: "request_body_hash (pe_prims E) r = Inr bh"
    and prior: "find_idempotent E (pg_rows s) r = Inr prior"
    using assms by (auto simp: pg_append_def res_simps)
  show thesis
  proof (cases prior)
    case (Some p)
    then have "pg_replay p bh = Inr res" "s' = s"
      using assms bh prior by (auto simp: pg_append_def res_simps)
    then show thesis
      using bh prior Some by (intro replay) (auto simp: pg_replay_def split: if_splits)
  next
    case None
    let ?s1 = "racing race s"
    obtain ws actor channel cipher key_ref h where
      u: "pe_uuid E (ar_workspace_id r) = Some ws" "pe_uuid E (ar_actor_account_id r) = Some actor"
      and chk: "check_workspace E s r = Inr ()"
      and ch: "(case ar_channel_id r of None \<Rightarrow> channel = None
         | Some c \<Rightarrow> c = [] \<and> channel = None \<or> c \<noteq> [] \<and> channel = pe_uuid E c \<and> channel \<noteq> None)"
      and enc: "encrypt_sensitive E r = Inr (cipher, key_ref)"
      and seq: "ar_expected_seq r = None \<or> ar_expected_seq r = Some
          (case pg_last s ws (ar_aggregate_type r) (ar_aggregate_id r) of
             None \<Rightarrow> 1 | Some e \<Rightarrow> ev_aggregate_seq e + 1)"
      and h: "compute_content_hash (pe_prims E) (pg_event E r
          (''evt-'' @ uuid_hex (pe_prims E) (pg_draws s))
          (pg_last s ws (ar_aggregate_type r) (ar_aggregate_id r)) cipher key_ref
          (pe_clock E (pg_reads s))) = Inr h"
      and val: "validate_contract (pe_registry E) ((pg_event E r
          (''evt-'' @ uuid_hex (pe_prims E) (pg_draws s))
          (pg_last s ws (ar_aggregate_type r) (ar_aggregate_id r)) cipher key_ref
          (pe_clock E (pg_reads s)))\<lparr>ev_content_hash := h\<rparr>) = Inr ()"
      and ins: "pg_insert E ?s1 r bh (pg_row_of E ((pg_event E r
          (''evt-'' @ uuid_hex (pe_prims E) (pg_draws s))
          (pg_last s ws (ar_aggregate_type r) (ar_aggregate_id r)) cipher key_ref
          (pe_clock E (pg_reads s)))\<lparr>ev_content_hash := h\<rparr>) ws actor channel cipher bh
          (pe_clock E (pg_reads s + 1)) (pg_seq ?s1)) = Inr (s', res)"
      using assms bh prior None
      by (auto simp: pg_append_def Let_def res_simps racing_def map_sum_eq_Inr
          split: if_splits option.splits prod.splits)
    let ?draft = "pg_event E r (''evt-'' @ uuid_hex (pe_prims E) (pg_draws s))
          (pg_last s ws (ar_aggregate_type r) (ar_aggregate_id r)) cipher key_ref
          (pe_clock E (pg_reads s))"
    let ?row = "pg_row_of E (?draft\<lparr>ev_content_hash := h\<rparr>) ws actor channel cipher bh
          (pe_clock E (pg_reads s + 1)) (pg_seq ?s1)"
    have seq': "ar_expected_seq r = None \<or> ar_expected_seq r = Some (ev_aggregate_seq ?draft)"
      using seq by (simp add: pg_event_def draft_event_def)
    have row: "new_row E race s r bh ?draft ?row"
      unfolding new_row_def using u ch enc seq' h val by blast
    from ins show thesis
    proof (cases rule: pg_insert_cases)
      case (replay p)
      then show thesis using bh by (intro that(1)) auto
    next
      case inserted
      with bh prior None row chk show thesis by (intro fresh) auto
    qed
  qed
qed

section \<open>Preservation\<close>

lemma encrypt_nonempty:
  assumes "env_laws E" and "encrypt_sensitive E r = Inr (Some c, k)"
  shows "c \<noteq> []"
  using assms by (fastforce simp: encrypt_sensitive_def env_laws_def res_simps split: option.splits)

lemma racing_sel [simp]:
  "pg_rows (racing race s) = pg_rows s @ race" "pg_rows (commit_race race s) = pg_rows s @ race"
  "pg_reads (racing race s) = pg_reads s + 2" "pg_seq (racing race s) = pg_seq (commit_race race s)"
  by (simp_all add: racing_def commit_race_def)

lemma new_row_read_back:
  assumes laws: "env_laws E" and adm: "pg_admits E r" and row: "new_row E race s r bh draft row"
  shows "row_to_event E row = draft\<lparr>ev_content_hash := ev_content_hash (row_event row),
      ev_payload := pe_jsonb E (ar_payload r), ev_recorded_seq := ev_recorded_seq (row_event row),
      ev_occurred_at := isoformat_utc (pe_clock E (pg_reads s + 1))\<rparr> \<and>
    compute_content_hash (pe_prims E) draft = Inr (ev_content_hash (row_event row)) \<and>
    ev_payload draft = ar_payload r \<and>
    ev_occurred_at draft = isoformat_utc (pe_clock E (pg_reads s))"
proof -
  obtain ws actor channel cipher key_ref h lst where
    u: "pe_uuid E (ar_workspace_id r) = Some ws" "pe_uuid E (ar_actor_account_id r) = Some actor"
    and ch: "(case ar_channel_id r of None \<Rightarrow> channel = None
         | Some c \<Rightarrow> c = [] \<and> channel = None \<or> c \<noteq> [] \<and> channel = pe_uuid E c \<and> channel \<noteq> None)"
    and enc: "encrypt_sensitive E r = Inr (cipher, key_ref)"
    and draft: "draft = pg_event E r (''evt-'' @ uuid_hex (pe_prims E) (pg_draws s)) lst cipher key_ref
          (pe_clock E (pg_reads s))"
    and h: "compute_content_hash (pe_prims E) draft = Inr h"
    and row': "row = pg_row_of E (draft\<lparr>ev_content_hash := h\<rparr>) ws actor channel cipher bh
          (pe_clock E (pg_reads s + 1)) (pg_seq (racing race s))"
    using row unfolding new_row_def by blast
  have ids: "ws = ar_workspace_id r" "actor = ar_actor_account_id r" "channel = ar_channel_id r"
    using adm u ch by (auto simp: pg_admits_def split: option.splits)
  have "ev_sensitive_payload_ciphertext draft = map_option (pe_b64encode E) cipher"
    using encrypt_nonempty [OF laws] enc
    by (cases cipher) (auto simp: draft pg_event_def draft_event_def)
  then show ?thesis
    using h by (simp add: row' ids draft row_to_event_def pg_row_of_def pg_event_def draft_event_def)
qed

lemma new_row_chain:
  assumes laws: "env_laws E" and adm: "pg_admits E r" and row: "new_row E race s r bh draft row"
    and steady: "steady E (pg_reads s)"
  shows "compute_content_hash (pe_prims E) (row_to_event E row) = Inr (ev_content_hash (row_event row))"
proof -
  note rb = new_row_read_back [OF laws adm row]
  let ?e = "draft\<lparr>ev_content_hash := ev_content_hash (row_event row)\<rparr>"
  have same: "same_json (JObj (pe_jsonb E (ar_payload r))) (JObj (ev_payload ?e))"
    using laws rb by (simp add: env_laws_def)
  have eq: "row_to_event E row = ?e\<lparr>ev_payload := pe_jsonb E (ar_payload r)\<rparr>
      \<lparr>ev_recorded_seq := ev_recorded_seq (row_event row)\<rparr>"
    using rb steady by (simp add: steady_def)
  show ?thesis
    unfolding eq content_hash_unhashed content_hash_payload [OF same] using rb by blast
qed

lemma new_row_fields:
  assumes adm: "pg_admits E r" and row: "new_row E race s r bh draft row"
  shows "in_aggregate (ar_workspace_id r) (ar_aggregate_type r) (ar_aggregate_id r) (row_event row)"
    and "let lst = pg_last s (ar_workspace_id r) (ar_aggregate_type r) (ar_aggregate_id r)
         in ev_aggregate_seq (row_event row) = (case lst of None \<Rightarrow> 1 | Some e \<Rightarrow> ev_aggregate_seq e + 1) \<and>
            ev_previous_hash (row_event row) = map_option ev_content_hash lst"
    and "ev_recorded_seq (row_event row) = pg_seq (racing race s)"
    and "row_body_hash row = bh"
    and "row_key row = idem_key_of r"
  using assms
  by (auto simp: new_row_def pg_admits_def pg_row_of_def pg_event_def draft_event_def
      in_aggregate_def Let_def row_key_def idem_key_of_def)

lemma new_row_event_of:
  assumes laws: "env_laws E" and adm: "pg_admits E r" and row: "new_row E race s r bh draft row"
  shows "event_of r (row_to_event E row)"
proof -
  have "ev_type draft = ar_type r" "ev_task_id draft = ar_task_id r"
    "ev_channel_id draft = ar_channel_id r" "ev_actor_account_id draft = ar_actor_account_id r"
    "ev_idempotency_scope draft = ar_idempotency_scope r"
    "ev_idempotency_key draft = ar_idempotency_key r"
    "ar_expected_seq r = None \<or> ar_expected_seq r = Some (ev_aggregate_seq draft)"
    using row by (auto simp: new_row_def pg_event_def draft_event_def)
  moreover have "in_aggregate (ar_workspace_id r) (ar_aggregate_type r) (ar_aggregate_id r)
      (row_to_event E row)"
    using new_row_fields(1) [OF adm row] by (simp add: in_aggregate_def)
  ultimately show ?thesis
    using new_row_read_back [OF laws adm row] laws by (auto simp: event_of_def env_laws_def)
qed

text \<open>
  What concurrent transactions may do before the insert: keep the invariant, and stay off the
  aggregate whose advisory lock the append holds.
\<close>

definition race_ok :: "pg_env \<Rightarrow> pg_row list \<Rightarrow> pg_store \<Rightarrow> append_request \<Rightarrow> bool" where
  "race_ok E race s r \<longleftrightarrow> pg_inv E (commit_race race s) \<and>
     (\<forall>row \<in> set race. \<not> in_aggregate (ar_workspace_id r) (ar_aggregate_type r) (ar_aggregate_id r)
        (row_event row))"

lemma pg_inv_bookkeeping:
  assumes "pg_inv E s" and "pg_rows s' = pg_rows s" and "pg_seq s \<le> pg_seq s'"
  shows "pg_inv E s'"
  using assms by (auto simp: pg_inv_def pg_log_def)

lemma pg_insert_inv:
  assumes inv: "pg_inv E s1" and ok: "insert_violation (pg_rows s1) (row_event row) = None"
    and hash: "compute_content_hash (pe_prims E) (row_to_event E row) =
      Inr (ev_content_hash (row_event row))"
    and agg: "in_aggregate ws t a (row_event row)"
    and seq: "ev_aggregate_seq (row_event row) =
      1 + int (length (filter (in_aggregate ws t a) (pg_log E s1)))"
    and prev: "ev_previous_hash (row_event row) =
      chain_end None (filter (in_aggregate ws t a) (pg_log E s1))"
    and rec: "ev_recorded_seq (row_event row) = pg_seq s1"
    and s': "pg_rows s' = pg_rows s1 @ [row]" "pg_seq s' = pg_seq s1 + 1"
  shows "pg_inv E s'"
proof -
  have log: "pg_log E s' = pg_log E s1 @ [row_to_event E row]" using s' by (simp add: pg_log_def)
  have "intact_from (pe_prims E) 1 None (filter (in_aggregate w u b) (pg_log E s'))" for w u b
  proof (cases "in_aggregate w u b (row_to_event E row)")
    case False
    then show ?thesis using inv log by (simp add: pg_inv_def)
  next
    case True
    then have "w = ws" "u = t" "b = a" using agg by (auto simp: in_aggregate_def)
    with True show ?thesis
      using inv log hash seq prev by (simp add: pg_inv_def intact_from_append)
  qed
  moreover have "ev_event_id (row_event row) \<notin> (\<lambda>row. ev_event_id (row_event row)) ` set (pg_rows s1)"
    "row_key row \<notin> row_key ` set (pg_rows s1)"
    using ok by (auto simp: insert_violation_def list_ex_iff row_key_def Let_def split: if_splits)
  ultimately show ?thesis
    using inv rec s' by (auto simp: pg_inv_def sorted_wrt_append)
qed

lemma pg_append_inv [inv_intros]:
  assumes inv: "pg_inv E s" and laws: "env_laws E" and adm: "pg_admits E r"
    and steady: "steady E (pg_reads s)" and race: "race_ok E race s r"
    and app: "pg_append E race s r = Inr (s', res)"
  shows "pg_inv E s'"
  using app
proof (cases rule: pg_append_cases)
  case (replay bh p)
  have "pg_inv E (commit_race race s)" using race by (simp add: race_ok_def)
  then have "pg_inv E ((racing race s)\<lparr>pg_seq := pg_seq (racing race s) + 1\<rparr>)"
    by (rule pg_inv_bookkeeping) simp_all
  then show ?thesis using replay inv by blast
next
  case (fresh bh draft row)
  let ?ws = "ar_workspace_id r" and ?t = "ar_aggregate_type r" and ?a = "ar_aggregate_id r"
  let ?es = "filter (in_aggregate ?ws ?t ?a) (pg_log E s)"
  have es: "filter (in_aggregate ?ws ?t ?a) (pg_log E (racing race s)) = ?es"
    using race by (auto simp: race_ok_def pg_log_def filter_empty_conv in_aggregate_def)
  have intact: "intact_from (pe_prims E) 1 None ?es" using inv by (simp add: pg_inv_def)
  have lst: "map_option ev_content_hash (pg_last s ?ws ?t ?a) = chain_end None ?es"
    "(case pg_last s ?ws ?t ?a of None \<Rightarrow> 1 | Some e \<Rightarrow> ev_aggregate_seq e + 1) = 1 + int (length ?es)"
    using pg_last_correct [OF intact [unfolded log_rows_in]] intact_last_seq [OF intact]
    by (auto simp: Let_def log_rows_in chain_end_last last_map)
  have "pg_inv E (racing race s)"
    using race by (auto simp: race_ok_def intro: pg_inv_bookkeeping [of E "commit_race race s"])
  then show ?thesis
    by (rule pg_insert_inv [OF _ fresh(5) new_row_chain [OF laws adm fresh(3) steady]
          new_row_fields(1) [OF adm fresh(3)]])
      (use new_row_fields [OF adm fresh(3)] lst es fresh(6) in \<open>simp_all add: Let_def\<close>)
qed

section \<open>The store as an event log\<close>

definition pg_ok :: "pg_env \<Rightarrow> pg_store \<Rightarrow> bool" where
  "pg_ok E s \<longleftrightarrow> pg_inv E s \<and> env_laws E \<and> (\<forall>n. steady E n)"

lemma race_ok_Nil: "pg_inv E s \<Longrightarrow> race_ok E [] s r"
  by (auto simp: race_ok_def intro: pg_inv_bookkeeping simp: commit_race_def)

lemma pg_append_log:
  assumes "pg_append E race s r = Inr (s', res)" and "env_laws E" and "pg_admits E r"
  shows "if res_replayed res then pg_log E s' \<in> {pg_log E s, pg_log E (commit_race race s)}
         else \<exists>e. pg_log E s' = pg_log E (commit_race race s) @ [e] \<and> event_of r e \<and>
            res = result_of_event False e"
  using assms(1)
proof (cases rule: pg_append_cases)
  case (replay bh p)
  then show ?thesis by (auto simp: pg_log_def result_of_event_def)
next
  case (fresh bh draft row)
  then show ?thesis
    using new_row_event_of [OF assms(2,3) fresh(3)]
    by (auto simp: pg_log_def result_of_event_def intro!: exI [of _ "row_to_event E row"])
qed

interpretation pg: event_log "pe_prims E" "pg_append E []" "pg_log E" "pg_ok E" "pg_admits E"
  for E
proof
  fix s r s' res
  assume ok: "pg_ok E s" and adm: "pg_admits E r" and app: "pg_append E [] s r = Inr (s', res)"
  have log: "pg_log E (commit_race [] s) = pg_log E s" by (simp add: pg_log_def)
  show "pg_ok E s'"
    using pg_append_inv [OF _ _ adm _ race_ok_Nil app] ok by (auto simp: pg_ok_def)
  show "pg_log E s' = pg_log E s" if "res_replayed res"
    using pg_append_log [OF app _ adm] ok that log by (auto simp: pg_ok_def)
  show "\<exists>e. pg_log E s' = pg_log E s @ [e] \<and> event_of r e \<and> res = result_of_event False e"
    if "\<not> res_replayed res"
    using pg_append_log [OF app _ adm] ok that log by (auto simp: pg_ok_def)
next
  fix s ws t a
  assume ok: "pg_ok E s"
  then show "intact_from (pe_prims E) 1 None (filter (in_aggregate ws t a) (pg_log E s))"
    by (simp add: pg_ok_def pg_inv_def)
  show "sorted_wrt (<) (map ev_recorded_seq (pg_log E s))"
    using ok by (simp add: pg_ok_def pg_inv_def pg_log_def comp_def)
qed

section \<open>Histories\<close>

text \<open>
  States reached by appends with interference; a step that inserts nothing (a failed or replayed
  command, changes of other tables) keeps the rows and may consume sequence values and readings.
\<close>

inductive pg_reach :: "pg_env \<Rightarrow> pg_store \<Rightarrow> bool" for E where
  start: "pg_rows s = [] \<Longrightarrow> pg_reach E s"
| other: "pg_reach E s \<Longrightarrow> pg_rows s' = pg_rows s \<Longrightarrow> pg_seq s \<le> pg_seq s' \<Longrightarrow> pg_reach E s'"
| append: "pg_reach E s \<Longrightarrow> pg_admits E r \<Longrightarrow> steady E (pg_reads s) \<Longrightarrow> race_ok E race s r \<Longrightarrow>
    pg_append E race s r = Inr (s', res) \<Longrightarrow> pg_reach E s'"

lemma pg_reach_inv:
  assumes "pg_reach E s" and "env_laws E"
  shows "pg_inv E s"
  using assms
proof (induction rule: pg_reach.induct)
  case (start s)
  then show ?case by (simp add: pg_inv_def pg_log_def)
next
  case (other s s')
  then show ?case using pg_inv_bookkeeping by blast
next
  case (append s r race s' res)
  then show ?case using pg_append_inv by blast
qed

lemma pg_reach_one_row_per_key:
  assumes "pg_reach E s" and "env_laws E" and "p \<in> set (pg_rows s)" and "q \<in> set (pg_rows s)"
    and "row_key p = row_key q"
  shows "p = q"
  using pg_reach_inv [OF assms(1,2)] assms(3-) by (auto simp: pg_inv_def distinct_map inj_on_def)

lemma find_row_key:
  assumes "distinct (map row_key rows)" and "p \<in> set rows"
  shows "List.find (row_has_key (row_key p)) rows = Some p"
  using assms by (induction rows) auto

lemma pg_append_recorded:
  assumes "pg_append E race s r = Inr (s', res)" and adm: "pg_admits E r"
  shows "\<exists>p \<in> set (pg_rows s'). row_key p = idem_key_of r \<and>
     request_body_hash (pe_prims E) r = Inr (row_body_hash p) \<and>
     res = result_of_event (res_replayed res) (row_event p)"
  using assms(1)
proof (cases rule: pg_append_cases)
  case (replay bh p)
  then have "List.find (row_has_key (idem_key_of r)) (pg_rows s') = Some p"
    using adm by (auto simp: find_idempotent_def res_simps pg_admits_def idem_key_of_def)
  then have "p \<in> set (pg_rows s')" "row_key p = idem_key_of r"
    by (auto simp: find_Some_iff in_set_conv_nth)
  with replay show ?thesis by (intro bexI [of _ p]) (auto simp: result_of_event_def)
next
  case (fresh bh draft row)
  with new_row_fields [OF adm fresh(3)] show ?thesis
    by (intro bexI [of _ row]) (auto simp: result_of_event_def)
qed

section \<open>Properties\<close>

text \<open>A concrete environment: identity conversions, one registered type, a settable clock.\<close>

definition toy_registry :: schema_registry where
  "toy_registry =
     \<lparr>sr_types = [(''TASK_CREATED'', \<lparr>ti_name = ''TASK_CREATED'', ti_aggregate_type = ''task'',
        ti_phase = 1, ti_schema_version = 1, ti_extension = False\<rparr>)],
      sr_id_prefix = [(''task'', ''task-'')], sr_envelope_valid = (\<lambda>_. True),
      sr_payload_valid = (\<lambda>_ _. True)\<rparr>"

definition toy_env :: "(nat \<Rightarrow> time) \<Rightarrow> pg_env" where
  "toy_env clock =
     \<lparr>pe_prims = toy_prims, pe_b64encode = (\<lambda>b. concat (map unary b)), pe_uuid = Some,
      pe_jsonb = (\<lambda>p. p), pe_encrypt = None, pe_registry = toy_registry,
      pe_constraint_name = (\<lambda>_. ''events_idempotency_key''), pe_clock = clock\<rparr>"

definition toy_store :: pg_store where
  "toy_store = \<lparr>pg_rows = [], pg_accounts = [''acct'' \<mapsto> ''ws''], pg_channels = (\<lambda>_. None),
     pg_tasks = (\<lambda>_. None), pg_seq = 1, pg_draws = 0, pg_reads = 0\<rparr>"

lemma toy_env_laws: "env_laws (toy_env clock)"
  by (simp add: env_laws_def toy_env_def toy_prims_def ununary_unary same_json_def)

lemma toy_admits: "pg_admits (toy_env clock) sample_request"
  by (simp add: pg_admits_def toy_env_def sample_request_def)

lemma toy_append:
  "\<exists>s' res. pg_append (toy_env clock) [] toy_store sample_request = Inr (s', res) \<and>
     \<not> res_replayed res \<and> res_aggregate_seq res = 1"
proof -
  obtain b where b: "request_body_hash toy_prims sample_request = Inr b"
    using request_body_hash_total [of sample_request toy_prims] by (auto simp: sample_request_def)
  let ?d = "pg_event (toy_env clock) sample_request (''evt-'' @ uuid_hex toy_prims 0) None None None
      (clock 0)"
  obtain h where h: "compute_content_hash toy_prims ?d = Inr h"
    using compute_content_hash_total [of ?d toy_prims]
    by (auto simp: pg_event_def draft_event_def sample_request_def)
  have env: "pe_prims (toy_env clock) = toy_prims" "pe_clock (toy_env clock) = clock"
      "pe_uuid (toy_env clock) = Some" "pe_registry (toy_env clock) = toy_registry"
    by (simp_all add: toy_env_def)
  have st: "pg_rows toy_store = []" "pg_draws toy_store = 0" "pg_reads toy_store = 0"
    "pg_accounts toy_store ''acct'' = Some ''ws''"
    by (simp_all add: toy_store_def)
  have last: "pg_last toy_store w t a = None" for w t a by (simp add: pg_last_def rows_in_def st)
  have enc: "encrypt_sensitive (toy_env clock) sample_request = Inr (None, None)"
    by (simp add: encrypt_sensitive_def sample_request_def)
  have chk: "check_workspace (toy_env clock) toy_store sample_request = Inr ()"
    by (simp add: check_workspace_def uuid_arg_def env st sample_request_def)
  have val: "validate_contract toy_registry (?d\<lparr>ev_content_hash := h\<rparr>) = Inr ()"
    by (simp add: validate_contract_def validate_envelope_def validate_type_def toy_registry_def
        pg_event_def draft_event_def sample_request_def starts_with_def)
  have req: "ar_expected_seq sample_request = Some 1" "ar_channel_id sample_request = None"
    by (simp_all add: sample_request_def)
  show ?thesis
    using b h enc chk val
    by (simp add: pg_append_def find_idempotent_def uuid_arg_def env st last req pg_insert_def
        insert_violation_def commit_race_def result_of_event_def pg_row_of_def Let_def)
      (simp add: pg_event_def draft_event_def)
qed



text \<open>
  C5. Idempotency of the PostgreSQL store under races: at most one row carries an idempotency key;
  and once a request succeeded - inserted, replayed, or resolved after losing the race for its key -
  repeating it in any later reachable state that still has the rows returns the same event, flagged
  as replayed, and changes nothing.
\<close>

theorem pg_append_exactly_once:
  assumes laws: "env_laws E" and adm: "pg_admits E r"
    and app: "pg_append E race s r = Inr (s1, res)"
    and later: "pg_reach E s2" "prefix (pg_rows s1) (pg_rows s2)"
  shows "pg_append E race' s2 r = Inr (s2, res\<lparr>res_replayed := True\<rparr>)"
proof -
  obtain p where p: "p \<in> set (pg_rows s1)" "row_key p = idem_key_of r"
      "request_body_hash (pe_prims E) r = Inr (row_body_hash p)"
      "res = result_of_event (res_replayed res) (row_event p)"
    using pg_append_recorded [OF app adm] by blast
  have "p \<in> set (pg_rows s2)" using p(1) later(2) set_mono_prefix by blast
  then have "List.find (row_has_key (idem_key_of r)) (pg_rows s2) = Some p"
    using find_row_key pg_reach_inv [OF later(1) laws] p(2) by (fastforce simp: pg_inv_def)
  then have "find_idempotent E (pg_rows s2) r = Inr (Some p)"
    using adm by (simp add: find_idempotent_def uuid_arg_def pg_admits_def idem_key_of_def)
  moreover have "res\<lparr>res_replayed := True\<rparr> = result_of_event True (row_event p)"
    using p(4) by (cases res) (simp add: result_of_event_def)
  ultimately show ?thesis using p(3) by (simp add: pg_append_def pg_replay_def)
qed

theorem pg_append_exactly_once_witness:
  "\<exists>s res. pg_append (toy_env (\<lambda>_. 0)) [] toy_store sample_request = Inr (s, res) \<and>
     pg_append (toy_env (\<lambda>_. 0)) [] s sample_request = Inr (s, res\<lparr>res_replayed := True\<rparr>)"
proof -
  let ?E = "toy_env (\<lambda>_. 0)"
  obtain s res where app: "pg_append ?E [] toy_store sample_request = Inr (s, res)"
    using toy_append by blast
  have start: "pg_reach ?E toy_store" by (rule pg_reach.start) (simp add: toy_store_def)
  have "steady ?E n" for n by (simp add: steady_def toy_env_def)
  then have "pg_reach ?E s"
    using pg_reach.append [OF start toy_admits _ race_ok_Nil app]
      pg_reach_inv [OF start toy_env_laws] by blast
  then show ?thesis
    using pg_append_exactly_once [OF toy_env_laws toy_admits app, of s "[]"] app by blast
qed

text \<open>
  The append reads the clock twice, once for the hashed \<^verbatim>\<open>occurred_at\<close> and once for the stored
  one. When the two readings print differently, the stored stream does not verify: the chain check
  reports the untouched new event as tampered (unless SHA-256 has a collision).
\<close>

lemma clock_skew_breaks_chain:
  assumes laws: "env_laws E" and adm: "pg_admits E r"
    and app: "pg_append E race s r = Inr (s', res)" "\<not> res_replayed res"
    and skew: "\<not> steady E (pg_reads s)" and ff: "float_free_json (JObj (ar_payload r))"
    and coll: "\<not> collision (pe_prims E)"
  shows "\<exists>es. pg_stream E s' (ar_workspace_id r) (ar_aggregate_type r) (ar_aggregate_id r) = Inr es \<and>
     verify_chain (pe_prims E) es \<noteq> Inr []"
  using app(1)
proof (cases rule: pg_append_cases)
  case (replay bh p)
  then show ?thesis using app(2) by (simp add: result_of_event_def)
next
  case (fresh bh draft row)
  let ?e = "row_to_event E row" and ?ws = "ar_workspace_id r"
  note rb = new_row_read_back [OF laws adm fresh(3)]
  have pay: "same_json (JObj (pe_jsonb E (ar_payload r))) (JObj (ar_payload r))"
    using laws by (simp add: env_laws_def)
  have "compute_content_hash (pe_prims E) ?e \<noteq> Inr (ev_content_hash ?e)"
  proof
    assume h: "compute_content_hash (pe_prims E) ?e = Inr (ev_content_hash ?e)"
    have "float_free_event ?e" "float_free_event draft"
      using rb ff same_json_float_free [OF pay] by (simp_all add: float_free_event_def)
    then have "same_content (pe_prims E) ?e draft"
      using content_hash_commits [of "pe_prims E" ?e "ev_content_hash ?e" draft] h rb coll by simp
    then show False using rb skew by (simp add: same_content_def steady_def)
  qed
  moreover have "?e \<in> set (map (row_to_event E) (sort_key (\<lambda>row. ev_aggregate_seq (row_event row))
      (rows_in ?ws (ar_aggregate_type r) (ar_aggregate_id r) (pg_rows s'))))"
    using fresh new_row_fields(1) [OF adm fresh(3)] by (simp add: rows_in_def)
  moreover have "compute_content_hash P e = Inr (ev_content_hash e)"
    if "intact_from P n q es" "e \<in> set es" for P n q es e
    using that by (induction es arbitrary: n q) auto
  ultimately have "\<not> intact_from (pe_prims E) 1 None (map (row_to_event E)
      (sort_key (\<lambda>row. ev_aggregate_seq (row_event row))
        (rows_in ?ws (ar_aggregate_type r) (ar_aggregate_id r) (pg_rows s'))))"
    by blast
  then show ?thesis
    using adm by (simp add: pg_stream_def uuid_arg_def pg_admits_def verify_chain_intact)
qed

lemma clock_skew_breaks_chain_example:
  "\<exists>s res es. pg_append (toy_env (\<lambda>n. 1000 * int n)) [] toy_store sample_request = Inr (s, res) \<and>
     pg_stream (toy_env (\<lambda>n. 1000 * int n)) s ''ws'' ''task'' ''task-1'' = Inr es \<and>
     verify_chain toy_prims es \<noteq> Inr []"
proof -
  let ?E = "toy_env (\<lambda>n. 1000 * int n)"
  obtain s res where app: "pg_append ?E [] toy_store sample_request = Inr (s, res)"
      "\<not> res_replayed res"
    using toy_append by blast
  have "\<not> steady ?E (pg_reads toy_store)"
    using isoformat_tick by (simp add: steady_def toy_env_def toy_store_def)
  moreover have "float_free_json (JObj (ar_payload sample_request))"
    by (simp add: float_free_json_def sample_request_def)
  moreover have "pe_prims ?E = toy_prims" "ar_workspace_id sample_request = ''ws''"
    "ar_aggregate_type sample_request = ''task''" "ar_aggregate_id sample_request = ''task-1''"
    by (simp_all add: toy_env_def sample_request_def)
  ultimately show ?thesis
    using clock_skew_breaks_chain [OF toy_env_laws toy_admits app] toy_no_collision app by fastforce
qed

end
