(* ===== verification/Integrity.thy ===== *)
theory Integrity
  imports Pg_Store
begin

text \<open>
  The deferred integrity job: \<^verbatim>\<open>src/server/events/integrity.py\<close>. It recomputes every aggregate chain
  and checks that causes and actors belong to the event's workspace; on the states the store can
  reach it finds nothing.
\<close>

datatype integrity_problem =
    ChainDefect string string chain_problem
  | CausedByOutside string
  | ActorOutside string

type_synonym agg_key = "string \<times> string \<times> string"

definition agg_key :: "event \<Rightarrow> agg_key" where
  "agg_key e = (ev_workspace_id e, ev_aggregate_type e, ev_aggregate_id e)"

text \<open>
  The streams of the job: rows grouped by aggregate, each group in sequence order. (The query sorts
  the groups too; only the order of the reported problems depends on it.)
\<close>

definition grouped :: "event list \<Rightarrow> (agg_key \<times> event list) list" where
  "grouped es = map (\<lambda>k. (k, sort_key ev_aggregate_seq (filter (\<lambda>e. agg_key e = k) es)))
     (dedup (map agg_key es))"

definition event_problems :: "pg_store \<Rightarrow> string \<Rightarrow> event \<Rightarrow> integrity_problem list" where
  "event_problems s ws e =
     (if truthy (ev_caused_by e) then
        (case List.find (\<lambda>row. Some (ev_event_id (row_event row)) = ev_caused_by e) (pg_rows s) of
           None \<Rightarrow> [CausedByOutside (ev_event_id e)]
         | Some row \<Rightarrow> if ev_workspace_id (row_event row) \<noteq> ws then [CausedByOutside (ev_event_id e)]
                       else [])
      else []) @
     (if pg_accounts s (ev_actor_account_id e) \<noteq> Some ws then [ActorOutside (ev_event_id e)] else [])"

definition stream_problems ::
  "pg_env \<Rightarrow> pg_store \<Rightarrow> agg_key \<times> event list \<Rightarrow> integrity_problem list res" where
  "stream_problems E s = (\<lambda>((ws, t, a), es).
     bind_res (verify_chain (pe_prims E) es) (\<lambda>ps.
       Inr (map (ChainDefect t a) ps @ concat (map (event_problems s ws) es))))"

definition verify_events :: "pg_env \<Rightarrow> pg_store \<Rightarrow> string option \<Rightarrow> integrity_problem list res" where
  "verify_events E s workspace =
     (let rows = (if truthy workspace
            then filter (\<lambda>row. Some (ev_workspace_id (row_event row)) = workspace) (pg_rows s)
            else pg_rows s)
      in bind_res (sequence_res (map (stream_problems E s) (grouped (map (row_to_event E) rows))))
           (\<lambda>pss. Inr (concat pss)))"

section \<open>References stay inside the workspace\<close>

definition refs_inv :: "pg_store \<Rightarrow> bool" where
  "refs_inv s \<longleftrightarrow> (\<forall>row \<in> set (pg_rows s). let e = row_event row in
     pg_accounts s (ev_actor_account_id e) = Some (ev_workspace_id e) \<and>
     (\<forall>c. ev_caused_by e = Some c \<longrightarrow>
        (\<exists>row' \<in> set (pg_rows s). ev_event_id (row_event row') = c \<and>
           ev_workspace_id (row_event row') = ev_workspace_id e)))"

lemma check_workspace_refs:
  assumes "check_workspace E s r = Inr ()"
  shows "\<exists>ws actor. pe_uuid E (ar_workspace_id r) = Some ws \<and>
     pe_uuid E (ar_actor_account_id r) = Some actor \<and> pg_accounts s actor = Some ws \<and>
     (\<forall>c. ar_caused_by r = Some c \<longrightarrow> (\<exists>row \<in> set (pg_rows s). ev_event_id (row_event row) = c \<and>
        ev_workspace_id (row_event row) = ws))"
  using assms
  by (auto simp: check_workspace_def res_simps find_Some_iff split: option.splits if_splits)
    (metis nth_mem)+

lemma pg_append_refs:
  assumes inv: "refs_inv (commit_race race s)" and old: "refs_inv s" and adm: "pg_admits E r"
    and app: "pg_append E race s r = Inr (s', res)"
  shows "refs_inv s'"
  using app
proof (cases rule: pg_append_cases)
  case (replay bh p)
  have "refs_inv ((racing race s)\<lparr>pg_seq := pg_seq (racing race s) + 1\<rparr>)"
    using inv by (simp add: refs_inv_def racing_def commit_race_def)
  with replay old show ?thesis by auto
next
  case (fresh bh draft row)
  obtain ws actor where u: "pe_uuid E (ar_workspace_id r) = Some ws"
      "pe_uuid E (ar_actor_account_id r) = Some actor" "pg_accounts s actor = Some ws"
    and cause: "\<forall>c. ar_caused_by r = Some c \<longrightarrow> (\<exists>row \<in> set (pg_rows s).
        ev_event_id (row_event row) = c \<and> ev_workspace_id (row_event row) = ws)"
    using check_workspace_refs [OF fresh(4)] by blast
  have row: "ev_workspace_id (row_event row) = ws" "ev_actor_account_id (row_event row) = actor"
    "ev_caused_by (row_event row) = ar_caused_by r"
    using fresh(3) u by (auto simp: new_row_def pg_row_of_def pg_event_def draft_event_def)
  have s': "pg_rows s' = pg_rows (commit_race race s) @ [row]" "pg_accounts s' = pg_accounts s"
    "pg_accounts (commit_race race s) = pg_accounts s"
    using fresh(6) by (simp_all add: racing_def commit_race_def)
  show ?thesis
    unfolding refs_inv_def Let_def
  proof (intro ballI conjI allI impI)
    fix q
    assume q: "q \<in> set (pg_rows s')"
    then show "pg_accounts s' (ev_actor_account_id (row_event q)) = Some (ev_workspace_id (row_event q))"
      using inv row s' u(3) by (auto simp: refs_inv_def Let_def)
    fix c
    assume c: "ev_caused_by (row_event q) = Some c"
    show "\<exists>row' \<in> set (pg_rows s'). ev_event_id (row_event row') = c \<and>
        ev_workspace_id (row_event row') = ev_workspace_id (row_event q)"
    proof (cases "q = row")
      case True
      then show ?thesis using cause c row s' by fastforce
    next
      case False
      then have "q \<in> set (pg_rows (commit_race race s))" using q s' by auto
      then show ?thesis using inv c s'(1) unfolding refs_inv_def Let_def by fastforce
    qed
  qed
qed

lemma find_distinct:
  assumes "distinct (map f xs)" and "x \<in> set xs"
  shows "List.find (\<lambda>y. f y = f x) xs = Some x"
  using assms by (induction xs) auto

lemma grouped_chain:
  assumes inv: "pg_inv E s" and k: "((ws, t, a), es) \<in> set (grouped (map (row_to_event E) rows))"
    and rows: "rows = pg_rows s \<or> rows = filter (\<lambda>row. Some (ev_workspace_id (row_event row)) = w) (pg_rows s)"
  shows "verify_chain (pe_prims E) es = Inr [] \<and>
    (\<forall>e \<in> set es. \<exists>row \<in> set (pg_rows s). e = row_to_event E row \<and> ev_workspace_id e = ws)"
proof -
  have key: "agg_key e = (ws, t, a) \<longleftrightarrow> in_aggregate ws t a e" for e
    by (auto simp: agg_key_def in_aggregate_def)
  have "(ws, t, a) \<in> set (dedup (map agg_key (map (row_to_event E) rows))) \<and>
      es = sort_key ev_aggregate_seq (filter (\<lambda>e. agg_key e = (ws, t, a)) (map (row_to_event E) rows))"
    using k unfolding grouped_def set_map by blast
  then have k': "(ws, t, a) \<in> agg_key ` row_to_event E ` set rows"
    and es: "es = sort_key ev_aggregate_seq (filter (in_aggregate ws t a) (map (row_to_event E) rows))"
    by (simp_all add: key image_image)
  from k' have ex: "\<exists>row \<in> set rows. in_aggregate ws t a (row_to_event E row)"
    using key by (metis (no_types, lifting) imageE)
  have sel: "filter (in_aggregate ws t a) (map (row_to_event E) rows) =
      filter (in_aggregate ws t a) (pg_log E s)"
    using rows
  proof
    assume f: "rows = filter (\<lambda>row. Some (ev_workspace_id (row_event row)) = w) (pg_rows s)"
    then have "Some ws = w" using ex by (auto simp: in_aggregate_def)
    then have "filter (\<lambda>x. in_aggregate ws t a (row_to_event E x)) rows =
        filter (\<lambda>x. in_aggregate ws t a (row_to_event E x)) (pg_rows s)"
      using f by (auto simp: in_aggregate_def intro!: filter_cong)
    then show ?thesis by (simp add: pg_log_def filter_map comp_def)
  qed (simp add: pg_log_def)
  have intact: "intact_from (pe_prims E) 1 None (filter (in_aggregate ws t a) (pg_log E s))"
    using inv by (simp add: pg_inv_def)
  have "sorted_wrt (<) (map ev_aggregate_seq (filter (in_aggregate ws t a) (pg_log E s)))"
    using rows_in_sorted [OF intact [unfolded log_rows_in]] by (simp add: log_rows_in comp_def)
  then have "es = filter (in_aggregate ws t a) (pg_log E s)"
    unfolding es sel by (intro sort_key_id_if_sorted) (use strict_sorted_iff in blast)
  then show ?thesis
    using intact by (auto simp: verify_chain_intact pg_log_def in_aggregate_def)
qed

lemma verify_events_ok:
  assumes inv: "pg_inv E s" and refs: "refs_inv s"
  shows "verify_events E s workspace = Inr []"
proof -
  let ?rows = "if truthy workspace
      then filter (\<lambda>row. Some (ev_workspace_id (row_event row)) = workspace) (pg_rows s) else pg_rows s"
  have rows: "?rows = pg_rows s \<or>
      ?rows = filter (\<lambda>row. Some (ev_workspace_id (row_event row)) = workspace) (pg_rows s)"
    by (cases "truthy workspace") simp_all
  have "stream_problems E s g = Inr []" if "g \<in> set (grouped (map (row_to_event E) ?rows))" for g
  proof -
    obtain ws t a es where g: "g = ((ws, t, a), es)" by (cases g) auto
    have ch: "verify_chain (pe_prims E) es = Inr [] \<and>
        (\<forall>e \<in> set es. \<exists>row \<in> set (pg_rows s). e = row_to_event E row \<and> ev_workspace_id e = ws)"
      using grouped_chain [OF inv _ rows] that g by blast
    have "event_problems s ws e = []" if e: "e \<in> set es" for e
    proof -
      obtain row where row: "row \<in> set (pg_rows s)" "e = row_to_event E row" "ev_workspace_id e = ws"
        using bspec [OF conjunct2 [OF ch] e] by metis
      have acc: "pg_accounts s (ev_actor_account_id e) = Some ws"
        using refs row by (auto simp: refs_inv_def Let_def row_to_event_def)
      have "\<exists>row'. List.find (\<lambda>row. Some (ev_event_id (row_event row)) = ev_caused_by e) (pg_rows s) =
          Some row' \<and> ev_workspace_id (row_event row') = ws" if "ev_caused_by e = Some c" for c
      proof -
        have "ev_caused_by (row_event row) = Some c" using that row by (simp add: row_to_event_def)
        then obtain q where q: "q \<in> set (pg_rows s)" "ev_event_id (row_event q) = c"
            "ev_workspace_id (row_event q) = ws"
          using refs row by (auto simp: refs_inv_def Let_def)
        have "distinct (map (\<lambda>row. ev_event_id (row_event row)) (pg_rows s))"
          using inv by (simp add: pg_inv_def)
        then have "List.find (\<lambda>row. Some (ev_event_id (row_event row)) = Some c) (pg_rows s) = Some q"
          using find_distinct [of "\<lambda>row. Some (ev_event_id (row_event row))" "pg_rows s" q] q
          by (simp add: distinct_map inj_on_def)
        then show ?thesis using q that by simp
      qed
      then show ?thesis using acc by (cases "ev_caused_by e") (auto simp: event_problems_def)
    qed
    then show ?thesis using ch g by (simp add: stream_problems_def)
  qed
  then have "map (stream_problems E s) (grouped (map (row_to_event E) ?rows)) =
      map Inr (map (\<lambda>_. []) (grouped (map (row_to_event E) ?rows)))"
    by simp
  then have "sequence_res (map (stream_problems E s) (grouped (map (row_to_event E) ?rows))) =
      Inr (map (\<lambda>_. []) (grouped (map (row_to_event E) ?rows)))"
    by (simp only: sequence_res_eq_Inr)
  then show ?thesis by (simp add: verify_events_def Let_def)
qed

text \<open>
  The integrity job reports nothing after an append to a sound store, whatever concurrent
  transactions commit meanwhile, and the store stays sound: every chain verifies, every cause is an
  event of the same workspace and every actor an account of it. A reported problem is therefore
  always a change made outside the store.
\<close>

theorem verify_events_clean:
  assumes "env_laws E" and "pg_inv E s" and "refs_inv s" and "pg_admits E r"
    and "steady E (pg_reads s)" and "race_ok E race s r" and "refs_inv (commit_race race s)"
    and "pg_append E race s r = Inr (s', res)"
  shows "verify_events E s' workspace = Inr [] \<and> pg_inv E s' \<and> refs_inv s'"
  using verify_events_ok pg_append_inv [OF assms(2,1,4,5,6,8)] pg_append_refs [OF assms(7,3,4,8)]
  by blast

theorem verify_events_clean_example:
  "\<exists>s res. pg_append (toy_env (\<lambda>_. 0)) [] toy_store sample_request = Inr (s, res) \<and>
     verify_events (toy_env (\<lambda>_. 0)) s None = Inr [] \<and> refs_inv s"
proof -
  let ?E = "toy_env (\<lambda>_. 0)"
  obtain s res where app: "pg_append ?E [] toy_store sample_request = Inr (s, res)"
    using toy_append by blast
  have inv: "pg_inv ?E toy_store" by (simp add: pg_inv_def pg_log_def toy_store_def)
  have "refs_inv toy_store" "refs_inv (commit_race [] toy_store)"
    by (simp_all add: refs_inv_def toy_store_def commit_race_def)
  moreover have "steady ?E n" for n by (simp add: steady_def toy_env_def)
  ultimately show ?thesis
    using verify_events_clean [OF toy_env_laws inv _ toy_admits _ race_ok_Nil [OF inv] _ app] app
    by blast
qed

end
