(* ===== verification/Task.thy ===== *)
theory Task
  imports Events
begin

text \<open>
  The Task state machine: \<^verbatim>\<open>src/server/domain/task.py\<close>.

  \<open>task_status\<close> and \<open>TRANSITIONS\<close> are the source's enum and table, \<open>task_state\<close> its folded state,
  \<open>apply_event\<close> and \<open>fold_task\<close> the fold over a merged Event stream, \<open>completion_prerequisites\<close> the
  completion gate. The lemmas show which events a status witnesses: a Task is COMPLETED only after
  it was created, delegated, started, submitted, sent to verification and passed, in this order.
\<close>

section \<open>Statuses and transitions\<close>

datatype task_status =
    OPEN | DELEGATED | ACCEPTED | RUNNING | WAITING | IMPLEMENTED | VERIFYING | VERIFIED
  | COMPLETED | CANCEL_REQUESTED | CANCELLED

definition task_terminal :: "task_status \<Rightarrow> bool" where
  "task_terminal s \<longleftrightarrow> s \<in> {COMPLETED, CANCELLED}"

definition TRANSITIONS :: "((task_status \<times> string) \<times> task_status) list" where
  "TRANSITIONS =
    [((OPEN, ''TASK_DELEGATED''), DELEGATED),
     ((DELEGATED, ''TASK_REASSIGNED''), DELEGATED),
     ((DELEGATED, ''TASK_ACCEPTED''), ACCEPTED),
     ((ACCEPTED, ''TASK_STARTED''), RUNNING),
     ((RUNNING, ''TASK_WAITING''), WAITING),
     ((WAITING, ''TASK_STARTED''), RUNNING),
     ((RUNNING, ''TASK_PROGRESS_REPORTED''), RUNNING),
     ((RUNNING, ''IMPLEMENTATION_SUBMITTED''), IMPLEMENTED),
     ((IMPLEMENTED, ''TASK_VERIFICATION_STARTED''), VERIFYING),
     ((VERIFYING, ''VERIFICATION_PASSED''), VERIFIED),
     ((VERIFYING, ''VERIFICATION_FAILED''), RUNNING),
     ((VERIFYING, ''VERIFICATION_BLOCKED''), WAITING),
     ((VERIFIED, ''TASK_COMPLETED''), COMPLETED),
     ((OPEN, ''TASK_CANCELLED''), CANCELLED),
     ((DELEGATED, ''TASK_CANCELLED''), CANCELLED),
     ((ACCEPTED, ''TASK_CANCELLED''), CANCELLED),
     ((RUNNING, ''TASK_CANCEL_REQUESTED''), CANCEL_REQUESTED),
     ((WAITING, ''TASK_CANCEL_REQUESTED''), CANCEL_REQUESTED),
     ((IMPLEMENTED, ''TASK_CANCEL_REQUESTED''), CANCEL_REQUESTED),
     ((VERIFYING, ''TASK_CANCEL_REQUESTED''), CANCEL_REQUESTED),
     ((CANCEL_REQUESTED, ''TASK_CANCELLED''), CANCELLED),
     ((DELEGATED, ''TASK_WAITING''), WAITING),
     ((ACCEPTED, ''TASK_WAITING''), WAITING),
     ((IMPLEMENTED, ''TASK_WAITING''), WAITING),
     ((ACCEPTED, ''TASK_REASSIGNED''), DELEGATED),
     ((RUNNING, ''TASK_REASSIGNED''), DELEGATED),
     ((WAITING, ''TASK_REASSIGNED''), DELEGATED)]"

definition ANNOTATION_EVENTS :: "string list" where
  "ANNOTATION_EVENTS = [''TASK_JOIN_SATISFIED'']"

definition CREATION_EVENTS :: "string list" where
  "CREATION_EVENTS = [''TASK_CREATED'', ''SUBTASK_CREATED'']"

definition VERIFICATION_RESULT_EVENTS :: "string list" where
  "VERIFICATION_RESULT_EVENTS =
     [''VERIFICATION_PASSED'', ''VERIFICATION_FAILED'', ''VERIFICATION_BLOCKED'']"

definition next_status :: "task_status \<Rightarrow> string \<Rightarrow> task_status res" where
  "next_status current event_type =
     (if task_terminal current then Inl ''TASK_TERMINAL''
      else case map_of TRANSITIONS (current, event_type) of
        None \<Rightarrow> Inl ''TASK_TRANSITION_INVALID''
      | Some target \<Rightarrow> Inr target)"

section \<open>Folded state\<close>

record task_state =
  ts_task_id :: string
  ts_exists :: bool
  ts_status :: task_status
  ts_workspace_id :: "string option"
  ts_root_task_id :: "string option"
  ts_parent_task_id :: "string option"
  ts_channel_id :: "string option"
  ts_title :: string
  ts_domain :: string
  ts_risk :: string
  ts_assignee_account_id :: "string option"
  ts_delegated_by :: "string option"
  ts_delegation_depth :: int
  ts_assignment_revision :: int
  ts_policy_snapshot_hash :: "string option"
  ts_criteria_revision :: int
  ts_latest_progress :: "string option"
  ts_active_verification_id :: "string option"
  ts_verification_status :: "string option"
  ts_last_event_id :: "string option"
  ts_last_aggregate_seq :: int
  ts_created_at :: "string option"
  ts_updated_at :: "string option"
  ts_join_policy :: pydict
  ts_join_satisfied :: bool
  ts_join_satisfied_children :: "string list"

definition initial_task :: "string \<Rightarrow> task_state" where
  "initial_task tid =
     \<lparr>ts_task_id = tid, ts_exists = False, ts_status = OPEN, ts_workspace_id = None,
      ts_root_task_id = None, ts_parent_task_id = None, ts_channel_id = None, ts_title = [],
      ts_domain = [], ts_risk = ''LOW'', ts_assignee_account_id = None, ts_delegated_by = None,
      ts_delegation_depth = 0, ts_assignment_revision = 0, ts_policy_snapshot_hash = None,
      ts_criteria_revision = 0, ts_latest_progress = None, ts_active_verification_id = None,
      ts_verification_status = None, ts_last_event_id = None, ts_last_aggregate_seq = 0,
      ts_created_at = None, ts_updated_at = None, ts_join_policy = [], ts_join_satisfied = False,
      ts_join_satisfied_children = []\<rparr>"

text \<open>\<^verbatim>\<open>payload.get(k, default)\<close> on a string or null: the default is for an absent key only.\<close>

definition get_str_or :: "pydict \<Rightarrow> string \<Rightarrow> string option \<Rightarrow> string option" where
  "get_str_or d k dflt = (if map_of d k = None then dflt else get_str d k)"

definition apply_creation :: "task_state \<Rightarrow> event \<Rightarrow> task_state" where
  "apply_creation st e =
     (let p = ev_payload e in
      st\<lparr>ts_exists := True, ts_status := OPEN, ts_workspace_id := Some (ev_workspace_id e),
         ts_root_task_id := get_str_or p ''root_task_id'' (Some (ts_task_id st)),
         ts_parent_task_id := get_str p ''parent_task_id'',
         ts_channel_id := or_str (get_str p ''channel_id'') (ev_channel_id e),
         ts_title := get_default [] (get_str p ''title''),
         ts_domain := get_default [] (get_str p ''domain''),
         ts_risk := get_default ''LOW'' (get_str p ''risk''),
         ts_delegation_depth := get_default 0 (get_int p ''depth''),
         ts_join_policy := get_default [] (get_obj p ''join_policy''),
         ts_created_at := Some (ev_occurred_at e), ts_updated_at := Some (ev_occurred_at e),
         ts_last_event_id := Some (ev_event_id e), ts_last_aggregate_seq := ev_aggregate_seq e\<rparr>)"

definition apply_verification_result :: "task_state \<Rightarrow> event \<Rightarrow> task_state" where
  "apply_verification_result st e =
     (if ev_task_id e \<noteq> Some (ts_task_id st) then st
      else if get_str (ev_payload e) ''verification_id'' \<noteq> ts_active_verification_id st then st
      else case map_of TRANSITIONS (ts_status st, ev_type e) of
        None \<Rightarrow> st
      | Some s \<Rightarrow> st\<lparr>ts_status := s,
          ts_verification_status := Some (drop (length ''VERIFICATION_'') (ev_type e)),
          ts_updated_at := Some (ev_occurred_at e)\<rparr>)"

definition touch :: "task_state \<Rightarrow> event \<Rightarrow> task_state" where
  "touch st e = st\<lparr>ts_last_event_id := Some (ev_event_id e),
     ts_last_aggregate_seq := ev_aggregate_seq e, ts_updated_at := Some (ev_occurred_at e)\<rparr>"

definition apply_details :: "task_state \<Rightarrow> event \<Rightarrow> task_state" where
  "apply_details st e =
     (let p = ev_payload e in
      if ev_type e \<in> {''TASK_DELEGATED'', ''TASK_REASSIGNED''} then
        st\<lparr>ts_assignee_account_id := get_str p ''assignee_account_id'',
           ts_delegated_by := Some (ev_actor_account_id e),
           ts_assignment_revision :=
             get_default (ts_assignment_revision st) (get_int p ''assignment_revision''),
           ts_policy_snapshot_hash := or_str (get_str p ''policy_snapshot_hash'')
             (ts_policy_snapshot_hash st)\<rparr>
      else if ev_type e = ''TASK_PROGRESS_REPORTED'' then
        st\<lparr>ts_latest_progress := get_str p ''summary''\<rparr>
      else if ev_type e = ''IMPLEMENTATION_SUBMITTED'' then
        st\<lparr>ts_criteria_revision :=
             get_default (ts_criteria_revision st) (get_int p ''criteria_revision''),
           ts_verification_status := None\<rparr>
      else if ev_type e = ''TASK_VERIFICATION_STARTED'' then
        st\<lparr>ts_active_verification_id := get_str p ''verification_id'',
           ts_verification_status := Some ''PENDING''\<rparr>
      else st)"

definition apply_event :: "task_state \<Rightarrow> event \<Rightarrow> task_state res" where
  "apply_event st e =
     (if ev_type e \<in> set CREATION_EVENTS then
        Inr (if ev_aggregate_id e \<noteq> ts_task_id st then st else apply_creation st e)
      else if \<not> ts_exists st then Inr st
      else if ev_type e \<in> set VERIFICATION_RESULT_EVENTS then Inr (apply_verification_result st e)
      else if ev_aggregate_id e \<noteq> ts_task_id st \<or> ev_aggregate_type e \<noteq> ''task'' then Inr st
      else if ev_type e \<in> set ANNOTATION_EVENTS then
        Inr (if ev_type e = ''TASK_JOIN_SATISFIED''
             then (touch st e)\<lparr>ts_join_satisfied := True,
               ts_join_satisfied_children :=
                 get_default [] (get_strs (ev_payload e) ''satisfied_children'')\<rparr>
             else touch st e)
      else bind_res (next_status (ts_status st) (ev_type e)) (\<lambda>s.
        Inr (apply_details ((touch st e)\<lparr>ts_status := s\<rparr>) e)))"

text \<open>The loop body of \<^verbatim>\<open>fold\<close>, over events in \<^verbatim>\<open>recorded_seq\<close> order.\<close>

definition fold_events :: "event list \<Rightarrow> task_state \<Rightarrow> task_state res" where
  "fold_events evs st = fold_res (\<lambda>e st. apply_event st e) evs st"

definition fold_task :: "string \<Rightarrow> event list \<Rightarrow> task_state res" where
  "fold_task tid events = fold_events (sort_key ev_recorded_seq events) (initial_task tid)"

section \<open>Completion gate\<close>

definition verification_passed_check :: "task_state \<Rightarrow> string option" where
  "verification_passed_check st =
     (if ts_status st \<noteq> VERIFIED \<or> ts_verification_status st \<noteq> Some ''PASSED''
      then Some ''VERIFICATION_REQUIRED'' else None)"

type_synonym 'd completion_check = "task_state \<Rightarrow> 'd \<Rightarrow> string option"

definition completion_prerequisites ::
  "'d completion_check list \<Rightarrow> task_state \<Rightarrow> 'd \<Rightarrow> string list" where
  "completion_prerequisites checks st session =
     filter (\<lambda>c. c \<noteq> []) (List.map_filter id [verification_passed_check st]) @
     filter (\<lambda>c. c \<noteq> []) (List.map_filter (\<lambda>check. check st session) checks)"

section \<open>What a status witnesses\<close>

lemma next_status_Inr:
  "next_status s t = Inr s' \<longleftrightarrow> \<not> task_terminal s \<and> map_of TRANSITIONS (s, t) = Some s'"
  by (auto simp: next_status_def split: option.splits)

lemma next_status_Inl:
  "next_status s t = Inl c \<longleftrightarrow>
     (if task_terminal s then c = ''TASK_TERMINAL''
      else map_of TRANSITIONS (s, t) = None \<and> c = ''TASK_TRANSITION_INVALID'')"
  by (auto simp: next_status_def split: option.splits)

lemma terminal_stuck: "task_terminal s \<Longrightarrow> map_of TRANSITIONS (s, t) = None"
  by (cases s) (simp_all add: task_terminal_def TRANSITIONS_def)

text \<open>The outcomes of applying an event: nothing changes but bookkeeping, or one of the three
  updates that move the status.\<close>

definition concerns :: "string \<Rightarrow> event \<Rightarrow> bool" where
  "concerns tid e \<longleftrightarrow>
     (if ev_type e \<in> set CREATION_EVENTS then ev_aggregate_id e = tid
      else if ev_type e \<in> set VERIFICATION_RESULT_EVENTS then ev_task_id e = Some tid
      else ev_aggregate_id e = tid \<and> ev_aggregate_type e = ''task'')"

lemma touch_sel [simp]:
  "ts_status (touch st e) = ts_status st" "ts_exists (touch st e) = ts_exists st"
  "ts_task_id (touch st e) = ts_task_id st"
  "ts_verification_status (touch st e) = ts_verification_status st"
  "ts_active_verification_id (touch st e) = ts_active_verification_id st"
  by (simp_all add: touch_def)

lemma apply_details_sel [simp]:
  "ts_status (apply_details st e) = ts_status st" "ts_exists (apply_details st e) = ts_exists st"
  "ts_task_id (apply_details st e) = ts_task_id st"
  by (simp_all add: apply_details_def Let_def)

lemma apply_event_cases:
  assumes "apply_event st e = Inr st'"
  obtains (same) "ts_status st' = ts_status st" "ts_exists st' = ts_exists st"
      "ts_verification_status st' = ts_verification_status st"
      "ts_active_verification_id st' = ts_active_verification_id st"
      "ts_task_id st' = ts_task_id st"
  | (created) "ev_type e \<in> set CREATION_EVENTS" "ev_aggregate_id e = ts_task_id st"
      "st' = apply_creation st e"
  | (verified) s where "ts_exists st" "ev_type e \<in> set VERIFICATION_RESULT_EVENTS"
      "ev_task_id e = Some (ts_task_id st)"
      "get_str (ev_payload e) ''verification_id'' = ts_active_verification_id st"
      "map_of TRANSITIONS (ts_status st, ev_type e) = Some s"
      "st' = st\<lparr>ts_status := s,
          ts_verification_status := Some (drop (length ''VERIFICATION_'') (ev_type e)),
          ts_updated_at := Some (ev_occurred_at e)\<rparr>"
  | (moved) s where "ts_exists st" "ev_type e \<notin> set CREATION_EVENTS"
      "ev_type e \<notin> set VERIFICATION_RESULT_EVENTS" "ev_aggregate_id e = ts_task_id st"
      "ev_aggregate_type e = ''task''" "\<not> task_terminal (ts_status st)"
      "map_of TRANSITIONS (ts_status st, ev_type e) = Some s"
      "st' = apply_details ((touch st e)\<lparr>ts_status := s\<rparr>) e"
proof -
  let ?own = "ev_aggregate_id e = ts_task_id st \<and> ev_aggregate_type e = ''task''"
  consider (c) "ev_type e \<in> set CREATION_EVENTS"
    | (n) "ev_type e \<notin> set CREATION_EVENTS" "\<not> ts_exists st"
    | (v) "ev_type e \<notin> set CREATION_EVENTS" "ts_exists st"
        "ev_type e \<in> set VERIFICATION_RESULT_EVENTS"
    | (i) "ev_type e \<notin> set CREATION_EVENTS" "ts_exists st"
        "ev_type e \<notin> set VERIFICATION_RESULT_EVENTS"
        "\<not> ?own \<or> ev_type e \<in> set ANNOTATION_EVENTS"
    | (m) "ev_type e \<notin> set CREATION_EVENTS" "ts_exists st"
        "ev_type e \<notin> set VERIFICATION_RESULT_EVENTS" "?own" "ev_type e \<notin> set ANNOTATION_EVENTS"
    by blast
  then show thesis
  proof cases
    case c
    show ?thesis
    proof (cases "ev_aggregate_id e = ts_task_id st")
      case True
      with c assms show ?thesis by (intro created) (simp_all add: apply_event_def)
    next
      case False
      with c assms have "st' = st" by (simp add: apply_event_def)
      then show ?thesis by (intro same) simp_all
    qed
  next
    case n
    then show ?thesis using assms same by (simp add: apply_event_def)
  next
    case v
    then have st': "st' = apply_verification_result st e" using assms by (simp add: apply_event_def)
    show ?thesis
    proof (cases "ev_task_id e = Some (ts_task_id st) \<and>
        get_str (ev_payload e) ''verification_id'' = ts_active_verification_id st")
      case False
      then have "st' = st" using st' by (simp add: apply_verification_result_def)
      then show ?thesis by (intro same) simp_all
    next
      case True
      show ?thesis
      proof (cases "map_of TRANSITIONS (ts_status st, ev_type e)")
        case None
        then have "st' = st" using st' by (simp add: apply_verification_result_def)
        then show ?thesis by (intro same) simp_all
      next
        case (Some t)
        with st' True v show ?thesis
          by (intro verified [of t]) (simp_all add: apply_verification_result_def)
      qed
    qed
  next
    case i
    then show ?thesis
      using assms by (intro same) (auto simp: apply_event_def split: if_splits)
  next
    case m
    then obtain t where "next_status (ts_status st) (ev_type e) = Inr t"
        "st' = apply_details ((touch st e)\<lparr>ts_status := t\<rparr>) e"
      using assms by (auto simp: apply_event_def res_simps)
    with m show ?thesis by (intro moved [of t]) (simp_all add: next_status_Inr)
  qed
qed

lemma apply_creation_sel [simp]:
  "ts_status (apply_creation st e) = OPEN" "ts_exists (apply_creation st e)"
  "ts_task_id (apply_creation st e) = ts_task_id st"
  by (simp_all add: apply_creation_def Let_def)

lemma apply_event_task_id: "apply_event st e = Inr st' \<Longrightarrow> ts_task_id st' = ts_task_id st"
  by (erule apply_event_cases) simp_all

lemma fold_events_snoc:
  "fold_events (evs @ [e]) st = bind_res (fold_events evs st) (\<lambda>st. apply_event st e)"
  by (simp add: fold_events_def fold_res_append bind_res_def split: sum.splits)

lemma fold_events_append:
  "fold_events (evs @ fs) st = bind_res (fold_events evs st) (fold_events fs)"
  unfolding fold_events_def [abs_def] by (rule fold_res_append)

lemma fold_events_Nil [simp]: "fold_events [] st = Inr st"
  by (simp add: fold_events_def)

lemma fold_events_invariant:
  assumes "\<And>e u u'. e \<in> set evs \<Longrightarrow> Q u \<Longrightarrow> apply_event u e = Inr u' \<Longrightarrow> Q u'"
    and "Q st" and "fold_events evs st = Inr st'"
  shows "Q st'"
  using assms fold_res_invariant [of evs Q "\<lambda>e st. apply_event st e" st st']
  unfolding fold_events_def by blast

lemma fold_events_task_id: "fold_events evs st = Inr st' \<Longrightarrow> ts_task_id st' = ts_task_id st"
  by (rule fold_events_invariant [where Q = "\<lambda>u. ts_task_id u = ts_task_id st"])
    (auto dest: apply_event_task_id)

definition lifecycle :: "string list" where
  "lifecycle = [''TASK_CREATED'', ''TASK_DELEGATED'', ''TASK_STARTED'',
     ''IMPLEMENTATION_SUBMITTED'', ''TASK_VERIFICATION_STARTED'', ''VERIFICATION_PASSED'',
     ''TASK_COMPLETED'']"

text \<open>How many steps of the lifecycle a status has behind it.\<close>

fun stage :: "task_status \<Rightarrow> nat" where
  "stage OPEN = 1"
| "stage DELEGATED = 2"
| "stage ACCEPTED = 2"
| "stage WAITING = 2"
| "stage RUNNING = 3"
| "stage IMPLEMENTED = 4"
| "stage VERIFYING = 5"
| "stage VERIFIED = 6"
| "stage COMPLETED = 7"
| "stage CANCEL_REQUESTED = 2"
| "stage CANCELLED = 1"

definition milestone :: "event \<Rightarrow> string" where
  "milestone e = (if ev_type e \<in> set CREATION_EVENTS then ''TASK_CREATED'' else ev_type e)"

lemma milestones_step:
  assumes "map_of TRANSITIONS (s, t) = Some s'"
  shows "subseq (take (stage s') lifecycle) (take (stage s) lifecycle @ [t])"
proof -
  have "list_all (\<lambda>((s, t), s'). subseq (take (stage s') lifecycle) (take (stage s) lifecycle @ [t])) TRANSITIONS"
    by (simp add: TRANSITIONS_def lifecycle_def)
  with map_of_SomeD [OF assms] show ?thesis by (fastforce simp: list_all_iff)
qed

lemma status_milestones:
  assumes "fold_events evs (initial_task tid) = Inr st" and "ts_exists st"
  shows "subseq (take (stage (ts_status st)) lifecycle) (map milestone (filter (concerns tid) evs))"
  using assms
proof (induction evs arbitrary: st rule: rev_induct)
  case Nil
  then show ?case by (auto simp: initial_task_def)
next
  case (snoc e evs)
  then obtain u where u: "fold_events evs (initial_task tid) = Inr u" "apply_event u e = Inr st"
    by (auto simp: fold_events_snoc res_simps)
  have tid: "ts_task_id u = tid"
    using fold_events_task_id [OF u(1)] by (simp add: initial_task_def)
  let ?old = "map milestone (filter (concerns tid) evs)"
  have snoc_same: "subseq (xs @ [t]) (?old @ [milestone e])"
    if "subseq xs ?old" "milestone e = t" for xs t
    using that(2) subseq_snoc_same [OF that(1), of t] by simp
  have advance: "subseq (take (stage s) lifecycle) (?old @ [milestone e])"
    if "map_of TRANSITIONS (ts_status u, ev_type e) = Some s" "ts_exists u"
      "milestone e = ev_type e" for s
    using milestones_step [OF that(1)] snoc_same [OF snoc.IH [OF u(1) that(2)] that(3)]
    by (rule subseq_order.trans)
  from u(2) show ?case
  proof (cases rule: apply_event_cases)
    case same
    then show ?thesis
      using snoc.IH [OF u(1)] snoc.prems(2) by (auto intro: subseq_snoc_skip)
  next
    case created
    then have "concerns tid e" "milestone e = ''TASK_CREATED''"
      using tid by (simp_all add: concerns_def milestone_def)
    then show ?thesis using created snoc_same [of "[]"] by (simp add: lifecycle_def)
  next
    case (verified s)
    then have "concerns tid e" "milestone e = ev_type e"
      using tid by (auto simp: concerns_def milestone_def CREATION_EVENTS_def
          VERIFICATION_RESULT_EVENTS_def)
    with verified show ?thesis using advance [OF verified(5)] by simp
  next
    case (moved s)
    then have "concerns tid e" "milestone e = ev_type e"
      using tid by (auto simp: concerns_def milestone_def)
    with moved show ?thesis using advance [OF moved(7)] by simp
  qed
qed

text \<open>A status that implies a passed verification, and which one.\<close>

definition passed_inv :: "event list \<Rightarrow> task_state \<Rightarrow> bool" where
  "passed_inv evs st \<longleftrightarrow>
     (ts_status st \<in> {VERIFIED, COMPLETED} \<longrightarrow>
        ts_verification_status st = Some ''PASSED'' \<and>
        (\<exists>e \<in> set evs. ev_type e = ''VERIFICATION_PASSED'' \<and>
           ev_task_id e = Some (ts_task_id st) \<and>
           get_str (ev_payload e) ''verification_id'' = ts_active_verification_id st))"

lemma transition_to_verified:
  "map_of TRANSITIONS (s, t) = Some VERIFIED \<Longrightarrow> s = VERIFYING \<and> t = ''VERIFICATION_PASSED''"
  "map_of TRANSITIONS (s, t) = Some COMPLETED \<Longrightarrow> s = VERIFIED \<and> t = ''TASK_COMPLETED''"
  by (auto simp: TRANSITIONS_def split: if_splits dest!: map_of_SomeD)

lemma apply_event_passed:
  assumes "passed_inv evs st" and "e \<in> set evs" and "apply_event st e = Inr st'"
  shows "passed_inv evs st'"
  using assms(3)
proof (cases rule: apply_event_cases)
  case same
  then show ?thesis using assms(1) by (simp add: passed_inv_def)
next
  case created
  then show ?thesis by (simp add: passed_inv_def)
next
  case (verified s)
  then show ?thesis
    using assms(2) transition_to_verified [of "ts_status st" "ev_type e"]
    by (auto simp: passed_inv_def VERIFICATION_RESULT_EVENTS_def)
next
  case (moved s)
  have "s \<noteq> VERIFIED"
    using moved transition_to_verified(1) by (auto simp: VERIFICATION_RESULT_EVENTS_def)
  moreover have "apply_details u e = u \<and> ts_status st = VERIFIED" if "s = COMPLETED" for u
  proof -
    have "ts_status st = VERIFIED \<and> ev_type e = ''TASK_COMPLETED''"
      using moved(7) that transition_to_verified(2) by blast
    then show ?thesis by (simp add: apply_details_def)
  qed
  ultimately show ?thesis using assms(1) moved(8) by (auto simp: passed_inv_def)
qed

lemma fold_events_passed:
  assumes "fold_events evs (initial_task tid) = Inr st"
  shows "passed_inv evs st"
proof (rule fold_events_invariant [OF _ _ assms])
  show "passed_inv evs (initial_task tid)" by (simp add: passed_inv_def initial_task_def)
qed (rule apply_event_passed)

lemma fold_events_exists:
  assumes "fold_events evs (initial_task tid) = Inr st" and "ts_status st \<noteq> OPEN"
  shows "ts_exists st"
proof -
  have "ts_exists st \<or> ts_status st = OPEN"
  proof (rule fold_events_invariant [OF _ _ assms(1)])
    fix e u u'
    assume "ts_exists u \<or> ts_status u = OPEN" "apply_event u e = Inr u'"
    then show "ts_exists u' \<or> ts_status u' = OPEN"
      by (auto elim!: apply_event_cases)
  qed (simp add: initial_task_def)
  with assms(2) show ?thesis by simp
qed

section \<open>Properties\<close>

text \<open>
  C3. A Task whose Events fold to COMPLETED went through the whole lifecycle: among the Events that
  concern it, in recorded order, there are its creation, a delegation, a start, a submitted
  implementation, the start of a verification, a passed verification and its completion, in this
  order; and the verification that was active at the end is one with a recorded PASSED result.
\<close>

theorem completed_task_lifecycle:
  assumes "fold_task tid evs = Inr st" and "ts_status st = COMPLETED"
  shows "subseq lifecycle
           (map milestone (filter (concerns tid) (sort_key ev_recorded_seq evs))) \<and>
         ts_verification_status st = Some ''PASSED'' \<and>
         (\<exists>e \<in> set evs. ev_type e = ''VERIFICATION_PASSED'' \<and> ev_task_id e = Some tid \<and>
            get_str (ev_payload e) ''verification_id'' = ts_active_verification_id st)"
proof -
  let ?evs = "sort_key ev_recorded_seq evs"
  have f: "fold_events ?evs (initial_task tid) = Inr st" using assms(1) by (simp add: fold_task_def)
  have "ts_exists st" using fold_events_exists [OF f] assms(2) by simp
  from status_milestones [OF f this] assms(2)
  have "subseq lifecycle (map milestone (filter (concerns tid) ?evs))"
    by (simp add: lifecycle_def)
  moreover have "ts_task_id st = tid"
    using fold_events_task_id [OF f] by (simp add: initial_task_def)
  ultimately show ?thesis
    using fold_events_passed [OF f] assms(2) by (auto simp: passed_inv_def)
qed

definition sample_task_event :: "int \<Rightarrow> string \<Rightarrow> string \<Rightarrow> pydict \<Rightarrow> event" where
  "sample_task_event n agg t p = sample_event\<lparr>ev_aggregate_type := agg,
     ev_task_id := Some ''task-1'', ev_type := t, ev_payload := p, ev_recorded_seq := n\<rparr>"

definition sample_lifecycle :: "event list" where
  "sample_lifecycle =
    [sample_task_event 7 ''verification_run'' ''VERIFICATION_PASSED'' [(''verification_id'', JStr ''v'')],
     sample_task_event 1 ''task'' ''TASK_CREATED'' [(''title'', JStr ''T'')],
     sample_task_event 2 ''task'' ''TASK_DELEGATED'' [(''assignee_account_id'', JStr ''a'')],
     sample_task_event 3 ''task'' ''TASK_ACCEPTED'' [],
     sample_task_event 4 ''task'' ''TASK_STARTED'' [],
     sample_task_event 5 ''task'' ''IMPLEMENTATION_SUBMITTED'' [],
     sample_task_event 6 ''task'' ''TASK_VERIFICATION_STARTED'' [(''verification_id'', JStr ''v'')],
     sample_task_event 8 ''task'' ''TASK_COMPLETED'' []]"

lemmas task_eval = sample_task_event_def sample_event_def fold_task_def fold_events_def
  apply_event_def apply_creation_def apply_verification_result_def touch_def apply_details_def
  next_status_def task_terminal_def TRANSITIONS_def CREATION_EVENTS_def
  VERIFICATION_RESULT_EVENTS_def ANNOTATION_EVENTS_def initial_task_def get_str_def get_int_def
  get_obj_def get_str_or_def or_str_def

theorem completed_task_lifecycle_witness:
  "\<exists>st. fold_task ''task-1'' sample_lifecycle = Inr st \<and> ts_status st = COMPLETED \<and>
     subseq lifecycle (map milestone (filter (concerns ''task-1'')
       (sort_key ev_recorded_seq sample_lifecycle)))"
proof -
  obtain st where "fold_task ''task-1'' sample_lifecycle = Inr st" "ts_status st = COMPLETED"
    by (simp add: sample_lifecycle_def task_eval)
  then show ?thesis using completed_task_lifecycle by blast
qed

text \<open>
  A terminal Task stays as it is: whatever Events follow, other than a second creation of the
  same Task, a fold that succeeds keeps its status and its verification status, and every further
  transition recorded on the Task is refused with \<^verbatim>\<open>TASK_TERMINAL\<close>.
\<close>

theorem terminal_task_absorbing:
  assumes "ts_exists st" and "task_terminal (ts_status st)"
    and "\<forall>e \<in> set evs. ev_type e \<in> set CREATION_EVENTS \<longrightarrow> ev_aggregate_id e \<noteq> ts_task_id st"
  shows "(\<forall>st'. fold_events evs st = Inr st' \<longrightarrow> ts_status st' = ts_status st \<and>
            ts_verification_status st' = ts_verification_status st) \<and>
         (\<forall>e :: event. ev_aggregate_id e = ts_task_id st \<and> ev_aggregate_type e = ''task'' \<and>
            ev_type e \<notin> set (CREATION_EVENTS @ VERIFICATION_RESULT_EVENTS @ ANNOTATION_EVENTS)
            \<longrightarrow> apply_event st e = Inl ''TASK_TERMINAL'')"
proof (intro conjI allI impI)
  fix st'
  assume f: "fold_events evs st = Inr st'"
  have stuck: "map_of TRANSITIONS (ts_status st, t) = None" for t
    using terminal_stuck [OF assms(2)] .
  let ?Q = "\<lambda>u. ts_status u = ts_status st \<and> ts_verification_status u = ts_verification_status st \<and>
    ts_task_id u = ts_task_id st"
  have "?Q st'"
  proof (rule fold_events_invariant [OF _ _ f])
    fix e u u'
    assume e: "e \<in> set evs" "?Q u" "apply_event u e = Inr u'"
    from e(3) show "?Q u'"
    proof (cases rule: apply_event_cases)
      case created
      then show ?thesis using assms(3) e by simp
    qed (use stuck e assms(2) in simp_all)
  qed simp
  then show "ts_status st' = ts_status st"
    "ts_verification_status st' = ts_verification_status st" by simp_all
next
  fix e :: event
  assume "ev_aggregate_id e = ts_task_id st \<and> ev_aggregate_type e = ''task'' \<and>
    ev_type e \<notin> set (CREATION_EVENTS @ VERIFICATION_RESULT_EVENTS @ ANNOTATION_EVENTS)"
  then show "apply_event st e = Inl ''TASK_TERMINAL''"
    using assms(1,2) by (simp add: apply_event_def next_status_def)
qed

theorem terminal_task_absorbing_example:
  "\<exists>st. fold_task ''task-1'' sample_lifecycle = Inr st \<and> ts_status st = COMPLETED \<and>
     apply_event st (sample_task_event 9 ''task'' ''TASK_CANCELLED'' []) = Inl ''TASK_TERMINAL''"
proof -
  obtain st where st: "fold_task ''task-1'' sample_lifecycle = Inr st" "ts_status st = COMPLETED"
      "ts_exists st" "ts_task_id st = ''task-1''"
    by (simp add: sample_lifecycle_def task_eval)
  then have "apply_event st (sample_task_event 9 ''task'' ''TASK_CANCELLED'' []) = Inl ''TASK_TERMINAL''"
    using terminal_task_absorbing [of st "[]"]
    by (simp add: task_terminal_def sample_task_event_def sample_event_def CREATION_EVENTS_def
        VERIFICATION_RESULT_EVENTS_def ANNOTATION_EVENTS_def)
  with st show ?thesis by blast
qed

text \<open>
  On a folded Task the completion gate is open exactly when the Task is VERIFIED and every
  registered check passes; the built-in check on the verification result never disagrees with the
  status.
\<close>

lemma completion_gate:
  assumes "fold_task tid evs = Inr st"
  shows "completion_prerequisites checks st session = [] \<longleftrightarrow>
    ts_status st = VERIFIED \<and> list_all (\<lambda>check. \<not> truthy (check st session)) checks"
proof -
  have "passed_inv (sort_key ev_recorded_seq evs) st"
    using assms fold_events_passed by (simp add: fold_task_def)
  then have "verification_passed_check st = None \<longleftrightarrow> ts_status st = VERIFIED"
    by (auto simp: verification_passed_check_def passed_inv_def)
  moreover have "verification_passed_check st \<noteq> Some []"
    by (simp add: verification_passed_check_def)
  moreover have "filter (\<lambda>c. c \<noteq> []) (List.map_filter (\<lambda>check. check st session) checks) = [] \<longleftrightarrow>
    list_all (\<lambda>check. \<not> truthy (check st session)) checks"
    by (induction checks) (auto simp: List.map_filter_def truthy_def split: option.splits)
  ultimately show ?thesis
    by (cases "verification_passed_check st")
      (auto simp: completion_prerequisites_def List.map_filter_def)
qed

lemma completion_gate_example:
  "\<exists>st. fold_task ''task-1'' (butlast sample_lifecycle) = Inr st \<and>
     completion_prerequisites [\<lambda>_ _. None] st () = []"
proof -
  obtain st where st: "fold_task ''task-1'' (butlast sample_lifecycle) = Inr st" "ts_status st = VERIFIED"
    by (simp add: sample_lifecycle_def task_eval)
  with completion_gate [OF st(1), of "[\<lambda>_ _. None]" "()"] show ?thesis by auto
qed

end
