(* ===== verification/Task_Graph.thy ===== *)
theory Task_Graph
  imports Prelude
begin

text \<open>
  Task-graph rules: \<^verbatim>\<open>src/server/tasks/graph.py\<close>.

  Limits from a channel policy, admission of a new sub-Task, the ancestor walk and the parent's
  join condition (\<open>ALL\<close>, \<open>ANY\<close>, \<open>QUORUM\<close>). The walk is shown to end and to find exactly the
  ancestors of an acyclic graph, admission to keep the graph acyclic and within its limits, and the
  join to be the condition its documentation states.
\<close>

section \<open>Limits\<close>

definition DEFAULT_DELEGATION_DEPTH :: int where "DEFAULT_DELEGATION_DEPTH = 4"
definition DEFAULT_MAX_FAN_OUT :: int where "DEFAULT_MAX_FAN_OUT = 8"
definition DEFAULT_CONCURRENT_SUBTASKS :: int where "DEFAULT_CONCURRENT_SUBTASKS = 8"

record graph_limits =
  gl_delegation_depth :: int
  gl_max_fan_out :: int
  gl_concurrent_subtasks :: int

text \<open>\<^verbatim>\<open>isinstance(v, int)\<close> holds of \<^verbatim>\<open>bool\<close> values too.\<close>

definition py_int :: "json option \<Rightarrow> int option" where
  "py_int v = (case v of Some (JInt n) \<Rightarrow> Some n | Some (JBool b) \<Rightarrow> Some (of_bool b) | _ \<Rightarrow> None)"

definition pick_limit :: "pydict \<Rightarrow> string \<Rightarrow> int \<Rightarrow> int" where
  "pick_limit limits key dflt =
     (case py_int (map_of limits key) of
        Some n \<Rightarrow> if n > 0 then n else dflt
      | None \<Rightarrow> dflt)"

definition limits_from_policy :: "pydict option \<Rightarrow> graph_limits" where
  "limits_from_policy limits =
     (let l = get_default [] limits in
      \<lparr>gl_delegation_depth = pick_limit l ''delegation_depth'' DEFAULT_DELEGATION_DEPTH,
       gl_max_fan_out = pick_limit l ''max_fan_out'' DEFAULT_MAX_FAN_OUT,
       gl_concurrent_subtasks = pick_limit l ''concurrent_subtasks'' DEFAULT_CONCURRENT_SUBTASKS\<rparr>)"

section \<open>Admission of a sub-Task\<close>

record parent_view =
  pv_task_id :: string
  pv_workspace_id :: string
  pv_depth :: int
  pv_status :: string

definition validate_new_child ::
  "parent_view \<Rightarrow> string \<Rightarrow> string \<Rightarrow> string list \<Rightarrow> int \<Rightarrow> int \<Rightarrow> graph_limits \<Rightarrow> unit res" where
  "validate_new_child parent child actor_ws ancestors sibling_count active_sibling_count limits =
     (if child = pv_task_id parent \<or> child \<in> set ancestors then Inl ''TASK_GRAPH_CYCLE''
      else if pv_workspace_id parent \<noteq> actor_ws then Inl ''TASK_WORKSPACE_MISMATCH''
      else if pv_status parent \<in> {''COMPLETED'', ''CANCELLED''} then Inl ''TASK_TERMINAL''
      else if pv_depth parent + 1 > gl_delegation_depth limits then Inl ''TASK_DEPTH_EXCEEDED''
      else if sibling_count + 1 > gl_max_fan_out limits then Inl ''TASK_FANOUT_EXCEEDED''
      else if active_sibling_count + 1 > gl_concurrent_subtasks limits
      then Inl ''TASK_CONCURRENCY_EXCEEDED''
      else Inr ())"

section \<open>Join\<close>

record child_view =
  cv_task_id :: string
  cv_status :: string
  cv_verification_status :: "string option"

definition child_done :: "child_view \<Rightarrow> bool" where
  "child_done c \<longleftrightarrow> cv_status c \<in> {''VERIFIED'', ''COMPLETED''}"

definition child_cancelled :: "child_view \<Rightarrow> bool" where
  "child_cancelled c \<longleftrightarrow> cv_status c = ''CANCELLED''"

datatype join_kind = JoinAll | JoinAny | JoinQuorum

record join_result =
  jr_mode :: join_kind
  jr_satisfied :: bool
  jr_satisfied_children :: "string list"
  jr_missing :: "string list"
  jr_quorum :: "int option"

definition upper_char :: "char \<Rightarrow> char" where
  "upper_char c = (let n = of_char c :: nat in if 97 \<le> n \<and> n \<le> 122 then char_of (n - 32) else c)"

text \<open>
  \<^verbatim>\<open>str(v).upper()\<close> of the mode: a value that is not a string prints as something that is no mode.
\<close>

definition mode_text :: "json \<Rightarrow> string" where
  "mode_text v = (case v of JStr s \<Rightarrow> map upper_char s | _ \<Rightarrow> [])"

definition join_kind_of :: "string \<Rightarrow> join_kind option" where
  "join_kind_of m =
     (if m = ''ALL'' then Some JoinAll else if m = ''ANY'' then Some JoinAny
      else if m = ''QUORUM'' then Some JoinQuorum else None)"

definition join_mode :: "pydict option \<Rightarrow> (join_kind \<times> int option \<times> string list) res" where
  "join_mode policy =
     (let p = get_default [] policy;
          m = (case map_of p ''mode'' of
                 Some v \<Rightarrow> v
               | None \<Rightarrow> (case map_of p ''join'' of Some v \<Rightarrow> v | None \<Rightarrow> JStr ''ALL''));
          quorum = py_int (map_of p ''quorum'');
          required = get_default [] (get_strs p ''required'')
      in case join_kind_of (mode_text m) of
           None \<Rightarrow> Inl ''TASK_JOIN_POLICY_INVALID''
         | Some JoinQuorum \<Rightarrow>
             (case quorum of
                Some q \<Rightarrow> if q < 1 then Inl ''TASK_JOIN_POLICY_INVALID''
                          else Inr (JoinQuorum, Some q, required)
              | None \<Rightarrow> Inl ''TASK_JOIN_POLICY_INVALID'')
         | Some k \<Rightarrow> Inr (k, None, required))"

definition evaluate_join :: "pydict option \<Rightarrow> child_view list \<Rightarrow> join_result res" where
  "evaluate_join policy children =
     bind_res (join_mode policy) (\<lambda>(mode, quorum, required).
       let finished = map cv_task_id (filter child_done children);
           by_id = map_of (rev (map (\<lambda>c. (cv_task_id c, c)) children));
           missing_required = filter (\<lambda>r. r \<notin> set finished) required
       in if children = [] then
            Inr \<lparr>jr_mode = mode, jr_satisfied = False, jr_satisfied_children = [], jr_missing = [],
                 jr_quorum = None\<rparr>
          else case mode of
            JoinAll \<Rightarrow>
              (let pending = map cv_task_id
                     (filter (\<lambda>c. \<not> child_done c \<and> \<not> child_cancelled c) children);
                   missing = dedup (pending @ missing_required);
                   missing = missing @ filter (\<lambda>r. (case by_id r of None \<Rightarrow> False
                       | Some c \<Rightarrow> child_cancelled c) \<and> r \<notin> set missing) required
               in Inr \<lparr>jr_mode = mode, jr_satisfied = (missing = [] \<and> finished \<noteq> []),
                       jr_satisfied_children = finished, jr_missing = missing, jr_quorum = None\<rparr>)
          | JoinAny \<Rightarrow>
              Inr \<lparr>jr_mode = mode, jr_satisfied = (finished \<noteq> []),
                   jr_satisfied_children = finished,
                   jr_missing = (if finished \<noteq> [] then [] else dedup (map cv_task_id children)),
                   jr_quorum = None\<rparr>
          | JoinQuorum \<Rightarrow>
              (case quorum of
                 None \<Rightarrow> Inl ''AssertionError''
               | Some q \<Rightarrow>
                   Inr \<lparr>jr_mode = mode,
                        jr_satisfied = (int (length finished) \<ge> q \<and> missing_required = []),
                        jr_satisfied_children = finished,
                        jr_missing = (if int (length finished) \<ge> q then missing_required
                          else map cv_task_id (filter (\<lambda>c. \<not> child_done c) children)),
                        jr_quorum = Some q\<rparr>))"

section \<open>The ancestor walk\<close>

record graph_snapshot =
  gs_children :: "(string \<times> string list) list"
  gs_parent :: "(string \<times> string) list"

function walk_up :: "(string \<times> string) list \<Rightarrow> string option \<Rightarrow> string list \<Rightarrow> string list" where
  "walk_up parent cur out =
     (case cur of
        None \<Rightarrow> out
      | Some c \<Rightarrow> if c \<in> set out then out else walk_up parent (map_of parent c) (out @ [c]))"
  by pat_completeness auto

text \<open>Every turn of the loop adds a new node; all but the first are values of the parent map.\<close>

termination
proof (relation "measure (\<lambda>(parent, cur, out).
    case cur of None \<Rightarrow> 0 | Some c \<Rightarrow> Suc (card (insert c (snd ` set parent) - set out)))")
  fix parent :: "(string \<times> string) list" and cur :: "string option" and out c
  assume cur: "cur = Some c" and new: "c \<notin> set out"
  let ?V = "snd ` set parent"
  have "card (insert p ?V - set (out @ [c])) < card (insert c ?V - set out)"
    if "map_of parent c = Some p" for p
  proof -
    have "p \<in> ?V" using that by (force dest: map_of_SomeD)
    then show ?thesis using new by (intro psubset_card_mono) auto
  qed
  then show "((parent, map_of parent c, out @ [c]), (parent, cur, out))
      \<in> measure (\<lambda>(parent, cur, out). case cur of None \<Rightarrow> 0
          | Some c \<Rightarrow> Suc (card (insert c (snd ` set parent) - set out)))"
    using cur by (simp split: option.split)
qed simp

declare walk_up.simps [simp del]

definition ancestors :: "graph_snapshot \<Rightarrow> string \<Rightarrow> string list" where
  "ancestors g tid = walk_up (gs_parent g) (map_of (gs_parent g) tid) []"

definition parent_rel :: "graph_snapshot \<Rightarrow> (string \<times> string) set" where
  "parent_rel g = {(c, p). map_of (gs_parent g) c = Some p}"

definition add_edge :: "graph_snapshot \<Rightarrow> string \<Rightarrow> string \<Rightarrow> graph_snapshot" where
  "add_edge g child p = g\<lparr>gs_parent := (child, p) # gs_parent g\<rparr>"

text \<open>Everything the walk reports is an ancestor, and nothing is missed.\<close>

lemma walk_up_sound:
  assumes "x \<in> set (walk_up parent cur out)" and "x \<notin> set out"
  shows "\<exists>c. cur = Some c \<and> (c, x) \<in> {(c, p). map_of parent c = Some p}\<^sup>*"
  using assms
proof (induction parent cur out rule: walk_up.induct)
  case (1 parent cur out)
  let ?R = "{(c, p). map_of parent c = Some p}"
  from 1(2,3) obtain c where c: "cur = Some c" "c \<notin> set out"
      "x \<in> set (walk_up parent (map_of parent c) (out @ [c]))"
    by (subst (asm) walk_up.simps) (auto split: option.splits if_splits)
  show ?case
  proof (cases "x = c")
    case False
    with 1(1) [OF c(1,2,3)] 1(3) obtain d where "map_of parent c = Some d" "(d, x) \<in> ?R\<^sup>*" by auto
    then have "(c, x) \<in> ?R\<^sup>*" by (intro converse_rtrancl_into_rtrancl [of c d]) auto
    with c show ?thesis by blast
  qed (use c in blast)
qed

lemma walk_up_complete:
  assumes "\<forall>y \<in> set out. \<forall>z. map_of parent y = Some z \<longrightarrow> z \<in> set out \<or> cur = Some z"
  shows "\<forall>y \<in> set (walk_up parent cur out) \<union> set_option cur.
           y \<in> set (walk_up parent cur out) \<and>
           (\<forall>z. map_of parent y = Some z \<longrightarrow> z \<in> set (walk_up parent cur out))"
  using assms
proof (induction parent cur out rule: walk_up.induct)
  case (1 parent cur out)
  have sub: "set o' \<subseteq> set (walk_up p cu o')" for p cu o'
  proof (induction p cu o' rule: walk_up.induct)
    case (1 p cu o')
    then show ?case by (subst walk_up.simps) (auto split: option.split)
  qed
  show ?case
  proof (cases cur)
    case None
    then show ?thesis using 1(2) by (simp add: walk_up.simps [of _ None])
  next
    case (Some c)
    show ?thesis
    proof (cases "c \<in> set out")
      case True
      then show ?thesis using 1(2) Some by (auto simp: walk_up.simps [of _ "Some c"])
    next
      case False
      have eq: "walk_up parent cur out = walk_up parent (map_of parent c) (out @ [c])"
        using Some False by (simp add: walk_up.simps [of _ "Some c"])
      have c: "c \<in> set (walk_up parent (map_of parent c) (out @ [c]))"
        using sub [of "out @ [c]"] by auto
      have "\<forall>y \<in> set (out @ [c]). \<forall>z. map_of parent y = Some z \<longrightarrow>
          z \<in> set (out @ [c]) \<or> map_of parent c = Some z"
        using 1(2) Some by auto
      from 1(1) [OF Some False this]
      have "\<forall>y \<in> set (walk_up parent cur out). y \<in> set (walk_up parent cur out) \<and>
          (\<forall>z. map_of parent y = Some z \<longrightarrow> z \<in> set (walk_up parent cur out))"
        unfolding eq by blast
      moreover have "set (walk_up parent cur out) \<union> set_option cur = set (walk_up parent cur out)"
        using c Some eq by auto
      ultimately show ?thesis by (simp only:)
    qed
  qed
qed

lemma ancestors_iff: "x \<in> set (ancestors g tid) \<longleftrightarrow> (tid, x) \<in> (parent_rel g)\<^sup>+"
proof
  assume "x \<in> set (ancestors g tid)"
  then obtain c where "map_of (gs_parent g) tid = Some c" "(c, x) \<in> (parent_rel g)\<^sup>*"
    using walk_up_sound [of x "gs_parent g" "map_of (gs_parent g) tid" "[]"]
    by (auto simp: ancestors_def parent_rel_def)
  then show "(tid, x) \<in> (parent_rel g)\<^sup>+"
    by (auto simp: parent_rel_def intro: rtrancl_into_trancl2)
next
  let ?w = "set (ancestors g tid)"
  have closed: "\<forall>y \<in> ?w \<union> set_option (map_of (gs_parent g) tid).
      y \<in> ?w \<and> (\<forall>z. map_of (gs_parent g) y = Some z \<longrightarrow> z \<in> ?w)"
    unfolding ancestors_def by (rule walk_up_complete) simp
  assume "(tid, x) \<in> (parent_rel g)\<^sup>+"
  then show "x \<in> ?w"
  proof (induction rule: trancl_induct)
    case (base y)
    then have "y \<in> set_option (map_of (gs_parent g) tid)" by (simp add: parent_rel_def)
    then show ?case using closed by blast
  next
    case (step y z)
    then have "map_of (gs_parent g) y = Some z" by (simp add: parent_rel_def)
    then show ?case using closed step.IH by blast
  qed
qed

section \<open>Properties\<close>

text \<open>
  The ancestor walk ends on every graph, cyclic ones included, and returns exactly the Tasks
  reachable over one or more parent links.
\<close>

theorem ancestors_correct: "set (ancestors g tid) = {x. (tid, x) \<in> (parent_rel g)\<^sup>+}"
  using ancestors_iff by blast

text \<open>
  Admission keeps the Task graph acyclic and within its limits: when
  \<^verbatim>\<open>validate_new_child\<close> accepts a child under a parent of an acyclic graph, the graph with the new
  edge is acyclic, the child's depth does not exceed the delegation depth, the parent has at most
  \<^verbatim>\<open>max_fan_out\<close> children and at most \<^verbatim>\<open>concurrent_subtasks\<close> active ones, and the parent is a live
  Task of the actor's own Workspace.
\<close>

lemma new_child_keeps_graph:
  assumes ok: "validate_new_child p child ws (ancestors g (pv_task_id p)) n active limits = Inr ()"
    and acyc: "acyclic (parent_rel g)"
  shows "acyclic (parent_rel (add_edge g child (pv_task_id p))) \<and>
         pv_depth p + 1 \<le> gl_delegation_depth limits \<and> n + 1 \<le> gl_max_fan_out limits \<and>
         active + 1 \<le> gl_concurrent_subtasks limits \<and> pv_workspace_id p = ws \<and>
         pv_status p \<notin> {''COMPLETED'', ''CANCELLED''}"
proof -
  have new: "child \<noteq> pv_task_id p" "child \<notin> set (ancestors g (pv_task_id p))"
    using ok by (auto simp: validate_new_child_def split: if_splits)
  then have "(pv_task_id p, child) \<notin> (parent_rel g)\<^sup>*"
    by (auto simp: ancestors_iff rtrancl_eq_or_trancl)
  then have "acyclic (insert (child, pv_task_id p) (parent_rel g))"
    using acyc by (simp add: acyclic_insert)
  moreover have "parent_rel (add_edge g child (pv_task_id p)) \<subseteq>
      insert (child, pv_task_id p) (parent_rel g)"
    by (auto simp: parent_rel_def add_edge_def split: if_splits)
  ultimately have "acyclic (parent_rel (add_edge g child (pv_task_id p)))"
    by (rule acyclic_subset)
  then show ?thesis using ok by (auto simp: validate_new_child_def split: if_splits)
qed

definition sample_parent :: parent_view where
  "sample_parent = \<lparr>pv_task_id = ''b'', pv_workspace_id = ''ws'', pv_depth = 1,
     pv_status = ''RUNNING''\<rparr>"

definition sample_graph :: graph_snapshot where
  "sample_graph = \<lparr>gs_children = [(''a'', [''b''])], gs_parent = [(''b'', ''a'')]\<rparr>"

lemma sample_graph_acyclic: "acyclic (parent_rel sample_graph)"
proof -
  have "parent_rel sample_graph = {(''b'', ''a'')}"
    by (auto simp: parent_rel_def sample_graph_def split: if_splits)
  moreover have "acyclic ({} :: (string \<times> string) set)" by (simp add: acyclic_def)
  ultimately show ?thesis by (simp add: acyclic_insert)
qed

lemma new_child_keeps_graph_example:
  "validate_new_child sample_parent ''c'' ''ws'' (ancestors sample_graph ''b'') 2 1
     (limits_from_policy None) = Inr () \<and>
   validate_new_child sample_parent ''a'' ''ws'' (ancestors sample_graph ''b'') 2 1
     (limits_from_policy None) = Inl ''TASK_GRAPH_CYCLE'' \<and>
   acyclic (parent_rel (add_edge sample_graph ''c'' ''b''))"
proof -
  have anc: "ancestors sample_graph ''b'' = [''a'']"
    by (simp add: ancestors_def sample_graph_def walk_up.simps)
  have ok: "validate_new_child sample_parent ''c'' ''ws'' (ancestors sample_graph ''b'') 2 1
     (limits_from_policy None) = Inr ()"
    by (simp add: anc validate_new_child_def sample_parent_def limits_from_policy_def
        pick_limit_def py_int_def DEFAULT_DELEGATION_DEPTH_def DEFAULT_MAX_FAN_OUT_def
        DEFAULT_CONCURRENT_SUBTASKS_def)
  moreover have "validate_new_child sample_parent ''a'' ''ws'' (ancestors sample_graph ''b'') 2 1
     (limits_from_policy None) = Inl ''TASK_GRAPH_CYCLE''"
    by (simp add: anc validate_new_child_def)
  ultimately show ?thesis
    using new_child_keeps_graph [of sample_parent "''c''" "''ws''" sample_graph 2 1
        "limits_from_policy None"] sample_graph_acyclic
    by (simp add: sample_parent_def)
qed

text \<open>The join condition as the documentation words it.\<close>

fun join_met :: "join_kind \<Rightarrow> int option \<Rightarrow> string list \<Rightarrow> child_view list \<Rightarrow> bool" where
  "join_met JoinAll _ required cs \<longleftrightarrow>
     (\<exists>c \<in> set cs. child_done c) \<and> (\<forall>c \<in> set cs. child_done c \<or> child_cancelled c) \<and>
     (\<forall>r \<in> set required. \<exists>c \<in> set cs. cv_task_id c = r \<and> child_done c)"
| "join_met JoinAny _ required cs \<longleftrightarrow> (\<exists>c \<in> set cs. child_done c)"
| "join_met JoinQuorum q required cs \<longleftrightarrow>
     q \<noteq> None \<and> int (length (filter child_done cs)) \<ge> the q \<and>
     (\<forall>r \<in> set required. \<exists>c \<in> set cs. cv_task_id c = r \<and> child_done c)"

lemma dedup_eq_Nil [simp]: "dedup xs = [] \<longleftrightarrow> xs = []"
  by (cases xs) simp_all

lemma map_of_by_id:
  assumes "distinct (map cv_task_id cs)" and "c \<in> set cs"
  shows "map_of (rev (map (\<lambda>c. (cv_task_id c, c)) cs)) (cv_task_id c) = Some c"
  using assms by (subst map_of_eq_Some_iff) (auto simp: rev_map comp_def distinct_map)

text \<open>
  The join of a parent with distinct sub-Tasks is satisfied exactly when the documented
  condition holds: \<open>ALL\<close> - some child is done, every child is done or cancelled and every required
  child is done; \<open>ANY\<close> - some child is done; \<open>QUORUM\<close> - at least the quorum of children and every
  required child are done. Only done children are ever reported as satisfied, and the evaluation
  fails only for an invalid policy.
\<close>

theorem evaluate_join_spec:
  assumes "distinct (map cv_task_id cs)" and "join_mode policy = Inr (mode, quorum, required)"
  shows "\<exists>r. evaluate_join policy cs = Inr r \<and>
           (jr_satisfied r \<longleftrightarrow> cs \<noteq> [] \<and> join_met mode quorum required cs) \<and>
           (\<forall>x \<in> set (jr_satisfied_children r). \<exists>c \<in> set cs. cv_task_id c = x \<and> child_done c)"
proof (cases mode)
  case JoinAll
  have cancelled: "\<not> child_cancelled c" if "child_done c" for c
    using that by (auto simp: child_done_def child_cancelled_def)
  let ?fin = "map cv_task_id (filter child_done cs)"
  let ?by = "map_of (rev (map (\<lambda>c. (cv_task_id c, c)) cs))"
  have none: "filter (\<lambda>r. (case ?by r of None \<Rightarrow> False | Some c \<Rightarrow> child_cancelled c) \<and> P r) required
      = []" if "\<forall>r \<in> set required. r \<in> set ?fin" for P
    using that map_of_by_id [OF assms(1)] cancelled by (fastforce simp: filter_empty_conv)
  show ?thesis
  proof (cases "\<forall>r \<in> set required. r \<in> set ?fin")
    case True
    then have "filter (\<lambda>r. r \<notin> set ?fin) required = []" by (simp add: filter_empty_conv)
    with none [OF True] True JoinAll assms(2) show ?thesis
      by (auto simp: evaluate_join_def Let_def filter_empty_conv)
  next
    case False
    then have "filter (\<lambda>r. r \<notin> set ?fin) required \<noteq> []" by (auto simp: filter_empty_conv)
    moreover have "\<not> join_met JoinAll quorum required cs"
      using False by (fastforce simp: image_iff)
    ultimately show ?thesis using JoinAll assms(2) by (auto simp: evaluate_join_def Let_def)
  qed
next
  case JoinAny
  then show ?thesis using assms(2) by (auto simp: evaluate_join_def Let_def filter_empty_conv)
next
  case JoinQuorum
  then have "quorum \<noteq> None"
    using assms(2) by (auto simp: join_mode_def Let_def split: option.splits join_kind.splits if_splits)
      (metis option.distinct(1))+
  then obtain q where q: "quorum = Some q" by blast
  then show ?thesis
    using JoinQuorum q assms(2) by (auto simp: evaluate_join_def Let_def filter_empty_conv)
qed

definition sample_children :: "child_view list" where
  "sample_children =
    [\<lparr>cv_task_id = ''c1'', cv_status = ''VERIFIED'', cv_verification_status = Some ''PASSED''\<rparr>,
     \<lparr>cv_task_id = ''c2'', cv_status = ''RUNNING'', cv_verification_status = None\<rparr>,
     \<lparr>cv_task_id = ''c3'', cv_status = ''COMPLETED'', cv_verification_status = Some ''PASSED''\<rparr>]"

theorem evaluate_join_spec_example:
  "\<exists>r. evaluate_join (Some [(''mode'', JStr ''quorum''), (''quorum'', JInt 2),
       (''required'', JArr [JStr ''c1''])]) sample_children = Inr r \<and> jr_satisfied r"
proof -
  have m: "join_mode (Some [(''mode'', JStr ''quorum''), (''quorum'', JInt 2),
       (''required'', JArr [JStr ''c1''])]) = Inr (JoinQuorum, Some 2, [''c1''])"
    by (simp add: join_mode_def mode_text_def upper_char_def join_kind_of_def py_int_def get_strs_def
        List.map_filter_def char_of_def bit_0)
  have d: "distinct (map cv_task_id sample_children)" by (simp add: sample_children_def)
  have "join_met JoinQuorum (Some 2) [''c1''] sample_children"
    by (simp add: sample_children_def child_done_def)
  moreover have "sample_children \<noteq> []" by (simp add: sample_children_def)
  ultimately show ?thesis using evaluate_join_spec [OF d m] by blast
qed

end
