(* ===== verification/Task_Commands.thy ===== *)
theory Task_Commands
  imports Task Task_Graph Pg_Store
begin

text \<open>
  The Task command handlers: \<^verbatim>\<open>src/server/application/tasks.py\<close>, with the bus entry point of
  \<^verbatim>\<open>src/server/application/bus.py\<close>, the join recording of \<^verbatim>\<open>src/server/application/orchestration.py\<close>
  and the projection row of \<^verbatim>\<open>src/server/projections/tasks.py\<close>.

  A handler runs in a \<open>task_world\<close>: the Event store and the tables it writes. What it calls in other
  packages (authorizer, account directory, criteria, work inbox, documents, secret leases) are
  fields of \<open>task_env\<close>. The store is used through \<open>store_ops\<close>; the locale \<open>task_store\<close> states what the
  handlers rely on, and both stores provide it.
\<close>

section \<open>Stores and worlds\<close>

record 's store_ops =
  so_append :: "'s \<Rightarrow> append_request \<Rightarrow> ('s \<times> append_result) res"
  so_stream :: "'s \<Rightarrow> string \<Rightarrow> string \<Rightarrow> string \<Rightarrow> event list res"
  so_get :: "'s \<Rightarrow> string \<Rightarrow> event option"

record command_context =
  cx_workspace_id :: string
  cx_account_uuid :: string
  cx_correlation_id :: string
  cx_idempotency_key :: string
  cx_now :: string
  cx_policy_snapshot :: pydict

text \<open>The columns of \<^verbatim>\<open>tasks_projection\<close>.\<close>

record task_row =
  tr_workspace_id :: "string option"
  tr_root_task_id :: string
  tr_parent_task_id :: "string option"
  tr_channel_id :: "string option"
  tr_title :: string
  tr_domain :: string
  tr_risk :: string
  tr_status :: task_status
  tr_verification_status :: "string option"
  tr_assignee_account_id :: "string option"
  tr_delegated_by :: "string option"
  tr_delegation_depth :: int
  tr_join_policy :: pydict
  tr_active_verification_id :: "string option"
  tr_policy_snapshot_hash :: "string option"
  tr_criteria_revision :: int
  tr_latest_progress :: "string option"
  tr_last_event_id :: "string option"
  tr_last_aggregate_seq :: int
  tr_created_at :: string
  tr_updated_at :: string

record assignment_row =
  as_task_id :: string
  as_revision :: int
  as_delegator :: string
  as_assignee :: "string option"
  as_reason_code :: string
  as_policy_snapshot_hash :: string
  as_resume_context :: "pydict option"
  as_event_id :: string

record edge_row =
  ed_child :: string
  ed_parent :: string
  ed_root :: string
  ed_depth :: int
  ed_event_id :: string

record 's task_world =
  wd_store :: 's
  wd_tasks :: "string \<rightharpoonup> task_row"
  wd_assignments :: "assignment_row list"
  wd_edges :: "edge_row list"
  wd_joined :: "string \<rightharpoonup> string list"

definition or_none :: "string option \<Rightarrow> string option" where
  "or_none x = (if truthy x then x else None)"

definition row_of_state :: "task_state \<Rightarrow> string \<Rightarrow> task_row" where
  "row_of_state st occurred_at =
     \<lparr>tr_workspace_id = or_none (ts_workspace_id st),
      tr_root_task_id = get_default (ts_task_id st) (or_none (ts_root_task_id st)),
      tr_parent_task_id = ts_parent_task_id st, tr_channel_id = or_none (ts_channel_id st),
      tr_title = ts_title st, tr_domain = ts_domain st, tr_risk = ts_risk st,
      tr_status = ts_status st, tr_verification_status = ts_verification_status st,
      tr_assignee_account_id = or_none (ts_assignee_account_id st),
      tr_delegated_by = or_none (ts_delegated_by st),
      tr_delegation_depth = ts_delegation_depth st, tr_join_policy = ts_join_policy st,
      tr_active_verification_id = ts_active_verification_id st,
      tr_policy_snapshot_hash = ts_policy_snapshot_hash st,
      tr_criteria_revision = ts_criteria_revision st, tr_latest_progress = ts_latest_progress st,
      tr_last_event_id = ts_last_event_id st, tr_last_aggregate_seq = ts_last_aggregate_seq st,
      tr_created_at = get_default occurred_at (or_none (ts_created_at st)),
      tr_updated_at = occurred_at\<rparr>"

text \<open>The upsert: a conflict updates the listed columns only.\<close>

definition upsert_row :: "task_row \<Rightarrow> task_row option \<Rightarrow> task_row" where
  "upsert_row new old = (case old of
      None \<Rightarrow> new
    | Some o' \<Rightarrow> o'\<lparr>tr_status := tr_status new, tr_verification_status := tr_verification_status new,
        tr_assignee_account_id := tr_assignee_account_id new, tr_delegated_by := tr_delegated_by new,
        tr_delegation_depth := tr_delegation_depth new, tr_join_policy := tr_join_policy new,
        tr_active_verification_id := tr_active_verification_id new,
        tr_policy_snapshot_hash := tr_policy_snapshot_hash new,
        tr_criteria_revision := tr_criteria_revision new, tr_latest_progress := tr_latest_progress new,
        tr_last_event_id := tr_last_event_id new, tr_last_aggregate_seq := tr_last_aggregate_seq new,
        tr_updated_at := tr_updated_at new\<rparr>)"

definition write_state :: "task_state \<Rightarrow> string \<Rightarrow> 's task_world \<Rightarrow> 's task_world" where
  "write_state st occurred_at w =
     w\<lparr>wd_tasks := (wd_tasks w)(ts_task_id st \<mapsto>
         upsert_row (row_of_state st occurred_at) (wd_tasks w (ts_task_id st)))\<rparr>"

section \<open>Commands\<close>

datatype task_command =
    CreateTask string string string string "string option" pydict json
      \<comment> \<open>title, channel, domain, risk, task id, join policy, criteria\<close>
  | CreateSubtask string string string string "string option" json
      \<comment> \<open>parent, title, domain, risk, task id, criteria\<close>
  | DelegateTask string string string
  | ReassignTask string string string "pydict option"
  | AcceptTask string
  | StartTask string
  | ReportProgress string string
  | MarkWaiting string string
  | SubmitImplementation string "string list" int
  | StartVerification string string
  | RecordVerificationResult string string string int "string list" "string list" string
  | CompleteTask string string
  | RequestCancel string string
  | CancelTask string string

fun idempotency_scope :: "task_command \<Rightarrow> string" where
  "idempotency_scope (CreateTask _ _ _ _ _ _ _) = ''task:create''"
| "idempotency_scope (CreateSubtask _ _ _ _ _ _) = ''task:create_subtask''"
| "idempotency_scope (DelegateTask _ _ _) = ''task:delegate''"
| "idempotency_scope (ReassignTask _ _ _ _) = ''task:reassign''"
| "idempotency_scope (AcceptTask _) = ''task:accept''"
| "idempotency_scope (StartTask _) = ''task:start''"
| "idempotency_scope (ReportProgress _ _) = ''task:progress''"
| "idempotency_scope (MarkWaiting _ _) = ''task:wait''"
| "idempotency_scope (SubmitImplementation _ _ _) = ''task:submit''"
| "idempotency_scope (StartVerification _ _) = ''task:verify''"
| "idempotency_scope (RecordVerificationResult _ _ _ _ _ _ _) = ''verification_run:result''"
| "idempotency_scope (CompleteTask _ _) = ''task:complete''"
| "idempotency_scope (RequestCancel _ _) = ''task:cancel_request''"
| "idempotency_scope (CancelTask _ _) = ''task:cancel''"

text \<open>
  What the handlers call outside this component. A hook is a transformation of the world that may
  raise; a check returns an error code or None.
\<close>

record 's task_env =
  te_prims :: prims
  te_require :: "string \<Rightarrow> string option \<Rightarrow> string \<Rightarrow> unit res"
  te_account_uuid :: "string \<Rightarrow> string option"
  te_pre_delegate :: "(task_state \<Rightarrow> string option) list"
  te_pre_submit :: "(task_state \<Rightarrow> string list \<Rightarrow> int \<Rightarrow> string option) list"
  te_completion :: "'s task_world completion_check list"
  te_document_gate :: bool
  te_expected_document :: "'s task_world \<Rightarrow> string \<Rightarrow> string option"
  te_agent_limits :: "'s task_world \<Rightarrow> string \<Rightarrow> unit res"
  te_channel_template :: "string \<Rightarrow> string \<Rightarrow> pydict option"
  te_prepare_criteria :: "string \<Rightarrow> json \<Rightarrow> json res"
  te_persist_criteria :: "string \<Rightarrow> string \<Rightarrow> json \<Rightarrow> 's task_world \<Rightarrow> 's task_world res"
  te_after_assignment :: "task_state \<Rightarrow> string \<Rightarrow> pydict option \<Rightarrow> 's task_world \<Rightarrow> 's task_world res"
  te_on_submitted :: "string \<Rightarrow> 's task_world \<Rightarrow> 's task_world res"
  te_terminal_hooks :: "string \<Rightarrow> 's task_world \<Rightarrow> 's task_world res"

record command_result =
  cmd_resource_id :: string
  cmd_event_id :: string
  cmd_aggregate_seq :: int
  cmd_replayed :: bool
  cmd_status :: task_status

section \<open>Helpers of the handlers\<close>

definition new_task_id :: "'s task_env \<Rightarrow> command_context \<Rightarrow> string \<Rightarrow> string" where
  "new_task_id E cx scope = ''task-'' @ take 16 (sha256_hex (te_prims E)
     (codes (cx_workspace_id cx @ ''|'' @ cx_account_uuid cx @ ''|'' @ scope @ ''|'' @
       cx_idempotency_key cx)))"

definition started_verifications :: "event list \<Rightarrow> string list" where
  "started_verifications es = List.map_filter (\<lambda>e.
     if ev_type e = ''TASK_VERIFICATION_STARTED'' \<and> ev_payload e \<noteq> []
     then or_none (get_str (ev_payload e) ''verification_id'') else None) es"

definition load_task :: "'s store_ops \<Rightarrow> string \<Rightarrow> 's \<Rightarrow> string \<Rightarrow> task_state res" where
  "load_task S ws s tid =
     bind_res (so_stream S s ws ''task'' tid) (\<lambda>events.
       if events = [] then Inl ''TASK_NOT_FOUND''
       else bind_res (sequence_res (map (\<lambda>vid. so_stream S s ws ''verification_run'' vid)
              (started_verifications events))) (\<lambda>runs.
         fold_task tid (events @ concat (map (filter (\<lambda>e. ev_task_id e = Some tid)) runs))))"

definition replay_from_stream ::
  "'s store_ops \<Rightarrow> command_context \<Rightarrow> 's \<Rightarrow> string \<Rightarrow> string \<Rightarrow> append_result option res" where
  "replay_from_stream S cx s tid scope =
     bind_res (so_stream S s (cx_workspace_id cx) ''task'' tid) (\<lambda>events.
       Inr (map_option (result_of_event True) (List.find (\<lambda>e. ev_idempotency_scope e = scope \<and>
         ev_idempotency_key e = cx_idempotency_key cx \<and>
         ev_actor_account_id e = cx_account_uuid cx) events)))"

definition task_request ::
  "command_context \<Rightarrow> string \<Rightarrow> string \<Rightarrow> string \<Rightarrow> string \<Rightarrow> pydict \<Rightarrow> string option \<Rightarrow> string option
    \<Rightarrow> int \<Rightarrow> append_request" where
  "task_request cx aggregate_type aggregate_id tid scope payload channel caused_by seq =
     \<lparr>ar_workspace_id = cx_workspace_id cx, ar_aggregate_type = aggregate_type,
      ar_aggregate_id = aggregate_id, ar_type = [], ar_actor_account_id = cx_account_uuid cx,
      ar_correlation_id = cx_correlation_id cx, ar_idempotency_scope = scope,
      ar_idempotency_key = cx_idempotency_key cx, ar_payload = payload,
      ar_policy_version = ''policy-v1'', ar_channel_id = channel, ar_task_id = Some tid,
      ar_caused_by = caused_by, ar_expected_seq = Some seq, ar_sensitive = None,
      ar_schema_version = 1\<rparr>"

text \<open>The event of a result: read back, or rebuilt when the store has no \<^verbatim>\<open>get\<close>.\<close>

definition appended_event ::
  "'s store_ops \<Rightarrow> 's \<Rightarrow> append_request \<Rightarrow> append_result \<Rightarrow> string \<Rightarrow> event" where
  "appended_event S s r res now =
     (case so_get S s (res_event_id res) of
        Some e \<Rightarrow> e
      | None \<Rightarrow> (draft_event r (res_event_id res) (res_aggregate_seq res) None now)
          \<lparr>ev_recorded_seq := res_recorded_seq res\<rparr>)"

definition occurred_at_of :: "'s store_ops \<Rightarrow> 's \<Rightarrow> string \<Rightarrow> string \<Rightarrow> string" where
  "occurred_at_of S s event_id now =
     (case so_get S s event_id of Some e \<Rightarrow> ev_occurred_at e | None \<Rightarrow> now)"

definition transition_request ::
  "command_context \<Rightarrow> string \<Rightarrow> task_state \<Rightarrow> string \<Rightarrow> pydict \<Rightarrow> append_request" where
  "transition_request cx scope st event_type payload =
     (task_request cx ''task'' (ts_task_id st) (ts_task_id st) scope
        ((''task_id'', JStr (ts_task_id st)) # payload) (ts_channel_id st)
        (ts_last_event_id st) (ts_last_aggregate_seq st + 1))\<lparr>ar_type := event_type\<rparr>"

definition transition ::
  "'s store_ops \<Rightarrow> 's task_env \<Rightarrow> command_context \<Rightarrow> string \<Rightarrow> task_state \<Rightarrow> string \<Rightarrow> pydict
    \<Rightarrow> 's task_world \<Rightarrow> ('s task_world \<times> append_result \<times> task_state) res" where
  "transition S E cx scope st event_type payload w =
     bind_res (replay_from_stream S cx (wd_store w) (ts_task_id st) scope) (\<lambda>replay.
     case replay of
       Some r \<Rightarrow> Inr (w, r, st)
     | None \<Rightarrow>
       bind_res (next_status (ts_status st) event_type) (\<lambda>new_status.
       let req = transition_request cx scope st event_type payload
       in bind_res (so_append S (wd_store w) req) (\<lambda>(s', res).
          let w1 = w\<lparr>wd_store := s'\<rparr> in
          if res_replayed res then Inr (w1, res, st)
          else
            let event = appended_event S s' req res (cx_now cx) in
            bind_res (apply_event st event) (\<lambda>st1.
            let st2 = st1\<lparr>ts_status := new_status\<rparr> in
            bind_res (if task_terminal new_status then te_terminal_hooks E (ts_task_id st) w1
                      else Inr w1) (\<lambda>w2.
              Inr (write_state st2 (ev_occurred_at event) w2, res, st2))))))"

definition cmd_result :: "string \<Rightarrow> 's task_world \<times> append_result \<times> task_state
    \<Rightarrow> ('s task_world \<times> command_result) res" where
  "cmd_result tid = (\<lambda>(w, res, st).
     Inr (w, \<lparr>cmd_resource_id = tid, cmd_event_id = res_event_id res,
       cmd_aggregate_seq = res_aggregate_seq res, cmd_replayed = res_replayed res,
       cmd_status = ts_status st\<rparr>))"

definition policy_snapshot_hash :: "'s task_env \<Rightarrow> command_context \<Rightarrow> string res" where
  "policy_snapshot_hash E cx =
     bind_res (canonical_bytes (JObj (cx_policy_snapshot cx))) (\<lambda>b. Inr (sha256_hex (te_prims E) b))"

definition account_uuid :: "'s task_env \<Rightarrow> string \<Rightarrow> string res" where
  "account_uuid E a = (case te_account_uuid E a of None \<Rightarrow> Inl ''ACCOUNT_NOT_FOUND'' | Some u \<Rightarrow> Inr u)"

definition record_assignment ::
  "command_context \<Rightarrow> task_state \<Rightarrow> string \<Rightarrow> pydict option \<Rightarrow> string \<Rightarrow> 's task_world
    \<Rightarrow> 's task_world" where
  "record_assignment cx st reason resume event_id w =
     w\<lparr>wd_assignments := wd_assignments w @ [\<lparr>as_task_id = ts_task_id st,
        as_revision = ts_assignment_revision st, as_delegator = cx_account_uuid cx,
        as_assignee = ts_assignee_account_id st, as_reason_code = reason,
        as_policy_snapshot_hash = get_default [] (ts_policy_snapshot_hash st),
        as_resume_context = resume, as_event_id = event_id\<rparr>]\<rparr>"

fun run_checks :: "string option list \<Rightarrow> unit res" where
  "run_checks [] = Inr ()"
| "run_checks (c # cs) = (case or_none c of Some code \<Rightarrow> Inl code | None \<Rightarrow> run_checks cs)"

section \<open>The Task graph tables\<close>

fun status_value :: "task_status \<Rightarrow> string" where
  "status_value OPEN = ''OPEN''" | "status_value DELEGATED = ''DELEGATED''"
| "status_value ACCEPTED = ''ACCEPTED''" | "status_value RUNNING = ''RUNNING''"
| "status_value WAITING = ''WAITING''" | "status_value IMPLEMENTED = ''IMPLEMENTED''"
| "status_value VERIFYING = ''VERIFYING''" | "status_value VERIFIED = ''VERIFIED''"
| "status_value COMPLETED = ''COMPLETED''" | "status_value CANCEL_REQUESTED = ''CANCEL_REQUESTED''"
| "status_value CANCELLED = ''CANCELLED''"

definition edge_parents :: "edge_row list \<Rightarrow> (string \<times> string) list" where
  "edge_parents es = map (\<lambda>e. (ed_child e, ed_parent e)) es"

text \<open>Limits of the channel's active template; \<^verbatim>\<open>te_channel_template\<close> is the query.\<close>

definition channel_limits :: "'s task_env \<Rightarrow> string \<Rightarrow> string option \<Rightarrow> graph_limits" where
  "channel_limits E ws channel =
     (case or_none channel of
        None \<Rightarrow> limits_from_policy None
      | Some c \<Rightarrow> (case te_channel_template E ws c of
            None \<Rightarrow> limits_from_policy None
          | Some definition \<Rightarrow> limits_from_policy (get_obj definition ''limits'')))"

text \<open>\<open>room\<close> is what is left of the 128 rows the loop may collect.\<close>

fun climb_edges :: "(string \<times> string) list \<Rightarrow> nat \<Rightarrow> string \<Rightarrow> string list \<Rightarrow> string list" where
  "climb_edges parent 0 cur out = out"
| "climb_edges parent (Suc room) cur out =
     (case map_of parent cur of
        None \<Rightarrow> out
      | Some p \<Rightarrow> if p \<in> set out then out else climb_edges parent room p (out @ [p]))"

definition ancestors_of :: "edge_row list \<Rightarrow> string \<Rightarrow> string list" where
  "ancestors_of es tid = climb_edges (edge_parents es) 128 tid []"

definition children_of :: "'s task_world \<Rightarrow> string \<Rightarrow> child_view list" where
  "children_of w parent_id =
     map (\<lambda>e. case wd_tasks w (ed_child e) of
         None \<Rightarrow> \<lparr>cv_task_id = ed_child e, cv_status = ''OPEN'', cv_verification_status = None\<rparr>
       | Some row \<Rightarrow> \<lparr>cv_task_id = ed_child e, cv_status = status_value (tr_status row),
           cv_verification_status = tr_verification_status row\<rparr>)
       (sort_key ed_child (filter (\<lambda>e. ed_parent e = parent_id) (wd_edges w)))"

definition check_subtask_creation ::
  "'s task_env \<Rightarrow> command_context \<Rightarrow> task_state \<Rightarrow> string \<Rightarrow> 's task_world \<Rightarrow> unit res" where
  "check_subtask_creation E cx parent child_task_id w =
     (let siblings = children_of w (ts_task_id parent);
          active = filter (\<lambda>c. cv_status c \<notin> {''COMPLETED'', ''CANCELLED''}) siblings
      in validate_new_child
           \<lparr>pv_task_id = ts_task_id parent,
            pv_workspace_id = get_default (cx_workspace_id cx) (or_none (ts_workspace_id parent)),
            pv_depth = ts_delegation_depth parent, pv_status = status_value (ts_status parent)\<rparr>
           child_task_id (cx_workspace_id cx)
           (ancestors_of (wd_edges w) (ts_task_id parent) @ [ts_task_id parent])
           (int (length siblings)) (int (length active))
           (channel_limits E (cx_workspace_id cx) (ts_channel_id parent)))"

text \<open>
  The insert trigger of \<^verbatim>\<open>task_edges\<close> (\<^verbatim>\<open>migrations/sql/0002_phase1_core.sql\<close>): climb from the
  new parent; meeting the child is a cycle, and so is, for the caller, a chain of more than 64
  hops. The table's key and checks refuse a second parent, a self edge and a depth that is not
  positive.
\<close>

fun edge_trigger :: "(string \<times> string) list \<Rightarrow> string \<Rightarrow> nat \<Rightarrow> string option \<Rightarrow> unit res" where
  "edge_trigger parent child hops None = Inr ()"
| "edge_trigger parent child 0 (Some cur) = Inl ''TASK_GRAPH_CYCLE''"
| "edge_trigger parent child (Suc hops) (Some cur) =
     (if cur = child \<or> hops = 0 then Inl ''TASK_GRAPH_CYCLE''
      else edge_trigger parent child hops (map_of parent cur))"

definition link_subtask_edge ::
  "string \<Rightarrow> string \<Rightarrow> string \<Rightarrow> int \<Rightarrow> string \<Rightarrow> 's task_world \<Rightarrow> 's task_world res" where
  "link_subtask_edge child p root depth event_id w =
     bind_res (edge_trigger (edge_parents (wd_edges w)) child 65 (Some p)) (\<lambda>_.
       if depth \<le> 0 \<or> child \<in> ed_child ` set (wd_edges w) then Inl ''TASK_EDGE_INVALID''
       else Inr (w\<lparr>wd_edges := wd_edges w @ [\<lparr>ed_child = child, ed_parent = p, ed_root = root,
              ed_depth = depth, ed_event_id = event_id\<rparr>]\<rparr>))"

section \<open>Joins\<close>

definition join_label :: "join_result \<Rightarrow> string" where
  "join_label r = (case jr_mode r of
      JoinAll \<Rightarrow> ''ALL'' | JoinAny \<Rightarrow> ''ANY''
    | JoinQuorum \<Rightarrow> ''QUORUM('' @ int_str (get_default 0 (jr_quorum r)) @ '')'')"

definition record_join_if_satisfied ::
  "'s store_ops \<Rightarrow> 's task_env \<Rightarrow> command_context \<Rightarrow> string \<Rightarrow> 's task_world \<Rightarrow> 's task_world res" where
  "record_join_if_satisfied S E cx parent_id w =
     bind_res (load_task S (cx_workspace_id cx) (wd_store w) parent_id) (\<lambda>parent.
     if \<not> ts_exists parent then Inr w
     else bind_res (evaluate_join (Some (ts_join_policy parent)) (children_of w (ts_task_id parent))) (\<lambda>result.
       if \<not> jr_satisfied result \<or> ts_join_satisfied parent then Inr w
       else
         let req = (task_request cx ''task'' (ts_task_id parent) (ts_task_id parent) ''task:join''
               [(''task_id'', JStr (ts_task_id parent)), (''join_policy'', JStr (join_label result)),
                (''satisfied_children'', JArr (map JStr (jr_satisfied_children result)))]
               (ts_channel_id parent) (ts_last_event_id parent) (ts_last_aggregate_seq parent + 1))
             \<lparr>ar_type := ''TASK_JOIN_SATISFIED'', ar_idempotency_key := ''join:'' @ ts_task_id parent\<rparr>
         in case so_append S (wd_store w) req of
              Inl code \<Rightarrow> if code = ''IDEMPOTENCY_CONFLICT'' then Inr w else Inl code
            | Inr (s', res) \<Rightarrow>
                let w1 = w\<lparr>wd_store := s',
                  wd_joined := (wd_joined w)(parent_id \<mapsto> jr_satisfied_children result)\<rparr>
                in bind_res (load_task S (cx_workspace_id cx) s' parent_id) (\<lambda>parent'.
                     Inr (write_state parent' (cx_now cx) w1))))"

definition on_child_terminal ::
  "'s store_ops \<Rightarrow> 's task_env \<Rightarrow> command_context \<Rightarrow> task_state \<Rightarrow> 's task_world \<Rightarrow> 's task_world res" where
  "on_child_terminal S E cx child w =
     (case or_none (ts_parent_task_id child) of
        None \<Rightarrow> Inr w
      | Some p \<Rightarrow> record_join_if_satisfied S E cx p w)"

definition parent_join_check :: "'s task_env \<Rightarrow> 's task_world completion_check" where
  "parent_join_check E st w =
     (let children = children_of w (ts_task_id st) in
      if children = [] then None
      else if ts_status st \<notin> {VERIFIED, COMPLETED} then None
      else case evaluate_join (Some (ts_join_policy st)) children of
        Inl code \<Rightarrow> Some code
      | Inr r \<Rightarrow> if jr_satisfied r then None else Some ''TASK_JOIN_UNSATISFIED'')"

section \<open>Handlers\<close>

definition is_space :: "char \<Rightarrow> bool" where
  "is_space c \<longleftrightarrow> (let n = of_char c :: nat in
     9 \<le> n \<and> n \<le> 13 \<or> 28 \<le> n \<and> n \<le> 32 \<or> n = 133 \<or> n = 160)"

definition create_with ::
  "'s store_ops \<Rightarrow> command_context \<Rightarrow> string \<Rightarrow> string \<Rightarrow> string \<Rightarrow> pydict \<Rightarrow> string option
    \<Rightarrow> 's task_world \<Rightarrow> ('s task_world \<times> append_result \<times> task_state) res" where
  "create_with S cx scope tid event_type payload channel w =
     bind_res (so_append S (wd_store w) ((task_request cx ''task'' tid tid scope payload channel None 1)
         \<lparr>ar_type := event_type\<rparr>)) (\<lambda>(s', res).
     bind_res (load_task S (cx_workspace_id cx) s' tid) (\<lambda>st.
       let w1 = w\<lparr>wd_store := s'\<rparr> in
       Inr (if res_replayed res then w1
            else write_state st (occurred_at_of S s' (res_event_id res) (cx_now cx)) w1, res, st)))"

definition create_task ::
  "'s store_ops \<Rightarrow> 's task_env \<Rightarrow> command_context \<Rightarrow> string \<Rightarrow> string \<Rightarrow> string \<Rightarrow> string
    \<Rightarrow> string option \<Rightarrow> pydict \<Rightarrow> json \<Rightarrow> 's task_world \<Rightarrow> ('s task_world \<times> command_result) res" where
  "create_task S E cx title channel domain risk task_id join_policy criteria w =
     bind_res (te_require E ''task.create'' (Some channel) domain) (\<lambda>_.
     if risk \<notin> {''LOW'', ''MEDIUM'', ''HIGH'', ''CRITICAL''} then Inl ''TASK_RISK_INVALID''
     else if list_all is_space title then Inl ''TASK_TITLE_REQUIRED''
     else
       let tid = get_default (new_task_id E cx ''task:create'') (or_none task_id) in
       bind_res (te_prepare_criteria E tid criteria) (\<lambda>pinned.
       bind_res (policy_snapshot_hash E cx) (\<lambda>snap.
       bind_res (create_with S cx ''task:create'' tid ''TASK_CREATED''
         [(''task_id'', JStr tid), (''root_task_id'', JStr tid), (''channel_id'', JStr channel),
          (''title'', JStr title), (''domain'', JStr domain), (''risk'', JStr risk),
          (''join_policy'', JObj join_policy), (''policy_snapshot_hash'', JStr snap),
          (''criteria'', pinned)] (Some channel) w) (\<lambda>(w1, res, st).
       bind_res (if res_replayed res then Inr w1
                 else te_persist_criteria E tid (res_event_id res) pinned w1) (\<lambda>w2.
         cmd_result tid (w2, res, st))))))"

definition create_subtask ::
  "'s store_ops \<Rightarrow> 's task_env \<Rightarrow> command_context \<Rightarrow> string \<Rightarrow> string \<Rightarrow> string \<Rightarrow> string
    \<Rightarrow> string option \<Rightarrow> json \<Rightarrow> 's task_world \<Rightarrow> ('s task_world \<times> command_result) res" where
  "create_subtask S E cx parent_id title domain risk task_id criteria w =
     bind_res (load_task S (cx_workspace_id cx) (wd_store w) parent_id) (\<lambda>parent.
     bind_res (te_require E ''task.delegate'' (ts_channel_id parent) domain) (\<lambda>_.
     if task_terminal (ts_status parent) then Inl ''TASK_TERMINAL''
     else
       let tid = get_default (new_task_id E cx ''task:create_subtask'') (or_none task_id) in
       if tid = parent_id then Inl ''TASK_GRAPH_CYCLE''
       else
         bind_res (replay_from_stream S cx (wd_store w) tid ''task:create_subtask'') (\<lambda>replay.
         bind_res (if replay = None then check_subtask_creation E cx parent tid w else Inr ()) (\<lambda>_.
         let root = get_default parent_id (or_none (ts_root_task_id parent));
             depth = ts_delegation_depth parent + 1 in
         bind_res (te_prepare_criteria E tid criteria) (\<lambda>pinned.
         bind_res (policy_snapshot_hash E cx) (\<lambda>snap.
         bind_res (create_with S cx ''task:create_subtask'' tid ''SUBTASK_CREATED''
           [(''task_id'', JStr tid), (''parent_task_id'', JStr parent_id),
            (''root_task_id'', JStr root), (''depth'', JInt depth),
            (''channel_id'', jopt (ts_channel_id parent)), (''title'', JStr title),
            (''domain'', JStr domain), (''risk'', JStr risk), (''policy_snapshot_hash'', JStr snap),
            (''criteria'', pinned)] (ts_channel_id parent) w) (\<lambda>(w1, res, st).
         bind_res (if res_replayed res then Inr w1
                   else bind_res (te_persist_criteria E tid (res_event_id res) pinned w1) (\<lambda>w2.
                     link_subtask_edge tid parent_id root depth (res_event_id res) w2)) (\<lambda>w3.
           cmd_result tid (w3, res, st)))))))))"

definition delegate_task ::
  "'s store_ops \<Rightarrow> 's task_env \<Rightarrow> command_context \<Rightarrow> string \<Rightarrow> string \<Rightarrow> string \<Rightarrow> 's task_world
    \<Rightarrow> ('s task_world \<times> command_result) res" where
  "delegate_task S E cx tid assignee_id reason w =
     bind_res (load_task S (cx_workspace_id cx) (wd_store w) tid) (\<lambda>st.
     bind_res (te_require E ''task.delegate'' (ts_channel_id st) (ts_domain st)) (\<lambda>_.
     bind_res (account_uuid E assignee_id) (\<lambda>assignee.
     bind_res (replay_from_stream S cx (wd_store w) tid ''task:delegate'') (\<lambda>replay.
     bind_res (if replay = None
               then bind_res (next_status (ts_status st) ''TASK_DELEGATED'') (\<lambda>_.
                 run_checks (map (\<lambda>c. c st) (te_pre_delegate E)))
               else Inr ()) (\<lambda>_.
     bind_res (policy_snapshot_hash E cx) (\<lambda>snap.
     bind_res (transition S E cx ''task:delegate'' st ''TASK_DELEGATED''
       [(''assignee_account_id'', JStr assignee),
        (''assignment_revision'', JInt (ts_assignment_revision st + 1)),
        (''policy_snapshot_hash'', JStr snap), (''reason_code'', JStr reason)] w) (\<lambda>(w1, res, st1).
     bind_res (if res_replayed res then Inr w1
               else te_after_assignment E st1 (res_event_id res) None
                 (record_assignment cx st1 reason None (res_event_id res) w1)) (\<lambda>w2.
       cmd_result tid (w2, res, st1)))))))))"

definition reassign_task ::
  "'s store_ops \<Rightarrow> 's task_env \<Rightarrow> command_context \<Rightarrow> string \<Rightarrow> string \<Rightarrow> string \<Rightarrow> pydict option
    \<Rightarrow> 's task_world
    \<Rightarrow> ('s task_world \<times> command_result) res" where
  "reassign_task S E cx tid assignee_id reason resume w =
     bind_res (load_task S (cx_workspace_id cx) (wd_store w) tid) (\<lambda>st.
     bind_res (te_require E ''task.reassign'' (ts_channel_id st) (ts_domain st)) (\<lambda>_.
     bind_res (account_uuid E assignee_id) (\<lambda>assignee.
     bind_res (case or_none (ts_policy_snapshot_hash st) of
         Some h \<Rightarrow> Inr h | None \<Rightarrow> policy_snapshot_hash E cx) (\<lambda>snap.
     bind_res (transition S E cx ''task:reassign'' st ''TASK_REASSIGNED''
       [(''assignee_account_id'', JStr assignee),
        (''assignment_revision'', JInt (ts_assignment_revision st + 1)),
        (''reason_code'', JStr reason), (''policy_snapshot_hash'', JStr snap)] w) (\<lambda>(w1, res, st1).
     bind_res (if res_replayed res then Inr w1
               else te_after_assignment E st1 (res_event_id res) resume
                 (record_assignment cx st1 reason resume (res_event_id res) w1)) (\<lambda>w2.
       cmd_result tid (w2, res, st1)))))))"

definition accept_task ::
  "'s store_ops \<Rightarrow> 's task_env \<Rightarrow> command_context \<Rightarrow> string \<Rightarrow> 's task_world
    \<Rightarrow> ('s task_world \<times> command_result) res" where
  "accept_task S E cx tid w =
     bind_res (load_task S (cx_workspace_id cx) (wd_store w) tid) (\<lambda>st.
     bind_res (te_require E ''task.accept'' (ts_channel_id st) (ts_domain st)) (\<lambda>_.
     bind_res (replay_from_stream S cx (wd_store w) tid ''task:accept'') (\<lambda>replay.
     bind_res (if replay = None
               then bind_res (next_status (ts_status st) ''TASK_ACCEPTED'') (\<lambda>_.
                 if ts_assignee_account_id st \<noteq> Some (cx_account_uuid cx) then Inl ''TASK_NOT_ASSIGNEE''
                 else te_agent_limits E w tid)
               else Inr ()) (\<lambda>_.
     bind_res (transition S E cx ''task:accept'' st ''TASK_ACCEPTED''
       [(''assignee_account_id'', JStr (cx_account_uuid cx))] w) (cmd_result tid)))))"

text \<open>The handlers that are a permission check and a transition.\<close>

definition simple_task ::
  "'s store_ops \<Rightarrow> 's task_env \<Rightarrow> command_context \<Rightarrow> string \<Rightarrow> string \<Rightarrow> string \<Rightarrow> string \<Rightarrow> pydict
    \<Rightarrow> 's task_world \<Rightarrow> ('s task_world \<times> command_result) res" where
  "simple_task S E cx permission scope event_type tid payload w =
     bind_res (load_task S (cx_workspace_id cx) (wd_store w) tid) (\<lambda>st.
     bind_res (te_require E permission (ts_channel_id st) (ts_domain st)) (\<lambda>_.
     bind_res (transition S E cx scope st event_type payload w) (cmd_result tid)))"

definition start_task where
  "start_task S E cx tid w = simple_task S E cx ''task.progress'' ''task:start'' ''TASK_STARTED'' tid [] w"

definition report_progress where
  "report_progress S E cx tid summary w =
     simple_task S E cx ''task.progress'' ''task:progress'' ''TASK_PROGRESS_REPORTED'' tid
       [(''summary'', JStr summary)] w"

definition mark_waiting where
  "mark_waiting S E cx tid reason w =
     simple_task S E cx ''task.progress'' ''task:wait'' ''TASK_WAITING'' tid
       [(''reason_code'', JStr reason)] w"

definition start_verification where
  "start_verification S E cx tid vid w =
     simple_task S E cx ''verification.assign'' ''task:verify'' ''TASK_VERIFICATION_STARTED'' tid
       [(''verification_id'', JStr vid)] w"

definition request_cancel where
  "request_cancel S E cx tid reason w =
     simple_task S E cx ''task.cancel'' ''task:cancel_request'' ''TASK_CANCEL_REQUESTED'' tid
       [(''reason_code'', JStr reason)] w"

definition cancel_task where
  "cancel_task S E cx tid reason w =
     simple_task S E cx ''task.cancel'' ''task:cancel'' ''TASK_CANCELLED'' tid
       [(''reason_code'', JStr reason)] w"

definition submit_implementation ::
  "'s store_ops \<Rightarrow> 's task_env \<Rightarrow> command_context \<Rightarrow> string \<Rightarrow> string list \<Rightarrow> int \<Rightarrow> 's task_world
    \<Rightarrow> ('s task_world \<times> command_result) res" where
  "submit_implementation S E cx tid evidence revision w =
     bind_res (load_task S (cx_workspace_id cx) (wd_store w) tid) (\<lambda>st.
     bind_res (te_require E ''task.submit'' (ts_channel_id st) (ts_domain st)) (\<lambda>_.
     bind_res (replay_from_stream S cx (wd_store w) tid ''task:submit'') (\<lambda>replay.
     bind_res (if replay = None
               then bind_res (next_status (ts_status st) ''IMPLEMENTATION_SUBMITTED'') (\<lambda>_.
                 run_checks (map (\<lambda>c. c st evidence revision) (te_pre_submit E)))
               else Inr ()) (\<lambda>_.
     bind_res (transition S E cx ''task:submit'' st ''IMPLEMENTATION_SUBMITTED''
       [(''evidence_refs'', JArr (map JStr evidence)), (''criteria_revision'', JInt revision)] w)
       (\<lambda>(w1, res, st1).
     bind_res (if res_replayed res then Inr w1 else te_on_submitted E tid w1) (\<lambda>w2.
       cmd_result tid (w2, res, st1)))))))"

definition record_verification_result ::
  "'s store_ops \<Rightarrow> 's task_env \<Rightarrow> command_context \<Rightarrow> string \<Rightarrow> string \<Rightarrow> string \<Rightarrow> int \<Rightarrow> string list
    \<Rightarrow> string list \<Rightarrow> string \<Rightarrow> 's task_world \<Rightarrow> ('s task_world \<times> command_result) res" where
  "record_verification_result S E cx tid vid result revision evidence findings reason w =
     bind_res (load_task S (cx_workspace_id cx) (wd_store w) tid) (\<lambda>st.
     bind_res (te_require E ''verification.submit'' (ts_channel_id st) (ts_domain st)) (\<lambda>_.
     if result \<notin> {''PASSED'', ''FAILED'', ''BLOCKED''} then Inl ''VERIFICATION_RESULT_INVALID''
     else
       bind_res (so_stream S (wd_store w) (cx_workspace_id cx) ''verification_run'' vid) (\<lambda>vr.
       case List.find (\<lambda>e. ev_idempotency_scope e = ''verification_run:result'' \<and>
           ev_idempotency_key e = cx_idempotency_key cx) vr of
         Some e \<Rightarrow> cmd_result tid (w, (result_of_event True e)\<lparr>res_recorded_seq := 0\<rparr>, st)
       | None \<Rightarrow>
         if ts_status st \<noteq> VERIFYING \<or> ts_active_verification_id st \<noteq> Some vid
         then Inl ''TASK_TRANSITION_INVALID''
         else
           let payload = [(''verification_id'', JStr vid), (''revision'', JInt revision),
                 (if result = ''PASSED'' then (''evidence_refs'', JArr (map JStr evidence))
                  else if result = ''FAILED'' then (''finding_ids'', JArr (map JStr findings))
                  else (''reason_code'', JStr reason))];
               req = (task_request cx ''verification_run'' vid tid ''verification_run:result'' payload
                 (ts_channel_id st) (ts_last_event_id st)
                 (if vr = [] then 1 else ev_aggregate_seq (last vr) + 1))
                 \<lparr>ar_type := ''VERIFICATION_'' @ result\<rparr>
           in bind_res (so_append S (wd_store w) req) (\<lambda>(s', res).
              bind_res (load_task S (cx_workspace_id cx) s' tid) (\<lambda>st1.
              let w1 = write_state st1 (occurred_at_of S s' (res_event_id res) (cx_now cx))
                    (w\<lparr>wd_store := s'\<rparr>) in
              bind_res (if result = ''PASSED'' then on_child_terminal S E cx st1 w1 else Inr w1) (\<lambda>w2.
                cmd_result tid (w2, res, st1)))))))"

definition completion_missing :: "'s task_env \<Rightarrow> task_state \<Rightarrow> string \<Rightarrow> 's task_world \<Rightarrow> string list" where
  "completion_missing E st document_id w =
     (let missing = completion_prerequisites (te_completion E) st w in
      if missing = [] \<and> te_document_gate E \<and> te_expected_document E w (ts_task_id st) \<noteq> Some document_id
      then [''COMPLETION_PREREQUISITE_MISSING''] else missing)"

definition complete_task ::
  "'s store_ops \<Rightarrow> 's task_env \<Rightarrow> command_context \<Rightarrow> string \<Rightarrow> string \<Rightarrow> 's task_world
    \<Rightarrow> ('s task_world \<times> command_result) res" where
  "complete_task S E cx tid document_id w =
     bind_res (load_task S (cx_workspace_id cx) (wd_store w) tid) (\<lambda>st.
     bind_res (te_require E ''task.complete'' (ts_channel_id st) (ts_domain st)) (\<lambda>_.
     bind_res (replay_from_stream S cx (wd_store w) tid ''task:complete'') (\<lambda>replay.
     bind_res (if replay = None
               then if task_terminal (ts_status st) then Inl ''TASK_TERMINAL''
                 else (case completion_missing E st document_id w of
                     [] \<Rightarrow> Inr ()
                   | code # _ \<Rightarrow> Inl (if code \<in> {''VERIFICATION_REQUIRED'', ''COMPLETION_PREREQUISITE_MISSING''}
                       then ''COMPLETION_PREREQUISITE_MISSING'' else code))
               else Inr ()) (\<lambda>_.
     bind_res (transition S E cx ''task:complete'' st ''TASK_COMPLETED''
       [(''verification_id'', JStr (get_default [] (ts_active_verification_id st))),
        (''document_id'', JStr document_id)] w) (\<lambda>(w1, res, st1).
     bind_res (if res_replayed res then Inr w1 else on_child_terminal S E cx st1 w1) (\<lambda>w2.
       cmd_result tid (w2, res, st1)))))))"

section \<open>The bus\<close>

fun handle_task :: "'s store_ops \<Rightarrow> 's task_env \<Rightarrow> command_context \<Rightarrow> task_command \<Rightarrow> 's task_world
    \<Rightarrow> ('s task_world \<times> command_result) res" where
  "handle_task S E cx (CreateTask title ch d risk tid jp crit) w =
     create_task S E cx title ch d risk tid jp crit w"
| "handle_task S E cx (CreateSubtask p title d risk tid crit) w =
     create_subtask S E cx p title d risk tid crit w"
| "handle_task S E cx (DelegateTask tid a reason) w = delegate_task S E cx tid a reason w"
| "handle_task S E cx (ReassignTask tid a reason resume) w =
     reassign_task S E cx tid a reason resume w"
| "handle_task S E cx (AcceptTask tid) w = accept_task S E cx tid w"
| "handle_task S E cx (StartTask tid) w = start_task S E cx tid w"
| "handle_task S E cx (ReportProgress tid t) w = report_progress S E cx tid t w"
| "handle_task S E cx (MarkWaiting tid reason) w = mark_waiting S E cx tid reason w"
| "handle_task S E cx (SubmitImplementation tid ev n) w = submit_implementation S E cx tid ev n w"
| "handle_task S E cx (StartVerification tid vid) w = start_verification S E cx tid vid w"
| "handle_task S E cx (RecordVerificationResult tid vid r n ev fs reason) w =
     record_verification_result S E cx tid vid r n ev fs reason w"
| "handle_task S E cx (CompleteTask tid doc) w = complete_task S E cx tid doc w"
| "handle_task S E cx (RequestCancel tid reason) w = request_cancel S E cx tid reason w"
| "handle_task S E cx (CancelTask tid reason) w = cancel_task S E cx tid reason w"

definition execute_command :: "'s store_ops \<Rightarrow> 's task_env \<Rightarrow> command_context \<Rightarrow> task_command
    \<Rightarrow> 's task_world \<Rightarrow> ('s task_world \<times> command_result) res" where
  "execute_command S E cx c w =
     (if cx_idempotency_key cx = [] then Inl ''IDEMPOTENCY_KEY_REQUIRED'' else handle_task S E cx c w)"

end
