(* ===== verification/Task_Histories.thy ===== *)
theory Task_Histories
  imports Task_Commands
begin

text \<open>
  What the command handlers guarantee over any history, for every store that provides the
  \<open>task_store\<close> interface (both stores do): the stream of every Task can always be loaded - the
  handlers never record an Event the fold refuses - and the loaded state is the fold of the log.
\<close>

section \<open>The view of a Task in a log\<close>

text \<open>The events of the log that concern a Task: its own stream and verification results for it.\<close>

definition rel_event :: "string \<Rightarrow> string \<Rightarrow> event \<Rightarrow> bool" where
  "rel_event ws tid e \<longleftrightarrow> in_aggregate ws ''task'' tid e \<or>
     ev_workspace_id e = ws \<and> ev_aggregate_type e = ''verification_run'' \<and> ev_task_id e = Some tid"

definition task_view :: "string \<Rightarrow> string \<Rightarrow> event list \<Rightarrow> task_state res" where
  "task_view ws tid L = fold_events (filter (rel_event ws tid) L) (initial_task tid)"

lemma task_view_snoc:
  "task_view ws tid (L @ [e]) =
     (if rel_event ws tid e then bind_res (task_view ws tid L) (\<lambda>st. apply_event st e)
      else task_view ws tid L)"
  by (simp add: task_view_def fold_events_snoc)

text \<open>How results of verifications are recorded.\<close>

definition run_event_ok :: "event \<Rightarrow> bool" where
  "run_event_ok e \<longleftrightarrow> (ev_aggregate_type e = ''verification_run'' \<longrightarrow>
     ev_aggregate_id e \<noteq> [] \<and> ev_type e \<notin> set CREATION_EVENTS \<and>
     (ev_type e \<in> set VERIFICATION_RESULT_EVENTS \<longrightarrow>
        get_str (ev_payload e) ''verification_id'' = Some (ev_aggregate_id e)))"

lemma apply_event_run:
  assumes "ev_aggregate_type e = ''verification_run''" and "run_event_ok e"
  shows "apply_event st e = Inr (if ts_exists st \<and> ev_type e \<in> set VERIFICATION_RESULT_EVENTS
    then apply_verification_result st e else st)"
  using assms by (simp add: apply_event_def run_event_ok_def)

lemma result_not_repeated:
  assumes "map_of TRANSITIONS (s, t) = Some s'" and "t \<in> set VERIFICATION_RESULT_EVENTS"
  shows "map_of TRANSITIONS (s', t) = None"
proof -
  have "list_all (\<lambda>((s, t), s'). t \<in> set VERIFICATION_RESULT_EVENTS \<longrightarrow>
      map_of TRANSITIONS (s', t) = None) TRANSITIONS"
    by (simp add: TRANSITIONS_def VERIFICATION_RESULT_EVENTS_def)
  with map_of_SomeD [OF assms(1)] assms(2) show ?thesis by (fastforce simp: list_all_iff)
qed

lemma apply_result_idem:
  assumes "ev_type e \<in> set VERIFICATION_RESULT_EVENTS"
  shows "apply_verification_result (apply_verification_result st e) e = apply_verification_result st e"
proof (cases "map_of TRANSITIONS (ts_status st, ev_type e)")
  case None
  then show ?thesis by (simp add: apply_verification_result_def)
next
  case (Some s)
  then show ?thesis using result_not_repeated [OF Some assms] by (simp add: apply_verification_result_def)
qed

lemma apply_run_idem:
  assumes "ev_aggregate_type e = ''verification_run''" and "run_event_ok e"
  shows "bind_res (apply_event st e) (\<lambda>u. apply_event u e) = apply_event st e"
proof -
  have "ts_exists (apply_verification_result st e) = ts_exists st"
    by (simp add: apply_verification_result_def split: option.split)
  then show ?thesis
    using assms apply_result_idem by (simp add: apply_event_run)
qed

section \<open>Folding a merged list is folding the log\<close>

lemma fold_events_Cons: "fold_events (e # es) st = bind_res (apply_event st e) (fold_events es)"
  unfolding fold_events_def [abs_def] by simp

lemma fold_events_replicate:
  assumes "ev_aggregate_type e = ''verification_run''" and "run_event_ok e"
  shows "fold_events (replicate (Suc n) e) st = apply_event st e"
proof (induction n arbitrary: st)
  case 0
  then show ?case by (simp add: fold_events_Cons bind_res_def split: sum.split)
next
  case (Suc n)
  have "fold_events (replicate (Suc (Suc n)) e) st =
      bind_res (apply_event st e) (\<lambda>u. fold_events (replicate (Suc n) e) u)"
    by (simp only: replicate_Suc [of "Suc n"] fold_events_Cons [of e "replicate (Suc n) e"])
  also have "\<dots> = apply_event st e"
    unfolding Suc.IH by (rule apply_run_idem [OF assms])
  finally show ?case .
qed

lemma fold_events_multiplicity:
  assumes "\<forall>e \<in> set L. c e \<noteq> (1 :: nat) \<longrightarrow> c e = 0 \<or> ev_aggregate_type e = ''verification_run'' \<and> run_event_ok e"
  shows "fold_events (concat (map (\<lambda>e. replicate (c e) e) L)) st = fold_events (filter (\<lambda>e. c e > 0) L) st"
  using assms
proof (induction L arbitrary: st)
  case (Cons e L)
  have IH: "fold_events (concat (map (\<lambda>e. replicate (c e) e) L)) = fold_events (filter (\<lambda>e. c e > 0) L)"
    using Cons by (intro ext) simp
  show ?case
  proof (cases "c e")
    case 0
    then show ?thesis using IH by simp
  next
    case (Suc n)
    have "fold_events (replicate (c e) e) st = apply_event st e"
    proof (cases "n = 0")
      case True
      then show ?thesis using Suc by (simp add: fold_events_Cons bind_res_def split: sum.split)
    next
      case False
      then show ?thesis using Suc Cons.prems fold_events_replicate [of e n] by simp
    qed
    then have "fold_events (concat (map (\<lambda>e. replicate (c e) e) (e # L))) st =
        bind_res (apply_event st e) (fold_events (filter (\<lambda>e. c e > 0) L))"
      by (simp only: list.map concat.simps fold_events_append IH)
    then show ?thesis using Suc by (simp add: fold_events_Cons)
  qed
qed simp

lemma fold_events_skip:
  assumes step: "\<And>e u u'. e \<in> set L \<Longrightarrow> Q e \<Longrightarrow> I u \<Longrightarrow> apply_event u e = Inr u' \<Longrightarrow> I u'"
    and skip: "\<And>e u. e \<in> set L \<Longrightarrow> Q e \<Longrightarrow> \<not> R e \<Longrightarrow> I u \<Longrightarrow> apply_event u e = Inr u"
    and sub: "\<And>e. e \<in> set L \<Longrightarrow> R e \<Longrightarrow> Q e" and "I st"
  shows "fold_events (filter Q L) st = fold_events (filter R L) st"
  using assms
proof (induction L arbitrary: st)
  case (Cons e L)
  have IH: "fold_events (filter Q L) u = fold_events (filter R L) u" if "I u" for u
  proof (rule Cons.IH)
    show "I u" by fact
  qed (use Cons.prems in auto)
  show ?case
  proof (cases "Q e")
    case False
    then have "\<not> R e" using Cons.prems(3) [of e] by auto
    then show ?thesis using False IH Cons.prems(4) by simp
  next
    case True
    show ?thesis
    proof (cases "R e")
      case False
      then show ?thesis
        using True Cons.prems(2) [of e st] Cons.prems(4) IH by (simp add: fold_events_Cons)
    next
      case R: True
      show ?thesis
      proof (cases "apply_event st e")
        case (Inr u)
        then show ?thesis using True R Cons.prems(1) [of e st u] Cons.prems(4) IH
          by (simp add: fold_events_Cons)
      qed (use True R in \<open>simp add: fold_events_Cons\<close>)
    qed
  qed
qed simp

lemma mset_replicate_count:
  assumes "distinct L" and "set M \<subseteq> set L"
  shows "mset (concat (map (\<lambda>e. replicate (count_list M e) e) L)) = mset M"
proof (rule multiset_eqI)
  fix x
  have "count (mset (concat (map (\<lambda>e. replicate (count_list M e) e) K))) x =
      (if x \<in> set K then count_list M x else 0)" if "distinct K" for K
    using that by (induction K) (auto simp: count_list_0_iff)
  then show "count (mset (concat (map (\<lambda>e. replicate (count_list M e) e) L))) x = count (mset M) x"
    using assms by (auto simp: count_mset count_list_0_iff)
qed

lemma sort_merged:
  fixes k :: "'a \<Rightarrow> int"
  assumes "sorted_wrt (<) (map k L)" and "set M \<subseteq> set L"
  shows "sort_key k M = concat (map (\<lambda>e. replicate (count_list M e) e) L)"
proof (rule sort_key_inj_key_eq)
  have d: "distinct (map k L)" using assms(1) strict_sorted_iff by blast
  then show "inj_on k (set M)" using assms(2) by (auto simp: distinct_map intro: inj_on_subset)
  show "mset M = mset (concat (map (\<lambda>e. replicate (count_list M e) e) L))"
    using mset_replicate_count [OF _ assms(2)] d by (simp add: distinct_map)
  have "sorted (map k (concat (map (\<lambda>e. replicate (c e) e) K)))" if "sorted_wrt (<) (map k K)" for c K
    using that by (induction K) (auto simp: sorted_append intro: less_imp_le)
  then show "sorted (map k (concat (map (\<lambda>e. replicate (count_list M e) e) L)))" using assms(1) .
qed

section \<open>Sound logs\<close>

text \<open>
  A log is sound for Tasks when verification results name their run, the Task streams hold no
  verification results, and every Task stream folds to an existing Task that accounts for all of
  the stream.
\<close>

definition task_ok :: "(string \<Rightarrow> bool) \<Rightarrow> string \<Rightarrow> string \<Rightarrow> event list \<Rightarrow> bool" where
  "task_ok channel_ok ws tid L \<longleftrightarrow> (filter (in_aggregate ws ''task'' tid) L \<noteq> [] \<longrightarrow>
     (\<exists>st. task_view ws tid L = Inr st \<and> ts_exists st \<and> ts_task_id st = tid \<and>
        ts_last_aggregate_seq st = int (length (filter (in_aggregate ws ''task'' tid) L)) \<and>
        (\<forall>c. ts_channel_id st = Some c \<longrightarrow> channel_ok c)))"

definition task_log_inv :: "(string \<Rightarrow> bool) \<Rightarrow> event list \<Rightarrow> bool" where
  "task_log_inv channel_ok L \<longleftrightarrow>
     (\<forall>e \<in> set L. run_event_ok e \<and>
        (ev_aggregate_type e = ''task'' \<longrightarrow> ev_type e \<notin> set VERIFICATION_RESULT_EVENTS)) \<and>
     (\<forall>ws tid. task_ok channel_ok ws tid L)"

lemma task_view_result:
  assumes "task_view ws tid L = Inr st"
  shows "ts_task_id st = tid" and "passed_inv (filter (rel_event ws tid) L) st"
    and "ts_status st \<noteq> OPEN \<Longrightarrow> ts_exists st"
  using assms fold_events_task_id fold_events_passed fold_events_exists
  by (fastforce simp: task_view_def initial_task_def)+

text \<open>An event of another component does not change any Task.\<close>

definition neutral :: "event \<Rightarrow> bool" where
  "neutral e \<longleftrightarrow> ev_aggregate_type e \<noteq> ''task'' \<and> ev_aggregate_type e \<noteq> ''verification_run''"

lemma task_ok_other:
  assumes "task_ok ch ws tid L" and "\<not> rel_event ws tid e"
  shows "task_ok ch ws tid (L @ [e])"
  using assms by (simp add: task_ok_def task_view_snoc) (auto simp: rel_event_def)

lemma task_log_inv_neutral:
  assumes "task_log_inv ch L" and "list_all neutral es"
  shows "task_log_inv ch (L @ es)"
  using assms(2)
proof (induction es rule: rev_induct)
  case Nil
  then show ?case using assms(1) by simp
next
  case (snoc e es)
  then have inv: "task_log_inv ch (L @ es)" and e: "neutral e" by simp_all
  have "\<not> rel_event ws tid e" for ws tid using e by (auto simp: neutral_def rel_event_def in_aggregate_def)
  then have "task_ok ch ws tid ((L @ es) @ [e])" for ws tid
    using inv by (intro task_ok_other) (auto simp: task_log_inv_def)
  then show ?case using inv e by (auto simp: task_log_inv_def neutral_def run_event_ok_def)
qed

lemma apply_verification_result_sel [simp]:
  "ts_exists (apply_verification_result st e) = ts_exists st"
  "ts_task_id (apply_verification_result st e) = ts_task_id st"
  "ts_last_aggregate_seq (apply_verification_result st e) = ts_last_aggregate_seq st"
  "ts_channel_id (apply_verification_result st e) = ts_channel_id st"
  by (simp_all add: apply_verification_result_def split: option.split)

lemma task_log_inv_run:
  assumes inv: "task_log_inv ch L" and e: "ev_aggregate_type e = ''verification_run''" "run_event_ok e"
  shows "task_log_inv ch (L @ [e])"
proof -
  have "task_ok ch ws tid (L @ [e])" for ws tid
  proof (cases "rel_event ws tid e")
    case False
    then show ?thesis using inv by (intro task_ok_other) (auto simp: task_log_inv_def)
  next
    case True
    have "\<not> in_aggregate ws ''task'' tid e" using e by (auto simp: in_aggregate_def)
    moreover have "task_ok ch ws tid L" using inv by (simp add: task_log_inv_def)
    ultimately show ?thesis
      using True by (auto simp: task_ok_def task_view_snoc apply_event_run [OF e])
  qed
  then show ?thesis using inv e by (auto simp: task_log_inv_def)
qed

text \<open>A Task's own event: it must be one the fold accepts.\<close>

lemma task_log_inv_task:
  assumes inv: "task_log_inv ch L" and e: "in_aggregate ws ''task'' tid e"
      "ev_type e \<notin> set VERIFICATION_RESULT_EVENTS"
    and new: "\<exists>st st'. task_view ws tid L = Inr st \<and> apply_event st e = Inr st' \<and> ts_exists st' \<and>
      ts_last_aggregate_seq st' = int (length (filter (in_aggregate ws ''task'' tid) L)) + 1 \<and>
      (\<forall>c. ts_channel_id st' = Some c \<longrightarrow> ch c)"
  shows "task_log_inv ch (L @ [e])"
proof -
  have "task_ok ch ws' tid' (L @ [e])" for ws' tid'
  proof (cases "ws' = ws \<and> tid' = tid")
    case False
    then have "\<not> rel_event ws' tid' e" using e(1) by (auto simp: rel_event_def in_aggregate_def)
    then show ?thesis using inv by (intro task_ok_other) (auto simp: task_log_inv_def)
  next
    case True
    have rel: "rel_event ws tid e" using e(1) by (simp add: rel_event_def)
    obtain st st' where st: "task_view ws tid L = Inr st" "apply_event st e = Inr st'" "ts_exists st'"
      "ts_last_aggregate_seq st' = int (length (filter (in_aggregate ws ''task'' tid) L)) + 1"
      "\<forall>c. ts_channel_id st' = Some c \<longrightarrow> ch c"
      using new by blast
    have view: "task_view ws tid (L @ [e]) = Inr st'" using st rel by (simp add: task_view_snoc)
    then show ?thesis
      using st e(1) True task_view_result(1) [OF view] by (simp add: task_ok_def)
  qed
  then show ?thesis
    using inv e by (auto simp: task_log_inv_def run_event_ok_def in_aggregate_def)
qed

lemma task_view_empty:
  assumes "filter (in_aggregate ws ''task'' tid) L = []" and "\<forall>e \<in> set L. run_event_ok e"
  shows "task_view ws tid L = Inr (initial_task tid)"
  using assms
proof (induction L rule: rev_induct)
  case (snoc e L)
  then have e: "rel_event ws tid e \<Longrightarrow> ev_aggregate_type e = ''verification_run''" "run_event_ok e"
    by (auto simp: rel_event_def split: if_splits)
  have "\<not> ts_exists (initial_task tid)" by (simp add: initial_task_def)
  then have "rel_event ws tid e \<Longrightarrow> apply_event (initial_task tid) e = Inr (initial_task tid)"
    using apply_event_run e by simp
  then show ?case using snoc by (auto simp: task_view_snoc split: if_splits)
qed (simp add: task_view_def)

section \<open>Loading is viewing\<close>

lemma started_iff:
  "vid \<in> set (started_verifications es) \<longleftrightarrow> vid \<noteq> [] \<and>
     (\<exists>e \<in> set es. ev_type e = ''TASK_VERIFICATION_STARTED'' \<and>
        get_str (ev_payload e) ''verification_id'' = Some vid)"
proof -
  have "get_str [] k = None" for k by (simp add: get_str_def)
  then have "ev_payload e \<noteq> []" if "get_str (ev_payload e) k = Some v" for e :: event and k v
    using that by (cases "ev_payload e") auto
  then show ?thesis
    unfolding started_verifications_def
    by (induction es) (auto simp: List.map_filter_simps or_none_def truthy_def split: option.splits)
qed

lemma active_started:
  assumes "apply_event u e = Inr u'" and "rel_event ws tid e" and "run_event_ok e"
    and "e \<in> set L" and "ts_task_id u = tid"
    and old: "ts_active_verification_id u = None \<or> ts_active_verification_id u = Some [] \<or>
      the (ts_active_verification_id u) \<in> set (started_verifications (filter (in_aggregate ws ''task'' tid) L))"
  shows "ts_task_id u' = tid \<and> (ts_active_verification_id u' = None \<or> ts_active_verification_id u' = Some [] \<or>
      the (ts_active_verification_id u') \<in> set (started_verifications (filter (in_aggregate ws ''task'' tid) L)))"
  using assms(1)
proof (cases rule: apply_event_cases)
  case same
  then show ?thesis using assms(5) old by simp
next
  case created
  then show ?thesis using assms(5) old by (simp add: apply_creation_def Let_def)
next
  case (verified s)
  then show ?thesis using assms(5) old by simp
next
  case (moved s)
  have "ts_active_verification_id u' = (if ev_type e = ''TASK_VERIFICATION_STARTED''
      then get_str (ev_payload e) ''verification_id'' else ts_active_verification_id u)"
    using moved(8) by (auto simp: apply_details_def Let_def)
  moreover have "ts_task_id u' = tid" using moved(8) assms(5) by simp
  moreover have "in_aggregate ws ''task'' tid e"
    using assms(2) moved(5) by (auto simp: rel_event_def in_aggregate_def)
  ultimately show ?thesis
    using old assms(4) by (cases "get_str (ev_payload e) ''verification_id''")
      (auto simp: started_iff)
qed

lemma count_list_distinct: "distinct xs \<Longrightarrow> x \<in> set xs \<Longrightarrow> count_list xs x = 1"
  by (induction xs) (auto simp: count_list_0_iff)

lemma merged_fold:
  fixes ws tid L
  defines "T \<equiv> filter (in_aggregate ws ''task'' tid) L"
  defines "M \<equiv> T @ concat (map (filter (\<lambda>e. ev_task_id e = Some tid))
     (map (\<lambda>vid. filter (in_aggregate ws ''verification_run'' vid) L) (started_verifications T)))"
  assumes srt: "sorted_wrt (<) (map ev_recorded_seq L)" and ok: "\<forall>e \<in> set L. run_event_ok e"
  shows "fold_task tid M = task_view ws tid L"
proof -
  have sub: "set M \<subseteq> set L" by (auto simp: M_def T_def)
  have d: "distinct L" using srt strict_sorted_iff by (metis distinct_map)
  let ?c = "count_list M"
  have mem: "?c e > 0 \<longleftrightarrow> e \<in> set M" for e using count_list_0_iff [of M e] by auto
  have "?c e = 0 \<or> ev_aggregate_type e = ''verification_run'' \<and> run_event_ok e"
    if "e \<in> set L" "?c e \<noteq> 1" for e
  proof (cases "e \<in> set T")
    case True
    then have "ev_aggregate_type e = ''task''" by (simp add: T_def in_aggregate_def)
    then have "count_list (concat (map (filter (\<lambda>e. ev_task_id e = Some tid))
     (map (\<lambda>vid. filter (in_aggregate ws ''verification_run'' vid) L) (started_verifications T)))) e = 0"
      by (auto simp: count_list_0_iff in_aggregate_def)
    moreover have "count_list T e = 1"
      using count_list_distinct [of T e] True d by (simp add: T_def)
    ultimately show ?thesis using that(2) by (simp add: M_def)
  next
    case False
    then show ?thesis
      using that(1) ok by (cases "e \<in> set M") (auto simp: M_def in_aggregate_def count_list_0_iff)
  qed
  then have "fold_task tid M = fold_events (filter (\<lambda>e. e \<in> set M) L) (initial_task tid)"
    using fold_events_multiplicity [of L ?c] sort_merged [OF srt sub]
    by (simp add: fold_task_def mem)
  also have "\<dots> = fold_events (filter (rel_event ws tid) L) (initial_task tid)"
  proof (rule fold_events_skip [symmetric, where I = "\<lambda>u. ts_task_id u = tid \<and>
      (ts_active_verification_id u = None \<or> ts_active_verification_id u = Some [] \<or>
       the (ts_active_verification_id u) \<in> set (started_verifications T))"])
    fix e u u'
    assume "e \<in> set L" "rel_event ws tid e" "apply_event u e = Inr u'"
      "ts_task_id u = tid \<and> (ts_active_verification_id u = None \<or> ts_active_verification_id u = Some [] \<or>
       the (ts_active_verification_id u) \<in> set (started_verifications T))"
    then show "ts_task_id u' = tid \<and> (ts_active_verification_id u' = None \<or>
        ts_active_verification_id u' = Some [] \<or>
       the (ts_active_verification_id u') \<in> set (started_verifications T))"
      using active_started [of u e u' ws tid L] ok by (simp add: T_def)
  next
    fix e and u :: task_state
    assume e: "e \<in> set L" "rel_event ws tid e" "e \<notin> set M"
      and u: "ts_task_id u = tid \<and> (ts_active_verification_id u = None \<or>
        ts_active_verification_id u = Some [] \<or>
        the (ts_active_verification_id u) \<in> set (started_verifications T))"
    then have vr: "ev_aggregate_type e = ''verification_run''" "ev_task_id e = Some tid"
        "ev_workspace_id e = ws"
      by (auto simp: M_def T_def rel_event_def)
    have "ev_aggregate_id e \<notin> set (started_verifications T)"
      using e vr by (auto simp: M_def in_aggregate_def)
    moreover have run: "run_event_ok e" using ok e(1) by blast
    ultimately have "ts_active_verification_id u \<noteq> Some (ev_aggregate_id e)"
      using u vr(1) by (auto simp: run_event_ok_def)
    then show "apply_event u e = Inr u"
      using apply_event_run [OF vr(1) run] run vr(1)
      by (auto simp: apply_verification_result_def run_event_ok_def)
  next
    fix e
    assume "e \<in> set L" "e \<in> set M"
    then show "rel_event ws tid e" by (auto simp: M_def T_def rel_event_def in_aggregate_def)
  qed (simp add: initial_task_def)
  finally show ?thesis by (simp add: task_view_def)
qed

section \<open>The interface of the handlers\<close>

locale task_store = event_log P "so_append S" log ok admits
  for P :: prims and S :: "'s store_ops" and log :: "'s \<Rightarrow> event list" and ok :: "'s \<Rightarrow> bool"
    and admits :: "append_request \<Rightarrow> bool" +
  fixes id_ok :: "string \<Rightarrow> bool"
    and channel_ok :: "string \<Rightarrow> bool"
  assumes stream_log: "ok s \<Longrightarrow> id_ok ws \<Longrightarrow> so_stream S s ws t a = Inr (filter (in_aggregate ws t a) (log s))"
    and admitted: "id_ok (ar_workspace_id r) \<Longrightarrow> id_ok (ar_actor_account_id r) \<Longrightarrow>
      (\<forall>c. ar_channel_id r = Some c \<longrightarrow> channel_ok c) \<Longrightarrow> admits r"
begin

definition sound :: "'s task_world \<Rightarrow> bool" where
  "sound w \<longleftrightarrow> ok (wd_store w) \<and> task_log_inv channel_ok (log (wd_store w))"

definition context_ok :: "command_context \<Rightarrow> bool" where
  "context_ok cx \<longleftrightarrow> id_ok (cx_workspace_id cx) \<and> id_ok (cx_account_uuid cx)"

text \<open>What other components may do when a handler calls them.\<close>

definition foreign :: "('s task_world \<Rightarrow> 's task_world res) \<Rightarrow> bool" where
  "foreign h \<longleftrightarrow> (\<forall>w w'. ok (wd_store w) \<longrightarrow> h w = Inr w' \<longrightarrow> ok (wd_store w') \<and>
     (\<exists>es. log (wd_store w') = log (wd_store w) @ es \<and> list_all neutral es))"

definition env_ok :: "'s task_env \<Rightarrow> bool" where
  "env_ok E \<longleftrightarrow> (\<forall>t i c. foreign (te_persist_criteria E t i c)) \<and>
     (\<forall>st i r. foreign (te_after_assignment E st i r)) \<and> (\<forall>t. foreign (te_on_submitted E t)) \<and>
     (\<forall>t. foreign (te_terminal_hooks E t))"

lemma foreign_sound: "foreign h \<Longrightarrow> sound w \<Longrightarrow> h w = Inr w' \<Longrightarrow> sound w'"
  unfolding foreign_def sound_def using task_log_inv_neutral by metis

lemma env_hooks_sound:
  assumes "env_ok E" and "sound w"
  shows "te_persist_criteria E t i c w = Inr w' \<Longrightarrow> sound w'"
    and "te_after_assignment E st i r w = Inr w' \<Longrightarrow> sound w'"
    and "te_on_submitted E t w = Inr w' \<Longrightarrow> sound w'"
    and "te_terminal_hooks E t w = Inr w' \<Longrightarrow> sound w'"
  using assms foreign_sound unfolding env_ok_def by blast+

lemma sound_same_store: "sound w \<Longrightarrow> wd_store w' = wd_store w \<Longrightarrow> sound w'"
  by (simp add: sound_def)

lemma load_task_view:
  assumes s: "ok s" "task_log_inv channel_ok (log s)" and ws: "id_ok ws"
  shows "load_task S ws s tid =
    (if filter (in_aggregate ws ''task'' tid) (log s) = [] then Inl ''TASK_NOT_FOUND''
     else task_view ws tid (log s))"
proof -
  let ?T = "filter (in_aggregate ws ''task'' tid) (log s)"
  have stream: "so_stream S s ws t = (\<lambda>a. Inr (filter (in_aggregate ws t a) (log s)))" for t
    using stream_log [OF s(1) ws] by blast
  have "\<forall>e \<in> set (log s). run_event_ok e" using s(2) by (simp add: task_log_inv_def)
  from merged_fold [OF log_sorted [OF s(1)] this, of tid ws]
  show ?thesis by (simp add: load_task_def stream)
qed

lemma load_task_sound:
  assumes "sound w" and "id_ok ws" and "load_task S ws (wd_store w) tid = Inr st"
  shows "task_view ws tid (log (wd_store w)) = Inr st \<and> ts_exists st \<and> ts_task_id st = tid \<and>
    ts_last_aggregate_seq st = int (length (filter (in_aggregate ws ''task'' tid) (log (wd_store w)))) \<and>
    (\<forall>c. ts_channel_id st = Some c \<longrightarrow> channel_ok c)"
proof -
  have w: "ok (wd_store w)" "task_log_inv channel_ok (log (wd_store w))"
    using assms(1) by (simp_all add: sound_def)
  then have "task_ok channel_ok ws tid (log (wd_store w))" by (simp add: task_log_inv_def)
  moreover have "filter (in_aggregate ws ''task'' tid) (log (wd_store w)) \<noteq> []"
    "task_view ws tid (log (wd_store w)) = Inr st"
    using load_task_view [OF w assms(2), of tid] assms(3) by (auto split: if_splits)
  ultimately show ?thesis by (auto simp: task_ok_def)
qed

text \<open>Storing a new event of an accepted request.\<close>

lemma append_sound:
  assumes w: "ok s" "task_log_inv channel_ok (log s)" and adm: "admits r"
    and app: "so_append S s r = Inr (s', res)"
    and new: "\<And>e. event_of r e \<Longrightarrow> \<not> res_replayed res \<Longrightarrow> task_log_inv channel_ok (log s @ [e])"
  shows "ok s' \<and> task_log_inv channel_ok (log s')"
  using append_ok [OF w(1) adm app] append_replayed [OF w(1) adm app] append_new [OF w(1) adm app] w(2) new
  by (cases "res_replayed res") auto

end

section \<open>Every handler keeps the log sound\<close>

definition plain_type :: "string \<Rightarrow> bool" where
  "plain_type t \<longleftrightarrow> t \<notin> set (CREATION_EVENTS @ VERIFICATION_RESULT_EVENTS @ ANNOTATION_EVENTS)"

lemma plain_types [simp]:
  "plain_type ''TASK_DELEGATED''" "plain_type ''TASK_REASSIGNED''" "plain_type ''TASK_ACCEPTED''"
  "plain_type ''TASK_STARTED''" "plain_type ''TASK_PROGRESS_REPORTED''" "plain_type ''TASK_WAITING''"
  "plain_type ''IMPLEMENTATION_SUBMITTED''" "plain_type ''TASK_VERIFICATION_STARTED''"
  "plain_type ''TASK_COMPLETED''" "plain_type ''TASK_CANCEL_REQUESTED''" "plain_type ''TASK_CANCELLED''"
  by (simp_all add: plain_type_def CREATION_EVENTS_def VERIFICATION_RESULT_EVENTS_def ANNOTATION_EVENTS_def)

lemma apply_plain_event:
  assumes "ts_exists st" and "plain_type (ev_type e)" and "in_aggregate ws ''task'' (ts_task_id st) e"
    and "next_status (ts_status st) (ev_type e) = Inr s"
  shows "\<exists>st'. apply_event st e = Inr st' \<and> ts_exists st' \<and> ts_status st' = s \<and>
    ts_last_aggregate_seq st' = ev_aggregate_seq e \<and> ts_channel_id st' = ts_channel_id st"
  using assms
  by (simp add: apply_event_def plain_type_def in_aggregate_def apply_details_def touch_def Let_def)

lemma apply_created_event:
  assumes "ev_type e \<in> set CREATION_EVENTS" and "in_aggregate ws ''task'' tid e"
    and "get_str (ev_payload e) ''channel_id'' = c" and "ev_channel_id e = c"
  shows "\<exists>st'. apply_event (initial_task tid) e = Inr st' \<and> ts_exists st' \<and>
    ts_last_aggregate_seq st' = ev_aggregate_seq e \<and> ts_channel_id st' = c"
  using assms
  by (auto simp: apply_event_def in_aggregate_def apply_creation_def initial_task_def Let_def or_str_def)

lemma apply_join_event:
  assumes "ts_exists st" and "ev_type e = ''TASK_JOIN_SATISFIED''" and "in_aggregate ws ''task'' (ts_task_id st) e"
  shows "\<exists>st'. apply_event st e = Inr st' \<and> ts_exists st' \<and>
    ts_last_aggregate_seq st' = ev_aggregate_seq e \<and> ts_channel_id st' = ts_channel_id st"
  using assms
  by (simp add: apply_event_def in_aggregate_def touch_def CREATION_EVENTS_def
      VERIFICATION_RESULT_EVENTS_def ANNOTATION_EVENTS_def)

lemma write_state_store [simp]: "wd_store (write_state st t w) = wd_store w"
  by (simp add: write_state_def)

lemma link_subtask_edge_store: "link_subtask_edge c p root d i w = Inr w' \<Longrightarrow> wd_store w' = wd_store w"
  by (auto simp: link_subtask_edge_def bind_res_eq_Inr split: if_splits)

context task_store
begin

text \<open>The state a handler works on.\<close>

definition loaded :: "command_context \<Rightarrow> 's task_world \<Rightarrow> task_state \<Rightarrow> bool" where
  "loaded cx w st \<longleftrightarrow> (let ws = cx_workspace_id cx; tid = ts_task_id st; L = log (wd_store w) in
     task_view ws tid L = Inr st \<and> ts_exists st \<and>
     ts_last_aggregate_seq st = int (length (filter (in_aggregate ws ''task'' tid) L)) \<and>
     (\<forall>c. ts_channel_id st = Some c \<longrightarrow> channel_ok c))"

lemma load_task_loaded:
  assumes "sound w" and "context_ok cx" and "load_task S (cx_workspace_id cx) (wd_store w) tid = Inr st"
  shows "loaded cx w st \<and> ts_task_id st = tid"
  using load_task_sound [OF assms(1) _ assms(3)] assms(2) by (auto simp: loaded_def context_ok_def)

lemma own_event_sound:
  assumes w: "sound w" and cx: "context_ok cx" and st: "loaded cx w st"
    and r: "ar_workspace_id r = cx_workspace_id cx" "ar_actor_account_id r = cx_account_uuid cx"
      "ar_channel_id r = ts_channel_id st" "ar_aggregate_type r = ''task''"
      "ar_aggregate_id r = ts_task_id st" "ar_expected_seq r = Some (ts_last_aggregate_seq st + 1)"
      "ar_type r \<notin> set VERIFICATION_RESULT_EVENTS"
    and new: "\<And>e. event_of r e \<Longrightarrow> \<exists>st'. apply_event st e = Inr st' \<and> ts_exists st' \<and>
      ts_last_aggregate_seq st' = ev_aggregate_seq e \<and> ts_channel_id st' = ts_channel_id st"
    and app: "so_append S (wd_store w) r = Inr (s', res)"
  shows "ok s' \<and> task_log_inv channel_ok (log s')"
proof (rule append_sound [OF _ _ _ app])
  show ok: "ok (wd_store w)" and inv: "task_log_inv channel_ok (log (wd_store w))"
    using w by (simp_all add: sound_def)
  show "admits r"
    using cx st r by (intro admitted) (auto simp: context_ok_def loaded_def Let_def)
  fix e
  assume e: "event_of r e"
  then have agg: "in_aggregate (cx_workspace_id cx) ''task'' (ts_task_id st) e"
      "ev_type e = ar_type r" "ev_aggregate_seq e = ts_last_aggregate_seq st + 1"
    using r by (auto simp: event_of_def)
  show "task_log_inv channel_ok (log (wd_store w) @ [e])"
    by (rule task_log_inv_task [OF inv agg(1)]) (use new [OF e] agg r st in \<open>auto simp: loaded_def Let_def\<close>)
qed

lemma transition_sound:
  assumes w: "sound w" and cx: "context_ok cx" and E: "env_ok E" and st: "loaded cx w st"
    and t: "plain_type event_type"
    and tr: "transition S E cx scope st event_type payload w = Inr (w', res, st')"
  shows "sound w'"
proof -
  let ?req = "transition_request cx scope st event_type payload"
  obtain replay where rp: "replay_from_stream S cx (wd_store w) (ts_task_id st) scope = Inr replay"
    using tr by (auto simp: transition_def bind_res_eq_Inr)
  show ?thesis
  proof (cases replay)
    case (Some r)
    then show ?thesis using tr rp w by (simp add: transition_def)
  next
    case None
    from tr rp None obtain ns where ns: "next_status (ts_status st) event_type = Inr ns"
      by (auto simp: transition_def bind_res_eq_Inr)
    from tr rp None ns obtain s' where app: "so_append S (wd_store w) ?req = Inr (s', res)"
      by (auto simp: transition_def bind_res_eq_Inr Let_def split: if_splits)
    have rest: "wd_store w' = s' \<or> (\<exists>w2. te_terminal_hooks E (ts_task_id st) (w\<lparr>wd_store := s'\<rparr>) = Inr w2 \<and>
        wd_store w' = wd_store w2)"
    proof (cases "res_replayed res")
      case True
      then show ?thesis using tr rp None ns app by (auto simp: transition_def)
    next
      case False
      then obtain st1 w2 where "(if task_terminal ns then te_terminal_hooks E (ts_task_id st) (w\<lparr>wd_store := s'\<rparr>)
          else Inr (w\<lparr>wd_store := s'\<rparr>)) = Inr w2" "wd_store w' = wd_store w2"
        using tr rp None ns app by (auto simp: transition_def Let_def bind_res_eq_Inr)
      then show ?thesis by (auto split: if_splits)
    qed
    have "ok s' \<and> task_log_inv channel_ok (log s')"
    proof (rule own_event_sound [OF w cx st _ _ _ _ _ _ _ _ app])
      fix e
      assume e: "event_of ?req e"
      show "\<exists>st'. apply_event st e = Inr st' \<and> ts_exists st' \<and>
          ts_last_aggregate_seq st' = ev_aggregate_seq e \<and> ts_channel_id st' = ts_channel_id st"
        using apply_plain_event [of st e "cx_workspace_id cx" ns] e ns st t
        by (auto simp: event_of_def transition_request_def task_request_def loaded_def Let_def)
    qed (use t in \<open>simp_all add: transition_request_def task_request_def plain_type_def\<close>)
    then have "sound (w\<lparr>wd_store := s'\<rparr>)" by (simp add: sound_def)
    with rest show ?thesis
      using env_hooks_sound(4) [OF E, of "w\<lparr>wd_store := s'\<rparr>"] by (auto simp: sound_def)
  qed
qed

lemma create_with_sound:
  assumes w: "sound w" and cx: "context_ok cx" and t: "event_type \<in> set CREATION_EVENTS"
    and ch: "get_str payload ''channel_id'' = channel" "\<forall>c. channel = Some c \<longrightarrow> channel_ok c"
    and cr: "create_with S cx scope tid event_type payload channel w = Inr (w', res, st)"
  shows "sound w'"
proof -
  let ?r = "(task_request cx ''task'' tid tid scope payload channel None 1)\<lparr>ar_type := event_type\<rparr>"
  let ?L = "log (wd_store w)" and ?ws = "cx_workspace_id cx"
  obtain s' where app: "so_append S (wd_store w) ?r = Inr (s', res)" and st: "wd_store w' = s'"
    using cr by (auto simp: create_with_def res_simps Let_def split: if_splits)
  have ok: "ok (wd_store w)" and inv: "task_log_inv channel_ok ?L" using w by (simp_all add: sound_def)
  have adm: "admits ?r" using cx ch by (intro admitted) (auto simp: context_ok_def task_request_def)
  have "ok s' \<and> task_log_inv channel_ok (log s')"
  proof (rule append_sound [OF ok inv adm app])
    fix e
    assume e: "event_of ?r e" "\<not> res_replayed res"
    have agg: "in_aggregate ?ws ''task'' tid e" "ev_type e = event_type" "ev_aggregate_seq e = 1"
        "get_str (ev_payload e) ''channel_id'' = channel" "ev_channel_id e = channel"
      using e ch(1) by (auto simp: event_of_def task_request_def)
    obtain e' where e': "log s' = ?L @ [e']" "event_of ?r e'"
      using append_new [OF ok adm app e(2)] by blast
    then have "in_aggregate ?ws ''task'' tid e'" "ev_aggregate_seq e' = 1"
      by (auto simp: event_of_def task_request_def)
    then have "intact_from P 1 None (filter (in_aggregate ?ws ''task'' tid) ?L @ [e'])"
      using log_chain [OF append_ok [OF ok adm app], of ?ws "''task''" tid] e'(1) by simp
    then have empty: "filter (in_aggregate ?ws ''task'' tid) ?L = []"
      using \<open>ev_aggregate_seq e' = 1\<close> by (simp add: intact_from_append)
    have "task_view ?ws tid ?L = Inr (initial_task tid)"
      using task_view_empty [OF empty] inv by (simp add: task_log_inv_def)
    moreover have "ev_type e \<notin> set VERIFICATION_RESULT_EVENTS"
      using t agg(2) by (auto simp: CREATION_EVENTS_def VERIFICATION_RESULT_EVENTS_def)
    ultimately show "task_log_inv channel_ok (?L @ [e])"
      using apply_created_event [OF _ agg(1) agg(4,5)] t agg(2,3) empty ch(2)
      by (intro task_log_inv_task [OF inv agg(1)]) auto
  qed
  then show ?thesis using st by (simp add: sound_def)
qed

lemma record_join_sound:
  assumes w: "sound w" and cx: "context_ok cx"
    and j: "record_join_if_satisfied S E cx parent_id w = Inr w'"
  shows "sound w'"
proof -
  obtain parent where p: "load_task S (cx_workspace_id cx) (wd_store w) parent_id = Inr parent"
    using j by (auto simp: record_join_if_satisfied_def bind_res_eq_Inr)
  have st: "loaded cx w parent" using load_task_loaded [OF w cx p] by simp
  then have ex: "ts_exists parent" by (simp add: loaded_def Let_def)
  obtain result where r: "evaluate_join (Some (ts_join_policy parent)) (children_of w (ts_task_id parent)) = Inr result"
    using j p ex by (auto simp: record_join_if_satisfied_def bind_res_eq_Inr)
  let ?req = "(task_request cx ''task'' (ts_task_id parent) (ts_task_id parent) ''task:join''
       [(''task_id'', JStr (ts_task_id parent)), (''join_policy'', JStr (join_label result)),
        (''satisfied_children'', JArr (map JStr (jr_satisfied_children result)))]
       (ts_channel_id parent) (ts_last_event_id parent) (ts_last_aggregate_seq parent + 1))
     \<lparr>ar_type := ''TASK_JOIN_SATISFIED'', ar_idempotency_key := ''join:'' @ ts_task_id parent\<rparr>"
  show ?thesis
  proof (cases "\<not> jr_satisfied result \<or> ts_join_satisfied parent")
    case True
    then show ?thesis using j p ex r w by (auto simp: record_join_if_satisfied_def)
  next
    case False
    show ?thesis
    proof (cases "so_append S (wd_store w) ?req")
      case (Inl code)
      then have "w' = w"
        using j p ex r False by (auto simp: record_join_if_satisfied_def Let_def split: if_splits)
      then show ?thesis using w by simp
    next
      case (Inr q)
      then obtain s' res where app: "so_append S (wd_store w) ?req = Inr (s', res)" by (cases q) auto
      have "ok s' \<and> task_log_inv channel_ok (log s')"
      proof (rule own_event_sound [OF w cx st _ _ _ _ _ _ _ _ app])
        fix e
        assume "event_of ?req e"
        then show "\<exists>st'. apply_event parent e = Inr st' \<and> ts_exists st' \<and>
            ts_last_aggregate_seq st' = ev_aggregate_seq e \<and> ts_channel_id st' = ts_channel_id parent"
          using apply_join_event [OF ex, of e "cx_workspace_id cx"]
          by (simp add: event_of_def task_request_def)
      qed (simp_all add: task_request_def VERIFICATION_RESULT_EVENTS_def)
      moreover have "wd_store w' = s'"
        using j p ex r False app by (auto simp: record_join_if_satisfied_def Let_def bind_res_eq_Inr)
      ultimately show ?thesis by (simp add: sound_def)
    qed
  qed
qed

lemma on_child_terminal_sound:
  assumes "sound w" and "context_ok cx" and "on_child_terminal S E cx st w = Inr w'"
  shows "sound w'"
  using assms record_join_sound by (auto simp: on_child_terminal_def split: option.splits)

lemma record_verification_sound:
  assumes w: "sound w" and cx: "context_ok cx" and vid: "vid \<noteq> []"
    and h: "record_verification_result S E cx tid vid result n ev fs reason w = Inr (w', r)"
  shows "sound w'"
proof -
  obtain st where ld: "load_task S (cx_workspace_id cx) (wd_store w) tid = Inr st"
    using h by (auto simp: record_verification_result_def bind_res_eq_Inr)
  have st: "loaded cx w st" and tid: "ts_task_id st = tid" using load_task_loaded [OF w cx ld] by auto
  obtain vr where vr: "so_stream S (wd_store w) (cx_workspace_id cx) ''verification_run'' vid = Inr vr"
    and res_ok: "result \<in> {''PASSED'', ''FAILED'', ''BLOCKED''}"
    using h ld by (auto simp: record_verification_result_def bind_res_eq_Inr split: if_splits)
  let ?payload = "[(''verification_id'', JStr vid), (''revision'', JInt n),
       (if result = ''PASSED'' then (''evidence_refs'', JArr (map JStr ev))
        else if result = ''FAILED'' then (''finding_ids'', JArr (map JStr fs))
        else (''reason_code'', JStr reason))]"
  let ?req = "(task_request cx ''verification_run'' vid tid ''verification_run:result'' ?payload
       (ts_channel_id st) (ts_last_event_id st)
       (if vr = [] then 1 else ev_aggregate_seq (last vr) + 1))\<lparr>ar_type := ''VERIFICATION_'' @ result\<rparr>"
  let ?found = "List.find (\<lambda>e. ev_idempotency_scope e = ''verification_run:result'' \<and>
           ev_idempotency_key e = cx_idempotency_key cx) vr"
  show ?thesis
  proof (cases ?found)
    case (Some e)
    then have "w' = w"
      using h ld vr by (auto simp: record_verification_result_def cmd_result_def bind_res_eq_Inr split: if_splits)
    then show ?thesis using w by simp
  next
    case None
    have "\<exists>s' res st1 w2. so_append S (wd_store w) ?req = Inr (s', res) \<and>
        (if result = ''PASSED'' then on_child_terminal S E cx st1
           (write_state st1 (occurred_at_of S s' (res_event_id res) (cx_now cx)) (w\<lparr>wd_store := s'\<rparr>))
         else Inr (write_state st1 (occurred_at_of S s' (res_event_id res) (cx_now cx)) (w\<lparr>wd_store := s'\<rparr>)))
          = Inr w2 \<and> w' = w2"
      using h ld vr res_ok None
      by (auto simp: record_verification_result_def cmd_result_def Let_def bind_res_eq_Inr
          simp del: write_state_store split: if_splits prod.splits)
    then obtain s' res st1 w2 where app: "so_append S (wd_store w) ?req = Inr (s', res)"
      and w2: "(if result = ''PASSED'' then on_child_terminal S E cx st1
           (write_state st1 (occurred_at_of S s' (res_event_id res) (cx_now cx)) (w\<lparr>wd_store := s'\<rparr>))
         else Inr (write_state st1 (occurred_at_of S s' (res_event_id res) (cx_now cx)) (w\<lparr>wd_store := s'\<rparr>)))
          = Inr w2" "w' = w2"
      by blast
    have ok: "ok (wd_store w)" and inv: "task_log_inv channel_ok (log (wd_store w))"
      using w by (simp_all add: sound_def)
    have adm: "admits ?req"
      using cx st by (intro admitted) (auto simp: context_ok_def loaded_def Let_def task_request_def)
    have "ok s' \<and> task_log_inv channel_ok (log s')"
    proof (rule append_sound [OF ok inv adm app])
      fix e
      assume e: "event_of ?req e"
      then have "ev_aggregate_type e = ''verification_run''" by (simp add: event_of_def in_aggregate_def task_request_def)
      moreover have "run_event_ok e"
        using e vid res_ok
        by (auto simp: run_event_ok_def event_of_def in_aggregate_def task_request_def get_str_def
            CREATION_EVENTS_def)
      ultimately show "task_log_inv channel_ok (log (wd_store w) @ [e])" by (rule task_log_inv_run [OF inv])
    qed
    then have w1: "sound (write_state st1 t (w\<lparr>wd_store := s'\<rparr>))" for t by (simp add: sound_def)
    show ?thesis
    proof (cases "result = ''PASSED''")
      case True
      then show ?thesis using w2 by (intro on_child_terminal_sound [OF w1 cx]) simp
    next
      case False
      then show ?thesis using w2 w1 by auto
    qed
  qed
qed

lemma simple_task_sound:
  assumes "sound w" and "context_ok cx" and "env_ok E" and "plain_type event_type"
    and "simple_task S E cx permission scope event_type tid payload w = Inr (w', r)"
  shows "sound w'"
proof -
  obtain st p where ld: "load_task S (cx_workspace_id cx) (wd_store w) tid = Inr st"
    and tr: "transition S E cx scope st event_type payload w = Inr p" and r: "cmd_result tid p = Inr (w', r)"
    using assms(5) by (auto simp: simple_task_def bind_res_eq_Inr)
  obtain w1 res st1 where p: "p = (w1, res, st1)" by (cases p)
  have "sound w1"
    using transition_sound [OF assms(1-3) _ assms(4) tr [unfolded p]] load_task_loaded [OF assms(1,2) ld] by blast
  then show ?thesis using r p by (simp add: cmd_result_def)
qed

text \<open>
  The handlers that prepare, make one transition and then notify other components share a shape.
\<close>

lemma transition_then_sound:
  assumes "sound w" and "context_ok cx" and "env_ok E" and "plain_type event_type" and "loaded cx w st"
    and tr: "transition S E cx scope st event_type payload w = Inr (w1, res, st1)"
    and post: "(if res_replayed res then Inr w1 else h w1) = Inr w2"
    and h: "\<And>u u'. sound u \<Longrightarrow> h u = Inr u' \<Longrightarrow> sound u'"
  shows "sound w2"
proof -
  have "sound w1" by (rule transition_sound [OF assms(1-3,5,4) tr])
  then show ?thesis using post h by (auto split: if_splits)
qed

lemma assigned_sound:
  assumes "env_ok E" and "sound u"
    and "te_after_assignment E st i r (record_assignment cx st' reason resume j u) = Inr u'"
  shows "sound u'"
proof (rule env_hooks_sound(2) [OF assms(1) _ assms(3)])
  show "sound (record_assignment cx st' reason resume j u)"
    by (rule sound_same_store [OF assms(2)]) (simp add: record_assignment_def)
qed

lemma delegate_task_sound:
  assumes "sound w" and "context_ok cx" and "env_ok E" and "delegate_task S E cx tid a reason w = Inr (w', r)"
  shows "sound w'"
proof -
  obtain st where ld: "load_task S (cx_workspace_id cx) (wd_store w) tid = Inr st"
    using assms(4) by (auto simp: delegate_task_def bind_res_eq_Inr)
  obtain payload w1 res st1 where
    tr: "transition S E cx ''task:delegate'' st ''TASK_DELEGATED'' payload w = Inr (w1, res, st1)"
    and post: "(if res_replayed res then Inr w1 else te_after_assignment E st1 (res_event_id res) None
      (record_assignment cx st1 reason None (res_event_id res) w1)) = Inr w'"
    using assms(4) ld by (auto simp: delegate_task_def bind_res_eq_Inr cmd_result_def)
  show ?thesis
    by (rule transition_then_sound [where h = "\<lambda>u. te_after_assignment E st1 (res_event_id res) None
          (record_assignment cx st1 reason None (res_event_id res) u)",
        OF assms(1-3) _ _ tr post])
      (use load_task_loaded [OF assms(1,2) ld] in simp, use load_task_loaded [OF assms(1,2) ld] in simp,
        erule assigned_sound [OF assms(3)])
qed

lemma reassign_task_sound:
  assumes "sound w" and "context_ok cx" and "env_ok E"
    and "reassign_task S E cx tid a reason resume w = Inr (w', r)"
  shows "sound w'"
proof -
  obtain st where ld: "load_task S (cx_workspace_id cx) (wd_store w) tid = Inr st"
    using assms(4) by (auto simp: reassign_task_def bind_res_eq_Inr)
  obtain payload w1 res st1 where
    tr: "transition S E cx ''task:reassign'' st ''TASK_REASSIGNED'' payload w = Inr (w1, res, st1)"
    and post: "(if res_replayed res then Inr w1 else te_after_assignment E st1 (res_event_id res) resume
      (record_assignment cx st1 reason resume (res_event_id res) w1)) = Inr w'"
    using assms(4) ld by (auto simp: reassign_task_def bind_res_eq_Inr cmd_result_def)
  show ?thesis
    by (rule transition_then_sound [where h = "\<lambda>u. te_after_assignment E st1 (res_event_id res) resume
          (record_assignment cx st1 reason resume (res_event_id res) u)",
        OF assms(1-3) _ _ tr post])
      (use load_task_loaded [OF assms(1,2) ld] in simp, use load_task_loaded [OF assms(1,2) ld] in simp,
        erule assigned_sound [OF assms(3)])
qed

lemma accept_task_sound:
  assumes "sound w" and "context_ok cx" and "env_ok E" and "accept_task S E cx tid w = Inr (w', r)"
  shows "sound w'"
proof -
  obtain st where ld: "load_task S (cx_workspace_id cx) (wd_store w) tid = Inr st"
    using assms(4) by (auto simp: accept_task_def bind_res_eq_Inr)
  obtain payload res st1 where
    tr: "transition S E cx ''task:accept'' st ''TASK_ACCEPTED'' payload w = Inr (w', res, st1)"
    using assms(4) ld by (auto simp: accept_task_def bind_res_eq_Inr cmd_result_def)
  show ?thesis
    using transition_sound [OF assms(1-3) _ _ tr] load_task_loaded [OF assms(1,2) ld] by simp
qed

lemma submit_implementation_sound:
  assumes "sound w" and "context_ok cx" and "env_ok E"
    and "submit_implementation S E cx tid ev n w = Inr (w', r)"
  shows "sound w'"
proof -
  obtain st where ld: "load_task S (cx_workspace_id cx) (wd_store w) tid = Inr st"
    using assms(4) by (auto simp: submit_implementation_def bind_res_eq_Inr)
  obtain payload w1 res st1 where
    tr: "transition S E cx ''task:submit'' st ''IMPLEMENTATION_SUBMITTED'' payload w = Inr (w1, res, st1)"
    and post: "(if res_replayed res then Inr w1 else te_on_submitted E tid w1) = Inr w'"
    using assms(4) ld by (auto simp: submit_implementation_def bind_res_eq_Inr cmd_result_def)
  show ?thesis
    by (rule transition_then_sound [where h = "te_on_submitted E tid",
        OF assms(1-3) _ _ tr post])
      (use load_task_loaded [OF assms(1,2) ld] env_hooks_sound(3) [OF assms(3)] in auto)
qed

lemma complete_task_sound:
  assumes "sound w" and "context_ok cx" and "env_ok E" and "complete_task S E cx tid doc w = Inr (w', r)"
  shows "sound w'"
proof -
  obtain st where ld: "load_task S (cx_workspace_id cx) (wd_store w) tid = Inr st"
    using assms(4) by (auto simp: complete_task_def bind_res_eq_Inr)
  obtain payload w1 res st1 where
    tr: "transition S E cx ''task:complete'' st ''TASK_COMPLETED'' payload w = Inr (w1, res, st1)"
    and post: "(if res_replayed res then Inr w1 else on_child_terminal S E cx st1 w1) = Inr w'"
    using assms(4) ld by (auto simp: complete_task_def bind_res_eq_Inr cmd_result_def)
  show ?thesis
    by (rule transition_then_sound [where h = "on_child_terminal S E cx st1",
        OF assms(1-3) _ _ tr post])
      (use load_task_loaded [OF assms(1,2) ld] on_child_terminal_sound [OF _ assms(2)] in auto)
qed

lemma create_task_sound:
  assumes "sound w" and "context_ok cx" and "env_ok E" and "channel_ok channel"
    and "create_task S E cx title channel dm risk task_id jp crit w = Inr (w', r)"
  shows "sound w'"
proof -
  obtain tid pinned snap w1 res st where
    cr: "create_with S cx ''task:create'' tid ''TASK_CREATED''
         [(''task_id'', JStr tid), (''root_task_id'', JStr tid), (''channel_id'', JStr channel),
          (''title'', JStr title), (''domain'', JStr dm), (''risk'', JStr risk),
          (''join_policy'', JObj jp), (''policy_snapshot_hash'', JStr snap),
          (''criteria'', pinned)] (Some channel) w = Inr (w1, res, st)"
    and post: "(if res_replayed res then Inr w1 else te_persist_criteria E tid (res_event_id res) pinned w1) = Inr w'"
    using assms(5) by (auto simp: create_task_def bind_res_eq_Inr cmd_result_def Let_def split: if_splits)
  have "sound w1"
    by (rule create_with_sound [OF assms(1,2) _ _ _ cr])
      (use assms(4) in \<open>simp_all add: CREATION_EVENTS_def get_str_def\<close>)
  then show ?thesis using post env_hooks_sound(1) [OF assms(3)] by (auto split: if_splits)
qed

lemma create_subtask_sound:
  assumes "sound w" and "context_ok cx" and "env_ok E"
    and "create_subtask S E cx p title dm risk task_id crit w = Inr (w', r)"
  shows "sound w'"
proof -
  obtain parent where ld: "load_task S (cx_workspace_id cx) (wd_store w) p = Inr parent"
    using assms(4) by (auto simp: create_subtask_def bind_res_eq_Inr)
  obtain tid root depth pinned snap w1 res st where
    cr: "create_with S cx ''task:create_subtask'' tid ''SUBTASK_CREATED''
           [(''task_id'', JStr tid), (''parent_task_id'', JStr p),
            (''root_task_id'', JStr root), (''depth'', JInt depth),
            (''channel_id'', jopt (ts_channel_id parent)), (''title'', JStr title),
            (''domain'', JStr dm), (''risk'', JStr risk), (''policy_snapshot_hash'', JStr snap),
            (''criteria'', pinned)] (ts_channel_id parent) w = Inr (w1, res, st)"
    and link: "(if res_replayed res then Inr w1 else bind_res (te_persist_criteria E tid (res_event_id res) pinned w1)
      (link_subtask_edge tid p root depth (res_event_id res))) = Inr w'"
    using assms(4) ld
    by (auto simp: create_subtask_def bind_res_eq_Inr cmd_result_def Let_def split: if_splits)
  from link have post: "wd_store w' = wd_store w1 \<or>
      (\<exists>w2. te_persist_criteria E tid (res_event_id res) pinned w1 = Inr w2 \<and> wd_store w' = wd_store w2)"
    using link_subtask_edge_store by (fastforce simp: bind_res_eq_Inr split: if_splits)
  have ch: "\<forall>c. ts_channel_id parent = Some c \<longrightarrow> channel_ok c"
    using load_task_loaded [OF assms(1,2) ld] by (simp add: loaded_def Let_def)
  have "sound w1"
    by (rule create_with_sound [OF assms(1,2) _ _ ch cr])
      (simp_all add: CREATION_EVENTS_def get_str_def jopt_def split: option.split)
  then show ?thesis
    using post env_hooks_sound(1) [OF assms(3)] sound_same_store by blast
qed

text \<open>What the API schema guarantees of commands: a channel identifier is one, a run is named.\<close>

definition command_ok :: "task_command \<Rightarrow> bool" where
  "command_ok c = (case c of
      CreateTask _ ch _ _ _ _ _ \<Rightarrow> channel_ok ch
    | RecordVerificationResult _ vid _ _ _ _ _ \<Rightarrow> vid \<noteq> []
    | _ \<Rightarrow> True)"

lemma execute_command_sound:
  assumes "sound w" and "context_ok cx" and "env_ok E" and "command_ok c"
    and ex: "execute_command S E cx c w = Inr (w', r)"
  shows "sound w'"
proof -
  have h: "handle_task S E cx c w = Inr (w', r)"
    using ex by (simp add: execute_command_def split: if_splits)
  note simple = simple_task_sound [OF assms(1-3)]
  show ?thesis
  proof (cases c)
    case (CreateTask title ch dm risk tid jp crit)
    with h assms(4) show ?thesis by (intro create_task_sound [OF assms(1-3)]) (auto simp: command_ok_def)
  next
    case (CreateSubtask p title dm risk tid crit)
    with h show ?thesis by (intro create_subtask_sound [OF assms(1-3)]) auto
  next
    case (DelegateTask tid a reason)
    with h show ?thesis by (intro delegate_task_sound [OF assms(1-3)]) auto
  next
    case (ReassignTask tid a reason resume)
    with h show ?thesis by (intro reassign_task_sound [OF assms(1-3)]) auto
  next
    case (AcceptTask tid)
    with h show ?thesis by (intro accept_task_sound [OF assms(1-3)]) auto
  next
    case (SubmitImplementation tid ev n)
    with h show ?thesis by (intro submit_implementation_sound [OF assms(1-3)]) auto
  next
    case (RecordVerificationResult tid vid res n ev fs reason)
    with h assms(4) show ?thesis
      by (intro record_verification_sound [OF assms(1,2), of vid]) (auto simp: command_ok_def)
  next
    case (CompleteTask tid doc)
    with h show ?thesis by (intro complete_task_sound [OF assms(1-3)]) auto
  next
    case (StartTask tid)
    with h show ?thesis by (intro simple) (auto simp: start_task_def)
  next
    case (ReportProgress tid t)
    with h show ?thesis by (intro simple) (auto simp: report_progress_def)
  next
    case (MarkWaiting tid reason)
    with h show ?thesis by (intro simple) (auto simp: mark_waiting_def)
  next
    case (StartVerification tid vid)
    with h show ?thesis by (intro simple) (auto simp: start_verification_def)
  next
    case (RequestCancel tid reason)
    with h show ?thesis by (intro simple) (auto simp: request_cancel_def)
  next
    case (CancelTask tid reason)
    with h show ?thesis by (intro simple) (auto simp: cancel_task_def)
  qed
qed

end

end
