(* ===== verification/Task_Runs.thy ===== *)
theory Task_Runs
  imports Task_Histories
begin

text \<open>
  Runs of Task commands on the two Event stores. The locale \<open>task_store\<close> is interpreted on the
  in-memory store and on the PostgreSQL store; the properties of runs follow from its lemmas.
\<close>

section \<open>Runs\<close>

text \<open>A command that raises leaves the world as it was: its transaction is rolled back.\<close>

definition after_command ::
  "'s store_ops \<Rightarrow> 's task_env \<Rightarrow> command_context \<times> task_command \<Rightarrow> 's task_world \<Rightarrow> 's task_world" where
  "after_command S E c w =
     (case execute_command S E (fst c) (snd c) w of Inl _ \<Rightarrow> w | Inr (w', _) \<Rightarrow> w')"

definition run_commands ::
  "'s store_ops \<Rightarrow> 's task_env \<Rightarrow> (command_context \<times> task_command) list \<Rightarrow> 's task_world \<Rightarrow> 's task_world" where
  "run_commands S E cs w = fold (after_command S E) cs w"

definition empty_world :: "'s \<Rightarrow> 's task_world" where
  "empty_world s = \<lparr>wd_store = s, wd_tasks = (\<lambda>_. None), wd_assignments = [], wd_edges = [],
     wd_joined = (\<lambda>_. None)\<rparr>"

section \<open>The stores\<close>

definition mem_ops :: "prims \<Rightarrow> mem_store store_ops" where
  "mem_ops P = \<lparr>so_append = mem_append P, so_stream = (\<lambda>s ws t a. Inr (mem_stream s ws t a)),
     so_get = (\<lambda>_ _. None)\<rparr>"

definition pg_ops :: "pg_env \<Rightarrow> pg_store store_ops" where
  "pg_ops E = \<lparr>so_append = pg_append E [], so_stream = pg_stream E, so_get = pg_get E\<rparr>"

section \<open>Retries\<close>

lemma fold_constant_sel [simp]:
  "ts_channel_id (touch st e) = ts_channel_id st" "ts_domain (touch st e) = ts_domain st"
  "ts_channel_id (apply_details st e) = ts_channel_id st" "ts_domain (apply_details st e) = ts_domain st"
  "ts_domain (apply_verification_result st e) = ts_domain st"
  by (simp_all add: touch_def apply_details_def apply_verification_result_def Let_def split: option.split)

lemma apply_event_constant:
  assumes "apply_event u e = Inr u'" and "ts_exists u"
    and "ev_type e \<in> set CREATION_EVENTS \<Longrightarrow> ev_aggregate_id e \<noteq> ts_task_id u"
  shows "ts_channel_id u' = ts_channel_id u \<and> ts_domain u' = ts_domain u \<and> ts_exists u' \<and>
    ts_task_id u' = ts_task_id u"
  using assms unfolding apply_event_def by (simp add: bind_res_eq_Inr split: if_splits) auto

definition quiet :: "event \<Rightarrow> bool" where
  "quiet e \<longleftrightarrow> (ev_aggregate_type e = ''task'' \<longrightarrow> ev_type e \<notin> set CREATION_EVENTS)"

lemma task_view_constant:
  assumes "task_view ws tid (L @ es) = Inr st'" and "task_view ws tid L = Inr st" and "ts_exists st"
    and "\<forall>e \<in> set es. quiet e \<and> run_event_ok e"
  shows "ts_channel_id st' = ts_channel_id st \<and> ts_domain st' = ts_domain st"
proof -
  have f: "fold_events (filter (rel_event ws tid) es) st = Inr st'"
    using assms(1,2) by (simp add: task_view_def fold_events_append)
  have tid: "ts_task_id st = tid" using task_view_result(1) [OF assms(2)] .
  let ?Q = "\<lambda>u. ts_channel_id u = ts_channel_id st \<and> ts_domain u = ts_domain st \<and> ts_exists u \<and>
    ts_task_id u = tid"
  have "?Q st'"
  proof (rule fold_events_invariant [where Q = ?Q, OF _ _ f])
    fix e u u'
    assume e: "e \<in> set (filter (rel_event ws tid) es)" and u: "?Q u" "apply_event u e = Inr u'"
    have "ev_type e \<notin> set CREATION_EVENTS"
      using e assms(4) by (auto simp: rel_event_def in_aggregate_def quiet_def run_event_ok_def)
    then show "?Q u'" using apply_event_constant [OF u(2)] u(1) by auto
  qed (use assms(3) tid in simp)
  then show ?thesis by simp
qed

lemma find_appended:
  assumes "List.find Q xs = None" and "Q x"
  shows "List.find Q (xs @ x # ys) = Some x"
  using assms by (induction xs) (auto split: if_splits)

context task_store
begin

lemma replay_from_stream_log:
  assumes "ok s" and "id_ok (cx_workspace_id cx)"
  shows "replay_from_stream S cx s tid scope = Inr (map_option (result_of_event True)
    (List.find (\<lambda>e. ev_idempotency_scope e = scope \<and> ev_idempotency_key e = cx_idempotency_key cx \<and>
       ev_actor_account_id e = cx_account_uuid cx)
      (filter (in_aggregate (cx_workspace_id cx) ''task'' tid) (log s))))"
  using stream_log [OF assms] by (simp add: replay_from_stream_def)

text \<open>A transition that is not a replay records its event, then only other components write.\<close>

lemma transition_recorded:
  assumes w: "sound w" and cx: "context_ok cx" and E: "env_ok E" and st: "loaded cx w st"
    and tr: "transition S E cx scope st event_type payload w = Inr (w1, res, st1)"
    and new: "\<not> res_replayed res"
  shows "\<exists>e es. log (wd_store w1) = log (wd_store w) @ e # es \<and> list_all neutral es \<and>
    event_of (transition_request cx scope st event_type payload) e \<and> res = result_of_event False e \<and>
    replay_from_stream S cx (wd_store w) (ts_task_id st) scope = Inr None"
proof -
  let ?req = "transition_request cx scope st event_type payload"
  obtain replay where rp: "replay_from_stream S cx (wd_store w) (ts_task_id st) scope = Inr replay"
    using tr by (auto simp: transition_def bind_res_eq_Inr)
  have none: "replay = None"
  proof (rule ccontr)
    assume "replay \<noteq> None"
    then obtain r where r: "replay = Some r" by auto
    have "ok (wd_store w)" "id_ok (cx_workspace_id cx)" using w cx by (simp_all add: sound_def context_ok_def)
    from replay_from_stream_log [OF this] rp r have "res_replayed r"
      by (auto simp: result_of_event_def)
    then show False using tr rp r new by (simp add: transition_def)
  qed
  obtain ns s' where ns: "next_status (ts_status st) event_type = Inr ns"
    and app: "so_append S (wd_store w) ?req = Inr (s', res)"
    using tr rp none by (auto simp: transition_def bind_res_eq_Inr Let_def split: if_splits)
  then obtain w2 where h: "(if task_terminal ns then te_terminal_hooks E (ts_task_id st) (w\<lparr>wd_store := s'\<rparr>)
      else Inr (w\<lparr>wd_store := s'\<rparr>)) = Inr w2" "wd_store w1 = wd_store w2"
    using tr rp none new by (auto simp: transition_def Let_def bind_res_eq_Inr)
  have ok: "ok (wd_store w)" using w by (simp add: sound_def)
  have adm: "admits ?req"
    using cx st by (intro admitted) (auto simp: context_ok_def loaded_def Let_def transition_request_def task_request_def)
  obtain e where e: "log s' = log (wd_store w) @ [e]" "event_of ?req e" "res = result_of_event False e"
    using append_new [OF ok adm app new] by blast
  have "foreign (te_terminal_hooks E (ts_task_id st))" using E by (simp add: env_ok_def)
  moreover have "ok s'" using append_ok [OF ok adm app] .
  ultimately have "\<exists>es. log (wd_store w2) = log s' @ es \<and> list_all neutral es"
    using h(1) unfolding foreign_def
    by (cases "task_terminal ns") (use h(1) in \<open>force dest: spec [of _ "w\<lparr>wd_store := s'\<rparr>"]\<close>, auto)
  then show ?thesis using e rp none h(2) by auto
qed

lemma retry_core:
  assumes w: "sound w" and cx: "context_ok cx" and E: "env_ok E" and st: "loaded cx w st"
    and t: "plain_type event_type"
    and tr: "transition S E cx scope st event_type payload w = Inr (w1, res, st1)"
    and new: "\<not> res_replayed res"
    and w2: "sound w2" "log (wd_store w2) = log (wd_store w1) @ fs" "list_all neutral fs"
  shows "\<exists>st2. load_task S (cx_workspace_id cx) (wd_store w2) (ts_task_id st) = Inr st2 \<and>
      ts_channel_id st2 = ts_channel_id st \<and> ts_domain st2 = ts_domain st \<and> ts_task_id st2 = ts_task_id st"
    and "replay_from_stream S cx (wd_store w2) (ts_task_id st) scope = Inr (Some (res\<lparr>res_replayed := True\<rparr>))"
proof -
  let ?ws = "cx_workspace_id cx" and ?tid = "ts_task_id st"
  obtain e es where e: "log (wd_store w1) = log (wd_store w) @ e # es" "list_all neutral es"
      "event_of (transition_request cx scope st event_type payload) e" "res = result_of_event False e"
      "replay_from_stream S cx (wd_store w) ?tid scope = Inr None"
    using transition_recorded [OF w cx E st tr new] by blast
  have L2: "log (wd_store w2) = log (wd_store w) @ e # es @ fs" using e w2 by simp
  have own: "in_aggregate ?ws ''task'' ?tid e" "ev_type e = event_type"
      "ev_idempotency_scope e = scope" "ev_idempotency_key e = cx_idempotency_key cx"
      "ev_actor_account_id e = cx_account_uuid cx"
    using e(3) by (auto simp: event_of_def transition_request_def task_request_def)
  have ids: "ok (wd_store w)" "ok (wd_store w2)" "id_ok ?ws" "task_log_inv channel_ok (log (wd_store w2))"
    using w w2(1) cx by (simp_all add: sound_def context_ok_def)
  obtain st2 where st2: "load_task S ?ws (wd_store w2) ?tid = Inr st2"
      "task_view ?ws ?tid (log (wd_store w2)) = Inr st2"
  proof -
    have "filter (in_aggregate ?ws ''task'' ?tid) (log (wd_store w2)) \<noteq> []" using L2 own by auto
    moreover from this have "\<exists>u. task_view ?ws ?tid (log (wd_store w2)) = Inr u"
      using ids(4) unfolding task_log_inv_def task_ok_def by blast
    ultimately show ?thesis using load_task_view [OF ids(2,4,3), of ?tid] that by auto
  qed
  have "\<forall>x \<in> set (e # es @ fs). quiet x \<and> run_event_ok x"
  proof
    fix x
    assume x: "x \<in> set (e # es @ fs)"
    then have "run_event_ok x" using ids(4) L2 by (auto simp: task_log_inv_def)
    moreover have "quiet x"
      using x own(2) t e(2) w2(3) by (auto simp: quiet_def list_all_iff neutral_def plain_type_def)
    ultimately show "quiet x \<and> run_event_ok x" by simp
  qed
  then have "ts_channel_id st2 = ts_channel_id st \<and> ts_domain st2 = ts_domain st"
    using task_view_constant [of ?ws ?tid "log (wd_store w)" "e # es @ fs" st2 st] st2(2) L2 st
    by (simp add: loaded_def Let_def)
  then show "\<exists>st2. load_task S ?ws (wd_store w2) ?tid = Inr st2 \<and>
      ts_channel_id st2 = ts_channel_id st \<and> ts_domain st2 = ts_domain st \<and> ts_task_id st2 = ?tid"
    using st2 task_view_result(1) by blast
  show "replay_from_stream S cx (wd_store w2) ?tid scope = Inr (Some (res\<lparr>res_replayed := True\<rparr>))"
    using e(5) own by (simp add: replay_from_stream_log [OF ids(1,3)] replay_from_stream_log [OF ids(2,3)]
        L2 find_appended e(4) result_of_event_def)
qed

text \<open>Other components that run after the transition only add their own events.\<close>

lemma foreign_extends:
  assumes "foreign h" and "sound w" and "(if b then Inr w else h x) = Inr w'"
    and "wd_store x = wd_store w"
  shows "sound w' \<and> (\<exists>fs. log (wd_store w') = log (wd_store w) @ fs \<and> list_all neutral fs)"
proof (cases b)
  case True
  then show ?thesis using assms by auto
next
  case False
  then have h: "h x = Inr w'" using assms(3) by simp
  have "sound x" using assms(2,4) by (rule sound_same_store)
  then show ?thesis
    using foreign_sound [OF assms(1) _ h] h assms(1,2,4) unfolding foreign_def sound_def by metis
qed

lemma transition_replayed:
  assumes "replay_from_stream S cx (wd_store w) (ts_task_id st) scope = Inr (Some r)"
  shows "transition S E cx scope st event_type payload w = Inr (w, r, st)"
  using assms by (simp add: transition_def)

definition replays where
  "replays E cx tid scope event_type st res w \<longleftrightarrow>
     (\<exists>st2. load_task S (cx_workspace_id cx) (wd_store w) tid = Inr st2 \<and>
      ts_channel_id st2 = ts_channel_id st \<and> ts_domain st2 = ts_domain st \<and>
      replay_from_stream S cx (wd_store w) tid scope = Inr (Some (res\<lparr>res_replayed := True\<rparr>)) \<and>
      (\<forall>p. transition S E cx scope st2 event_type p w = Inr (w, res\<lparr>res_replayed := True\<rparr>, st2)))"

lemma retry_after_hooks:
  assumes w: "sound w" and cx: "context_ok cx" and E: "env_ok E"
    and ld: "load_task S (cx_workspace_id cx) (wd_store w) tid = Inr st"
    and tr: "transition S E cx scope st event_type payload w = Inr (w1, res, st1)"
    and new: "\<not> res_replayed res"
    and post: "foreign h" "(if b then Inr w1 else h x) = Inr w2" "wd_store x = wd_store w1"
    and t: "plain_type event_type"
  shows "replays E cx tid scope event_type st res w2"
proof -
  have st: "loaded cx w st" "ts_task_id st = tid" using load_task_loaded [OF w cx ld] by auto
  have w1: "sound w1" by (rule transition_sound [OF w cx E st(1) t tr])
  obtain fs where fs: "sound w2" "log (wd_store w2) = log (wd_store w1) @ fs" "list_all neutral fs"
    using foreign_extends [OF post(1) w1 post(2,3)] by blast
  note core = retry_core [OF w cx E st(1) t tr new fs, unfolded st(2)]
  then show ?thesis using transition_replayed unfolding replays_def by metis
qed

lemma foreign_id: "foreign Inr"
  by (auto simp: foreign_def)

lemma simple_task_retry:
  assumes "sound w" and "context_ok cx" and "env_ok E" and "plain_type event_type"
    and ex: "simple_task S E cx permission scope event_type tid payload w = Inr (w', r)"
    and new: "\<not> cmd_replayed r"
  shows "\<exists>s. simple_task S E cx permission scope event_type tid payload w' =
    Inr (w', r\<lparr>cmd_replayed := True, cmd_status := s\<rparr>)"
proof -
  obtain st res st1 where ld: "load_task S (cx_workspace_id cx) (wd_store w) tid = Inr st"
    and rq: "te_require E permission (ts_channel_id st) (ts_domain st) = Inr ()"
    and tr: "transition S E cx scope st event_type payload w = Inr (w', res, st1)"
    and r: "cmd_result tid (w', res, st1) = Inr (w', r)"
    using ex by (auto simp: simple_task_def bind_res_eq_Inr cmd_result_def)
  have "\<not> res_replayed res" using new r by (auto simp: cmd_result_def)
  from retry_after_hooks [where b = True and x = w' and ?w2.0 = w',
      OF assms(1-3) ld tr this foreign_id _ _ assms(4)]
  show ?thesis using rq r by (auto simp: simple_task_def cmd_result_def replays_def)
qed

lemma accept_task_retry:
  assumes "sound w" and "context_ok cx" and "env_ok E"
    and ex: "accept_task S E cx tid w = Inr (w', r)" and new: "\<not> cmd_replayed r"
  shows "\<exists>s. accept_task S E cx tid w' = Inr (w', r\<lparr>cmd_replayed := True, cmd_status := s\<rparr>)"
proof -
  obtain st payload res st1 where ld: "load_task S (cx_workspace_id cx) (wd_store w) tid = Inr st"
    and rq: "te_require E ''task.accept'' (ts_channel_id st) (ts_domain st) = Inr ()"
    and tr: "transition S E cx ''task:accept'' st ''TASK_ACCEPTED'' payload w = Inr (w', res, st1)"
    and r: "cmd_result tid (w', res, st1) = Inr (w', r)"
    using ex by (auto simp: accept_task_def bind_res_eq_Inr cmd_result_def)
  have "\<not> res_replayed res" using new r by (auto simp: cmd_result_def)
  from retry_after_hooks [where b = True and x = w' and ?w2.0 = w',
      OF assms(1-3) ld tr this foreign_id]
  show ?thesis using rq r by (auto simp: accept_task_def cmd_result_def replays_def)
qed

lemma delegate_task_retry:
  assumes "sound w" and "context_ok cx" and "env_ok E"
    and ex: "delegate_task S E cx tid a reason w = Inr (w', r)" and new: "\<not> cmd_replayed r"
  shows "\<exists>s. delegate_task S E cx tid a reason w' = Inr (w', r\<lparr>cmd_replayed := True, cmd_status := s\<rparr>)"
proof -
  obtain st where ld: "load_task S (cx_workspace_id cx) (wd_store w) tid = Inr st"
    and rq: "te_require E ''task.delegate'' (ts_channel_id st) (ts_domain st) = Inr ()"
    using ex by (auto simp: delegate_task_def bind_res_eq_Inr)
  obtain acct snap payload w1 res st1 where ok: "account_uuid E a = Inr acct" "policy_snapshot_hash E cx = Inr snap"
    and tr: "transition S E cx ''task:delegate'' st ''TASK_DELEGATED'' payload w = Inr (w1, res, st1)"
    and post: "(if res_replayed res then Inr w1 else te_after_assignment E st1 (res_event_id res) None
      (record_assignment cx st1 reason None (res_event_id res) w1)) = Inr w'"
    and r: "cmd_result tid (w', res, st1) = Inr (w', r)"
    using ex ld by (auto simp: delegate_task_def bind_res_eq_Inr cmd_result_def)
  have nr: "\<not> res_replayed res" using new r by (auto simp: cmd_result_def)
  have "foreign (te_after_assignment E st1 (res_event_id res) None)"
    using assms(3) by (simp add: env_ok_def)
  from retry_after_hooks [OF assms(1-3) ld tr nr this post]
  have "replays E cx tid ''task:delegate'' ''TASK_DELEGATED'' st res w'"
    by (simp add: record_assignment_def)
  then show ?thesis using rq r ok by (auto simp: delegate_task_def cmd_result_def replays_def)
qed

lemma reassign_task_retry:
  assumes "sound w" and "context_ok cx" and "env_ok E"
    and ex: "reassign_task S E cx tid a reason resume w = Inr (w', r)" and new: "\<not> cmd_replayed r"
    and snap: "policy_snapshot_hash E cx = Inr snap"
  shows "\<exists>s. reassign_task S E cx tid a reason resume w' = Inr (w', r\<lparr>cmd_replayed := True, cmd_status := s\<rparr>)"
proof -
  obtain st where ld: "load_task S (cx_workspace_id cx) (wd_store w) tid = Inr st"
    and rq: "te_require E ''task.reassign'' (ts_channel_id st) (ts_domain st) = Inr ()"
    using ex by (auto simp: reassign_task_def bind_res_eq_Inr)
  obtain acct payload w1 res st1 where ok: "account_uuid E a = Inr acct"
    and tr: "transition S E cx ''task:reassign'' st ''TASK_REASSIGNED'' payload w = Inr (w1, res, st1)"
    and post: "(if res_replayed res then Inr w1 else te_after_assignment E st1 (res_event_id res) resume
      (record_assignment cx st1 reason resume (res_event_id res) w1)) = Inr w'"
    and r: "cmd_result tid (w', res, st1) = Inr (w', r)"
    using ex ld by (auto simp: reassign_task_def bind_res_eq_Inr cmd_result_def)
  have nr: "\<not> res_replayed res" using new r by (auto simp: cmd_result_def)
  have "foreign (te_after_assignment E st1 (res_event_id res) resume)"
    using assms(3) by (simp add: env_ok_def)
  from retry_after_hooks [OF assms(1-3) ld tr nr this post]
  have "replays E cx tid ''task:reassign'' ''TASK_REASSIGNED'' st res w'"
    by (simp add: record_assignment_def)
  then show ?thesis using rq r ok snap
    by (auto simp: reassign_task_def cmd_result_def replays_def split: option.split)
qed

lemma submit_implementation_retry:
  assumes "sound w" and "context_ok cx" and "env_ok E"
    and ex: "submit_implementation S E cx tid ev n w = Inr (w', r)" and new: "\<not> cmd_replayed r"
  shows "\<exists>s. submit_implementation S E cx tid ev n w' = Inr (w', r\<lparr>cmd_replayed := True, cmd_status := s\<rparr>)"
proof -
  obtain st where ld: "load_task S (cx_workspace_id cx) (wd_store w) tid = Inr st"
    and rq: "te_require E ''task.submit'' (ts_channel_id st) (ts_domain st) = Inr ()"
    using ex by (auto simp: submit_implementation_def bind_res_eq_Inr)
  obtain payload w1 res st1 where
    tr: "transition S E cx ''task:submit'' st ''IMPLEMENTATION_SUBMITTED'' payload w = Inr (w1, res, st1)"
    and post: "(if res_replayed res then Inr w1 else te_on_submitted E tid w1) = Inr w'"
    and r: "cmd_result tid (w', res, st1) = Inr (w', r)"
    using ex ld by (auto simp: submit_implementation_def bind_res_eq_Inr cmd_result_def)
  have nr: "\<not> res_replayed res" using new r by (auto simp: cmd_result_def)
  have "foreign (te_on_submitted E tid)" using assms(3) by (simp add: env_ok_def)
  from retry_after_hooks [OF assms(1-3) ld tr nr this post]
  show ?thesis using rq r by (auto simp: submit_implementation_def cmd_result_def replays_def)
qed

end

text \<open>The commands whose only Event is a transition of the Task they name.\<close>

fun transition_command :: "task_command \<Rightarrow> bool" where
  "transition_command (CreateTask _ _ _ _ _ _ _) = False"
| "transition_command (CreateSubtask _ _ _ _ _ _) = False"
| "transition_command (RecordVerificationResult _ _ _ _ _ _ _) = False"
| "transition_command (CompleteTask _ _) = False"
| "transition_command _ = True"

context task_store
begin

lemma execute_command_retry:
  assumes "sound w" and "context_ok cx" and "env_ok E" and "transition_command c"
    and ex: "execute_command S E cx c w = Inr (w', r)" and new: "\<not> cmd_replayed r"
    and snap: "policy_snapshot_hash E cx = Inr snap"
  shows "\<exists>s. execute_command S E cx c w' = Inr (w', r\<lparr>cmd_replayed := True, cmd_status := s\<rparr>)"
proof -
  have key: "cx_idempotency_key cx \<noteq> []" and h: "handle_task S E cx c w = Inr (w', r)"
    using ex by (auto simp: execute_command_def split: if_splits)
  note hs = assms(1-3)
  have "\<exists>s. handle_task S E cx c w' = Inr (w', r\<lparr>cmd_replayed := True, cmd_status := s\<rparr>)"
  proof (cases c)
    case (DelegateTask tid a reason)
    with h new show ?thesis using delegate_task_retry [OF hs] by simp
  next
    case (ReassignTask tid a reason resume)
    with h new snap show ?thesis using reassign_task_retry [OF hs] by simp
  next
    case (AcceptTask tid)
    with h new show ?thesis using accept_task_retry [OF hs] by simp
  next
    case (SubmitImplementation tid ev n)
    with h new show ?thesis using submit_implementation_retry [OF hs] by simp
  next
    case (StartTask tid)
    with h new show ?thesis using simple_task_retry [OF hs] by (simp add: start_task_def)
  next
    case (ReportProgress tid t)
    with h new show ?thesis using simple_task_retry [OF hs] by (simp add: report_progress_def)
  next
    case (MarkWaiting tid reason)
    with h new show ?thesis using simple_task_retry [OF hs] by (simp add: mark_waiting_def)
  next
    case (StartVerification tid vid)
    with h new show ?thesis using simple_task_retry [OF hs] by (simp add: start_verification_def)
  next
    case (RequestCancel tid reason)
    with h new show ?thesis using simple_task_retry [OF hs] by (simp add: request_cancel_def)
  next
    case (CancelTask tid reason)
    with h new show ?thesis using simple_task_retry [OF hs] by (simp add: cancel_task_def)
  qed (use assms(4) in simp_all)
  then show ?thesis using key by (simp add: execute_command_def)
qed

text \<open>Runs.\<close>

lemma run_commands_sound:
  assumes "sound w" and "env_ok E" and "list_all (\<lambda>(cx, c). context_ok cx \<and> command_ok c) cs"
  shows "sound (run_commands S E cs w)"
proof -
  have step: "sound (after_command S E (cx, c) u)" if "sound u" "context_ok cx" "command_ok c" for cx c u
    using execute_command_sound [OF that(1,2) assms(2) that(3)] that(1)
    by (auto simp: after_command_def split: sum.split)
  show ?thesis
    unfolding run_commands_def using assms(1,3)
    by (induction cs arbitrary: w) (auto intro: step)
qed

lemma sound_loads:
  assumes "sound w" and "id_ok ws"
  shows "if filter (in_aggregate ws ''task'' tid) (log (wd_store w)) = []
     then load_task S ws (wd_store w) tid = Inl ''TASK_NOT_FOUND''
     else (\<exists>st. load_task S ws (wd_store w) tid = Inr st \<and> ts_exists st \<and> ts_task_id st = tid \<and>
       ts_last_aggregate_seq st = int (length (filter (in_aggregate ws ''task'' tid) (log (wd_store w)))) \<and>
       (ts_status st = COMPLETED \<longrightarrow>
          subseq lifecycle (map milestone (filter (concerns tid) (log (wd_store w))))))"
proof -
  have w: "ok (wd_store w)" "task_log_inv channel_ok (log (wd_store w))"
    using assms(1) by (simp_all add: sound_def)
  show ?thesis
  proof (cases "filter (in_aggregate ws ''task'' tid) (log (wd_store w)) = []")
    case True
    then show ?thesis using load_task_view [OF w assms(2), of tid] by simp
  next
    case False
    then obtain st where st: "task_view ws tid (log (wd_store w)) = Inr st"
      using w(2) unfolding task_log_inv_def task_ok_def by blast
    then have ld: "load_task S ws (wd_store w) tid = Inr st"
      using load_task_view [OF w assms(2), of tid] False by simp
    note facts = load_task_sound [OF assms ld]
    have f: "fold_events (filter (rel_event ws tid) (log (wd_store w))) (initial_task tid) = Inr st"
      using st by (simp add: task_view_def)
    have "subseq (map milestone (filter (concerns tid) (filter (rel_event ws tid) (log (wd_store w)))))
        (map milestone (filter (concerns tid) (log (wd_store w))))"
      by (intro subseq_map) (simp add: filter_filter conj_commute subseq_filter flip: filter_filter)
    then have "ts_status st = COMPLETED \<longrightarrow>
        subseq lifecycle (map milestone (filter (concerns tid) (log (wd_store w))))"
      using status_milestones [OF f] facts by (auto simp: lifecycle_def intro: subseq_order.trans)
    then show ?thesis using False ld facts by auto
  qed
qed

end

section \<open>Both stores provide the interface\<close>

interpretation mem_tasks: task_store P "mem_ops P" ms_events
    "\<lambda>s. store_inv P s \<and> inj (uuid_hex P)" "\<lambda>_. True" "\<lambda>_. True" "\<lambda>_. True"
  for P
proof (rule task_store.intro)
  show "event_log P (so_append (mem_ops P)) ms_events (\<lambda>s. store_inv P s \<and> inj (uuid_hex P)) (\<lambda>_. True)"
    using mem.event_log_axioms by (simp add: mem_ops_def)
  show "task_store_axioms (mem_ops P) ms_events (\<lambda>s. store_inv P s \<and> inj (uuid_hex P)) (\<lambda>_. True)
      (\<lambda>_. True) (\<lambda>_. True)"
    by (rule task_store_axioms.intro) (simp_all add: mem_ops_def mem_stream_def)
qed

interpretation pg_tasks: task_store "pe_prims D" "pg_ops D" "pg_log D" "pg_ok D" "pg_admits D"
    "\<lambda>x. pe_uuid D x = Some x" "\<lambda>c. c \<noteq> [] \<and> pe_uuid D c = Some c"
  for D
proof (rule task_store.intro)
  show "event_log (pe_prims D) (so_append (pg_ops D)) (pg_log D) (pg_ok D) (pg_admits D)"
    using pg.event_log_axioms by (simp add: pg_ops_def)
  show "task_store_axioms (pg_ops D) (pg_log D) (pg_ok D) (pg_admits D) (\<lambda>x. pe_uuid D x = Some x)
      (\<lambda>c. c \<noteq> [] \<and> pe_uuid D c = Some c)"
    by (rule task_store_axioms.intro)
      (auto simp: pg_ops_def pg_ok_def pg_admits_def intro: pg_stream_log)
qed

text \<open>
  What the components a handler calls may do to the Event store: append Events of their own
  aggregates. The contexts and commands the API builds carry canonical identifiers.
\<close>

definition appends_only :: "('s \<Rightarrow> event list) \<Rightarrow> ('s \<Rightarrow> bool) \<Rightarrow> ('s task_world \<Rightarrow> 's task_world res) \<Rightarrow> bool" where
  "appends_only log ok h \<longleftrightarrow> (\<forall>w w'. ok (wd_store w) \<longrightarrow> h w = Inr w' \<longrightarrow> ok (wd_store w') \<and>
     (\<exists>es. log (wd_store w') = log (wd_store w) @ es \<and> list_all neutral es))"

definition hooks_append_only :: "('s \<Rightarrow> event list) \<Rightarrow> ('s \<Rightarrow> bool) \<Rightarrow> 's task_env \<Rightarrow> bool" where
  "hooks_append_only log ok E \<longleftrightarrow> (\<forall>t i c. appends_only log ok (te_persist_criteria E t i c)) \<and>
     (\<forall>st i r. appends_only log ok (te_after_assignment E st i r)) \<and>
     (\<forall>t. appends_only log ok (te_on_submitted E t)) \<and> (\<forall>t. appends_only log ok (te_terminal_hooks E t))"

definition names_run :: "task_command \<Rightarrow> bool" where
  "names_run c = (case c of RecordVerificationResult _ vid _ _ _ _ _ \<Rightarrow> vid \<noteq> [] | _ \<Rightarrow> True)"

definition canonical_ids :: "pg_env \<Rightarrow> command_context \<Rightarrow> task_command \<Rightarrow> bool" where
  "canonical_ids D cx c \<longleftrightarrow> pe_uuid D (cx_workspace_id cx) = Some (cx_workspace_id cx) \<and>
     pe_uuid D (cx_account_uuid cx) = Some (cx_account_uuid cx) \<and> names_run c \<and>
     (case c of CreateTask _ ch _ _ _ _ _ \<Rightarrow> ch \<noteq> [] \<and> pe_uuid D ch = Some ch | _ \<Rightarrow> True)"

lemma pg_hooks: "hooks_append_only (pg_log D) (pg_ok D) E \<Longrightarrow> pg_tasks.env_ok D E"
  unfolding hooks_append_only_def appends_only_def pg_tasks.env_ok_def pg_tasks.foreign_def .

lemma pg_command: "canonical_ids D cx c \<Longrightarrow> pg_tasks.context_ok D cx \<and> pg_tasks.command_ok D c"
  unfolding canonical_ids_def names_run_def pg_tasks.context_ok_def pg_tasks.command_ok_def
  by (cases c) simp_all

lemma mem_hooks:
  "hooks_append_only ms_events (\<lambda>s. store_inv P s \<and> inj (uuid_hex P)) E \<Longrightarrow> mem_tasks.env_ok P E"
  unfolding hooks_append_only_def appends_only_def mem_tasks.env_ok_def mem_tasks.foreign_def .

lemma mem_command: "names_run c \<Longrightarrow> mem_tasks.context_ok cx \<and> mem_tasks.command_ok c"
  unfolding names_run_def mem_tasks.context_ok_def mem_tasks.command_ok_def by (cases c) simp_all

lemma task_log_inv_Nil [simp]: "task_log_inv ch []"
  by (simp add: task_log_inv_def task_ok_def)

section \<open>Properties\<close>




section \<open>Witnesses\<close>

text \<open>A constant hash makes the steps of a run easy to compute.\<close>

definition flat_prims :: prims where
  "flat_prims = toy_prims\<lparr>sha256 := (\<lambda>_. ''h'')\<rparr>"

lemma flat_body_hash:
  assumes "printable (map_jval codes (JObj (ar_payload r)))" and "ar_sensitive r = None"
  shows "request_body_hash flat_prims r = Inr ''h''"
  using request_body_hash_total [OF assms, of flat_prims]
  by (auto simp: request_body_hash_def bind_res_eq_Inr sha256_hex_def flat_prims_def)

lemma flat_content_hash:
  assumes "printable (map_jval codes (JObj (ev_payload e)))" and "ev_sensitive_payload_ciphertext e = None"
  shows "compute_content_hash flat_prims e = Inr ''h''"
  using compute_content_hash_total [of e flat_prims] assms
  by (auto simp: compute_content_hash_def bind_res_eq_Inr sha256_hex_def flat_prims_def)

lemma flat_append:
  assumes "printable (map_jval codes (JObj (ar_payload r)))" and "ar_sensitive r = None"
    and "ms_idem s (idem_key_of r) = None"
    and "last_in s (ar_workspace_id r) (ar_aggregate_type r) (ar_aggregate_id r) = lst"
    and "n = (case lst of None \<Rightarrow> 1 | Some e \<Rightarrow> ev_aggregate_seq e + 1)" and "ar_expected_seq r = Some n"
    and "ar_caused_by r = None \<or> list_ex (\<lambda>e. Some (ev_event_id e) = ar_caused_by r) (ms_events s)"
    and "e = (draft_event r (''evt-'' @ nat_str (ms_drawn s)) n (map_option ev_content_hash lst)
      (ms_now s))\<lparr>ev_content_hash := ''h'', ev_recorded_seq := int (length (ms_events s)) + 1\<rparr>"
  shows "mem_append flat_prims s r = Inr (s\<lparr>ms_events := ms_events s @ [e],
      ms_idem := (ms_idem s)(idem_key_of r \<mapsto> (''h'', ev_event_id e)), ms_drawn := ms_drawn s + 1\<rparr>,
    result_of_event False e)"
proof -
  have "compute_content_hash flat_prims (draft_event r (''evt-'' @ nat_str (ms_drawn s)) n
      (map_option ev_content_hash lst) (ms_now s)) = Inr ''h''"
    using assms(1) by (intro flat_content_hash) (simp_all add: draft_event_def)
  moreover have "uuid_hex flat_prims = nat_str" by (simp add: flat_prims_def toy_prims_def)
  ultimately show ?thesis
    using assms flat_body_hash [OF assms(1,2)] by (auto simp: mem_append_def Let_def)
qed

definition open_env :: "'s task_env" where
  "open_env = \<lparr>te_prims = flat_prims, te_require = (\<lambda>_ _ _. Inr ()), te_account_uuid = Some,
     te_pre_delegate = [], te_pre_submit = [], te_completion = [], te_document_gate = False,
     te_expected_document = (\<lambda>_ _. None), te_agent_limits = (\<lambda>_ _. Inr ()),
     te_channel_template = (\<lambda>_ _. None),
     te_prepare_criteria = (\<lambda>_ c. Inr c), te_persist_criteria = (\<lambda>_ _ _ w. Inr w),
     te_after_assignment = (\<lambda>_ _ _ w. Inr w), te_on_submitted = (\<lambda>_ w. Inr w),
     te_terminal_hooks = (\<lambda>_ w. Inr w)\<rparr>"

definition at_key :: "string \<Rightarrow> command_context" where
  "at_key k = \<lparr>cx_workspace_id = ''ws'', cx_account_uuid = ''acct'', cx_correlation_id = ''c'',
     cx_idempotency_key = k, cx_now = ''now'', cx_policy_snapshot = []\<rparr>"

lemma open_env_sel [simp]:
  "te_prims open_env = flat_prims" "te_require open_env p c d = Inr ()" "te_prepare_criteria open_env t v = Inr v"
  "te_persist_criteria open_env t i v w = Inr w" "te_terminal_hooks open_env t w = Inr w"
  by (simp_all add: open_env_def)

lemma at_key_sel [simp]:
  "cx_workspace_id (at_key k) = ''ws''" "cx_account_uuid (at_key k) = ''acct''"
  "cx_idempotency_key (at_key k) = k" "cx_now (at_key k) = ''now''"
  by (simp_all add: at_key_def)

lemma mem_ops_sel [simp]:
  "so_append (mem_ops P) = mem_append P" "so_stream (mem_ops P) s ws t a = Inr (mem_stream s ws t a)"
  "so_get (mem_ops P) s i = None"
  by (simp_all add: mem_ops_def)

definition sample_create :: "command_context \<times> task_command" where
  "sample_create = (at_key ''1'', CreateTask ''T'' ''ch'' ''dev'' ''LOW'' (Some ''t'') [] JNull)"

definition created_event :: event where
  "created_event = (draft_event ((task_request (at_key ''1'') ''task'' ''t'' ''t'' ''task:create''
      [(''task_id'', JStr ''t''), (''root_task_id'', JStr ''t''), (''channel_id'', JStr ''ch''),
       (''title'', JStr ''T''), (''domain'', JStr ''dev''), (''risk'', JStr ''LOW''),
       (''join_policy'', JObj []), (''policy_snapshot_hash'', JStr ''h''),
       (''criteria'', JNull)] (Some ''ch'') None 1)\<lparr>ar_type := ''TASK_CREATED''\<rparr>)
     (''evt-'' @ nat_str 0) 1 None ''now'')\<lparr>ev_content_hash := ''h'', ev_recorded_seq := 1\<rparr>"

lemma open_env_hooks: "hooks_append_only log ok open_env"
  by (auto simp: hooks_append_only_def appends_only_def open_env_def)

lemma flat_snapshot: "policy_snapshot_hash open_env (at_key k) = Inr ''h''"
proof -
  obtain b where "canonical_bytes (JObj []) = Inr b"
    using canonical_bytes_total [of "JObj []"] by auto
  then show ?thesis
    by (simp add: policy_snapshot_hash_def at_key_def open_env_def flat_prims_def sha256_hex_def)
qed

lemma created_runs:
  "\<exists>w r. execute_command (mem_ops flat_prims) open_env (fst sample_create) (snd sample_create)
     (empty_world (empty_store ''now'')) = Inr (w, r) \<and> ms_events (wd_store w) = [created_event] \<and>
     ms_idem (wd_store w) (''ws'', ''acct'', ''task:cancel'', ''2'') = None \<and>
     ms_drawn (wd_store w) = 1"
proof -
  let ?r = "(task_request (at_key ''1'') ''task'' ''t'' ''t'' ''task:create''
      [(''task_id'', JStr ''t''), (''root_task_id'', JStr ''t''), (''channel_id'', JStr ''ch''),
       (''title'', JStr ''T''), (''domain'', JStr ''dev''), (''risk'', JStr ''LOW''),
       (''join_policy'', JObj []), (''policy_snapshot_hash'', JStr ''h''),
       (''criteria'', JNull)] (Some ''ch'') None 1)\<lparr>ar_type := ''TASK_CREATED''\<rparr>"
  let ?s = "empty_store ''now''"
  let ?s' = "?s\<lparr>ms_events := [created_event],
    ms_idem := (ms_idem ?s)(idem_key_of ?r \<mapsto> (''h'', ev_event_id created_event)), ms_drawn := 1\<rparr>"
  have app: "mem_append flat_prims ?s ?r = Inr (?s', result_of_event False created_event)"
    using flat_append [of ?r ?s None 1 created_event]
    by (simp add: task_request_def at_key_def empty_store_def last_in_def created_event_def)
  have str: "mem_stream ?s' ''ws'' ''task'' ''t'' = [created_event]"
    by (simp add: mem_stream_def in_aggregate_def created_event_def draft_event_def task_request_def at_key_def)
  have ty: "ev_type created_event = ''TASK_CREATED''"
    by (simp add: created_event_def draft_event_def)
  obtain st where st: "fold_task ''t'' [created_event] = Inr st"
    by (simp add: created_event_def draft_event_def task_request_def at_key_def task_eval)
  have ld: "load_task (mem_ops flat_prims) ''ws'' ?s' ''t'' = Inr st"
    using str st ty by (simp add: load_task_def mem_ops_def started_verifications_def List.map_filter_simps)
  have sp: "\<not> list_all is_space ''T''" by (simp add: is_space_def)
  have "idem_key_of ?r = (''ws'', ''acct'', ''task:create'', ''1'')"
    by (simp add: idem_key_of_def task_request_def at_key_def)
  then show ?thesis
    using app ld sp
    by (simp add: sample_create_def execute_command_def create_task_def create_with_def flat_snapshot
        or_none_def truthy_def cmd_result_def Let_def empty_world_def result_of_event_def
        write_state_def empty_store_def)
qed

lemma cancel_runs:
  assumes "ms_events (wd_store w) = [created_event]" and "ms_drawn (wd_store w) = 1"
    and "ms_idem (wd_store w) (''ws'', ''acct'', ''task:cancel'', ''2'') = None"
  shows "\<exists>w' r. execute_command (mem_ops flat_prims) open_env (at_key ''2'') (CancelTask ''t'' ''r'') w =
    Inr (w', r) \<and> \<not> cmd_replayed r \<and> cmd_status r = CANCELLED"
proof -
  have str: "mem_stream (wd_store w) ''ws'' ''task'' ''t'' = [created_event]"
    "last_in (wd_store w) ''ws'' ''task'' ''t'' = Some created_event"
    using assms(1)
    by (simp_all add: mem_stream_def last_in_def in_aggregate_def created_event_def draft_event_def task_request_def)
  obtain st where st: "fold_task ''t'' [created_event] = Inr st" and f: "ts_task_id st = ''t''" "ts_status st = OPEN"
    "ts_channel_id st = Some ''ch''" "ts_last_aggregate_seq st = 1" "ts_last_event_id st = Some (''evt-'' @ nat_str 0)"
    "ts_exists st"
    by (simp add: created_event_def draft_event_def task_request_def at_key_def task_eval)
  have cr: "ev_type created_event = ''TASK_CREATED''" "ev_idempotency_scope created_event = ''task:create''"
    "ev_aggregate_seq created_event = 1" "ev_content_hash created_event = ''h''"
    "ev_event_id created_event = ''evt-'' @ nat_str 0"
    by (simp_all add: created_event_def draft_event_def task_request_def)
  have ld: "load_task (mem_ops flat_prims) ''ws'' (wd_store w) ''t'' = Inr st"
    using str st cr by (simp add: load_task_def started_verifications_def List.map_filter_simps)
  let ?r = "transition_request (at_key ''2'') ''task:cancel'' st ''TASK_CANCELLED''
    [(''reason_code'', JStr ''r'')]"
  let ?p = "[(''task_id'', JStr ''t''), (''reason_code'', JStr ''r'')]"
  have req: "ar_payload ?r = ?p" "ar_sensitive ?r = None"
    "idem_key_of ?r = (''ws'', ''acct'', ''task:cancel'', ''2'')" "ar_workspace_id ?r = ''ws''"
    "ar_aggregate_type ?r = ''task''" "ar_aggregate_id ?r = ''t''" "ar_expected_seq ?r = Some 2"
    "ar_caused_by ?r = Some (''evt-'' @ nat_str 0)" "ar_type ?r = ''TASK_CANCELLED''"
    using f by (simp_all add: transition_request_def task_request_def idem_key_of_def)
  have "\<exists>s' e. mem_append flat_prims (wd_store w) ?r = Inr (s', result_of_event False e)"
    by (intro exI, rule flat_append [where lst = "Some created_event" and n = 2, OF _ _ _ _ _ _ _ refl])
      (use str cr assms req in \<open>simp_all\<close>)
  then obtain s' e where app: "mem_append flat_prims (wd_store w) ?r = Inr (s', result_of_event False e)"
    by blast
  have ns: "next_status OPEN ''TASK_CANCELLED'' = Inr CANCELLED"
    by (simp add: next_status_def TRANSITIONS_def task_terminal_def)
  have rp: "replay_from_stream (mem_ops flat_prims) (at_key ''2'') (wd_store w) ''t'' ''task:cancel'' = Inr None"
    using str cr by (simp add: replay_from_stream_def)
  let ?e = "appended_event (mem_ops flat_prims) s' ?r (result_of_event False e) ''now''"
  have "plain_type (ev_type ?e) \<and> in_aggregate ''ws'' ''task'' (ts_task_id st) ?e \<and>
      ev_type ?e = ''TASK_CANCELLED''"
    using req f by (simp add: appended_event_def draft_event_def in_aggregate_def)
  then obtain st' where "apply_event st ?e = Inr st'"
    using apply_plain_event [of st ?e "''ws''" CANCELLED] ns f by auto
  then have "transition (mem_ops flat_prims) open_env (at_key ''2'') ''task:cancel'' st
      ''TASK_CANCELLED'' [(''reason_code'', JStr ''r'')] w =
      Inr (write_state (st'\<lparr>ts_status := CANCELLED\<rparr>) (ev_occurred_at ?e) (w\<lparr>wd_store := s'\<rparr>),
        result_of_event False e, st'\<lparr>ts_status := CANCELLED\<rparr>)"
    using rp ns f app by (simp add: transition_def Let_def task_terminal_def result_of_event_def)
  then show ?thesis
    using ld by (simp add: execute_command_def cancel_task_def simple_task_def cmd_result_def
        result_of_event_def)
qed



end
