(* ===== verification/Orchestration.thy ===== *)
theory Orchestration
  imports Task_Runs
begin

text \<open>
  The Task graph as the handlers keep it in \<^verbatim>\<open>task_edges\<close>: the insert trigger keeps the table
  acyclic, the bounded query loop \<^verbatim>\<open>ancestors_of\<close> of
  \<^verbatim>\<open>src/server/application/orchestration.py\<close> computes what \<^verbatim>\<open>GraphSnapshot.ancestors\<close> of
  \<^verbatim>\<open>src/server/tasks/graph.py\<close> specifies, and admission enforces the channel's limits.
\<close>

section \<open>Chains of parents\<close>

definition edge_graph :: "edge_row list \<Rightarrow> graph_snapshot" where
  "edge_graph es = \<lparr>gs_children = [], gs_parent = edge_parents es\<rparr>"

lemma edge_graph_parent [simp]: "gs_parent (edge_graph es) = edge_parents es"
  by (simp add: edge_graph_def)

primrec chain_within :: "(string \<times> string) list \<Rightarrow> nat \<Rightarrow> string \<Rightarrow> bool" where
  "chain_within parent 0 c = (map_of parent c = None)"
| "chain_within parent (Suc n) c =
     (case map_of parent c of None \<Rightarrow> True | Some p \<Rightarrow> chain_within parent n p)"

lemma chain_within_mono: "chain_within parent n c \<Longrightarrow> n \<le> m \<Longrightarrow> chain_within parent m c"
proof (induction m arbitrary: n c)
  case (Suc m)
  then show ?case by (cases n) (auto split: option.splits)
qed simp

text \<open>The query loop and the reference walk take the same turns while there is room.\<close>

lemma climb_edges_walk_up:
  assumes "chain_within parent n c" and "n \<le> room"
  shows "climb_edges parent room c out = walk_up parent (map_of parent c) out"
  using assms
proof (induction room arbitrary: n c out)
  case 0
  then show ?case by (simp add: walk_up.simps [of _ None])
next
  case (Suc room)
  show ?case
  proof (cases "map_of parent c")
    case None
    then show ?thesis by (simp add: walk_up.simps [of _ None])
  next
    case (Some p)
    with Suc.prems obtain k where "chain_within parent k p" "k \<le> room" by (cases n) auto
    from Suc.IH [OF this] show ?thesis
      using Some by (simp add: walk_up.simps [of _ "Some p"])
  qed
qed

lemma length_climb_edges: "chain_within parent n c \<Longrightarrow> length (climb_edges parent room c out) \<le> n + length out"
proof (induction room arbitrary: n c out)
  case (Suc room)
  show ?case
  proof (cases "map_of parent c")
    case (Some p)
    with Suc.prems obtain k where k: "n = Suc k" "chain_within parent k p" by (cases n) auto
    show ?thesis using Suc.IH [OF k(2), of "out @ [p]"] Some k(1) by simp
  qed simp
qed simp

text \<open>Every chain ends: there is no cycle.\<close>

lemma chain_within_no_loop:
  assumes "chain_within parent n c" and "(c, d) \<in> {(c, p). map_of parent c = Some p}\<^sup>*"
  shows "chain_within parent n d"
  using assms(2)
proof (induction rule: rtrancl_induct)
  case (step d e)
  then show ?case using chain_within_mono [of parent _ e n]
    by (cases n) (auto split: option.splits)
qed (use assms(1) in simp)

lemma chains_acyclic:
  assumes "\<forall>c. \<exists>n. chain_within parent n c"
  shows "acyclic {(c, p). map_of parent c = Some p}" (is "acyclic ?R")
proof -
  have "(c, c) \<notin> ?R\<^sup>+" if "chain_within parent n c" for n c
    using that
  proof (induction n arbitrary: c)
    case 0
    then show ?case by (auto dest: tranclD)
  next
    case (Suc n)
    show ?case
    proof
      assume loop: "(c, c) \<in> ?R\<^sup>+"
      then obtain p where p: "map_of parent c = Some p" "(p, c) \<in> ?R\<^sup>*" by (auto dest: tranclD)
      then have "(p, p) \<in> ?R\<^sup>+" by (auto intro: rtrancl_into_trancl1)
      then show False using Suc p(1) by auto
    qed
  qed
  then show ?thesis using assms unfolding acyclic_def by meson
qed

section \<open>The trigger\<close>

lemma edge_trigger_chain:
  assumes "edge_trigger parent child hops (Some cur) = Inr ()"
  shows "\<exists>n. hops = n + 2 \<and> chain_within parent n cur"
  using assms
proof (induction hops arbitrary: cur)
  case (Suc hops)
  then have h: "hops \<noteq> 0" "edge_trigger parent child hops (map_of parent cur) = Inr ()"
    by (auto split: if_splits)
  show ?case
  proof (cases "map_of parent cur")
    case None
    then have "chain_within parent (hops - 1) cur" by (cases "hops - 1") auto
    then show ?thesis using h(1) by (intro exI [of _ "hops - 1"]) auto
  next
    case (Some p)
    then obtain n where "hops = n + 2" "chain_within parent n p" using Suc.IH h(2) by auto
    then show ?thesis using Some by (intro exI [of _ "Suc n"]) auto
  qed
qed simp

lemma edge_trigger_apart:
  assumes "edge_trigger parent child hops (Some cur) = Inr ()"
    and "(cur, x) \<in> {(c, p). map_of parent c = Some p}\<^sup>*"
  shows "x \<noteq> child"
  using assms
proof (induction hops arbitrary: cur)
  case (Suc hops)
  show ?case
  proof (cases "x = cur")
    case False
    then obtain p where "map_of parent cur = Some p" "(p, x) \<in> {(c, p). map_of parent c = Some p}\<^sup>*"
      using Suc.prems(2) by (auto elim: converse_rtranclE)
    then show ?thesis using Suc.IH [of p] Suc.prems(1) by (auto split: if_splits)
  qed (use Suc.prems(1) in \<open>auto split: if_splits\<close>)
qed simp

lemma map_of_snoc:
  "map_of (xs @ [(k, v)]) x = (case map_of xs x of Some y \<Rightarrow> Some y | None \<Rightarrow> if x = k then Some v else None)"
  by (auto simp: map_add_def split: option.split)

text \<open>Tables grown by accepted inserts of new sub-Tasks.\<close>

inductive built_edges :: "edge_row list \<Rightarrow> bool" where
  empty: "built_edges []"
| link: "built_edges (wd_edges (w :: unit task_world)) \<Longrightarrow> link_subtask_edge child p root depth i w = Inr w' \<Longrightarrow>
    child \<notin> ed_parent ` set (wd_edges w) \<Longrightarrow> built_edges (wd_edges w')"

lemma link_subtask_edge_Inr:
  assumes "link_subtask_edge child p root depth i w = Inr w'"
  shows "edge_trigger (edge_parents (wd_edges w)) child 65 (Some p) = Inr ()"
    and "edge_parents (wd_edges w') = edge_parents (wd_edges w) @ [(child, p)]"
    and "map_of (edge_parents (wd_edges w)) child = None" and "depth > 0"
    and "\<exists>e. wd_edges w' = wd_edges w @ [e] \<and> ed_child e = child \<and> ed_parent e = p \<and> ed_depth e = depth"
    and "wd_tasks w' = wd_tasks w"
proof -
  have h: "edge_trigger (edge_parents (wd_edges w)) child 65 (Some p) = Inr ()" "depth > 0"
      "child \<notin> ed_child ` set (wd_edges w)"
      "w' = w\<lparr>wd_edges := wd_edges w @ [\<lparr>ed_child = child, ed_parent = p, ed_root = root,
              ed_depth = depth, ed_event_id = i\<rparr>]\<rparr>"
    using assms by (auto simp: link_subtask_edge_def bind_res_eq_Inr split: if_splits)
  show "edge_trigger (edge_parents (wd_edges w)) child 65 (Some p) = Inr ()" "depth > 0"
    "edge_parents (wd_edges w') = edge_parents (wd_edges w) @ [(child, p)]" "wd_tasks w' = wd_tasks w"
    "\<exists>e. wd_edges w' = wd_edges w @ [e] \<and> ed_child e = child \<and> ed_parent e = p \<and> ed_depth e = depth"
    using h by (auto simp: edge_parents_def)
  show "map_of (edge_parents (wd_edges w)) child = None"
    using h(3) by (auto simp: edge_parents_def map_of_eq_None_iff image_image)
qed

lemma chain_within_added:
  assumes "chain_within parent n c" and "map_of parent child = None" and "child \<notin> snd ` set parent"
    and "c \<noteq> child"
  shows "chain_within (parent @ [(child, p)]) n c"
  using assms
proof (induction n arbitrary: c)
  case (Suc n)
  show ?case
  proof (cases "map_of parent c")
    case (Some q)
    then have "q \<noteq> child" using Suc.prems(3) by (force dest: map_of_SomeD)
    then show ?thesis using Suc Some by (simp add: map_of_snoc del: map_of_append)
  qed (use Suc.prems in \<open>simp add: map_of_snoc del: map_of_append\<close>)
qed (simp add: map_of_snoc del: map_of_append)

lemma built_chains: "built_edges es \<Longrightarrow> chain_within (edge_parents es) 64 c"
proof (induction arbitrary: c rule: built_edges.induct)
  case empty
  show ?case by (rule chain_within_mono [of _ 0]) (simp_all add: edge_parents_def)
next
  case (link w child p root depth i w' c)
  note l = link_subtask_edge_Inr [OF link.hyps(2)]
  let ?P = "edge_parents (wd_edges w)"
  have fresh: "child \<notin> snd ` set ?P" using link.hyps(3) by (auto simp: edge_parents_def)
  show ?case
  proof (cases "c = child")
    case False
    then show ?thesis using chain_within_added [OF link.IH l(3) fresh] l(2) by simp
  next
    case True
    have "chain_within ?P 63 p" using edge_trigger_chain [OF l(1)] by auto
    moreover have "p \<noteq> child" using edge_trigger_apart [OF l(1)] by blast
    ultimately have "chain_within (?P @ [(child, p)]) 63 p" using l(3) fresh by (intro chain_within_added)
    then have "chain_within (?P @ [(child, p)]) (Suc 63) child"
      unfolding chain_within.simps using l(3) by (simp add: map_of_snoc del: map_of_append)
    then show ?thesis using True l(2) by (simp del: chain_within.simps)
  qed
qed

section \<open>Properties\<close>

text \<open>
  The query loop over \<^verbatim>\<open>task_edges\<close> returns exactly the ancestors the graph module specifies,
  for every Task and every table the insert trigger has admitted: the loop's bound of 128 rows is
  never reached, because the trigger keeps every chain of parents within 64 hops.
\<close>

theorem ancestors_of_equiv:
  assumes "built_edges es"
  shows "ancestors_of es tid = ancestors (edge_graph es) tid \<and>
         length (ancestors_of es tid) \<le> 64 \<and> acyclic (parent_rel (edge_graph es))"
proof -
  have c: "chain_within (edge_parents es) 64 tid" for tid using built_chains [OF assms] .
  have "acyclic (parent_rel (edge_graph es))"
    unfolding parent_rel_def using chains_acyclic [of "edge_parents es"] c by auto
  moreover have "ancestors_of es tid = ancestors (edge_graph es) tid"
    unfolding ancestors_of_def ancestors_def using climb_edges_walk_up [OF c] by simp
  moreover have "length (ancestors_of es tid) \<le> 64"
    unfolding ancestors_of_def using length_climb_edges [OF c [of tid], of 128 "[]"] by simp
  ultimately show ?thesis by blast
qed

definition edge_world :: "edge_row list \<Rightarrow> unit task_world" where
  "edge_world es = \<lparr>wd_store = (), wd_tasks = (\<lambda>_. None), wd_assignments = [], wd_edges = es,
     wd_joined = (\<lambda>_. None)\<rparr>"

definition sample_edges :: "edge_row list" where
  "sample_edges = [\<lparr>ed_child = ''b'', ed_parent = ''a'', ed_root = ''a'', ed_depth = 1, ed_event_id = ''e1''\<rparr>,
     \<lparr>ed_child = ''c'', ed_parent = ''b'', ed_root = ''a'', ed_depth = 2, ed_event_id = ''e2''\<rparr>]"

lemma sample_edges_built: "built_edges sample_edges"
proof -
  let ?e = "\<lparr>ed_child = ''b'', ed_parent = ''a'', ed_root = ''a'', ed_depth = 1, ed_event_id = ''e1''\<rparr>"
  have "link_subtask_edge ''b'' ''a'' ''a'' 1 ''e1'' (edge_world []) = Inr (edge_world [?e])"
    by (simp add: link_subtask_edge_def edge_world_def edge_parents_def eval_nat_numeral)
  then have b: "built_edges (wd_edges (edge_world [?e]))"
    by (rule built_edges.link [rotated]) (simp_all add: edge_world_def built_edges.empty)
  have "link_subtask_edge ''c'' ''b'' ''a'' 2 ''e2'' (edge_world [?e]) = Inr (edge_world sample_edges)"
    by (simp add: link_subtask_edge_def edge_world_def edge_parents_def eval_nat_numeral sample_edges_def)
  from built_edges.link [OF b this] show ?thesis by (simp add: edge_world_def)
qed

theorem ancestors_of_equiv_example:
  "built_edges sample_edges \<and> ancestors_of sample_edges ''c'' = [''b'', ''a''] \<and>
   ancestors (edge_graph sample_edges) ''c'' = [''b'', ''a'']"
proof -
  have "ancestors_of sample_edges ''c'' = [''b'', ''a'']"
    by (simp add: ancestors_of_def edge_parents_def sample_edges_def eval_nat_numeral)
  then show ?thesis using ancestors_of_equiv [OF sample_edges_built, of "''c''"] sample_edges_built by simp
qed

text \<open>
  C10. Admission and insertion of a sub-Task together keep the graph within its rules: the table
  stays acyclic, the parent has at most \<^verbatim>\<open>max_fan_out\<close> children and at most
  \<^verbatim>\<open>concurrent_subtasks\<close> unfinished ones after the insert, and the new depth does not exceed
  the channel's delegation depth.
\<close>

theorem subtask_limits:
  assumes adm: "check_subtask_creation E cx parent child w = Inr ()"
    and link: "link_subtask_edge child (ts_task_id parent) root (ts_delegation_depth parent + 1) i w = Inr w'"
    and acyc: "acyclic (parent_rel (edge_graph (wd_edges w)))"
    and limits: "l = channel_limits E (cx_workspace_id cx) (ts_channel_id parent)"
  shows "acyclic (parent_rel (edge_graph (wd_edges w'))) \<and>
    int (length (children_of w' (ts_task_id parent))) \<le> gl_max_fan_out l \<and>
    int (length (filter (\<lambda>c. cv_status c \<notin> {''COMPLETED'', ''CANCELLED''})
      (children_of w' (ts_task_id parent)))) \<le> gl_concurrent_subtasks l \<and>
    ts_delegation_depth parent + 1 \<le> gl_delegation_depth l"
proof -
  note l = link_subtask_edge_Inr [OF link]
  let ?P = "edge_parents (wd_edges w)" and ?p = "ts_task_id parent"
  let ?R = "{(c, p). map_of ?P c = Some p}"
  let ?live = "\<lambda>c. cv_status c \<notin> {''COMPLETED'', ''CANCELLED''}"
  have "(?p, child) \<notin> ?R\<^sup>*" using edge_trigger_apart [OF l(1)] by blast
  then have "acyclic (insert (child, ?p) ?R)" using acyc by (simp add: parent_rel_def)
  moreover have "{(c, p). map_of (?P @ [(child, ?p)]) c = Some p} \<subseteq> insert (child, ?p) ?R"
    by (auto simp: map_of_snoc split: option.splits if_splits)
  ultimately have "acyclic (parent_rel (edge_graph (wd_edges w')))"
    unfolding parent_rel_def edge_graph_parent l(2) by (rule acyclic_subset)
  moreover
  obtain e where e: "wd_edges w' = wd_edges w @ [e]" "ed_parent e = ?p" using l(5) by blast
  let ?v = "\<lambda>e. case wd_tasks w (ed_child e) of
         None \<Rightarrow> \<lparr>cv_task_id = ed_child e, cv_status = ''OPEN'', cv_verification_status = None\<rparr>
       | Some row \<Rightarrow> \<lparr>cv_task_id = ed_child e, cv_status = status_value (tr_status row),
           cv_verification_status = tr_verification_status row\<rparr>"
  have size: "length (filter Q (map ?v (sort_key ed_child es))) = length (filter (Q \<circ> ?v) es)" for Q es
  proof -
    have "mset (filter (Q \<circ> ?v) (sort_key ed_child es)) = mset (filter (Q \<circ> ?v) es)" by simp
    then show ?thesis unfolding filter_map length_map by (rule mset_eq_length)
  qed
  have "length (children_of w' ?p) = length (children_of w ?p) + 1"
    using e l(6) by (simp add: children_of_def)
  moreover have "length (filter ?live (children_of w' ?p)) \<le> length (filter ?live (children_of w ?p)) + 1"
    using e l(6) by (simp only: children_of_def size) simp
  ultimately show ?thesis
    using adm limits by (auto simp: check_subtask_creation_def validate_new_child_def Let_def split: if_splits)
qed

theorem subtask_limits_witness:
  "\<exists>w'. link_subtask_edge ''d'' ''c'' ''a'' 3 ''e3'' (edge_world sample_edges) = Inr w' \<and>
     int (length (children_of w' ''c'')) \<le> 8 \<and> acyclic (parent_rel (edge_graph (wd_edges w')))"
proof -
  let ?w = "edge_world sample_edges"
  let ?parent = "(initial_task ''c'')\<lparr>ts_exists := True, ts_delegation_depth := 2\<rparr>"
  have lim: "channel_limits open_env (cx_workspace_id (at_key ''k'')) (ts_channel_id ?parent) =
      \<lparr>gl_delegation_depth = 4, gl_max_fan_out = 8, gl_concurrent_subtasks = 8\<rparr>"
    by (simp add: channel_limits_def limits_from_policy_def pick_limit_def py_int_def initial_task_def
        or_none_def DEFAULT_DELEGATION_DEPTH_def DEFAULT_MAX_FAN_OUT_def DEFAULT_CONCURRENT_SUBTASKS_def Let_def)
  have ch: "children_of ?w ''c'' = []"
    by (simp add: children_of_def edge_world_def sample_edges_def)
  have anc: "ancestors_of (wd_edges ?w) ''c'' = [''b'', ''a'']"
    by (simp add: ancestors_of_def edge_parents_def edge_world_def sample_edges_def eval_nat_numeral)
  have adm: "check_subtask_creation open_env (at_key ''k'') ?parent ''d'' ?w = Inr ()"
    unfolding check_subtask_creation_def lim using ch anc
    by (simp add: validate_new_child_def initial_task_def or_none_def Let_def)
  obtain w' where link: "link_subtask_edge ''d'' ''c'' ''a'' 3 ''e3'' ?w = Inr w'"
    by (simp add: link_subtask_edge_def edge_world_def edge_parents_def eval_nat_numeral sample_edges_def)
  have "chain_within (edge_parents sample_edges) 64 c" for c using built_chains [OF sample_edges_built] .
  then have "acyclic (parent_rel (edge_graph (wd_edges ?w)))"
    unfolding parent_rel_def edge_graph_parent edge_world_def using chains_acyclic [of "edge_parents sample_edges"]
    by auto
  from subtask_limits [OF adm _ this lim [symmetric], of "''a''" "''e3''" w'] link show ?thesis
    by (auto simp: initial_task_def)
qed

end
