(* ===== verification/Work_State.thy ===== *)
theory Work_State
  imports Prelude
begin

text \<open>
  The work item state machine, its timing model and the result ledger:
  \<^verbatim>\<open>src/server/work/state.py\<close>, with the timeouts of \<^verbatim>\<open>src/server/domain/defaults.py\<close>.
\<close>

section \<open>States\<close>

datatype work_item_state =
  QUEUED | DELIVERED | ACKED | IN_PROGRESS | RESULT_RECEIVED | REJECTED | EXPIRED | WI_CANCELLED

definition TERMINAL_STATES :: "work_item_state list" where
  "TERMINAL_STATES = [RESULT_RECEIVED, REJECTED, EXPIRED, WI_CANCELLED]"

definition WORK_TRANSITIONS :: "((work_item_state \<times> string) \<times> work_item_state) list" where
  "WORK_TRANSITIONS =
    [((QUEUED, ''deliver''), DELIVERED),
     ((QUEUED, ''cancel''), WI_CANCELLED),
     ((QUEUED, ''expire''), EXPIRED),
     ((DELIVERED, ''redeliver''), DELIVERED),
     ((DELIVERED, ''ack''), ACKED),
     ((DELIVERED, ''reject''), REJECTED),
     ((DELIVERED, ''expire''), EXPIRED),
     ((DELIVERED, ''cancel''), WI_CANCELLED),
     ((ACKED, ''start''), IN_PROGRESS),
     ((ACKED, ''reject''), REJECTED),
     ((ACKED, ''expire''), EXPIRED),
     ((ACKED, ''cancel''), WI_CANCELLED),
     ((ACKED, ''result''), RESULT_RECEIVED),
     ((IN_PROGRESS, ''result''), RESULT_RECEIVED),
     ((IN_PROGRESS, ''reject''), REJECTED),
     ((IN_PROGRESS, ''expire''), EXPIRED),
     ((IN_PROGRESS, ''cancel''), WI_CANCELLED)]"

definition REJECTION_CODES :: "string list" where
  "REJECTION_CODES = [''CAPABILITY_UNSUPPORTED'', ''CAPACITY'', ''POLICY'', ''OTHER'']"

definition ASSIGNMENT_KINDS :: "string list" where
  "ASSIGNMENT_KINDS = [''task_assignment'', ''subtask_assignment'']"

definition work_transition :: "work_item_state \<Rightarrow> string \<Rightarrow> work_item_state res" where
  "work_transition st action =
     (if st \<in> set TERMINAL_STATES then Inl ''WORK_ITEM_TRANSITION_INVALID''
      else case map_of WORK_TRANSITIONS (st, action) of
        Some st' \<Rightarrow> Inr st'
      | None \<Rightarrow> Inl ''WORK_ITEM_TRANSITION_INVALID'')"

section \<open>Timing\<close>

definition WORK_ITEM_ACK_TIMEOUT_S :: int where "WORK_ITEM_ACK_TIMEOUT_S = 60"
definition WORK_ITEM_MAX_REDELIVERIES :: int where "WORK_ITEM_MAX_REDELIVERIES = 3"
definition TASK_ASSIGNMENT_ACCEPT_TIMEOUT_S :: int where "TASK_ASSIGNMENT_ACCEPT_TIMEOUT_S = 120"
definition TASK_ASSIGNMENT_REROUTES :: int where "TASK_ASSIGNMENT_REROUTES = 1"

datatype next_action_kind = ActNone | ActRedeliver | ActExpire | ActReroute | ActWaiting

record timing_decision =
  td_action :: next_action_kind
  td_reason :: string
  td_due_at :: "time option"

definition decide :: "next_action_kind \<Rightarrow> string \<Rightarrow> time option \<Rightarrow> timing_decision" where
  "decide a r d = \<lparr>td_action = a, td_reason = r, td_due_at = d\<rparr>"

definition next_action ::
  "work_item_state \<Rightarrow> time option \<Rightarrow> time option \<Rightarrow> time \<Rightarrow> int \<Rightarrow> string \<Rightarrow> time option \<Rightarrow> int
    \<Rightarrow> time option \<Rightarrow> timing_decision res" where
  "next_action st delivered_at acked_at now delivery_count kind accepted_at reroute_count deadline =
     (if st \<in> set TERMINAL_STATES then Inr (decide ActNone ''terminal'' None)
      else if deadline \<noteq> None \<and> now \<ge> the deadline
      then Inr (decide ActExpire ''DEADLINE_EXCEEDED'' None)
      else if st = DELIVERED then
        (case delivered_at of
           None \<Rightarrow> Inl ''WORK_ITEM_TIMING_INVALID''
         | Some d \<Rightarrow>
             (let due = d + seconds WORK_ITEM_ACK_TIMEOUT_S in
              if now < due then Inr (decide ActNone ''awaiting ack'' (Some due))
              else if delivery_count \<le> WORK_ITEM_MAX_REDELIVERIES
              then Inr (decide ActRedeliver
                (''ACK_TIMEOUT redelivery '' @ int_str delivery_count @ '' of 3'') (Some due))
              else Inr (decide ActExpire ''ACK_TIMEOUT_EXHAUSTED'' (Some due))))
      else if st \<in> {ACKED, IN_PROGRESS} \<and> kind \<in> set ASSIGNMENT_KINDS then
        (if accepted_at \<noteq> None then Inr (decide ActNone ''accepted'' None)
         else case acked_at of
           None \<Rightarrow> Inl ''WORK_ITEM_TIMING_INVALID''
         | Some a \<Rightarrow>
             (let due = a + seconds TASK_ASSIGNMENT_ACCEPT_TIMEOUT_S in
              if now < due then Inr (decide ActNone ''awaiting accept'' (Some due))
              else if reroute_count < TASK_ASSIGNMENT_REROUTES
              then Inr (decide ActReroute ''ACCEPT_TIMEOUT'' (Some due))
              else Inr (decide ActWaiting ''ACCEPT_TIMEOUT_NO_CANDIDATE'' (Some due))))
      else Inr (decide ActNone ''no timer'' None))"

section \<open>Results\<close>

record result_receipt =
  rr_work_item_id :: string
  rr_accepted :: bool
  rr_code :: string
  rr_first_result_ref :: string

record ledger_entry =
  le_work_item_id :: string
  le_reporter :: string
  le_ignored_result_ref :: string
  le_first_result_ref :: string

record result_ledger =
  rl_results :: "string \<rightharpoonup> string"
  rl_audit :: "ledger_entry list"

definition ledger_accept ::
  "result_ledger \<Rightarrow> string \<Rightarrow> string \<Rightarrow> string \<Rightarrow> result_ledger \<times> result_receipt" where
  "ledger_accept l wid ref reporter =
     (case rl_results l wid of
        Some existing \<Rightarrow>
          (l\<lparr>rl_audit := rl_audit l @ [\<lparr>le_work_item_id = wid, le_reporter = reporter,
              le_ignored_result_ref = ref, le_first_result_ref = existing\<rparr>]\<rparr>,
           \<lparr>rr_work_item_id = wid, rr_accepted = False, rr_code = ''DUPLICATE_RESULT_IGNORED'',
            rr_first_result_ref = existing\<rparr>)
      | None \<Rightarrow>
          (l\<lparr>rl_results := (rl_results l)(wid \<mapsto> ref)\<rparr>,
           \<lparr>rr_work_item_id = wid, rr_accepted = True, rr_code = ''RESULT_ACCEPTED'',
            rr_first_result_ref = ref\<rparr>))"

definition result_of :: "result_ledger \<Rightarrow> string \<Rightarrow> string option" where
  "result_of l wid = rl_results l wid"

section \<open>Facts on transitions\<close>

lemma work_transition_eq:
  "work_transition QUEUED ''deliver'' = Inr DELIVERED"
  "work_transition DELIVERED ''redeliver'' = Inr DELIVERED"
  by (simp_all add: work_transition_def TERMINAL_STATES_def WORK_TRANSITIONS_def)

lemma work_transition_Inr:
  "work_transition s ''ack'' = Inr s' \<longleftrightarrow> s = DELIVERED \<and> s' = ACKED"
  "work_transition s ''start'' = Inr s' \<longleftrightarrow> s = ACKED \<and> s' = IN_PROGRESS"
  "work_transition s ''redeliver'' = Inr s' \<longleftrightarrow> s = DELIVERED \<and> s' = DELIVERED"
  "work_transition s ''result'' = Inr s' \<longleftrightarrow> s \<in> {ACKED, IN_PROGRESS} \<and> s' = RESULT_RECEIVED"
  "work_transition s ''reject'' = Inr s' \<longleftrightarrow> s \<in> {DELIVERED, ACKED, IN_PROGRESS} \<and> s' = REJECTED"
  "work_transition s ''cancel'' = Inr s' \<longleftrightarrow> s \<notin> set TERMINAL_STATES \<and> s' = WI_CANCELLED"
  "work_transition s ''expire'' = Inr s' \<longleftrightarrow> s \<notin> set TERMINAL_STATES \<and> s' = EXPIRED"
  by (cases s; auto simp: work_transition_def TERMINAL_STATES_def WORK_TRANSITIONS_def)+

lemma terminal_iff [simp]:
  "s \<in> set TERMINAL_STATES \<longleftrightarrow> s = RESULT_RECEIVED \<or> s = REJECTED \<or> s = EXPIRED \<or> s = WI_CANCELLED"
  by (auto simp: TERMINAL_STATES_def)

end
