(* ===== verification/Hash_Chain.thy ===== *)
theory Hash_Chain
  imports Events Clock
begin

text \<open>
  Chained tables with daily anchors, and the audit log on top of them:
  \<^verbatim>\<open>src/server/events/chain.py\<close> and \<^verbatim>\<open>src/server/observability/audit.py\<close>.

  A row carries the hash of its immutable columns and of the preceding hash; an anchor records the
  head of a chain. Shown: the audit log and its anchors verify after every sequence of appends and
  anchorings, an anchor pins every row before it, and redaction leaves no value under a sensitive
  key of nested objects.
\<close>

section \<open>Rows and hashes\<close>

datatype cell = CVal json | CTime time | CDate int | CUuid string

definition iso_date :: "int \<Rightarrow> string" where
  "iso_date days = (let (y, m, d) = civil_of_days days in
     pad 4 y @ ''-'' @ pad 2 m @ ''-'' @ pad 2 d)"

definition iso_microseconds :: "time \<Rightarrow> string" where
  "iso_microseconds t =
     (let secs = t div 1000000; sod = secs mod 86400
      in iso_date (secs div 86400) @ ''T'' @ pad 2 (sod div 3600) @ '':'' @
         pad 2 (sod div 60 mod 60) @ '':'' @ pad 2 (sod mod 60) @ ''.'' @ pad 6 (t mod 1000000) @
         ''+00:00'')"

definition float_str :: "pyfloat \<Rightarrow> string" where
  "float_str x = (case x of
      FNan \<Rightarrow> ''nan''
    | FInf neg \<Rightarrow> (if neg then ''-inf'' else ''inf'')
    | FFin neg ip fp ex \<Rightarrow> (if neg then ''-'' else []) @ map digit_char ip @
        (if fp = [] then [] else ''.'' @ map digit_char fp) @
        (case ex of None \<Rightarrow> [] | Some n \<Rightarrow> ''e'' @ (if n < 0 then ''-'' else ''+'') @ pad 2 \<bar>n\<bar>))"

text \<open>\<^verbatim>\<open>_jsonable\<close>; floats have a \<^verbatim>\<open>hex\<close> method and are printed like identifiers.\<close>

fun jsonable :: "cell \<Rightarrow> json" where
  "jsonable (CTime t) = JStr (iso_microseconds t)"
| "jsonable (CDate d) = JStr (iso_date d)"
| "jsonable (CUuid u) = JStr u"
| "jsonable (CVal (JFloat x)) = JStr (float_str x)"
| "jsonable (CVal v) = v"

record chain_spec =
  cs_table :: string
  cs_hashed_fields :: "string list"
  cs_chain_name :: string

definition AUDIT_CHAIN :: chain_spec where
  "AUDIT_CHAIN = \<lparr>cs_table = ''audit_events'',
     cs_hashed_fields = [''audit_id'', ''workspace_id'', ''actor_account_id'', ''actor_label'',
       ''action'', ''target_type'', ''target_id'', ''result'', ''error_code'', ''correlation_id'',
       ''redacted_metadata'', ''occurred_at''],
     cs_chain_name = ''audit''\<rparr>"

definition VERIFICATION_CHAIN :: chain_spec where
  "VERIFICATION_CHAIN = \<lparr>cs_table = ''verification_revisions'',
     cs_hashed_fields = [''revision_id'', ''verification_id'', ''revision'', ''result'',
       ''submitted_by_account_id'', ''submitter_credential_fingerprint'', ''report_sha256'',
       ''event_id'', ''created_at''],
     cs_chain_name = ''verification_revisions''\<rparr>"

definition TOMBSTONE_CHAIN :: chain_spec where
  "TOMBSTONE_CHAIN = \<lparr>cs_table = ''key_tombstones'',
     cs_hashed_fields = [''key_ref'', ''workspace_id'', ''target_type'', ''target_id'', ''reason'',
       ''requested_by'', ''audit_event_id'', ''destroyed_at''],
     cs_chain_name = ''key_tombstones''\<rparr>"

record chain_row =
  cr_id :: int
  cr_cells :: "(string \<times> cell) list"
  cr_previous_hash :: "string option"
  cr_content_hash :: string

definition hashed_row_fields :: "chain_spec \<Rightarrow> (string \<times> cell) list \<Rightarrow> pydict" where
  "hashed_row_fields spec cells =
     map (\<lambda>k. (k, case map_of cells k of None \<Rightarrow> JNull | Some c \<Rightarrow> jsonable c)) (cs_hashed_fields spec)"

definition chain_hash :: "prims \<Rightarrow> pydict \<Rightarrow> string option \<Rightarrow> string res" where
  "chain_hash P flds previous =
     bind_res (canonical_bytes (JObj (flds @ [(''previous_hash'', jopt previous)])))
       (\<lambda>b. Inr (sha256_hex P b))"

definition last_hash :: "chain_row list \<Rightarrow> string option" where
  "last_hash rows = (case sort_key (\<lambda>r. - cr_id r) rows of
     [] \<Rightarrow> None | r # _ \<Rightarrow> Some (cr_content_hash r))"

section \<open>Verification\<close>

datatype row_problem = RowPrevious int | RowTampered int

fun verify_rows ::
  "prims \<Rightarrow> chain_spec \<Rightarrow> string option \<Rightarrow> chain_row list \<Rightarrow> row_problem list res" where
  "verify_rows P spec previous [] = Inr []"
| "verify_rows P spec previous (r # rs) =
     bind_res (chain_hash P (hashed_row_fields spec (cr_cells r)) previous) (\<lambda>expected.
     bind_res (verify_rows P spec (Some (cr_content_hash r)) rs) (\<lambda>rest.
       Inr ((if cr_previous_hash r \<noteq> previous then [RowPrevious (cr_id r)] else []) @
            (if cr_content_hash r \<noteq> expected then [RowTampered (cr_id r)] else []) @ rest)))"

definition verify_table :: "prims \<Rightarrow> chain_spec \<Rightarrow> chain_row list \<Rightarrow> row_problem list res" where
  "verify_table P spec rows = verify_rows P spec None (sort_key cr_id rows)"

section \<open>Anchors\<close>

record chain_anchor =
  an_date :: int
  an_last_row_id :: int
  an_last_hash :: string
  an_anchor_hash :: string

definition anchor_hash_of :: "prims \<Rightarrow> chain_spec \<Rightarrow> int \<Rightarrow> int \<Rightarrow> string \<Rightarrow> string res" where
  "anchor_hash_of P spec date row_id h =
     bind_res (canonical_bytes (JObj
       [(''chain'', JStr (cs_chain_name spec)), (''anchor_date'', JStr (iso_date date)),
        (''last_row_id'', JInt row_id), (''last_hash'', JStr h)]))
       (\<lambda>b. Inr (sha256_hex P b))"

text \<open>The anchors of one chain; the table's unique key allows one per day.\<close>

definition record_anchor ::
  "prims \<Rightarrow> chain_spec \<Rightarrow> chain_row list \<Rightarrow> int \<Rightarrow> chain_anchor list
    \<Rightarrow> (chain_anchor list \<times> string option) res" where
  "record_anchor P spec rows date anchors =
     (case sort_key (\<lambda>r. - cr_id r) rows of
        [] \<Rightarrow> Inr (anchors, None)
      | r # _ \<Rightarrow>
          bind_res (anchor_hash_of P spec date (cr_id r) (cr_content_hash r)) (\<lambda>a.
            if list_ex (\<lambda>x. an_date x = date) anchors then Inl ''IntegrityError''
            else Inr (anchors @ [\<lparr>an_date = date, an_last_row_id = cr_id r,
                   an_last_hash = cr_content_hash r, an_anchor_hash = a\<rparr>], Some a)))"

text \<open>The hashes recomputed from the columns alone, by row id.\<close>

fun recompute ::
  "prims \<Rightarrow> chain_spec \<Rightarrow> string option \<Rightarrow> chain_row list \<Rightarrow> (int \<times> string) list res" where
  "recompute P spec previous [] = Inr []"
| "recompute P spec previous (r # rs) =
     bind_res (chain_hash P (hashed_row_fields spec (cr_cells r)) previous) (\<lambda>h.
     bind_res (recompute P spec (Some h) rs) (\<lambda>rest. Inr ((cr_id r, h) # rest)))"

datatype anchor_problem = StoredDiffers int | RecomputedDiffers int | AnchorHashMismatch int

definition check_anchor ::
  "prims \<Rightarrow> chain_spec \<Rightarrow> chain_row list \<Rightarrow> (int \<times> string) list \<Rightarrow> chain_anchor
    \<Rightarrow> anchor_problem list res" where
  "check_anchor P spec rows recomputed a =
     bind_res (anchor_hash_of P spec (an_date a) (an_last_row_id a) (an_last_hash a)) (\<lambda>expected.
       Inr ((if map_of (map (\<lambda>r. (cr_id r, cr_content_hash r)) rows) (an_last_row_id a)
               \<noteq> Some (an_last_hash a) then [StoredDiffers (an_date a)] else []) @
            (if map_of recomputed (an_last_row_id a) \<noteq> Some (an_last_hash a)
             then [RecomputedDiffers (an_date a)] else []) @
            (if expected \<noteq> an_anchor_hash a then [AnchorHashMismatch (an_date a)] else [])))"

definition verify_anchors ::
  "prims \<Rightarrow> chain_spec \<Rightarrow> chain_row list \<Rightarrow> chain_anchor list \<Rightarrow> anchor_problem list res" where
  "verify_anchors P spec rows anchors =
     (if anchors = [] then Inr []
      else bind_res (recompute P spec None (sort_key cr_id rows)) (\<lambda>rec.
        bind_res (sequence_res (map (check_anchor P spec rows rec) (sort_key an_date anchors)))
          (\<lambda>pss. Inr (concat pss))))"

section \<open>Audit events\<close>

definition REDACT_KEYS :: "string list" where
  "REDACT_KEYS = [''token'', ''password'', ''secret'', ''authorization'', ''cookie'', ''dsn'',
     ''key'', ''value'']"

definition lower_char :: "char \<Rightarrow> char" where
  "lower_char c = (let n = of_char c :: nat in if 65 \<le> n \<and> n \<le> 90 then char_of (n + 32) else c)"

definition sensitive_key :: "string \<Rightarrow> bool" where
  "sensitive_key k \<longleftrightarrow> list_ex (\<lambda>s. sublist s (map lower_char k)) REDACT_KEYS"

fun redact_value :: "json \<Rightarrow> json" where
  "redact_value (JObj kvs) =
     JObj (map (\<lambda>(k, v). (k, if sensitive_key k then JStr ''<redacted>'' else redact_value v)) kvs)"
| "redact_value v = v"

definition redact_metadata :: "pydict option \<Rightarrow> pydict" where
  "redact_metadata metadata =
     (case redact_value (JObj (get_default [] metadata)) of JObj kvs \<Rightarrow> kvs | _ \<Rightarrow> [])"

record audit_args =
  au_action :: string
  au_target_type :: string
  au_target_id :: string
  au_result :: string
  au_actor_label :: string
  au_correlation_id :: string
  au_workspace_id :: "string option"
  au_actor_account_id :: "string option"
  au_error_code :: "string option"
  au_metadata :: "pydict option"
  au_now :: time

record audit_log =
  al_rows :: "chain_row list"
  al_anchors :: "chain_anchor list"
  al_next_id :: int
  al_draws :: nat

definition uuid_cell :: "string option \<Rightarrow> cell" where
  "uuid_cell u = (case u of None \<Rightarrow> CVal JNull | Some s \<Rightarrow> CUuid s)"

definition audit_fields :: "audit_args \<Rightarrow> string \<Rightarrow> (string \<times> cell) list" where
  "audit_fields x audit_id =
     [(''audit_id'', CVal (JStr audit_id)), (''workspace_id'', uuid_cell (au_workspace_id x)),
      (''actor_account_id'', uuid_cell (au_actor_account_id x)),
      (''actor_label'', CVal (JStr (au_actor_label x))), (''action'', CVal (JStr (au_action x))),
      (''target_type'', CVal (JStr (au_target_type x))),
      (''target_id'', CVal (JStr (au_target_id x))), (''result'', CVal (JStr (au_result x))),
      (''error_code'', CVal (jopt (au_error_code x))),
      (''correlation_id'', CVal (JStr (au_correlation_id x))),
      (''redacted_metadata'', CVal (JObj (redact_metadata (au_metadata x)))),
      (''occurred_at'', CTime (au_now x))]"

text \<open>The columns as they are read back: the metadata went through \<^verbatim>\<open>jsonb\<close>.\<close>

definition stored_cells :: "(pydict \<Rightarrow> pydict) \<Rightarrow> (string \<times> cell) list \<Rightarrow> (string \<times> cell) list" where
  "stored_cells jsonb cells =
     map (\<lambda>(k, c). (k, case c of CVal (JObj d) \<Rightarrow> CVal (JObj (jsonb d)) | _ \<Rightarrow> c)) cells"

definition append_audit ::
  "prims \<Rightarrow> (pydict \<Rightarrow> pydict) \<Rightarrow> audit_log \<Rightarrow> audit_args \<Rightarrow> (audit_log \<times> string) res" where
  "append_audit P jsonb log x =
     (let previous = last_hash (al_rows log);
          audit_id = ''aud-'' @ take 20 (uuid_hex P (al_draws log));
          flds = audit_fields x audit_id
      in bind_res (chain_hash P (hashed_row_fields AUDIT_CHAIN flds) previous) (\<lambda>h.
           Inr (log\<lparr>al_rows := al_rows log @ [\<lparr>cr_id = al_next_id log,
                      cr_cells = stored_cells jsonb flds,
                      cr_previous_hash = previous, cr_content_hash = h\<rparr>],
                    al_next_id := al_next_id log + 1, al_draws := al_draws log + 1\<rparr>,
                audit_id)))"

definition anchor_audit :: "prims \<Rightarrow> audit_log \<Rightarrow> int \<Rightarrow> (audit_log \<times> string option) res" where
  "anchor_audit P log date =
     bind_res (record_anchor P AUDIT_CHAIN (al_rows log) date (al_anchors log)) (\<lambda>(as, h).
       Inr (log\<lparr>al_anchors := as\<rparr>, h))"

section \<open>Intact tables\<close>

fun rows_intact :: "prims \<Rightarrow> chain_spec \<Rightarrow> string option \<Rightarrow> chain_row list \<Rightarrow> bool" where
  "rows_intact P spec prev [] = True"
| "rows_intact P spec prev (r # rs) \<longleftrightarrow> cr_previous_hash r = prev \<and>
     chain_hash P (hashed_row_fields spec (cr_cells r)) prev = Inr (cr_content_hash r) \<and>
     rows_intact P spec (Some (cr_content_hash r)) rs"

fun rows_end :: "string option \<Rightarrow> chain_row list \<Rightarrow> string option" where
  "rows_end prev [] = prev"
| "rows_end prev (r # rs) = rows_end (Some (cr_content_hash r)) rs"

lemma verify_rows_intact: "verify_rows P spec prev rs = Inr [] \<longleftrightarrow> rows_intact P spec prev rs"
  by (induction rs arbitrary: prev) (auto simp: res_simps)

lemma rows_intact_append:
  "rows_intact P spec prev (xs @ ys) \<longleftrightarrow>
     rows_intact P spec prev xs \<and> rows_intact P spec (rows_end prev xs) ys"
  by (induction xs arbitrary: prev) auto

lemma rows_end_last: "rows_end prev rs = (if rs = [] then prev else Some (cr_content_hash (last rs)))"
  by (induction rs arbitrary: prev) auto

lemma recompute_intact:
  "rows_intact P spec prev rs \<Longrightarrow>
     recompute P spec prev rs = Inr (map (\<lambda>r. (cr_id r, cr_content_hash r)) rs)"
  by (induction rs arbitrary: prev) auto

section \<open>The audit log stays intact\<close>

definition jsonb_law :: "(pydict \<Rightarrow> pydict) \<Rightarrow> bool" where
  "jsonb_law jsonb \<longleftrightarrow> (\<forall>p. same_json (JObj (jsonb p)) (JObj p))"

lemma stored_cells_hash:
  assumes "jsonb_law jsonb"
  shows "chain_hash P (hashed_row_fields spec (stored_cells jsonb cells)) prev =
         chain_hash P (hashed_row_fields spec cells) prev"
proof -
  let ?f = "\<lambda>c. case c of CVal (JObj d) \<Rightarrow> CVal (JObj (jsonb d)) | _ \<Rightarrow> c"
  have "map_of (stored_cells jsonb cells) k = map_option ?f (map_of cells k)" for k
    by (simp add: stored_cells_def map_of_map)
  moreover have "same_json (jsonable (?f c)) (jsonable c)" for c
    using assms by (auto simp: jsonb_law_def split: cell.split jval.split)
  ultimately have same: "list_all2 (\<lambda>p q. fst p = fst q \<and> same_json (snd p) (snd q))
      (hashed_row_fields spec (stored_cells jsonb cells) @ [(''previous_hash'', jopt prev)])
      (hashed_row_fields spec cells @ [(''previous_hash'', jopt prev)])"
    by (intro list_all2_appendI)
      (auto simp: hashed_row_fields_def list.rel_map intro!: list.rel_refl split: option.split)
  show ?thesis
    unfolding chain_hash_def same_json_canonical [OF same_json_obj [OF same]] ..
qed

definition anchor_ok :: "prims \<Rightarrow> chain_row list \<Rightarrow> chain_anchor \<Rightarrow> bool" where
  "anchor_ok P rows a \<longleftrightarrow>
     (\<exists>r \<in> set rows. cr_id r = an_last_row_id a \<and> cr_content_hash r = an_last_hash a) \<and>
     anchor_hash_of P AUDIT_CHAIN (an_date a) (an_last_row_id a) (an_last_hash a) =
       Inr (an_anchor_hash a)"

definition audit_inv :: "prims \<Rightarrow> audit_log \<Rightarrow> bool" where
  "audit_inv P log \<longleftrightarrow>
     sorted_wrt (<) (map cr_id (al_rows log)) \<and> (\<forall>r \<in> set (al_rows log). cr_id r < al_next_id log) \<and>
     rows_intact P AUDIT_CHAIN None (al_rows log) \<and> (\<forall>a \<in> set (al_anchors log). anchor_ok P (al_rows log) a)"

lemma last_hash_end:
  "sorted_wrt (<) (map cr_id rows) \<Longrightarrow> last_hash rows = rows_end None rows"
  unfolding last_hash_def rows_end_last
  by (subst sort_key_desc) (auto split: list.split simp: last_rev hd_rev [symmetric])

lemma append_audit_inv:
  assumes "audit_inv P log" and "jsonb_law jsonb" and "append_audit P jsonb log x = Inr (log', i)"
  shows "audit_inv P log'"
proof -
  let ?fs = "audit_fields x (''aud-'' @ take 20 (uuid_hex P (al_draws log)))"
  obtain h where h: "chain_hash P (hashed_row_fields AUDIT_CHAIN ?fs) (last_hash (al_rows log)) = Inr h"
    and log': "log' = log\<lparr>al_rows := al_rows log @ [\<lparr>cr_id = al_next_id log,
        cr_cells = stored_cells jsonb ?fs, cr_previous_hash = last_hash (al_rows log),
        cr_content_hash = h\<rparr>], al_next_id := al_next_id log + 1, al_draws := al_draws log + 1\<rparr>"
    using assms(3) by (auto simp: append_audit_def Let_def res_simps)
  have "last_hash (al_rows log) = rows_end None (al_rows log)"
    using assms(1) by (simp add: audit_inv_def last_hash_end)
  then show ?thesis
    using assms(1) h by (auto simp: log' audit_inv_def sorted_wrt_append rows_intact_append
        stored_cells_hash [OF assms(2)] anchor_ok_def)
qed

lemma anchor_audit_inv:
  assumes "audit_inv P log" and "anchor_audit P log date = Inr (log', h)"
  shows "audit_inv P log'"
proof (cases "al_rows log" rule: rev_cases)
  case Nil
  then show ?thesis using assms by (auto simp: anchor_audit_def record_anchor_def)
next
  case (snoc rs r)
  have "sort_key (\<lambda>r. - cr_id r) (al_rows log) = r # rev rs"
    using assms(1) snoc sort_key_desc [of cr_id "al_rows log"] by (simp add: audit_inv_def)
  then show ?thesis
    using assms snoc
    by (auto simp: anchor_audit_def record_anchor_def res_simps audit_inv_def anchor_ok_def
        split: if_splits)
qed

inductive audit_reach :: "prims \<Rightarrow> (pydict \<Rightarrow> pydict) \<Rightarrow> audit_log \<Rightarrow> bool" for P jsonb where
  empty: "al_rows log = [] \<Longrightarrow> al_anchors log = [] \<Longrightarrow> audit_reach P jsonb log"
| append: "audit_reach P jsonb log \<Longrightarrow> append_audit P jsonb log x = Inr (log', i) \<Longrightarrow>
    audit_reach P jsonb log'"
| anchor: "audit_reach P jsonb log \<Longrightarrow> anchor_audit P log date = Inr (log', h) \<Longrightarrow>
    audit_reach P jsonb log'"

lemma audit_reach_inv:
  assumes "audit_reach P jsonb log" and "jsonb_law jsonb"
  shows "audit_inv P log"
  using assms
proof (induction rule: audit_reach.induct)
  case (empty log)
  then show ?case by (simp add: audit_inv_def)
next
  case (append log x log' i)
  then show ?case using append_audit_inv by blast
next
  case (anchor log date log' h)
  then show ?case using anchor_audit_inv by blast
qed

lemma audit_inv_verifies:
  assumes "audit_inv P log"
  shows "verify_table P AUDIT_CHAIN (al_rows log) = Inr [] \<and>
    verify_anchors P AUDIT_CHAIN (al_rows log) (al_anchors log) = Inr []"
proof
  let ?rows = "al_rows log"
  have s: "sort_key cr_id ?rows = ?rows" and d: "distinct (map cr_id ?rows)"
    using assms sort_key_asc strict_sorted_iff by (auto simp: audit_inv_def)
  show "verify_table P AUDIT_CHAIN ?rows = Inr []"
    using assms s by (simp add: verify_table_def verify_rows_intact audit_inv_def)
  let ?hs = "map (\<lambda>r. (cr_id r, cr_content_hash r)) ?rows"
  have rec: "recompute P AUDIT_CHAIN None (sort_key cr_id ?rows) = Inr ?hs"
    using assms s by (simp add: recompute_intact audit_inv_def)
  have "check_anchor P AUDIT_CHAIN ?rows ?hs a = Inr []" if "a \<in> set (al_anchors log)" for a
  proof -
    have ok: "anchor_ok P ?rows a" using assms that by (simp add: audit_inv_def)
    then have "map_of ?hs (an_last_row_id a) = Some (an_last_hash a)"
      using d by (subst map_of_eq_Some_iff) (force simp: anchor_ok_def comp_def)+
    with ok show ?thesis by (simp add: check_anchor_def anchor_ok_def)
  qed
  then have "sequence_res (map (check_anchor P AUDIT_CHAIN ?rows ?hs)
      (sort_key an_date (al_anchors log))) = Inr (map (\<lambda>_. []) (sort_key an_date (al_anchors log)))"
    by (subst sequence_res_eq_Inr) simp
  then show "verify_anchors P AUDIT_CHAIN ?rows (al_anchors log) = Inr []"
    using rec by (simp add: verify_anchors_def)
qed

section \<open>An anchor pins the rows before it\<close>

fun chain_head :: "prims \<Rightarrow> chain_spec \<Rightarrow> string option \<Rightarrow> chain_row list \<Rightarrow> string option res" where
  "chain_head P spec prev [] = Inr prev"
| "chain_head P spec prev (r # rs) =
     bind_res (chain_hash P (hashed_row_fields spec (cr_cells r)) prev) (\<lambda>h.
       chain_head P spec (Some h) rs)"

lemma chain_head_snoc:
  "chain_head P spec prev (rs @ [r]) =
     bind_res (chain_head P spec prev rs) (\<lambda>p.
       bind_res (chain_hash P (hashed_row_fields spec (cr_cells r)) p) (\<lambda>h. Inr (Some h)))"
  by (induction rs arbitrary: prev) (auto simp: bind_res_def split: sum.split)

lemma recompute_ids: "recompute P spec prev rs = Inr hs \<Longrightarrow> map fst hs = map cr_id rs"
  by (induction rs arbitrary: prev hs) (auto simp: res_simps)

lemma recompute_lookup:
  assumes "recompute P spec prev (xs @ r # ys) = Inr hs" and "distinct (map cr_id (xs @ r # ys))"
  shows "\<exists>h. map_of hs (cr_id r) = Some h \<and> chain_head P spec prev (xs @ [r]) = Inr (Some h)"
  using assms
proof (induction xs arbitrary: prev hs)
  case Nil
  then show ?case by (auto simp: res_simps)
next
  case (Cons x xs)
  then obtain h rest where h: "chain_hash P (hashed_row_fields spec (cr_cells x)) prev = Inr h"
      "recompute P spec (Some h) (xs @ r # ys) = Inr rest" "hs = (cr_id x, h) # rest"
    by (auto simp: res_simps)
  with Cons.IH [OF h(2)] Cons.prems(2) show ?case by auto
qed

text \<open>The rows up to an anchored id, in order.\<close>

definition rows_upto :: "int \<Rightarrow> chain_row list \<Rightarrow> chain_row list" where
  "rows_upto n rows = filter (\<lambda>r. cr_id r \<le> n) (sort_key cr_id rows)"

lemma anchored_head:
  assumes ok: "verify_anchors P spec rows anchors = Inr []" and a: "a \<in> set anchors"
    and d: "distinct (map cr_id rows)"
  shows "chain_head P spec None (rows_upto (an_last_row_id a) rows) = Inr (Some (an_last_hash a)) \<and>
         rows_upto (an_last_row_id a) rows \<noteq> []"
proof -
  let ?rows = "sort_key cr_id rows"
  have "anchors \<noteq> []" using a by auto
  with ok obtain hs pss where hs: "recompute P spec None ?rows = Inr hs"
    and pss: "map (check_anchor P spec rows hs) (sort_key an_date anchors) = map Inr pss"
      "concat pss = []"
    by (auto simp: verify_anchors_def res_simps)
  have "check_anchor P spec rows hs a \<in> set (map Inr pss)"
    using a pss(1) by (metis image_eqI list.set_map set_sort)
  then have "check_anchor P spec rows hs a = Inr []" using pss(2) by auto
  then have lk: "map_of hs (an_last_row_id a) = Some (an_last_hash a)"
    by (auto simp: check_anchor_def res_simps split: if_splits)
  have "an_last_row_id a \<in> cr_id ` set rows"
    using map_of_SomeD [OF lk] recompute_ids [OF hs] by (metis fst_conv image_eqI list.set_map set_sort)
  then obtain r where r: "r \<in> set ?rows" "cr_id r = an_last_row_id a" by auto
  then obtain xs ys where split: "?rows = xs @ r # ys" by (meson split_list)
  have d': "distinct (map cr_id ?rows)" using d
    by (metis distinct_map distinct_sort set_sort)
  have "sorted (map cr_id ?rows)" by simp
  then have strict: "sorted_wrt (<) (map cr_id (xs @ r # ys))"
    using d' split strict_sorted_iff by metis
  have "filter (\<lambda>r. cr_id r \<le> an_last_row_id a) xs = xs"
    "filter (\<lambda>r. cr_id r \<le> an_last_row_id a) ys = []"
    using strict r(2) by (auto simp: sorted_wrt_append filter_empty_conv filter_id_conv)
  then have "rows_upto (an_last_row_id a) rows = xs @ [r]"
    using r(2) unfolding rows_upto_def split by simp
  then show ?thesis
    using recompute_lookup [of P spec None xs r ys hs] hs d' split lk r(2) by auto
qed

definition chain_specs :: "chain_spec list" where
  "chain_specs = [AUDIT_CHAIN, VERIFICATION_CHAIN, TOMBSTONE_CHAIN]"

lemma chain_specs_fields:
  assumes "spec \<in> set chain_specs"
  shows "distinct (cs_hashed_fields spec @ [''previous_hash''])"
  using assms by (auto simp: chain_specs_def AUDIT_CHAIN_def VERIFICATION_CHAIN_def TOMBSTONE_CHAIN_def)

abbreviation row_fields :: "chain_spec \<Rightarrow> chain_row \<Rightarrow> pydict" where
  "row_fields spec r \<equiv> hashed_row_fields spec (cr_cells r)"

definition same_row :: "chain_spec \<Rightarrow> chain_row \<Rightarrow> chain_row \<Rightarrow> bool" where
  "same_row spec r r' \<longleftrightarrow> list_all2 same_json (map snd (row_fields spec r)) (map snd (row_fields spec r'))"

lemma chain_hash_commits:
  assumes spec: "spec \<in> set chain_specs"
    and h: "chain_hash P (row_fields spec r) p = Inr h" "chain_hash P (row_fields spec r') p' = Inr h"
    and ff: "float_free_json (JObj (row_fields spec r))" "float_free_json (JObj (row_fields spec r'))"
    and coll: "\<not> collision P"
  shows "same_row spec r r' \<and> p = p'"
proof -
  let ?a = "row_fields spec r @ [(''previous_hash'', jopt p)]"
  let ?b = "row_fields spec r' @ [(''previous_hash'', jopt p')]"
  have "float_free_json (JObj ?a)" "float_free_json (JObj ?b)"
    using ff float_free_jopt by (auto simp: float_free_json_def)
  then have "same_json (JObj ?a) (JObj ?b)"
    using h hash_commits [of "JObj ?a" _ "JObj ?b" _ P] coll by (auto simp: chain_hash_def res_simps)
  moreover have "map fst ?a = map fst ?b" "distinct (map fst ?a)"
    using chain_specs_fields [OF spec] by (auto simp: hashed_row_fields_def comp_def)
  ultimately have all: "list_all2 same_json (map snd ?a) (map snd ?b)" by (rule same_json_members)
  have "length (row_fields spec r) = length (row_fields spec r')" by (simp add: hashed_row_fields_def)
  then show ?thesis using all by (auto simp: same_row_def list_all2_append)
qed

lemma chain_heads_agree:
  assumes "chain_head P spec None xs = Inr h" and "chain_head P spec None ys = Inr h"
    and "spec \<in> set chain_specs" and "\<not> collision P"
    and "\<forall>r \<in> set xs \<union> set ys. float_free_json (JObj (row_fields spec r))"
  shows "list_all2 (same_row spec) xs ys"
  using assms
proof (induction xs arbitrary: ys h rule: rev_induct)
  case Nil
  then show ?case
    by (cases ys rule: rev_cases) (auto simp: chain_head_snoc res_simps)
next
  case (snoc x xs)
  then obtain p k where x: "chain_head P spec None xs = Inr p"
      "chain_hash P (row_fields spec x) p = Inr k" "h = Some k"
    by (auto simp: chain_head_snoc res_simps)
  with snoc.prems(2) obtain zs y where ys: "ys = zs @ [y]"
    by (cases ys rule: rev_cases) auto
  with snoc.prems(2) x obtain q where y: "chain_head P spec None zs = Inr q"
      "chain_hash P (row_fields spec y) q = Inr k"
    by (auto simp: chain_head_snoc res_simps)
  have "same_row spec x y \<and> p = q"
    using chain_hash_commits [OF snoc.prems(3) x(2) y(2)] snoc.prems(4,5) ys by simp
  then show ?case
    using snoc.IH [OF x(1)] y(1) snoc.prems(3-) ys by (simp add: list_all2_appendI)
qed

section \<open>Redaction\<close>

text \<open>No value of a sensitive key is left in an object or in the objects inside it.\<close>

fun redacted :: "json \<Rightarrow> bool" where
  "redacted (JObj kvs) =
     list_all (\<lambda>(k, v). if sensitive_key k then v = JStr ''<redacted>'' else redacted v) kvs"
| "redacted v = True"

lemma redact_value_redacted: "redacted (redact_value v)"
  by (induction v rule: redact_value.induct) (auto simp: list_all_iff)

lemma redact_value_id: "redacted v \<Longrightarrow> redact_value v = v"
proof (induction v rule: redact_value.induct)
  case (1 kvs)
  have "(if sensitive_key k then JStr ''<redacted>'' else redact_value v) = v" if "(k, v) \<in> set kvs" for k v
    using 1(1) [of "(k, v)" k v] 1(2) that by (fastforce simp: list_all_iff)
  then have "map (\<lambda>(k, v). (k, if sensitive_key k then JStr ''<redacted>'' else redact_value v)) kvs = kvs"
    by (intro map_idI) auto
  then show ?case by simp
qed simp_all

lemma redact_metadata_obj: "JObj (redact_metadata m) = redact_value (JObj (get_default [] m))"
  by (simp add: redact_metadata_def)

section \<open>Properties\<close>

text \<open>
  C6. The audit log is an intact chain and agrees with its anchors after every sequence of
  \<^verbatim>\<open>append_audit\<close> and \<^verbatim>\<open>record_anchor\<close>: anchors taken earlier stay valid as the log grows.
\<close>

theorem audit_log_verifies:
  assumes "audit_reach P jsonb log" and "jsonb_law jsonb"
  shows "verify_table P AUDIT_CHAIN (al_rows log) = Inr [] \<and>
         verify_anchors P AUDIT_CHAIN (al_rows log) (al_anchors log) = Inr []"
  using audit_inv_verifies [OF audit_reach_inv [OF assms]] .

definition empty_log :: audit_log where
  "empty_log = \<lparr>al_rows = [], al_anchors = [], al_next_id = 1, al_draws = 0\<rparr>"

definition sample_audit :: audit_args where
  "sample_audit = \<lparr>au_action = ''login'', au_target_type = ''account'', au_target_id = ''a'',
     au_result = ''ok'', au_actor_label = ''a'', au_correlation_id = ''c'', au_workspace_id = None,
     au_actor_account_id = Some ''u'', au_error_code = None,
     au_metadata = Some [(''Api-Token'', JStr ''hunter2''), (''n'', JInt 1)], au_now = 0\<rparr>"

lemma sample_redacted:
  "redact_metadata (au_metadata sample_audit) =
     [(''Api-Token'', JStr ''<redacted>''), (''n'', JInt 1)]"
proof -
  have low: "map lower_char ''Api-Token'' = ''api-token''" "map lower_char ''n'' = ''n''"
    by (simp_all add: lower_char_def char_of_def bit_0)
  have "sublist ''token'' ''api-token''"
    using sublist_appendI [of "''token''" "''api-''" "[]"] by simp
  then have "sensitive_key ''Api-Token''"
    unfolding sensitive_key_def low by (simp add: REDACT_KEYS_def)
  moreover have "\<not> sensitive_key ''n''"
    unfolding sensitive_key_def low REDACT_KEYS_def by code_simp
  ultimately show ?thesis by (simp add: redact_metadata_def sample_audit_def)
qed

lemma sample_append:
  "\<exists>log i. append_audit toy_prims (\<lambda>p. p) empty_log sample_audit = Inr (log, i) \<and>
     length (al_rows log) = 1"
proof -
  let ?body = "hashed_row_fields AUDIT_CHAIN (audit_fields sample_audit (''aud-'' @ take 20 (uuid_hex toy_prims 0)))
      @ [(''previous_hash'', jopt None)]"
  have "printable (map_jval codes (JObj ?body))"
    by (simp add: hashed_row_fields_def AUDIT_CHAIN_def audit_fields_def sample_redacted uuid_cell_def
        jopt_def sample_audit_def [THEN arg_cong, of au_workspace_id]
        sample_audit_def [THEN arg_cong, of au_actor_account_id]
        sample_audit_def [THEN arg_cong, of au_error_code])
  then obtain b where "canonical_bytes (JObj ?body) = Inr b"
    using canonical_bytes_total by blast
  then show ?thesis
    by (simp add: append_audit_def Let_def empty_log_def chain_hash_def last_hash_def)
qed

theorem audit_log_verifies_witness:
  "\<exists>log i. append_audit toy_prims (\<lambda>p. p) empty_log sample_audit = Inr (log, i) \<and>
     length (al_rows log) = 1 \<and> verify_table toy_prims AUDIT_CHAIN (al_rows log) = Inr []"
proof -
  obtain log i where app: "append_audit toy_prims (\<lambda>p. p) empty_log sample_audit = Inr (log, i)"
      "length (al_rows log) = 1"
    using sample_append by blast
  have "audit_reach toy_prims (\<lambda>p. p) empty_log"
    by (rule audit_reach.empty) (simp_all add: empty_log_def)
  then have "audit_reach toy_prims (\<lambda>p. p) log" using app(1) by (rule audit_reach.append)
  moreover have "jsonb_law (\<lambda>p. p)" by (simp add: jsonb_law_def)
  ultimately show ?thesis using audit_log_verifies app by blast
qed

text \<open>
  C7. An anchor pins every row before it: if two versions of a chained table both verify against
  the same anchor, then up to the anchored row they hold the same rows in the same order (every
  hashed column the same), or SHA-256 has a collision. Rewriting a whole chain consistently -
  which the plain chain check cannot see - is therefore detected.
\<close>

theorem anchor_pins_rows:
  assumes spec: "spec \<in> set chain_specs"
    and v: "verify_anchors P spec rows anchors = Inr []" "a \<in> set anchors" "distinct (map cr_id rows)"
    and v': "verify_anchors P spec rows' anchors' = Inr []" "a \<in> set anchors'"
      "distinct (map cr_id rows')"
    and ff: "\<forall>r \<in> set rows \<union> set rows'. float_free_json (JObj (hashed_row_fields spec (cr_cells r)))"
  shows "collision P \<or>
    list_all2 (same_row spec) (rows_upto (an_last_row_id a) rows) (rows_upto (an_last_row_id a) rows')"
proof -
  have "\<forall>r \<in> set (rows_upto (an_last_row_id a) rows) \<union> set (rows_upto (an_last_row_id a) rows').
      float_free_json (JObj (hashed_row_fields spec (cr_cells r)))"
    using ff by (auto simp: rows_upto_def)
  then show ?thesis
    using chain_heads_agree [of P spec "rows_upto (an_last_row_id a) rows" _
        "rows_upto (an_last_row_id a) rows'"] anchored_head [OF v] anchored_head [OF v'] spec
    by blast
qed

theorem anchor_pins_rows_witness:
  "\<exists>(log :: audit_log) a. verify_anchors toy_prims AUDIT_CHAIN (al_rows log) [a] = Inr [] \<and>
     \<not> collision toy_prims \<and>
     list_all2 (same_row AUDIT_CHAIN) (rows_upto (an_last_row_id a) (al_rows log))
       (rows_upto (an_last_row_id a) (al_rows log)) \<and>
     rows_upto (an_last_row_id a) (al_rows log) \<noteq> []"
proof -
  obtain log i where app: "append_audit toy_prims (\<lambda>p. p) empty_log sample_audit = Inr (log, i)"
      "length (al_rows log) = 1"
    using sample_append by blast
  have inv: "audit_inv toy_prims log"
    using append_audit_inv [OF _ _ app(1)] by (simp add: audit_inv_def empty_log_def jsonb_law_def)
  obtain r where r: "al_rows log = [r]" using app(2) by (auto simp: length_Suc_conv)
  have an: "al_anchors log = []" using app(1) by (auto simp: append_audit_def empty_log_def Let_def res_simps)
  have cells: "cr_cells r = stored_cells (\<lambda>p. p)
      (audit_fields sample_audit (''aud-'' @ take 20 (uuid_hex toy_prims 0)))"
    using app(1) r by (auto simp: append_audit_def empty_log_def Let_def res_simps)
  let ?body = "[(''chain'', JStr ''audit''), (''anchor_date'', JStr (iso_date 0)),
      (''last_row_id'', JInt (cr_id r)), (''last_hash'', JStr (cr_content_hash r))]"
  obtain b where "canonical_bytes (JObj ?body) = Inr b"
    using canonical_bytes_total [of "JObj ?body"] by auto
  then have "anchor_audit toy_prims log 0 = Inr (log\<lparr>al_anchors := [\<lparr>an_date = 0,
      an_last_row_id = cr_id r, an_last_hash = cr_content_hash r,
      an_anchor_hash = sha256_hex toy_prims b\<rparr>]\<rparr>, Some (sha256_hex toy_prims b))"
    by (simp add: anchor_audit_def record_anchor_def r an anchor_hash_of_def AUDIT_CHAIN_def)
  then obtain a h where a: "anchor_audit toy_prims log 0 = Inr (log\<lparr>al_anchors := [a]\<rparr>, h)" by blast
  have v: "verify_anchors toy_prims AUDIT_CHAIN (al_rows log) [a] = Inr []"
    using audit_inv_verifies [OF anchor_audit_inv [OF inv a]] by simp
  have ff: "float_free_json (JObj (hashed_row_fields AUDIT_CHAIN (cr_cells r)))"
    by (simp add: cells stored_cells_def hashed_row_fields_def AUDIT_CHAIN_def audit_fields_def
        sample_redacted uuid_cell_def jopt_def float_free_json_def
        sample_audit_def [THEN arg_cong, of au_workspace_id]
        sample_audit_def [THEN arg_cong, of au_actor_account_id]
        sample_audit_def [THEN arg_cong, of au_error_code])
  have "AUDIT_CHAIN \<in> set chain_specs" by (simp add: chain_specs_def)
  from anchor_pins_rows [OF this v _ _ v] ff r toy_no_collision
  have "list_all2 (same_row AUDIT_CHAIN) (rows_upto (an_last_row_id a) (al_rows log))
       (rows_upto (an_last_row_id a) (al_rows log))" by simp
  moreover have "rows_upto (an_last_row_id a) (al_rows log) \<noteq> []"
    using anchored_head [OF v, of a] r by simp
  ultimately show ?thesis using v toy_no_collision by blast
qed

text \<open>
  Redaction of audit metadata: no sensitive key of an object or of the objects nested in it
  keeps its value, redacting twice changes nothing, and metadata without such values is recorded
  unchanged.
\<close>

theorem redact_metadata_correct:
  "redacted (JObj (redact_metadata m)) \<and>
   redact_metadata (Some (redact_metadata m)) = redact_metadata m \<and>
   (redacted (JObj (get_default [] m)) \<longleftrightarrow> redact_metadata m = get_default [] m)"
proof (intro conjI)
  show r: "redacted (JObj (redact_metadata m))"
    unfolding redact_metadata_obj by (rule redact_value_redacted)
  have "JObj (redact_metadata (Some (redact_metadata m))) = JObj (redact_metadata m)"
    unfolding redact_metadata_obj [of "Some _"] get_default_simps by (rule redact_value_id [OF r])
  then show "redact_metadata (Some (redact_metadata m)) = redact_metadata m" by simp
  show "redacted (JObj (get_default [] m)) \<longleftrightarrow> redact_metadata m = get_default [] m"
  proof
    assume "redacted (JObj (get_default [] m))"
    then have "JObj (redact_metadata m) = JObj (get_default [] m)"
      unfolding redact_metadata_obj by (rule redact_value_id)
    then show "redact_metadata m = get_default [] m" by simp
  next
    assume "redact_metadata m = get_default [] m"
    with r show "redacted (JObj (get_default [] m))" by (simp only:)
  qed
qed

text \<open>Objects inside a list are not visited: their secrets are recorded as they are.\<close>

lemma redaction_skips_lists:
  assumes "\<not> sensitive_key k"
  shows "redact_metadata (Some [(k, JArr [JObj [(''password'', JStr s)]])]) =
    [(k, JArr [JObj [(''password'', JStr s)]])]"
  using assms by (simp add: redact_metadata_def)

end
