(* ===== verification/Work_Inbox.thy ===== *)
theory Work_Inbox
  imports Work_State Hash_Chain Event_Store "HOL-Library.Product_Lexorder"
begin

text \<open>
  The durable work item inbox: \<^verbatim>\<open>src/server/work/inbox.py\<close>, the receipts of
  \<^verbatim>\<open>src/server/work/receipts.py\<close> and the timeout sweep of \<^verbatim>\<open>src/server/work/timeouts.py\<close>.

  The state is the \<^verbatim>\<open>work_items\<close> and \<^verbatim>\<open>work_item_receipts\<close> tables, the Event store and the audit
  log. A call that raises returns \<open>Inl\<close> and no state: its transaction is rolled back. The store's
  \<^verbatim>\<open>append\<close>, the JSON-Schema validator of results, \<^verbatim>\<open>jsonb\<close> and the primitives are parameters
  (\<open>inbox_env\<close>). Listeners of \<^verbatim>\<open>notify.inbox_changed\<close> cannot raise and do not write, so the calls
  leave no trace here.
\<close>

section \<open>Tables\<close>

definition KINDS :: "string list" where
  "KINDS = [''task_assignment'', ''subtask_assignment'', ''invoke'', ''cancel'', ''brainstorm_turn'',
     ''verification_assignment'']"

definition RECEIPT_KINDS :: "string list" where
  "RECEIPT_KINDS = [''delivery'', ''ack'', ''accept'', ''reject'', ''result'', ''duplicate_result'',
     ''cancel_ack'']"

record work_item =
  wi_id :: string
  wi_workspace_id :: string
  wi_kind :: string
  wi_agent_id :: string
  wi_task_id :: "string option"
  wi_brainstorm_id :: "string option"
  wi_correlation_id :: string
  wi_deadline :: time
  wi_payload :: pydict
  wi_secret_handles :: "string list"
  wi_expected_result_schema :: string
  wi_idempotency_key :: string
  wi_status :: work_item_state
  wi_delivery_count :: int
  wi_delivered_at :: "time option"
  wi_acked_at :: "time option"
  wi_accepted_at :: "time option"
  wi_finished_at :: "time option"
  wi_created_at :: time
  wi_updated_at :: time

record receipt =
  rc_id :: int
  rc_work_item_id :: string
  rc_kind :: string
  rc_delivery_no :: "int option"
  rc_result_ref :: "string option"
  rc_result_sha256 :: "string option"
  rc_usage :: "json option"
  rc_detail :: pydict

record 's inbox =
  ib_store :: 's
  ib_items :: "work_item list"
  ib_receipts :: "receipt list"
  ib_next_receipt :: int
  ib_audit :: audit_log
  ib_draws :: nat

record 's inbox_env =
  ie_prims :: prims
  ie_append :: "'s \<Rightarrow> append_request \<Rightarrow> ('s \<times> append_result) res"
  ie_jsonb :: "pydict \<Rightarrow> pydict"
  ie_validate_result :: "pydict \<Rightarrow> unit res"

text \<open>Who acts: the account that is recorded on Events and audit rows.\<close>

definition payload_ref :: "work_item \<Rightarrow> string" where
  "payload_ref it = ''colab://work/'' @ wi_id it @ ''/payload''"

definition to_delivery :: "work_item \<Rightarrow> pydict" where
  "to_delivery it =
     [(''schema_id'', JStr ''colab.work-item.v1''), (''work_item_id'', JStr (wi_id it)),
      (''kind'', JStr (wi_kind it)), (''agent_id'', JStr (wi_agent_id it)),
      (''task_id'', jopt (wi_task_id it)), (''brainstorm_id'', jopt (wi_brainstorm_id it)),
      (''correlation_id'', JStr (wi_correlation_id it)),
      (''deadline'', JStr (isoformat_utc (wi_deadline it))),
      (''payload_ref'', JStr (payload_ref it)),
      (''secret_handles'', JArr (map JStr (wi_secret_handles it))),
      (''expected_result_schema'', JStr (wi_expected_result_schema it)),
      (''idempotency_key'', JStr (wi_idempotency_key it)),
      (''delivery_no'', JInt (wi_delivery_count it))]"

definition new_work_item_id :: "'s inbox_env \<Rightarrow> 's inbox \<Rightarrow> string" where
  "new_work_item_id E ib = ''wi-'' @ take 24 (uuid_hex (ie_prims E) (ib_draws ib))"

definition find_item :: "string \<Rightarrow> work_item list \<Rightarrow> work_item option" where
  "find_item w its = List.find (\<lambda>it. wi_id it = w) its"

definition load_item :: "'s inbox \<Rightarrow> string \<Rightarrow> work_item res" where
  "load_item ib w = (case find_item w (ib_items ib) of
      None \<Rightarrow> Inl ''WORK_ITEM_NOT_FOUND'' | Some it \<Rightarrow> Inr it)"

definition require_owner :: "work_item \<Rightarrow> string \<Rightarrow> unit res" where
  "require_owner it agent = (if wi_agent_id it \<noteq> agent then Inl ''WORK_ITEM_NOT_OWNER'' else Inr ())"

definition item_request ::
  "work_item \<Rightarrow> string \<Rightarrow> string \<Rightarrow> string \<Rightarrow> string \<Rightarrow> pydict \<Rightarrow> append_request" where
  "item_request it event_type actor operation key payload =
     \<lparr>ar_workspace_id = wi_workspace_id it, ar_aggregate_type = ''work_item'',
      ar_aggregate_id = wi_id it, ar_type = event_type, ar_actor_account_id = actor,
      ar_correlation_id = wi_correlation_id it, ar_idempotency_scope = ''work_item:'' @ operation,
      ar_idempotency_key = key, ar_payload = payload, ar_policy_version = ''policy-v1'',
      ar_channel_id = None, ar_task_id = wi_task_id it, ar_caused_by = None,
      ar_expected_seq = None, ar_sensitive = None, ar_schema_version = 1\<rparr>"

definition append_item_event ::
  "'s inbox_env \<Rightarrow> work_item \<Rightarrow> string \<Rightarrow> string \<Rightarrow> string \<Rightarrow> string \<Rightarrow> pydict \<Rightarrow> 's inbox
    \<Rightarrow> ('s inbox \<times> append_result) res" where
  "append_item_event E it event_type actor operation key payload ib =
     bind_res (ie_append E (ib_store ib) (item_request it event_type actor operation key payload))
       (\<lambda>(s', res). Inr (ib\<lparr>ib_store := s'\<rparr>, res))"

text \<open>\<^verbatim>\<open>_set\<close>: an UPDATE of one row.\<close>

definition set_item :: "string \<Rightarrow> time \<Rightarrow> (work_item \<Rightarrow> work_item) \<Rightarrow> 's inbox \<Rightarrow> 's inbox" where
  "set_item w now f ib = ib\<lparr>ib_items := map (\<lambda>it. if wi_id it = w then (f it)\<lparr>wi_updated_at := now\<rparr>
     else it) (ib_items ib)\<rparr>"

section \<open>Receipts\<close>

text \<open>
  A second \<^verbatim>\<open>result\<close> receipt violates the partial unique index; a failed insert still consumes a
  serial number.
\<close>

definition record_receipt ::
  "string \<Rightarrow> string \<Rightarrow> int option \<Rightarrow> string option \<Rightarrow> string option \<Rightarrow> json option \<Rightarrow> pydict \<Rightarrow> 's inbox
    \<Rightarrow> 's inbox \<times> receipt res" where
  "record_receipt w kind delivery_no ref sha usage detail ib =
     (let r = \<lparr>rc_id = ib_next_receipt ib, rc_work_item_id = w, rc_kind = kind,
            rc_delivery_no = delivery_no, rc_result_ref = ref, rc_result_sha256 = sha,
            rc_usage = usage, rc_detail = detail\<rparr>;
          ib' = ib\<lparr>ib_next_receipt := ib_next_receipt ib + 1\<rparr>
      in if kind \<notin> set RECEIPT_KINDS then (ib, Inl ''ValueError'')
         else if kind = ''result'' \<and>
           list_ex (\<lambda>x. rc_work_item_id x = w \<and> rc_kind x = ''result'') (ib_receipts ib)
         then (ib', Inl ''DuplicateResultError'')
         else (ib'\<lparr>ib_receipts := ib_receipts ib @ [r]\<rparr>, Inr r))"

definition result_receipt_of :: "'s inbox \<Rightarrow> string \<Rightarrow> receipt option" where
  "result_receipt_of ib w =
     List.find (\<lambda>x. rc_work_item_id x = w \<and> rc_kind x = ''result'') (ib_receipts ib)"

definition receipts_of :: "'s inbox \<Rightarrow> string \<Rightarrow> receipt list" where
  "receipts_of ib w = sort_key rc_id (filter (\<lambda>x. rc_work_item_id x = w) (ib_receipts ib))"

definition note_receipt ::
  "string \<Rightarrow> string \<Rightarrow> int option \<Rightarrow> pydict \<Rightarrow> 's inbox \<Rightarrow> 's inbox res" where
  "note_receipt w kind delivery_no detail ib =
     (case record_receipt w kind delivery_no None None None detail ib of
        (ib', Inl e) \<Rightarrow> Inl e | (ib', Inr _) \<Rightarrow> Inr ib')"

section \<open>Enqueue\<close>

record enqueue_args =
  ea_workspace_id :: string
  ea_kind :: string
  ea_agent_id :: string
  ea_payload :: pydict
  ea_deadline :: time
  ea_expected_result_schema :: string
  ea_correlation_id :: string
  ea_idempotency_key :: string
  ea_actor :: string
  ea_task_id :: "string option"
  ea_brainstorm_id :: "string option"
  ea_secret_handles :: "string list"
  ea_work_item_id :: "string option"

definition queued_item :: "(pydict \<Rightarrow> pydict) \<Rightarrow> enqueue_args \<Rightarrow> string \<Rightarrow> time \<Rightarrow> work_item" where
  "queued_item jsonb a w now =
     \<lparr>wi_id = w, wi_workspace_id = ea_workspace_id a, wi_kind = ea_kind a,
      wi_agent_id = ea_agent_id a, wi_task_id = ea_task_id a, wi_brainstorm_id = ea_brainstorm_id a,
      wi_correlation_id = ea_correlation_id a, wi_deadline = ea_deadline a,
      wi_payload = jsonb (ea_payload a), wi_secret_handles = ea_secret_handles a,
      wi_expected_result_schema = ea_expected_result_schema a,
      wi_idempotency_key = ea_idempotency_key a, wi_status = QUEUED, wi_delivery_count = 0,
      wi_delivered_at = None, wi_acked_at = None, wi_accepted_at = None, wi_finished_at = None,
      wi_created_at = now, wi_updated_at = now\<rparr>"

definition enqueue :: "'s inbox_env \<Rightarrow> enqueue_args \<Rightarrow> time \<Rightarrow> 's inbox \<Rightarrow> ('s inbox \<times> work_item) res" where
  "enqueue E a now ib =
     (if ea_kind a \<notin> set KINDS then Inl ''WORK_ITEM_KIND_INVALID''
      else if (ea_kind a = ''brainstorm_turn'') \<noteq> (ea_brainstorm_id a \<noteq> None)
      then Inl ''WORK_ITEM_KIND_INVALID''
      else case List.find (\<lambda>it. wi_idempotency_key it = ea_idempotency_key a) (ib_items ib) of
        Some it \<Rightarrow>
          if wi_agent_id it \<noteq> ea_agent_id a \<or> wi_kind it \<noteq> ea_kind a then Inl ''IDEMPOTENCY_CONFLICT''
          else Inr (ib, it)
      | None \<Rightarrow>
          bind_res (canonical_bytes (JObj (ea_payload a))) (\<lambda>b.
          if length b > 1000000 then Inl ''WORK_ITEM_PAYLOAD_TOO_LARGE''
          else
            let given = ea_work_item_id a \<noteq> None \<and> ea_work_item_id a \<noteq> Some [];
                w = (if given then the (ea_work_item_id a) else new_work_item_id E ib);
                ib1 = (if given then ib else ib\<lparr>ib_draws := ib_draws ib + 1\<rparr>);
                it = queued_item (ie_jsonb E) a w now
            in if find_item w (ib_items ib) \<noteq> None then Inl ''IntegrityError''
               else bind_res (append_item_event E it ''WORK_ITEM_QUEUED'' (ea_actor a) ''queue''
                      (ea_idempotency_key a)
                      [(''work_item_id'', JStr w), (''kind'', JStr (ea_kind a)),
                       (''agent_id'', JStr (ea_agent_id a)),
                       (''deadline'', JStr (isoformat_utc (ea_deadline a))),
                       (''task_id'', jopt (ea_task_id a)), (''brainstorm_id'', jopt (ea_brainstorm_id a))]
                      (ib1\<lparr>ib_items := ib_items ib1 @ [it]\<rparr>)) (\<lambda>(ib2, _). Inr (ib2, it))))"

section \<open>Poll\<close>

definition deliver ::
  "'s inbox_env \<Rightarrow> string \<Rightarrow> time \<Rightarrow> work_item \<Rightarrow> 's inbox \<times> work_item list \<times> string list
    \<Rightarrow> ('s inbox \<times> work_item list \<times> string list) res" where
  "deliver E actor now it = (\<lambda>(ib, delivered, event_ids).
     if wi_status it \<noteq> QUEUED then Inr (ib, delivered @ [it], event_ids)
     else
       let redelivery = wi_delivery_count it > 0;
           n = wi_delivery_count it + 1
       in bind_res (work_transition (if redelivery then DELIVERED else wi_status it)
              (if redelivery then ''redeliver'' else ''deliver'')) (\<lambda>new_state.
          bind_res (note_receipt (wi_id it) ''delivery'' (Some n) []
              (set_item (wi_id it) now (\<lambda>x. x\<lparr>wi_status := new_state, wi_delivery_count := n,
                 wi_delivered_at := Some now\<rparr>) ib)) (\<lambda>ib1.
          bind_res (append_item_event E it ''WORK_ITEM_DELIVERED'' actor ''deliver''
              (wi_id it @ '':'' @ int_str n)
              [(''work_item_id'', JStr (wi_id it)), (''delivery_no'', JInt n)] ib1) (\<lambda>(ib2, res).
          bind_res (load_item ib2 (wi_id it)) (\<lambda>it'.
            Inr (ib2, delivered @ [it'], event_ids @ [res_event_id res]))))))"

definition due_items :: "'s inbox \<Rightarrow> string \<Rightarrow> int \<Rightarrow> work_item list" where
  "due_items ib agent max_items =
     take (nat (max 1 (min max_items 100)))
       (sort_key (\<lambda>it. (wi_created_at it, wi_id it))
         (filter (\<lambda>it. wi_agent_id it = agent \<and> wi_status it \<in> {QUEUED, DELIVERED}) (ib_items ib)))"

definition poll ::
  "'s inbox_env \<Rightarrow> string \<Rightarrow> string \<Rightarrow> int \<Rightarrow> time \<Rightarrow> 's inbox
    \<Rightarrow> ('s inbox \<times> work_item list \<times> string list) res" where
  "poll E agent actor max_items now ib =
     fold_res (deliver E actor now) (due_items ib agent max_items) (ib, [], [])"

section \<open>Changes of one item\<close>

text \<open>The UPDATE, the receipt and the Event of one change, and the row as it is read back.\<close>

definition change_item ::
  "'s inbox_env \<Rightarrow> work_item \<Rightarrow> (work_item \<Rightarrow> work_item) \<Rightarrow> (string \<times> int option \<times> pydict) option
    \<Rightarrow> string \<Rightarrow> string \<Rightarrow> string \<Rightarrow> pydict \<Rightarrow> time \<Rightarrow> 's inbox \<Rightarrow> ('s inbox \<times> work_item) res" where
  "change_item E it f rcpt event_type actor operation payload now ib =
     (let w = wi_id it; ib1 = set_item w now f ib in
      bind_res (case rcpt of None \<Rightarrow> Inr ib1 | Some (k, n, d) \<Rightarrow> note_receipt w k n d ib1) (\<lambda>ib2.
      bind_res (append_item_event E it event_type actor operation w
          ((''work_item_id'', JStr w) # payload) ib2) (\<lambda>(ib3, _).
      bind_res (load_item ib3 w) (\<lambda>it'. Inr (ib3, it')))))"

definition ack_item ::
  "'s inbox_env \<Rightarrow> string \<Rightarrow> string \<Rightarrow> string \<Rightarrow> time \<Rightarrow> 's inbox \<Rightarrow> ('s inbox \<times> work_item) res" where
  "ack_item E w agent actor now ib =
     bind_res (load_item ib w) (\<lambda>it.
     bind_res (require_owner it agent) (\<lambda>_.
     if wi_status it \<in> {ACKED, IN_PROGRESS} then Inr (ib, it)
     else bind_res (work_transition (wi_status it) ''ack'') (\<lambda>s.
       change_item E it (\<lambda>x. x\<lparr>wi_status := s, wi_acked_at := Some now\<rparr>)
         (Some (''ack'', Some (wi_delivery_count it), [])) ''WORK_ITEM_ACKED'' actor ''ack'' [] now ib)))"

definition start_item ::
  "'s inbox_env \<Rightarrow> string \<Rightarrow> string \<Rightarrow> string \<Rightarrow> time \<Rightarrow> 's inbox \<Rightarrow> ('s inbox \<times> work_item) res" where
  "start_item E w agent actor now ib =
     bind_res (load_item ib w) (\<lambda>it.
     bind_res (require_owner it agent) (\<lambda>_.
     if wi_status it = IN_PROGRESS then Inr (ib, it)
     else bind_res (work_transition (wi_status it) ''start'') (\<lambda>s.
       change_item E it (\<lambda>x. x\<lparr>wi_status := s, wi_accepted_at := Some now\<rparr>)
         (Some (''accept'', Some (wi_delivery_count it), [])) ''WORK_ITEM_STARTED'' actor ''start'' [] now ib)))"

definition reject_item ::
  "'s inbox_env \<Rightarrow> string \<Rightarrow> string \<Rightarrow> string \<Rightarrow> string \<Rightarrow> time \<Rightarrow> 's inbox \<Rightarrow> ('s inbox \<times> work_item) res" where
  "reject_item E w agent reason actor now ib =
     (if reason \<notin> set REJECTION_CODES then Inl ''WORK_ITEM_REJECTION_CODE_INVALID''
      else bind_res (load_item ib w) (\<lambda>it.
       bind_res (require_owner it agent) (\<lambda>_.
       bind_res (work_transition (wi_status it) ''reject'') (\<lambda>s.
         change_item E it (\<lambda>x. x\<lparr>wi_status := s, wi_finished_at := Some now\<rparr>)
           (Some (''reject'', Some (wi_delivery_count it), [(''reason_code'', JStr reason)]))
           ''WORK_ITEM_REJECTED'' actor ''reject'' [(''reason_code'', JStr reason)] now ib))))"

definition cancel_item ::
  "'s inbox_env \<Rightarrow> string \<Rightarrow> string \<Rightarrow> string \<Rightarrow> time \<Rightarrow> 's inbox \<Rightarrow> ('s inbox \<times> work_item) res" where
  "cancel_item E w reason actor now ib =
     bind_res (load_item ib w) (\<lambda>it.
     bind_res (work_transition (wi_status it) ''cancel'') (\<lambda>s.
       change_item E it (\<lambda>x. x\<lparr>wi_status := s, wi_finished_at := Some now\<rparr>) None
         ''WORK_ITEM_CANCELLED'' actor ''cancel'' [(''reason_code'', JStr reason)] now ib))"

definition expire_item ::
  "'s inbox_env \<Rightarrow> string \<Rightarrow> string \<Rightarrow> string \<Rightarrow> time \<Rightarrow> 's inbox \<Rightarrow> ('s inbox \<times> work_item) res" where
  "expire_item E w reason actor now ib =
     bind_res (load_item ib w) (\<lambda>it.
     bind_res (work_transition (wi_status it) ''expire'') (\<lambda>s.
       change_item E it (\<lambda>x. x\<lparr>wi_status := s, wi_finished_at := Some now\<rparr>) None
         ''WORK_ITEM_EXPIRED'' actor ''expire'' [(''reason_code'', JStr reason)] now ib))"

definition requeue_for_redelivery :: "string \<Rightarrow> time \<Rightarrow> 's inbox \<Rightarrow> ('s inbox \<times> work_item) res" where
  "requeue_for_redelivery w now ib =
     bind_res (load_item ib w) (\<lambda>it.
     bind_res (work_transition (wi_status it) ''redeliver'') (\<lambda>_.
       let ib1 = set_item w now (\<lambda>x. x\<lparr>wi_status := QUEUED\<rparr>) ib in
       bind_res (load_item ib1 w) (\<lambda>it'. Inr (ib1, it'))))"

section \<open>Results\<close>

record result_outcome =
  ro_code :: string
  ro_work_item_id :: string
  ro_receipt_id :: int
  ro_result_ref :: string
  ro_event_id :: "string option"
  ro_item :: work_item

definition result_ref_for :: "prims \<Rightarrow> string \<Rightarrow> pydict \<Rightarrow> (string \<times> string) res" where
  "result_ref_for P w r =
     bind_res (canonical_bytes (JObj r)) (\<lambda>b.
       let digest = sha256_hex P b in
       Inr (''colab://work/'' @ w @ ''/result/'' @ digest, digest))"

definition item_audit ::
  "work_item \<Rightarrow> string \<Rightarrow> string option \<Rightarrow> string \<Rightarrow> string \<Rightarrow> pydict \<Rightarrow> time \<Rightarrow> audit_args" where
  "item_audit it action code actor agent metadata now =
     \<lparr>au_action = action, au_target_type = ''work_item'', au_target_id = wi_id it,
      au_result = ''IGNORED'', au_actor_label = agent, au_correlation_id = wi_correlation_id it,
      au_workspace_id = Some (wi_workspace_id it), au_actor_account_id = Some actor,
      au_error_code = code, au_metadata = Some metadata, au_now = now\<rparr>"

definition write_audit :: "'s inbox_env \<Rightarrow> audit_args \<Rightarrow> 's inbox \<Rightarrow> 's inbox res" where
  "write_audit E x ib =
     bind_res (append_audit (ie_prims E) (ie_jsonb E) (ib_audit ib) x) (\<lambda>(log, _).
       Inr (ib\<lparr>ib_audit := log\<rparr>))"

definition duplicate ::
  "'s inbox_env \<Rightarrow> work_item \<Rightarrow> receipt option \<Rightarrow> string \<Rightarrow> string \<Rightarrow> string \<Rightarrow> string \<Rightarrow> time \<Rightarrow> 's inbox
    \<Rightarrow> ('s inbox \<times> result_outcome) res" where
  "duplicate E it existing ref digest actor agent now ib =
     (let first_ref = (case existing of None \<Rightarrow> [] | Some r \<Rightarrow> get_default [] (rc_result_ref r));
          same = (case existing of None \<Rightarrow> False | Some r \<Rightarrow> rc_result_sha256 r = Some digest)
      in case record_receipt (wi_id it) ''duplicate_result'' (Some (wi_delivery_count it)) (Some ref)
           (Some digest) None [(''first_result_ref'', JStr first_ref), (''same_body'', JBool same)] ib of
        (_, Inl e) \<Rightarrow> Inl e
      | (ib1, Inr dup) \<Rightarrow>
          bind_res (write_audit E (item_audit it ''work.duplicate_result_ignored''
              (Some ''DUPLICATE_RESULT_IGNORED'') actor agent
              [(''first_result_ref'', JStr first_ref), (''ignored_result_ref'', JStr ref)] now) ib1) (\<lambda>ib2.
          bind_res (load_item ib2 (wi_id it)) (\<lambda>it'.
            Inr (ib2, \<lparr>ro_code = ''DUPLICATE_RESULT_IGNORED'', ro_work_item_id = wi_id it,
              ro_receipt_id = (case existing of Some r \<Rightarrow> rc_id r | None \<Rightarrow> rc_id dup),
              ro_result_ref = (if first_ref \<noteq> [] then first_ref else ref), ro_event_id = None,
              ro_item = it'\<rparr>))))"

text \<open>The second half of \<^verbatim>\<open>result\<close>: the receipt, the row, the Event and the ignored identity.\<close>

definition accept_result ::
  "'s inbox_env \<Rightarrow> string \<Rightarrow> pydict \<Rightarrow> string \<Rightarrow> string \<Rightarrow> string \<Rightarrow> string \<Rightarrow> time \<Rightarrow> work_item
    \<Rightarrow> work_item_state \<Rightarrow> 's inbox \<Rightarrow> ('s inbox \<times> result_outcome) res" where
  "accept_result E w payload ref digest actor agent now it s ib =
     (case record_receipt w ''result'' (Some (wi_delivery_count it)) (Some ref) (Some digest)
         (map_of payload ''usage'')
         [(''status'', get_default JNull (map_of payload ''status'')),
          (''error_code'', get_default JNull (map_of payload ''error_code''))] ib of
       (ib1, Inl e) \<Rightarrow>
         if e = ''DuplicateResultError''
         then duplicate E it (result_receipt_of ib1 w) ref digest actor agent now ib1
         else Inl e
     | (ib1, Inr rcpt) \<Rightarrow>
         bind_res (append_item_event E it ''WORK_ITEM_RESULT_RECEIVED'' actor ''result'' w
             [(''work_item_id'', JStr w), (''result_ref'', JStr ref),
              (''status'', get_default JNull (map_of payload ''status''))]
             (set_item w now (\<lambda>x. x\<lparr>wi_status := s, wi_finished_at := Some now\<rparr>) ib1)) (\<lambda>(ib2, res).
         bind_res (case map_of payload ''display_identity'' of
             None \<Rightarrow> Inr ib2
           | Some v \<Rightarrow> if v = JNull then Inr ib2 else
               write_audit E (item_audit it ''work.display_identity_ignored'' None actor agent
                 [(''reason'', JStr (''development plan '' @ [CHR 0xA7] @
                    ''7A.4: display identity is set by the server''))] now) ib2) (\<lambda>ib3.
         bind_res (load_item ib3 w) (\<lambda>it2.
           Inr (ib3, \<lparr>ro_code = ''RESULT_ACCEPTED'', ro_work_item_id = w,
             ro_receipt_id = rc_id rcpt, ro_result_ref = ref, ro_event_id = Some (res_event_id res),
             ro_item = it2\<rparr>)))))"

text \<open>\<open>now\<close> and \<open>now'\<close> are the readings of the clock by the implied ack and by the result itself.\<close>

definition result_item ::
  "'s inbox_env \<Rightarrow> string \<Rightarrow> string \<Rightarrow> pydict \<Rightarrow> string \<Rightarrow> time \<Rightarrow> time \<Rightarrow> 's inbox
    \<Rightarrow> ('s inbox \<times> result_outcome) res" where
  "result_item E w agent payload actor now now' ib =
     bind_res (ie_validate_result E payload) (\<lambda>_.
     if get_str payload ''work_item_id'' \<noteq> Some w then Inl ''WORK_RESULT_SCHEMA_INVALID''
     else
       bind_res (load_item ib w) (\<lambda>it.
       bind_res (require_owner it agent) (\<lambda>_.
       bind_res (result_ref_for (ie_prims E) w payload) (\<lambda>(ref, digest).
       let existing = result_receipt_of ib w in
       if existing \<noteq> None \<or> wi_status it \<in> set TERMINAL_STATES
       then duplicate E it existing ref digest actor agent now' ib
       else
         bind_res (if wi_status it = DELIVERED then ack_item E w agent actor now ib else Inr (ib, it))
           (\<lambda>(ib1, it1).
         bind_res (work_transition (wi_status it1) ''result'') (\<lambda>s.
           accept_result E w payload ref digest actor agent now' it1 s ib1))))))"

section \<open>The timeout sweep\<close>

definition open_items :: "string option \<Rightarrow> string option \<Rightarrow> 's inbox \<Rightarrow> work_item list" where
  "open_items agent ws ib =
     sort_key (\<lambda>it. (wi_created_at it, wi_id it))
       (filter (\<lambda>it. wi_status it \<in> {QUEUED, DELIVERED, ACKED, IN_PROGRESS} \<and>
          (ws = None \<or> ws = Some (wi_workspace_id it)) \<and> (agent = None \<or> agent = Some (wi_agent_id it)))
        (ib_items ib))"

record sweep_report =
  sr_requeued :: "(string \<times> string) list"
  sr_expired :: "(string \<times> string) list"
  sr_reroute_required :: "(string \<times> string) list"
  sr_waiting_required :: "(string \<times> string) list"
  sr_invalid :: "(string \<times> string) list"

definition empty_report :: sweep_report where
  "empty_report = \<lparr>sr_requeued = [], sr_expired = [], sr_reroute_required = [],
     sr_waiting_required = [], sr_invalid = []\<rparr>"

definition sweep_item ::
  "'s inbox_env \<Rightarrow> string \<Rightarrow> (string \<Rightarrow> int) \<Rightarrow> time \<Rightarrow> time \<Rightarrow> work_item \<Rightarrow> 's inbox \<times> sweep_report
    \<Rightarrow> ('s inbox \<times> sweep_report) res" where
  "sweep_item E actor counts now now' it = (\<lambda>(ib, rep).
     case next_action (wi_status it) (wi_delivered_at it) (wi_acked_at it) now (wi_delivery_count it)
        (wi_kind it) (wi_accepted_at it) (counts (wi_id it)) (Some (wi_deadline it)) of
       Inl e \<Rightarrow> Inr (ib, rep\<lparr>sr_invalid := sr_invalid rep @ [(wi_id it, e)]\<rparr>)
     | Inr d \<Rightarrow>
        (case td_action d of
           ActNone \<Rightarrow> Inr (ib, rep)
         | ActRedeliver \<Rightarrow>
             bind_res (requeue_for_redelivery (wi_id it) now' ib) (\<lambda>(ib', _).
               Inr (ib', rep\<lparr>sr_requeued := sr_requeued rep @ [(wi_id it, td_reason d)]\<rparr>))
         | ActExpire \<Rightarrow>
             (let reason = (if td_reason d = ''DEADLINE_EXCEEDED'' then ''DEADLINE'' else ''ACK_TIMEOUT'') in
              bind_res (expire_item E (wi_id it) reason actor now' ib) (\<lambda>(ib', _).
                Inr (ib', rep\<lparr>sr_expired := sr_expired rep @ [(wi_id it, reason)]\<rparr>)))
         | ActReroute \<Rightarrow>
             Inr (ib, rep\<lparr>sr_reroute_required := sr_reroute_required rep @ [(wi_id it, td_reason d)]\<rparr>)
         | ActWaiting \<Rightarrow>
             Inr (ib, rep\<lparr>sr_waiting_required := sr_waiting_required rep @ [(wi_id it, td_reason d)]\<rparr>)))"

definition sweep ::
  "'s inbox_env \<Rightarrow> string \<Rightarrow> string option \<Rightarrow> string option \<Rightarrow> (string \<Rightarrow> int) \<Rightarrow> time \<Rightarrow> time \<Rightarrow> 's inbox
    \<Rightarrow> ('s inbox \<times> sweep_report) res" where
  "sweep E actor agent ws counts now now' ib =
     fold_res (sweep_item E actor counts now now') (open_items agent ws ib) (ib, empty_report)"

end
