(* ===== verification/Work_Runs.thy ===== *)
theory Work_Runs
  imports Work_Inbox
begin

text \<open>
  Runs of inbox operations: the well-formedness of every reachable inbox, exactly-once results,
  the timeout sweep, and the inbox as an implementation of the result ledger.
\<close>

section \<open>Operations\<close>

datatype inbox_op =
    Enqueue enqueue_args time
  | Poll string string int time
  | Ack string string string time
  | Start string string string time
  | Reject string string string string time
  | Cancel string string string time
  | Result string string pydict string time time
  | Sweep string "string option" "string option" "string \<Rightarrow> int" time time

fun inbox_exec :: "'s inbox_env \<Rightarrow> inbox_op \<Rightarrow> 's inbox \<Rightarrow> 's inbox res" where
  "inbox_exec E (Enqueue a now) ib = bind_res (enqueue E a now ib) (\<lambda>(ib', _). Inr ib')"
| "inbox_exec E (Poll agent actor n now) ib = bind_res (poll E agent actor n now ib) (\<lambda>(ib', _). Inr ib')"
| "inbox_exec E (Ack w agent actor now) ib = bind_res (ack_item E w agent actor now ib) (\<lambda>(ib', _). Inr ib')"
| "inbox_exec E (Start w agent actor now) ib = bind_res (start_item E w agent actor now ib) (\<lambda>(ib', _). Inr ib')"
| "inbox_exec E (Reject w agent reason actor now) ib =
     bind_res (reject_item E w agent reason actor now ib) (\<lambda>(ib', _). Inr ib')"
| "inbox_exec E (Cancel w reason actor now) ib =
     bind_res (cancel_item E w reason actor now ib) (\<lambda>(ib', _). Inr ib')"
| "inbox_exec E (Result w agent payload actor now now') ib =
     bind_res (result_item E w agent payload actor now now' ib) (\<lambda>(ib', _). Inr ib')"
| "inbox_exec E (Sweep actor agent ws counts now now') ib =
     bind_res (sweep E actor agent ws counts now now' ib) (\<lambda>(ib', _). Inr ib')"

text \<open>An operation that raises changes nothing.\<close>

definition inbox_after :: "'s inbox_env \<Rightarrow> inbox_op \<Rightarrow> 's inbox \<Rightarrow> 's inbox" where
  "inbox_after E op ib = (case inbox_exec E op ib of Inl _ \<Rightarrow> ib | Inr ib' \<Rightarrow> ib')"

definition inbox_run :: "'s inbox_env \<Rightarrow> inbox_op list \<Rightarrow> 's inbox \<Rightarrow> 's inbox" where
  "inbox_run E ops ib = fold (inbox_after E) ops ib"

definition empty_inbox :: "'s \<Rightarrow> audit_log \<Rightarrow> 's inbox" where
  "empty_inbox s log = \<lparr>ib_store = s, ib_items = [], ib_receipts = [], ib_next_receipt = 1,
     ib_audit = log, ib_draws = 0\<rparr>"

section \<open>Well-formed inboxes\<close>

definition item_ok :: "work_item \<Rightarrow> bool" where
  "item_ok it \<longleftrightarrow>
     (wi_status it = DELIVERED \<longrightarrow> wi_delivered_at it \<noteq> None) \<and>
     (wi_status it \<in> {ACKED, IN_PROGRESS} \<longrightarrow> wi_acked_at it \<noteq> None) \<and>
     0 \<le> wi_delivery_count it \<and> wi_delivery_count it \<le> 1 + WORK_ITEM_MAX_REDELIVERIES \<and>
     (wi_status it = QUEUED \<longrightarrow> wi_delivery_count it \<le> WORK_ITEM_MAX_REDELIVERIES) \<and>
     (wi_status it \<in> set TERMINAL_STATES \<longleftrightarrow> wi_finished_at it \<noteq> None)"

definition is_result :: "string \<Rightarrow> receipt \<Rightarrow> bool" where
  "is_result w r \<longleftrightarrow> rc_work_item_id r = w \<and> rc_kind r = ''result''"

definition has_result :: "work_item list \<Rightarrow> string \<Rightarrow> bool" where
  "has_result its w \<longleftrightarrow> list_ex (\<lambda>it. wi_id it = w \<and> wi_status it = RESULT_RECEIVED) its"

definition ref_ok :: "receipt \<Rightarrow> bool" where
  "ref_ok r \<longleftrightarrow> (rc_kind r = ''result'' \<longrightarrow> get_default [] (rc_result_ref r) \<noteq> [])"

definition inbox_inv :: "'s inbox \<Rightarrow> bool" where
  "inbox_inv ib \<longleftrightarrow> distinct (map wi_id (ib_items ib)) \<and>
     distinct (map wi_idempotency_key (ib_items ib)) \<and> list_all item_ok (ib_items ib) \<and>
     (\<forall>w. length (filter (is_result w) (ib_receipts ib)) = of_bool (has_result (ib_items ib) w)) \<and>
     list_all ref_ok (ib_receipts ib)"

text \<open>What a step keeps: finished items and receipts are never changed.\<close>

definition keeps :: "'s inbox \<Rightarrow> 's inbox \<Rightarrow> bool" where
  "keeps ib ib' \<longleftrightarrow>
     (\<forall>it \<in> set (ib_items ib). wi_status it \<in> set TERMINAL_STATES \<longrightarrow> it \<in> set (ib_items ib')) \<and>
     set (ib_receipts ib) \<subseteq> set (ib_receipts ib')"

lemma keeps_refl [simp]: "keeps ib ib"
  by (simp add: keeps_def)

lemma keeps_trans: "keeps a b \<Longrightarrow> keeps b c \<Longrightarrow> keeps a c"
  by (auto simp: keeps_def)

lemma find_item_Some: "find_item w its = Some it \<Longrightarrow> it \<in> set its \<and> wi_id it = w"
  by (auto simp: find_item_def find_Some_iff)

lemma find_item_None: "find_item w its = None \<longleftrightarrow> w \<notin> wi_id ` set its"
  by (auto simp: find_item_def find_None_iff)

lemma find_item_mem:
  assumes "distinct (map wi_id its)" and "it \<in> set its"
  shows "find_item (wi_id it) its = Some it"
  using assms by (induction its) (auto simp: find_item_def)

lemma load_item_Inr: "load_item ib w = Inr it \<longleftrightarrow> find_item w (ib_items ib) = Some it"
  by (simp add: load_item_def split: option.split)

lemma same_id: "distinct (map wi_id its) \<Longrightarrow> x \<in> set its \<Longrightarrow> y \<in> set its \<Longrightarrow> wi_id x = wi_id y \<Longrightarrow> x = y"
  by (auto simp: distinct_map inj_on_def)

text \<open>The effect of a change to one row.\<close>

definition changes :: "work_item \<Rightarrow> (work_item \<Rightarrow> work_item) \<Rightarrow> 's inbox \<Rightarrow> 's inbox \<Rightarrow> bool" where
  "changes it g ib ib' \<longleftrightarrow>
     ib_items ib' = map (\<lambda>x. if wi_id x = wi_id it then g x else x) (ib_items ib) \<and>
     set (ib_receipts ib) \<subseteq> set (ib_receipts ib') \<and>
     (list_all ref_ok (ib_receipts ib) \<longrightarrow> list_all ref_ok (ib_receipts ib')) \<and>
     (\<forall>w. length (filter (is_result w) (ib_receipts ib')) = length (filter (is_result w) (ib_receipts ib)) +
        of_bool (w = wi_id it \<and> wi_status (g it) = RESULT_RECEIVED))"

lemma changes_inv:
  assumes inv: "inbox_inv ib" and it: "it \<in> set (ib_items ib)" "wi_status it \<notin> set TERMINAL_STATES"
    and ch: "changes it g ib ib'"
    and g: "\<And>x. wi_id (g x) = wi_id x" "\<And>x. wi_idempotency_key (g x) = wi_idempotency_key x" "item_ok (g it)"
  shows "inbox_inv ib' \<and> keeps ib ib'"
proof -
  let ?h = "\<lambda>x. if wi_id x = wi_id it then g x else x"
  have items: "ib_items ib' = map ?h (ib_items ib)" using ch by (simp add: changes_def)
  have d: "distinct (map wi_id (ib_items ib))" using inv by (simp add: inbox_inv_def)
  have only: "?h x = (if x = it then g it else x)" if "x \<in> set (ib_items ib)" for x
    using same_id [OF d that it(1)] by auto
  have keys: "map wi_id (ib_items ib') = map wi_id (ib_items ib)"
    "map wi_idempotency_key (ib_items ib') = map wi_idempotency_key (ib_items ib)"
    using g(1,2) by (simp_all add: items)
  have ok: "list_all item_ok (ib_items ib')"
    using inv g(3) only by (auto simp: items list_all_iff inbox_inv_def)
  have res: "has_result (ib_items ib') w \<longleftrightarrow> has_result (ib_items ib) w \<or>
      w = wi_id it \<and> wi_status (g it) = RESULT_RECEIVED" for w
  proof -
    have "has_result (ib_items ib') w \<longleftrightarrow>
        (\<exists>x \<in> set (ib_items ib). wi_id (?h x) = w \<and> wi_status (?h x) = RESULT_RECEIVED)"
      unfolding has_result_def items list_ex_iff by auto
    also have "\<dots> \<longleftrightarrow> (\<exists>x \<in> set (ib_items ib). wi_id (if x = it then g it else x) = w \<and>
        wi_status (if x = it then g it else x) = RESULT_RECEIVED)"
      using only by (intro bex_cong) auto
    also have "\<dots> \<longleftrightarrow> (\<exists>x \<in> set (ib_items ib). x \<noteq> it \<and> wi_id x = w \<and> wi_status x = RESULT_RECEIVED) \<or>
        w = wi_id it \<and> wi_status (g it) = RESULT_RECEIVED"
      using it(1) g(1) by auto
    finally show ?thesis using it(2) by (auto simp: has_result_def list_ex_iff)
  qed
  have none: "\<not> has_result (ib_items ib) (wi_id it)"
    using same_id [OF d _ it(1)] it(2) by (auto simp: has_result_def list_ex_iff)
  have "length (filter (is_result w) (ib_receipts ib')) = of_bool (has_result (ib_items ib) w) +
      of_bool (w = wi_id it \<and> wi_status (g it) = RESULT_RECEIVED)" for w
    using inv ch by (simp add: inbox_inv_def changes_def)
  then have "length (filter (is_result w) (ib_receipts ib')) = of_bool (has_result (ib_items ib') w)" for w
    using none by (auto simp: res)
  moreover have "list_all ref_ok (ib_receipts ib')" using inv ch by (simp add: inbox_inv_def changes_def)
  ultimately have "inbox_inv ib'"
    using inv keys ok unfolding inbox_inv_def by metis
  moreover have "keeps ib ib'"
    unfolding keeps_def using ch only it(2) by (auto simp: items changes_def)
  ultimately show ?thesis by blast
qed

lemma changes_other: "changes it g ib ib' \<Longrightarrow> x \<in> set (ib_items ib) \<Longrightarrow> wi_id x \<noteq> wi_id it \<Longrightarrow> x \<in> set (ib_items ib')"
  by (force simp: changes_def)

lemma changes_find:
  assumes "inbox_inv ib" and "it \<in> set (ib_items ib)" and ch: "changes it g ib ib'"
    and g: "\<And>x. wi_id (g x) = wi_id x"
  shows "find_item (wi_id it) (ib_items ib') = Some (g it)"
proof -
  let ?h = "\<lambda>x. if wi_id x = wi_id it then g x else x"
  have items: "ib_items ib' = map ?h (ib_items ib)" using ch by (simp add: changes_def)
  have "map wi_id (ib_items ib') = map wi_id (ib_items ib)" using g by (simp add: items)
  then have "distinct (map wi_id (ib_items ib'))" using assms(1) by (simp add: inbox_inv_def)
  moreover have "g it \<in> set (ib_items ib')" using assms(2) by (force simp: items)
  ultimately show ?thesis using find_item_mem [of "ib_items ib'" "g it"] g by simp
qed

lemma changes_ids: "changes it g ib ib' \<Longrightarrow> (\<And>x. wi_id (g x) = wi_id x) \<Longrightarrow> map wi_id (ib_items ib') = map wi_id (ib_items ib)"
  by (simp add: changes_def)

section \<open>Every operation\<close>

lemma note_receipt_Inr:
  assumes "note_receipt w k n d ib = Inr ib'"
  shows "ib_items ib' = ib_items ib \<and> ib_store ib' = ib_store ib \<and>
    (\<exists>r. ib_receipts ib' = ib_receipts ib @ [r] \<and> rc_kind r = k)"
  using assms by (auto simp: note_receipt_def record_receipt_def Let_def split: if_splits)

lemma append_item_event_Inr:
  assumes "append_item_event E it t actor op k p ib = Inr (ib', res)"
  shows "ib_items ib' = ib_items ib \<and> ib_receipts ib' = ib_receipts ib \<and>
    ib_next_receipt ib' = ib_next_receipt ib"
  using assms by (auto simp: append_item_event_def bind_res_eq_Inr)

lemma set_item_sel [simp]:
  "ib_receipts (set_item w now f ib) = ib_receipts ib" "ib_store (set_item w now f ib) = ib_store ib"
  "ib_next_receipt (set_item w now f ib) = ib_next_receipt ib" "ib_audit (set_item w now f ib) = ib_audit ib"
  by (simp_all add: set_item_def)

lemma change_item_changes:
  assumes "change_item E it f rcpt t actor op p now ib = Inr (ib', it')"
    and "\<And>k n d. rcpt = Some (k, n, d) \<Longrightarrow> k \<noteq> ''result''" and "wi_status (f it) \<noteq> RESULT_RECEIVED"
  shows "changes it (\<lambda>x. (f x)\<lparr>wi_updated_at := now\<rparr>) ib ib' \<and> find_item (wi_id it) (ib_items ib') = Some it'"
proof -
  let ?ib1 = "set_item (wi_id it) now f ib"
  obtain ib2 res where r: "(case rcpt of None \<Rightarrow> Inr ?ib1 | Some (k, n, d) \<Rightarrow> note_receipt (wi_id it) k n d ?ib1) = Inr ib2"
    and a: "append_item_event E it t actor op (wi_id it) ((''work_item_id'', JStr (wi_id it)) # p) ib2 = Inr (ib', res)"
    and l: "load_item ib' (wi_id it) = Inr it'"
    using assms(1) by (auto simp: change_item_def bind_res_eq_Inr Let_def)
  have "ib_items ib2 = ib_items ?ib1 \<and> (ib_receipts ib2 = ib_receipts ib \<or>
      (\<exists>r. ib_receipts ib2 = ib_receipts ib @ [r] \<and> rc_kind r \<noteq> ''result''))"
    using r assms(2) note_receipt_Inr by (fastforce split: option.splits)
  then show ?thesis
    using append_item_event_Inr [OF a] l assms(3)
    by (auto simp: changes_def set_item_def load_item_Inr is_result_def ref_ok_def)
qed

lemma change_item_receipts:
  assumes "change_item E it f rcpt t actor op p now ib = Inr (ib', it')"
    and "\<And>k n d. rcpt = Some (k, n, d) \<Longrightarrow> k \<noteq> ''result''"
  shows "result_receipt_of ib' w = result_receipt_of ib w"
proof -
  let ?ib1 = "set_item (wi_id it) now f ib"
  obtain ib2 res where r: "(case rcpt of None \<Rightarrow> Inr ?ib1 | Some (k, n, d) \<Rightarrow> note_receipt (wi_id it) k n d ?ib1) = Inr ib2"
    and a: "append_item_event E it t actor op (wi_id it) ((''work_item_id'', JStr (wi_id it)) # p) ib2 = Inr (ib', res)"
    using assms(1) by (auto simp: change_item_def bind_res_eq_Inr Let_def)
  have find: "List.find Q (xs @ [x]) = List.find Q xs" if "\<not> Q x" for Q and xs :: "receipt list" and x
    using that by (induction xs) auto
  have "ib_receipts ib2 = ib_receipts ib \<or> (\<exists>x. ib_receipts ib2 = ib_receipts ib @ [x] \<and> rc_kind x \<noteq> ''result'')"
    using r assms(2) note_receipt_Inr by (fastforce split: option.splits)
  then show ?thesis using append_item_event_Inr [OF a] find by (auto simp: result_receipt_of_def)
qed

lemma enqueue_step:
  assumes inv: "inbox_inv ib" and h: "enqueue E a now ib = Inr (ib', it)"
  shows "inbox_inv ib' \<and> keeps ib ib'"
proof (cases "List.find (\<lambda>x. wi_idempotency_key x = ea_idempotency_key a) (ib_items ib)")
  case (Some x)
  then have "ib' = ib" using h by (auto simp: enqueue_def split: if_splits)
  then show ?thesis using inv by simp
next
  case None
  then have key: "ea_idempotency_key a \<notin> wi_idempotency_key ` set (ib_items ib)"
    by (auto simp: find_None_iff)
  obtain w ib0 where w: "find_item w (ib_items ib) = None" and rc: "ib_receipts ib' = ib_receipts ib"
    and its: "ib_items ib' = ib_items ib @ [queued_item (ie_jsonb E) a w now]"
    using h None
    by (auto simp: enqueue_def bind_res_eq_Inr Let_def split: if_splits dest!: append_item_event_Inr)
  have q: "wi_id (queued_item (ie_jsonb E) a w now) = w" "item_ok (queued_item (ie_jsonb E) a w now)"
      "wi_idempotency_key (queued_item (ie_jsonb E) a w now) = ea_idempotency_key a"
      "wi_status (queued_item (ie_jsonb E) a w now) = QUEUED"
    by (simp_all add: queued_item_def item_ok_def WORK_ITEM_MAX_REDELIVERIES_def)
  have "inbox_inv ib'"
    using inv key w rc its q by (auto simp: inbox_inv_def find_item_None has_result_def)
  then show ?thesis using its rc by (auto simp: keeps_def)
qed

lemma change_item_step:
  assumes inv: "inbox_inv ib" and ld: "load_item ib w = Inr it" and nt: "wi_status it \<notin> set TERMINAL_STATES"
    and h: "change_item E it f rcpt t actor op p now ib = Inr (ib', it')"
    and f: "\<And>k n d. rcpt = Some (k, n, d) \<Longrightarrow> k \<noteq> ''result''" "wi_status (f it) \<noteq> RESULT_RECEIVED"
      "\<And>x. wi_id (f x) = wi_id x" "\<And>x. wi_idempotency_key (f x) = wi_idempotency_key x"
      "item_ok ((f it)\<lparr>wi_updated_at := now\<rparr>)"
  shows "inbox_inv ib' \<and> keeps ib ib' \<and> find_item w (ib_items ib') = Some it'"
proof -
  have it: "it \<in> set (ib_items ib)" "wi_id it = w" using ld find_item_Some by (auto simp: load_item_Inr)
  note ch = change_item_changes [OF h f(1,2)]
  have "inbox_inv ib' \<and> keeps ib ib'"
    by (rule changes_inv [OF inv it(1) nt conjunct1 [OF ch]]) (use f in simp_all)
  then show ?thesis using ch it(2) by simp
qed

lemma loaded_ok: "inbox_inv ib \<Longrightarrow> load_item ib w = Inr it \<Longrightarrow> item_ok it \<and> it \<in> set (ib_items ib) \<and> wi_id it = w"
  using find_item_Some by (fastforce simp: load_item_Inr inbox_inv_def list_all_iff)

lemma ack_step:
  assumes "inbox_inv ib" and "ack_item E w agent actor now ib = Inr (ib', it')"
  shows "inbox_inv ib' \<and> keeps ib ib' \<and> find_item w (ib_items ib') = Some it' \<and>
    wi_status it' \<notin> set TERMINAL_STATES"
proof -
  obtain it where ld: "load_item ib w = Inr it" using assms(2) by (auto simp: ack_item_def bind_res_eq_Inr)
  show ?thesis
  proof (cases "wi_status it \<in> {ACKED, IN_PROGRESS}")
    case True
    then have "ib' = ib \<and> it' = it" using assms(2) ld by (auto simp: ack_item_def bind_res_eq_Inr)
    then show ?thesis using assms(1) ld True by (auto simp: load_item_Inr)
  next
    case False
    then have s: "wi_status it = DELIVERED"
      and h: "change_item E it (\<lambda>x. x\<lparr>wi_status := ACKED, wi_acked_at := Some now\<rparr>)
         (Some (''ack'', Some (wi_delivery_count it), [])) ''WORK_ITEM_ACKED'' actor ''ack'' [] now ib = Inr (ib', it')"
      using assms(2) ld by (auto simp: ack_item_def bind_res_eq_Inr work_transition_Inr)
    have st: "inbox_inv ib' \<and> keeps ib ib' \<and> find_item w (ib_items ib') = Some it'"
      by (rule change_item_step [OF assms(1) ld _ h])
        (use s loaded_ok [OF assms(1) ld] in \<open>auto simp: item_ok_def\<close>)
    have "changes it (\<lambda>x. x\<lparr>wi_status := ACKED, wi_acked_at := Some now, wi_updated_at := now\<rparr>) ib ib'"
      using change_item_changes [OF h] by simp
    from changes_find [OF assms(1) _ this] have "wi_status it' = ACKED"
      using loaded_ok [OF assms(1) ld] st by simp
    then show ?thesis using st by simp
  qed
qed

lemma start_step:
  assumes "inbox_inv ib" and "start_item E w agent actor now ib = Inr (ib', it')"
  shows "inbox_inv ib' \<and> keeps ib ib'"
proof -
  obtain it where ld: "load_item ib w = Inr it" using assms(2) by (auto simp: start_item_def bind_res_eq_Inr)
  show ?thesis
  proof (cases "wi_status it = IN_PROGRESS")
    case True
    then show ?thesis using assms ld by (auto simp: start_item_def bind_res_eq_Inr)
  next
    case False
    then have s: "wi_status it = ACKED"
      and h: "change_item E it (\<lambda>x. x\<lparr>wi_status := IN_PROGRESS, wi_accepted_at := Some now\<rparr>)
         (Some (''accept'', Some (wi_delivery_count it), [])) ''WORK_ITEM_STARTED'' actor ''start'' [] now ib = Inr (ib', it')"
      using assms(2) ld by (auto simp: start_item_def bind_res_eq_Inr work_transition_Inr)
    have "inbox_inv ib' \<and> keeps ib ib' \<and> find_item w (ib_items ib') = Some it'"
      by (rule change_item_step [OF assms(1) ld _ h])
        (use s loaded_ok [OF assms(1) ld] in \<open>auto simp: item_ok_def\<close>)
    then show ?thesis by simp
  qed
qed

text \<open>Rejection, cancellation and expiry finish the item.\<close>

lemma finish_step:
  assumes "inbox_inv ib" and ld: "load_item ib w = Inr it" and "wi_status it \<notin> set TERMINAL_STATES"
    and "s \<in> {REJECTED, WI_CANCELLED, EXPIRED}"
    and h: "change_item E it (\<lambda>x. x\<lparr>wi_status := s, wi_finished_at := Some now\<rparr>) rcpt t actor op p now ib =
      Inr (ib', it')"
    and "\<And>k n d. rcpt = Some (k, n, d) \<Longrightarrow> k \<noteq> ''result''"
  shows "inbox_inv ib' \<and> keeps ib ib'"
proof -
  have "inbox_inv ib' \<and> keeps ib ib' \<and> find_item w (ib_items ib') = Some it'"
    by (rule change_item_step [OF assms(1) ld assms(3) h assms(6)])
      (use assms(3,4) loaded_ok [OF assms(1) ld] in \<open>auto simp: item_ok_def\<close>)
  then show ?thesis by simp
qed

lemma reject_step:
  assumes "inbox_inv ib" and "reject_item E w agent reason actor now ib = Inr (ib', it')"
  shows "inbox_inv ib' \<and> keeps ib ib'"
proof -
  obtain it where ld: "load_item ib w = Inr it" and s: "wi_status it \<notin> set TERMINAL_STATES"
    and h: "change_item E it (\<lambda>x. x\<lparr>wi_status := REJECTED, wi_finished_at := Some now\<rparr>)
           (Some (''reject'', Some (wi_delivery_count it), [(''reason_code'', JStr reason)]))
           ''WORK_ITEM_REJECTED'' actor ''reject'' [(''reason_code'', JStr reason)] now ib = Inr (ib', it')"
    using assms(2) by (auto simp: reject_item_def bind_res_eq_Inr work_transition_Inr split: if_splits)
  show ?thesis by (rule finish_step [OF assms(1) ld s _ h]) auto
qed

lemma cancel_step:
  assumes "inbox_inv ib" and "cancel_item E w reason actor now ib = Inr (ib', it')"
  shows "inbox_inv ib' \<and> keeps ib ib'"
proof -
  obtain it where ld: "load_item ib w = Inr it" and s: "wi_status it \<notin> set TERMINAL_STATES"
    and h: "change_item E it (\<lambda>x. x\<lparr>wi_status := WI_CANCELLED, wi_finished_at := Some now\<rparr>) None
         ''WORK_ITEM_CANCELLED'' actor ''cancel'' [(''reason_code'', JStr reason)] now ib = Inr (ib', it')"
    using assms(2) by (auto simp: cancel_item_def bind_res_eq_Inr work_transition_Inr)
  show ?thesis by (rule finish_step [OF assms(1) ld s _ h]) auto
qed

text \<open>For the sweep and for polls: rows other than the one changed stay as they are.\<close>

lemma expire_step:
  assumes "inbox_inv ib" and "expire_item E w reason actor now ib = Inr (ib', it')"
  shows "inbox_inv ib' \<and> keeps ib ib' \<and> wi_status it' = EXPIRED \<and> find_item w (ib_items ib') = Some it' \<and>
    (\<forall>x \<in> set (ib_items ib). wi_id x \<noteq> w \<longrightarrow> x \<in> set (ib_items ib')) \<and>
    map wi_id (ib_items ib') = map wi_id (ib_items ib)"
proof -
  obtain it where ld: "load_item ib w = Inr it" and s: "wi_status it \<notin> set TERMINAL_STATES"
    and h: "change_item E it (\<lambda>x. x\<lparr>wi_status := EXPIRED, wi_finished_at := Some now\<rparr>) None
         ''WORK_ITEM_EXPIRED'' actor ''expire'' [(''reason_code'', JStr reason)] now ib = Inr (ib', it')"
    using assms(2) by (auto simp: expire_item_def bind_res_eq_Inr work_transition_Inr)
  have st: "inbox_inv ib' \<and> keeps ib ib'" by (rule finish_step [OF assms(1) ld s _ h]) auto
  have ch: "changes it (\<lambda>x. x\<lparr>wi_status := EXPIRED, wi_finished_at := Some now, wi_updated_at := now\<rparr>) ib ib'"
      "find_item (wi_id it) (ib_items ib') = Some it'"
    using change_item_changes [OF h] by simp_all
  have id: "wi_id it = w" using loaded_ok [OF assms(1) ld] by simp
  have "wi_status it' = EXPIRED"
    using changes_find [OF assms(1) _ ch(1)] loaded_ok [OF assms(1) ld] ch(2) by auto
  moreover have "map wi_id (ib_items ib') = map wi_id (ib_items ib)" by (rule changes_ids [OF ch(1)]) simp
  ultimately show ?thesis using st ch(2) id changes_other [OF ch(1)] by simp
qed

lemma requeue_step:
  assumes inv: "inbox_inv ib" and h: "requeue_for_redelivery w now ib = Inr (ib', it')"
    and few: "\<And>it. find_item w (ib_items ib) = Some it \<Longrightarrow> wi_delivery_count it \<le> WORK_ITEM_MAX_REDELIVERIES"
  shows "inbox_inv ib' \<and> keeps ib ib' \<and> wi_status it' = QUEUED \<and> find_item w (ib_items ib') = Some it' \<and>
    (\<forall>x \<in> set (ib_items ib). wi_id x \<noteq> w \<longrightarrow> x \<in> set (ib_items ib')) \<and>
    map wi_id (ib_items ib') = map wi_id (ib_items ib) \<and>
    (\<forall>it. find_item w (ib_items ib) = Some it \<longrightarrow> wi_deadline it' = wi_deadline it)"
proof -
  obtain it where ld: "load_item ib w = Inr it" and s: "wi_status it = DELIVERED"
    and ib': "ib' = set_item w now (\<lambda>x. x\<lparr>wi_status := QUEUED\<rparr>) ib" "load_item ib' w = Inr it'"
    using h by (auto simp: requeue_for_redelivery_def bind_res_eq_Inr work_transition_Inr Let_def)
  note it = loaded_ok [OF inv ld]
  have ch: "changes it (\<lambda>x. x\<lparr>wi_status := QUEUED, wi_updated_at := now\<rparr>) ib ib'"
    using ib'(1) it by (simp add: changes_def set_item_def)
  have st: "inbox_inv ib' \<and> keeps ib ib'"
    by (rule changes_inv [OF inv _ _ ch])
      (use it s few ld in \<open>auto simp: item_ok_def load_item_Inr\<close>)
  have "it' = it\<lparr>wi_status := QUEUED, wi_updated_at := now\<rparr>"
    using changes_find [OF inv _ ch] it ib'(2) by (simp add: load_item_Inr)
  then have "wi_status it' = QUEUED" "wi_deadline it' = wi_deadline it" by simp_all
  moreover have "map wi_id (ib_items ib') = map wi_id (ib_items ib)" by (rule changes_ids [OF ch]) simp
  ultimately show ?thesis using st ib'(2) changes_other [OF ch] it ld by (simp add: load_item_Inr)
qed

lemma deliver_step:
  assumes inv: "inbox_inv ib" and it: "it \<in> set (ib_items ib)" "wi_status it \<in> {QUEUED, DELIVERED}"
    and h: "deliver E actor now it (ib, d, es) = Inr (ib', d', es')"
  shows "inbox_inv ib' \<and> keeps ib ib' \<and> (\<forall>x \<in> set (ib_items ib). wi_id x \<noteq> wi_id it \<longrightarrow> x \<in> set (ib_items ib'))"
proof (cases "wi_status it = QUEUED")
  case False
  then show ?thesis using inv h by (auto simp: deliver_def)
next
  case True
  let ?n = "wi_delivery_count it + 1"
  let ?f = "\<lambda>x. x\<lparr>wi_status := DELIVERED, wi_delivery_count := ?n, wi_delivered_at := Some now\<rparr>"
  have t: "work_transition (if wi_delivery_count it > 0 then DELIVERED else wi_status it)
      (if wi_delivery_count it > 0 then ''redeliver'' else ''deliver'') = Inr DELIVERED"
    using True by (simp add: work_transition_eq)
  obtain ib1 res where r: "note_receipt (wi_id it) ''delivery'' (Some ?n) [] (set_item (wi_id it) now ?f ib) = Inr ib1"
    and a: "append_item_event E it ''WORK_ITEM_DELIVERED'' actor ''deliver'' (wi_id it @ '':'' @ int_str ?n)
      [(''work_item_id'', JStr (wi_id it)), (''delivery_no'', JInt ?n)] ib1 = Inr (ib', res)"
    using h True t unfolding deliver_def by (auto simp: bind_res_eq_Inr Let_def)
  have ch: "changes it (\<lambda>x. (?f x)\<lparr>wi_updated_at := now\<rparr>) ib ib'"
    using note_receipt_Inr [OF r] append_item_event_Inr [OF a]
    by (auto simp: changes_def set_item_def is_result_def ref_ok_def)
  have ok: "item_ok it" using inv it(1) by (auto simp: inbox_inv_def list_all_iff)
  have "inbox_inv ib' \<and> keeps ib ib'"
    by (rule changes_inv [OF inv it(1) _ ch]) (use ok True in \<open>auto simp: item_ok_def\<close>)
  then show ?thesis using changes_other [OF ch] by blast
qed

text \<open>Working through a list of rows that were read beforehand.\<close>

lemma rows_fold:
  assumes step: "\<And>it ib a ib' a'. inbox_inv ib \<Longrightarrow> it \<in> set its \<Longrightarrow> it \<in> set (ib_items ib) \<Longrightarrow> f it (ib, a) = Inr (ib', a') \<Longrightarrow>
      inbox_inv ib' \<and> keeps ib ib' \<and> (\<forall>x \<in> set (ib_items ib). wi_id x \<noteq> wi_id it \<longrightarrow> x \<in> set (ib_items ib'))"
    and "inbox_inv ib" and "set its \<subseteq> set (ib_items ib)" and "distinct (map wi_id its)"
    and "fold_res f its (ib, a) = Inr (ib', a')"
  shows "inbox_inv ib' \<and> keeps ib ib' \<and> (\<forall>x \<in> set (ib_items ib). wi_id x \<notin> wi_id ` set its \<longrightarrow> x \<in> set (ib_items ib'))"
  using assms
proof (induction its arbitrary: ib a)
  case (Cons it its)
  obtain ib1 a1 where one: "f it (ib, a) = Inr (ib1, a1)" and rest: "fold_res f its (ib1, a1) = Inr (ib', a')"
    using Cons.prems(5) by (auto simp: bind_res_eq_Inr)
  note s = Cons.prems(1) [OF Cons.prems(2) _ _ one]
  have s1: "inbox_inv ib1" "keeps ib ib1" "\<forall>x \<in> set (ib_items ib). wi_id x \<noteq> wi_id it \<longrightarrow> x \<in> set (ib_items ib1)"
    using s Cons.prems(3) by auto
  have "inbox_inv ib' \<and> keeps ib1 ib' \<and> (\<forall>x \<in> set (ib_items ib1). wi_id x \<notin> wi_id ` set its \<longrightarrow> x \<in> set (ib_items ib'))"
  proof (rule Cons.IH [OF _ s1(1) _ _ rest])
    show "set its \<subseteq> set (ib_items ib1)"
    proof
      fix x
      assume x: "x \<in> set its"
      then have "wi_id x \<noteq> wi_id it" using Cons.prems(4) by (fastforce simp: image_iff)
      then show "x \<in> set (ib_items ib1)" using x Cons.prems(3) s1(3) by auto
    qed
    show "distinct (map wi_id its)" using Cons.prems(4) by simp
    fix y u b u' b'
    assume "inbox_inv u" "y \<in> set its" "y \<in> set (ib_items u)" "f y (u, b) = Inr (u', b')"
    then show "inbox_inv u' \<and> keeps u u' \<and> (\<forall>x \<in> set (ib_items u). wi_id x \<noteq> wi_id y \<longrightarrow> x \<in> set (ib_items u'))"
      by (intro Cons.prems(1) [of u y b]) simp_all
  qed
  then show ?case using s1 keeps_trans by auto
qed simp

lemma rows_of_table:
  assumes "inbox_inv ib"
  shows "set (sort_key k (filter Q (ib_items ib))) \<subseteq> set (ib_items ib)"
    and "distinct (map wi_id (sort_key k (filter Q (ib_items ib))))"
proof -
  show "set (sort_key k (filter Q (ib_items ib))) \<subseteq> set (ib_items ib)" by auto
  have d: "distinct (map wi_id (ib_items ib))" using assms by (simp add: inbox_inv_def)
  then have "distinct (ib_items ib)" "inj_on wi_id (set (ib_items ib))" by (simp_all add: distinct_map)
  then show "distinct (map wi_id (sort_key k (filter Q (ib_items ib))))"
    by (auto simp: distinct_map intro: inj_on_subset)
qed

lemma poll_step:
  assumes inv: "inbox_inv ib" and h: "poll E agent actor n now ib = Inr (ib', r)"
  shows "inbox_inv ib' \<and> keeps ib ib'"
proof -
  let ?its = "due_items ib agent n"
  obtain d es where r: "r = (d, es)" by (cases r)
  have "distinct (map wi_id ?its)"
    unfolding due_items_def take_map [symmetric] by (rule distinct_take [OF rows_of_table(2) [OF inv]])
  moreover have "set ?its \<subseteq> set (ib_items ib)" "\<forall>it \<in> set ?its. wi_status it \<in> {QUEUED, DELIVERED}"
    by (auto simp: due_items_def dest!: in_set_takeD)
  ultimately have sub: "set ?its \<subseteq> set (ib_items ib)" "distinct (map wi_id ?its)"
      "\<forall>it \<in> set ?its. wi_status it \<in> {QUEUED, DELIVERED}"
    by blast+
  have "inbox_inv ib' \<and> keeps ib ib' \<and> (\<forall>x \<in> set (ib_items ib). wi_id x \<notin> wi_id ` set ?its \<longrightarrow> x \<in> set (ib_items ib'))"
  proof (rule rows_fold [OF _ inv sub(1,2) h [unfolded poll_def]])
    fix it ib1 a ib2 a'
    assume a: "inbox_inv ib1" "it \<in> set ?its" "it \<in> set (ib_items ib1)" "deliver E actor now it (ib1, a) = Inr (ib2, a')"
    obtain d1 e1 d2 e2 where p: "a = (d1, e1)" "a' = (d2, e2)" by (cases a, cases a')
    have "wi_status it \<in> {QUEUED, DELIVERED}" using a(2) sub(3) by blast
    from deliver_step [OF a(1,3) this a(4) [unfolded p]]
    show "inbox_inv ib2 \<and> keeps ib1 ib2 \<and> (\<forall>x \<in> set (ib_items ib1). wi_id x \<noteq> wi_id it \<longrightarrow> x \<in> set (ib_items ib2))" .
  qed
  then show ?thesis by blast
qed

text \<open>The sweep: a well-formed row is never invalid, and it is not overdue afterwards.\<close>

definition overdue :: "time \<Rightarrow> work_item \<Rightarrow> bool" where
  "overdue now it \<longleftrightarrow> wi_status it \<notin> set TERMINAL_STATES \<and>
     (wi_deadline it \<le> now \<or>
      wi_status it = DELIVERED \<and> the (wi_delivered_at it) + seconds WORK_ITEM_ACK_TIMEOUT_S \<le> now)"

lemma next_action_ok:
  assumes "item_ok it"
  shows "\<exists>d. next_action (wi_status it) (wi_delivered_at it) (wi_acked_at it) now (wi_delivery_count it)
      (wi_kind it) (wi_accepted_at it) c (Some (wi_deadline it)) = Inr d \<and>
    (td_action d = ActRedeliver \<longrightarrow> wi_status it = DELIVERED \<and> now < wi_deadline it \<and>
       wi_delivery_count it \<le> WORK_ITEM_MAX_REDELIVERIES) \<and>
    (td_action d = ActExpire \<longrightarrow> wi_status it \<notin> set TERMINAL_STATES) \<and>
    (td_action d \<notin> {ActRedeliver, ActExpire} \<longrightarrow> \<not> overdue now it)"
  using assms
  by (cases "wi_status it") (auto simp: next_action_def item_ok_def decide_def overdue_def Let_def)

lemma sweep_item_step:
  assumes inv: "inbox_inv ib" and it: "it \<in> set (ib_items ib)"
    and h: "sweep_item E actor counts now now' it (ib, rep) = Inr (ib', rep')"
  shows "inbox_inv ib' \<and> keeps ib ib' \<and> (\<forall>x \<in> set (ib_items ib). wi_id x \<noteq> wi_id it \<longrightarrow> x \<in> set (ib_items ib'))"
    and "sr_invalid rep' = sr_invalid rep"
    and "\<exists>it'. find_item (wi_id it) (ib_items ib') = Some it' \<and> \<not> overdue now it'"
    and "map wi_id (ib_items ib') = map wi_id (ib_items ib)"
proof -
  have ok: "item_ok it" and d: "distinct (map wi_id (ib_items ib))"
    using inv it by (auto simp: inbox_inv_def list_all_iff)
  have fnd: "find_item (wi_id it) (ib_items ib) = Some it" by (rule find_item_mem [OF d it])
  obtain dec where dec: "next_action (wi_status it) (wi_delivered_at it) (wi_acked_at it) now (wi_delivery_count it)
      (wi_kind it) (wi_accepted_at it) (counts (wi_id it)) (Some (wi_deadline it)) = Inr dec"
    and red: "td_action dec = ActRedeliver \<Longrightarrow> wi_status it = DELIVERED \<and> now < wi_deadline it \<and>
       wi_delivery_count it \<le> WORK_ITEM_MAX_REDELIVERIES"
    and rest: "td_action dec \<notin> {ActRedeliver, ActExpire} \<Longrightarrow> \<not> overdue now it"
    using next_action_ok [OF ok] by blast
  have "(inbox_inv ib' \<and> keeps ib ib' \<and> (\<forall>x \<in> set (ib_items ib). wi_id x \<noteq> wi_id it \<longrightarrow> x \<in> set (ib_items ib'))) \<and>
    sr_invalid rep' = sr_invalid rep \<and> (\<exists>it'. find_item (wi_id it) (ib_items ib') = Some it' \<and> \<not> overdue now it') \<and>
    map wi_id (ib_items ib') = map wi_id (ib_items ib)"
  proof (cases "td_action dec")
    case ActRedeliver
    obtain it' where q: "requeue_for_redelivery (wi_id it) now' ib = Inr (ib', it')"
      and rep: "rep' = rep\<lparr>sr_requeued := sr_requeued rep @ [(wi_id it, td_reason dec)]\<rparr>"
      using h dec ActRedeliver unfolding sweep_item_def by (auto simp: bind_res_eq_Inr)
    note st = requeue_step [OF inv q]
    have "\<not> overdue now it'" using st red [OF ActRedeliver] fnd by (auto simp: overdue_def)
    then show ?thesis using st red [OF ActRedeliver] fnd rep by auto
  next
    case ActExpire
    obtain reason it' where q: "expire_item E (wi_id it) reason actor now' ib = Inr (ib', it')"
      and rep: "rep' = rep\<lparr>sr_expired := sr_expired rep @ [(wi_id it, reason)]\<rparr>"
      using h dec ActExpire unfolding sweep_item_def by (auto simp: bind_res_eq_Inr Let_def)
    note st = expire_step [OF inv q]
    then have "\<not> overdue now it'" by (simp add: overdue_def)
    then show ?thesis using st rep by auto
  qed (use h dec rest inv fnd in \<open>auto simp: sweep_item_def\<close>)
  then show "inbox_inv ib' \<and> keeps ib ib' \<and> (\<forall>x \<in> set (ib_items ib). wi_id x \<noteq> wi_id it \<longrightarrow> x \<in> set (ib_items ib'))"
    "sr_invalid rep' = sr_invalid rep"
    "\<exists>it'. find_item (wi_id it) (ib_items ib') = Some it' \<and> \<not> overdue now it'"
    "map wi_id (ib_items ib') = map wi_id (ib_items ib)" by blast+
qed

lemma sweep_fold:
  assumes "inbox_inv ib" and "set its \<subseteq> set (ib_items ib)" and "distinct (map wi_id its)"
    and "fold_res (sweep_item E actor counts now now') its (ib, rep) = Inr (ib', rep')"
  shows "sr_invalid rep' = sr_invalid rep \<and> map wi_id (ib_items ib') = map wi_id (ib_items ib) \<and>
    (\<forall>it \<in> set its. \<exists>it'. find_item (wi_id it) (ib_items ib') = Some it' \<and> \<not> overdue now it')"
  using assms
proof (induction its arbitrary: ib rep)
  case (Cons it its)
  obtain ib1 rep1 where one: "sweep_item E actor counts now now' it (ib, rep) = Inr (ib1, rep1)"
    and rest: "fold_res (sweep_item E actor counts now now') its (ib1, rep1) = Inr (ib', rep')"
    using Cons.prems(4) by (auto simp: bind_res_eq_Inr)
  have it: "it \<in> set (ib_items ib)" using Cons.prems(2) by simp
  note s = sweep_item_step [OF Cons.prems(1) it one]
  have notin: "wi_id it \<notin> wi_id ` set its" using Cons.prems(3) by auto
  have sub: "set its \<subseteq> set (ib_items ib1)"
  proof
    fix x
    assume x: "x \<in> set its"
    then have "wi_id x \<noteq> wi_id it" using notin by (fastforce simp: image_iff)
    then show "x \<in> set (ib_items ib1)" using x Cons.prems(2) s(1) by auto
  qed
  have d: "distinct (map wi_id its)" using Cons.prems(3) by simp
  have inv1: "inbox_inv ib1" using s(1) by simp
  note IH = Cons.IH [OF inv1 sub d rest]
  obtain it' where it': "find_item (wi_id it) (ib_items ib1) = Some it'" "\<not> overdue now it'" using s(3) by blast
  have "inbox_inv ib' \<and> keeps ib1 ib' \<and> (\<forall>x \<in> set (ib_items ib1). wi_id x \<notin> wi_id ` set its \<longrightarrow> x \<in> set (ib_items ib'))"
    by (rule rows_fold [OF _ inv1 sub d rest]) (rule sweep_item_step(1))
  then have "it' \<in> set (ib_items ib')" "distinct (map wi_id (ib_items ib'))"
    using find_item_Some [OF it'(1)] notin by (auto simp: inbox_inv_def)
  then have "find_item (wi_id it) (ib_items ib') = Some it'"
    using find_item_mem [of "ib_items ib'" it'] find_item_Some [OF it'(1)] by simp
  then show ?case using IH s(2,4) it'(2) by auto
qed simp

lemma sweep_step:
  assumes inv: "inbox_inv ib" and h: "sweep E actor agent ws counts now now' ib = Inr (ib', rep)"
  shows "inbox_inv ib' \<and> keeps ib ib'"
  using rows_fold [OF _ inv _ _ h [unfolded sweep_def]] sweep_item_step(1) rows_of_table [OF inv]
  unfolding open_items_def by blast

lemma write_audit_Inr:
  "write_audit E x ib = Inr ib' \<Longrightarrow> ib_items ib' = ib_items ib \<and> ib_receipts ib' = ib_receipts ib"
  by (auto simp: write_audit_def bind_res_eq_Inr)

lemma duplicate_step:
  assumes "duplicate E it existing ref digest actor agent now ib = Inr (ib', r)"
  shows "ib_items ib' = ib_items ib \<and> (\<exists>x. ib_receipts ib' = ib_receipts ib @ [x] \<and> rc_kind x = ''duplicate_result'') \<and>
    ro_code r = ''DUPLICATE_RESULT_IGNORED'' \<and>
    ro_result_ref r = (case existing of Some x \<Rightarrow> if get_default [] (rc_result_ref x) \<noteq> []
       then get_default [] (rc_result_ref x) else ref | None \<Rightarrow> ref)"
  using assms
  by (auto simp: duplicate_def record_receipt_def RECEIPT_KINDS_def Let_def bind_res_eq_Inr
      dest!: write_audit_Inr split: option.splits)

lemma inbox_inv_same:
  assumes "inbox_inv ib" and "ib_items ib' = ib_items ib" and "ib_receipts ib' = ib_receipts ib @ [x]"
    and "rc_kind x \<noteq> ''result''"
  shows "inbox_inv ib' \<and> keeps ib ib'"
  using assms by (auto simp: inbox_inv_def keeps_def is_result_def ref_ok_def)

lemma accept_result_new:
  assumes "accept_result E w payload ref digest actor agent now it s ib = Inr (ib', r)"
    and "\<not> list_ex (\<lambda>x. rc_work_item_id x = w \<and> rc_kind x = ''result'') (ib_receipts ib)"
  shows "(\<exists>x. ib_receipts ib' = ib_receipts ib @ [x] \<and> is_result w x \<and> rc_result_ref x = Some ref) \<and>
    ib_items ib' = ib_items (set_item w now (\<lambda>y. y\<lparr>wi_status := s, wi_finished_at := Some now\<rparr>) ib) \<and>
    ro_code r = ''RESULT_ACCEPTED'' \<and> ro_result_ref r = ref"
  using assms
  by (auto simp: accept_result_def record_receipt_def RECEIPT_KINDS_def Let_def bind_res_eq_Inr is_result_def
      set_item_def dest!: write_audit_Inr append_item_event_Inr split: option.splits if_splits)

text \<open>A result is either a duplicate, which changes no item, or the first one.\<close>

lemma result_item_cases:
  assumes inv: "inbox_inv ib" and h: "result_item E w agent payload actor now now' ib = Inr (ib', r)"
  obtains (dup) it ref digest where "load_item ib w = Inr it"
      "result_ref_for (ie_prims E) w payload = Inr (ref, digest)"
      "result_receipt_of ib w \<noteq> None \<or> wi_status it \<in> set TERMINAL_STATES"
      "duplicate E it (result_receipt_of ib w) ref digest actor agent now' ib = Inr (ib', r)"
  | (new) ib1 it1 ref digest x where "inbox_inv ib1" "keeps ib ib1"
      "\<And>v. result_receipt_of ib1 v = result_receipt_of ib v"
      "find_item w (ib_items ib1) = Some it1" "result_ref_for (ie_prims E) w payload = Inr (ref, digest)"
      "wi_status it1 \<in> {ACKED, IN_PROGRESS}"
      "ib_receipts ib' = ib_receipts ib1 @ [x]" "is_result w x" "rc_result_ref x = Some ref"
      "ib_items ib' = ib_items (set_item w now' (\<lambda>y. y\<lparr>wi_status := RESULT_RECEIVED, wi_finished_at := Some now'\<rparr>) ib1)"
      "ro_code r = ''RESULT_ACCEPTED''" "ro_result_ref r = ref" "result_receipt_of ib w = None"
proof -
  obtain it ref digest where ld: "load_item ib w = Inr it"
    and rf: "result_ref_for (ie_prims E) w payload = Inr (ref, digest)"
    and own: "require_owner it agent = Inr ()"
    and h1: "(let existing = result_receipt_of ib w in
       if existing \<noteq> None \<or> wi_status it \<in> set TERMINAL_STATES
       then duplicate E it existing ref digest actor agent now' ib
       else bind_res (if wi_status it = DELIVERED then ack_item E w agent actor now ib else Inr (ib, it))
           (\<lambda>(ib1, it1). bind_res (work_transition (wi_status it1) ''result'') (\<lambda>s.
         accept_result E w payload ref digest actor agent now' it1 s ib1))) = Inr (ib', r)"
    using h unfolding result_item_def by (auto simp: bind_res_eq_Inr split: if_splits)
  show ?thesis
  proof (cases "result_receipt_of ib w \<noteq> None \<or> wi_status it \<in> set TERMINAL_STATES")
    case True
    then show ?thesis using h1 ld rf by (intro dup) (simp_all add: Let_def)
  next
    case False
    then obtain ib1 it1 s where pre: "(if wi_status it = DELIVERED then ack_item E w agent actor now ib else Inr (ib, it)) = Inr (ib1, it1)"
      and tr: "work_transition (wi_status it1) ''result'' = Inr s"
      and acc: "accept_result E w payload ref digest actor agent now' it1 s ib1 = Inr (ib', r)"
      using h1 by (auto simp: Let_def bind_res_eq_Inr)
    have s1: "inbox_inv ib1 \<and> keeps ib ib1 \<and> find_item w (ib_items ib1) = Some it1"
      using pre ack_step [OF inv] inv ld by (auto simp: load_item_Inr split: if_splits)
    have st: "wi_status it1 \<in> {ACKED, IN_PROGRESS}" "s = RESULT_RECEIVED" using tr by (auto simp: work_transition_Inr)
    have "\<not> has_result (ib_items ib1) w"
    proof
      assume "has_result (ib_items ib1) w"
      then obtain y where y: "y \<in> set (ib_items ib1)" "wi_id y = w" "wi_status y = RESULT_RECEIVED"
        by (auto simp: has_result_def list_ex_iff)
      moreover have "distinct (map wi_id (ib_items ib1))" using s1 by (simp add: inbox_inv_def)
      ultimately have "y = it1" using find_item_mem s1 by fastforce
      then show False using y st by auto
    qed
    then have "length (filter (is_result w) (ib_receipts ib1)) = 0" using s1 by (simp add: inbox_inv_def)
    then have none: "\<not> list_ex (\<lambda>x. rc_work_item_id x = w \<and> rc_kind x = ''result'') (ib_receipts ib1)"
      by (auto simp: is_result_def list_ex_iff filter_empty_conv)
    have "result_receipt_of ib1 v = result_receipt_of ib v" for v
      using pre change_item_receipts by (fastforce simp: ack_item_def bind_res_eq_Inr split: if_splits)
    then show ?thesis
      using accept_result_new [OF acc none] s1 st rf False by (auto intro!: new)
  qed
qed

lemma result_step:
  assumes inv: "inbox_inv ib" and h: "result_item E w agent payload actor now now' ib = Inr (ib', r)"
  shows "inbox_inv ib' \<and> keeps ib ib'"
  using inv h
proof (cases rule: result_item_cases)
  case (dup it ref digest)
  obtain x where "ib_items ib' = ib_items ib" "ib_receipts ib' = ib_receipts ib @ [x]" "rc_kind x = ''duplicate_result''"
    using duplicate_step [OF dup(4)] by blast
  then show ?thesis using inbox_inv_same [OF inv] by simp
next
  case (new ib1 it1 ref digest x)
  let ?g = "\<lambda>y. y\<lparr>wi_status := RESULT_RECEIVED, wi_finished_at := Some now', wi_updated_at := now'\<rparr>"
  have it: "it1 \<in> set (ib_items ib1)" "wi_id it1 = w" using find_item_Some [OF new(4)] by simp_all
  have "ref \<noteq> []" using new(5) by (auto simp: result_ref_for_def bind_res_eq_Inr Let_def)
  then have ch: "changes it1 ?g ib1 ib'"
    using new(7-10) it(2) by (auto simp: changes_def set_item_def is_result_def ref_ok_def)
  have "item_ok it1" using new(1) it(1) by (auto simp: inbox_inv_def list_all_iff)
  then have "item_ok (?g it1)" by (simp add: item_ok_def)
  then have "inbox_inv ib' \<and> keeps ib1 ib'"
    by (intro changes_inv [OF new(1) it(1) _ ch]) (use new(6) in auto)
  then show ?thesis using new(2) keeps_trans by blast
qed

lemma inbox_exec_step:
  assumes "inbox_inv ib" and "inbox_exec E op ib = Inr ib'"
  shows "inbox_inv ib' \<and> keeps ib ib'"
proof (cases op)
  case (Enqueue a now)
  then show ?thesis using assms(2) by (auto simp: bind_res_eq_Inr dest!: enqueue_step [OF assms(1)])
next
  case (Poll agent actor n now)
  then show ?thesis using assms(2) by (auto simp: bind_res_eq_Inr dest!: poll_step [OF assms(1)])
next
  case (Ack w agent actor now)
  then show ?thesis using assms(2) by (auto simp: bind_res_eq_Inr dest!: ack_step [OF assms(1)])
next
  case (Start w agent actor now)
  then show ?thesis using assms(2) by (auto simp: bind_res_eq_Inr dest!: start_step [OF assms(1)])
next
  case (Reject w agent reason actor now)
  then show ?thesis using assms(2) by (auto simp: bind_res_eq_Inr dest!: reject_step [OF assms(1)])
next
  case (Cancel w reason actor now)
  then show ?thesis using assms(2) by (auto simp: bind_res_eq_Inr dest!: cancel_step [OF assms(1)])
next
  case (Result w agent payload actor now now')
  then show ?thesis using assms(2) by (auto simp: bind_res_eq_Inr dest!: result_step [OF assms(1)])
next
  case (Sweep actor agent ws counts now now')
  then show ?thesis using assms(2) by (auto simp: bind_res_eq_Inr dest!: sweep_step [OF assms(1)])
qed

lemma inbox_run_step:
  assumes "inbox_inv ib"
  shows "inbox_inv (inbox_run E ops ib) \<and> keeps ib (inbox_run E ops ib)"
  using assms
proof (induction ops arbitrary: ib)
  case (Cons op ops)
  have "inbox_inv (inbox_after E op ib) \<and> keeps ib (inbox_after E op ib)"
    using Cons.prems inbox_exec_step [of ib E op] by (auto simp: inbox_after_def split: sum.split)
  then show ?case using Cons.IH [of "inbox_after E op ib"] keeps_trans by (auto simp: inbox_run_def)
qed (simp add: inbox_run_def)

lemma inbox_inv_empty: "inbox_inv (empty_inbox s al)"
  by (simp add: inbox_inv_def empty_inbox_def has_result_def)

lemma inbox_run_inv: "inbox_inv (inbox_run E ops (empty_inbox s al))"
  by (rule conjunct1 [OF inbox_run_step [OF inbox_inv_empty]])

section \<open>Properties\<close>

text \<open>
  C11. Every inbox that operations can reach is well formed, whatever the store, the clock and the
  Agents do: identifiers and idempotency keys are unique; a delivered item has a delivery time and an
  acknowledged one an acknowledgement time; an item is delivered at most four times (once and three
  redeliveries); exactly the finished items have a finishing time; and an item has exactly one
  \<^verbatim>\<open>result\<close> receipt when it is in state RESULT_RECEIVED and none otherwise.
\<close>

theorem inbox_wellformed:
  "inbox_inv (inbox_run E ops (empty_inbox s al))"
  by (rule inbox_run_inv)

text \<open>
  C12. A finished work item is final: whatever operations follow, its row is never changed again
  and no receipt is lost.
\<close>

theorem finished_items_final:
  assumes "ib = inbox_run E ops (empty_inbox s al)"
    and "load_item ib w = Inr it" and "wi_status it \<in> set TERMINAL_STATES"
  shows "load_item (inbox_run E later ib) w = Inr it \<and>
         set (ib_receipts ib) \<subseteq> set (ib_receipts (inbox_run E later ib))"
proof -
  have inv: "inbox_inv ib" unfolding assms(1) by (rule inbox_run_inv)
  then have st: "inbox_inv (inbox_run E later ib) \<and> keeps ib (inbox_run E later ib)" by (rule inbox_run_step)
  then have "it \<in> set (ib_items (inbox_run E later ib))"
    using loaded_ok [OF inv assms(2)] assms(3) unfolding keeps_def by blast
  then show ?thesis
    using st find_item_mem [of _ it] loaded_ok [OF inv assms(2)]
    by (auto simp: load_item_Inr inbox_inv_def keeps_def)
qed

text \<open>
  C13. After a sweep of the whole inbox at time \<open>now\<close> no work item is left overdue: none is open
  past its deadline and none waits for an acknowledgement for sixty seconds or more; and no row is
  ever reported as invalid.
\<close>

theorem sweep_clears:
  assumes "ib = inbox_run E ops (empty_inbox s al)"
    and "sweep E actor None None counts now now' ib = Inr (ib', rep)"
  shows "\<not> list_ex (overdue now) (ib_items ib') \<and> sr_invalid rep = []"
proof -
  have inv: "inbox_inv ib" unfolding assms(1) by (rule inbox_run_inv)
  let ?its = "open_items None None ib"
  note rows = rows_of_table [OF inv, of "\<lambda>it. (wi_created_at it, wi_id it)" "\<lambda>it. wi_status it \<in> {QUEUED, DELIVERED, ACKED, IN_PROGRESS}"]
  have its: "?its = sort_key (\<lambda>it. (wi_created_at it, wi_id it)) (filter (\<lambda>it. wi_status it \<in> {QUEUED, DELIVERED, ACKED, IN_PROGRESS}) (ib_items ib))"
    by (simp add: open_items_def)
  have f: "sr_invalid rep = [] \<and> map wi_id (ib_items ib') = map wi_id (ib_items ib) \<and>
      (\<forall>it \<in> set ?its. \<exists>it'. find_item (wi_id it) (ib_items ib') = Some it' \<and> \<not> overdue now it')"
    using sweep_fold [OF inv rows [folded its] assms(2) [unfolded sweep_def]] by (simp add: empty_report_def)
  have k: "inbox_inv ib' \<and> keeps ib ib'" by (rule sweep_step [OF inv assms(2)])
  have "\<not> overdue now y" if y: "y \<in> set (ib_items ib')" for y
  proof -
    have fy: "find_item (wi_id y) (ib_items ib') = Some y"
      using k y by (intro find_item_mem) (auto simp: inbox_inv_def)
    have "wi_id y \<in> set (map wi_id (ib_items ib))" using f y by (metis image_eqI set_map)
    then obtain x where x: "x \<in> set (ib_items ib)" "wi_id x = wi_id y" by auto
    show ?thesis
    proof (cases "wi_status x \<in> set TERMINAL_STATES")
      case True
      then have "x \<in> set (ib_items ib')" using k x(1) by (auto simp: keeps_def)
      then have "y = x" using k y x(2) same_id [of "ib_items ib'" y x] by (simp add: inbox_inv_def)
      then show ?thesis using True by (simp add: overdue_def)
    next
      case False
      then have "x \<in> set ?its" using x(1) by (cases "wi_status x") (auto simp: its)
      then show ?thesis using f fy x(2) by fastforce
    qed
  qed
  then show ?thesis using f by (auto simp: list_ex_iff)
qed

definition ledger_of :: "'s inbox \<Rightarrow> result_ledger" where
  "ledger_of ib = \<lparr>rl_results = (\<lambda>w. case result_receipt_of ib w of None \<Rightarrow> None | Some r \<Rightarrow> rc_result_ref r),
     rl_audit = []\<rparr>"

lemma result_receipt_iff:
  assumes "inbox_inv ib"
  shows "result_receipt_of ib w \<noteq> None \<longleftrightarrow> has_result (ib_items ib) w"
proof -
  have "result_receipt_of ib w = None \<longleftrightarrow> filter (is_result w) (ib_receipts ib) = []"
    by (auto simp: result_receipt_of_def find_None_iff filter_empty_conv is_result_def)
  also have "\<dots> \<longleftrightarrow> \<not> has_result (ib_items ib) w"
    using assms unfolding inbox_inv_def by (metis length_0_conv of_bool_eq_0_iff)
  finally show ?thesis by simp
qed

lemma result_receipt_ref:
  assumes "inbox_inv ib" and "result_receipt_of ib w = Some x"
  shows "\<exists>ref. rc_result_ref x = Some ref \<and> ref \<noteq> []"
proof -
  have "x \<in> set (ib_receipts ib)" "rc_kind x = ''result''"
    using assms(2) by (auto simp: result_receipt_of_def find_Some_iff)
  then show ?thesis using assms(1) by (cases "rc_result_ref x") (auto simp: inbox_inv_def list_all_iff ref_ok_def)
qed

lemma find_snoc:
  "List.find Q (xs @ [x]) = (case List.find Q xs of None \<Rightarrow> if Q x then Some x else None | Some y \<Rightarrow> Some y)"
  by (induction xs) auto

text \<open>
  C14. The inbox implements the exactly-once result ledger: for an item that was not rejected,
  cancelled or expired, submitting a result is \<^verbatim>\<open>ResultLedger.accept\<close> on the references of the
  \<^verbatim>\<open>result\<close> receipts: the first result is accepted, every later one is answered with
  DUPLICATE_RESULT_IGNORED and the reference of the first, and the ledger never changes again.
\<close>

theorem result_refines_ledger:
  assumes "ib = inbox_run E ops (empty_inbox s al)"
    and h: "result_item E w agent payload actor now now' ib = Inr (ib', r)"
    and "load_item ib w = Inr it" and "wi_status it \<notin> {REJECTED, EXPIRED, WI_CANCELLED}"
    and ref: "result_ref_for (ie_prims E) w payload = Inr (ref, digest)"
    and acc: "ledger_accept (ledger_of ib) w ref agent = (l, rcpt)"
  shows "rl_results (ledger_of ib') = rl_results l \<and> ro_code r = rr_code rcpt \<and>
         ro_result_ref r = rr_first_result_ref rcpt"
proof -
  have inv: "inbox_inv ib" unfolding assms(1) by (rule inbox_run_inv)
  from inv h show ?thesis
  proof (cases rule: result_item_cases)
    case (dup it0 ref0 digest0)
    have it0: "it0 = it" "ref0 = ref" using dup assms(3) ref by auto
    have "result_receipt_of ib w \<noteq> None"
      using dup(3) result_receipt_iff [OF inv, of w] assms(4) loaded_ok [OF inv assms(3)] it0
      by (auto simp: has_result_def list_ex_iff)
    then obtain x where x: "result_receipt_of ib w = Some x" by blast
    obtain first where first: "rc_result_ref x = Some first" "first \<noteq> []" using result_receipt_ref [OF inv x] by blast
    note d = duplicate_step [OF dup(4)]
    have "result_receipt_of ib' v = result_receipt_of ib v" for v
      using d by (auto simp: result_receipt_of_def find_snoc split: option.split)
    then show ?thesis using d x first acc by (auto simp: ledger_accept_def ledger_of_def)
  next
    case (new ib1 it1 ref1 digest1 x)
    have r1: "ref1 = ref" using new(5) ref by simp
    have "result_receipt_of ib' v = (if v = w then Some x else result_receipt_of ib v)" for v
      using new(3) [of v] new(7,8,13) by (auto simp: result_receipt_of_def find_snoc is_result_def split: option.split)
    then have "rl_results (ledger_of ib') = (rl_results (ledger_of ib))(w \<mapsto> ref)"
      using new(9) r1 by (auto simp: ledger_of_def fun_eq_iff)
    then show ?thesis using acc new(11-13) r1 by (auto simp: ledger_accept_def ledger_of_def)
  qed
qed

section \<open>Witnesses\<close>

definition plain_env :: "unit inbox_env" where
  "plain_env = \<lparr>ie_prims = \<lparr>sha256 = (\<lambda>_. ''h''), b64decode = (\<lambda>_. None), uuid_hex = nat_str\<rparr>,
     ie_append = (\<lambda>s r. Inr (s, \<lparr>res_event_id = ''evt'', res_aggregate_seq = 1, res_content_hash = ''h'',
       res_recorded_seq = 1, res_replayed = False\<rparr>)),
     ie_jsonb = (\<lambda>d. d), ie_validate_result = (\<lambda>_. Inr ())\<rparr>"

definition sample_enqueue :: enqueue_args where
  "sample_enqueue = \<lparr>ea_workspace_id = ''ws'', ea_kind = ''invoke'', ea_agent_id = ''ag'', ea_payload = [],
     ea_deadline = hours 1, ea_expected_result_schema = ''r'', ea_correlation_id = ''c'',
     ea_idempotency_key = ''k'', ea_actor = ''acct'', ea_task_id = None, ea_brainstorm_id = None,
     ea_secret_handles = [], ea_work_item_id = Some ''w''\<rparr>"

definition fresh_inbox :: "unit inbox" where
  "fresh_inbox = empty_inbox () \<lparr>al_rows = [], al_anchors = [], al_next_id = 1, al_draws = 0\<rparr>"

definition sample_item :: work_item where
  "sample_item = queued_item (\<lambda>d. d) sample_enqueue ''w'' 0"

lemma canonical_empty: "canonical_bytes (JObj []) = Inr [123, 125]"
  by (simp add: canonical_bytes_def canonical_json_def utf8_encode_def utf8_char_def surrogate_def)

lemma sample_enqueued:
  "inbox_exec plain_env (Enqueue sample_enqueue 0) fresh_inbox = Inr (fresh_inbox\<lparr>ib_items := [sample_item]\<rparr>)"
  using canonical_empty
  by (simp add: enqueue_def sample_enqueue_def plain_env_def fresh_inbox_def empty_inbox_def KINDS_def
      append_item_event_def find_item_def sample_item_def Let_def)

lemma sample_item_sel [simp]:
  "wi_id sample_item = ''w''" "wi_status sample_item = QUEUED" "wi_agent_id sample_item = ''ag''"
  "wi_delivery_count sample_item = 0" "wi_deadline sample_item = hours 1"
  by (simp_all add: sample_item_def queued_item_def sample_enqueue_def)

lemma sample_polled:
  "\<exists>ib. inbox_exec plain_env (Poll ''ag'' ''acct'' 10 0) (fresh_inbox\<lparr>ib_items := [sample_item]\<rparr>) = Inr ib \<and>
     ib_items ib = [sample_item\<lparr>wi_status := DELIVERED, wi_delivery_count := 1, wi_delivered_at := Some 0, wi_updated_at := 0\<rparr>] \<and>
     result_receipt_of ib ''w'' = None \<and> \<not> list_ex (\<lambda>x. rc_work_item_id x = ''w'' \<and> rc_kind x = ''result'') (ib_receipts ib)"
  by (simp add: poll_def due_items_def deliver_def work_transition_eq note_receipt_def record_receipt_def RECEIPT_KINDS_def
      append_item_event_def plain_env_def load_item_def find_item_def set_item_def fresh_inbox_def empty_inbox_def Let_def
      result_receipt_of_def is_result_def)

lemma sample_cancelled:
  "\<exists>ib. inbox_exec plain_env (Cancel ''w'' ''r'' ''acct'' 1) (fresh_inbox\<lparr>ib_items := [sample_item]\<rparr>) = Inr ib \<and>
     load_item ib ''w'' = Inr (sample_item\<lparr>wi_status := WI_CANCELLED, wi_finished_at := Some 1, wi_updated_at := 1\<rparr>)"
  by (simp add: cancel_item_def work_transition_def WORK_TRANSITIONS_def change_item_def append_item_event_def plain_env_def
      load_item_def find_item_def set_item_def fresh_inbox_def empty_inbox_def Let_def)

lemma sample_result_ref:
  "result_ref_for (ie_prims plain_env) ''w'' [(''work_item_id'', JStr ''w'')] =
     Inr (''colab://work/w/result/h'', ''h'')"
  using canonical_bytes_total [of "JObj [(''work_item_id'', JStr ''w'')]"]
  by (auto simp: result_ref_for_def plain_env_def sha256_hex_def bind_res_eq_Inr Let_def)

lemma sample_resulted:
  assumes "ib_items ib = [sample_item\<lparr>wi_status := DELIVERED, wi_delivery_count := 1, wi_delivered_at := Some 0, wi_updated_at := 0\<rparr>]"
    and "result_receipt_of ib ''w'' = None" and "\<not> list_ex (\<lambda>x. rc_work_item_id x = ''w'' \<and> rc_kind x = ''result'') (ib_receipts ib)"
  shows "\<exists>ib' r. result_item plain_env ''w'' ''ag'' [(''work_item_id'', JStr ''w'')] ''acct'' 1 2 ib = Inr (ib', r)"
  using assms sample_result_ref
  by (simp add: result_item_def plain_env_def load_item_def find_item_def require_owner_def get_str_def ack_item_def
      work_transition_def WORK_TRANSITIONS_def change_item_def note_receipt_def record_receipt_def RECEIPT_KINDS_def
      append_item_event_def set_item_def accept_result_def is_result_def Let_def)

theorem finished_items_final_witness:
  "\<exists>ib it. ib = inbox_run plain_env [Enqueue sample_enqueue 0, Cancel ''w'' ''r'' ''acct'' 1] fresh_inbox \<and>
     load_item ib ''w'' = Inr it \<and> wi_status it = WI_CANCELLED \<and>
     load_item (inbox_run plain_env [Poll ''ag'' ''acct'' 10 2] ib) ''w'' = Inr it"
proof -
  let ?ib = "inbox_run plain_env [Enqueue sample_enqueue 0, Cancel ''w'' ''r'' ''acct'' 1] fresh_inbox"
  obtain it where it: "load_item ?ib ''w'' = Inr it" "wi_status it = WI_CANCELLED"
    using sample_cancelled sample_enqueued by (auto simp: inbox_run_def inbox_after_def)
  have "?ib = inbox_run plain_env [Enqueue sample_enqueue 0, Cancel ''w'' ''r'' ''acct'' 1]
      (empty_inbox () \<lparr>al_rows = [], al_anchors = [], al_next_id = 1, al_draws = 0\<rparr>)"
    by (simp add: fresh_inbox_def)
  from finished_items_final [OF this it(1), of "[Poll ''ag'' ''acct'' 10 2]"] it show ?thesis by auto
qed

lemma sample_swept:
  "\<exists>ib rep. sweep plain_env ''acct'' None None (\<lambda>_. 0) (hours 2) (hours 2) (fresh_inbox\<lparr>ib_items := [sample_item]\<rparr>) =
     Inr (ib, rep)"
  by (simp add: sweep_def open_items_def sweep_item_def next_action_def decide_def expire_item_def work_transition_def
      WORK_TRANSITIONS_def change_item_def append_item_event_def plain_env_def load_item_def find_item_def set_item_def
      fresh_inbox_def empty_inbox_def Let_def hours_def)

theorem sweep_clears_witness:
  "\<exists>ib rep. sweep plain_env ''acct'' None None (\<lambda>_. 0) (hours 2) (hours 2)
       (inbox_run plain_env [Enqueue sample_enqueue 0] fresh_inbox) = Inr (ib, rep) \<and>
     \<not> list_ex (overdue (hours 2)) (ib_items ib)"
proof -
  have run: "fresh_inbox\<lparr>ib_items := [sample_item]\<rparr> = inbox_run plain_env [Enqueue sample_enqueue 0]
      (empty_inbox () \<lparr>al_rows = [], al_anchors = [], al_next_id = 1, al_draws = 0\<rparr>)"
    using sample_enqueued by (simp add: inbox_run_def inbox_after_def fresh_inbox_def)
  obtain ib rep where "sweep plain_env ''acct'' None None (\<lambda>_. 0) (hours 2) (hours 2)
      (fresh_inbox\<lparr>ib_items := [sample_item]\<rparr>) = Inr (ib, rep)" using sample_swept by blast
  from sweep_clears [OF run this] this run show ?thesis by (auto simp: fresh_inbox_def)
qed

theorem result_refines_ledger_witness:
  "\<exists>ib ib' r. ib = inbox_run plain_env [Enqueue sample_enqueue 0, Poll ''ag'' ''acct'' 10 0] fresh_inbox \<and>
     result_item plain_env ''w'' ''ag'' [(''work_item_id'', JStr ''w'')] ''acct'' 1 2 ib = Inr (ib', r) \<and>
     ro_code r = ''RESULT_ACCEPTED'' \<and> rl_results (ledger_of ib') ''w'' = Some ''colab://work/w/result/h''"
proof -
  obtain ib where ib: "inbox_exec plain_env (Poll ''ag'' ''acct'' 10 0) (fresh_inbox\<lparr>ib_items := [sample_item]\<rparr>) = Inr ib"
      "ib_items ib = [sample_item\<lparr>wi_status := DELIVERED, wi_delivery_count := 1, wi_delivered_at := Some 0, wi_updated_at := 0\<rparr>]"
      "result_receipt_of ib ''w'' = None" "\<not> list_ex (\<lambda>x. rc_work_item_id x = ''w'' \<and> rc_kind x = ''result'') (ib_receipts ib)"
    using sample_polled by blast
  have run: "ib = inbox_run plain_env [Enqueue sample_enqueue 0, Poll ''ag'' ''acct'' 10 0]
      (empty_inbox () \<lparr>al_rows = [], al_anchors = [], al_next_id = 1, al_draws = 0\<rparr>)"
    using sample_enqueued ib(1) by (simp add: inbox_run_def inbox_after_def fresh_inbox_def)
  obtain ib' r where res: "result_item plain_env ''w'' ''ag'' [(''work_item_id'', JStr ''w'')] ''acct'' 1 2 ib = Inr (ib', r)"
    using sample_resulted [OF ib(2-4)] by blast
  have ld: "load_item ib ''w'' = Inr (hd (ib_items ib))" using ib(2) by (simp add: load_item_def find_item_def)
  let ?ref = "''colab://work/w/result/h''"
  have none: "rl_results (ledger_of ib) ''w'' = None" using ib(3) by (simp add: ledger_of_def)
  have "wi_status (hd (ib_items ib)) \<notin> {REJECTED, EXPIRED, WI_CANCELLED}" using ib(2) by simp
  from result_refines_ledger [OF run res ld this sample_result_ref surjective_pairing] none
  have "rl_results (ledger_of ib') ''w'' = Some ?ref" "ro_code r = ''RESULT_ACCEPTED''"
    by (simp_all add: ledger_accept_def)
  then show ?thesis using run res by (auto simp: fresh_inbox_def)
qed

end
