(* ===== verification/Assignments.thy ===== *)
theory Assignments
  imports Orchestration Work_Runs
begin

text \<open>
  Assignment work items: the part of \<^verbatim>\<open>src/server/application/orchestration.py\<close> that runs after a
  delegation or a reassignment. The \<^verbatim>\<open>agents\<close> table is a map from accounts to Agents.
\<close>

section \<open>Definitions\<close>

definition ASSIGNMENT_DEADLINE :: int where
  "ASSIGNMENT_DEADLINE = hours 24"

definition assignment_of :: "string \<Rightarrow> work_item \<Rightarrow> bool" where
  "assignment_of tid it \<longleftrightarrow> wi_task_id it = Some tid \<and> wi_kind it \<in> {''task_assignment'', ''subtask_assignment''}"

text \<open>
  A cancellation whose Event the store refuses raises after the UPDATE of the row; the caller
  goes on, and nothing undoes the UPDATE.
\<close>

definition cancel_assignment ::
  "'s inbox_env \<Rightarrow> string \<Rightarrow> string option \<Rightarrow> string \<Rightarrow> string \<Rightarrow> time \<Rightarrow> work_item
    \<Rightarrow> 's inbox \<times> string list \<Rightarrow> 's inbox \<times> string list" where
  "cancel_assignment E tid keep reason actor now it = (\<lambda>(ib, cancelled).
     if \<not> assignment_of tid it then (ib, cancelled)
     else if keep \<noteq> None \<and> keep = Some (wi_agent_id it) then (ib, cancelled)
     else case cancel_item E (wi_id it) reason actor now ib of
       Inr (ib', _) \<Rightarrow> (ib', cancelled @ [wi_id it])
     | Inl _ \<Rightarrow>
         (case load_item ib (wi_id it) of
            Inl _ \<Rightarrow> (ib, cancelled)
          | Inr cur \<Rightarrow> (case work_transition (wi_status cur) ''cancel'' of
              Inl _ \<Rightarrow> (ib, cancelled)
            | Inr s \<Rightarrow> (set_item (wi_id it) now (\<lambda>x. x\<lparr>wi_status := s, wi_finished_at := Some now\<rparr>) ib,
                cancelled))))"

definition cancel_open_assignments ::
  "'s inbox_env \<Rightarrow> string \<Rightarrow> string option \<Rightarrow> string \<Rightarrow> string \<Rightarrow> time \<Rightarrow> 's inbox \<Rightarrow> 's inbox \<times> string list" where
  "cancel_open_assignments E tid keep reason actor now ib =
     fold (cancel_assignment E tid keep reason actor now) (open_items None None ib) (ib, [])"

definition assignment_args ::
  "command_context \<Rightarrow> task_state \<Rightarrow> string \<Rightarrow> string \<Rightarrow> pydict option \<Rightarrow> time \<Rightarrow> enqueue_args" where
  "assignment_args cx st agent event_id resume now =
     \<lparr>ea_workspace_id = cx_workspace_id cx,
      ea_kind = (if truthy (ts_parent_task_id st) then ''subtask_assignment'' else ''task_assignment''),
      ea_agent_id = agent,
      ea_payload =
        [(''task_id'', JStr (ts_task_id st)), (''root_task_id'', jopt (ts_root_task_id st)),
         (''parent_task_id'', jopt (ts_parent_task_id st)), (''channel_id'', jopt (ts_channel_id st)),
         (''title'', JStr (ts_title st)), (''domain'', JStr (ts_domain st)), (''risk'', JStr (ts_risk st)),
         (''assignment_revision'', JInt (ts_assignment_revision st)),
         (''criteria_revision'', JInt (ts_criteria_revision st)),
         (''assignment_event_id'', JStr event_id), (''resume_context'', JObj (get_default [] resume))],
      ea_deadline = now + ASSIGNMENT_DEADLINE, ea_expected_result_schema = ''colab.work-result.v1'',
      ea_correlation_id = cx_correlation_id cx,
      ea_idempotency_key = ''assign:'' @ ts_task_id st @ '':'' @ int_str (ts_assignment_revision st),
      ea_actor = cx_account_uuid cx, ea_task_id = Some (ts_task_id st), ea_brainstorm_id = None,
      ea_secret_handles = [], ea_work_item_id = None\<rparr>"

definition after_assignment ::
  "'s inbox_env \<Rightarrow> (string \<Rightarrow> string option) \<Rightarrow> command_context \<Rightarrow> task_state \<Rightarrow> string \<Rightarrow> pydict option
    \<Rightarrow> time \<Rightarrow> 's inbox \<Rightarrow> ('s inbox \<times> string option) res" where
  "after_assignment E agents cx st event_id resume now ib =
     (case ts_assignee_account_id st of
        None \<Rightarrow> Inr (ib, None)
      | Some account \<Rightarrow>
         (case agents account of
            None \<Rightarrow> Inr (ib, None)
          | Some agent \<Rightarrow>
              (let ib1 = fst (cancel_open_assignments E (ts_task_id st) (Some agent) ''REASSIGNED''
                     (cx_account_uuid cx) now ib)
               in bind_res (enqueue E (assignment_args cx st agent event_id resume now) now ib1) (\<lambda>(ib2, it).
                    Inr (ib2, Some (wi_id it))))))"

section \<open>One assignee at a time\<close>

definition open_state :: "work_item \<Rightarrow> bool" where
  "open_state it \<longleftrightarrow> wi_status it \<notin> set TERMINAL_STATES"

lemma open_state_iff: "open_state it \<longleftrightarrow> wi_status it \<in> {QUEUED, DELIVERED, ACKED, IN_PROGRESS}"
  by (cases "wi_status it") (auto simp: open_state_def)

definition foreign_assignment :: "string \<Rightarrow> string \<Rightarrow> work_item \<Rightarrow> bool" where
  "foreign_assignment tid agent it \<longleftrightarrow> assignment_of tid it \<and> open_state it \<and> wi_agent_id it \<noteq> agent"

text \<open>Cancelling changes the one row, also when the store refuses the Event.\<close>

lemma cancel_assignment_step:
  assumes inv: "inbox_inv ib" and it: "it \<in> set (ib_items ib)" "open_state it" "foreign_assignment tid agent it"
    and h: "cancel_assignment E tid (Some agent) reason actor now it (ib, c) = (ib', c')"
  shows "inbox_inv ib' \<and> (\<exists>g. changes it g ib ib' \<and> (\<forall>x. wi_id (g x) = wi_id x) \<and> wi_status (g it) = WI_CANCELLED)"
proof -
  let ?f = "\<lambda>x. x\<lparr>wi_status := WI_CANCELLED, wi_finished_at := Some now\<rparr>"
  have ld: "load_item ib (wi_id it) = Inr it"
    using inv it(1) by (simp add: load_item_Inr inbox_inv_def find_item_mem)
  have tr: "work_transition (wi_status it) ''cancel'' = Inr WI_CANCELLED"
    using it(2) by (simp add: work_transition_Inr open_state_def)
  have ok: "item_ok it" using inv it(1) by (auto simp: inbox_inv_def list_all_iff)
  have "changes it (\<lambda>x. (?f x)\<lparr>wi_updated_at := now\<rparr>) ib ib'"
  proof (cases "cancel_item E (wi_id it) reason actor now ib")
    case (Inl e)
    then have "ib' = set_item (wi_id it) now ?f ib"
      using h it(3) ld tr by (auto simp: cancel_assignment_def foreign_assignment_def)
    then show ?thesis by (simp add: changes_def set_item_def)
  next
    case (Inr p)
    then obtain it' where c: "cancel_item E (wi_id it) reason actor now ib = Inr (ib', it')"
      using h it(3) by (auto simp: cancel_assignment_def foreign_assignment_def split: prod.splits)
    then have "change_item E it ?f None ''WORK_ITEM_CANCELLED'' actor ''cancel'' [(''reason_code'', JStr reason)] now ib = Inr (ib', it')"
      using ld tr by (simp add: cancel_item_def)
    from change_item_changes [OF this] show ?thesis by simp
  qed
  note ch = this
  have "inbox_inv ib' \<and> keeps ib ib'"
    by (rule changes_inv [OF inv it(1) _ ch]) (use it(2) ok in \<open>auto simp: item_ok_def open_state_def\<close>)
  then show ?thesis using ch by (intro conjI exI [of _ "\<lambda>x. (?f x)\<lparr>wi_updated_at := now\<rparr>"]) simp_all
qed

lemma cancel_fold:
  assumes "inbox_inv ib" and "set its \<subseteq> set (ib_items ib)" and "distinct (map wi_id its)"
    and "\<forall>it \<in> set its. open_state it"
    and "\<forall>x \<in> set (ib_items ib). foreign_assignment tid agent x \<longrightarrow> x \<in> set its"
  shows "inbox_inv (fst (fold (cancel_assignment E tid (Some agent) reason actor now) its (ib, c))) \<and>
    (\<forall>x \<in> set (ib_items (fst (fold (cancel_assignment E tid (Some agent) reason actor now) its (ib, c)))).
       \<not> foreign_assignment tid agent x)"
  using assms
proof (induction its arbitrary: ib c)
  case Nil
  then show ?case by auto
next
  case (Cons it its)
  obtain ib1 c1 where one: "cancel_assignment E tid (Some agent) reason actor now it (ib, c) = (ib1, c1)" by fastforce
  have it: "it \<in> set (ib_items ib)" "open_state it" using Cons.prems by simp_all
  have "inbox_inv ib1 \<and> set its \<subseteq> set (ib_items ib1) \<and>
      (\<forall>x \<in> set (ib_items ib1). foreign_assignment tid agent x \<longrightarrow> x \<in> set its)"
  proof (cases "foreign_assignment tid agent it")
    case False
    then have "ib1 = ib" using one it by (auto simp: cancel_assignment_def foreign_assignment_def split: if_splits)
    then show ?thesis using Cons.prems False by auto
  next
    case True
    from cancel_assignment_step [OF Cons.prems(1) it True one] obtain g where
      inv1: "inbox_inv ib1" and ch: "changes it g ib ib1" and g: "\<forall>x. wi_id (g x) = wi_id x" "wi_status (g it) = WI_CANCELLED"
      by blast
    have items: "set (ib_items ib1) = (\<lambda>x. if wi_id x = wi_id it then g x else x) ` set (ib_items ib)"
      using ch by (simp add: changes_def)
    have d: "distinct (map wi_id (ib_items ib))" using Cons.prems(1) by (simp add: inbox_inv_def)
    have "set its \<subseteq> set (ib_items ib1)"
    proof
      fix x
      assume x: "x \<in> set its"
      then have "wi_id x \<noteq> wi_id it" using Cons.prems(3) by (fastforce simp: image_iff)
      then show "x \<in> set (ib_items ib1)" using changes_other [OF ch] x Cons.prems(2) by auto
    qed
    moreover have "y \<in> set its" if y: "y \<in> set (ib_items ib1)" "foreign_assignment tid agent y" for y
    proof -
      obtain x where x: "x \<in> set (ib_items ib)" "y = (if wi_id x = wi_id it then g x else x)" using y(1) items by auto
      show ?thesis
      proof (cases "wi_id x = wi_id it")
        case True
        then have "x = it" using same_id [OF d x(1) it(1)] by simp
        then show ?thesis using x(2) y(2) g(2) by (simp add: foreign_assignment_def open_state_def)
      next
        case False
        then show ?thesis using x y(2) Cons.prems(5) by auto
      qed
    qed
    ultimately show ?thesis using inv1 by blast
  qed
  then show ?case using Cons.IH [of ib1 c1] Cons.prems(3,4) one by simp
qed

text \<open>
  C15. After an assignment to an Agent only this Agent holds open assignment items of the Task: all
  open items of other Agents are finished, whatever the store answered to their cancellations, and
  the new assignment is the one the call returns.
\<close>

theorem single_assignee:
  assumes "ib = inbox_run E ops (empty_inbox s al)"
    and "after_assignment E agents cx st event_id resume now ib = Inr (ib', Some w)"
    and "ts_assignee_account_id st = Some account" and "agents account = Some agent"
  shows "\<not> list_ex (foreign_assignment (ts_task_id st) agent) (ib_items ib') \<and>
    (\<exists>it. load_item ib' w = Inr it \<and> wi_agent_id it = agent)"
proof -
  have inv: "inbox_inv ib" unfolding assms(1) by (rule inbox_run_inv)
  let ?its = "open_items None None ib"
  let ?a = "assignment_args cx st agent event_id resume now"
  define ib1 where "ib1 = fst (cancel_open_assignments E (ts_task_id st) (Some agent) ''REASSIGNED'' (cx_account_uuid cx) now ib)"
  have opn: "?its = sort_key (\<lambda>it. (wi_created_at it, wi_id it)) (filter (\<lambda>it. wi_status it \<in> {QUEUED, DELIVERED, ACKED, IN_PROGRESS}) (ib_items ib))"
    by (simp add: open_items_def)
  have its: "set ?its \<subseteq> set (ib_items ib)" "distinct (map wi_id ?its)" "\<forall>it \<in> set ?its. open_state it"
      "\<forall>x \<in> set (ib_items ib). foreign_assignment (ts_task_id st) agent x \<longrightarrow> x \<in> set ?its"
    using rows_of_table [OF inv] unfolding opn by (auto simp: open_state_iff foreign_assignment_def)
  have one: "inbox_inv ib1" "\<forall>x \<in> set (ib_items ib1). \<not> foreign_assignment (ts_task_id st) agent x"
    using cancel_fold [OF inv its] by (simp_all add: ib1_def cancel_open_assignments_def)
  obtain it where enq: "enqueue E ?a now ib1 = Inr (ib', it)" and w: "w = wi_id it"
    using assms(2-4) by (auto simp: after_assignment_def ib1_def Let_def bind_res_eq_Inr)
  have inv': "inbox_inv ib'" using enqueue_step [OF one(1) enq] by simp
  have "it \<in> set (ib_items ib') \<and> wi_agent_id it = agent \<and> set (ib_items ib') \<subseteq> insert it (set (ib_items ib1))"
  proof (cases "List.find (\<lambda>x. wi_idempotency_key x = ea_idempotency_key ?a) (ib_items ib1)")
    case (Some x)
    then have "x \<in> set (ib_items ib1)" by (auto simp: find_Some_iff)
    moreover have "ib' = ib1 \<and> it = x \<and> wi_agent_id x = agent"
      using enq Some by (auto simp: enqueue_def assignment_args_def split: if_splits)
    ultimately show ?thesis by auto
  next
    case None
    then have "ib_items ib' = ib_items ib1 @ [it] \<and> wi_agent_id it = ea_agent_id ?a"
      using enq by (auto simp: enqueue_def bind_res_eq_Inr Let_def queued_item_def split: if_splits dest!: append_item_event_Inr)
    then show ?thesis by (auto simp: assignment_args_def)
  qed
  then show ?thesis
    using one(2) inv' w by (auto simp: list_ex_iff load_item_Inr inbox_inv_def find_item_mem foreign_assignment_def)
qed

definition assign_args :: "string \<Rightarrow> string \<Rightarrow> enqueue_args" where
  "assign_args agent key = sample_enqueue\<lparr>ea_kind := ''task_assignment'', ea_agent_id := agent,
     ea_task_id := Some ''t'', ea_idempotency_key := key, ea_work_item_id := Some key\<rparr>"

definition assigned_inbox :: "unit inbox" where
  "assigned_inbox = fresh_inbox\<lparr>ib_items := [queued_item (\<lambda>d. d) (assign_args ''old'' ''k'') ''k'' 0,
     queued_item (\<lambda>d. d) (assign_args ''ag'' ''assign:t:0'') ''assign:t:0'' 0]\<rparr>"

lemma assigned_run:
  "assigned_inbox = inbox_run plain_env
     [Enqueue (assign_args ''old'' ''k'') 0, Enqueue (assign_args ''ag'' ''assign:t:0'') 0] fresh_inbox"
  using canonical_empty
  by (simp add: inbox_run_def inbox_after_def enqueue_def assign_args_def sample_enqueue_def plain_env_def fresh_inbox_def
      empty_inbox_def KINDS_def append_item_event_def find_item_def Let_def assigned_inbox_def queued_item_def)

theorem single_assignee_witness:
  "\<exists>ib w. after_assignment plain_env [''acct'' \<mapsto> ''ag''] (at_key ''k'')
       ((initial_task ''t'')\<lparr>ts_assignee_account_id := Some ''acct''\<rparr>) ''e'' None 5 assigned_inbox = Inr (ib, Some w) \<and>
     list_ex (foreign_assignment ''t'' ''ag'') (ib_items assigned_inbox) \<and>
     \<not> list_ex (foreign_assignment ''t'' ''ag'') (ib_items ib)"
proof -
  let ?st = "(initial_task ''t'')\<lparr>ts_assignee_account_id := Some ''acct''\<rparr>"
  have before: "list_ex (foreign_assignment ''t'' ''ag'') (ib_items assigned_inbox)"
    by (simp add: assigned_inbox_def foreign_assignment_def assignment_of_def open_state_def queued_item_def
        assign_args_def sample_enqueue_def)
  have key: "int_str 0 = ''0''" by code_simp
  have "\<exists>ib w. after_assignment plain_env [''acct'' \<mapsto> ''ag''] (at_key ''k'') ?st ''e'' None 5 assigned_inbox = Inr (ib, Some w)"
    by (simp add: after_assignment_def cancel_open_assignments_def open_items_def assigned_inbox_def
        queued_item_def assign_args_def sample_enqueue_def cancel_assignment_def assignment_of_def cancel_item_def load_item_def
        find_item_def work_transition_def WORK_TRANSITIONS_def change_item_def append_item_event_def plain_env_def set_item_def
        enqueue_def assignment_args_def initial_task_def KINDS_def key Let_def)
  then obtain ib w where r: "after_assignment plain_env [''acct'' \<mapsto> ''ag''] (at_key ''k'') ?st ''e'' None 5 assigned_inbox = Inr (ib, Some w)"
    by blast
  from single_assignee [OF assigned_run [unfolded fresh_inbox_def] r] r before show ?thesis
    by (auto simp: initial_task_def)
qed

end
