(* ===== verification/Policy.thy ===== *)
theory Policy
  imports Prelude
begin

text \<open>
  Policy objects, the evaluation engine and the risk catalog: \<^verbatim>\<open>src/server/policy/model.py\<close>,
  \<^verbatim>\<open>src/server/policy/engine.py\<close> and \<^verbatim>\<open>src/server/policy/catalog.py\<close>. The YAML files a catalog is
  loaded from are the data of the \<open>policy_catalog\<close> record. Frozen sets are lists; only membership
  in them is used.
\<close>

section \<open>Policy objects\<close>

record role_constraints =
  co_domains :: "string list option"
  co_side_effects :: string
  co_requires_human_approval :: "string list"
  co_channels :: "string list option"
  co_resources :: "string list option"
  co_max_risk :: string

record role =
  ro_role_id :: string
  ro_version :: int
  ro_permissions :: "string list"
  ro_deny :: "string list"
  ro_constraints :: role_constraints
  ro_status :: string

record action_request =
  aq_permission :: string
  aq_domain :: "string option"
  aq_side_effect :: bool
  aq_channel_id :: "string option"
  aq_resource :: "string option"

record policy_decision =
  pd_allow :: bool
  pd_reason :: string
  pd_matched_roles :: "string list"
  pd_requires_human_approval :: bool

definition permission_matches :: "string \<Rightarrow> string \<Rightarrow> bool" where
  "permission_matches pattern permission =
     (if pattern = ''*'' then True
      else if ends_with ''.*'' pattern then starts_with (butlast pattern) permission
      else pattern = permission)"

section \<open>The engine\<close>

definition scope_violation :: "role \<Rightarrow> action_request \<Rightarrow> string option" where
  "scope_violation r q =
     (let c = ro_constraints r;
          outside = (\<lambda>allowed v. case allowed of None \<Rightarrow> False
             | Some xs \<Rightarrow> (case v of None \<Rightarrow> True | Some x \<Rightarrow> x \<notin> set xs))
      in if outside (co_domains c) (aq_domain q) then Some ''SCOPE_DOMAIN''
         else if co_side_effects c = ''deny'' \<and> aq_side_effect q then Some ''SCOPE_SIDE_EFFECT''
         else if outside (co_channels c) (aq_channel_id q) then Some ''SCOPE_CHANNEL''
         else if outside (co_resources c) (aq_resource q) then Some ''SCOPE_RESOURCE''
         else None)"

definition matches_any :: "string list \<Rightarrow> string \<Rightarrow> bool" where
  "matches_any patterns permission = list_ex (\<lambda>p. permission_matches p permission) patterns"

definition policy_deny :: "string \<Rightarrow> string list \<Rightarrow> policy_decision" where
  "policy_deny reason matched = \<lparr>pd_allow = False, pd_reason = reason, pd_matched_roles = matched,
     pd_requires_human_approval = False\<rparr>"

fun first_some :: "'a option list \<Rightarrow> 'a option" where
  "first_some [] = None"
| "first_some (x # xs) = (case x of Some v \<Rightarrow> Some v | None \<Rightarrow> first_some xs)"

definition evaluate :: "string list option \<Rightarrow> role list \<Rightarrow> action_request \<Rightarrow> policy_decision" where
  "evaluate vocabulary roles q =
     (if vocabulary \<noteq> None \<and> aq_permission q \<notin> set (the vocabulary)
      then policy_deny ''UNKNOWN_PERMISSION'' []
      else
        let active = sort_key ro_role_id (filter (\<lambda>r. ro_status r = ''active'') roles) in
        case List.find (\<lambda>r. matches_any (ro_deny r) (aq_permission q)) active of
          Some r \<Rightarrow> policy_deny ''EXPLICIT_DENY'' [ro_role_id r]
        | None \<Rightarrow>
          let granting = filter (\<lambda>r. matches_any (ro_permissions r) (aq_permission q)) active in
          if granting = [] then policy_deny ''DEFAULT_DENY'' []
          else
            let in_scope = filter (\<lambda>r. scope_violation r q = None) granting in
            if in_scope = []
            then policy_deny (get_default ''SCOPE_RESOURCE''
                   (first_some (map (\<lambda>r. scope_violation r q) granting))) (map ro_role_id granting)
            else \<lparr>pd_allow = True, pd_reason = ''ALLOW'', pd_matched_roles = map ro_role_id in_scope,
              pd_requires_human_approval = list_ex (\<lambda>r.
                aq_permission q \<in> set (co_requires_human_approval (ro_constraints r)) \<or>
                matches_any (co_requires_human_approval (ro_constraints r)) (aq_permission q)) in_scope\<rparr>)"

section \<open>The catalog\<close>

definition RISK_ORDER :: "string list" where
  "RISK_ORDER = [''LOW'', ''MEDIUM'', ''HIGH'', ''CRITICAL'']"

text \<open>\<^verbatim>\<open>RISK_ORDER.index\<close>\<close>

fun index_of :: "'a \<Rightarrow> 'a list \<Rightarrow> nat res" where
  "index_of x [] = Inl ''ValueError''"
| "index_of x (y # ys) = (if x = y then Inr 0 else bind_res (index_of x ys) (\<lambda>n. Inr (Suc n)))"

definition risk_index :: "string \<Rightarrow> nat res" where
  "risk_index r = index_of r RISK_ORDER"

record role_spec =
  rs_permissions :: "string list"
  rs_deny :: "string list"
  rs_domains :: "string list option"
  rs_side_effects :: string
  rs_requires_human_approval :: "string list"
  rs_channels :: "string list option"
  rs_max_risk :: string

record policy_catalog =
  pc_permissions :: "(string \<times> bool) list"
  pc_classes :: "(string \<times> (string \<times> string)) list"
  pc_actions :: "(string \<times> (string \<times> string)) list"
  pc_unclassified_default :: string
  pc_quorum :: "string \<Rightarrow> int"
  pc_human_only_from :: string
  pc_capabilities :: "(string \<times> string) list"
  pc_roles :: "(string \<times> role_spec) list"

record risk_decision =
  rd_action :: string
  rd_class :: string
  rd_risk :: string
  rd_approval :: string
  rd_unclassified :: bool

definition vocabulary :: "policy_catalog \<Rightarrow> string list" where
  "vocabulary c = map fst (pc_permissions c)"

definition minimum_vocabulary :: "policy_catalog \<Rightarrow> string list" where
  "minimum_vocabulary c = map fst (filter snd (pc_permissions c))"

definition permission_in_vocabulary :: "string \<Rightarrow> string list \<Rightarrow> bool" where
  "permission_in_vocabulary pattern voc =
     (if ends_with ''.*'' pattern then list_ex (starts_with (butlast pattern)) voc
      else pattern \<in> set voc)"

definition validate_cross_references :: "policy_catalog \<Rightarrow> unit res" where
  "validate_cross_references c =
     (let voc = vocabulary c in
      bind_res (fold_res (\<lambda>(_, cls, perm) _.
          if map_of (pc_classes c) cls = None then Inl ''POLICY_ACTION_UNCLASSIFIED''
          else if perm \<noteq> ''none'' \<and> perm \<notin> set voc then Inl ''POLICY_PERMISSION_UNKNOWN''
          else Inr ()) (pc_actions c) ()) (\<lambda>_.
      bind_res (fold_res (\<lambda>(_, perm) _.
          if perm \<notin> set voc then Inl ''POLICY_PERMISSION_UNKNOWN'' else Inr ()) (pc_capabilities c) ()) (\<lambda>_.
      fold_res (\<lambda>(_, r) _.
          if list_all (\<lambda>p. permission_in_vocabulary p voc)
               (rs_permissions r @ rs_deny r @ rs_requires_human_approval r)
          then Inr () else Inl ''POLICY_PERMISSION_UNKNOWN'') (pc_roles c) ())))"

definition risk_for :: "policy_catalog \<Rightarrow> string \<Rightarrow> bool \<Rightarrow> risk_decision res" where
  "risk_for c action side_effect =
     (case map_of (pc_actions c) action of
        None \<Rightarrow> Inr \<lparr>rd_action = action, rd_class = ''unclassified'',
            rd_risk = pc_unclassified_default c, rd_approval = ''human_1'', rd_unclassified = True\<rparr>
      | Some (cls, _) \<Rightarrow>
         (case map_of (pc_classes c) cls of
            None \<Rightarrow> Inl ''KeyError''
          | Some (risk, approval) \<Rightarrow>
             bind_res (if side_effect then bind_res (risk_index risk) (\<lambda>i. Inr (i < 1)) else Inr False) (\<lambda>raised.
               Inr \<lparr>rd_action = action, rd_class = cls,
                    rd_risk = (if raised then ''MEDIUM'' else risk),
                    rd_approval = (if raised then ''channel_policy'' else approval),
                    rd_unclassified = False\<rparr>)))"

definition quorum :: "policy_catalog \<Rightarrow> string \<Rightarrow> int res" where
  "quorum c risk = (if risk \<notin> set RISK_ORDER then Inl ''POLICY_RISK_UNKNOWN'' else Inr (pc_quorum c risk))"

definition human_only :: "policy_catalog \<Rightarrow> string \<Rightarrow> bool res" where
  "human_only c risk =
     bind_res (risk_index risk) (\<lambda>i. bind_res (risk_index (pc_human_only_from c)) (\<lambda>j. Inr (i \<ge> j)))"

definition default_roles :: "policy_catalog \<Rightarrow> role list" where
  "default_roles c = map (\<lambda>(rid, s).
     \<lparr>ro_role_id = rid, ro_version = 1, ro_permissions = rs_permissions s, ro_deny = rs_deny s,
      ro_constraints = \<lparr>co_domains = rs_domains s, co_side_effects = rs_side_effects s,
        co_requires_human_approval = rs_requires_human_approval s, co_channels = rs_channels s,
        co_resources = None, co_max_risk = rs_max_risk s\<rparr>, ro_status = ''active''\<rparr>) (pc_roles c)"

definition catalog_role :: "policy_catalog \<Rightarrow> string \<Rightarrow> role res" where
  "catalog_role c rid = (case List.find (\<lambda>r. ro_role_id r = rid) (default_roles c) of
      None \<Rightarrow> Inl ''POLICY_ROLE_UNKNOWN'' | Some r \<Rightarrow> Inr r)"

section \<open>Facts\<close>

lemma filter_sort_key: "filter P (sort_key k xs) = sort_key k (filter P xs)"
  by (simp add: filter_sort)

lemma find_None_list_ex: "List.find P xs = None \<longleftrightarrow> \<not> list_ex P xs"
  by (induction xs) auto

text \<open>Permuting the roles does not matter when their identifiers differ.\<close>

lemma sorted_roles_perm:
  assumes "mset roles = mset roles'" and "distinct (map ro_role_id roles)"
  shows "sort_key ro_role_id (filter P roles) = sort_key ro_role_id (filter P roles')"
proof (rule sort_key_inj_key_eq)
  have "inj_on ro_role_id (set roles)" using assms(2) by (simp add: distinct_map)
  then show "inj_on ro_role_id (set (filter P roles))" by (rule inj_on_subset) auto
  show "mset (filter P roles) = mset (sort_key ro_role_id (filter P roles'))"
    using assms(1) by simp
  show "sorted (map ro_role_id (sort_key ro_role_id (filter P roles')))" by simp
qed

lemma first_some_None: "first_some xs = None \<longleftrightarrow> (\<forall>x \<in> set xs. x = None)"
  by (induction xs) (auto split: option.split)

section \<open>Properties\<close>

text \<open>The declarative reading of the policy: deny by default, explicit deny first, then scope.\<close>

definition allowed_by :: "string list option \<Rightarrow> role list \<Rightarrow> action_request \<Rightarrow> bool" where
  "allowed_by voc roles q \<longleftrightarrow>
     (\<forall>v. voc = Some v \<longrightarrow> aq_permission q \<in> set v) \<and>
     (\<forall>r \<in> set roles. ro_status r = ''active'' \<longrightarrow> \<not> matches_any (ro_deny r) (aq_permission q)) \<and>
     (\<exists>r \<in> set roles. ro_status r = ''active'' \<and> matches_any (ro_permissions r) (aq_permission q) \<and>
        scope_violation r q = None)"

lemma evaluate_allow_iff: "pd_allow (evaluate voc roles q) \<longleftrightarrow> allowed_by voc roles q"
proof -
  let ?active = "sort_key ro_role_id (filter (\<lambda>r. ro_status r = ''active'') roles)"
  let ?granting = "filter (\<lambda>r. matches_any (ro_permissions r) (aq_permission q)) ?active"
  have mem: "set ?active = {r \<in> set roles. ro_status r = ''active''}" by auto
  have none: "List.find (\<lambda>r. matches_any (ro_deny r) (aq_permission q)) ?active = None \<longleftrightarrow>
      (\<forall>r \<in> set roles. ro_status r = ''active'' \<longrightarrow> \<not> matches_any (ro_deny r) (aq_permission q))"
    unfolding find_None_list_ex list_ex_iff mem by auto
  have scope: "filter (\<lambda>r. scope_violation r q = None) ?granting = [] \<longleftrightarrow>
      \<not> (\<exists>r \<in> set roles. ro_status r = ''active'' \<and> matches_any (ro_permissions r) (aq_permission q) \<and>
        scope_violation r q = None)"
    unfolding filter_empty_conv set_filter mem by auto
  show ?thesis
  proof (cases "voc \<noteq> None \<and> aq_permission q \<notin> set (the voc)")
    case True
    then show ?thesis by (auto simp: evaluate_def policy_deny_def allowed_by_def)
  next
    case voc: False
    then have v: "\<forall>v. voc = Some v \<longrightarrow> aq_permission q \<in> set v" by auto
    show ?thesis
    proof (cases "List.find (\<lambda>r. matches_any (ro_deny r) (aq_permission q)) ?active")
      case (Some r)
      then have "\<not> allowed_by voc roles q" using none unfolding allowed_by_def by auto
      then show ?thesis using voc Some by (auto simp: evaluate_def policy_deny_def Let_def)
    next
      case None
      then have "allowed_by voc roles q \<longleftrightarrow> filter (\<lambda>r. scope_violation r q = None) ?granting \<noteq> []"
        using v none scope unfolding allowed_by_def by blast
      moreover have "pd_allow (evaluate voc roles q) \<longleftrightarrow> filter (\<lambda>r. scope_violation r q = None) ?granting \<noteq> []"
        unfolding evaluate_def if_not_P [OF voc] Let_def None option.case policy_deny_def
        by (cases "?granting = []") (simp_all del: filter_filter)
      ultimately show ?thesis by simp
    qed
  qed
qed

lemma evaluate_perm:
  assumes "mset roles = mset roles'" and "distinct (map ro_role_id roles)"
  shows "evaluate voc roles q = evaluate voc roles' q"
  unfolding evaluate_def sorted_roles_perm [OF assms] ..

lemma evaluate_matched:
  assumes "pd_allow (evaluate voc roles q)"
  shows "set (pd_matched_roles (evaluate voc roles q)) =
      ro_role_id ` {r \<in> set roles. ro_status r = ''active'' \<and>
        matches_any (ro_permissions r) (aq_permission q) \<and> scope_violation r q = None}"
  using assms by (auto simp: evaluate_def policy_deny_def Let_def split: if_splits option.splits)

text \<open>
  The engine decides exactly the declarative policy: a request is allowed when its permission
  is in the vocabulary, no active role denies it, and some active role grants it within its scope.
  The order in which the roles are given does not matter, and the roles a positive decision names
  are the active roles that grant the request in scope.
\<close>

lemma evaluate_spec:
  "(pd_allow (evaluate voc roles q) \<longleftrightarrow> allowed_by voc roles q) \<and>
   (mset roles = mset roles' \<and> distinct (map ro_role_id roles) \<longrightarrow>
      evaluate voc roles q = evaluate voc roles' q) \<and>
   (pd_allow (evaluate voc roles q) \<longrightarrow> set (pd_matched_roles (evaluate voc roles q)) =
      ro_role_id ` {r \<in> set roles. ro_status r = ''active'' \<and>
        matches_any (ro_permissions r) (aq_permission q) \<and> scope_violation r q = None})"
  using evaluate_allow_iff evaluate_perm evaluate_matched by blast

definition sample_role :: "string \<Rightarrow> string list \<Rightarrow> string list \<Rightarrow> role" where
  "sample_role rid perms deny = \<lparr>ro_role_id = rid, ro_version = 1, ro_permissions = perms, ro_deny = deny,
     ro_constraints = \<lparr>co_domains = Some [''dev''], co_side_effects = ''allow'',
       co_requires_human_approval = [''task.complete''], co_channels = None, co_resources = None,
       co_max_risk = ''HIGH''\<rparr>, ro_status = ''active''\<rparr>"

definition sample_query :: "string \<Rightarrow> action_request" where
  "sample_query p = \<lparr>aq_permission = p, aq_domain = Some ''dev'', aq_side_effect = False,
     aq_channel_id = None, aq_resource = None\<rparr>"

lemma evaluate_spec_example:
  "let a = sample_role ''a'' [''task.*''] []; b = sample_role ''b'' [''*''] [''secret.*''] in
   evaluate None [a, b] (sample_query ''task.create'') = evaluate None [b, a] (sample_query ''task.create'') \<and>
   pd_allow (evaluate None [a, b] (sample_query ''task.create'')) \<and>
   \<not> allowed_by None [a, b] (sample_query ''secret.read'')"
proof -
  let ?a = "sample_role ''a'' [''task.*''] []" and ?b = "sample_role ''b'' [''*''] [''secret.*'']"
  have "mset [?a, ?b] = mset [?b, ?a] \<and> distinct (map ro_role_id [?a, ?b])"
    by (simp add: sample_role_def)
  then have "evaluate None [?a, ?b] (sample_query ''task.create'') = evaluate None [?b, ?a] (sample_query ''task.create'')"
    using evaluate_spec [of None "[?a, ?b]" _ "[?b, ?a]"] by blast
  moreover have pats: "suffix ''.*'' ''secret.*''" "suffix ''.*'' ''task.*''"
    by (simp_all add: suffix_def)
  moreover have "allowed_by None [?a, ?b] (sample_query ''task.create'')"
    by (simp add: allowed_by_def sample_role_def sample_query_def matches_any_def permission_matches_def
        ends_with_def starts_with_def pats scope_violation_def Let_def)
  moreover have "\<not> allowed_by None [?a, ?b] (sample_query ''secret.read'')"
    by (simp add: allowed_by_def sample_role_def sample_query_def matches_any_def permission_matches_def
        ends_with_def starts_with_def pats scope_violation_def Let_def)
  ultimately show ?thesis
    using evaluate_spec [of None "[?a, ?b]" "sample_query ''task.create''"] by (simp add: Let_def)
qed

end
