(* ===== verification/Policy_Store.thy ===== *)
theory Policy_Store
  imports Policy Hash_Chain
begin

text \<open>
  The committed policy state: \<^verbatim>\<open>src/server/policy/repository.py\<close>. \<open>policy_db\<close> holds the tables the
  repository reads and writes; a query is a filter over them and a statement that violates a
  constraint of the schema raises \<open>IntegrityError\<close>. Row identifiers (\<^verbatim>\<open>uuid4\<close>) that nothing reads
  are left out. The column type \<^verbatim>\<open>jsonb\<close> is the parameter \<open>jsonb\<close>.
\<close>

section \<open>Tables\<close>

record account_rec =
  ac_account_id :: string
  ac_uuid :: string
  ac_workspace :: string
  ac_type :: string
  ac_status :: string

record role_rec =
  rr_role_id :: string
  rr_workspace :: string
  rr_display_name :: string
  rr_current_version :: int
  rr_status :: string

record version_rec =
  rv_role_id :: string
  rv_version :: int
  rv_permissions :: "string list"
  rv_deny :: "string list"
  rv_constraints :: pydict
  rv_policy_hash :: string
  rv_event_id :: "string option"
  rv_created_by :: string

record role_assignment =
  ra_account :: string
  ra_role_id :: string
  ra_scope :: pydict
  ra_valid_from :: time
  ra_valid_to :: "time option"
  ra_assigned_by :: string
  ra_event_id :: "string option"
  ra_revoked_at :: "time option"
  ra_revoke_event_id :: "string option"

record policy_db =
  pb_accounts :: "account_rec list"
  pb_agents :: "(string \<times> string) list"
  pb_roles :: "role_rec list"
  pb_versions :: "version_rec list"
  pb_assignments :: "role_assignment list"
  pb_capability_ids :: "string list"
  pb_agent_capabilities :: "(string \<times> string) list"
  pb_channels :: "(string \<times> string) list"
  pb_members :: "(string \<times> string \<times> string) list"

text \<open>
  Agents are pairs of agent identifier and account, channels pairs of row identifier and channel
  identifier, members triples of channel row, account and status.
\<close>

record principal_info =
  pr_account_id :: string
  pr_account_uuid :: string
  pr_workspace_uuid :: string
  pr_account_type :: string
  pr_status :: string
  pr_agent_id :: "string option"

record policy_snapshot =
  ps_account_id :: string
  ps_role_versions :: "(string \<times> int) list"
  ps_capability_ids :: "string list"
  ps_policy_hash :: string
  ps_computed_at :: string

section \<open>Roles from rows\<close>

definition policy_hash :: "prims \<Rightarrow> string list \<Rightarrow> string list \<Rightarrow> pydict \<Rightarrow> string res" where
  "policy_hash P permissions deny constraints =
     bind_res (canonical_bytes (JObj [(''permissions'', JArr (map JStr (sort permissions))),
       (''deny'', JArr (map JStr (sort deny))), (''constraints'', JObj constraints)]))
       (\<lambda>b. Inr (sha256_hex P b))"

text \<open>
  \<^verbatim>\<open>frozenset(v)\<close> of a JSON value that is only tested for membership of strings: other members are
  never equal to one. A member that cannot be hashed and a value that cannot be iterated raise.
\<close>

fun py_frozenset :: "json \<Rightarrow> string list res" where
  "py_frozenset (JArr xs) =
     (if list_ex (\<lambda>x. case x of JArr _ \<Rightarrow> True | JObj _ \<Rightarrow> True | _ \<Rightarrow> False) xs then Inl ''TypeError''
      else Inr (List.map_filter (\<lambda>x. case x of JStr s \<Rightarrow> Some s | _ \<Rightarrow> None) xs))"
| "py_frozenset (JStr s) = Inr (map (\<lambda>c. [c]) s)"
| "py_frozenset (JObj kvs) = Inr (map fst kvs)"
| "py_frozenset _ = Inl ''TypeError''"

text \<open>\<^verbatim>\<open>str(v)\<close>; the text of a list or a mapping is only ever compared with a word.\<close>

fun py_str :: "json \<Rightarrow> string" where
  "py_str (JStr s) = s"
| "py_str JNull = ''None''"
| "py_str (JBool b) = (if b then ''True'' else ''False'')"
| "py_str (JInt i) = int_str i"
| "py_str (JFloat x) = float_str x"
| "py_str (JArr _) = ''[...]''"
| "py_str _ = ''{...}''"

definition optional_set :: "pydict \<Rightarrow> string \<Rightarrow> string list option res" where
  "optional_set c k = (case map_of c k of
      None \<Rightarrow> Inr None
    | Some v \<Rightarrow> if v = JNull then Inr None else bind_res (py_frozenset v) (\<lambda>s. Inr (Some s)))"

definition role_from_version ::
  "string \<Rightarrow> int \<Rightarrow> string list \<Rightarrow> string list \<Rightarrow> pydict \<Rightarrow> string \<Rightarrow> role res" where
  "role_from_version role_id version permissions deny c status =
     bind_res (optional_set c ''domains'') (\<lambda>domains.
     bind_res (py_frozenset (get_default (JArr []) (map_of c ''requires_human_approval''))) (\<lambda>approval.
     bind_res (optional_set c ''channels'') (\<lambda>channels.
     bind_res (optional_set c ''resources'') (\<lambda>resources.
       Inr \<lparr>ro_role_id = role_id, ro_version = version, ro_permissions = permissions, ro_deny = deny,
         ro_constraints = \<lparr>co_domains = domains,
           co_side_effects = py_str (get_default (JStr ''allow'') (map_of c ''side_effects'')),
           co_requires_human_approval = approval, co_channels = channels, co_resources = resources,
           co_max_risk = py_str (get_default (JStr ''CRITICAL'') (map_of c ''max_risk''))\<rparr>,
         ro_status = status\<rparr>))))"

text \<open>\<^verbatim>\<open>datetime.isoformat()\<close>: the fraction is printed when it is not zero.\<close>

definition py_isoformat :: "time \<Rightarrow> string" where
  "py_isoformat t =
     (let secs = t div 1000000; sod = secs mod 86400; us = t mod 1000000
      in iso_date (secs div 86400) @ ''T'' @ pad 2 (sod div 3600) @ '':'' @
         pad 2 (sod div 60 mod 60) @ '':'' @ pad 2 (sod mod 60) @
         (if us = 0 then [] else ''.'' @ pad 6 us) @ ''+00:00'')"

text \<open>Tuples of a role and its version in the order of Python.\<close>

definition sort_versions :: "(string \<times> int) list \<Rightarrow> (string \<times> int) list" where
  "sort_versions rvs = sort_key fst (sort_key snd rvs)"

definition snapshot_of :: "prims \<Rightarrow> string \<Rightarrow> role list \<Rightarrow> string list \<Rightarrow> time \<Rightarrow> policy_snapshot res" where
  "snapshot_of P account_id roles capabilities now =
     (let rvs = sort_versions (map (\<lambda>r. (ro_role_id r, ro_version r)) roles);
          caps = sort (remdups capabilities)
      in bind_res (canonical_bytes (JObj [(''account_id'', JStr account_id),
           (''role_versions'', JArr (map (\<lambda>(r, v). JArr [JStr r, JInt v]) rvs)),
           (''capability_ids'', JArr (map JStr caps))])) (\<lambda>b.
         Inr \<lparr>ps_account_id = account_id, ps_role_versions = rvs, ps_capability_ids = caps,
           ps_policy_hash = sha256_hex P b, ps_computed_at = py_isoformat now\<rparr>))"

section \<open>Readers\<close>

definition principal :: "policy_db \<Rightarrow> string \<Rightarrow> principal_info option" where
  "principal db account_id =
     map_option (\<lambda>a. \<lparr>pr_account_id = ac_account_id a, pr_account_uuid = ac_uuid a,
         pr_workspace_uuid = ac_workspace a, pr_account_type = ac_type a, pr_status = ac_status a,
         pr_agent_id = map_option fst (List.find (\<lambda>(_, acct). acct = ac_uuid a) (pb_agents db))\<rparr>)
       (List.find (\<lambda>a. ac_account_id a = account_id) (pb_accounts db))"

definition assignment_effective :: "string \<Rightarrow> time \<Rightarrow> role_assignment \<Rightarrow> bool" where
  "assignment_effective acct now a \<longleftrightarrow> ra_account a = acct \<and> ra_revoked_at a = None \<and>
     ra_valid_from a \<le> now \<and> (case ra_valid_to a of None \<Rightarrow> True | Some t \<Rightarrow> now < t)"

definition effective_rows :: "policy_db \<Rightarrow> string \<Rightarrow> time \<Rightarrow> (role_rec \<times> version_rec) list" where
  "effective_rows db acct now = sort_key (rr_role_id \<circ> fst)
     [(r, v). a \<leftarrow> pb_assignments db, assignment_effective acct now a,
              r \<leftarrow> pb_roles db, rr_role_id r = ra_role_id a \<and> rr_status r = ''active'' \<and> rr_current_version r > 0,
              v \<leftarrow> pb_versions db, rv_role_id v = rr_role_id r \<and> rv_version v = rr_current_version r]"

definition role_of_rows :: "role_rec \<times> version_rec \<Rightarrow> role res" where
  "role_of_rows rv = role_from_version (rr_role_id (fst rv)) (rv_version (snd rv))
     (rv_permissions (snd rv)) (rv_deny (snd rv)) (rv_constraints (snd rv)) (rr_status (fst rv))"

definition effective_roles :: "policy_db \<Rightarrow> principal_info \<Rightarrow> time \<Rightarrow> role list res" where
  "effective_roles db p now =
     sequence_res (map role_of_rows (effective_rows db (pr_account_uuid p) now))"

definition capability_ids :: "policy_db \<Rightarrow> principal_info \<Rightarrow> string list" where
  "capability_ids db p = (case pr_agent_id p of
      None \<Rightarrow> []
    | Some a \<Rightarrow> map snd (filter (\<lambda>(agent, _). agent = a) (pb_agent_capabilities db)))"

definition is_channel_member :: "policy_db \<Rightarrow> principal_info \<Rightarrow> string \<Rightarrow> bool" where
  "is_channel_member db p cid = list_ex (\<lambda>(channel, acct, status).
     acct = pr_account_uuid p \<and> status = ''active'' \<and>
     list_ex (\<lambda>(row, channel_id). row = channel \<and> (channel_id = cid \<or> row = cid)) (pb_channels db))
     (pb_members db)"

section \<open>Writers\<close>

definition create_role_row :: "policy_db \<Rightarrow> string \<Rightarrow> string \<Rightarrow> string \<Rightarrow> policy_db res" where
  "create_role_row db ws role_id display_name =
     (if list_ex (\<lambda>r. rr_role_id r = role_id) (pb_roles db) then Inl ''IntegrityError''
      else Inr (db\<lparr>pb_roles := pb_roles db @ [\<lparr>rr_role_id = role_id, rr_workspace = ws,
        rr_display_name = display_name, rr_current_version = 0, rr_status = ''active''\<rparr>]\<rparr>))"

definition account_exists :: "policy_db \<Rightarrow> string \<Rightarrow> bool" where
  "account_exists db u = list_ex (\<lambda>a. ac_uuid a = u) (pb_accounts db)"

definition commit_role_version ::
  "prims \<Rightarrow> (pydict \<Rightarrow> pydict) \<Rightarrow> policy_db \<Rightarrow> string \<Rightarrow> string list \<Rightarrow> string list \<Rightarrow> pydict \<Rightarrow> string
    \<Rightarrow> string option \<Rightarrow> (policy_db \<times> int \<times> string) res" where
  "commit_role_version P jsonb db role_id permissions deny constraints created_by event_id =
     (case List.find (\<lambda>r. rr_role_id r = role_id) (pb_roles db) of
        None \<Rightarrow> Inl ''ROLE_NOT_FOUND''
      | Some row \<Rightarrow>
         (let version = rr_current_version row + 1 in
          bind_res (policy_hash P permissions deny constraints) (\<lambda>digest.
            if \<not> account_exists db created_by \<or>
               list_ex (\<lambda>v. rv_role_id v = role_id \<and> rv_version v = version) (pb_versions db)
            then Inl ''IntegrityError''
            else Inr (db\<lparr>pb_versions := pb_versions db @ [\<lparr>rv_role_id = role_id, rv_version = version,
                     rv_permissions = sort permissions, rv_deny = sort deny,
                     rv_constraints = jsonb constraints, rv_policy_hash = digest,
                     rv_event_id = event_id, rv_created_by = created_by\<rparr>],
                   pb_roles := map (\<lambda>r. if rr_role_id r = role_id
                     then r\<lparr>rr_current_version := version\<rparr> else r) (pb_roles db)\<rparr>,
                 version, digest))))"

definition assign_role_row ::
  "policy_db \<Rightarrow> string \<Rightarrow> string \<Rightarrow> string \<Rightarrow> time \<Rightarrow> time option \<Rightarrow> pydict \<Rightarrow> string option \<Rightarrow> policy_db res" where
  "assign_role_row db acct role_id assigned_by valid_from valid_to scope event_id =
     (if account_exists db acct \<and> account_exists db assigned_by \<and>
         list_ex (\<lambda>r. rr_role_id r = role_id) (pb_roles db)
      then Inr (db\<lparr>pb_assignments := pb_assignments db @ [\<lparr>ra_account = acct, ra_role_id = role_id,
        ra_scope = scope, ra_valid_from = valid_from, ra_valid_to = valid_to,
        ra_assigned_by = assigned_by, ra_event_id = event_id, ra_revoked_at = None,
        ra_revoke_event_id = None\<rparr>]\<rparr>)
      else Inl ''IntegrityError'')"

definition open_assignment :: "string \<Rightarrow> string \<Rightarrow> role_assignment \<Rightarrow> bool" where
  "open_assignment acct role_id a \<longleftrightarrow>
     ra_account a = acct \<and> ra_role_id a = role_id \<and> ra_revoked_at a = None"

definition revoke_role_rows ::
  "policy_db \<Rightarrow> string \<Rightarrow> string \<Rightarrow> time \<Rightarrow> string option \<Rightarrow> policy_db \<times> int" where
  "revoke_role_rows db acct role_id now event_id =
     (db\<lparr>pb_assignments := map (\<lambda>a. if open_assignment acct role_id a
        then a\<lparr>ra_revoked_at := Some now, ra_revoke_event_id := event_id\<rparr> else a) (pb_assignments db)\<rparr>,
      int (length (filter (open_assignment acct role_id) (pb_assignments db))))"

definition grant_capability :: "policy_db \<Rightarrow> string \<Rightarrow> string \<Rightarrow> policy_db res" where
  "grant_capability db agent cap =
     (if agent \<notin> fst ` set (pb_agents db) \<or> cap \<notin> set (pb_capability_ids db) then Inl ''IntegrityError''
      else if (agent, cap) \<in> set (pb_agent_capabilities db) then Inr db
      else Inr (db\<lparr>pb_agent_capabilities := pb_agent_capabilities db @ [(agent, cap)]\<rparr>))"


section \<open>Histories of the policy tables\<close>

inductive policy_step :: "prims \<Rightarrow> (pydict \<Rightarrow> pydict) \<Rightarrow> policy_db \<Rightarrow> policy_db \<Rightarrow> bool" for P jsonb where
  create: "create_role_row db ws rid name = Inr db' \<Longrightarrow> policy_step P jsonb db db'"
| commit: "commit_role_version P jsonb db rid perms deny con acct ev = Inr (db', v, h) \<Longrightarrow>
    policy_step P jsonb db db'"
| assign: "assign_role_row db acct rid granter vf vt scope ev = Inr db' \<Longrightarrow> policy_step P jsonb db db'"
| revoke: "revoke_role_rows db acct rid now ev = (db', n) \<Longrightarrow> policy_step P jsonb db db'"
| grant: "grant_capability db agent cap = Inr db' \<Longrightarrow> policy_step P jsonb db db'"

definition versions_of :: "policy_db \<Rightarrow> string \<Rightarrow> version_rec list" where
  "versions_of db rid = filter (\<lambda>v. rv_role_id v = rid) (pb_versions db)"

definition version_ok :: "prims \<Rightarrow> version_rec \<Rightarrow> bool" where
  "version_ok P v \<longleftrightarrow> policy_hash P (rv_permissions v) (rv_deny v) (rv_constraints v) = Inr (rv_policy_hash v)"

text \<open>
  Role identifiers are unique, the versions of a role are numbered from 1 without gaps up to its
  current version, every version belongs to a role, and its recorded hash is the hash of what the
  row holds.
\<close>

definition policy_inv :: "prims \<Rightarrow> policy_db \<Rightarrow> bool" where
  "policy_inv P db \<longleftrightarrow>
     distinct (map rr_role_id (pb_roles db)) \<and>
     (\<forall>r \<in> set (pb_roles db). 0 \<le> rr_current_version r \<and>
        map rv_version (versions_of db (rr_role_id r)) = [1..rr_current_version r]) \<and>
     rv_role_id ` set (pb_versions db) \<subseteq> rr_role_id ` set (pb_roles db) \<and>
     list_all (version_ok P) (pb_versions db)"

lemma versions_of_empty:
  "rid \<notin> rv_role_id ` set (pb_versions db) \<Longrightarrow> versions_of db rid = []"
  by (auto simp: versions_of_def filter_empty_conv)

lemma versions_of_snoc:
  "versions_of (db\<lparr>pb_versions := pb_versions db @ [v], pb_roles := rs\<rparr>) rid =
     versions_of db rid @ (if rv_role_id v = rid then [v] else [])"
  by (simp add: versions_of_def)

lemma find_role:
  assumes "distinct (map rr_role_id rs)" and "r \<in> set rs"
  shows "List.find (\<lambda>x. rr_role_id x = rr_role_id r) rs = Some r"
  using assms by (induction rs) (auto simp: image_iff)

lemma find_SomeD: "List.find P xs = Some x \<Longrightarrow> x \<in> set xs \<and> P x"
  by (induction xs) (auto split: if_splits)

lemma policy_hash_jsonb:
  assumes "jsonb_law jsonb"
  shows "policy_hash P (sort perms) (sort deny) (jsonb con) = policy_hash P perms deny con"
proof -
  have "same_json (JObj (jsonb con)) (JObj con)" using assms by (simp add: jsonb_law_def)
  then have "canonical_bytes (JObj [(''permissions'', JArr (map JStr (sort perms))),
        (''deny'', JArr (map JStr (sort deny))), (''constraints'', JObj (jsonb con))]) =
      canonical_bytes (JObj [(''permissions'', JArr (map JStr (sort perms))),
        (''deny'', JArr (map JStr (sort deny))), (''constraints'', JObj con)])"
    by (intro same_json_canonical same_json_obj) simp
  then show ?thesis by (simp add: policy_hash_def sort_key_id_if_sorted)
qed

lemma commit_role_version_cases:
  assumes "commit_role_version P jsonb db rid perms deny con acct ev = Inr (db', v, h)"
  obtains r where "r \<in> set (pb_roles db)" "rr_role_id r = rid" "v = rr_current_version r + 1"
    "policy_hash P perms deny con = Inr h"
    "db' = db\<lparr>pb_versions := pb_versions db @ [\<lparr>rv_role_id = rid, rv_version = v,
        rv_permissions = sort perms, rv_deny = sort deny, rv_constraints = jsonb con,
        rv_policy_hash = h, rv_event_id = ev, rv_created_by = acct\<rparr>],
      pb_roles := map (\<lambda>r. if rr_role_id r = rid then r\<lparr>rr_current_version := v\<rparr> else r) (pb_roles db)\<rparr>"
  using assms
  by (auto simp: commit_role_version_def Let_def res_simps dest!: find_SomeD
      split: option.splits if_splits)

lemma commit_role_version_inv:
  assumes inv: "policy_inv P db" and law: "jsonb_law jsonb"
    and c: "commit_role_version P jsonb db rid perms deny con acct ev = Inr (db', v, h)"
  shows "policy_inv P db'"
proof -
  obtain r where r: "r \<in> set (pb_roles db)" "rr_role_id r = rid" "v = rr_current_version r + 1"
      "policy_hash P perms deny con = Inr h"
    and db': "db' = db\<lparr>pb_versions := pb_versions db @ [\<lparr>rv_role_id = rid, rv_version = v,
        rv_permissions = sort perms, rv_deny = sort deny, rv_constraints = jsonb con,
        rv_policy_hash = h, rv_event_id = ev, rv_created_by = acct\<rparr>],
      pb_roles := map (\<lambda>r. if rr_role_id r = rid then r\<lparr>rr_current_version := v\<rparr> else r) (pb_roles db)\<rparr>"
    by (rule commit_role_version_cases [OF c])
  let ?upd = "\<lambda>r. if rr_role_id r = rid then r\<lparr>rr_current_version := v\<rparr> else r"
  have ids: "map rr_role_id (pb_roles db') = map rr_role_id (pb_roles db)" by (simp add: db')
  have uniq: "x = r" if "x \<in> set (pb_roles db)" "rr_role_id x = rid" for x
    using inv r that by (auto simp: policy_inv_def distinct_map inj_on_def)
  have num: "0 \<le> rr_current_version (?upd x) \<and>
      map rv_version (versions_of db' (rr_role_id x)) = [1..rr_current_version (?upd x)]"
    if x: "x \<in> set (pb_roles db)" for x
  proof (cases "rr_role_id x = rid")
    case True
    then have "x = r" using uniq x by blast
    moreover have "[1..v] = [1..rr_current_version r] @ [v]"
      using inv r by (simp add: policy_inv_def upto_rec2)
    moreover have "map rv_version (versions_of db rid) = [1..rr_current_version r]" "0 \<le> rr_current_version r"
      using inv r by (auto simp: policy_inv_def)
    ultimately show ?thesis
      using r(2,3) by (simp add: db' versions_of_snoc)
  next
    case False
    then show ?thesis using inv x by (simp add: policy_inv_def db' versions_of_snoc)
  qed
  show ?thesis
    unfolding policy_inv_def
  proof (intro conjI)
    show "distinct (map rr_role_id (pb_roles db'))"
      unfolding ids using inv by (simp add: policy_inv_def)
    have im: "set (pb_roles db') = ?upd ` set (pb_roles db)" by (simp add: db')
    have idu: "rr_role_id (?upd x) = rr_role_id x" for x by simp
    show "\<forall>x \<in> set (pb_roles db'). 0 \<le> rr_current_version x \<and>
        map rv_version (versions_of db' (rr_role_id x)) = [1..rr_current_version x]"
      unfolding im ball_simps idu using num by blast
    have "rr_role_id ` set (pb_roles db') = rr_role_id ` set (pb_roles db)"
      using ids by (metis list.set_map)
    then show "rv_role_id ` set (pb_versions db') \<subseteq> rr_role_id ` set (pb_roles db')"
      using inv r by (auto simp: policy_inv_def db')
    show "list_all (version_ok P) (pb_versions db')"
      using inv r(4) by (simp add: policy_inv_def db' version_ok_def policy_hash_jsonb [OF law])
  qed
qed

lemma create_role_row_inv:
  assumes inv: "policy_inv P db" and c: "create_role_row db ws rid name = Inr db'"
  shows "policy_inv P db'"
proof -
  have new: "rid \<notin> rr_role_id ` set (pb_roles db)"
    and db': "db' = db\<lparr>pb_roles := pb_roles db @ [\<lparr>rr_role_id = rid, rr_workspace = ws,
        rr_display_name = name, rr_current_version = 0, rr_status = ''active''\<rparr>]\<rparr>"
    using c by (auto simp: create_role_row_def list_ex_iff split: if_splits)
  then have "versions_of db rid = []"
    using inv by (intro versions_of_empty) (auto simp: policy_inv_def)
  then show ?thesis
    using inv new by (auto simp: policy_inv_def db' versions_of_def)
qed

lemma policy_inv_cong:
  assumes "policy_inv P db" and "pb_roles db' = pb_roles db" and "pb_versions db' = pb_versions db"
  shows "policy_inv P db' \<and> prefix (pb_versions db) (pb_versions db')"
  using assms by (simp add: policy_inv_def versions_of_def)

lemma policy_step_inv:
  assumes "policy_step P jsonb db db'" and "policy_inv P db" and "jsonb_law jsonb"
  shows "policy_inv P db' \<and> prefix (pb_versions db) (pb_versions db')"
  using assms
proof (induction rule: policy_step.induct)
  case (create db ws rid name db')
  then show ?case using create_role_row_inv
    by (auto simp: create_role_row_def split: if_splits)
next
  case (commit db rid perms deny con acct ev db' v h)
  from commit.hyps have "prefix (pb_versions db) (pb_versions db')"
    by (rule commit_role_version_cases) simp
  then show ?case using commit_role_version_inv [OF commit.prems commit.hyps] by simp
next
  case (assign db acct rid granter vf vt scope ev db')
  then show ?case by (intro policy_inv_cong) (auto simp: assign_role_row_def split: if_splits)
next
  case (revoke db acct rid now ev db' n)
  then show ?case by (intro policy_inv_cong) (auto simp: revoke_role_rows_def)
next
  case (grant db agent cap db')
  then show ?case by (intro policy_inv_cong) (auto simp: grant_capability_def split: if_splits)
qed

lemma policy_steps_inv:
  assumes "(policy_step P jsonb)\<^sup>*\<^sup>* db db'" and "policy_inv P db" and "jsonb_law jsonb"
  shows "policy_inv P db' \<and> prefix (pb_versions db) (pb_versions db')"
  using assms
proof (induction rule: rtranclp_induct)
  case (step db' db'')
  then show ?case using policy_step_inv prefix_order.trans by blast
qed simp


section \<open>What the readers see\<close>

lemma mem_effective_rows:
  "(r, v) \<in> set (effective_rows db acct now) \<longleftrightarrow>
     (\<exists>a \<in> set (pb_assignments db). assignment_effective acct now a \<and> ra_role_id a = rr_role_id r) \<and>
     r \<in> set (pb_roles db) \<and> rr_status r = ''active'' \<and> rr_current_version r > 0 \<and>
     v \<in> set (pb_versions db) \<and> rv_role_id v = rr_role_id r \<and> rv_version v = rr_current_version r"
  by (auto simp: effective_rows_def) force

lemma role_of_rows_fields:
  assumes "role_of_rows (r, v) = Inr x"
  shows "ro_role_id x = rr_role_id r" and "ro_version x = rv_version v"
    and "ro_permissions x = rv_permissions v" and "ro_deny x = rv_deny v" and "ro_status x = rr_status r"
  using assms by (auto simp: role_of_rows_def role_from_version_def res_simps)

lemma effective_roles_image:
  assumes "effective_roles db p now = Inr roles"
  shows "role_of_rows ` set (effective_rows db (pr_account_uuid p) now) = Inr ` set roles"
proof -
  have "map role_of_rows (effective_rows db (pr_account_uuid p) now) = map Inr roles"
    using assms by (simp add: effective_roles_def res_simps)
  then show ?thesis by (metis list.set_map)
qed

lemma mem_effective_roles:
  assumes "effective_roles db p now = Inr roles"
  shows "x \<in> set roles \<longleftrightarrow>
    (\<exists>rv \<in> set (effective_rows db (pr_account_uuid p) now). role_of_rows rv = Inr x)"
  using effective_roles_image [OF assms] by (metis (no_types, lifting) image_iff sum.inject(2))

lemma effective_roles_complete:
  assumes "effective_roles db p now = Inr roles" and "rv \<in> set (effective_rows db (pr_account_uuid p) now)"
  obtains x where "x \<in> set roles" and "role_of_rows rv = Inr x"
  using effective_roles_image [OF assms(1)] assms(2) by (metis imageE imageI)

lemma role_of_rows_error: "role_of_rows rv = Inl e \<Longrightarrow> e = ''TypeError''"
proof -
  have f: "py_frozenset v = Inl e \<Longrightarrow> e = ''TypeError''" for v and e :: string
    by (cases v) (auto split: if_splits)
  have "optional_set c k = Inl e \<Longrightarrow> e = ''TypeError''" for c k and e :: string
    using f by (auto simp: optional_set_def res_simps split: option.splits if_splits)
  with f show "role_of_rows rv = Inl e \<Longrightarrow> e = ''TypeError''"
    by (auto simp: role_of_rows_def role_from_version_def res_simps)
qed

lemma sequence_res_Inl: "sequence_res rs = Inl e \<Longrightarrow> Inl e \<in> set rs"
  by (induction rs) (auto simp: res_simps)

lemma effective_roles_error: "effective_roles db p now = Inl e \<Longrightarrow> e = ''TypeError''"
  unfolding effective_roles_def by (drule sequence_res_Inl) (auto dest: role_of_rows_error [OF sym])

lemma role_version_unique:
  assumes inv: "policy_inv P db" and r: "r \<in> set (pb_roles db)"
    and v: "v \<in> set (versions_of db (rr_role_id r))" "w \<in> set (versions_of db (rr_role_id r))"
    and eq: "rv_version v = rv_version w"
  shows "v = w"
proof -
  have "distinct (map rv_version (versions_of db (rr_role_id r)))"
    using inv r by (auto simp: policy_inv_def)
  then show ?thesis using v eq by (auto simp: distinct_map inj_on_def)
qed

section \<open>Properties\<close>

text \<open>
  C18. Role versions are an append-only history: whatever sequence of role creations, commits,
  assignments, revocations and capability grants runs, the versions recorded before remain, in
  order, a role's versions are numbered 1, 2, ... up to its current version, and every recorded
  hash is the hash of the permissions, denials and constraints the row holds.
\<close>

theorem role_versions_history:
  assumes "(policy_step P jsonb)\<^sup>*\<^sup>* db db'" and "pb_roles db = []" and "pb_versions db = []"
    and "jsonb_law jsonb"
  shows "policy_inv P db' \<and> (\<forall>db''. (policy_step P jsonb)\<^sup>*\<^sup>* db' db'' \<longrightarrow>
    prefix (pb_versions db') (pb_versions db''))"
proof -
  have "policy_inv P db" using assms by (simp add: policy_inv_def)
  then have "policy_inv P db'" using policy_steps_inv assms by blast
  then show ?thesis using policy_steps_inv assms(4) by blast
qed

definition sample_account :: account_rec where
  "sample_account = \<lparr>ac_account_id = ''human-a'', ac_uuid = ''u1'', ac_workspace = ''w'',
     ac_type = ''human'', ac_status = ''ACTIVE''\<rparr>"

definition sample_db :: policy_db where
  "sample_db = \<lparr>pb_accounts = [sample_account], pb_agents = [], pb_roles = [], pb_versions = [],
     pb_assignments = [], pb_capability_ids = [], pb_agent_capabilities = [],
     pb_channels = [(''c1'', ''chan-a'')], pb_members = []\<rparr>"

definition sample_role_rec :: role_rec where
  "sample_role_rec = \<lparr>rr_role_id = ''role-a'', rr_workspace = ''w'', rr_display_name = ''A'',
     rr_current_version = 0, rr_status = ''active''\<rparr>"

definition sample_assignment :: role_assignment where
  "sample_assignment = \<lparr>ra_account = ''u1'', ra_role_id = ''role-a'', ra_scope = [],
     ra_valid_from = 0, ra_valid_to = None, ra_assigned_by = ''u1'', ra_event_id = None,
     ra_revoked_at = None, ra_revoke_event_id = None\<rparr>"

text \<open>The sample role after its creation and its assignment.\<close>

definition assigned_db :: policy_db where
  "assigned_db = sample_db\<lparr>pb_roles := [sample_role_rec], pb_assignments := [sample_assignment]\<rparr>"

lemma assigned_db_steps: "(policy_step P jsonb)\<^sup>*\<^sup>* sample_db assigned_db"
proof -
  have "create_role_row sample_db ''w'' ''role-a'' ''A'' = Inr (sample_db\<lparr>pb_roles := [sample_role_rec]\<rparr>)"
    by (simp add: create_role_row_def sample_db_def sample_role_rec_def)
  moreover have "assign_role_row (sample_db\<lparr>pb_roles := [sample_role_rec]\<rparr>) ''u1'' ''role-a'' ''u1'' 0 None [] None =
      Inr assigned_db"
    by (simp add: assign_role_row_def assigned_db_def sample_db_def sample_role_rec_def account_exists_def
        sample_account_def sample_assignment_def)
  ultimately show ?thesis
    by (meson policy_step.create policy_step.assign converse_rtranclp_into_rtranclp rtranclp.rtrancl_refl)
qed

lemma assigned_db_commit:
  assumes "printable (map_jval codes (JObj con))"
  shows "\<exists>db' h. commit_role_version toy_prims (\<lambda>p. p) assigned_db ''role-a'' [''task.read''] [] con ''u1'' None =
     Inr (db', 1, h) \<and> pb_versions db' \<noteq> []"
proof -
  obtain b where "canonical_bytes (JObj [(''permissions'', JArr [JStr ''task.read'']), (''deny'', JArr []),
      (''constraints'', JObj con)]) = Inr b"
    using canonical_bytes_total [of "JObj [(''permissions'', JArr [JStr ''task.read'']), (''deny'', JArr []),
      (''constraints'', JObj con)]"] assms by auto
  then show ?thesis
    by (simp add: commit_role_version_def assigned_db_def sample_db_def sample_role_rec_def
        account_exists_def sample_account_def policy_hash_def)
qed

theorem role_versions_history_witness:
  "\<exists>db'. (policy_step toy_prims (\<lambda>p. p))\<^sup>*\<^sup>* sample_db db' \<and> pb_versions db' \<noteq> [] \<and>
     policy_inv toy_prims db'"
proof -
  obtain db' h where c: "commit_role_version toy_prims (\<lambda>p. p) assigned_db ''role-a'' [''task.read''] [] [] ''u1'' None =
      Inr (db', 1, h)" "pb_versions db' \<noteq> []"
    using assigned_db_commit [of "[]"] by auto
  have s: "(policy_step toy_prims (\<lambda>p. p))\<^sup>*\<^sup>* sample_db db'"
    using assigned_db_steps policy_step.commit [OF c(1)] by (rule rtranclp.rtrancl_into_rtrancl)
  have "policy_inv toy_prims db'"
    using role_versions_history [OF s] by (simp add: sample_db_def jsonb_law_def)
  then show ?thesis using s c(2) by blast
qed

lemma committed_version_reads:
  assumes inv: "policy_inv P db"
    and c: "commit_role_version P jsonb db rid perms deny con acct ev = Inr (db', v, h)"
    and r: "r \<in> set (pb_roles db)" "rr_role_id r = rid" "rr_status r = ''active''"
    and a: "a \<in> set (pb_assignments db)" "ra_role_id a = rid" "assignment_effective (pr_account_uuid p) now a"
    and roles: "effective_roles db' p now = Inr roles"
  shows "rid \<in> ro_role_id ` set roles \<and>
    (\<forall>x \<in> set roles. ro_role_id x = rid \<longrightarrow> ro_version x = v \<and>
       set (ro_permissions x) = set perms \<and> set (ro_deny x) = set deny \<and>
       role_from_version rid v (sort perms) (sort deny) (jsonb con) ''active'' = Inr x)"
proof -
  let ?new = "\<lparr>rv_role_id = rid, rv_version = v, rv_permissions = sort perms, rv_deny = sort deny,
      rv_constraints = jsonb con, rv_policy_hash = h, rv_event_id = ev, rv_created_by = acct\<rparr>"
  obtain r0 where r0: "r0 \<in> set (pb_roles db)" "rr_role_id r0 = rid" "v = rr_current_version r0 + 1"
    and db': "db' = db\<lparr>pb_versions := pb_versions db @ [?new],
      pb_roles := map (\<lambda>r. if rr_role_id r = rid then r\<lparr>rr_current_version := v\<rparr> else r) (pb_roles db)\<rparr>"
    by (rule commit_role_version_cases [OF c])
  have uniq: "x = r" if "x \<in> set (pb_roles db)" "rr_role_id x = rid" for x
    using inv r that by (auto simp: policy_inv_def distinct_map inj_on_def)
  then have v: "v = rr_current_version r + 1" using r0 by blast
  have cur: "0 \<le> rr_current_version r" using inv r by (auto simp: policy_inv_def)
  have old: "rv_version w \<noteq> v" if "w \<in> set (pb_versions db)" "rv_role_id w = rid" for w
  proof -
    have "map rv_version (versions_of db rid) = [1..rr_current_version r]"
      using inv r by (auto simp: policy_inv_def)
    moreover have "w \<in> set (versions_of db rid)" using that by (simp add: versions_of_def)
    ultimately have "rv_version w \<in> set [1..rr_current_version r]" by (metis image_eqI list.set_map)
    then show ?thesis using v by auto
  qed
  have new: "(r\<lparr>rr_current_version := v\<rparr>, ?new) \<in> set (effective_rows db' (pr_account_uuid p) now)"
    using a r v cur by (auto simp: mem_effective_rows db' image_iff)
  have only: "role_of_rows rv = role_from_version rid v (sort perms) (sort deny) (jsonb con) ''active''"
    if "rv \<in> set (effective_rows db' (pr_account_uuid p) now)" "rr_role_id (fst rv) = rid" for rv
  proof -
    obtain q w where rv: "rv = (q, w)" by (cases rv)
    then have mem: "q \<in> set (pb_roles db')" "w \<in> set (pb_versions db')" "rr_role_id q = rid" "rr_status q = ''active''"
        "rv_role_id w = rid" "rv_version w = rr_current_version q"
      using that by (auto simp: mem_effective_rows)
    have vs: "set (pb_versions db') = insert ?new (set (pb_versions db))" by (simp add: db')
    have "set (pb_roles db') = (\<lambda>r. if rr_role_id r = rid then r\<lparr>rr_current_version := v\<rparr> else r) ` set (pb_roles db)"
      by (simp add: db')
    with mem(1) obtain q0 where "q = (if rr_role_id q0 = rid then q0\<lparr>rr_current_version := v\<rparr> else q0)"
      by blast
    with mem(3) have "rr_current_version q = v" by (cases "rr_role_id q0 = rid") simp_all
    then have "rv_version w = v" using mem(6) by simp
    then have "w = ?new" using mem(2,5) old unfolding vs by blast
    then show ?thesis using mem by (simp add: rv role_of_rows_def)
  qed
  obtain y where "y \<in> set roles" "role_of_rows (r\<lparr>rr_current_version := v\<rparr>, ?new) = Inr y"
    by (rule effective_roles_complete [OF roles new])
  then have "\<exists>x \<in> set roles. ro_role_id x = rid"
    using role_of_rows_fields(1) r(2) by fastforce
  moreover have "ro_version x = v \<and> set (ro_permissions x) = set perms \<and> set (ro_deny x) = set deny \<and>
      role_from_version rid v (sort perms) (sort deny) (jsonb con) ''active'' = Inr x"
    if x: "x \<in> set roles" "ro_role_id x = rid" for x
  proof -
    obtain rv where rv: "rv \<in> set (effective_rows db' (pr_account_uuid p) now)" "role_of_rows rv = Inr x"
      using x(1) mem_effective_roles [OF roles] by blast
    moreover have "rr_role_id (fst rv) = rid"
      using rv(2) x(2) role_of_rows_fields(1) [of "fst rv" "snd rv"] by simp
    ultimately have "role_from_version rid v (sort perms) (sort deny) (jsonb con) ''active'' = Inr x"
      using only by simp
    then show ?thesis by (auto simp: role_from_version_def res_simps)
  qed
  ultimately show ?thesis by blast
qed


text \<open>
  A committed role version is what the next read returns: right after a commit, the effective
  roles of every account with a valid, unrevoked assignment of the (active) role hold exactly the
  committed permissions and denials under the new version number, rebuilt from the stored row.
\<close>

theorem committed_version_effective:
  assumes inv: "policy_inv P db"
    and c: "commit_role_version P jsonb db rid perms deny con acct ev = Inr (db', v, h)"
    and r: "r \<in> set (pb_roles db)" "rr_role_id r = rid" "rr_status r = ''active''"
    and a: "a \<in> set (pb_assignments db)" "ra_role_id a = rid" "assignment_effective (pr_account_uuid p) now a"
    and roles: "effective_roles db' p now = Inr roles"
  shows "rid \<in> ro_role_id ` set roles \<and>
    (\<forall>x \<in> set roles. ro_role_id x = rid \<longrightarrow> ro_version x = v \<and>
       set (ro_permissions x) = set perms \<and> set (ro_deny x) = set deny \<and>
       role_from_version rid v (sort perms) (sort deny) (jsonb con) ''active'' = Inr x)"
  by (rule committed_version_reads [OF assms])

definition sample_principal :: principal_info where
  "sample_principal = \<lparr>pr_account_id = ''human-a'', pr_account_uuid = ''u1'', pr_workspace_uuid = ''w'',
     pr_account_type = ''human'', pr_status = ''ACTIVE'', pr_agent_id = None\<rparr>"

definition sample_read_role :: role where
  "sample_read_role = \<lparr>ro_role_id = ''role-a'', ro_version = 1, ro_permissions = [''task.read''], ro_deny = [],
     ro_constraints = \<lparr>co_domains = None, co_side_effects = ''allow'', co_requires_human_approval = [],
       co_channels = None, co_resources = None, co_max_risk = ''CRITICAL''\<rparr>, ro_status = ''active''\<rparr>"

lemma policy_inv_assigned: "policy_inv P assigned_db"
  by (simp add: policy_inv_def assigned_db_def sample_db_def sample_role_rec_def versions_of_def)

lemma sample_assignment_effective: "assignment_effective (pr_account_uuid sample_principal) now sample_assignment" if "0 \<le> now" for now
  using that by (simp add: assignment_effective_def sample_principal_def sample_assignment_def)

lemma assigned_effective_roles:
  assumes "commit_role_version P jsonb assigned_db ''role-a'' [''task.read''] [] [] ''u1'' None = Inr (db', v, h)"
    and "jsonb [] = []" and "0 \<le> now"
  shows "v = 1" and "effective_roles db' sample_principal now = Inr [sample_read_role]"
proof -
  obtain r where "r \<in> set (pb_roles assigned_db)" "v = rr_current_version r + 1"
    and db': "db' = assigned_db\<lparr>pb_versions := pb_versions assigned_db @ [\<lparr>rv_role_id = ''role-a'', rv_version = v,
        rv_permissions = sort [''task.read''], rv_deny = sort [], rv_constraints = jsonb [],
        rv_policy_hash = h, rv_event_id = None, rv_created_by = ''u1''\<rparr>],
      pb_roles := map (\<lambda>r. if rr_role_id r = ''role-a'' then r\<lparr>rr_current_version := v\<rparr> else r) (pb_roles assigned_db)\<rparr>"
    by (rule commit_role_version_cases [OF assms(1)])
  then show v: "v = 1" by (simp add: assigned_db_def sample_db_def sample_role_rec_def)
  show "effective_roles db' sample_principal now = Inr [sample_read_role]"
    by (simp add: effective_roles_def effective_rows_def db' assigned_db_def sample_db_def sample_role_rec_def
        sample_assignment_effective [OF assms(3)] role_of_rows_def role_from_version_def optional_set_def assms(2) v
        sample_read_role_def map_filter_simps del: One_nat_def)
      (simp add: sample_assignment_def)
qed

theorem committed_version_effective_example:
  "\<exists>db' h. commit_role_version toy_prims (\<lambda>p. p) assigned_db ''role-a'' [''task.read''] [] [] ''u1'' None =
     Inr (db', 1, h) \<and> effective_roles db' sample_principal 5 = Inr [sample_read_role] \<and>
     ''role-a'' \<in> ro_role_id ` set [sample_read_role]"
proof -
  obtain db' h where c: "commit_role_version toy_prims (\<lambda>p. p) assigned_db ''role-a'' [''task.read''] [] [] ''u1'' None =
      Inr (db', 1, h)"
    using assigned_db_commit [of "[]"] by auto
  have r: "sample_role_rec \<in> set (pb_roles assigned_db)" "rr_role_id sample_role_rec = ''role-a''"
      "rr_status sample_role_rec = ''active''"
    by (simp_all add: assigned_db_def sample_role_rec_def)
  have a: "sample_assignment \<in> set (pb_assignments assigned_db)" "ra_role_id sample_assignment = ''role-a''"
    by (simp_all add: assigned_db_def sample_assignment_def)
  have roles: "effective_roles db' sample_principal 5 = Inr [sample_read_role]"
    by (rule assigned_effective_roles(2) [OF c]) simp_all
  from committed_version_effective [OF policy_inv_assigned c r a _ roles] sample_assignment_effective [of 5]
  show ?thesis using c roles by simp
qed

text \<open>
  Revocation takes effect at once and only where it should: after a role is revoked from an
  account no read, at any time, finds the role among that account's effective roles, while the
  effective roles of every other account are what they were.
\<close>

lemma revoked_role_ineffective:
  assumes "revoke_role_rows db acct rid at ev = (db', n)"
  shows "(effective_roles db' p now = Inr roles \<and> pr_account_uuid p = acct \<longrightarrow>
            rid \<notin> ro_role_id ` set roles) \<and>
         (pr_account_uuid p \<noteq> acct \<longrightarrow> effective_roles db' p now = effective_roles db p now)"
proof (intro conjI impI)
  let ?upd = "\<lambda>a. if open_assignment acct rid a
      then a\<lparr>ra_revoked_at := Some at, ra_revoke_event_id := ev\<rparr> else a"
  have db': "db' = db\<lparr>pb_assignments := map ?upd (pb_assignments db)\<rparr>"
    using assms by (simp add: revoke_role_rows_def)
  {
    assume r: "effective_roles db' p now = Inr roles \<and> pr_account_uuid p = acct"
    show "rid \<notin> ro_role_id ` set roles"
    proof
      assume "rid \<in> ro_role_id ` set roles"
      then obtain x where x: "x \<in> set roles" "ro_role_id x = rid" by blast
      then obtain q w where q: "(q, w) \<in> set (effective_rows db' acct now)" "role_of_rows (q, w) = Inr x"
        using mem_effective_roles r by (metis surj_pair)
      then have "rr_role_id q = rid" using x(2) role_of_rows_fields(1) by metis
      with q obtain a where "a \<in> set (pb_assignments db')" "assignment_effective acct now a" "ra_role_id a = rid"
        unfolding mem_effective_rows by blast
      moreover have "set (pb_assignments db') = ?upd ` set (pb_assignments db)" by (simp add: db')
      ultimately obtain b where "a = ?upd b" "assignment_effective acct now a" "ra_role_id a = rid" by blast
      then show False
        by (cases "open_assignment acct rid b") (auto simp: assignment_effective_def open_assignment_def)
    qed
  next
    assume other: "pr_account_uuid p \<noteq> acct"
    have "assignment_effective (pr_account_uuid p) now (?upd a) = assignment_effective (pr_account_uuid p) now a \<and>
        ra_role_id (?upd a) = ra_role_id a" for a
      using other by (auto simp: assignment_effective_def open_assignment_def)
    then show "effective_roles db' p now = effective_roles db p now"
      by (simp add: effective_roles_def effective_rows_def db' comp_def cong: if_cong)
  }
qed

lemma revoked_role_ineffective_example:
  "\<exists>db db' roles. effective_roles db sample_principal 9 = Inr [sample_read_role] \<and>
     revoke_role_rows db ''u1'' ''role-a'' 7 None = (db', 1) \<and>
     effective_roles db' sample_principal 9 = Inr roles \<and> ''role-a'' \<notin> ro_role_id ` set roles"
proof -
  obtain db h where c: "commit_role_version toy_prims (\<lambda>p. p) assigned_db ''role-a'' [''task.read''] [] [] ''u1'' None =
      Inr (db, 1, h)"
    using assigned_db_commit [of "[]"] by auto
  have before: "effective_roles db sample_principal 9 = Inr [sample_read_role]"
    by (rule assigned_effective_roles(2) [OF c]) simp_all
  have as: "pb_assignments db = [sample_assignment]"
    by (rule commit_role_version_cases [OF c]) (simp add: assigned_db_def)
  obtain db' n where r: "revoke_role_rows db ''u1'' ''role-a'' 7 None = (db', n)" by fastforce
  then have n: "n = 1" "pb_assignments db' = [sample_assignment\<lparr>ra_revoked_at := Some 7\<rparr>]"
    by (auto simp: revoke_role_rows_def as open_assignment_def sample_assignment_def)
  then have after: "effective_roles db' sample_principal 9 = Inr []"
    by (simp add: effective_roles_def effective_rows_def assignment_effective_def)
  moreover have "pr_account_uuid sample_principal = ''u1''" by (simp add: sample_principal_def)
  ultimately have "''role-a'' \<notin> ro_role_id ` set ([] :: role list)"
    using revoked_role_ineffective [OF r, of sample_principal 9 "[]"] by blast
  then show ?thesis using before r n(1) after by blast
qed

end
