(* ===== verification/Authorization.thy ===== *)
theory Authorization
  imports Policy_Store
begin

text \<open>
  Server-side authorization: \<^verbatim>\<open>src/server/policy/authorization.py\<close> and its bridge to the command bus,
  \<^verbatim>\<open>src/server/application/authz.py\<close>. A decision reads the policy tables and the catalog; a denial
  appends a row to the audit log. \<open>require\<close> raises on a denial while the row stays (the bridge
  writes it in a transaction of its own), so it returns the log beside the outcome.
\<close>

section \<open>Requests and decisions\<close>

record authorization_request =
  az_permission :: string
  az_action :: "string option"
  az_domain :: "string option"
  az_channel_id :: "string option"
  az_resource :: "string option"
  az_side_effect :: bool
  az_required_capability :: "string option"
  az_correlation_id :: string
  az_target_type :: string
  az_target_id :: string

record authorization =
  auth_allowed :: bool
  auth_code :: string
  auth_risk :: string
  auth_action_class :: string
  auth_approval :: string
  auth_approval_required :: bool
  auth_human_only :: bool
  auth_matched_roles :: "string list"
  auth_snapshot :: policy_snapshot
  auth_audit_id :: "string option"

text \<open>The collaborators of an \<^verbatim>\<open>Authorizer\<close>: catalog, decision clock and audit clock.\<close>

record authz_env =
  ae_prims :: prims
  ae_jsonb :: "pydict \<Rightarrow> pydict"
  ae_catalog :: policy_catalog
  ae_now :: time
  ae_audit_now :: time

definition deny_audit ::
  "authz_env \<Rightarrow> principal_info option \<Rightarrow> string \<Rightarrow> authorization_request \<Rightarrow> string \<Rightarrow> string list \<Rightarrow> audit_args" where
  "deny_audit E p account_id q code roles =
     \<lparr>au_action = ''policy.deny'', au_target_type = az_target_type q, au_target_id = az_target_id q,
      au_result = ''DENY'', au_actor_label = account_id, au_correlation_id = az_correlation_id q,
      au_workspace_id = map_option pr_workspace_uuid p,
      au_actor_account_id = map_option pr_account_uuid p, au_error_code = Some code,
      au_metadata = Some [(''permission'', JStr (az_permission q)), (''action'', jopt (az_action q)),
        (''reason'', JStr code), (''roles'', JArr (map JStr roles)),
        (''channel_id'', jopt (az_channel_id q)), (''domain'', jopt (az_domain q)),
        (''required_capability'', jopt (az_required_capability q))],
      au_now = ae_audit_now E\<rparr>"

section \<open>The authorizer\<close>

definition classify :: "policy_catalog \<Rightarrow> authorization_request \<Rightarrow> (string \<times> string \<times> string) res" where
  "classify c q =
     (let candidates = sort (map fst (filter (\<lambda>(_, _, perm). perm = az_permission q) (pc_actions c)));
          action = (case az_action q of
              Some a \<Rightarrow> a
            | None \<Rightarrow> (case candidates of [] \<Rightarrow> ''permission:'' @ az_permission q | a # _ \<Rightarrow> a))
      in bind_res (risk_for c action (az_side_effect q)) (\<lambda>d. Inr (rd_risk d, rd_class d, rd_approval d)))"

fun covers_from :: "role list \<Rightarrow> string list \<Rightarrow> nat \<Rightarrow> bool res" where
  "covers_from [] matched idx = Inr False"
| "covers_from (r # rs) matched idx =
     (if ro_role_id r \<in> set matched
      then bind_res (risk_index (co_max_risk (ro_constraints r))) (\<lambda>i.
             if i \<ge> idx then Inr True else covers_from rs matched idx)
      else covers_from rs matched idx)"

definition roles_cover_risk :: "role list \<Rightarrow> string list \<Rightarrow> string \<Rightarrow> bool res" where
  "roles_cover_risk roles matched risk =
     bind_res (risk_index risk) (\<lambda>idx. covers_from roles matched idx)"

definition deny_with ::
  "authz_env \<Rightarrow> audit_log \<Rightarrow> principal_info option \<Rightarrow> string \<Rightarrow> authorization_request \<Rightarrow> string \<Rightarrow> role list
    \<Rightarrow> string list \<Rightarrow> string \<times> string \<times> string \<Rightarrow> (audit_log \<times> authorization) res" where
  "deny_with E log p account_id q code roles matched cls =
     bind_res (snapshot_of (ae_prims E) account_id roles [] (ae_now E)) (\<lambda>snapshot.
     bind_res (append_audit (ae_prims E) (ae_jsonb E) log
         (deny_audit E p account_id q code (map ro_role_id roles))) (\<lambda>(log', audit_id).
     bind_res (human_only (ae_catalog E) (fst cls)) (\<lambda>human.
       Inr (log', \<lparr>auth_allowed = False, auth_code = code, auth_risk = fst cls,
         auth_action_class = fst (snd cls), auth_approval = snd (snd cls),
         auth_approval_required = False, auth_human_only = human, auth_matched_roles = matched,
         auth_snapshot = snapshot, auth_audit_id = Some audit_id\<rparr>))))"

definition action_of :: "authorization_request \<Rightarrow> action_request" where
  "action_of q = \<lparr>aq_permission = az_permission q, aq_domain = az_domain q,
     aq_side_effect = az_side_effect q, aq_channel_id = az_channel_id q, aq_resource = az_resource q\<rparr>"

definition grant_with ::
  "authz_env \<Rightarrow> audit_log \<Rightarrow> string \<Rightarrow> policy_decision \<Rightarrow> role list \<Rightarrow> string list \<Rightarrow> string \<times> string \<times> string
    \<Rightarrow> (audit_log \<times> authorization) res" where
  "grant_with E log account_id d roles caps cls =
     bind_res (human_only (ae_catalog E) (fst cls)) (\<lambda>human.
     bind_res (snapshot_of (ae_prims E) account_id roles caps (ae_now E)) (\<lambda>snapshot.
       let approval = snd (snd cls) in
       Inr (log, \<lparr>auth_allowed = True, auth_code = ''ALLOW'', auth_risk = fst cls,
         auth_action_class = fst (snd cls),
         auth_approval = (if pd_requires_human_approval d \<and> approval = ''none'' then ''human_1'' else approval),
         auth_approval_required = (pd_requires_human_approval d \<or> approval \<in> {''human_1'', ''human_2''}),
         auth_human_only = (human \<or> pd_requires_human_approval d),
         auth_matched_roles = pd_matched_roles d, auth_snapshot = snapshot, auth_audit_id = None\<rparr>)))"

definition authorize ::
  "authz_env \<Rightarrow> policy_db \<Rightarrow> audit_log \<Rightarrow> string \<Rightarrow> authorization_request \<Rightarrow> (audit_log \<times> authorization) res" where
  "authorize E db log account_id q =
     bind_res (classify (ae_catalog E) q) (\<lambda>cls.
     case principal db account_id of
       None \<Rightarrow> deny_with E log None account_id q ''PRINCIPAL_UNKNOWN'' [] [] cls
     | Some p \<Rightarrow>
        if pr_status p \<noteq> ''ACTIVE''
        then deny_with E log (Some p) account_id q ''PRINCIPAL_INACTIVE'' [] [] cls
        else bind_res (effective_roles db p (ae_now E)) (\<lambda>roles.
          let d = evaluate (Some (vocabulary (ae_catalog E))) roles (action_of q);
              deny = (\<lambda>code. deny_with E log (Some p) account_id q code roles (pd_matched_roles d) cls);
              caps = capability_ids db p
          in if \<not> pd_allow d then deny (pd_reason d)
             else if truthy (az_required_capability q) \<and> the (az_required_capability q) \<notin> set caps
             then deny ''CAPABILITY_MISSING''
             else if truthy (az_channel_id q) \<and> \<not> is_channel_member db p (the (az_channel_id q))
             then deny ''CHANNEL_NOT_MEMBER''
             else bind_res (roles_cover_risk roles (pd_matched_roles d) (fst cls)) (\<lambda>covered.
               if \<not> covered then deny ''ROLE_MAX_RISK_EXCEEDED''
               else grant_with E log account_id d roles caps cls)))"

definition require ::
  "authz_env \<Rightarrow> policy_db \<Rightarrow> audit_log \<Rightarrow> string \<Rightarrow> authorization_request \<Rightarrow> audit_log \<times> authorization res" where
  "require E db log account_id q =
     (case authorize E db log account_id q of
        Inl e \<Rightarrow> (log, Inl e)
      | Inr (log', a) \<Rightarrow> (log', if auth_allowed a then Inr a else Inl (auth_code a)))"

definition bus_require ::
  "authz_env \<Rightarrow> policy_db \<Rightarrow> audit_log \<Rightarrow> string \<Rightarrow> authorization_request \<Rightarrow> audit_log \<times> authorization res" where
  "bus_require E db log account_id q = require E db log account_id
     (q\<lparr>az_correlation_id := (if az_correlation_id q = [] then ''-'' else az_correlation_id q)\<rparr>)"

text \<open>\<^verbatim>\<open>require_permission\<close> of the bus: without an authorizer nothing is allowed.\<close>

definition require_permission ::
  "authz_env option \<Rightarrow> policy_db \<Rightarrow> audit_log \<Rightarrow> string \<Rightarrow> authorization_request \<Rightarrow> audit_log \<times> unit res" where
  "require_permission E db log account_id q = (case E of
      None \<Rightarrow> (log, Inl ''POLICY_DENIED'')
    | Some E \<Rightarrow> (case bus_require E db log account_id q of (log', r) \<Rightarrow> (log', bind_res r (\<lambda>_. Inr ()))))"

definition snapshot :: "authz_env \<Rightarrow> policy_db \<Rightarrow> string \<Rightarrow> policy_snapshot option res" where
  "snapshot E db account_id = (case principal db account_id of
      None \<Rightarrow> Inr None
    | Some p \<Rightarrow> bind_res (effective_roles db p (ae_now E)) (\<lambda>roles.
        bind_res (snapshot_of (ae_prims E) account_id roles (capability_ids db p) (ae_now E)) (\<lambda>s. Inr (Some s))))"


section \<open>Facts\<close>

lemma index_of_total: "x \<in> set xs \<longleftrightarrow> (\<exists>n. index_of x xs = Inr n)"
  by (induction xs) (auto simp: res_simps)

lemma risk_index_total: "r \<in> set RISK_ORDER \<longleftrightarrow> (\<exists>n. risk_index r = Inr n)"
  by (simp add: risk_index_def index_of_total)

text \<open>The order of the risk levels.\<close>

definition risk_le :: "string \<Rightarrow> string \<Rightarrow> bool" where
  "risk_le a b \<longleftrightarrow> (\<exists>i j. risk_index a = Inr i \<and> risk_index b = Inr j \<and> i \<le> j)"

lemma covers_from_iff:
  "covers_from rs matched i = Inr b \<Longrightarrow>
     b \<longleftrightarrow> (\<exists>r \<in> set rs. ro_role_id r \<in> set matched \<and>
       (\<exists>j. risk_index (co_max_risk (ro_constraints r)) = Inr j \<and> i \<le> j))"
  by (induction rs) (auto simp: res_simps split: if_splits)

lemma roles_cover_risk_iff:
  assumes "roles_cover_risk rs matched risk = Inr b"
  shows "b \<longleftrightarrow> (\<exists>r \<in> set rs. ro_role_id r \<in> set matched \<and> risk_le risk (co_max_risk (ro_constraints r)))"
proof -
  obtain i where i: "risk_index risk = Inr i" "covers_from rs matched i = Inr b"
    using assms by (auto simp: roles_cover_risk_def res_simps)
  show ?thesis using covers_from_iff [OF i(2)] i(1) by (simp add: risk_le_def)
qed

lemma deny_with_denies:
  assumes "deny_with E log p acct q code roles matched cls = Inr (log', a)"
  shows "\<not> auth_allowed a" and "auth_code a = code"
    and "\<exists>i. append_audit (ae_prims E) (ae_jsonb E) log
      (deny_audit E p acct q (auth_code a) (map ro_role_id roles)) = Inr (log', i) \<and> auth_audit_id a = Some i"
  using assms by (auto simp: deny_with_def res_simps)

lemma grant_with_allows:
  assumes "grant_with E log acct d roles caps cls = Inr (log', a)"
  shows "auth_allowed a" and "auth_code a = ''ALLOW''" and "log' = log" and "auth_audit_id a = None"
  using assms by (auto simp: grant_with_def res_simps Let_def)

lemma effective_roles_inj:
  assumes inv: "policy_inv P db" and roles: "effective_roles db p now = Inr roles"
  shows "inj_on ro_role_id (set roles)"
proof (rule inj_onI)
  fix x y
  assume xy: "x \<in> set roles" "y \<in> set roles" "ro_role_id x = ro_role_id y"
  obtain q v where q: "(q, v) \<in> set (effective_rows db (pr_account_uuid p) now)" "role_of_rows (q, v) = Inr x"
    using xy(1) mem_effective_roles [OF roles] by (metis surj_pair)
  obtain q' v' where q': "(q', v') \<in> set (effective_rows db (pr_account_uuid p) now)" "role_of_rows (q', v') = Inr y"
    using xy(2) mem_effective_roles [OF roles] by (metis surj_pair)
  have "rr_role_id q = rr_role_id q'" using role_of_rows_fields(1) q(2) q'(2) xy(3) by metis
  then have eq: "q = q'"
    using q(1) q'(1) inv unfolding mem_effective_rows policy_inv_def by (auto simp: distinct_map inj_on_def)
  have "v = v'"
    using role_version_unique [OF inv, of q v v'] q(1) q'(1) eq unfolding mem_effective_rows versions_of_def by simp
  then show "x = y" using eq q(2) q'(2) by simp
qed

section \<open>What a decision means\<close>

text \<open>A role of the account that grants the request in scope.\<close>

definition granting :: "action_request \<Rightarrow> role \<Rightarrow> bool" where
  "granting q r \<longleftrightarrow> ro_status r = ''active'' \<and> matches_any (ro_permissions r) (aq_permission q) \<and>
     scope_violation r q = None"

definition authorized :: "authz_env \<Rightarrow> policy_db \<Rightarrow> string \<Rightarrow> authorization_request \<Rightarrow> bool" where
  "authorized E db account_id q \<longleftrightarrow> (\<exists>p roles cls.
     principal db account_id = Some p \<and> pr_status p = ''ACTIVE'' \<and>
     effective_roles db p (ae_now E) = Inr roles \<and>
     az_permission q \<in> set (vocabulary (ae_catalog E)) \<and>
     (\<forall>r \<in> set roles. ro_status r = ''active'' \<longrightarrow> \<not> matches_any (ro_deny r) (az_permission q)) \<and>
     (truthy (az_required_capability q) \<longrightarrow> the (az_required_capability q) \<in> set (capability_ids db p)) \<and>
     (truthy (az_channel_id q) \<longrightarrow> is_channel_member db p (the (az_channel_id q))) \<and>
     classify (ae_catalog E) q = Inr cls \<and>
     (\<exists>r \<in> set roles. granting (action_of q) r \<and> risk_le (fst cls) (co_max_risk (ro_constraints r))))"


lemma evaluate_grants:
  assumes "inj_on ro_role_id (set roles)" and "pd_allow (evaluate voc roles q)" and "r \<in> set roles"
  shows "ro_role_id r \<in> set (pd_matched_roles (evaluate voc roles q)) \<longleftrightarrow> granting q r"
  unfolding evaluate_matched [OF assms(2)] granting_def using assms(1,3) by (auto simp: inj_on_def)

lemma allowed_by_vocabulary:
  "allowed_by (Some voc) roles q \<longleftrightarrow> aq_permission q \<in> set voc \<and>
     (\<forall>r \<in> set roles. ro_status r = ''active'' \<longrightarrow> \<not> matches_any (ro_deny r) (aq_permission q)) \<and>
     (\<exists>r \<in> set roles. granting q r)"
  by (auto simp: allowed_by_def granting_def)

lemma authorize_cases:
  assumes "authorize E db log acct q = Inr (log', a)"
  obtains (unknown) cls where "classify (ae_catalog E) q = Inr cls" "principal db acct = None"
      "deny_with E log None acct q ''PRINCIPAL_UNKNOWN'' [] [] cls = Inr (log', a)"
  | (inactive) cls p where "classify (ae_catalog E) q = Inr cls" "principal db acct = Some p" "pr_status p \<noteq> ''ACTIVE''"
      "deny_with E log (Some p) acct q ''PRINCIPAL_INACTIVE'' [] [] cls = Inr (log', a)"
  | (refused) cls p roles d code where "classify (ae_catalog E) q = Inr cls" "principal db acct = Some p"
      "pr_status p = ''ACTIVE''" "effective_roles db p (ae_now E) = Inr roles"
      "d = evaluate (Some (vocabulary (ae_catalog E))) roles (action_of q)"
      "deny_with E log (Some p) acct q code roles (pd_matched_roles d) cls = Inr (log', a)"
      "\<not> pd_allow d \<or> truthy (az_required_capability q) \<and> the (az_required_capability q) \<notin> set (capability_ids db p) \<or>
       truthy (az_channel_id q) \<and> \<not> is_channel_member db p (the (az_channel_id q)) \<or>
       roles_cover_risk roles (pd_matched_roles d) (fst cls) = Inr False"
  | (granted) cls p roles d where "classify (ae_catalog E) q = Inr cls" "principal db acct = Some p"
      "pr_status p = ''ACTIVE''" "effective_roles db p (ae_now E) = Inr roles"
      "d = evaluate (Some (vocabulary (ae_catalog E))) roles (action_of q)" "pd_allow d"
      "truthy (az_required_capability q) \<Longrightarrow> the (az_required_capability q) \<in> set (capability_ids db p)"
      "truthy (az_channel_id q) \<Longrightarrow> is_channel_member db p (the (az_channel_id q))"
      "roles_cover_risk roles (pd_matched_roles d) (fst cls) = Inr True"
      "grant_with E log acct d roles (capability_ids db p) cls = Inr (log', a)"
proof -
  obtain cls where cls: "classify (ae_catalog E) q = Inr cls"
    using assms by (auto simp: authorize_def res_simps)
  show thesis
  proof (cases "principal db acct")
    case None
    then show ?thesis using assms cls by (intro unknown) (simp_all add: authorize_def)
  next
    case p: (Some p)
    show ?thesis
    proof (cases "pr_status p = ''ACTIVE''")
      case False
      then show ?thesis using assms cls p by (intro inactive) (simp_all add: authorize_def)
    next
      case act: True
      obtain roles where roles: "effective_roles db p (ae_now E) = Inr roles"
        using assms cls p act by (auto simp: authorize_def res_simps)
      define d where "d = evaluate (Some (vocabulary (ae_catalog E))) roles (action_of q)"
      note eq = assms [unfolded authorize_def cls p roles bind_res_Inr option.case Let_def d_def [symmetric]]
      show ?thesis
        using eq act
        by (auto simp: res_simps intro: refused [OF cls p act roles d_def] granted [OF cls p act roles d_def]
            split: if_splits)
    qed
  qed
qed


lemma authorized_iff:
  assumes "principal db acct = Some p" and "effective_roles db p (ae_now E) = Inr roles"
    and "classify (ae_catalog E) q = Inr cls"
  shows "authorized E db acct q \<longleftrightarrow> pr_status p = ''ACTIVE'' \<and>
     az_permission q \<in> set (vocabulary (ae_catalog E)) \<and>
     (\<forall>r \<in> set roles. ro_status r = ''active'' \<longrightarrow> \<not> matches_any (ro_deny r) (az_permission q)) \<and>
     (truthy (az_required_capability q) \<longrightarrow> the (az_required_capability q) \<in> set (capability_ids db p)) \<and>
     (truthy (az_channel_id q) \<longrightarrow> is_channel_member db p (the (az_channel_id q))) \<and>
     (\<exists>r \<in> set roles. granting (action_of q) r \<and> risk_le (fst cls) (co_max_risk (ro_constraints r)))"
  unfolding authorized_def assms(1,3) using assms(2) by auto

lemma authorized_at:
  assumes "principal db acct = Some p" and "pr_status p = ''ACTIVE''"
    and "effective_roles db p (ae_now E) = Inr roles" and "classify (ae_catalog E) q = Inr cls"
    and inv: "policy_inv P db" and d: "d = evaluate (Some (vocabulary (ae_catalog E))) roles (action_of q)"
    and cov: "pd_allow d \<Longrightarrow> roles_cover_risk roles (pd_matched_roles d) (fst cls) = Inr b"
  shows "authorized E db acct q \<longleftrightarrow> pd_allow d \<and>
    (truthy (az_required_capability q) \<longrightarrow> the (az_required_capability q) \<in> set (capability_ids db p)) \<and>
    (truthy (az_channel_id q) \<longrightarrow> is_channel_member db p (the (az_channel_id q))) \<and> b"
proof -
  have allow: "pd_allow d \<longleftrightarrow> az_permission q \<in> set (vocabulary (ae_catalog E)) \<and>
      (\<forall>r \<in> set roles. ro_status r = ''active'' \<longrightarrow> \<not> matches_any (ro_deny r) (az_permission q)) \<and>
      (\<exists>r \<in> set roles. granting (action_of q) r)"
    unfolding d evaluate_allow_iff allowed_by_vocabulary by (simp add: action_of_def)
  have cover: "b \<longleftrightarrow> (\<exists>r \<in> set roles. granting (action_of q) r \<and> risk_le (fst cls) (co_max_risk (ro_constraints r)))"
    if "pd_allow d"
    using roles_cover_risk_iff [OF cov [OF that]]
      evaluate_grants [OF effective_roles_inj [OF inv assms(3)] that [unfolded d]] d by auto
  show ?thesis
    unfolding authorized_iff [OF assms(1,3,4)] using allow cover assms(2) by blast
qed

lemma authorize_decides:
  assumes inv: "policy_inv P db" and az: "authorize E db log acct q = Inr (log', a)"
  shows "(auth_allowed a \<longleftrightarrow> authorized E db acct q) \<and>
    (auth_allowed a \<longrightarrow> log' = log \<and> auth_audit_id a = None) \<and>
    (\<not> auth_allowed a \<longrightarrow> (\<exists>roles i. append_audit (ae_prims E) (ae_jsonb E) log
       (deny_audit E (principal db acct) acct q (auth_code a) roles) = Inr (log', i) \<and> auth_audit_id a = Some i))"
  using az
proof (cases rule: authorize_cases)
  case (unknown cls)
  then show ?thesis using deny_with_denies [OF unknown(3)] by (auto simp: authorized_def)
next
  case (inactive cls p)
  then show ?thesis using deny_with_denies [OF inactive(4)] by (auto simp: authorized_def)
next
  case (refused cls p roles d code)
  have "\<not> authorized E db acct q"
  proof
    assume au: "authorized E db acct q"
    have allow: "pd_allow d"
      using au unfolding refused(5) evaluate_allow_iff allowed_by_vocabulary
      by (auto simp: authorized_def refused(2,4) action_of_def)
    moreover have "roles_cover_risk roles (pd_matched_roles d) (fst cls) \<noteq> Inr False"
      using authorized_at [OF refused(2-4,1) inv refused(5), of False] au by blast
    ultimately show False
      using au refused(7) by (auto simp: authorized_def refused(2))
  qed
  then show ?thesis using deny_with_denies [OF refused(6)] refused(2) by auto
next
  case (granted cls p roles d)
  have "authorized E db acct q"
    using authorized_at [OF granted(2-4,1) inv granted(5), of True] granted(6-9) by blast
  then show ?thesis using grant_with_allows [OF granted(10)] by simp
qed

lemma classify_correlation [simp]: "classify c (q\<lparr>az_correlation_id := x\<rparr>) = classify c q"
  by (simp add: classify_def Let_def split: option.split list.split)

lemma authorized_correlation [simp]:
  "authorized E db acct (q\<lparr>az_correlation_id := c\<rparr>) = authorized E db acct q"
  by (simp add: authorized_def action_of_def)

lemma bus_require_spec:
  assumes "policy_inv P db" and "bus_require E db lg acct q = (lg', r)"
  shows "(\<forall>a. r = Inr a \<longrightarrow> lg' = lg \<and> authorized E db acct q) \<and>
    (lg' = lg \<or> (\<exists>x i. append_audit (ae_prims E) (ae_jsonb E) lg x = Inr (lg', i)))"
proof -
  let ?q = "q\<lparr>az_correlation_id := (if az_correlation_id q = [] then ''-'' else az_correlation_id q)\<rparr>"
  show ?thesis
  proof (cases "authorize E db lg acct ?q")
    case (Inl e)
    then show ?thesis using assms(2) by (auto simp: bus_require_def require_def)
  next
    case (Inr b)
    obtain lg'' a where b: "b = (lg'', a)" by (cases b)
    have lg': "lg' = lg''" and r: "r = (if auth_allowed a then Inr a else Inl (auth_code a))"
      using assms(2) Inr b by (auto simp: bus_require_def require_def)
    from authorize_decides [OF assms(1) Inr [unfolded b]] show ?thesis
      unfolding lg' r authorized_correlation by (auto split: if_splits)
  qed
qed

section \<open>The authorizer does not raise\<close>

text \<open>
  What the JSON schemas of the policy files and the cross-reference check at load time guarantee.
\<close>

definition catalog_ok :: "policy_catalog \<Rightarrow> bool" where
  "catalog_ok c \<longleftrightarrow> validate_cross_references c = Inr () \<and>
     (\<forall>(cls, risk, approval) \<in> set (pc_classes c). risk \<in> set RISK_ORDER) \<and>
     pc_unclassified_default c \<in> set RISK_ORDER \<and> pc_human_only_from c \<in> set RISK_ORDER"

lemma fold_res_unit:
  assumes "fold_res f xs () = Inr u" and "x \<in> set xs"
  shows "f x () = Inr ()"
  using assms by (induction xs) (auto simp: res_simps)

lemma catalog_ok_class:
  assumes "catalog_ok c" and "map_of (pc_actions c) a = Some (cls, perm)"
  obtains risk approval where "map_of (pc_classes c) cls = Some (risk, approval)" "risk \<in> set RISK_ORDER"
proof -
  have "fold_res (\<lambda>(_, cls, perm) _.
          if map_of (pc_classes c) cls = None then Inl ''POLICY_ACTION_UNCLASSIFIED''
          else if perm \<noteq> ''none'' \<and> perm \<notin> set (vocabulary c) then Inl ''POLICY_PERMISSION_UNKNOWN''
          else Inr ()) (pc_actions c) () = Inr ()"
    using assms(1) by (auto simp: catalog_ok_def validate_cross_references_def Let_def res_simps)
  from fold_res_unit [OF this map_of_SomeD [OF assms(2)]]
  obtain ra where ra: "map_of (pc_classes c) cls = Some ra" by (auto split: if_splits)
  then have "fst ra \<in> set RISK_ORDER" using assms(1) map_of_SomeD by (fastforce simp: catalog_ok_def)
  then show thesis using ra that by (cases ra) auto
qed

lemma risk_for_total:
  assumes "catalog_ok c"
  shows "\<exists>d. risk_for c action se = Inr d \<and> rd_risk d \<in> set RISK_ORDER \<and>
    (se \<and> \<not> rd_unclassified d \<longrightarrow> rd_risk d \<noteq> ''LOW'')"
proof (cases "map_of (pc_actions c) action")
  case None
  then show ?thesis using assms by (simp add: risk_for_def catalog_ok_def)
next
  case (Some cp)
  then obtain cls perm where cp: "map_of (pc_actions c) action = Some (cls, perm)" by (cases cp) auto
  obtain risk approval where r: "map_of (pc_classes c) cls = Some (risk, approval)" "risk \<in> set RISK_ORDER"
    by (rule catalog_ok_class [OF assms cp])
  obtain i where i: "risk_index risk = Inr i" using r(2) risk_index_total by blast
  have "risk = ''LOW'' \<Longrightarrow> i = 0" using i by (auto simp: risk_index_def RISK_ORDER_def)
  moreover have "''MEDIUM'' \<in> set RISK_ORDER" by (simp add: RISK_ORDER_def)
  ultimately show ?thesis using r i cp by (auto simp: risk_for_def)
qed

lemma human_only_total:
  assumes "catalog_ok c" and "risk \<in> set RISK_ORDER"
  shows "\<exists>b. human_only c risk = Inr b"
  using assms risk_index_total unfolding catalog_ok_def human_only_def by (metis bind_res_Inr)

lemma classify_total:
  assumes "catalog_ok c"
  shows "\<exists>cls. classify c q = Inr cls \<and> fst cls \<in> set RISK_ORDER"
proof -
  define action where "action = (case az_action q of Some a \<Rightarrow> a
    | None \<Rightarrow> (case sort (map fst (filter (\<lambda>(_, _, perm). perm = az_permission q) (pc_actions c))) of
        [] \<Rightarrow> ''permission:'' @ az_permission q | a # _ \<Rightarrow> a))"
  have "classify c q = bind_res (risk_for c action (az_side_effect q)) (\<lambda>d. Inr (rd_risk d, rd_class d, rd_approval d))"
    by (simp add: classify_def action_def Let_def)
  then show ?thesis using risk_for_total [OF assms, of action "az_side_effect q"] by auto
qed

lemma snapshot_total: "\<exists>s. snapshot_of P acct roles caps now = Inr s"
proof -
  let ?b = "\<lambda>rvs cs. JObj [(''account_id'', JStr acct), (''role_versions'', JArr (map (\<lambda>(r, v). JArr [JStr r, JInt v]) rvs)),
      (''capability_ids'', JArr (map JStr cs))]"
  have "\<exists>b. canonical_bytes (?b rvs cs) = Inr b" for rvs cs
    by (rule canonical_bytes_total) (auto simp: list_all_iff)
  then show ?thesis unfolding snapshot_of_def Let_def by (metis (no_types, lifting) bind_res_Inr)
qed

lemma printable_redact: "printable (map_jval codes v) \<Longrightarrow> printable (map_jval codes (redact_value v))"
proof (induction v rule: redact_value.induct)
  case (1 kvs)
  then show ?case by (fastforce simp: list_all_iff)
qed auto

lemma append_audit_total:
  assumes "printable (map_jval codes (JObj (get_default [] (au_metadata x))))"
  shows "\<exists>lg' i. append_audit P jsonb lg x = Inr (lg', i)"
proof -
  have "printable (map_jval codes (JObj (redact_metadata (au_metadata x))))"
    using printable_redact [OF assms] by (simp add: redact_metadata_def)
  then have "printable (map_jval codes (JObj (hashed_row_fields AUDIT_CHAIN (audit_fields x i) @ [(''previous_hash'', jopt h)])))" for i h
    by (simp add: hashed_row_fields_def AUDIT_CHAIN_def audit_fields_def uuid_cell_def jopt_def split: option.split)
  from canonical_bytes_total [OF this]
  have "\<exists>h. chain_hash P (hashed_row_fields AUDIT_CHAIN (audit_fields x i)) h' = Inr h" for i h'
    unfolding chain_hash_def by (metis bind_res_Inr)
  then show ?thesis unfolding append_audit_def Let_def by (metis (no_types, lifting) bind_res_Inr)
qed

lemma deny_with_total:
  assumes "catalog_ok (ae_catalog E)" and "fst cls \<in> set RISK_ORDER"
  shows "\<exists>lg' a. deny_with E lg p acct q code roles matched cls = Inr (lg', a)"
proof -
  obtain s where s: "snapshot_of (ae_prims E) acct roles [] (ae_now E) = Inr s" using snapshot_total by blast
  obtain b where b: "human_only (ae_catalog E) (fst cls) = Inr b" using human_only_total [OF assms] by blast
  have "\<exists>lg' i. append_audit (ae_prims E) (ae_jsonb E) lg (deny_audit E p acct q code (map ro_role_id roles)) = Inr (lg', i)"
    by (rule append_audit_total) (auto simp: deny_audit_def jopt_def list_all_iff split: option.split)
  then show ?thesis using s b by (auto simp: deny_with_def)
qed

lemma grant_with_total:
  assumes "catalog_ok (ae_catalog E)" and "fst cls \<in> set RISK_ORDER"
  shows "\<exists>a. grant_with E lg acct d roles caps cls = Inr (lg, a)"
proof -
  obtain s where s: "snapshot_of (ae_prims E) acct roles caps (ae_now E) = Inr s" using snapshot_total by blast
  obtain b where b: "human_only (ae_catalog E) (fst cls) = Inr b" using human_only_total [OF assms] by blast
  show ?thesis using s b by (simp add: grant_with_def Let_def)
qed

lemma covers_from_total:
  "\<forall>r \<in> set rs. co_max_risk (ro_constraints r) \<in> set RISK_ORDER \<Longrightarrow> \<exists>b. covers_from rs matched i = Inr b"
proof (induction rs)
  case (Cons r rs)
  then obtain b where b: "covers_from rs matched i = Inr b" by auto
  obtain n where "risk_index (co_max_risk (ro_constraints r)) = Inr n" using Cons.prems risk_index_total by auto
  then have "covers_from (r # rs) matched i = Inr (if ro_role_id r \<in> set matched \<and> i \<le> n then True else b)"
    using b by simp
  then show ?case by blast
qed (rule exI [of _ False], simp)

lemma authorize_returns:
  assumes cat: "catalog_ok (ae_catalog E)"
    and roles: "\<forall>p. principal db acct = Some p \<and> pr_status p = ''ACTIVE'' \<longrightarrow>
      (\<exists>roles. effective_roles db p (ae_now E) = Inr roles \<and>
        (\<forall>r \<in> set roles. co_max_risk (ro_constraints r) \<in> set RISK_ORDER))"
  shows "\<exists>lg' a. authorize E db lg acct q = Inr (lg', a)"
proof -
  obtain cls where cls: "classify (ae_catalog E) q = Inr cls" "fst cls \<in> set RISK_ORDER"
    using classify_total [OF cat] by blast
  note deny = deny_with_total [OF cat cls(2)] 
  have grant: "\<exists>lg' a. grant_with E lg acct d roles caps cls = Inr (lg', a)" for d roles caps
    using grant_with_total [OF cat cls(2)] by blast
  show ?thesis
  proof (cases "principal db acct")
    case None
    then show ?thesis using cls deny by (simp add: authorize_def)
  next
    case (Some p)
    show ?thesis
    proof (cases "pr_status p = ''ACTIVE''")
      case False
      then show ?thesis using cls Some deny by (simp add: authorize_def)
    next
      case True
      then obtain rs where rs: "effective_roles db p (ae_now E) = Inr rs"
          "\<forall>r \<in> set rs. co_max_risk (ro_constraints r) \<in> set RISK_ORDER"
        using roles Some by blast
      have "\<exists>b. roles_cover_risk rs m (fst cls) = Inr b" for m
        using covers_from_total [OF rs(2)] cls(2) risk_index_total by (auto simp: roles_cover_risk_def)
      then obtain b where b: "roles_cover_risk rs (pd_matched_roles (evaluate (Some (vocabulary (ae_catalog E))) rs (action_of q)))
          (fst cls) = Inr b" by blast
      show ?thesis
        unfolding authorize_def cls(1) Some rs(1) bind_res_Inr option.case Let_def b
        using True deny grant by auto
    qed
  qed
qed

section \<open>Properties\<close>

text \<open>
  C16. The authorizer decides exactly its declared policy. When a decision is returned it is
  positive if and only if the principal is known and active, its permission is in the vocabulary,
  no active effective role denies it, the required capability is held, the principal is a member of
  the channel, and an effective role grants the request in scope and reaches the risk the catalog
  gives the action. A positive decision leaves the audit log alone; a negative one appends
  exactly one \<^verbatim>\<open>policy.deny\<close> row carrying its code and returns that row's identifier.
\<close>

theorem authorize_correct:
  assumes inv: "policy_inv P db" and az: "authorize E db log acct q = Inr (log', a)"
  shows "(auth_allowed a \<longleftrightarrow> authorized E db acct q) \<and>
    (auth_allowed a \<longrightarrow> log' = log \<and> auth_audit_id a = None) \<and>
    (\<not> auth_allowed a \<longrightarrow> (\<exists>roles i. append_audit (ae_prims E) (ae_jsonb E) log
       (deny_audit E (principal db acct) acct q (auth_code a) roles) = Inr (log', i) \<and> auth_audit_id a = Some i))"
  by (rule authorize_decides [OF assms])



definition sample_catalog :: policy_catalog where
  "sample_catalog = \<lparr>pc_permissions = [(''task.read'', True)], pc_classes = [(''read'', (''LOW'', ''none''))],
     pc_actions = [(''api:task_read'', (''read'', ''task.read''))], pc_unclassified_default = ''HIGH'',
     pc_quorum = (\<lambda>_. 1), pc_human_only_from = ''CRITICAL'', pc_capabilities = [], pc_roles = []\<rparr>"

definition sample_authz :: authz_env where
  "sample_authz = \<lparr>ae_prims = toy_prims, ae_jsonb = (\<lambda>p. p), ae_catalog = sample_catalog, ae_now = 5,
     ae_audit_now = 5\<rparr>"

definition read_request :: "string option \<Rightarrow> authorization_request" where
  "read_request channel = \<lparr>az_permission = ''task.read'', az_action = None, az_domain = None,
     az_channel_id = channel, az_resource = None, az_side_effect = False, az_required_capability = None,
     az_correlation_id = ''c'', az_target_type = ''action'', az_target_id = ''-''\<rparr>"

lemma sample_catalog_ok: "catalog_ok sample_catalog"
  by (simp add: catalog_ok_def sample_catalog_def validate_cross_references_def vocabulary_def RISK_ORDER_def)

lemma sample_classify: "classify (ae_catalog sample_authz) (read_request channel) = Inr (''LOW'', ''read'', ''none'')"
  by (simp add: classify_def sample_authz_def sample_catalog_def read_request_def risk_for_def)

lemma sample_granting: "granting (action_of (read_request channel)) sample_read_role"
  by (simp add: granting_def action_of_def read_request_def sample_read_role_def matches_any_def
      permission_matches_def scope_violation_def ends_with_def suffix_def)

text \<open>The sample role committed and assigned: its account may read Tasks.\<close>

lemma read_world:
  obtains db where "policy_inv toy_prims db" and "principal db ''human-a'' = Some sample_principal"
    and "effective_roles db sample_principal 5 = Inr [sample_read_role]"
    and "\<not> is_channel_member db sample_principal ''chan-a''"
proof -
  obtain db h where c: "commit_role_version toy_prims (\<lambda>p. p) assigned_db ''role-a'' [''task.read''] [] [] ''u1'' None =
      Inr (db, 1, h)"
    using assigned_db_commit [of "[]"] by auto
  have "policy_inv toy_prims db"
    using commit_role_version_inv [OF policy_inv_assigned _ c] by (simp add: jsonb_law_def)
  moreover have "principal db ''human-a'' = Some sample_principal \<and> \<not> is_channel_member db sample_principal ''chan-a''"
    by (rule commit_role_version_cases [OF c])
      (simp add: principal_def is_channel_member_def assigned_db_def sample_db_def sample_account_def sample_principal_def)
  moreover have "effective_roles db sample_principal 5 = Inr [sample_read_role]"
    by (rule assigned_effective_roles(2) [OF c]) simp_all
  ultimately show thesis using that by blast
qed

lemma read_world_decision:
  assumes "principal db ''human-a'' = Some sample_principal"
    and "effective_roles db sample_principal 5 = Inr [sample_read_role]"
  shows "authorized sample_authz db ''human-a'' (read_request channel) \<longleftrightarrow>
      (truthy channel \<longrightarrow> is_channel_member db sample_principal (the channel))"
    and "\<exists>lg' a. authorize sample_authz db lg ''human-a'' (read_request channel) = Inr (lg', a)"
proof -
  have roles: "effective_roles db sample_principal (ae_now sample_authz) = Inr [sample_read_role]"
    using assms(2) by (simp add: sample_authz_def)
  have "risk_le ''LOW'' (co_max_risk (ro_constraints sample_read_role))"
    by (simp add: risk_le_def risk_index_def RISK_ORDER_def sample_read_role_def)
  then show "authorized sample_authz db ''human-a'' (read_request channel) \<longleftrightarrow>
      (truthy channel \<longrightarrow> is_channel_member db sample_principal (the channel))"
    unfolding authorized_iff [OF assms(1) roles sample_classify] using sample_granting [of channel]
    by (simp add: sample_principal_def read_request_def sample_authz_def sample_catalog_def vocabulary_def
        sample_read_role_def matches_any_def)
  show "\<exists>lg' a. authorize sample_authz db lg ''human-a'' (read_request channel) = Inr (lg', a)"
  proof (rule authorize_returns)
    show "catalog_ok (ae_catalog sample_authz)" by (simp add: sample_authz_def sample_catalog_ok)
    show "\<forall>p. principal db ''human-a'' = Some p \<and> pr_status p = ''ACTIVE'' \<longrightarrow>
      (\<exists>roles. effective_roles db p (ae_now sample_authz) = Inr roles \<and>
        (\<forall>r \<in> set roles. co_max_risk (ro_constraints r) \<in> set RISK_ORDER))"
      using assms(1) roles by (simp add: sample_read_role_def RISK_ORDER_def)
  qed
qed

theorem authorize_correct_witness:
  "\<exists>db a lg b. authorize sample_authz db empty_log ''human-a'' (read_request None) = Inr (empty_log, a) \<and> auth_allowed a \<and>
     authorize sample_authz db empty_log ''human-a'' (read_request (Some ''chan-a'')) = Inr (lg, b) \<and> \<not> auth_allowed b \<and>
     auth_audit_id b \<noteq> None"
proof -
  obtain db where inv: "policy_inv toy_prims db" and w: "principal db ''human-a'' = Some sample_principal"
      "effective_roles db sample_principal 5 = Inr [sample_read_role]" "\<not> is_channel_member db sample_principal ''chan-a''"
    by (rule read_world)
  obtain l a where a: "authorize sample_authz db empty_log ''human-a'' (read_request None) = Inr (l, a)"
    using read_world_decision(2) [OF w(1,2)] by blast
  obtain lg b where b: "authorize sample_authz db empty_log ''human-a'' (read_request (Some ''chan-a'')) = Inr (lg, b)"
    using read_world_decision(2) [OF w(1,2)] by blast
  have "auth_allowed a" "l = empty_log"
    using authorize_correct [OF inv a] read_world_decision(1) [OF w(1,2), of None] by auto
  moreover have "\<not> auth_allowed b" "auth_audit_id b \<noteq> None"
    using authorize_correct [OF inv b] read_world_decision(1) [OF w(1,2), of "Some ''chan-a''"] w(3) by auto
  ultimately show ?thesis using a b by blast
qed

text \<open>
  C17. The authorizer is total and its classification well-typed: with a catalog that passed its
  load-time checks and roles whose constraints can be read, every request gets a decision - no
  lookup fails - and the risk of a decision is one of the four levels, above \<^verbatim>\<open>LOW\<close> for a
  classified action with side effects.
\<close>

theorem authorize_total:
  assumes cat: "catalog_ok (ae_catalog E)"
    and roles: "\<forall>p. principal db acct = Some p \<and> pr_status p = ''ACTIVE'' \<longrightarrow>
      (\<exists>roles. effective_roles db p (ae_now E) = Inr roles \<and>
        (\<forall>r \<in> set roles. co_max_risk (ro_constraints r) \<in> set RISK_ORDER))"
  shows "\<exists>lg' a d. authorize E db lg acct q = Inr (lg', a) \<and> auth_risk a \<in> set RISK_ORDER \<and>
    (\<forall>action. az_action q = Some action \<longrightarrow> risk_for (ae_catalog E) action (az_side_effect q) = Inr d \<and>
       auth_risk a = rd_risk d \<and> (az_side_effect q \<and> \<not> rd_unclassified d \<longrightarrow> rd_risk d \<noteq> ''LOW''))"
proof -
  obtain lg' a where a: "authorize E db lg acct q = Inr (lg', a)" using authorize_returns [OF assms] by blast
  obtain cls where cls: "classify (ae_catalog E) q = Inr cls" "fst cls \<in> set RISK_ORDER"
    using classify_total [OF cat] by blast
  have risk: "auth_risk a = fst cls"
    using a by (cases rule: authorize_cases) (auto simp: cls(1) deny_with_def grant_with_def Let_def res_simps)
  show ?thesis
  proof (cases "az_action q")
    case None
    then show ?thesis using a cls(2) risk by simp
  next
    case (Some action)
    obtain d where d: "risk_for (ae_catalog E) action (az_side_effect q) = Inr d"
        "az_side_effect q \<and> \<not> rd_unclassified d \<longrightarrow> rd_risk d \<noteq> ''LOW''"
      using risk_for_total [OF cat] by blast
    have "fst cls = rd_risk d" using cls(1) d(1) Some by (auto simp: classify_def)
    then show ?thesis using a cls(2) risk d Some by simp
  qed
qed

theorem authorize_total_witness:
  "\<exists>db lg' a. principal db ''human-a'' = Some sample_principal \<and>
     authorize sample_authz db empty_log ''human-a'' ((read_request None)\<lparr>az_action := Some ''api:task_read'', az_side_effect := True\<rparr>) =
       Inr (lg', a) \<and> auth_risk a \<noteq> ''LOW''"
proof -
  obtain db where w: "principal db ''human-a'' = Some sample_principal"
      "effective_roles db sample_principal 5 = Inr [sample_read_role]"
    by (rule read_world)
  let ?q = "(read_request None)\<lparr>az_action := Some ''api:task_read'', az_side_effect := True\<rparr>"
  have "catalog_ok (ae_catalog sample_authz)" by (simp add: sample_authz_def sample_catalog_ok)
  moreover have "\<forall>p. principal db ''human-a'' = Some p \<and> pr_status p = ''ACTIVE'' \<longrightarrow>
      (\<exists>roles. effective_roles db p (ae_now sample_authz) = Inr roles \<and>
        (\<forall>r \<in> set roles. co_max_risk (ro_constraints r) \<in> set RISK_ORDER))"
    using w by (simp add: sample_authz_def sample_read_role_def RISK_ORDER_def)
  ultimately obtain lg' a d where a: "authorize sample_authz db empty_log ''human-a'' ?q = Inr (lg', a)"
      "risk_for (ae_catalog sample_authz) ''api:task_read'' True = Inr d" "auth_risk a = rd_risk d"
    using authorize_total [of sample_authz db "''human-a''" empty_log ?q] by auto
  then have "auth_risk a \<noteq> ''LOW''"
    by (auto simp: risk_for_def sample_authz_def sample_catalog_def risk_index_def RISK_ORDER_def)
  then show ?thesis using w(1) a(1) by blast
qed

end
