(* ===== verification/Roles.thy ===== *)
theory Roles
  imports Authorization Task_Runs
begin

text \<open>
  Role administration on the command bus: \<^verbatim>\<open>src/server/application/roles.py\<close>. A handler runs in a
  \<open>role_world\<close>: the Event store (through \<open>store_ops\<close>), the policy tables and the audit log. A handler
  that raises is rolled back, except that the audit row of a denied authorization stays.
  \<open>re_parse_time\<close> of the environment is \<^verbatim>\<open>datetime.fromisoformat\<close>.
\<close>

section \<open>Commands and worlds\<close>

datatype role_command =
    CreateRole string string "string list" "string list" pydict
      \<comment> \<open>role, display name, permissions, deny, constraints\<close>
  | CommitRoleVersion string "string list" "string list" pydict
  | AssignRole string string pydict "string option"
      \<comment> \<open>account, role, scope, valid to\<close>
  | RevokeRole string string string

fun role_scope :: "role_command \<Rightarrow> string" where
  "role_scope (CreateRole _ _ _ _ _) = ''role:create''"
| "role_scope (CommitRoleVersion _ _ _ _) = ''role:commit''"
| "role_scope (AssignRole _ _ _ _) = ''account:role_assign''"
| "role_scope (RevokeRole _ _ _) = ''account:role_revoke''"

record role_context =
  rc_workspace_id :: string
  rc_account_id :: string
  rc_account_uuid :: string
  rc_correlation_id :: string
  rc_idempotency_key :: string
  rc_now :: time

record 's role_world =
  rw_store :: 's
  rw_db :: policy_db
  rw_log :: audit_log

record 's role_env =
  re_store :: "'s store_ops"
  re_authorizer :: "authz_env option"
  re_prims :: prims
  re_jsonb :: "pydict \<Rightarrow> pydict"
  re_catalog :: policy_catalog
  re_parse_time :: "string \<Rightarrow> time option"

record role_result =
  rq_resource_id :: string
  rq_event_id :: string
  rq_aggregate_seq :: int
  rq_resource_type :: string
  rq_replayed :: bool
  rq_data :: pydict

section \<open>Validation\<close>

definition validate_role_id :: "string \<Rightarrow> unit res" where
  "validate_role_id rid =
     (if \<not> starts_with ''role-'' rid \<or> length rid < 6 \<or> CHR '' '' \<in> set rid
      then Inl ''ROLE_ID_INVALID'' else Inr ())"

definition validate_permissions :: "policy_catalog \<Rightarrow> string list \<Rightarrow> string list \<Rightarrow> unit res" where
  "validate_permissions c permissions deny =
     (if \<not> list_all (\<lambda>p. permission_in_vocabulary p (vocabulary c)) (permissions @ deny)
      then Inl ''PERMISSION_UNKNOWN''
      else if permissions = [] \<and> deny = [] then Inl ''ROLE_EMPTY''
      else Inr ())"

definition validate_constraints :: "pydict \<Rightarrow> unit res" where
  "validate_constraints constraints =
     (if \<not> set (map fst constraints) \<subseteq> {''domains'', ''channels'', ''resources'', ''side_effects'',
           ''requires_human_approval''}
      then Inl ''ROLE_CONSTRAINT_INVALID''
      else if map_of constraints ''side_effects'' \<notin> {None, Some JNull, Some (JStr ''allow''), Some (JStr ''deny'')}
      then Inl ''ROLE_CONSTRAINT_INVALID''
      else Inr ())"

section \<open>Helpers of the handlers\<close>

definition role_replay ::
  "'s role_env \<Rightarrow> role_context \<Rightarrow> 's \<Rightarrow> string \<Rightarrow> string \<Rightarrow> string \<Rightarrow> event option res" where
  "role_replay E cx s aggregate_type aggregate_id scope =
     bind_res (so_stream (re_store E) s (rc_workspace_id cx) aggregate_type aggregate_id) (\<lambda>events.
       Inr (List.find (\<lambda>e. ev_idempotency_scope e = scope \<and> ev_idempotency_key e = rc_idempotency_key cx \<and>
         ev_actor_account_id e = rc_account_uuid cx) events))"

definition replay_result :: "string \<Rightarrow> string \<Rightarrow> event \<Rightarrow> role_result" where
  "replay_result resource_id resource_type e =
     \<lparr>rq_resource_id = resource_id, rq_event_id = ev_event_id e, rq_aggregate_seq = ev_aggregate_seq e,
      rq_resource_type = resource_type, rq_replayed = True, rq_data = []\<rparr>"

definition role_request ::
  "role_context \<Rightarrow> role_command \<Rightarrow> string \<Rightarrow> string \<Rightarrow> string \<Rightarrow> pydict \<Rightarrow> append_request" where
  "role_request cx cmd aggregate_type aggregate_id event_type payload =
     \<lparr>ar_workspace_id = rc_workspace_id cx, ar_aggregate_type = aggregate_type,
      ar_aggregate_id = aggregate_id, ar_type = event_type, ar_actor_account_id = rc_account_uuid cx,
      ar_correlation_id = rc_correlation_id cx, ar_idempotency_scope = role_scope cmd,
      ar_idempotency_key = rc_idempotency_key cx, ar_payload = payload,
      ar_policy_version = ''policy-v1'', ar_channel_id = None, ar_task_id = None, ar_caused_by = None,
      ar_expected_seq = None, ar_sensitive = None, ar_schema_version = 1\<rparr>"

definition role_append ::
  "'s role_env \<Rightarrow> role_context \<Rightarrow> role_command \<Rightarrow> string \<Rightarrow> string \<Rightarrow> string \<Rightarrow> pydict \<Rightarrow> 's role_world
    \<Rightarrow> ('s role_world \<times> append_result) res" where
  "role_append E cx cmd aggregate_type aggregate_id event_type payload w =
     bind_res (so_append (re_store E) (rw_store w)
         (role_request cx cmd aggregate_type aggregate_id event_type payload))
       (\<lambda>(s, r). Inr (w\<lparr>rw_store := s\<rparr>, r))"

definition role_audit ::
  "'s role_env \<Rightarrow> role_context \<Rightarrow> string \<Rightarrow> string \<Rightarrow> string \<Rightarrow> pydict \<Rightarrow> 's role_world \<Rightarrow> 's role_world res" where
  "role_audit E cx action target_type target_id meta w =
     bind_res (append_audit (re_prims E) (re_jsonb E) (rw_log w)
         \<lparr>au_action = action, au_target_type = target_type, au_target_id = target_id, au_result = ''OK'',
          au_actor_label = rc_account_id cx, au_correlation_id = rc_correlation_id cx,
          au_workspace_id = Some (rc_workspace_id cx), au_actor_account_id = Some (rc_account_uuid cx),
          au_error_code = None, au_metadata = Some meta, au_now = rc_now cx\<rparr>)
       (\<lambda>(log', _). Inr (w\<lparr>rw_log := log'\<rparr>))"

definition role_row :: "role_context \<Rightarrow> policy_db \<Rightarrow> string \<Rightarrow> role_rec res" where
  "role_row cx db rid =
     (case List.find (\<lambda>r. rr_role_id r = rid \<and> rr_workspace r = rc_workspace_id cx) (pb_roles db) of
        None \<Rightarrow> Inl ''ROLE_NOT_FOUND'' | Some r \<Rightarrow> Inr r)"

definition role_account :: "role_context \<Rightarrow> policy_db \<Rightarrow> string \<Rightarrow> string res" where
  "role_account cx db public_id =
     (case List.find (\<lambda>a. ac_account_id a = public_id \<and> ac_workspace a = rc_workspace_id cx) (pb_accounts db) of
        None \<Rightarrow> Inl ''ACCOUNT_NOT_FOUND'' | Some a \<Rightarrow> Inr (ac_uuid a))"

definition version_payload :: "string \<Rightarrow> int \<Rightarrow> string \<Rightarrow> string list \<Rightarrow> string list \<Rightarrow> pydict \<Rightarrow> pydict" where
  "version_payload rid version digest permissions deny constraints =
     [(''role_id'', JStr rid), (''role_version'', JInt version), (''permissions_hash'', JStr digest),
      (''permissions'', JArr (map JStr (sort permissions))), (''deny'', JArr (map JStr (sort deny))),
      (''constraints'', JObj constraints)]"

definition version_meta :: "int \<Rightarrow> string \<Rightarrow> pydict" where
  "version_meta version digest = [(''role_version'', JInt version), (''policy_hash'', JStr digest)]"

definition role_done :: "string \<Rightarrow> string \<Rightarrow> append_result \<Rightarrow> pydict \<Rightarrow> role_result" where
  "role_done resource_id resource_type r data =
     \<lparr>rq_resource_id = resource_id, rq_event_id = res_event_id r, rq_aggregate_seq = res_aggregate_seq r,
      rq_resource_type = resource_type, rq_replayed = False, rq_data = data\<rparr>"

section \<open>Handlers\<close>

definition create_role ::
  "'s role_env \<Rightarrow> role_context \<Rightarrow> string \<Rightarrow> string \<Rightarrow> string list \<Rightarrow> string list \<Rightarrow> pydict \<Rightarrow> 's role_world
    \<Rightarrow> ('s role_world \<times> role_result) res" where
  "create_role E cx rid display_name permissions deny constraints w =
     bind_res (validate_role_id rid) (\<lambda>_.
     if strip display_name = [] then Inl ''ROLE_DISPLAY_NAME_REQUIRED'' else
     bind_res (validate_permissions (re_catalog E) permissions deny) (\<lambda>_.
     bind_res (validate_constraints constraints) (\<lambda>_.
     case List.find (\<lambda>r. rr_role_id r = rid) (pb_roles (rw_db w)) of
       Some row \<Rightarrow>
         bind_res (role_replay E cx (rw_store w) ''role'' rid ''role:create'') (\<lambda>prior.
           case prior of
             Some e \<Rightarrow> if rr_workspace row = rc_workspace_id cx then Inr (w, replay_result rid ''role'' e)
                       else Inl ''ROLE_ALREADY_EXISTS''
           | None \<Rightarrow> Inl ''ROLE_ALREADY_EXISTS'')
     | None \<Rightarrow>
         bind_res (create_role_row (rw_db w) (rc_workspace_id cx) rid (strip display_name)) (\<lambda>db1.
         bind_res (policy_hash (re_prims E) permissions deny constraints) (\<lambda>digest.
         bind_res (role_append E cx (CreateRole rid display_name permissions deny constraints) ''role'' rid
             ''ROLE_VERSION_CREATED'' (version_payload rid 1 digest permissions deny constraints)
             (w\<lparr>rw_db := db1\<rparr>)) (\<lambda>(w2, r).
         bind_res (commit_role_version (re_prims E) (re_jsonb E) (rw_db w2) rid permissions deny constraints
             (rc_account_uuid cx) (Some (res_event_id r))) (\<lambda>(db3, _, _).
         bind_res (role_audit E cx ''role.create'' ''role'' rid (version_meta 1 digest)
             (w2\<lparr>rw_db := db3\<rparr>)) (\<lambda>w4.
           Inr (w4, role_done rid ''role'' r (version_meta 1 digest))))))))))"

definition commit_version ::
  "'s role_env \<Rightarrow> role_context \<Rightarrow> string \<Rightarrow> string list \<Rightarrow> string list \<Rightarrow> pydict \<Rightarrow> 's role_world
    \<Rightarrow> ('s role_world \<times> role_result) res" where
  "commit_version E cx rid permissions deny constraints w =
     bind_res (role_row cx (rw_db w) rid) (\<lambda>row.
     bind_res (role_replay E cx (rw_store w) ''role'' rid ''role:commit'') (\<lambda>prior.
     case prior of Some e \<Rightarrow> Inr (w, replay_result rid ''role'' e)
     | None \<Rightarrow>
       if rr_status row \<noteq> ''active'' then Inl ''ROLE_RETIRED'' else
       bind_res (validate_permissions (re_catalog E) permissions deny) (\<lambda>_.
       bind_res (validate_constraints constraints) (\<lambda>_.
       let version = rr_current_version row + 1 in
       bind_res (policy_hash (re_prims E) permissions deny constraints) (\<lambda>digest.
       bind_res (role_append E cx (CommitRoleVersion rid permissions deny constraints) ''role'' rid
           ''ROLE_VERSION_CREATED'' (version_payload rid version digest permissions deny constraints) w) (\<lambda>(w2, r).
       bind_res (commit_role_version (re_prims E) (re_jsonb E) (rw_db w2) rid permissions deny constraints
           (rc_account_uuid cx) (Some (res_event_id r))) (\<lambda>(db3, committed, _).
       if committed \<noteq> version then Inl ''ROLE_VERSION_CONFLICT'' else
       bind_res (role_audit E cx ''role.commit'' ''role'' rid (version_meta version digest)
           (w2\<lparr>rw_db := db3\<rparr>)) (\<lambda>w4.
         Inr (w4, role_done rid ''role'' r (version_meta version digest))))))))))"

definition assign_role ::
  "'s role_env \<Rightarrow> role_context \<Rightarrow> string \<Rightarrow> string \<Rightarrow> pydict \<Rightarrow> string option \<Rightarrow> 's role_world
    \<Rightarrow> ('s role_world \<times> role_result) res" where
  "assign_role E cx account_id rid scope valid_to w =
     bind_res (role_row cx (rw_db w) rid) (\<lambda>row.
     bind_res (role_account cx (rw_db w) account_id) (\<lambda>acct.
     bind_res (role_replay E cx (rw_store w) ''account'' account_id ''account:role_assign'') (\<lambda>prior.
     case prior of Some e \<Rightarrow> Inr (w, replay_result account_id ''account'' e)
     | None \<Rightarrow>
       if list_ex (open_assignment acct rid) (pb_assignments (rw_db w)) then Inl ''ROLE_ALREADY_ASSIGNED'' else
       bind_res (if truthy valid_to
           then (case re_parse_time E (the valid_to) of None \<Rightarrow> Inl ''ROLE_VALID_TO_INVALID'' | Some t \<Rightarrow> Inr (Some t))
           else Inr None) (\<lambda>until.
       bind_res (role_append E cx (AssignRole account_id rid scope valid_to) ''account'' account_id
           ''PRINCIPAL_ROLE_ASSIGNED''
           [(''account_id'', JStr account_id), (''role_id'', JStr rid),
            (''role_version'', JInt (rr_current_version row)), (''scope'', JObj scope)] w) (\<lambda>(w2, r).
       bind_res (assign_role_row (rw_db w2) acct rid (rc_account_uuid cx) (rc_now cx) until (re_jsonb E scope)
           (Some (res_event_id r))) (\<lambda>db3.
       bind_res (role_audit E cx ''role.assign'' ''account'' account_id [(''role_id'', JStr rid)]
           (w2\<lparr>rw_db := db3\<rparr>)) (\<lambda>w4.
         Inr (w4, role_done account_id ''account'' r []))))))))"

definition revoke_role ::
  "'s role_env \<Rightarrow> role_context \<Rightarrow> string \<Rightarrow> string \<Rightarrow> string \<Rightarrow> 's role_world
    \<Rightarrow> ('s role_world \<times> role_result) res" where
  "revoke_role E cx account_id rid reason_code w =
     bind_res (role_row cx (rw_db w) rid) (\<lambda>_.
     bind_res (role_account cx (rw_db w) account_id) (\<lambda>acct.
     bind_res (role_replay E cx (rw_store w) ''account'' account_id ''account:role_revoke'') (\<lambda>prior.
     case prior of Some e \<Rightarrow> Inr (w, replay_result account_id ''account'' e)
     | None \<Rightarrow>
       bind_res (role_append E cx (RevokeRole account_id rid reason_code) ''account'' account_id
           ''PRINCIPAL_ROLE_REVOKED''
           [(''account_id'', JStr account_id), (''role_id'', JStr rid), (''reason_code'', JStr reason_code)] w)
         (\<lambda>(w2, r).
       let (db3, revoked) = revoke_role_rows (rw_db w2) acct rid (rc_now cx) (Some (res_event_id r)) in
       if revoked = 0 then Inl ''ROLE_NOT_ASSIGNED'' else
       bind_res (role_audit E cx ''role.revoke'' ''account'' account_id [(''role_id'', JStr rid)]
           (w2\<lparr>rw_db := db3\<rparr>)) (\<lambda>w4.
         Inr (w4, role_done account_id ''account'' r [(''revoked'', JInt revoked)]))))))"

fun role_action :: "role_command \<Rightarrow> string" where
  "role_action (CreateRole _ _ _ _ _) = ''api:role_create''"
| "role_action (CommitRoleVersion _ _ _ _) = ''api:role_update''"
| "role_action (AssignRole _ _ _ _) = ''api:role_assign''"
| "role_action (RevokeRole _ _ _) = ''api:role_revoke''"

fun handle_role ::
  "'s role_env \<Rightarrow> role_context \<Rightarrow> role_command \<Rightarrow> 's role_world \<Rightarrow> ('s role_world \<times> role_result) res" where
  "handle_role E cx (CreateRole rid name perms deny con) w = create_role E cx rid name perms deny con w"
| "handle_role E cx (CommitRoleVersion rid perms deny con) w = commit_version E cx rid perms deny con w"
| "handle_role E cx (AssignRole acct rid scope until) w = assign_role E cx acct rid scope until w"
| "handle_role E cx (RevokeRole acct rid reason) w = revoke_role E cx acct rid reason w"

definition admin_request :: "role_context \<Rightarrow> role_command \<Rightarrow> authorization_request" where
  "admin_request cx cmd = \<lparr>az_permission = ''admin.accounts'', az_action = Some (role_action cmd), az_domain = None,
     az_channel_id = None, az_resource = None, az_side_effect = False, az_required_capability = None,
     az_correlation_id = rc_correlation_id cx, az_target_type = ''action'', az_target_id = ''-''\<rparr>"

text \<open>One bus call: the permission first, then the handler in a transaction.\<close>

definition run_role ::
  "'s role_env \<Rightarrow> role_context \<Rightarrow> role_command \<Rightarrow> 's role_world \<Rightarrow> 's role_world \<times> role_result res" where
  "run_role E cx cmd w =
     (if rc_idempotency_key cx = [] then (w, Inl ''IDEMPOTENCY_KEY_REQUIRED'')
      else case require_permission (re_authorizer E) (rw_db w) (rw_log w) (rc_account_id cx) (admin_request cx cmd) of
        (log', Inl e) \<Rightarrow> (w\<lparr>rw_log := log'\<rparr>, Inl e)
      | (log', Inr _) \<Rightarrow>
          (case handle_role E cx cmd w of
             Inl e \<Rightarrow> (w, Inl e)
           | Inr (w', r) \<Rightarrow> (w', Inr r)))"


section \<open>Reads\<close>

record preview_decision =
  pvd_permission :: string
  pvd_allowed :: bool
  pvd_reason :: string
  pvd_matched_roles :: "string list"
  pvd_requires_human_approval :: bool

record role_preview =
  pv_account_id :: string
  pv_account_type :: string
  pv_account_status :: string
  pv_computed_at :: string
  pv_roles :: "role list"
  pv_capabilities :: "string list"
  pv_effective_permissions :: "string list"
  pv_effective_deny :: "string list"
  pv_decision :: "preview_decision option"

definition sorted_set :: "string list \<Rightarrow> string list" where
  "sorted_set xs = sort (remdups xs)"

definition preview_role :: "role \<Rightarrow> role" where
  "preview_role r = (let c = ro_constraints r in
     r\<lparr>ro_permissions := sorted_set (ro_permissions r), ro_deny := sorted_set (ro_deny r),
       ro_constraints := c\<lparr>co_domains := map_option sorted_set (co_domains c),
         co_channels := map_option sorted_set (co_channels c),
         co_resources := map_option sorted_set (co_resources c),
         co_requires_human_approval := sorted_set (co_requires_human_approval c)\<rparr>\<rparr>)"

definition effective_preview ::
  "policy_catalog \<Rightarrow> policy_db \<Rightarrow> string \<Rightarrow> string \<Rightarrow> time \<Rightarrow> action_request option \<Rightarrow> role_preview res" where
  "effective_preview c db ws account_id now query =
     (case principal db account_id of
        None \<Rightarrow> Inl ''ACCOUNT_NOT_FOUND''
      | Some p \<Rightarrow>
        if pr_workspace_uuid p \<noteq> ws then Inl ''ACCOUNT_NOT_FOUND'' else
        bind_res (effective_roles db p now) (\<lambda>roles.
          Inr \<lparr>pv_account_id = account_id, pv_account_type = pr_account_type p,
            pv_account_status = pr_status p, pv_computed_at = py_isoformat now,
            pv_roles = map preview_role roles,
            pv_capabilities = sorted_set (capability_ids db p),
            pv_effective_permissions = sorted_set (concat (map ro_permissions roles)),
            pv_effective_deny = sorted_set (concat (map ro_deny roles)),
            pv_decision = (case query of None \<Rightarrow> None
              | Some q \<Rightarrow> if aq_permission q = [] then None else
                 let d = evaluate (Some (vocabulary c)) roles q;
                     allowed = (pd_allow d \<and> pr_status p = ''ACTIVE'')
                 in Some \<lparr>pvd_permission = aq_permission q, pvd_allowed = allowed,
                      pvd_reason = (if pd_allow d \<and> \<not> allowed then ''PRINCIPAL_INACTIVE'' else pd_reason d),
                      pvd_matched_roles = pd_matched_roles d,
                      pvd_requires_human_approval = pd_requires_human_approval d\<rparr>)\<rparr>))"

definition list_roles :: "policy_db \<Rightarrow> string \<Rightarrow> role_rec list" where
  "list_roles db ws = take 100 (sort_key rr_role_id (filter (\<lambda>r. rr_workspace r = ws) (pb_roles db)))"

definition role_view :: "policy_db \<Rightarrow> string \<Rightarrow> string \<Rightarrow> (role_rec \<times> version_rec list) option" where
  "role_view db ws rid =
     map_option (\<lambda>r. (r, sort_key rv_version (filter (\<lambda>v. rv_role_id v = rid) (pb_versions db))))
       (List.find (\<lambda>r. rr_role_id r = rid \<and> rr_workspace r = ws) (pb_roles db))"

section \<open>What the handlers change\<close>

lemma role_append_cases:
  assumes "role_append E cx cmd t i ty pl w = Inr (w', r)"
  shows "rw_db w' = rw_db w" and "rw_log w' = rw_log w"
  using assms by (auto simp: role_append_def res_simps)

lemma role_audit_cases:
  assumes "role_audit E cx action t i meta w = Inr w'"
  obtains x log' n where "append_audit (re_prims E) (re_jsonb E) (rw_log w) x = Inr (log', n)"
    "w' = w\<lparr>rw_log := log'\<rparr>"
  using assms by (auto simp: role_audit_def res_simps)

lemma append_audit_prefix:
  "append_audit P jsonb lg x = Inr (lg', i) \<Longrightarrow> prefix (al_rows lg) (al_rows lg')"
  by (auto simp: append_audit_def Let_def res_simps)

text \<open>A handler that succeeds writes its rows through the repository and appends to the audit log.\<close>

definition role_effect :: "'s role_env \<Rightarrow> 's role_world \<Rightarrow> 's role_world \<Rightarrow> bool" where
  "role_effect E w w' \<longleftrightarrow> (policy_step (re_prims E) (re_jsonb E))\<^sup>*\<^sup>* (rw_db w) (rw_db w') \<and>
     (rw_log w' = rw_log w \<or> (\<exists>x i. append_audit (re_prims E) (re_jsonb E) (rw_log w) x = Inr (rw_log w', i)))"

lemma role_effect_audit:
  assumes "(policy_step (re_prims E) (re_jsonb E))\<^sup>*\<^sup>* (rw_db w) (rw_db v)" and "rw_log v = rw_log w"
    and "role_audit E cx action t i meta v = Inr w'"
  shows "role_effect E w w'"
proof -
  obtain x lg n where "append_audit (re_prims E) (re_jsonb E) (rw_log v) x = Inr (lg, n)" "w' = v\<lparr>rw_log := lg\<rparr>"
    by (rule role_audit_cases [OF assms(3)])
  then show ?thesis using assms(1,2) by (auto simp: role_effect_def)
qed

lemma create_role_effect:
  assumes "create_role E cx rid name perms deny con w = Inr (w', r)"
  shows "role_effect E w w'"
proof (cases "List.find (\<lambda>r. rr_role_id r = rid) (pb_roles (rw_db w))")
  case (Some row)
  then show ?thesis
    using assms by (auto simp: create_role_def res_simps role_effect_def split: if_splits option.splits)
next
  case None
  then obtain db1 digest w2 ar db3 v h where
    c: "create_role_row (rw_db w) (rc_workspace_id cx) rid (strip name) = Inr db1"
    and a: "role_append E cx (CreateRole rid name perms deny con) ''role'' rid ''ROLE_VERSION_CREATED''
        (version_payload rid 1 digest perms deny con) (w\<lparr>rw_db := db1\<rparr>) = Inr (w2, ar)"
    and v: "commit_role_version (re_prims E) (re_jsonb E) (rw_db w2) rid perms deny con
        (rc_account_uuid cx) (Some (res_event_id ar)) = Inr (db3, v, h)"
    and u: "role_audit E cx ''role.create'' ''role'' rid (version_meta 1 digest) (w2\<lparr>rw_db := db3\<rparr>) = Inr w'"
    using assms by (auto simp: create_role_def res_simps split: if_splits)
  have "(policy_step (re_prims E) (re_jsonb E))\<^sup>*\<^sup>* (rw_db w) db3"
    using policy_step.create [OF c, of "re_prims E" "re_jsonb E"] policy_step.commit [OF v] role_append_cases(1) [OF a]
    by (simp add: converse_rtranclp_into_rtranclp)
  then show ?thesis
    using role_effect_audit [OF _ _ u, of w] role_append_cases(2) [OF a] by simp
qed

lemma commit_version_effect:
  assumes "commit_version E cx rid perms deny con w = Inr (w', r)"
  shows "role_effect E w w'"
proof (cases "role_replay E cx (rw_store w) ''role'' rid ''role:commit'' = Inr None")
  case False
  then show ?thesis
    using assms by (auto simp: commit_version_def res_simps role_effect_def split: if_splits option.splits)
next
  case True
  then obtain version digest w2 ar db3 v h where
    a: "role_append E cx (CommitRoleVersion rid perms deny con) ''role'' rid ''ROLE_VERSION_CREATED''
        (version_payload rid version digest perms deny con) w = Inr (w2, ar)"
    and v: "commit_role_version (re_prims E) (re_jsonb E) (rw_db w2) rid perms deny con
        (rc_account_uuid cx) (Some (res_event_id ar)) = Inr (db3, v, h)"
    and u: "role_audit E cx ''role.commit'' ''role'' rid (version_meta version digest) (w2\<lparr>rw_db := db3\<rparr>) = Inr w'"
    using assms by (auto simp: commit_version_def res_simps Let_def split: if_splits)
  have "(policy_step (re_prims E) (re_jsonb E))\<^sup>*\<^sup>* (rw_db w) db3"
    using policy_step.commit [OF v] role_append_cases(1) [OF a] by simp
  then show ?thesis
    using role_effect_audit [OF _ _ u, of w] role_append_cases(2) [OF a] by simp
qed

lemma assign_role_effect:
  assumes "assign_role E cx acct rid scope until w = Inr (w', r)"
  shows "role_effect E w w'"
proof (cases "role_replay E cx (rw_store w) ''account'' acct ''account:role_assign'' = Inr None")
  case False
  then show ?thesis
    using assms by (auto simp: assign_role_def res_simps role_effect_def split: if_splits option.splits)
next
  case True
  then obtain pl w2 ar u t db3 where
    a: "role_append E cx (AssignRole acct rid scope until) ''account'' acct ''PRINCIPAL_ROLE_ASSIGNED'' pl w = Inr (w2, ar)"
    and v: "assign_role_row (rw_db w2) u rid (rc_account_uuid cx) (rc_now cx) t (re_jsonb E scope)
        (Some (res_event_id ar)) = Inr db3"
    and u: "role_audit E cx ''role.assign'' ''account'' acct [(''role_id'', JStr rid)] (w2\<lparr>rw_db := db3\<rparr>) = Inr w'"
    using assms by (auto simp: assign_role_def res_simps split: if_splits)
  have "(policy_step (re_prims E) (re_jsonb E))\<^sup>*\<^sup>* (rw_db w) db3"
    using policy_step.assign [OF v, of "re_prims E" "re_jsonb E"] role_append_cases(1) [OF a] by simp
  then show ?thesis
    using role_effect_audit [OF _ _ u, of w] role_append_cases(2) [OF a] by simp
qed

lemma revoke_role_effect:
  assumes "revoke_role E cx acct rid reason w = Inr (w', r)"
  shows "role_effect E w w'"
proof (cases "role_replay E cx (rw_store w) ''account'' acct ''account:role_revoke'' = Inr None")
  case False
  then show ?thesis
    using assms by (auto simp: revoke_role_def res_simps role_effect_def split: if_splits option.splits)
next
  case True
  then obtain pl w2 ar u db3 where
    a: "role_append E cx (RevokeRole acct rid reason) ''account'' acct ''PRINCIPAL_ROLE_REVOKED'' pl w = Inr (w2, ar)"
    and v: "db3 = fst (revoke_role_rows (rw_db w2) u rid (rc_now cx) (Some (res_event_id ar)))"
    and u: "role_audit E cx ''role.revoke'' ''account'' acct [(''role_id'', JStr rid)] (w2\<lparr>rw_db := db3\<rparr>) = Inr w'"
    using assms by (auto simp: revoke_role_def res_simps case_prod_unfold Let_def split: if_splits)
  have "(policy_step (re_prims E) (re_jsonb E))\<^sup>*\<^sup>* (rw_db w) db3"
    using policy_step.revoke [OF prod.collapse [symmetric], of "re_prims E" "re_jsonb E"] role_append_cases(1) [OF a] v
    by (metis r_into_rtranclp)
  then show ?thesis
    using role_effect_audit [OF _ _ u, of w] role_append_cases(2) [OF a] by simp
qed

lemma handle_role_effect: "handle_role E cx cmd w = Inr (w', r) \<Longrightarrow> role_effect E w w'"
  using create_role_effect commit_version_effect assign_role_effect revoke_role_effect by (cases cmd) auto


section \<open>Runs of role commands\<close>

fun run_roles :: "'s role_env \<Rightarrow> (role_context \<times> role_command) list \<Rightarrow> 's role_world \<Rightarrow> 's role_world" where
  "run_roles E [] w = w"
| "run_roles E ((cx, cmd) # cs) w = run_roles E cs (fst (run_role E cx cmd w))"

text \<open>The authorizer writes to the same audit log.\<close>

definition env_agrees :: "'s role_env \<Rightarrow> bool" where
  "env_agrees E \<longleftrightarrow> (\<forall>A. re_authorizer E = Some A \<longrightarrow> ae_prims A = re_prims E \<and> ae_jsonb A = re_jsonb E)"

definition admin_authorized :: "'s role_env \<Rightarrow> policy_db \<Rightarrow> role_context \<Rightarrow> role_command \<Rightarrow> bool" where
  "admin_authorized E db cx cmd \<longleftrightarrow>
     (\<exists>A. re_authorizer E = Some A \<and> authorized A db (rc_account_id cx) (admin_request cx cmd))"

definition world_inv :: "'s role_env \<Rightarrow> 's role_world \<Rightarrow> bool" where
  "world_inv E w \<longleftrightarrow> policy_inv (re_prims E) (rw_db w) \<and> audit_inv (re_prims E) (rw_log w)"

lemma run_role_effect:
  assumes inv: "policy_inv (re_prims E) (rw_db w)" and agree: "env_agrees E"
    and run: "run_role E cx cmd w = (w', r)"
  shows "role_effect E w w'" and "\<not> admin_authorized E (rw_db w) cx cmd \<Longrightarrow>
    rw_db w' = rw_db w \<and> rw_store w' = rw_store w"
proof -
  let ?req = "require_permission (re_authorizer E) (rw_db w) (rw_log w) (rc_account_id cx) (admin_request cx cmd)"
  have "role_effect E w w' \<and> (\<not> admin_authorized E (rw_db w) cx cmd \<longrightarrow> rw_db w' = rw_db w \<and> rw_store w' = rw_store w)"
  proof (cases "rc_idempotency_key cx = []")
    case True
    then show ?thesis using run by (simp add: run_role_def role_effect_def)
  next
    case key: False
    obtain lg' ok where req: "?req = (lg', ok)" by (cases ?req)
    show ?thesis
    proof (cases "re_authorizer E")
      case None
      then show ?thesis
        using run key by (auto simp: run_role_def require_permission_def role_effect_def)
    next
      case (Some A)
      obtain b where b: "bus_require A (rw_db w) (rw_log w) (rc_account_id cx) (admin_request cx cmd) = (lg', b)"
          "ok = bind_res b (\<lambda>_. Inr ())"
        using req Some by (auto simp: require_permission_def split: prod.splits)
      note spec = bus_require_spec [OF inv b(1)]
      have same: "ae_prims A = re_prims E" "ae_jsonb A = re_jsonb E" using agree Some by (auto simp: env_agrees_def)
      show ?thesis
      proof (cases b)
        case (Inl e)
        then have "w' = w\<lparr>rw_log := lg'\<rparr>" using run key req b(2) by (simp add: run_role_def)
        then show ?thesis using spec unfolding same by (auto simp: role_effect_def)
      next
        case (Inr a)
        then have "admin_authorized E (rw_db w) cx cmd" using spec Some by (auto simp: admin_authorized_def)
        moreover have "w' = w \<or> (\<exists>x. handle_role E cx cmd w = Inr (w', x))"
          using run key req b(2) Inr by (auto simp: run_role_def split: sum.splits prod.splits)
        moreover have "role_effect E w w" by (simp add: role_effect_def)
        ultimately show ?thesis using handle_role_effect by blast
      qed
    qed
  qed
  then show "role_effect E w w'" and "\<not> admin_authorized E (rw_db w) cx cmd \<Longrightarrow>
      rw_db w' = rw_db w \<and> rw_store w' = rw_store w" by blast+
qed

lemma role_effect_inv:
  assumes "role_effect E w w'" and "world_inv E w" and "jsonb_law (re_jsonb E)"
  shows "world_inv E w' \<and> prefix (pb_versions (rw_db w)) (pb_versions (rw_db w')) \<and>
    prefix (al_rows (rw_log w)) (al_rows (rw_log w'))"
proof -
  have "policy_inv (re_prims E) (rw_db w')" "prefix (pb_versions (rw_db w)) (pb_versions (rw_db w'))"
    using assms policy_steps_inv by (auto simp: role_effect_def world_inv_def)
  moreover have "audit_inv (re_prims E) (rw_log w')" "prefix (al_rows (rw_log w)) (al_rows (rw_log w'))"
    using assms append_audit_inv append_audit_prefix by (auto simp: role_effect_def world_inv_def)
  ultimately show ?thesis by (simp add: world_inv_def)
qed

lemma run_roles_inv:
  assumes "world_inv E w" and "jsonb_law (re_jsonb E)" and "env_agrees E"
  shows "world_inv E (run_roles E cs w) \<and> prefix (pb_versions (rw_db w)) (pb_versions (rw_db (run_roles E cs w))) \<and>
    prefix (al_rows (rw_log w)) (al_rows (rw_log (run_roles E cs w)))"
  using assms
proof (induction E cs w rule: run_roles.induct)
  case (2 E cx cmd cs w)
  let ?w = "fst (run_role E cx cmd w)"
  have "role_effect E w ?w"
    using run_role_effect(1) [of E w cx cmd ?w "snd (run_role E cx cmd w)"] 2 by (simp add: world_inv_def)
  note step = role_effect_inv [OF this 2(2,3)]
  with 2 have "world_inv E (run_roles E cs ?w) \<and>
      prefix (pb_versions (rw_db ?w)) (pb_versions (rw_db (run_roles E cs ?w))) \<and>
      prefix (al_rows (rw_log ?w)) (al_rows (rw_log (run_roles E cs ?w)))" by blast
  then show ?case using step prefix_order.trans by auto
qed simp

lemma run_roles_unauthorized:
  assumes "world_inv E w" and "jsonb_law (re_jsonb E)" and "env_agrees E"
    and "\<forall>(cx, cmd) \<in> set cs. \<not> admin_authorized E (rw_db w) cx cmd"
  shows "rw_db (run_roles E cs w) = rw_db w \<and> rw_store (run_roles E cs w) = rw_store w"
  using assms
proof (induction E cs w rule: run_roles.induct)
  case (2 E cx cmd cs w)
  let ?w = "fst (run_role E cx cmd w)"
  have inv: "policy_inv (re_prims E) (rw_db w)" using 2(2) by (simp add: world_inv_def)
  have run: "run_role E cx cmd w = (?w, snd (run_role E cx cmd w))" by simp
  have same: "rw_db ?w = rw_db w \<and> rw_store ?w = rw_store w"
    using run_role_effect(2) [OF inv 2(4) run] 2(5) by simp
  have "world_inv E ?w"
    using role_effect_inv [OF run_role_effect(1) [OF inv 2(4) run] 2(2,3)] by blast
  then show ?case using 2(1) [OF _ 2(3,4)] 2(5) same by simp
qed simp

section \<open>Properties\<close>

text \<open>
  Role administration keeps its state sound: over any run of role commands by any accounts,
  the role versions stay a gap-free, append-only, correctly hashed history, the audit log only
  grows and its chain and anchors still verify.
\<close>

lemma role_admin_invariant:
  assumes "world_inv E w" and "jsonb_law (re_jsonb E)" and "env_agrees E"
  shows "policy_inv (re_prims E) (rw_db (run_roles E cs w)) \<and>
    prefix (pb_versions (rw_db w)) (pb_versions (rw_db (run_roles E cs w))) \<and>
    prefix (al_rows (rw_log w)) (al_rows (rw_log (run_roles E cs w))) \<and>
    verify_table (re_prims E) AUDIT_CHAIN (al_rows (rw_log (run_roles E cs w))) = Inr [] \<and>
    verify_anchors (re_prims E) AUDIT_CHAIN (al_rows (rw_log (run_roles E cs w)))
      (al_anchors (rw_log (run_roles E cs w))) = Inr []"
  using run_roles_inv [OF assms, of cs] audit_inv_verifies unfolding world_inv_def by blast

definition sample_role_env :: "mem_store role_env" where
  "sample_role_env = \<lparr>re_store = mem_ops toy_prims, re_authorizer = Some sample_authz, re_prims = toy_prims,
     re_jsonb = (\<lambda>p. p), re_catalog = sample_catalog, re_parse_time = (\<lambda>_. None)\<rparr>"

definition sample_role_world :: "mem_store role_world" where
  "sample_role_world = \<lparr>rw_store = empty_store ''t0'', rw_db = assigned_db, rw_log = empty_log\<rparr>"

definition sample_role_context :: role_context where
  "sample_role_context = \<lparr>rc_workspace_id = ''w'', rc_account_id = ''human-a'', rc_account_uuid = ''u1'',
     rc_correlation_id = ''c'', rc_idempotency_key = ''k'', rc_now = 5\<rparr>"

lemma sample_role_world_ok:
  "world_inv sample_role_env sample_role_world" "jsonb_law (re_jsonb sample_role_env)" "env_agrees sample_role_env"
  by (simp_all add: world_inv_def sample_role_env_def sample_role_world_def policy_inv_assigned audit_inv_def
      empty_log_def jsonb_law_def env_agrees_def sample_authz_def)

text \<open>
  C19. No escalation through the role commands: if none of the commands of a run comes from an
  account that the policy, as it stands before the run, lets administer accounts, then after the
  whole run every role, version, assignment and Event is what it was.
\<close>

theorem no_role_escalation:
  assumes "world_inv E w" and "jsonb_law (re_jsonb E)" and "env_agrees E"
    and "\<forall>(cx, cmd) \<in> set cs. \<not> admin_authorized E (rw_db w) cx cmd"
  shows "rw_db (run_roles E cs w) = rw_db w \<and> rw_store (run_roles E cs w) = rw_store w"
  by (rule run_roles_unauthorized [OF assms])

theorem no_role_escalation_witness:
  "let cs = [(sample_role_context, AssignRole ''human-a'' ''role-a'' [] None),
             (sample_role_context, CommitRoleVersion ''role-a'' [''task.read''] [] [])] in
   rw_db (run_roles sample_role_env cs sample_role_world) = assigned_db \<and>
   rw_store (run_roles sample_role_env cs sample_role_world) = empty_store ''t0''"
proof -
  let ?cs = "[(sample_role_context, AssignRole ''human-a'' ''role-a'' [] None),
             (sample_role_context, CommitRoleVersion ''role-a'' [''task.read''] [] [])]"
  have "\<forall>(cx, cmd) \<in> set ?cs. \<not> admin_authorized sample_role_env (rw_db sample_role_world) cx cmd"
    by (simp add: admin_authorized_def authorized_def admin_request_def sample_role_env_def sample_authz_def
        sample_catalog_def vocabulary_def)
  from no_role_escalation [OF sample_role_world_ok this] show ?thesis
    by (simp add: sample_role_world_def)
qed

text \<open>
  The preview of a decision never hides a denial of the policy engine: what the authorizer
  allows, the preview of the same request at the same time reports as allowed.
\<close>

lemma preview_covers_authorize:
  assumes inv: "policy_inv P db" and az: "authorize E db lg acct q = Inr (lg', a)" and ok: "auth_allowed a"
    and perm: "az_permission q \<noteq> []"
    and pv: "effective_preview (ae_catalog E) db ws acct (ae_now E) (Some (action_of q)) = Inr pv"
  shows "\<exists>d. pv_decision pv = Some d \<and> pvd_allowed d \<and> pvd_reason d = ''ALLOW'' \<and>
    pvd_matched_roles d = auth_matched_roles a"
  using az
proof (cases rule: authorize_cases)
  case (granted cls p roles d)
  have "pd_reason d = ''ALLOW''"
    using granted(6) by (auto simp: granted(5) evaluate_def policy_deny_def Let_def split: if_splits option.splits)
  moreover have "auth_matched_roles a = pd_matched_roles d"
    using granted(10) by (auto simp: grant_with_def res_simps Let_def)
  moreover have "aq_permission (action_of q) \<noteq> []" using perm by (simp add: action_of_def)
  ultimately show ?thesis
    using pv granted by (auto simp: effective_preview_def Let_def split: if_splits)
qed (use ok deny_with_denies(1) in blast)+

text \<open>
  The preview promises too much: for a channel the account is not a member of, the preview
  reports the request as allowed and the authorizer denies it. The engine decides both, but the
  capability, membership and risk checks follow only in the authorizer.
\<close>

lemma preview_overpromises:
  "\<exists>db lg a pv d. policy_inv toy_prims db \<and>
     effective_preview sample_catalog db ''w'' ''human-a'' 5 (Some (action_of (read_request (Some ''chan-a'')))) = Inr pv \<and>
     pv_decision pv = Some d \<and> pvd_allowed d \<and>
     authorize sample_authz db empty_log ''human-a'' (read_request (Some ''chan-a'')) = Inr (lg, a) \<and> \<not> auth_allowed a"
proof -
  obtain db where inv: "policy_inv toy_prims db" and w: "principal db ''human-a'' = Some sample_principal"
      "effective_roles db sample_principal 5 = Inr [sample_read_role]" "\<not> is_channel_member db sample_principal ''chan-a''"
    by (rule read_world)
  obtain lg a where a: "authorize sample_authz db empty_log ''human-a'' (read_request (Some ''chan-a'')) = Inr (lg, a)"
    using read_world_decision(2) [OF w(1,2)] by blast
  have den: "\<not> auth_allowed a"
    using authorize_decides [OF inv a] read_world_decision(1) [OF w(1,2), of "Some ''chan-a''"] w(3) by auto
  let ?q = "action_of (read_request (Some ''chan-a''))"
  have "allowed_by (Some (vocabulary sample_catalog)) [sample_read_role] ?q"
    unfolding allowed_by_vocabulary using sample_granting [of "Some ''chan-a''"]
    by (simp add: sample_catalog_def vocabulary_def action_of_def read_request_def sample_read_role_def matches_any_def)
  then have "pd_allow (evaluate (Some (vocabulary sample_catalog)) [sample_read_role] ?q)"
    by (simp add: evaluate_allow_iff)
  moreover have "aq_permission ?q \<noteq> []" by (simp add: action_of_def read_request_def)
  ultimately have "\<exists>pv d. effective_preview sample_catalog db ''w'' ''human-a'' 5 (Some ?q) = Inr pv \<and>
      pv_decision pv = Some d \<and> pvd_allowed d"
    using w by (simp add: effective_preview_def sample_principal_def Let_def)
  then show ?thesis using inv a den by blast
qed

text \<open>
  Constraints are stored without checking the type of their values: a version whose
  \<^verbatim>\<open>domains\<close> is a number passes the validation of the role commands, and from its commit on
  the effective roles of every holder of the (active) role cannot be read - every authorization of
  such an account raises \<^verbatim>\<open>TypeError\<close> instead of deciding.
\<close>

lemma untyped_constraints_block_holders:
  assumes c: "commit_role_version P jsonb db rid perms deny con acct ev = Inr (db', v, h)"
    and con: "con = [(''domains'', JInt n)]" "jsonb con = con"
    and inv: "policy_inv P db"
    and r: "r \<in> set (pb_roles db)" "rr_role_id r = rid" "rr_status r = ''active''"
    and a: "a \<in> set (pb_assignments db)" "ra_role_id a = rid" "assignment_effective (pr_account_uuid p) (ae_now E) a"
    and p: "principal db' holder = Some p" "pr_status p = ''ACTIVE''"
    and cls: "classify (ae_catalog E) q = Inr cls"
  shows "validate_constraints con = Inr () \<and> authorize E db' lg holder q = Inl ''TypeError''"
proof -
  have bad: "role_from_version rid v (sort perms) (sort deny) (jsonb con) ''active'' = Inl ''TypeError''"
    unfolding con(2) by (simp add: con(1) role_from_version_def optional_set_def)
  have "effective_roles db' p (ae_now E) \<noteq> Inr roles" for roles
  proof
    assume "effective_roles db' p (ae_now E) = Inr roles"
    from committed_version_reads [OF inv c r a this]
    show False by (auto simp: bad)
  qed
  then have "effective_roles db' p (ae_now E) = Inl ''TypeError''"
    using effective_roles_error by (cases "effective_roles db' p (ae_now E)") blast+
  then show ?thesis
    using p cls by (simp add: authorize_def con validate_constraints_def)
qed

lemma untyped_constraints_block_holders_example:
  "\<exists>db h. commit_role_version toy_prims (\<lambda>p. p) assigned_db ''role-a'' [''task.read''] [] [(''domains'', JInt 5)] ''u1'' None =
       Inr (db, 1, h) \<and>
     authorize sample_authz db empty_log ''human-a'' (read_request None) = Inl ''TypeError''"
proof -
  obtain db h where c: "commit_role_version toy_prims (\<lambda>p. p) assigned_db ''role-a'' [''task.read''] []
      [(''domains'', JInt 5)] ''u1'' None = Inr (db, 1, h)"
    using assigned_db_commit [of "[(''domains'', JInt 5)]"] by auto
  have p: "principal db ''human-a'' = Some sample_principal"
    by (rule commit_role_version_cases [OF c])
      (simp add: principal_def assigned_db_def sample_db_def sample_account_def sample_principal_def)
  have r: "sample_role_rec \<in> set (pb_roles assigned_db)" "rr_role_id sample_role_rec = ''role-a''"
      "rr_status sample_role_rec = ''active''"
    by (simp_all add: assigned_db_def sample_role_rec_def)
  have a: "sample_assignment \<in> set (pb_assignments assigned_db)" "ra_role_id sample_assignment = ''role-a''"
    by (simp_all add: assigned_db_def sample_assignment_def)
  have eff: "assignment_effective (pr_account_uuid sample_principal) (ae_now sample_authz) sample_assignment"
    by (rule sample_assignment_effective) (simp add: sample_authz_def)
  have "pr_status sample_principal = ''ACTIVE''" by (simp add: sample_principal_def)
  from untyped_constraints_block_holders [OF c refl refl policy_inv_assigned r a eff p this sample_classify]
  show ?thesis using c by blast
qed

end
