(* ===== verification/Independence.thy ===== *)
theory Independence
  imports Events "HOL-Library.Product_Lexorder"
begin

text \<open>
  Independence of implementer and verifier: \<^verbatim>\<open>src/server/verification/independence.py\<close>, and the alias
  graphs and identity snapshots of \<^verbatim>\<open>src/server/verification/runs.py\<close>. A graph is a dict from
  accounts to the accounts they are an alias of, as an association list in insertion order.
\<close>

section \<open>Alias graphs\<close>

type_synonym alias_dict = "(string \<times> string) list"

text \<open>A dict comprehension over rows: a later row replaces the value of an earlier one.\<close>

definition dict_of :: "('k \<times> 'v) list \<Rightarrow> ('k \<times> 'v) list" where
  "dict_of rows = foldl (\<lambda>d (k, v). AList.update k v d) [] rows"

text \<open>
  The loop of \<^verbatim>\<open>effective_principal\<close>, then its result. \<open>seen\<close> grows by an account of the graph in
  every round, so the loop ends.
\<close>

lemma unseen_card:
  assumes "map_of graph c = Some t" and "c \<notin> set seen"
  shows "card (fst ` set graph - insert c (set seen)) < card (fst ` set graph - set seen)"
proof (rule psubset_card_mono)
  have "c \<in> fst ` set graph" using assms(1) by (force dest: map_of_SomeD)
  with assms(2) show "fst ` set graph - insert c (set seen) \<subset> fst ` set graph - set seen" by blast
qed simp

function follow_aliases :: "alias_dict \<Rightarrow> string list \<Rightarrow> string \<Rightarrow> string list \<times> string" where
  "follow_aliases graph seen current =
     (case map_of graph current of
        None \<Rightarrow> (seen, current)
      | Some target \<Rightarrow>
          if current \<in> set seen then (seen, current)
          else follow_aliases graph (seen @ [current]) target)"
  by pat_completeness auto
termination
  by (relation "measure (\<lambda>(graph, seen, _). card (fst ` set graph - set seen))") (auto intro: unseen_card)

declare follow_aliases.simps [simp del]

definition effective_principal :: "string \<Rightarrow> alias_dict \<Rightarrow> string" where
  "effective_principal account_id graph =
     (case follow_aliases graph [] account_id of (seen, current) \<Rightarrow>
        if current \<in> set seen then min_list seen else current)"

section \<open>The check\<close>

record identity =
  id_account_id :: string
  id_credential_fingerprint :: string
  id_agent_id :: "string option"

definition check_independence ::
  "identity \<Rightarrow> identity \<Rightarrow> alias_dict \<Rightarrow> string list option \<Rightarrow> string option \<Rightarrow> unit res" where
  "check_independence implementer verifier graph verifier_permissions commit_author =
     (if id_account_id implementer = id_account_id verifier then Inl ''VERIFIER_SAME_ACCOUNT''
      else if truthy (id_agent_id implementer) \<and> truthy (id_agent_id verifier) \<and>
        id_agent_id implementer = id_agent_id verifier then Inl ''VERIFIER_SAME_AGENT''
      else if id_credential_fingerprint implementer = id_credential_fingerprint verifier
      then Inl ''VERIFIER_SAME_CREDENTIAL''
      else if effective_principal (id_account_id implementer) graph =
        effective_principal (id_account_id verifier) graph
      then Inl ''VERIFIER_ALIAS_OF_IMPLEMENTER''
      else if commit_author = Some (id_account_id verifier) then Inl ''VERIFIER_IS_COMMIT_AUTHOR''
      else if verifier_permissions \<noteq> None \<and> ''verification.submit'' \<notin> set (the verifier_permissions)
      then Inl ''VERIFIER_NOT_ELIGIBLE''
      else Inr ())"

section \<open>Snapshots\<close>

text \<open>The alias rows of a workspace: those of its accounts, a pair of account and alias target each.\<close>

definition alias_graph :: "(string \<times> string) list \<Rightarrow> (string \<times> string) list \<Rightarrow> string \<Rightarrow> alias_dict" where
  "alias_graph accounts aliases workspace =
     dict_of (filter (\<lambda>(a, _). (a, workspace) \<in> set accounts) aliases)"

text \<open>The edges of \<^verbatim>\<open>relevant_alias_edges\<close> for one account: its chain, then the edges into it.\<close>

function chain_edges :: "alias_dict \<Rightarrow> string list \<Rightarrow> string \<Rightarrow> (string \<times> string) list" where
  "chain_edges graph seen cur =
     (case map_of graph cur of
        None \<Rightarrow> []
      | Some target \<Rightarrow>
          if cur \<in> set seen then [] else (cur, target) # chain_edges graph (cur # seen) target)"
  by pat_completeness auto
termination
  by (relation "measure (\<lambda>(graph, seen, _). card (fst ` set graph - set seen))")
    (auto intro: unseen_card simp flip: Diff_insert)

declare chain_edges.simps [simp del]

definition relevant_alias_edges :: "alias_dict \<Rightarrow> string list \<Rightarrow> (string \<times> string) list" where
  "relevant_alias_edges graph accounts =
     sort (remdups (concat (map (\<lambda>acct. chain_edges graph [] acct @ filter (\<lambda>(_, b). b = acct) graph) accounts)))"

definition build_snapshot ::
  "identity \<Rightarrow> identity \<Rightarrow> string \<Rightarrow> string \<Rightarrow> string \<Rightarrow> string \<Rightarrow> (string \<times> string) list \<Rightarrow> pydict" where
  "build_snapshot implementer verifier identity_graph_version effective_policy_hash criteria_version
     target_commit alias_edges =
     [(''implementer_account_id'', JStr (id_account_id implementer)),
      (''verifier_account_id'', JStr (id_account_id verifier)),
      (''implementer_agent_id'', jopt (id_agent_id implementer)),
      (''verifier_agent_id'', jopt (id_agent_id verifier)),
      (''implementer_credential_fingerprint'', JStr (id_credential_fingerprint implementer)),
      (''verifier_credential_fingerprint'', JStr (id_credential_fingerprint verifier)),
      (''identity_graph_version'', JStr identity_graph_version),
      (''alias_edges'', JArr (map (\<lambda>(a, b). JArr [JStr a, JStr b]) alias_edges)),
      (''effective_policy_hash'', JStr effective_policy_hash),
      (''criteria_version'', JStr criteria_version),
      (''target_commit'', JStr target_commit)]"

definition snapshot_hash :: "prims \<Rightarrow> pydict \<Rightarrow> string res" where
  "snapshot_hash P snapshot = bind_res (canonical_bytes (JObj snapshot)) (\<lambda>b. Inr (sha256_hex P b))"

text \<open>The stored columns hold strings; an edge that is no pair of strings fails to unpack.\<close>

fun edge_of :: "json \<Rightarrow> (string \<times> string) res" where
  "edge_of (JArr [JStr a, JStr b]) = Inr (a, b)"
| "edge_of _ = Inl ''ValueError''"

definition snapshot_edges :: "pydict \<Rightarrow> (string \<times> string) list res" where
  "snapshot_edges snapshot = (case map_of snapshot ''alias_edges'' of
      None \<Rightarrow> Inr []
    | Some (JArr es) \<Rightarrow> sequence_res (map edge_of es)
    | Some _ \<Rightarrow> Inl ''TypeError'')"

definition item_str :: "pydict \<Rightarrow> string \<Rightarrow> string res" where
  "item_str d k = (case get_str d k of None \<Rightarrow> Inl ''KeyError'' | Some s \<Rightarrow> Inr s)"

definition independence_from_snapshot :: "pydict \<Rightarrow> unit res" where
  "independence_from_snapshot snapshot =
     bind_res (snapshot_edges snapshot) (\<lambda>edges.
     bind_res (item_str snapshot ''implementer_account_id'') (\<lambda>ia.
     bind_res (item_str snapshot ''implementer_credential_fingerprint'') (\<lambda>ifp.
     bind_res (item_str snapshot ''verifier_account_id'') (\<lambda>va.
     bind_res (item_str snapshot ''verifier_credential_fingerprint'') (\<lambda>vfp.
       check_independence
         \<lparr>id_account_id = ia, id_credential_fingerprint = ifp,
          id_agent_id = get_str snapshot ''implementer_agent_id''\<rparr>
         \<lparr>id_account_id = va, id_credential_fingerprint = vfp,
          id_agent_id = get_str snapshot ''verifier_agent_id''\<rparr>
         (dict_of edges) None None)))))"

section \<open>Facts\<close>

text \<open>The accounts an account leads to.\<close>

definition alias_edge :: "alias_dict \<Rightarrow> (string \<times> string) set" where
  "alias_edge graph = {(a, b). map_of graph a = Some b}"

definition alias_reach :: "alias_dict \<Rightarrow> string \<Rightarrow> string set" where
  "alias_reach graph a = {x. (a, x) \<in> (alias_edge graph)\<^sup>*}"

lemma alias_reach_refl [simp]: "a \<in> alias_reach graph a"
  by (simp add: alias_reach_def)

lemma alias_reach_step:
  "map_of graph a = Some b \<Longrightarrow> alias_reach graph a = insert a (alias_reach graph b)"
  by (auto simp: alias_reach_def alias_edge_def elim: converse_rtranclE intro: converse_rtrancl_into_rtrancl)

lemma alias_reach_end: "map_of graph a = None \<Longrightarrow> alias_reach graph a = {a}"
  by (auto simp: alias_reach_def alias_edge_def elim: converse_rtranclE)

definition closed_path :: "alias_dict \<Rightarrow> string list \<Rightarrow> string \<Rightarrow> bool" where
  "closed_path graph seen current \<longleftrightarrow>
     (\<forall>x \<in> set seen. \<exists>y. map_of graph x = Some y \<and> (y \<in> set seen \<or> y = current))"

lemma closed_path_reach:
  assumes "closed_path graph seen c" and "c \<in> set seen"
  shows "alias_reach graph c \<subseteq> set seen"
proof
  fix x assume "x \<in> alias_reach graph c"
  then have "(c, x) \<in> (alias_edge graph)\<^sup>*" by (simp add: alias_reach_def)
  then show "x \<in> set seen"
    by (induction rule: rtrancl_induct) (use assms in \<open>force simp: closed_path_def alias_edge_def\<close>)+
qed

lemma follow_aliases_result:
  assumes "follow_aliases graph seen c = (seen', c')" and "closed_path graph seen c"
  shows "closed_path graph seen' c' \<and> (c' \<in> set seen' \<or> map_of graph c' = None) \<and>
    set seen' \<union> alias_reach graph c' = set seen \<union> alias_reach graph c"
  using assms
proof (induction graph seen c rule: follow_aliases.induct)
  case (1 graph seen c)
  show ?case
  proof (cases "\<exists>t. map_of graph c = Some t \<and> c \<notin> set seen")
    case True
    then obtain t where t: "map_of graph c = Some t" "c \<notin> set seen" by blast
    have "closed_path graph (seen @ [c]) t"
      using "1.prems"(2) t by (auto simp: closed_path_def)
    moreover have "follow_aliases graph (seen @ [c]) t = (seen', c')"
      using "1.prems"(1) t by (simp add: follow_aliases.simps [of graph seen c])
    ultimately show ?thesis
      using "1.IH" [OF t] alias_reach_step [OF t(1)] by auto
  next
    case False
    then have "seen' = seen \<and> c' = c"
      using "1.prems"(1) by (auto simp: follow_aliases.simps [of graph seen c] split: option.splits if_splits)
    then show ?thesis using False "1.prems"(2) by auto
  qed
qed

lemma effective_principal_cases:
  obtains (root) "map_of graph (effective_principal a graph) = None"
      "effective_principal a graph \<in> alias_reach graph a"
      "\<forall>r \<in> alias_reach graph a. map_of graph r = None \<longrightarrow> r = effective_principal a graph"
    | (cycle) "\<forall>r \<in> alias_reach graph a. map_of graph r \<noteq> None"
      "effective_principal a graph = Min (alias_reach graph a)"
proof -
  obtain seen c where f: "follow_aliases graph [] a = (seen, c)" by fastforce
  have r: "closed_path graph seen c" "c \<in> set seen \<or> map_of graph c = None"
    "set seen \<union> alias_reach graph c = alias_reach graph a"
    using follow_aliases_result [OF f] by (simp_all add: closed_path_def)
  have no_end: "\<forall>x \<in> set seen. map_of graph x \<noteq> None" using r(1) by (auto simp: closed_path_def)
  show thesis
  proof (cases "c \<in> set seen")
    case True
    then have s: "set seen = alias_reach graph a" using closed_path_reach [OF r(1)] r(3) by auto
    then have "effective_principal a graph = Min (alias_reach graph a)"
      using f True min_list_Min [of seen] by (cases seen) (auto simp: effective_principal_def)
    with s no_end cycle show thesis by auto
  next
    case False
    then have e: "effective_principal a graph = c" using f by (simp add: effective_principal_def)
    have n: "map_of graph c = None" using False r(2) by blast
    then have "alias_reach graph a = insert c (set seen)" using r(3) alias_reach_end [OF n] by auto
    then show thesis using root e n no_end by auto
  qed
qed

text \<open>
  C26. The loop of effective_principal ends, and its result depends on the accounts that the alias
  edges lead to only: the account without an alias at the end of the chain, if there is one, and
  the least of them all if the chain runs into a cycle. So an account and the account it is an
  alias of have the same principal, unless the first one leads into a cycle that it is not on.
\<close>

theorem effective_principal_spec:
  "(\<forall>r \<in> alias_reach graph a. map_of graph r = None \<longrightarrow> effective_principal a graph = r) \<and>
   ((\<forall>r \<in> alias_reach graph a. map_of graph r \<noteq> None) \<longrightarrow>
      effective_principal a graph = Min (alias_reach graph a)) \<and>
   (\<forall>b. map_of graph a = Some b \<longrightarrow>
      (a \<in> alias_reach graph b \<or> (\<exists>r \<in> alias_reach graph b. map_of graph r = None)) \<longrightarrow>
      effective_principal a graph = effective_principal b graph)"
proof -
  have one: "effective_principal a graph = r" if "r \<in> alias_reach graph a" "map_of graph r = None" for a r
  proof (rule effective_principal_cases [of graph a])
    assume "\<forall>r \<in> alias_reach graph a. map_of graph r = None \<longrightarrow> r = effective_principal a graph"
    then show ?thesis using that by metis
  next
    assume "\<forall>r \<in> alias_reach graph a. map_of graph r \<noteq> None"
    then show ?thesis using that by metis
  qed
  have two: "effective_principal a graph = Min (alias_reach graph a)"
    if "\<forall>r \<in> alias_reach graph a. map_of graph r \<noteq> None" for a
  proof (rule effective_principal_cases [of graph a])
    assume "map_of graph (effective_principal a graph) = None" "effective_principal a graph \<in> alias_reach graph a"
    then show ?thesis using that by metis
  qed
  have three: "effective_principal a graph = effective_principal b graph"
    if b: "map_of graph a = Some b"
      and "a \<in> alias_reach graph b \<or> (\<exists>r \<in> alias_reach graph b. map_of graph r = None)" for b
  proof (cases "\<exists>r \<in> alias_reach graph b. map_of graph r = None")
    case True
    then obtain r where "r \<in> alias_reach graph b" "map_of graph r = None" by blast
    then show ?thesis using one [of r a] one [of r b] alias_reach_step [OF b] by simp
  next
    case False
    then have "alias_reach graph a = alias_reach graph b"
      using that(2) alias_reach_step [OF b] by auto
    then show ?thesis using False two [of a] two [of b] by auto
  qed
  show ?thesis using one [of _ a] two [of a] three by (intro conjI ballI allI impI) simp_all
qed

text \<open>An account that leads into a cycle without being on it can have a principal of its own.\<close>

lemma alias_cycle_splits_principals:
  "map_of [(''a'', ''b''), (''b'', ''c''), (''c'', ''b'')] ''a'' = Some ''b'' \<and>
   effective_principal ''a'' [(''a'', ''b''), (''b'', ''c''), (''c'', ''b'')] \<noteq>
   effective_principal ''b'' [(''a'', ''b''), (''b'', ''c''), (''c'', ''b'')]"
  by (simp add: effective_principal_def follow_aliases.simps)

text \<open>Witness: a chain of two aliases ends at its root for each of its accounts.\<close>

theorem effective_principal_spec_witness:
  "effective_principal ''a'' [(''a'', ''b''), (''b'', ''c'')] = ''c'' \<and>
   effective_principal ''a'' [(''a'', ''b''), (''b'', ''c'')] = effective_principal ''b'' [(''a'', ''b''), (''b'', ''c'')]"
proof -
  let ?g = "[(''a'', ''b''), (''b'', ''c'')]"
  have "''c'' \<in> alias_reach ?g ''b''" "''c'' \<in> alias_reach ?g ''a''"
    by (simp_all add: alias_reach_step alias_reach_end)
  moreover have "map_of ?g ''c'' = None" "map_of ?g ''a'' = Some ''b''" by simp_all
  ultimately show ?thesis using effective_principal_spec [of ?g "''a''"] by blast
qed

subsection \<open>Snapshots keep what the check reads\<close>

lemma map_of_dict_of: "map_of (dict_of rows) = map_of (rev rows)"
proof -
  have "map_of (foldl (\<lambda>d (k, v). AList.update k v d) d rows) = map_of d ++ map_of (rev rows)" for d
    by (induction rows arbitrary: d) (auto simp: update_conv' map_add_upd_left split: prod.splits)
  from this [of "[]"] show ?thesis by (simp add: dict_of_def)
qed

lemma distinct_dict_of: "distinct (map fst (dict_of rows))"
proof -
  have "distinct (map fst d) \<Longrightarrow> distinct (map fst (foldl (\<lambda>d (k, v). AList.update k v d) d rows))" for d
    by (induction rows arbitrary: d) (auto simp: distinct_update)
  from this [of "[]"] show ?thesis by (simp add: dict_of_def)
qed

lemma chain_edges_sound: "(x, y) \<in> set (chain_edges graph seen c) \<Longrightarrow> map_of graph x = Some y"
proof (induction graph seen c rule: chain_edges.induct)
  case (1 graph seen c)
  from "1.prems" obtain t where t: "map_of graph c = Some t" "c \<notin> set seen"
    "(x, y) = (c, t) \<or> (x, y) \<in> set (chain_edges graph (c # seen) t)"
    by (cases "map_of graph c") (auto simp: chain_edges.simps [of graph seen c] split: if_splits)
  then show ?case using "1.IH" [OF t(1,2)] by auto
qed

lemma chain_edges_complete:
  assumes "x \<in> alias_reach graph c" and "map_of graph x = Some y" and "closed_path graph seen c"
  shows "(x, y) \<in> set (chain_edges graph seen c) \<or> x \<in> set seen"
  using assms
proof (induction graph seen c rule: chain_edges.induct)
  case (1 graph seen c)
  show ?case
  proof (cases "c \<in> set seen")
    case True
    then show ?thesis using closed_path_reach [OF "1.prems"(3)] "1.prems"(1) by blast
  next
    case False
    show ?thesis
    proof (cases "map_of graph c")
      case None
      then show ?thesis using "1.prems"(1,2) by (simp add: alias_reach_end)
    next
      case (Some t)
      have "closed_path graph (c # seen) t"
        using "1.prems"(3) Some by (auto simp: closed_path_def)
      then show ?thesis
        using "1.IH" [OF Some False _ "1.prems"(2)] "1.prems"(1,2) alias_reach_step [OF Some] Some False
        by (auto simp: chain_edges.simps [of graph seen c])
    qed
  qed
qed

lemma follow_aliases_cong:
  assumes "\<And>x. x \<in> alias_reach graph c \<Longrightarrow> map_of graph' x = map_of graph x"
  shows "follow_aliases graph' seen c = follow_aliases graph seen c"
  using assms
proof (induction graph seen c rule: follow_aliases.induct)
  case (1 graph seen c)
  have c: "map_of graph' c = map_of graph c" using "1.prems" [of c] by simp
  show ?case
  proof (cases "\<exists>t. map_of graph c = Some t \<and> c \<notin> set seen")
    case True
    then obtain t where t: "map_of graph c = Some t" "c \<notin> set seen" by blast
    have "follow_aliases graph' (seen @ [c]) t = follow_aliases graph (seen @ [c]) t"
      using "1.IH" [OF t] "1.prems" alias_reach_step [OF t(1)] by blast
    then show ?thesis
      using t c by (simp add: follow_aliases.simps [of graph seen c] follow_aliases.simps [of graph' seen c])
  next
    case False
    then show ?thesis
      using c by (auto simp: follow_aliases.simps [of graph seen c] follow_aliases.simps [of graph' seen c]
          split: option.splits)
  qed
qed

lemma relevant_edges_keep_principal:
  assumes "distinct (map fst graph)" and "acct \<in> set accounts"
  shows "effective_principal acct (dict_of (relevant_alias_edges graph accounts)) = effective_principal acct graph"
proof -
  let ?es = "relevant_alias_edges graph accounts"
  have sub: "map_of graph x = Some y" if "(x, y) \<in> set ?es" for x y
    using that assms(1) by (auto simp: relevant_alias_edges_def dest: chain_edges_sound)
  have got: "(x, y) \<in> set ?es" if "map_of (rev ?es) x = Some y" for x y
    using map_of_SomeD [OF that] by simp
  have "map_of (dict_of ?es) x = map_of graph x" if x: "x \<in> alias_reach graph acct" for x
  proof (cases "map_of graph x")
    case None
    then have "map_of (rev ?es) x = None" by (metis sub got not_None_eq)
    then show ?thesis using None by (simp add: map_of_dict_of)
  next
    case (Some y)
    then have "(x, y) \<in> set (chain_edges graph [] acct)"
      using chain_edges_complete [OF x Some, of "[]"] by (simp add: closed_path_def)
    then have "(x, y) \<in> set ?es" using assms(2) by (auto simp: relevant_alias_edges_def)
    then obtain z where z: "map_of (rev ?es) x = Some z"
      by (metis image_eqI fst_conv map_of_eq_None_iff not_None_eq set_rev)
    then have "z = y" using sub [OF got [OF z]] Some by simp
    then show ?thesis using z Some by (simp add: map_of_dict_of)
  qed
  then have "follow_aliases (dict_of ?es) [] acct = follow_aliases graph [] acct"
    by (rule follow_aliases_cong)
  then show ?thesis by (simp add: effective_principal_def)
qed

lemma sequence_edges: "sequence_res (map edge_of (map (\<lambda>(a, b). JArr [JStr a, JStr b]) es)) = Inr es"
  by (induction es) (auto simp: res_simps)

lemma snapshot_columns [simp]:
  "snapshot_edges (build_snapshot i v gv ph cv tc es) = Inr es"
  "item_str (build_snapshot i v gv ph cv tc es) ''implementer_account_id'' = Inr (id_account_id i)"
  "item_str (build_snapshot i v gv ph cv tc es) ''verifier_account_id'' = Inr (id_account_id v)"
  "item_str (build_snapshot i v gv ph cv tc es) ''implementer_credential_fingerprint'' = Inr (id_credential_fingerprint i)"
  "item_str (build_snapshot i v gv ph cv tc es) ''verifier_credential_fingerprint'' = Inr (id_credential_fingerprint v)"
  "get_str (build_snapshot i v gv ph cv tc es) ''implementer_agent_id'' = id_agent_id i"
  "get_str (build_snapshot i v gv ph cv tc es) ''verifier_agent_id'' = id_agent_id v"
  using sequence_edges [of es]
  by (auto simp: build_snapshot_def snapshot_edges_def item_str_def get_str_def jopt_def split: option.splits)

text \<open>
  C27. The independence decision is reproducible from the snapshot alone: re-evaluating a snapshot
  built for two identities with their relevant alias edges gives the result, acceptance or the same
  error code, that check_independence gives on the alias graph of the whole workspace.
\<close>

theorem snapshot_reproduces_independence:
  "independence_from_snapshot (build_snapshot implementer verifier gv ph cv tc
     (relevant_alias_edges (alias_graph accounts aliases ws) [id_account_id implementer, id_account_id verifier])) =
   check_independence implementer verifier (alias_graph accounts aliases ws) None None"
  by (simp add: independence_from_snapshot_def check_independence_def relevant_edges_keep_principal
      distinct_dict_of alias_graph_def)

text \<open>
  The table keys an alias by both accounts, so an account may have several rows; the dict keeps the
  last one, and an alias of the implementer passes the check once another row follows.
\<close>

lemma second_alias_hides_first:
  fixes i v :: identity
  assumes "i = \<lparr>id_account_id = ''i'', id_credential_fingerprint = ''f'', id_agent_id = None\<rparr>"
    and "v = \<lparr>id_account_id = ''v'', id_credential_fingerprint = ''g'', id_agent_id = None\<rparr>"
    and "accounts = [(''i'', ''ws''), (''v'', ''ws''), (''x'', ''ws'')]"
  shows "check_independence i v (alias_graph accounts [(''v'', ''i'')] ''ws'') None None =
      Inl ''VERIFIER_ALIAS_OF_IMPLEMENTER''"
    and "check_independence i v (alias_graph accounts [(''v'', ''i''), (''v'', ''x'')] ''ws'') None None = Inr ()"
  by (simp_all add: assms check_independence_def alias_graph_def dict_of_def effective_principal_def
      follow_aliases.simps)

end
