(* ===== verification/Approvals.thy ===== *)
theory Approvals
  imports Authorization Task_Runs Independence
begin

text \<open>
  Approvals: \<^verbatim>\<open>src/server/approvals/model.py\<close>, \<^verbatim>\<open>eligibility.py\<close> and \<^verbatim>\<open>service.py\<close>. The record
  \<open>approval_grant\<close> is a row of \<^verbatim>\<open>approval_grants\<close> and the dataclass \<^verbatim>\<open>Grant\<close> read from it; the ledgers of
  decisions and consumptions are lists in insertion order. An \<open>approval_world\<close> holds these tables,
  the projection, the Event store and what the services read of the rest of the database. A service
  that raises is rolled back by its caller, so \<open>Inl\<close> carries no world; only the audit rows of denied
  decisions stay, which is why \<open>decide_approval\<close> returns the audit log beside its outcome.
\<close>

section \<open>States and transitions\<close>

datatype approval_status =
    PENDING | APPROVED | PARTIALLY_CONSUMED | CONSUMED | REJECTED | CANCELLED | EXPIRED | REVOKED

fun approval_status_value :: "approval_status \<Rightarrow> string" where
  "approval_status_value PENDING = ''PENDING''"
| "approval_status_value APPROVED = ''APPROVED''"
| "approval_status_value PARTIALLY_CONSUMED = ''PARTIALLY_CONSUMED''"
| "approval_status_value CONSUMED = ''CONSUMED''"
| "approval_status_value REJECTED = ''REJECTED''"
| "approval_status_value CANCELLED = ''CANCELLED''"
| "approval_status_value EXPIRED = ''EXPIRED''"
| "approval_status_value REVOKED = ''REVOKED''"

definition APPROVAL_TERMINAL :: "approval_status list" where
  "APPROVAL_TERMINAL = [CONSUMED, REJECTED, CANCELLED, EXPIRED, REVOKED]"

definition CONSUMABLE :: "approval_status list" where
  "CONSUMABLE = [APPROVED, PARTIALLY_CONSUMED]"

definition APPROVAL_TRANSITIONS :: "((approval_status \<times> string) \<times> approval_status) list" where
  "APPROVAL_TRANSITIONS =
    [((PENDING, ''APPROVAL_GRANTED''), APPROVED),
     ((PENDING, ''APPROVAL_REJECTED''), REJECTED),
     ((PENDING, ''APPROVAL_CANCELLED''), CANCELLED),
     ((PENDING, ''APPROVAL_EXPIRED''), EXPIRED),
     ((PENDING, ''APPROVAL_REVOKED''), REVOKED),
     ((APPROVED, ''APPROVAL_CONSUMED''), PARTIALLY_CONSUMED),
     ((APPROVED, ''APPROVAL_CANCELLED''), CANCELLED),
     ((APPROVED, ''APPROVAL_EXPIRED''), EXPIRED),
     ((APPROVED, ''APPROVAL_REVOKED''), REVOKED),
     ((PARTIALLY_CONSUMED, ''APPROVAL_CONSUMED''), PARTIALLY_CONSUMED),
     ((PARTIALLY_CONSUMED, ''APPROVAL_CANCELLED''), CANCELLED),
     ((PARTIALLY_CONSUMED, ''APPROVAL_EXPIRED''), EXPIRED),
     ((PARTIALLY_CONSUMED, ''APPROVAL_REVOKED''), REVOKED)]"

definition approval_next_status :: "approval_status \<Rightarrow> string \<Rightarrow> approval_status res" where
  "approval_next_status current event_type =
     (if current \<in> set APPROVAL_TERMINAL then Inl ''APPROVAL_TERMINAL''
      else case map_of APPROVAL_TRANSITIONS (current, event_type) of
        None \<Rightarrow> Inl ''APPROVAL_TRANSITION_INVALID''
      | Some target \<Rightarrow> Inr target)"

definition status_after_consumption :: "int \<Rightarrow> int option \<Rightarrow> approval_status" where
  "status_after_consumption used_count max_uses =
     (if max_uses \<noteq> None \<and> used_count \<ge> the max_uses then CONSUMED else PARTIALLY_CONSUMED)"

definition default_expiry :: "time \<Rightarrow> time" where
  "default_expiry valid_from = valid_from + hours 24"

section \<open>Tables\<close>

record approval_grant =
  gr_approval_id :: string
  gr_workspace :: string
  gr_subject_type :: string
  gr_subject_id :: string
  gr_action :: string
  gr_risk :: string
  gr_status :: approval_status
  gr_requested_by :: string
  gr_implementing_agent :: "string option"
  gr_channel :: "string option"
  gr_valid_from :: time
  gr_expires_at :: time
  gr_max_uses :: "int option"
  gr_quorum_required :: int
  gr_aggregate_seq :: int
  gr_resource_scope :: pydict

record approval_decision =
  de_approval_id :: string
  de_decided_by :: string
  de_decision :: string
  de_credential_fingerprint :: string
  de_reauth_verified :: bool
  de_event_id :: string

record approval_consumption =
  cn_approval_id :: string
  cn_consumption_key :: string
  cn_consumed_by :: string
  cn_consumed_for_type :: string
  cn_consumed_for_id :: string
  cn_event_id :: string

record approval_view =
  vw_approval_id :: string
  vw_workspace :: string
  vw_subject_type :: string
  vw_subject_id :: string
  vw_action :: string
  vw_risk :: string
  vw_status :: string
  vw_used_count :: int
  vw_max_uses :: "int option"
  vw_expires_at :: time
  vw_requested_by :: string
  vw_decided_by :: "string list"
  vw_last_event_id :: string
  vw_updated_at :: time

text \<open>
  \<open>aw_subjects\<close> are the rows of the three subject tables as triples of subject type, identifier and
  workspace; \<open>aw_drawn\<close> counts the identifiers drawn.
\<close>

record 's approval_world =
  aw_store :: 's
  aw_db :: policy_db
  aw_workspaces :: "string list"
  aw_aliases :: "(string \<times> string) list"
  aw_subjects :: "(string \<times> string \<times> string) list"
  aw_grants :: "approval_grant list"
  aw_decisions :: "approval_decision list"
  aw_consumptions :: "approval_consumption list"
  aw_views :: "approval_view list"
  aw_log :: audit_log
  aw_drawn :: nat

record 's approval_env =
  ap_store :: "'s store_ops"
  ap_uuid_hex :: "nat \<Rightarrow> string"

text \<open>\<^verbatim>\<open>bool(scope.get("requires_human_approval", False))\<close> of the grant's scope.\<close>

definition gr_requires_human :: "approval_grant \<Rightarrow> bool" where
  "gr_requires_human g \<longleftrightarrow>
     map_of (gr_resource_scope g) ''requires_human_approval'' \<notin>
       {None, Some JNull, Some (JBool False), Some (JInt 0), Some (JStr []), Some (JArr []), Some (JObj [])}"

definition usable_at :: "approval_grant \<Rightarrow> time \<Rightarrow> bool" where
  "usable_at g now \<longleftrightarrow> gr_status g \<in> set CONSUMABLE \<and> gr_valid_from g \<le> now \<and> now < gr_expires_at g"

definition SUBJECT_ACTIVATION :: "(string \<times> int) list" where
  "SUBJECT_ACTIVATION = [(''task'', 1), (''schedule'', 5), (''run'', 5), (''action'', 1)]"

definition CURRENT_PHASE :: int where
  "CURRENT_PHASE = 5"

definition validate_subject :: "'s approval_world \<Rightarrow> string \<Rightarrow> string \<Rightarrow> string \<Rightarrow> unit res" where
  "validate_subject w workspace subject_type subject_id =
     (case map_of SUBJECT_ACTIVATION subject_type of
        None \<Rightarrow> Inl ''SUBJECT_TYPE_UNKNOWN''
      | Some activates \<Rightarrow>
          if subject_id = [] then Inl ''SUBJECT_ID_REQUIRED''
          else if activates > CURRENT_PHASE then Inl ''SUBJECT_TYPE_NOT_ACTIVE''
          else if subject_type \<in> {''task'', ''schedule'', ''run''}
          then (case List.find (\<lambda>(t, i, _). t = subject_type \<and> i = subject_id) (aw_subjects w) of
              None \<Rightarrow> Inl ''SUBJECT_NOT_FOUND''
            | Some (_, _, ws) \<Rightarrow> if ws \<noteq> workspace then Inl ''WORKSPACE_MISMATCH'' else Inr ())
          else Inr ())"

section \<open>Eligibility\<close>

record eligibility =
  el_eligible :: bool
  el_code :: string
  el_approver :: "principal_info option"

definition approver_graph :: "'s approval_world \<Rightarrow> string \<Rightarrow> alias_dict" where
  "approver_graph w workspace =
     alias_graph (map (\<lambda>a. (ac_uuid a, ac_workspace a)) (pb_accounts (aw_db w)))
       (filter (\<lambda>(_, b). b \<in> set (map ac_uuid (pb_accounts (aw_db w)))) (aw_aliases w)) workspace"

definition same_principal :: "string option \<Rightarrow> string option \<Rightarrow> alias_dict \<Rightarrow> bool" where
  "same_principal a b graph =
     (case (a, b) of
        (Some x, Some y) \<Rightarrow> effective_principal x graph = effective_principal y graph
      | _ \<Rightarrow> False)"

definition audit_denial ::
  "authz_env \<Rightarrow> audit_log \<Rightarrow> principal_info option \<Rightarrow> string \<Rightarrow> approval_grant \<Rightarrow> string \<Rightarrow> string
    \<Rightarrow> (audit_log \<times> eligibility) res" where
  "audit_denial A log approver account_id g code correlation_id =
     bind_res (append_audit (ae_prims A) (ae_jsonb A) log
       \<lparr>au_action = ''approval.deny'', au_target_type = ''approval'', au_target_id = gr_approval_id g,
        au_result = ''DENY'', au_actor_label = account_id, au_correlation_id = correlation_id,
        au_workspace_id = Some (gr_workspace g), au_actor_account_id = map_option pr_account_uuid approver,
        au_error_code = Some code,
        au_metadata = Some [(''risk'', JStr (gr_risk g)), (''subject_type'', JStr (gr_subject_type g)),
          (''reason'', JStr code)],
        au_now = ae_audit_now A\<rparr>) (\<lambda>(log', _).
       Inr (log', \<lparr>el_eligible = False, el_code = code, el_approver = approver\<rparr>))"

definition decide_request :: "approval_grant \<Rightarrow> string \<Rightarrow> authorization_request" where
  "decide_request g correlation_id =
     \<lparr>az_permission = ''approval.decide'', az_action = Some ''command:approve.grant'', az_domain = None,
      az_channel_id = gr_channel g, az_resource = None, az_side_effect = False, az_required_capability = None,
      az_correlation_id = correlation_id, az_target_type = ''approval'', az_target_id = gr_approval_id g\<rparr>"

definition denial_code :: "string \<Rightarrow> string" where
  "denial_code code =
     get_default ''APPROVER_NOT_ELIGIBLE'' (map_of [(''CHANNEL_NOT_MEMBER'', ''APPROVER_NOT_CHANNEL_MEMBER''),
       (''ROLE_MAX_RISK_EXCEEDED'', ''APPROVER_ROLE_RISK_TOO_LOW'')] code)"

text \<open>The comprehension over the matched roles, which computes every index.\<close>

fun covering_roles :: "role list \<Rightarrow> string list \<Rightarrow> nat \<Rightarrow> role list res" where
  "covering_roles [] matched idx = Inr []"
| "covering_roles (r # rs) matched idx =
     (if ro_role_id r \<in> set matched
      then bind_res (risk_index (co_max_risk (ro_constraints r))) (\<lambda>i.
           bind_res (covering_roles rs matched idx) (\<lambda>tl. Inr (if i \<ge> idx then r # tl else tl)))
      else covering_roles rs matched idx)"

definition check_eligibility ::
  "authz_env \<Rightarrow> policy_catalog \<Rightarrow> 's approval_world \<Rightarrow> string \<Rightarrow> approval_grant \<Rightarrow> string list \<Rightarrow> bool \<Rightarrow> time \<Rightarrow> string
    \<Rightarrow> (audit_log \<times> eligibility) res" where
  "check_eligibility A c w account_id g prior_deciders reauth_verified now correlation_id =
     (let deny = (\<lambda>approver code. audit_denial A (aw_log w) approver account_id g code correlation_id) in
      case principal (aw_db w) account_id of
        None \<Rightarrow> deny None ''APPROVER_NOT_ELIGIBLE''
      | Some approver \<Rightarrow>
        if pr_status approver \<noteq> ''ACTIVE'' then deny None ''APPROVER_NOT_ELIGIBLE'' else
        let graph = approver_graph w (gr_workspace g);
            me = Some (pr_account_uuid approver)
        in if same_principal me (Some (gr_requested_by g)) graph \<or>
              same_principal me (gr_implementing_agent g) graph
        then deny (Some approver) ''SELF_APPROVAL_FORBIDDEN''
        else if pr_account_uuid approver \<in> set prior_deciders then deny (Some approver) ''APPROVER_DUPLICATE''
        else bind_res (human_only c (gr_risk g)) (\<lambda>human.
          if (human \<or> gr_requires_human g) \<and> pr_account_type approver \<noteq> ''human''
          then deny (Some approver) ''HUMAN_APPROVER_REQUIRED''
          else bind_res (authorize A (aw_db w) (aw_log w) account_id (decide_request g correlation_id)) (\<lambda>(log', auth).
            if \<not> auth_allowed auth
            then Inr (log', \<lparr>el_eligible = False, el_code = denial_code (auth_code auth), el_approver = Some approver\<rparr>)
            else bind_res (effective_roles (aw_db w) approver now) (\<lambda>roles.
              bind_res (risk_index (gr_risk g)) (\<lambda>idx.
              bind_res (covering_roles roles (auth_matched_roles auth) idx) (\<lambda>covering.
              if covering = [] then deny (Some approver) ''APPROVER_ROLE_RISK_TOO_LOW''
              else bind_res (risk_index ''HIGH'') (\<lambda>high.
                if idx \<ge> high \<and> \<not> reauth_verified then deny (Some approver) ''REAUTH_REQUIRED''
                else Inr (log', \<lparr>el_eligible = True, el_code = ''ELIGIBLE'', el_approver = Some approver\<rparr>))))))))"

section \<open>Shared steps of the services\<close>

definition load_grant :: "'s approval_world \<Rightarrow> string \<Rightarrow> approval_grant res" where
  "load_grant w approval_id =
     (case List.find (\<lambda>g. gr_approval_id g = approval_id) (aw_grants w) of
        None \<Rightarrow> Inl ''APPROVAL_NOT_FOUND'' | Some g \<Rightarrow> Inr g)"

definition approval_request_event ::
  "approval_grant \<Rightarrow> string \<Rightarrow> string \<Rightarrow> string \<Rightarrow> string \<Rightarrow> string \<Rightarrow> pydict \<Rightarrow> append_request" where
  "approval_request_event g event_type actor correlation_id scope key payload =
     \<lparr>ar_workspace_id = gr_workspace g, ar_aggregate_type = ''approval'',
      ar_aggregate_id = gr_approval_id g, ar_type = event_type, ar_actor_account_id = actor,
      ar_correlation_id = correlation_id, ar_idempotency_scope = ''approval:'' @ scope,
      ar_idempotency_key = key, ar_payload = payload, ar_policy_version = ''policy-v1'',
      ar_channel_id = gr_channel g,
      ar_task_id = (if gr_subject_type g = ''task'' then Some (gr_subject_id g) else None),
      ar_caused_by = None, ar_expected_seq = Some (gr_aggregate_seq g + 1), ar_sensitive = None,
      ar_schema_version = 1\<rparr>"

definition approval_append ::
  "'s approval_env \<Rightarrow> approval_grant \<Rightarrow> string \<Rightarrow> string \<Rightarrow> string \<Rightarrow> string \<Rightarrow> string \<Rightarrow> pydict \<Rightarrow> 's approval_world
    \<Rightarrow> ('s approval_world \<times> append_result) res" where
  "approval_append E g event_type actor correlation_id scope key payload w =
     bind_res (so_append (ap_store E) (aw_store w)
         (approval_request_event g event_type actor correlation_id scope key payload))
       (\<lambda>(s, r). Inr (w\<lparr>aw_store := s\<rparr>, r))"

definition set_grant_status ::
  "string \<Rightarrow> approval_status \<Rightarrow> int \<Rightarrow> 's approval_world \<Rightarrow> 's approval_world" where
  "set_grant_status approval_id status seq w =
     w\<lparr>aw_grants := map (\<lambda>g. if gr_approval_id g = approval_id
         then g\<lparr>gr_status := status, gr_aggregate_seq := seq\<rparr> else g) (aw_grants w)\<rparr>"

definition uses_of :: "'s approval_world \<Rightarrow> string \<Rightarrow> approval_consumption list" where
  "uses_of w approval_id = filter (\<lambda>c. cn_approval_id c = approval_id) (aw_consumptions w)"

definition decisions_of :: "'s approval_world \<Rightarrow> string \<Rightarrow> approval_decision list" where
  "decisions_of w approval_id = filter (\<lambda>d. de_approval_id d = approval_id) (aw_decisions w)"

definition project_view ::
  "approval_grant \<Rightarrow> approval_status \<Rightarrow> string \<Rightarrow> time \<Rightarrow> 's approval_world \<Rightarrow> 's approval_world" where
  "project_view g status event_id now w =
     (let used = int (length (uses_of w (gr_approval_id g)));
          deciders = map de_decided_by (decisions_of w (gr_approval_id g));
          same = (\<lambda>v. vw_approval_id v = gr_approval_id g)
      in w\<lparr>aw_views :=
        (if list_ex same (aw_views w)
         then map (\<lambda>v. if same v
           then v\<lparr>vw_status := approval_status_value status, vw_used_count := used,
             vw_decided_by := deciders, vw_last_event_id := event_id, vw_updated_at := now\<rparr> else v) (aw_views w)
         else aw_views w @ [\<lparr>vw_approval_id = gr_approval_id g, vw_workspace = gr_workspace g,
           vw_subject_type = gr_subject_type g, vw_subject_id = gr_subject_id g, vw_action = gr_action g,
           vw_risk = gr_risk g, vw_status = approval_status_value status, vw_used_count = used,
           vw_max_uses = gr_max_uses g, vw_expires_at = gr_expires_at g, vw_requested_by = gr_requested_by g,
           vw_decided_by = deciders, vw_last_event_id = event_id, vw_updated_at = now\<rparr>])\<rparr>)"

text \<open>\<open>account_known\<close> and \<open>channel_known\<close> are the foreign keys of the tables.\<close>

definition account_known :: "'s approval_world \<Rightarrow> string \<Rightarrow> bool" where
  "account_known w acct \<longleftrightarrow> acct \<in> set (map ac_uuid (pb_accounts (aw_db w)))"

definition channel_known :: "'s approval_world \<Rightarrow> string \<Rightarrow> bool" where
  "channel_known w ch \<longleftrightarrow> ch \<in> set (map fst (pb_channels (aw_db w)))"

definition int4 :: "int \<Rightarrow> bool" where
  "int4 n \<longleftrightarrow> - (2 ^ 31) \<le> n \<and> n < 2 ^ 31"

section \<open>Request\<close>

record request_args =
  qa_workspace :: string
  qa_requested_by :: string
  qa_subject_type :: string
  qa_subject_id :: string
  qa_action :: string
  qa_correlation_id :: string
  qa_idempotency_key :: string
  qa_resource_scope :: pydict
  qa_risk :: "string option"
  qa_valid_for :: "int option"
  qa_max_uses :: "int option"
  qa_implementing_agent :: "string option"
  qa_channel :: "string option"
  qa_requires_human :: bool

record request_result =
  rr_approval_id :: string
  rr_risk :: string
  rr_quorum_required :: int
  rr_expires_at :: time
  rr_event :: append_result

definition effective_risk :: "policy_catalog \<Rightarrow> string \<Rightarrow> string option \<Rightarrow> string res" where
  "effective_risk c action risk =
     bind_res (risk_for c action False) (\<lambda>d.
     case risk of
       None \<Rightarrow> Inr (rd_risk d)
     | Some r \<Rightarrow>
         if r \<notin> set RISK_ORDER then Inl ''RISK_UNKNOWN''
         else bind_res (risk_index r) (\<lambda>i. bind_res (risk_index (rd_risk d)) (\<lambda>j.
           Inr (if i > j then r else rd_risk d))))"

definition request_quorum :: "policy_catalog \<Rightarrow> string \<Rightarrow> bool \<Rightarrow> int res" where
  "request_quorum c risk requires_human =
     bind_res (quorum c risk) (\<lambda>q. Inr (if requires_human \<and> q = 0 then 1 else q))"

definition merged_scope :: "request_args \<Rightarrow> pydict" where
  "merged_scope q = AList.update ''requires_human_approval'' (JBool (qa_requires_human q))
     (AList.update ''idempotency_key'' (JStr (qa_idempotency_key q)) (qa_resource_scope q))"

definition new_grant :: "request_args \<Rightarrow> string \<Rightarrow> string \<Rightarrow> time \<Rightarrow> time \<Rightarrow> int \<Rightarrow> approval_grant" where
  "new_grant q approval_id risk now expires_at quorum_required =
     \<lparr>gr_approval_id = approval_id, gr_workspace = qa_workspace q, gr_subject_type = qa_subject_type q,
      gr_subject_id = qa_subject_id q, gr_action = qa_action q, gr_risk = risk, gr_status = PENDING,
      gr_requested_by = qa_requested_by q, gr_implementing_agent = qa_implementing_agent q,
      gr_channel = qa_channel q, gr_valid_from = now, gr_expires_at = expires_at,
      gr_max_uses = qa_max_uses q, gr_quorum_required = quorum_required, gr_aggregate_seq = 0,
      gr_resource_scope = merged_scope q\<rparr>"

definition insert_grant :: "approval_grant \<Rightarrow> 's approval_world \<Rightarrow> 's approval_world res" where
  "insert_grant g w =
     (if list_ex (\<lambda>h. gr_approval_id h = gr_approval_id g) (aw_grants w) \<or>
         gr_workspace g \<notin> set (aw_workspaces w) \<or> \<not> account_known w (gr_requested_by g) \<or>
         \<not> pred_option (account_known w) (gr_implementing_agent g) \<or>
         \<not> pred_option (channel_known w) (gr_channel g)
      then Inl ''IntegrityError''
      else if \<not> pred_option int4 (gr_max_uses g) \<or> \<not> int4 (gr_quorum_required g) then Inl ''DataError''
      else Inr (w\<lparr>aw_grants := aw_grants w @ [g]\<rparr>))"

definition requested_payload :: "approval_grant \<Rightarrow> pydict" where
  "requested_payload g =
     [(''approval_id'', JStr (gr_approval_id g)), (''subject_type'', JStr (gr_subject_type g)),
      (''subject_id'', JStr (gr_subject_id g)), (''action'', JStr (gr_action g)),
      (''risk'', JStr (gr_risk g)), (''expires_at'', JStr (isoformat_utc (gr_expires_at g))),
      (''quorum_required'', JInt (gr_quorum_required g)),
      (''max_uses'', (case gr_max_uses g of None \<Rightarrow> JNull | Some n \<Rightarrow> JInt n))]"

definition request_expiry :: "time \<Rightarrow> int option \<Rightarrow> time" where
  "request_expiry now valid_for =
     (case valid_for of None \<Rightarrow> default_expiry now
      | Some d \<Rightarrow> if d = 0 then default_expiry now else now + d)"

definition existing_request :: "request_args \<Rightarrow> 's approval_world \<Rightarrow> approval_grant option" where
  "existing_request q w = List.find (\<lambda>g. gr_workspace g = qa_workspace q \<and> gr_requested_by g = qa_requested_by q \<and>
     get_str (gr_resource_scope g) ''idempotency_key'' = Some (qa_idempotency_key q)) (aw_grants w)"

definition repeat_request ::
  "'s approval_env \<Rightarrow> request_args \<Rightarrow> approval_grant \<Rightarrow> 's approval_world \<Rightarrow> request_result res" where
  "repeat_request E q g w =
     bind_res (so_stream (ap_store E) (aw_store w) (qa_workspace q) ''approval'' (gr_approval_id g)) (\<lambda>events.
     case events of [] \<Rightarrow> Inl ''IndexError''
     | prior # _ \<Rightarrow> Inr \<lparr>rr_approval_id = gr_approval_id g, rr_risk = gr_risk g,
         rr_quorum_required = gr_quorum_required g, rr_expires_at = gr_expires_at g,
         rr_event = \<lparr>res_event_id = ev_event_id prior, res_aggregate_seq = 1,
           res_content_hash = ev_content_hash prior, res_recorded_seq = ev_recorded_seq prior,
           res_replayed = True\<rparr>\<rparr>)"

definition create_request ::
  "'s approval_env \<Rightarrow> time \<Rightarrow> request_args \<Rightarrow> string \<Rightarrow> time \<Rightarrow> int \<Rightarrow> 's approval_world
    \<Rightarrow> ('s approval_world \<times> request_result) res" where
  "create_request E now q risk expires_at quorum_required w =
     (let approval_id = ''apr-'' @ take 16 (ap_uuid_hex E (aw_drawn w));
          g = new_grant q approval_id risk now expires_at quorum_required
      in bind_res (insert_grant g (w\<lparr>aw_drawn := aw_drawn w + 1\<rparr>)) (\<lambda>w1.
         bind_res (approval_append E g ''APPROVAL_REQUESTED'' (qa_requested_by q) (qa_correlation_id q)
             ''request'' (qa_idempotency_key q) (requested_payload g) w1) (\<lambda>(w2, r).
           Inr (project_view g PENDING (res_event_id r) now
               (set_grant_status approval_id PENDING (res_aggregate_seq r) w2),
             \<lparr>rr_approval_id = approval_id, rr_risk = risk, rr_quorum_required = quorum_required,
              rr_expires_at = expires_at, rr_event = r\<rparr>))))"

definition request_approval ::
  "'s approval_env \<Rightarrow> policy_catalog \<Rightarrow> time \<Rightarrow> request_args \<Rightarrow> 's approval_world
    \<Rightarrow> ('s approval_world \<times> request_result) res" where
  "request_approval E c now q w =
     bind_res (validate_subject w (qa_workspace q) (qa_subject_type q) (qa_subject_id q)) (\<lambda>_.
     bind_res (effective_risk c (qa_action q) (qa_risk q)) (\<lambda>risk.
     if qa_max_uses q \<noteq> None \<and> the (qa_max_uses q) \<le> 0 then Inl ''MAX_USES_INVALID'' else
     let expires_at = request_expiry now (qa_valid_for q) in
     if expires_at \<le> now then Inl ''VALIDITY_INVALID'' else
     bind_res (request_quorum c risk (qa_requires_human q)) (\<lambda>quorum_required.
     case existing_request q w of
       Some g \<Rightarrow> bind_res (repeat_request E q g w) (\<lambda>r. Inr (w, r))
     | None \<Rightarrow> create_request E now q risk expires_at quorum_required w)))"

section \<open>Decide\<close>

record decide_args =
  da_approval_id :: string
  da_approver_account_id :: string
  da_decision :: string
  da_credential_fingerprint :: string
  da_reauth_verified :: bool
  da_correlation_id :: string
  da_idempotency_key :: string
  da_reason_code :: string

record decision_result =
  dr_approval_id :: string
  dr_status :: approval_status
  dr_approvals_recorded :: int
  dr_quorum_required :: int
  dr_event :: "append_result option"

text \<open>The row references the Event and the account and is unique per grant and account.\<close>

definition record_decision ::
  "decide_args \<Rightarrow> string \<Rightarrow> string \<Rightarrow> string \<Rightarrow> 's approval_world \<Rightarrow> 's approval_world res" where
  "record_decision a decided_by decision event_id w =
     (if list_ex (\<lambda>d. de_approval_id d = da_approval_id a \<and> de_decided_by d = decided_by) (aw_decisions w) \<or>
         \<not> account_known w decided_by
      then Inl ''IntegrityError''
      else Inr (w\<lparr>aw_decisions := aw_decisions w @
        [\<lparr>de_approval_id = da_approval_id a, de_decided_by = decided_by, de_decision = decision,
          de_credential_fingerprint = da_credential_fingerprint a,
          de_reauth_verified = da_reauth_verified a, de_event_id = event_id\<rparr>]\<rparr>))"

definition resolve_decision ::
  "'s approval_env \<Rightarrow> time \<Rightarrow> decide_args \<Rightarrow> approval_grant \<Rightarrow> string \<Rightarrow> string \<Rightarrow> string \<Rightarrow> pydict \<Rightarrow> int
    \<Rightarrow> 's approval_world \<Rightarrow> ('s approval_world \<times> decision_result) res" where
  "resolve_decision E now a g approver decision event_type payload tally w =
     bind_res (approval_append E g event_type approver (da_correlation_id a) ''decide''
         (da_idempotency_key a) payload w) (\<lambda>(w1, r).
     bind_res (record_decision a approver decision (res_event_id r) w1) (\<lambda>w2.
     bind_res (approval_next_status (gr_status g) event_type) (\<lambda>status.
       Inr (project_view g status (res_event_id r) now
           (set_grant_status (da_approval_id a) status (res_aggregate_seq r) w2),
         \<lparr>dr_approval_id = da_approval_id a, dr_status = status, dr_approvals_recorded = tally,
          dr_quorum_required = gr_quorum_required g, dr_event = Some r\<rparr>))))"

definition decide_with ::
  "'s approval_env \<Rightarrow> time \<Rightarrow> decide_args \<Rightarrow> approval_grant \<Rightarrow> principal_info \<Rightarrow> string list
    \<Rightarrow> 's approval_world \<Rightarrow> ('s approval_world \<times> decision_result) res" where
  "decide_with E now a g p prior w =
     (let approver = pr_account_uuid p; approvals = int (length prior) + 1 in
      if da_decision a = ''REJECT''
      then resolve_decision E now a g approver ''REJECT'' ''APPROVAL_REJECTED''
        [(''approval_id'', JStr (da_approval_id a)), (''decided_by'', JStr (pr_account_id p)),
         (''reason_code'', JStr (da_reason_code a))] (int (length prior)) w
      else if approvals \<ge> gr_quorum_required g
      then resolve_decision E now a g approver ''APPROVE'' ''APPROVAL_GRANTED''
        [(''approval_id'', JStr (da_approval_id a)), (''decided_by'', JStr (pr_account_id p)),
         (''quorum_count'', JInt approvals),
         (''deciders'', JArr (map JStr (sort (remdups (approver # prior)))))] approvals w
      else bind_res (so_stream (ap_store E) (aw_store w) (gr_workspace g) ''approval'' (da_approval_id a)) (\<lambda>events.
        if events = [] then Inl ''IndexError'' else
        let event_id = ev_event_id (last events) in
        bind_res (record_decision a approver ''APPROVE'' event_id w) (\<lambda>w1.
          Inr (project_view g PENDING event_id now w1,
            \<lparr>dr_approval_id = da_approval_id a, dr_status = PENDING, dr_approvals_recorded = approvals,
             dr_quorum_required = gr_quorum_required g, dr_event = None\<rparr>))))"

definition decide_approval ::
  "'s approval_env \<Rightarrow> authz_env \<Rightarrow> policy_catalog \<Rightarrow> time \<Rightarrow> decide_args \<Rightarrow> 's approval_world
    \<Rightarrow> audit_log \<times> ('s approval_world \<times> decision_result) res" where
  "decide_approval E A c now a w =
     (if da_decision a \<notin> {''APPROVE'', ''REJECT''} then (aw_log w, Inl ''DECISION_INVALID'') else
      case load_grant w (da_approval_id a) of
        Inl e \<Rightarrow> (aw_log w, Inl e)
      | Inr g \<Rightarrow>
        if gr_status g \<noteq> PENDING then (aw_log w, Inl ''APPROVAL_NOT_PENDING'')
        else if now \<ge> gr_expires_at g then (aw_log w, Inl ''APPROVAL_NOT_USABLE'')
        else let prior = remdups (map de_decided_by (decisions_of w (da_approval_id a))) in
        (case check_eligibility A c w (da_approver_account_id a) g prior (da_reauth_verified a) now
            (da_correlation_id a) of
          Inl e \<Rightarrow> (aw_log w, Inl e)
        | Inr (log', el) \<Rightarrow>
            (log', if \<not> el_eligible el \<or> el_approver el = None then Inl (el_code el)
                   else decide_with E now a g (the (el_approver el)) prior (w\<lparr>aw_log := log'\<rparr>))))"

section \<open>Cancel, revoke, expire\<close>

definition terminate_approval ::
  "'s approval_env \<Rightarrow> time \<Rightarrow> string \<Rightarrow> string \<Rightarrow> string \<Rightarrow> string \<Rightarrow> string \<Rightarrow> string \<Rightarrow> string
    \<Rightarrow> 's approval_world \<Rightarrow> ('s approval_world \<times> append_result) res" where
  "terminate_approval E now approval_id event_type actor correlation_id key reason_code scope w =
     bind_res (load_grant w approval_id) (\<lambda>g.
     bind_res (approval_next_status (gr_status g) event_type) (\<lambda>status.
     bind_res (approval_append E g event_type actor correlation_id scope key
         ((''approval_id'', JStr approval_id) #
          (if event_type \<noteq> ''APPROVAL_EXPIRED'' then [(''reason_code'', JStr reason_code)] else [])) w) (\<lambda>(w1, r).
       Inr (project_view g status (res_event_id r) now
         (set_grant_status approval_id status (res_aggregate_seq r) w1), r))))"

definition is_admin_actor :: "policy_db \<Rightarrow> string \<Rightarrow> bool" where
  "is_admin_actor db actor \<longleftrightarrow>
     list_ex (\<lambda>ra. ra_account ra = actor \<and> ra_revoked_at ra = None \<and>
       list_ex (\<lambda>r. rr_role_id r = ra_role_id ra \<and> rr_status r = ''active'' \<and>
         list_ex (\<lambda>v. rv_role_id v = rr_role_id r \<and> rv_version v = rr_current_version r \<and>
           list_ex (\<lambda>p. p \<in> set (rv_permissions v)) [''admin.accounts'', ''admin.*'', ''*''])
         (pb_versions db)) (pb_roles db)) (pb_assignments db)"

definition cancel_approval ::
  "'s approval_env \<Rightarrow> time \<Rightarrow> string \<Rightarrow> string \<Rightarrow> string \<Rightarrow> string \<Rightarrow> string
    \<Rightarrow> 's approval_world \<Rightarrow> ('s approval_world \<times> append_result) res" where
  "cancel_approval E now approval_id actor correlation_id key reason_code w =
     bind_res (load_grant w approval_id) (\<lambda>g.
     if gr_requested_by g \<noteq> actor \<and> \<not> is_admin_actor (aw_db w) actor then Inl ''APPROVAL_CANCEL_FORBIDDEN''
     else terminate_approval E now approval_id ''APPROVAL_CANCELLED'' actor correlation_id key reason_code
       ''cancel'' w)"

definition revoke_approval ::
  "'s approval_env \<Rightarrow> time \<Rightarrow> string \<Rightarrow> string \<Rightarrow> string \<Rightarrow> string \<Rightarrow> string
    \<Rightarrow> 's approval_world \<Rightarrow> ('s approval_world \<times> append_result) res" where
  "revoke_approval E now approval_id actor correlation_id key reason_code w =
     terminate_approval E now approval_id ''APPROVAL_REVOKED'' actor correlation_id key reason_code ''revoke'' w"

definition expiry_due :: "time \<Rightarrow> string option \<Rightarrow> approval_grant \<Rightarrow> bool" where
  "expiry_due now workspace g \<longleftrightarrow>
     gr_status g \<in> {PENDING, APPROVED, PARTIALLY_CONSUMED} \<and> gr_expires_at g \<le> now \<and>
     (workspace = None \<or> workspace = Some (gr_workspace g))"

definition expire_one ::
  "'s approval_env \<Rightarrow> time \<Rightarrow> string \<Rightarrow> string \<Rightarrow> string \<Rightarrow> string \<Rightarrow> 's approval_world \<Rightarrow> 's approval_world res" where
  "expire_one E now escalated_to actor correlation_id approval_id w =
     bind_res (terminate_approval E now approval_id ''APPROVAL_EXPIRED'' actor correlation_id
         (''expire:'' @ approval_id) ''EXPIRED'' ''expire'' w) (\<lambda>(w1, _).
     bind_res (load_grant w1 approval_id) (\<lambda>g.
     bind_res (approval_append E g ''APPROVAL_ESCALATED'' actor correlation_id ''escalate''
         (''escalate:'' @ approval_id)
         [(''approval_id'', JStr approval_id), (''escalated_to_role'', JStr escalated_to)] w1) (\<lambda>(w2, r).
       Inr (project_view g EXPIRED (res_event_id r) now
         (set_grant_status approval_id EXPIRED (res_aggregate_seq r) w2)))))"

definition due_ids :: "time \<Rightarrow> string option \<Rightarrow> 's approval_world \<Rightarrow> string list" where
  "due_ids now workspace w = sort (map gr_approval_id (filter (expiry_due now workspace) (aw_grants w)))"

definition expire_approvals ::
  "'s approval_env \<Rightarrow> time \<Rightarrow> string \<Rightarrow> string \<Rightarrow> string \<Rightarrow> string option \<Rightarrow> 's approval_world
    \<Rightarrow> ('s approval_world \<times> string list) res" where
  "expire_approvals E now escalated_to actor correlation_id workspace w =
     (let due = due_ids now workspace w in
      bind_res (fold_res (expire_one E now escalated_to actor correlation_id) due w) (\<lambda>w'. Inr (w', due)))"

section \<open>Consume\<close>

record consume_result =
  co_approval_id :: string
  co_consumption_key :: string
  co_used_count :: int
  co_status :: approval_status
  co_event_id :: string
  co_replayed :: bool

definition consume_approval ::
  "'s approval_env \<Rightarrow> time \<Rightarrow> string \<Rightarrow> string \<Rightarrow> string \<Rightarrow> string \<times> string \<Rightarrow> string \<Rightarrow> 's approval_world
    \<Rightarrow> ('s approval_world \<times> consume_result) res" where
  "consume_approval E now approval_id consumption_key consumed_by consumed_for correlation_id w =
     bind_res (load_grant w approval_id) (\<lambda>g.
     let used = int (length (uses_of w approval_id)) in
     case List.find (\<lambda>c. cn_consumption_key c = consumption_key) (uses_of w approval_id) of
       Some prior \<Rightarrow> Inr (w, \<lparr>co_approval_id = approval_id, co_consumption_key = consumption_key,
           co_used_count = used, co_status = gr_status g, co_event_id = cn_event_id prior, co_replayed = True\<rparr>)
     | None \<Rightarrow>
       if gr_status g = CONSUMED then Inl ''APPROVAL_EXHAUSTED''
       else if gr_status g \<notin> set CONSUMABLE then Inl ''APPROVAL_NOT_USABLE''
       else if \<not> (gr_valid_from g \<le> now \<and> now < gr_expires_at g) then Inl ''APPROVAL_NOT_USABLE''
       else if consumed_for \<noteq> (gr_subject_type g, gr_subject_id g) then Inl ''APPROVAL_SCOPE_MISMATCH''
       else if gr_max_uses g \<noteq> None \<and> used \<ge> the (gr_max_uses g) then Inl ''APPROVAL_EXHAUSTED''
       else bind_res (approval_append E g ''APPROVAL_CONSUMED'' consumed_by correlation_id ''consume''
           (approval_id @ '':'' @ consumption_key)
           [(''approval_id'', JStr approval_id), (''consumption_key'', JStr consumption_key),
            (''used_count'', JInt (used + 1)), (''consumed_for_type'', JStr (fst consumed_for)),
            (''consumed_for_id'', JStr (snd consumed_for))] w) (\<lambda>(w1, r).
         if \<not> account_known w1 consumed_by then Inl ''IntegrityError''
         else let status = status_after_consumption (used + 1) (gr_max_uses g);
             w2 = w1\<lparr>aw_consumptions := aw_consumptions w1 @
               [\<lparr>cn_approval_id = approval_id, cn_consumption_key = consumption_key,
                 cn_consumed_by = consumed_by, cn_consumed_for_type = fst consumed_for,
                 cn_consumed_for_id = snd consumed_for, cn_event_id = res_event_id r\<rparr>]\<rparr>
           in Inr (project_view g status (res_event_id r) now
               (set_grant_status approval_id status (res_aggregate_seq r) w2),
             \<lparr>co_approval_id = approval_id, co_consumption_key = consumption_key, co_used_count = used + 1,
              co_status = status, co_event_id = res_event_id r, co_replayed = False\<rparr>)))"

end
