(* ===== verification/Approval_Runs.thy ===== *)
theory Approval_Runs
  imports Approvals
begin

text \<open>
  The approval ledgers over every interleaving of committed transactions: the services of
  \<^verbatim>\<open>src/server/approvals/service.py\<close> among arbitrary changes of the rest of the database. No
  assumption is made on the Event store.
\<close>

section \<open>Steps\<close>

inductive approval_step :: "'s approval_env \<Rightarrow> 's approval_world \<Rightarrow> 's approval_world \<Rightarrow> bool" for E where
  requested: "request_approval E c now q w = Inr (w', r) \<Longrightarrow> approval_step E w w'"
| decided: "decide_approval E A c now a w = (log', Inr (w', r)) \<Longrightarrow> approval_step E w w'"
| denied: "decide_approval E A c now a w = (log', Inl e) \<Longrightarrow> approval_step E w (w\<lparr>aw_log := log'\<rparr>)"
| cancelled: "cancel_approval E now aid actor corr key reason w = Inr (w', r) \<Longrightarrow> approval_step E w w'"
| revoked: "revoke_approval E now aid actor corr key reason w = Inr (w', r) \<Longrightarrow> approval_step E w w'"
| expired: "expire_approvals E now role actor corr ws w = Inr (w', ids) \<Longrightarrow> approval_step E w w'"
| consumed: "consume_approval E now aid key actor target corr w = Inr (w', r) \<Longrightarrow> approval_step E w w'"
| elsewhere: "aw_grants w' = aw_grants w \<Longrightarrow> aw_decisions w' = aw_decisions w \<Longrightarrow>
    aw_consumptions w' = aw_consumptions w \<Longrightarrow> approval_step E w w'"

abbreviation approval_steps :: "'s approval_env \<Rightarrow> 's approval_world \<Rightarrow> 's approval_world \<Rightarrow> bool" where
  "approval_steps E \<equiv> (approval_step E)\<^sup>*\<^sup>*"

definition fresh_world :: "'s approval_world \<Rightarrow> bool" where
  "fresh_world w \<longleftrightarrow> aw_grants w = [] \<and> aw_decisions w = [] \<and> aw_consumptions w = []"

section \<open>The invariant\<close>

text \<open>An approval needs one decision even where the catalog's quorum is zero.\<close>

definition needed :: "approval_grant \<Rightarrow> int" where
  "needed g = max 1 (gr_quorum_required g)"

definition independent_decision :: "approval_grant \<Rightarrow> approval_decision \<Rightarrow> bool" where
  "independent_decision g d \<longleftrightarrow>
     de_decided_by d \<noteq> gr_requested_by g \<and> gr_implementing_agent g \<noteq> Some (de_decided_by d) \<and>
     (gr_risk g \<in> {''HIGH'', ''CRITICAL''} \<longrightarrow> de_reauth_verified d)"

definition uses_in :: "approval_consumption list \<Rightarrow> string \<Rightarrow> approval_consumption list" where
  "uses_in cs aid = filter (\<lambda>c. cn_approval_id c = aid) cs"

definition decisions_in :: "approval_decision list \<Rightarrow> string \<Rightarrow> approval_decision list" where
  "decisions_in ds aid = filter (\<lambda>d. de_approval_id d = aid) ds"

definition approvals_in :: "approval_decision list \<Rightarrow> string \<Rightarrow> approval_decision list" where
  "approvals_in ds aid = filter (\<lambda>d. de_decision d = ''APPROVE'') (decisions_in ds aid)"

definition grant_ok :: "approval_decision list \<Rightarrow> approval_consumption list \<Rightarrow> approval_grant \<Rightarrow> bool" where
  "grant_ok ds cs g \<longleftrightarrow>
     (let n = int (length (uses_in cs (gr_approval_id g))); aid = gr_approval_id g in
      (case gr_max_uses g of None \<Rightarrow> gr_status g \<noteq> CONSUMED
       | Some m \<Rightarrow> 0 < m \<and> n \<le> m \<and> (gr_status g = CONSUMED \<longleftrightarrow> n = m)) \<and>
      (gr_status g \<in> {PENDING, REJECTED, APPROVED} \<longrightarrow> n = 0) \<and>
      (gr_status g = PARTIALLY_CONSUMED \<longrightarrow> n > 0) \<and>
      (gr_status g = PENDING \<longrightarrow> approvals_in ds aid = decisions_in ds aid \<and>
         int (length (decisions_in ds aid)) < needed g) \<and>
      (gr_status g \<in> {APPROVED, PARTIALLY_CONSUMED, CONSUMED} \<or> n > 0 \<longrightarrow>
         int (length (approvals_in ds aid)) \<ge> needed g) \<and>
      (\<forall>d \<in> set (decisions_in ds aid). independent_decision g d) \<and>
      gr_valid_from g < gr_expires_at g)"

definition ledger_inv ::
  "approval_grant list \<Rightarrow> approval_decision list \<Rightarrow> approval_consumption list \<Rightarrow> bool" where
  "ledger_inv gs ds cs \<longleftrightarrow>
     distinct (map gr_approval_id gs) \<and>
     distinct (map (\<lambda>d. (de_approval_id d, de_decided_by d)) ds) \<and>
     distinct (map (\<lambda>c. (cn_approval_id c, cn_consumption_key c)) cs) \<and>
     de_approval_id ` set ds \<subseteq> gr_approval_id ` set gs \<and>
     cn_approval_id ` set cs \<subseteq> gr_approval_id ` set gs \<and>
     (\<forall>g \<in> set gs. grant_ok ds cs g)"

abbreviation approval_inv :: "'s approval_world \<Rightarrow> bool" where
  "approval_inv w \<equiv> ledger_inv (aw_grants w) (aw_decisions w) (aw_consumptions w)"

lemma decisions_in_simps [simp]:
  "decisions_in [] a = []"
  "decisions_in (ds @ es) a = decisions_in ds a @ decisions_in es a"
  "decisions_in (d # ds) a = (if de_approval_id d = a then d # decisions_in ds a else decisions_in ds a)"
  by (simp_all add: decisions_in_def)

lemma approvals_in_simps [simp]:
  "approvals_in [] a = []"
  "approvals_in (ds @ es) a = approvals_in ds a @ approvals_in es a"
  "approvals_in (d # ds) a =
     (if de_approval_id d = a \<and> de_decision d = ''APPROVE'' then d # approvals_in ds a else approvals_in ds a)"
  by (simp_all add: approvals_in_def)

lemma uses_in_simps [simp]:
  "uses_in [] a = []"
  "uses_in (cs @ es) a = uses_in cs a @ uses_in es a"
  "uses_in (c # cs) a = (if cn_approval_id c = a then c # uses_in cs a else uses_in cs a)"
  by (simp_all add: uses_in_def)

lemma grant_ok_cong:
  assumes "decisions_in ds' (gr_approval_id g) = decisions_in ds (gr_approval_id g)"
    and "uses_in cs' (gr_approval_id g) = uses_in cs (gr_approval_id g)"
  shows "grant_ok ds' cs' g = grant_ok ds cs g"
  using assms by (simp add: grant_ok_def approvals_in_def)

lemma grant_ok_seq [simp]: "grant_ok ds cs (g\<lparr>gr_aggregate_seq := q\<rparr>) = grant_ok ds cs g"
  by (cases "gr_max_uses g") (simp_all add: grant_ok_def needed_def independent_decision_def Let_def)

definition replace_grant :: "approval_grant \<Rightarrow> approval_grant list \<Rightarrow> approval_grant list" where
  "replace_grant g gs = map (\<lambda>h. if gr_approval_id h = gr_approval_id g then g else h) gs"

lemma replace_grant_ids [simp]: "map gr_approval_id (replace_grant g gs) = map gr_approval_id gs"
  by (induction gs) (auto simp: replace_grant_def)

lemma replace_grant_ids_set [simp]: "gr_approval_id ` set (replace_grant g gs) = gr_approval_id ` set gs"
  by (metis replace_grant_ids list.set_map)

lemma replace_grant_id: "distinct (map gr_approval_id gs) \<Longrightarrow> g \<in> set gs \<Longrightarrow> replace_grant g gs = gs"
  unfolding replace_grant_def by (rule map_idI) (auto simp: distinct_map inj_on_def)

text \<open>A transaction on one grant: the rows of the other grants stay, and the changed one is in order.\<close>

lemma ledger_update:
  assumes inv: "ledger_inv gs ds cs" and g: "g \<in> set gs" and same: "gr_approval_id g' = gr_approval_id g"
    and ds: "distinct (map (\<lambda>d. (de_approval_id d, de_decided_by d)) (ds @ es))"
      "\<forall>d \<in> set es. de_approval_id d = gr_approval_id g"
    and cs: "distinct (map (\<lambda>c. (cn_approval_id c, cn_consumption_key c)) (cs @ fs))"
      "\<forall>c \<in> set fs. cn_approval_id c = gr_approval_id g"
    and ok: "grant_ok (ds @ es) (cs @ fs) g'"
  shows "ledger_inv (replace_grant g' gs) (ds @ es) (cs @ fs)"
proof -
  have "grant_ok (ds @ es) (cs @ fs) h" if "h \<in> set (replace_grant g' gs)" for h
  proof (cases "gr_approval_id h = gr_approval_id g")
    case True
    then have "h = g'" using that same by (auto simp: replace_grant_def)
    then show ?thesis using ok by simp
  next
    case False
    then have "h \<in> set gs" using that same by (auto simp: replace_grant_def split: if_splits)
    then have "grant_ok ds cs h" using inv by (simp add: ledger_inv_def)
    moreover have "decisions_in es (gr_approval_id h) = []" "uses_in fs (gr_approval_id h) = []"
      using ds(2) cs(2) False by (auto simp: decisions_in_def uses_in_def filter_empty_conv)
    ultimately show ?thesis using grant_ok_cong [of "ds @ es" h ds "cs @ fs" cs] by simp
  qed
  moreover have "de_approval_id ` set (ds @ es) \<subseteq> gr_approval_id ` set gs"
    "cn_approval_id ` set (cs @ fs) \<subseteq> gr_approval_id ` set gs"
    using inv g ds(2) cs(2) by (auto simp: ledger_inv_def)
  ultimately show ?thesis
    using inv ds(1) cs(1) by (simp add: ledger_inv_def)
qed

section \<open>Every service keeps it\<close>

lemma approval_append_tables:
  assumes "approval_append E g ty actor corr sc key pl w = Inr (w', r)"
  shows "aw_grants w' = aw_grants w" "aw_decisions w' = aw_decisions w"
    "aw_consumptions w' = aw_consumptions w" "aw_db w' = aw_db w"
  using assms by (auto simp: approval_append_def res_simps)

lemma project_view_tables [simp]:
  "aw_grants (project_view g st ev now w) = aw_grants w"
  "aw_decisions (project_view g st ev now w) = aw_decisions w"
  "aw_consumptions (project_view g st ev now w) = aw_consumptions w"
  "aw_db (project_view g st ev now w) = aw_db w" "aw_store (project_view g st ev now w) = aw_store w"
  "aw_aliases (project_view g st ev now w) = aw_aliases w" "aw_log (project_view g st ev now w) = aw_log w"
  by (simp_all add: project_view_def Let_def)

definition grants_with :: "string \<Rightarrow> approval_status \<Rightarrow> int \<Rightarrow> approval_grant list \<Rightarrow> approval_grant list" where
  "grants_with aid st q gs =
     map (\<lambda>g. if gr_approval_id g = aid then g\<lparr>gr_status := st, gr_aggregate_seq := q\<rparr> else g) gs"

lemma grants_with_absent: "aid \<notin> gr_approval_id ` set gs \<Longrightarrow> grants_with aid st q gs = gs"
  unfolding grants_with_def by (rule map_idI) (metis image_eqI)

lemma grants_with_status:
  assumes "g \<in> set (grants_with aid st q gs)" and "gr_approval_id g = aid"
  shows "gr_status g = st"
proof -
  obtain h where h: "g = (if gr_approval_id h = aid then h\<lparr>gr_status := st, gr_aggregate_seq := q\<rparr> else h)"
    using assms(1) unfolding grants_with_def by fastforce
  show ?thesis
  proof (cases "gr_approval_id h = aid")
    case True
    show ?thesis unfolding h using True by simp
  next
    case False
    then show ?thesis using h assms(2) by metis
  qed
qed

lemma set_grant_status_tables [simp]:
  "aw_grants (set_grant_status aid st q w) = grants_with aid st q (aw_grants w)"
  "aw_decisions (set_grant_status aid st q w) = aw_decisions w"
  "aw_consumptions (set_grant_status aid st q w) = aw_consumptions w"
  "aw_db (set_grant_status aid st q w) = aw_db w" "aw_store (set_grant_status aid st q w) = aw_store w"
  "aw_aliases (set_grant_status aid st q w) = aw_aliases w" "aw_log (set_grant_status aid st q w) = aw_log w"
  by (simp_all add: set_grant_status_def grants_with_def)

lemma load_grant_found:
  assumes "load_grant w aid = Inr g"
  shows "g \<in> set (aw_grants w)" and "gr_approval_id g = aid"
  using assms by (auto simp: load_grant_def find_Some_iff split: option.splits)

lemma load_grant_unique:
  assumes "distinct (map gr_approval_id (aw_grants w))" and "g \<in> set (aw_grants w)"
  shows "load_grant w (gr_approval_id g) = Inr g"
proof (cases "load_grant w (gr_approval_id g)")
  case (Inl e)
  then show ?thesis using assms(2) by (auto simp: load_grant_def find_None_iff split: option.splits)
next
  case (Inr h)
  then show ?thesis using load_grant_found [OF Inr] assms by (auto simp: distinct_map inj_on_def)
qed

lemma grants_with_replaces:
  assumes "distinct (map gr_approval_id gs)" and "g \<in> set gs"
  shows "grants_with (gr_approval_id g) st q gs = replace_grant (g\<lparr>gr_status := st, gr_aggregate_seq := q\<rparr>) gs"
  using assms by (auto simp: grants_with_def replace_grant_def distinct_map inj_on_def intro!: map_cong)

lemma uses_of_in: "uses_of w aid = uses_in (aw_consumptions w) aid"
  by (simp add: uses_of_def uses_in_def)

lemma decisions_of_in: "decisions_of w aid = decisions_in (aw_decisions w) aid"
  by (simp add: decisions_of_def decisions_in_def)

lemma ledger_invD:
  assumes "ledger_inv gs ds cs"
  shows "distinct (map gr_approval_id gs)"
    and "distinct (map (\<lambda>d. (de_approval_id d, de_decided_by d)) ds)"
    and "distinct (map (\<lambda>c. (cn_approval_id c, cn_consumption_key c)) cs)"
    and "g \<in> set gs \<Longrightarrow> grant_ok ds cs g"
  using assms by (auto simp: ledger_inv_def)

text \<open>The transitions of the table, except the consumption that \<open>consume_approval\<close> does not look up.\<close>

lemma approval_next_status_cases:
  assumes "approval_next_status st ev = Inr st'"
  shows "st \<notin> set APPROVAL_TERMINAL"
    and "(st', ev) \<in> {(APPROVED, ''APPROVAL_GRANTED''), (REJECTED, ''APPROVAL_REJECTED''),
      (CANCELLED, ''APPROVAL_CANCELLED''), (EXPIRED, ''APPROVAL_EXPIRED''), (REVOKED, ''APPROVAL_REVOKED''),
      (PARTIALLY_CONSUMED, ''APPROVAL_CONSUMED'')}"
    and "ev \<in> {''APPROVAL_GRANTED'', ''APPROVAL_REJECTED''} \<Longrightarrow> st = PENDING"
proof -
  show "st \<notin> set APPROVAL_TERMINAL" using assms by (auto simp: approval_next_status_def)
  have "((st, ev), st') \<in> set APPROVAL_TRANSITIONS"
    using assms by (auto simp: approval_next_status_def split: if_splits option.splits dest!: map_of_SomeD)
  then show "(st', ev) \<in> {(APPROVED, ''APPROVAL_GRANTED''), (REJECTED, ''APPROVAL_REJECTED''),
      (CANCELLED, ''APPROVAL_CANCELLED''), (EXPIRED, ''APPROVAL_EXPIRED''), (REVOKED, ''APPROVAL_REVOKED''),
      (PARTIALLY_CONSUMED, ''APPROVAL_CONSUMED'')}"
    and "ev \<in> {''APPROVAL_GRANTED'', ''APPROVAL_REJECTED''} \<Longrightarrow> st = PENDING"
    by (auto simp: APPROVAL_TRANSITIONS_def)
qed

subsection \<open>Terminations\<close>

lemma terminate_effect:
  assumes "terminate_approval E now aid ev actor corr key reason sc w = Inr (w', r)"
  obtains g st where "load_grant w aid = Inr g" "approval_next_status (gr_status g) ev = Inr st"
    "aw_grants w' = grants_with aid st (res_aggregate_seq r) (aw_grants w)"
    "aw_decisions w' = aw_decisions w" "aw_consumptions w' = aw_consumptions w"
proof -
  obtain g st pl w1 where "load_grant w aid = Inr g" "approval_next_status (gr_status g) ev = Inr st"
    and app: "approval_append E g ev actor corr sc key pl w = Inr (w1, r)"
    and "w' = project_view g st (res_event_id r) now (set_grant_status aid st (res_aggregate_seq r) w1)"
    using assms by (auto simp: terminate_approval_def res_simps)
  then show thesis using that approval_append_tables [OF app] by simp
qed

lemma ended_grant_ok:
  assumes ok: "grant_ok ds cs g" and run: "gr_status g \<notin> set APPROVAL_TERMINAL"
    and st: "st \<in> {CANCELLED, EXPIRED, REVOKED}"
  shows "grant_ok ds cs (g\<lparr>gr_status := st, gr_aggregate_seq := q\<rparr>)"
proof -
  have "gr_status g \<in> {PENDING, APPROVED, PARTIALLY_CONSUMED}"
    using run by (cases "gr_status g") (auto simp: APPROVAL_TERMINAL_def)
  then show ?thesis
    using ok st unfolding grant_ok_def Let_def needed_def independent_decision_def
    by (cases "gr_max_uses g") auto
qed

lemma terminate_keeps:
  assumes "terminate_approval E now aid ev actor corr key reason sc w = Inr (w', r)"
    and "ev \<in> {''APPROVAL_CANCELLED'', ''APPROVAL_EXPIRED'', ''APPROVAL_REVOKED''}" and inv: "approval_inv w"
  shows "approval_inv w'"
proof -
  obtain g st where g: "load_grant w aid = Inr g" and ns: "approval_next_status (gr_status g) ev = Inr st"
    and eff: "aw_grants w' = grants_with aid st (res_aggregate_seq r) (aw_grants w)"
      "aw_decisions w' = aw_decisions w" "aw_consumptions w' = aw_consumptions w"
    using terminate_effect [OF assms(1)] .
  note gf = load_grant_found [OF g] and di = ledger_invD [OF inv]
  have "st \<in> {CANCELLED, EXPIRED, REVOKED}" using approval_next_status_cases(2) [OF ns] assms(2) by auto
  then have "grant_ok (aw_decisions w @ []) (aw_consumptions w @ []) (g\<lparr>gr_status := st, gr_aggregate_seq := res_aggregate_seq r\<rparr>)"
    using ended_grant_ok [OF di(4) [OF gf(1)] approval_next_status_cases(1) [OF ns]] by simp
  from ledger_update [OF inv gf(1) _ _ _ _ _ this] di(2,3) show ?thesis
    using eff grants_with_replaces [OF di(1) gf(1)] gf(2) by simp
qed

lemma set_status_again:
  assumes "approval_inv w" and "load_grant w aid = Inr g"
  shows "approval_inv (set_grant_status aid (gr_status g) q w)"
proof -
  note gf = load_grant_found [OF assms(2)] and di = ledger_invD [OF assms(1)]
  have "grant_ok (aw_decisions w @ []) (aw_consumptions w @ []) (g\<lparr>gr_status := gr_status g, gr_aggregate_seq := q\<rparr>)"
    using di(4) [OF gf(1)] by simp
  from ledger_update [OF assms(1) gf(1) _ _ _ _ _ this] di(2,3) show ?thesis
    using grants_with_replaces [OF di(1) gf(1)] gf(2) by simp
qed

lemma expire_one_keeps:
  assumes "expire_one E now role actor corr aid w = Inr w'" and "approval_inv w"
  shows "approval_inv w'"
proof -
  obtain w1 r1 g w2 r2 where t: "terminate_approval E now aid ''APPROVAL_EXPIRED'' actor corr (''expire:'' @ aid)
      ''EXPIRED'' ''expire'' w = Inr (w1, r1)" and g: "load_grant w1 aid = Inr g"
    and app: "approval_append E g ''APPROVAL_ESCALATED'' actor corr ''escalate'' (''escalate:'' @ aid)
      [(''approval_id'', JStr aid), (''escalated_to_role'', JStr role)] w1 = Inr (w2, r2)"
    and w': "w' = project_view g EXPIRED (res_event_id r2) now (set_grant_status aid EXPIRED (res_aggregate_seq r2) w2)"
    using assms(1) by (auto simp: expire_one_def res_simps)
  have inv: "approval_inv w1" using terminate_keeps [OF t _ assms(2)] by simp
  obtain h st where "load_grant w aid = Inr h" and ns: "approval_next_status (gr_status h) ''APPROVAL_EXPIRED'' = Inr st"
    and gs: "aw_grants w1 = grants_with aid st (res_aggregate_seq r1) (aw_grants w)"
      "aw_decisions w1 = aw_decisions w" "aw_consumptions w1 = aw_consumptions w"
    using terminate_effect [OF t] .
  have "st = EXPIRED" using approval_next_status_cases(2) [OF ns] by auto
  then have "gr_status g = EXPIRED"
    using load_grant_found [OF g] grants_with_status [of g aid st] gs(1) by metis
  then show ?thesis
    using set_status_again [OF inv g, of "res_aggregate_seq r2"] w' approval_append_tables [OF app] by simp
qed

lemma expire_keeps:
  assumes "expire_approvals E now role actor corr ws w = Inr (w', ids)" and "approval_inv w"
  shows "approval_inv w'"
proof -
  have f: "fold_res (expire_one E now role actor corr) (due_ids now ws w) w = Inr w'"
    using assms(1) by (auto simp: expire_approvals_def Let_def res_simps)
  show ?thesis
    by (rule fold_res_invariant [where P = approval_inv, OF _ _ f]) (use expire_one_keeps assms(2) in blast)+
qed

subsection \<open>Decisions\<close>

lemma audit_denial_denies:
  assumes "audit_denial A log p acct g code corr = Inr (log', el)"
  shows "\<not> el_eligible el" "el_code el = code"
    "\<exists>x i. append_audit (ae_prims A) (ae_jsonb A) log x = Inr (log', i) \<and> au_result x = ''DENY'' \<and>
       au_error_code x = Some code \<and> au_actor_label x = acct \<and> au_target_id x = gr_approval_id g"
  using assms by (fastforce simp: audit_denial_def res_simps)+

lemma covering_roles_iff:
  "covering_roles rs matched i = Inr cov \<Longrightarrow>
     cov = [] \<longleftrightarrow> \<not> (\<exists>r \<in> set rs. ro_role_id r \<in> set matched \<and>
       (\<exists>j. risk_index (co_max_risk (ro_constraints r)) = Inr j \<and> i \<le> j))"
  by (induction rs arbitrary: cov) (auto simp: res_simps split: if_splits)

text \<open>The two ways a check can end.\<close>

definition denial_row :: "authz_env \<Rightarrow> audit_log \<Rightarrow> audit_log \<Rightarrow> string \<Rightarrow> approval_grant \<Rightarrow> bool" where
  "denial_row A log log' acct g \<longleftrightarrow>
     (\<exists>x i. append_audit (ae_prims A) (ae_jsonb A) log x = Inr (log', i) \<and> au_result x = ''DENY'' \<and>
        au_actor_label x = acct \<and> au_target_type x = ''approval'' \<and> au_target_id x = gr_approval_id g)"

abbreviation self_approval :: "'s approval_world \<Rightarrow> approval_grant \<Rightarrow> principal_info \<Rightarrow> bool" where
  "self_approval w g p \<equiv>
     same_principal (Some (pr_account_uuid p)) (Some (gr_requested_by g)) (approver_graph w (gr_workspace g)) \<or>
     same_principal (Some (pr_account_uuid p)) (gr_implementing_agent g) (approver_graph w (gr_workspace g))"

lemma audit_denial_row:
  assumes "audit_denial A log p acct g code corr = Inr (log', el)"
  shows "\<not> el_eligible el" "denial_row A log log' acct g"
  using assms by (fastforce simp: audit_denial_def denial_row_def res_simps)+

lemma authorize_log:
  assumes "authorize A db log acct q = Inr (log', a)"
  shows "if auth_allowed a then log' = log
    else \<exists>p c rs i. append_audit (ae_prims A) (ae_jsonb A) log (deny_audit A p acct q c rs) = Inr (log', i)"
  using assms
proof (cases rule: authorize_cases)
  case (unknown cls)
  then show ?thesis using deny_with_denies [OF unknown(3)] by auto
next
  case (inactive cls p)
  then show ?thesis using deny_with_denies [OF inactive(4)] by auto
next
  case (refused cls p roles d code)
  then show ?thesis using deny_with_denies [OF refused(6)] by auto
next
  case (granted cls p roles d)
  then show ?thesis using grant_with_allows [OF granted(10)] by simp
qed

definition qualifies ::
  "authz_env \<Rightarrow> policy_catalog \<Rightarrow> 's approval_world \<Rightarrow> string \<Rightarrow> approval_grant \<Rightarrow> string list \<Rightarrow> bool \<Rightarrow> time \<Rightarrow> string
    \<Rightarrow> principal_info \<Rightarrow> bool" where
  "qualifies A c w acct g prior re now corr p \<longleftrightarrow>
     principal (aw_db w) acct = Some p \<and> pr_status p = ''ACTIVE'' \<and> \<not> self_approval w g p \<and>
     pr_account_uuid p \<notin> set prior \<and>
     (\<exists>human auth roles i cov. human_only c (gr_risk g) = Inr human \<and>
        (human \<or> gr_requires_human g \<longrightarrow> pr_account_type p = ''human'') \<and>
        authorize A (aw_db w) (aw_log w) acct (decide_request g corr) = Inr (aw_log w, auth) \<and> auth_allowed auth \<and>
        effective_roles (aw_db w) p now = Inr roles \<and> risk_index (gr_risk g) = Inr i \<and>
        covering_roles roles (auth_matched_roles auth) i = Inr cov \<and> cov \<noteq> [] \<and> (i \<ge> 2 \<longrightarrow> re))"

lemma check_eligibility_cases:
  assumes "check_eligibility A c w acct g prior re now corr = Inr (log', el)"
  obtains (denied) "\<not> el_eligible el" "denial_row A (aw_log w) log' acct g"
      "\<nexists>p. qualifies A c w acct g prior re now corr p"
    | (eligible) p where "el_eligible el" "el_approver el = Some p" "log' = aw_log w"
      "qualifies A c w acct g prior re now corr p"
proof -
  have high: "risk_index ''HIGH'' = Inr 2" by (simp add: risk_index_def RISK_ORDER_def res_simps)
  note unfold = check_eligibility_def Let_def
  show thesis
  proof (cases "\<exists>p. principal (aw_db w) acct = Some p \<and> pr_status p = ''ACTIVE'' \<and> \<not> self_approval w g p \<and>
      pr_account_uuid p \<notin> set prior")
    case False
    then obtain p code where "audit_denial A (aw_log w) p acct g code corr = Inr (log', el)"
      using assms by (auto simp: unfold split: option.splits if_splits)
    from audit_denial_row [OF this] denied False show thesis by (auto simp: qualifies_def)
  next
    case True
    then obtain p where p: "principal (aw_db w) acct = Some p" "pr_status p = ''ACTIVE''" "\<not> self_approval w g p"
      "pr_account_uuid p \<notin> set prior" by blast
    obtain human where h: "human_only c (gr_risk g) = Inr human"
      using assms p by (auto simp: unfold res_simps)
    show thesis
    proof (cases "(human \<or> gr_requires_human g) \<and> pr_account_type p \<noteq> ''human''")
      case True
      then have "audit_denial A (aw_log w) (Some p) acct g ''HUMAN_APPROVER_REQUIRED'' corr = Inr (log', el)"
        using assms p h by (simp add: unfold)
      from audit_denial_row [OF this] denied True h p show thesis by (auto simp: qualifies_def)
    next
      case hum: False
      obtain log1 auth where az: "authorize A (aw_db w) (aw_log w) acct (decide_request g corr) = Inr (log1, auth)"
        using assms p h hum by (auto simp: unfold res_simps split: if_splits)
      show thesis
      proof (cases "auth_allowed auth")
        case False
        then have "\<not> el_eligible el" "log' = log1" using assms p h hum az by (auto simp: unfold split: if_splits)
        moreover have "denial_row A (aw_log w) log1 acct g"
          using authorize_log [OF az] False by (fastforce simp: denial_row_def deny_audit_def decide_request_def)
        ultimately show thesis using denied az False by (auto simp: qualifies_def)
      next
        case al: True
        have log1: "log1 = aw_log w" using authorize_log [OF az] al by simp
        obtain roles where r: "effective_roles (aw_db w) p now = Inr roles"
          using assms p h hum az al by (auto simp: unfold res_simps split: if_splits)
        obtain i where i: "risk_index (gr_risk g) = Inr i"
          using assms p h hum az al r by (auto simp: unfold res_simps split: if_splits)
        obtain cov where cov: "covering_roles roles (auth_matched_roles auth) i = Inr cov"
          using assms p h hum az al r i by (auto simp: unfold res_simps split: if_splits)
        show thesis
        proof (cases "cov \<noteq> [] \<and> (i \<ge> 2 \<longrightarrow> re)")
          case True
          then have "el = \<lparr>el_eligible = True, el_code = ''ELIGIBLE'', el_approver = Some p\<rparr>" "log' = aw_log w"
            using assms p h hum az al r i cov high log1 by (auto simp: unfold split: if_splits)
          moreover have "qualifies A c w acct g prior re now corr p"
            using p h hum az al r i cov True log1 by (auto simp: qualifies_def)
          ultimately show thesis using eligible by simp
        next
          case False
          then obtain code where "audit_denial A (aw_log w) (Some p) acct g code corr = Inr (log', el)"
            using assms p h hum az al r i cov high by (auto simp: unfold split: if_splits)
          moreover have "\<nexists>p. qualifies A c w acct g prior re now corr p"
            using False p h az r i cov log1 by (auto simp: qualifies_def)
          ultimately show thesis using denied audit_denial_row by blast
        qed
      qed
    qed
  qed
qed

lemma qualified_decision:
  assumes "qualifies A c w acct g prior re now corr p"
  shows "pr_account_uuid p \<noteq> gr_requested_by g" and "gr_implementing_agent g \<noteq> Some (pr_account_uuid p)"
    and "pr_account_uuid p \<notin> set prior" and "gr_risk g \<in> {''HIGH'', ''CRITICAL''} \<Longrightarrow> re"
proof -
  show "pr_account_uuid p \<noteq> gr_requested_by g" "gr_implementing_agent g \<noteq> Some (pr_account_uuid p)"
    "pr_account_uuid p \<notin> set prior"
    using assms by (auto simp: qualifies_def same_principal_def)
  obtain i where i: "risk_index (gr_risk g) = Inr i" "i \<ge> 2 \<longrightarrow> re" using assms by (auto simp: qualifies_def)
  show re if "gr_risk g \<in> {''HIGH'', ''CRITICAL''}"
    using that i by (auto simp: risk_index_def RISK_ORDER_def res_simps)
qed

text \<open>A decision adds one row and moves the grant, or leaves it pending below its quorum.\<close>

definition decision_row :: "decide_args \<Rightarrow> string \<Rightarrow> string \<Rightarrow> string \<Rightarrow> approval_decision" where
  "decision_row a acct dec ev = \<lparr>de_approval_id = da_approval_id a, de_decided_by = acct, de_decision = dec,
     de_credential_fingerprint = da_credential_fingerprint a, de_reauth_verified = da_reauth_verified a,
     de_event_id = ev\<rparr>"

lemma record_decision_effect:
  assumes "record_decision a acct dec ev w = Inr w'"
  shows "w' = w\<lparr>aw_decisions := aw_decisions w @ [decision_row a acct dec ev]\<rparr>"
  using assms by (auto simp: record_decision_def decision_row_def split: if_splits)

lemma resolve_effect:
  assumes "resolve_decision E now a g acct dec ty pl n w = Inr (w', r)"
    and "ty \<in> {''APPROVAL_REJECTED'', ''APPROVAL_GRANTED''}"
  shows "\<exists>ev q. aw_decisions w' = aw_decisions w @ [decision_row a acct dec ev] \<and>
    aw_consumptions w' = aw_consumptions w \<and>
    aw_grants w' = grants_with (da_approval_id a)
      (if ty = ''APPROVAL_REJECTED'' then REJECTED else APPROVED) q (aw_grants w)"
proof -
  obtain w1 res w2 st where app: "approval_append E g ty acct (da_correlation_id a) ''decide''
      (da_idempotency_key a) pl w = Inr (w1, res)"
    and rc: "record_decision a acct dec (res_event_id res) w1 = Inr w2"
    and ns: "approval_next_status (gr_status g) ty = Inr st"
    and w': "w' = project_view g st (res_event_id res) now
      (set_grant_status (da_approval_id a) st (res_aggregate_seq res) w2)"
    using assms(1) by (auto simp: resolve_decision_def res_simps)
  have "st = (if ty = ''APPROVAL_REJECTED'' then REJECTED else APPROVED)"
    using approval_next_status_cases(2) [OF ns] assms(2) by auto
  then show ?thesis
    using w' record_decision_effect [OF rc] approval_append_tables [OF app] by auto
qed

text \<open>What a decision with \<open>n\<close> deciders before it does to the grant.\<close>

definition decision_move :: "approval_grant \<Rightarrow> nat \<Rightarrow> string \<Rightarrow> approval_status \<Rightarrow> bool" where
  "decision_move g n dec st \<longleftrightarrow>
     dec = ''REJECT'' \<and> st = REJECTED \<or>
     dec = ''APPROVE'' \<and> st = (if gr_quorum_required g \<le> int n + 1 then APPROVED else PENDING)"

lemma grants_with_same:
  assumes "distinct (map gr_approval_id gs)" and "g \<in> set gs"
  shows "grants_with (gr_approval_id g) (gr_status g) (gr_aggregate_seq g) gs = gs"
  using grants_with_replaces [OF assms] replace_grant_id [OF assms] by simp

lemma decide_with_effect:
  assumes dw: "decide_with E now a g p prior w = Inr (w', r)" and g: "load_grant w (da_approval_id a) = Inr g"
    and pend: "gr_status g = PENDING" and dist: "distinct (map gr_approval_id (aw_grants w))"
    and dec: "da_decision a \<in> {''APPROVE'', ''REJECT''}"
  shows "\<exists>ev st q. aw_decisions w' = aw_decisions w @ [decision_row a (pr_account_uuid p) (da_decision a) ev] \<and>
    aw_consumptions w' = aw_consumptions w \<and>
    aw_grants w' = grants_with (da_approval_id a) st q (aw_grants w) \<and>
    decision_move g (length prior) (da_decision a) st"
proof (cases "da_decision a = ''REJECT'' \<or> gr_quorum_required g \<le> int (length prior) + 1")
  case True
  let ?ty = "if da_decision a = ''REJECT'' then ''APPROVAL_REJECTED'' else ''APPROVAL_GRANTED''"
  obtain pl n where "resolve_decision E now a g (pr_account_uuid p) (da_decision a) ?ty pl n w = Inr (w', r)"
    using dw True dec by (auto simp: decide_with_def Let_def split: if_splits)
  from resolve_effect [OF this] dec True show ?thesis by (fastforce simp: decision_move_def)
next
  case False
  then obtain ev w1 where rc: "record_decision a (pr_account_uuid p) ''APPROVE'' ev w = Inr w1"
    and w': "w' = project_view g PENDING ev now w1"
    using dw dec by (auto simp: decide_with_def Let_def res_simps split: if_splits)
  have "aw_grants w = grants_with (da_approval_id a) PENDING (gr_aggregate_seq g) (aw_grants w)"
    using grants_with_same [OF dist load_grant_found(1) [OF g]] load_grant_found(2) [OF g] pend by simp
  then show ?thesis
    using w' record_decision_effect [OF rc] False dec by (auto simp: decision_move_def)
qed

lemma decide_effect:
  assumes "decide_approval E A c now a w = (log', Inr (w', r))" and "distinct (map gr_approval_id (aw_grants w))"
  obtains g p ev st q where "load_grant w (da_approval_id a) = Inr g" "gr_status g = PENDING"
    "qualifies A c w (da_approver_account_id a) g (map de_decided_by (decisions_of w (da_approval_id a)))
      (da_reauth_verified a) now (da_correlation_id a) p"
    "aw_decisions w' = aw_decisions w @ [decision_row a (pr_account_uuid p) (da_decision a) ev]"
    "aw_consumptions w' = aw_consumptions w"
    "aw_grants w' = grants_with (da_approval_id a) st q (aw_grants w)"
    "decision_move g (card (set (map de_decided_by (decisions_of w (da_approval_id a))))) (da_decision a) st"
proof -
  let ?prior = "remdups (map de_decided_by (decisions_of w (da_approval_id a)))"
  obtain g el where g: "load_grant w (da_approval_id a) = Inr g" and pend: "gr_status g = PENDING"
    and dec: "da_decision a \<in> {''APPROVE'', ''REJECT''}"
    and ck: "check_eligibility A c w (da_approver_account_id a) g ?prior (da_reauth_verified a) now
      (da_correlation_id a) = Inr (log', el)"
    and el: "el_eligible el"
    and dw: "decide_with E now a g (the (el_approver el)) ?prior (w\<lparr>aw_log := log'\<rparr>) = Inr (w', r)"
    using assms(1) by (auto simp: decide_approval_def Let_def split: if_splits sum.splits)
  obtain p where p: "el_approver el = Some p" and q: "qualifies A c w (da_approver_account_id a) g ?prior
      (da_reauth_verified a) now (da_correlation_id a) p"
    using ck el by (cases rule: check_eligibility_cases) auto
  have len: "length ?prior = card (set (map de_decided_by (decisions_of w (da_approval_id a))))"
    by (simp add: length_remdups_card_conv)
  have q': "qualifies A c w (da_approver_account_id a) g (map de_decided_by (decisions_of w (da_approval_id a)))
      (da_reauth_verified a) now (da_correlation_id a) p"
    using q by (simp add: qualifies_def)
  have "load_grant (w\<lparr>aw_log := log'\<rparr>) (da_approval_id a) = Inr g" using g by (simp add: load_grant_def)
  from decide_with_effect [OF dw this pend _ dec] assms(2) p len that [OF g pend q']
  show thesis by auto
qed

lemma decide_keeps:
  assumes "decide_approval E A c now a w = (log', Inr (w', r))" and inv: "approval_inv w"
  shows "approval_inv w'"
proof -
  note di = ledger_invD [OF inv]
  let ?aid = "da_approval_id a"
  obtain g p ev st q where g: "load_grant w ?aid = Inr g" and pend: "gr_status g = PENDING"
    and qu: "qualifies A c w (da_approver_account_id a) g (map de_decided_by (decisions_of w ?aid))
      (da_reauth_verified a) now (da_correlation_id a) p"
    and eff: "aw_decisions w' = aw_decisions w @ [decision_row a (pr_account_uuid p) (da_decision a) ev]"
      "aw_consumptions w' = aw_consumptions w" "aw_grants w' = grants_with ?aid st q (aw_grants w)"
    and mv: "decision_move g (card (set (map de_decided_by (decisions_of w ?aid)))) (da_decision a) st"
    using decide_effect [OF assms(1) di(1)] .
  let ?d = "decision_row a (pr_account_uuid p) (da_decision a) ev"
  note gf = load_grant_found [OF g] and qd = qualified_decision [OF qu]
  have ok: "grant_ok (aw_decisions w) (aw_consumptions w) g" using di(4) [OF gf(1)] .
  have dist: "distinct (map de_decided_by (decisions_in (aw_decisions w) ?aid))"
    using di(2) by (auto simp: decisions_in_def distinct_map inj_on_def)
  then have n: "card (set (map de_decided_by (decisions_of w ?aid))) = length (decisions_in (aw_decisions w) ?aid)"
    using distinct_card [OF dist] by (simp add: decisions_of_in)
  have row: "de_approval_id ?d = ?aid" "de_decided_by ?d = pr_account_uuid p" "de_decision ?d = da_decision a"
    "de_reauth_verified ?d = da_reauth_verified a"
    by (simp_all add: decision_row_def)
  have "grant_ok (aw_decisions w @ [?d]) (aw_consumptions w @ []) (g\<lparr>gr_status := st, gr_aggregate_seq := q\<rparr>)"
    using ok mv qd row pend gf(2) n
    unfolding grant_ok_def Let_def needed_def independent_decision_def decision_move_def
    by (cases "gr_max_uses g") (auto split: if_splits)
  moreover have "(?aid, pr_account_uuid p) \<notin> (\<lambda>d. (de_approval_id d, de_decided_by d)) ` set (aw_decisions w)"
    using qd(3) by (auto simp: decisions_of_def)
  ultimately have "ledger_inv (replace_grant (g\<lparr>gr_status := st, gr_aggregate_seq := q\<rparr>) (aw_grants w))
      (aw_decisions w @ [?d]) (aw_consumptions w @ [])"
    using di(2,3) row gf(2) by (intro ledger_update [OF inv gf(1)]) auto
  then show ?thesis using eff grants_with_replaces [OF di(1) gf(1)] gf(2) by simp
qed

subsection \<open>Consumption\<close>

lemma consume_new:
  assumes c: "consume_approval E now aid key actor target corr w = Inr (w', r)" and g: "load_grant w aid = Inr g"
    and none: "List.find (\<lambda>c. cn_consumption_key c = key) (uses_in (aw_consumptions w) aid) = None"
  obtains w1 res pl where
    "approval_append E g ''APPROVAL_CONSUMED'' actor corr ''consume'' (aid @ '':'' @ key) pl w = Inr (w1, res)"
    "gr_status g \<in> set CONSUMABLE" "gr_valid_from g \<le> now" "now < gr_expires_at g"
    "target = (gr_subject_type g, gr_subject_id g)"
    "w' = project_view g (status_after_consumption (int (length (uses_in (aw_consumptions w) aid)) + 1) (gr_max_uses g))
       (res_event_id res) now
       (set_grant_status aid (status_after_consumption (int (length (uses_in (aw_consumptions w) aid)) + 1) (gr_max_uses g))
         (res_aggregate_seq res)
         (w1\<lparr>aw_consumptions := aw_consumptions w1 @ [\<lparr>cn_approval_id = aid, cn_consumption_key = key,
            cn_consumed_by = actor, cn_consumed_for_type = fst target, cn_consumed_for_id = snd target,
            cn_event_id = res_event_id res\<rparr>]\<rparr>))"
    "r = \<lparr>co_approval_id = aid, co_consumption_key = key, co_used_count = int (length (uses_in (aw_consumptions w) aid)) + 1,
       co_status = status_after_consumption (int (length (uses_in (aw_consumptions w) aid)) + 1) (gr_max_uses g),
       co_event_id = res_event_id res, co_replayed = False\<rparr>"
  using c [unfolded consume_approval_def g bind_res_Inr Let_def uses_of_in] none
  by (auto simp: res_simps split: if_splits)

lemma consume_effect:
  assumes "consume_approval E now aid key actor target corr w = Inr (w', r)"
  obtains (retry) "w' = w" "co_replayed r"
      "\<exists>c \<in> set (aw_consumptions w). cn_approval_id c = aid \<and> cn_consumption_key c = key \<and> cn_event_id c = co_event_id r"
    | (use) g c q where "load_grant w aid = Inr g" "gr_status g \<in> set CONSUMABLE"
      "gr_valid_from g \<le> now" "now < gr_expires_at g" "target = (gr_subject_type g, gr_subject_id g)"
      "pred_option (\<lambda>m. int (length (uses_in (aw_consumptions w) aid)) < m) (gr_max_uses g)"
      "cn_approval_id c = aid" "cn_consumption_key c = key" "cn_event_id c = co_event_id r"
      "key \<notin> cn_consumption_key ` set (uses_in (aw_consumptions w) aid)"
      "aw_decisions w' = aw_decisions w" "aw_consumptions w' = aw_consumptions w @ [c]"
      "co_status r = status_after_consumption (int (length (uses_in (aw_consumptions w) aid)) + 1) (gr_max_uses g)"
      "aw_grants w' = grants_with aid (co_status r) q (aw_grants w)"
      "\<not> co_replayed r" "co_used_count r = int (length (uses_in (aw_consumptions w) aid)) + 1"
proof -
  obtain g where g: "load_grant w aid = Inr g" using assms by (auto simp: consume_approval_def res_simps)
  note eq = assms [unfolded consume_approval_def g bind_res_Inr Let_def uses_of_in]
  let ?us = "uses_in (aw_consumptions w) aid"
  show thesis
  proof (cases "List.find (\<lambda>c. cn_consumption_key c = key) ?us")
    case (Some prior)
    then have "prior \<in> set ?us" "cn_consumption_key prior = key" by (auto simp: find_Some_iff)
    then show thesis using eq Some by (intro retry) (auto simp: uses_in_def)
  next
    case None
    have m: "pred_option (\<lambda>m. int (length ?us) < m) (gr_max_uses g)"
      using eq None by (cases "gr_max_uses g") (auto split: if_splits)
    obtain w1 res pl where app: "approval_append E g ''APPROVAL_CONSUMED'' actor corr ''consume''
        (aid @ '':'' @ key) pl w = Inr (w1, res)"
      and st: "gr_status g \<in> set CONSUMABLE" "gr_valid_from g \<le> now" "now < gr_expires_at g"
        "target = (gr_subject_type g, gr_subject_id g)"
      and w': "w' = project_view g (status_after_consumption (int (length ?us) + 1) (gr_max_uses g)) (res_event_id res) now
          (set_grant_status aid (status_after_consumption (int (length ?us) + 1) (gr_max_uses g)) (res_aggregate_seq res)
            (w1\<lparr>aw_consumptions := aw_consumptions w1 @ [\<lparr>cn_approval_id = aid, cn_consumption_key = key,
               cn_consumed_by = actor, cn_consumed_for_type = fst target, cn_consumed_for_id = snd target,
               cn_event_id = res_event_id res\<rparr>]\<rparr>))"
      and r: "r = \<lparr>co_approval_id = aid, co_consumption_key = key, co_used_count = int (length ?us) + 1,
         co_status = status_after_consumption (int (length ?us) + 1) (gr_max_uses g),
         co_event_id = res_event_id res, co_replayed = False\<rparr>"
      by (rule consume_new [OF assms g None])
    have key: "key \<notin> cn_consumption_key ` set ?us" using None by (auto simp: find_None_iff)
    show thesis
      by (rule use [OF g st m _ _ _ key, where q = "res_aggregate_seq res" and c = "\<lparr>cn_approval_id = aid,
          cn_consumption_key = key, cn_consumed_by = actor, cn_consumed_for_type = fst target,
          cn_consumed_for_id = snd target, cn_event_id = res_event_id res\<rparr>"])
        (use w' r approval_append_tables [OF app] in simp_all)
  qed
qed

lemma consume_keeps:
  assumes "consume_approval E now aid key actor target corr w = Inr (w', r)" and inv: "approval_inv w"
  shows "approval_inv w'"
  using assms(1)
proof (cases rule: consume_effect)
  case retry
  then show ?thesis using inv by simp
next
  case (use g c q)
  note gf = load_grant_found [OF use(1)] and di = ledger_invD [OF inv]
  have ok: "grant_ok (aw_decisions w) (aw_consumptions w) g" using di(4) [OF gf(1)] .
  let ?n = "int (length (uses_in (aw_consumptions w) aid))"
  have "grant_ok (aw_decisions w @ []) (aw_consumptions w @ [c]) (g\<lparr>gr_status := co_status r, gr_aggregate_seq := q\<rparr>)"
    using ok use(2,6,7,13) gf(2)
    unfolding grant_ok_def Let_def needed_def independent_decision_def CONSUMABLE_def status_after_consumption_def
    by (cases "gr_max_uses g") auto
  moreover have "(aid, key) \<notin> (\<lambda>c. (cn_approval_id c, cn_consumption_key c)) ` set (aw_consumptions w)"
    using use(10) by (auto simp: uses_in_def)
  ultimately have "ledger_inv (replace_grant (g\<lparr>gr_status := co_status r, gr_aggregate_seq := q\<rparr>) (aw_grants w))
      (aw_decisions w @ []) (aw_consumptions w @ [c])"
    using di(2,3) use(7,8) gf(2) by (intro ledger_update [OF inv gf(1)]) auto
  then show ?thesis using use(11,12,14) grants_with_replaces [OF di(1) gf(1)] gf(2) by simp
qed

subsection \<open>Requests\<close>

lemma request_effect:
  assumes "request_approval E c now q w = Inr (w', r)"
  obtains (again) "w' = w"
    | (new) g where "gr_approval_id g \<notin> gr_approval_id ` set (aw_grants w)" "gr_status g = PENDING"
      "pred_option (\<lambda>m. 0 < m) (gr_max_uses g)" "gr_valid_from g < gr_expires_at g"
      "aw_grants w' = aw_grants w @ [g]" "aw_decisions w' = aw_decisions w" "aw_consumptions w' = aw_consumptions w"
proof -
  obtain risk qr where m: "\<not> (qa_max_uses q \<noteq> None \<and> the (qa_max_uses q) \<le> 0)"
    and ex: "now < request_expiry now (qa_valid_for q)"
    and rest: "w' = w \<or> create_request E now q risk (request_expiry now (qa_valid_for q)) qr w = Inr (w', r)"
    using assms by (auto simp: request_approval_def Let_def res_simps split: option.splits if_splits)
  show thesis
  proof (cases "w' = w")
    case True
    then show thesis by (rule again)
  next
    case False
    then obtain aid g w1 w2 res where g: "g = new_grant q aid risk now (request_expiry now (qa_valid_for q)) qr"
      and ins: "insert_grant g (w\<lparr>aw_drawn := aw_drawn w + 1\<rparr>) = Inr w1"
      and app: "approval_append E g ''APPROVAL_REQUESTED'' (qa_requested_by q) (qa_correlation_id q) ''request''
           (qa_idempotency_key q) (requested_payload g) w1 = Inr (w2, res)"
      and w': "w' = project_view g PENDING (res_event_id res) now (set_grant_status aid PENDING (res_aggregate_seq res) w2)"
      using rest by (auto simp: create_request_def Let_def res_simps)
    have gid: "gr_approval_id g = aid" using g by (simp add: new_grant_def)
    have fresh: "aid \<notin> gr_approval_id ` set (aw_grants w)" and w1: "w1 = w\<lparr>aw_drawn := aw_drawn w + 1, aw_grants := aw_grants w @ [g]\<rparr>"
      using ins gid by (auto simp: insert_grant_def list_ex_iff split: if_splits)
    have "grants_with aid PENDING (res_aggregate_seq res) (aw_grants w @ [g]) =
        aw_grants w @ [g\<lparr>gr_status := PENDING, gr_aggregate_seq := res_aggregate_seq res\<rparr>]"
      using grants_with_absent [OF fresh] gid by (simp add: grants_with_def)
    then show thesis
      using new [of "g\<lparr>gr_status := PENDING, gr_aggregate_seq := res_aggregate_seq res\<rparr>"] w'
        approval_append_tables [OF app] w1 fresh gid g m ex
      by (cases "qa_max_uses q") (simp_all add: new_grant_def)
  qed
qed

lemma request_keeps:
  assumes "request_approval E c now q w = Inr (w', r)" and inv: "approval_inv w"
  shows "approval_inv w'"
  using assms(1)
proof (cases rule: request_effect)
  case again
  then show ?thesis using inv by simp
next
  case (new g)
  have "de_approval_id d \<noteq> gr_approval_id g" if "d \<in> set (aw_decisions w)" for d
    using inv that new(1) unfolding ledger_inv_def by (metis image_eqI subsetD)
  moreover have "cn_approval_id u \<noteq> gr_approval_id g" if "u \<in> set (aw_consumptions w)" for u
    using inv that new(1) unfolding ledger_inv_def by (metis image_eqI subsetD)
  ultimately have none: "decisions_in (aw_decisions w) (gr_approval_id g) = []"
    "uses_in (aw_consumptions w) (gr_approval_id g) = []"
    by (simp_all add: decisions_in_def uses_in_def filter_empty_conv)
  then have "grant_ok (aw_decisions w) (aw_consumptions w) g"
    using new(2-4) by (cases "gr_max_uses g") (auto simp: grant_ok_def Let_def needed_def approvals_in_def)
  then show ?thesis using inv new(1,5-7) unfolding ledger_inv_def by (simp add: subset_insertI2)
qed

lemma approval_step_keeps: "approval_step E w w' \<Longrightarrow> approval_inv w \<Longrightarrow> approval_inv w'"
  by (induction rule: approval_step.induct)
    (auto simp: cancel_approval_def revoke_approval_def res_simps split: if_splits
      dest: request_keeps decide_keeps terminate_keeps expire_keeps consume_keeps)

lemma approval_steps_keep:
  assumes "approval_steps E w w'" and "approval_inv w"
  shows "approval_inv w'"
  using assms by (induction rule: rtranclp_induct) (auto intro: approval_step_keeps)

lemma fresh_inv: "fresh_world w \<Longrightarrow> approval_inv w"
  by (simp add: fresh_world_def ledger_inv_def)

section \<open>What never changes\<close>

definition settled :: "approval_grant \<Rightarrow> 's approval_world \<Rightarrow> 's approval_world \<Rightarrow> bool" where
  "settled g w w' \<longleftrightarrow> g \<in> set (aw_grants w') \<and>
     uses_of w' (gr_approval_id g) = uses_of w (gr_approval_id g) \<and>
     decisions_of w' (gr_approval_id g) = decisions_of w (gr_approval_id g)"

lemma settled_trans: "settled g w w' \<Longrightarrow> settled g w' w'' \<Longrightarrow> settled g w w''"
  by (simp add: settled_def)

text \<open>A transaction on another grant settles this one.\<close>

lemma settled_other:
  assumes "g \<in> set (aw_grants w)" and "aid \<noteq> gr_approval_id g"
    and "aw_grants w' = grants_with aid st q (aw_grants w)"
    and "aw_decisions w' = aw_decisions w @ ds" "\<forall>d \<in> set ds. de_approval_id d = aid"
    and "aw_consumptions w' = aw_consumptions w @ us" "\<forall>u \<in> set us. cn_approval_id u = aid"
  shows "settled g w w'"
proof -
  have "g \<in> set (grants_with aid st q (aw_grants w))"
    using assms(1,2) unfolding grants_with_def by (auto intro: image_eqI [of _ _ g])
  then show ?thesis
    using assms by (auto simp: settled_def uses_of_def decisions_of_def filter_empty_conv)
qed

lemma running_differs:
  assumes "approval_inv w" and "g \<in> set (aw_grants w)" and "gr_status g \<in> set APPROVAL_TERMINAL"
    and "load_grant w aid = Inr h" and "gr_status h \<notin> set APPROVAL_TERMINAL"
  shows "aid \<noteq> gr_approval_id g"
  using assms load_grant_unique [OF ledger_invD(1) [OF assms(1)] assms(2)] by auto

lemma terminate_settles:
  assumes "terminate_approval E now aid ev actor corr key reason sc w = Inr (w', r)"
    and "approval_inv w" and "g \<in> set (aw_grants w)" and "gr_status g \<in> set APPROVAL_TERMINAL"
  shows "settled g w w'" and "aid \<noteq> gr_approval_id g"
proof -
  obtain h st where h: "load_grant w aid = Inr h" and ns: "approval_next_status (gr_status h) ev = Inr st"
    and eff: "aw_grants w' = grants_with aid st (res_aggregate_seq r) (aw_grants w)"
      "aw_decisions w' = aw_decisions w" "aw_consumptions w' = aw_consumptions w"
    using terminate_effect [OF assms(1)] .
  show ne: "aid \<noteq> gr_approval_id g"
    using running_differs [OF assms(2-4) h] approval_next_status_cases(1) [OF ns] by blast
  show "settled g w w'" using settled_other [OF assms(3) ne eff(1), of "[]" "[]"] eff by simp
qed

lemma expire_one_settles:
  assumes "expire_one E now role actor corr aid w = Inr w'"
    and "approval_inv w" and "g \<in> set (aw_grants w)" and "gr_status g \<in> set APPROVAL_TERMINAL"
  shows "settled g w w'"
proof -
  obtain w1 r1 h w2 r2 where t: "terminate_approval E now aid ''APPROVAL_EXPIRED'' actor corr (''expire:'' @ aid)
      ''EXPIRED'' ''expire'' w = Inr (w1, r1)"
    and app: "approval_append E h ''APPROVAL_ESCALATED'' actor corr ''escalate'' (''escalate:'' @ aid)
      [(''approval_id'', JStr aid), (''escalated_to_role'', JStr role)] w1 = Inr (w2, r2)"
    and w': "w' = project_view h EXPIRED (res_event_id r2) now (set_grant_status aid EXPIRED (res_aggregate_seq r2) w2)"
    using assms(1) by (auto simp: expire_one_def res_simps)
  note ts = terminate_settles [OF t assms(2-4)]
  have "settled g w1 w'"
    using settled_other [of g w1 aid w' EXPIRED "res_aggregate_seq r2" "[]" "[]"] ts w' approval_append_tables [OF app]
    by (simp add: settled_def)
  with ts(1) show ?thesis by (rule settled_trans)
qed

lemma expire_settles:
  assumes "expire_approvals E now role actor corr ws w = Inr (w', ids)"
    and "approval_inv w" and "g \<in> set (aw_grants w)" and "gr_status g \<in> set APPROVAL_TERMINAL"
  shows "settled g w w'"
proof -
  have f: "fold_res (expire_one E now role actor corr) (due_ids now ws w) w = Inr w'"
    using assms(1) by (auto simp: expire_approvals_def Let_def res_simps)
  have "approval_inv w' \<and> settled g w w'"
  proof (rule fold_res_invariant [where P = "\<lambda>u. approval_inv u \<and> settled g w u", OF _ _ f])
    fix aid u u'
    assume "approval_inv u \<and> settled g w u" "expire_one E now role actor corr aid u = Inr u'"
    then show "approval_inv u' \<and> settled g w u'"
      using expire_one_keeps expire_one_settles assms(4) settled_trans by (metis settled_def)
  qed (use assms(2,3) in \<open>simp add: settled_def\<close>)
  then show ?thesis by blast
qed

lemma approval_step_settles:
  assumes "approval_step E w w'" and "approval_inv w" and "g \<in> set (aw_grants w)"
    and "gr_status g \<in> set APPROVAL_TERMINAL"
  shows "settled g w w'"
  using assms
proof (induction rule: approval_step.induct)
  case (requested c now q w w' r)
  from requested(1) show ?case
  proof (cases rule: request_effect)
    case again
    then show ?thesis using requested(3) by (simp add: settled_def)
  next
    case (new h)
    then show ?thesis using requested(3) by (simp add: settled_def uses_of_def decisions_of_def)
  qed
next
  case (decided A c now a w log' w' r)
  obtain h p ev st q where h: "load_grant w (da_approval_id a) = Inr h" "gr_status h = PENDING"
    and "qualifies A c w (da_approver_account_id a) h (map de_decided_by (decisions_of w (da_approval_id a)))
      (da_reauth_verified a) now (da_correlation_id a) p"
    and eff: "aw_decisions w' = aw_decisions w @ [decision_row a (pr_account_uuid p) (da_decision a) ev]"
      "aw_consumptions w' = aw_consumptions w" "aw_grants w' = grants_with (da_approval_id a) st q (aw_grants w)"
    and "decision_move h (card (set (map de_decided_by (decisions_of w (da_approval_id a))))) (da_decision a) st"
    using decide_effect [OF decided(1) ledger_invD(1) [OF decided(2)]] .
  have "da_approval_id a \<noteq> gr_approval_id g"
    using running_differs [OF decided(2-4) h(1)] h(2) by (simp add: APPROVAL_TERMINAL_def)
  then show ?case
    using settled_other [OF decided(3) _ eff(3) eff(1), of "[]"] eff(2) by (simp add: decision_row_def)
next
  case (denied A c now a w log' e)
  then show ?case by (simp add: settled_def uses_of_def decisions_of_def)
next
  case (cancelled now aid actor corr key reason w w' r)
  then show ?case by (auto simp: cancel_approval_def res_simps split: if_splits intro: terminate_settles)
next
  case (revoked now aid actor corr key reason w w' r)
  then show ?case by (auto simp: revoke_approval_def intro: terminate_settles)
next
  case (expired now role actor corr ws w w' ids)
  then show ?case by (rule expire_settles)
next
  case (consumed now aid key actor target corr w w' r)
  from consumed(1) show ?case
  proof (cases rule: consume_effect)
    case retry
    then show ?thesis using consumed(3) by (simp add: settled_def)
  next
    case (use h c q)
    have "aid \<noteq> gr_approval_id g"
      using running_differs [OF consumed(2-4) use(1)] use(2) by (auto simp: APPROVAL_TERMINAL_def CONSUMABLE_def)
    then show ?thesis
      using settled_other [OF consumed(3) _ use(14), of "[]" "[c]"] use(7,11,12) by simp
  qed
next
  case (elsewhere w' w)
  then show ?case by (simp add: settled_def uses_of_def decisions_of_def)
qed

lemma approval_steps_settle:
  assumes "approval_steps E w w'" and "approval_inv w" and "g \<in> set (aw_grants w)"
    and "gr_status g \<in> set APPROVAL_TERMINAL"
  shows "settled g w w'"
  using assms(1)
proof (induction rule: rtranclp_induct)
  case base
  then show ?case using assms(3) by (simp add: settled_def)
next
  case (step y z)
  have "approval_inv y" using step(1) assms(2) by (rule approval_steps_keep)
  then have "settled g y z" using approval_step_settles [OF step(2)] step(3) assms(4) by (simp add: settled_def)
  with step(3) show ?case by (rule settled_trans)
qed

end
