(* ===== verification/Approval_Commands.thy ===== *)
theory Approval_Commands
  imports Approval_Runs
begin

text \<open>
  The approval commands of the bus: \<^verbatim>\<open>src/server/application/approvals.py\<close>. Every command runs in one
  transaction; a handler that raises leaves the world as it was, except for the audit rows of
  refused permissions and refused approvers. \<open>bs_parse_uuid\<close> is the constructor \<^verbatim>\<open>uuid.UUID\<close>.
\<close>

section \<open>Commands\<close>

record request_fields =
  rf_subject_type :: string
  rf_subject_id :: string
  rf_action :: string
  rf_risk :: "string option"
  rf_resource_scope :: pydict
  rf_valid_for_seconds :: "int option"
  rf_max_uses :: "int option"
  rf_implementing_agent :: "string option"
  rf_channel :: "string option"
  rf_requires_human :: bool

datatype approval_command =
    RequestApproval request_fields
  | DecideApproval string string string
      \<comment> \<open>approval, decision, reason code\<close>
  | CancelApproval string string
  | RevokeApproval string string
  | ExpireApprovals
  | ConsumeApproval string string string string
      \<comment> \<open>approval, consumption key, subject type, subject\<close>

record approval_context =
  vc_workspace_id :: string
  vc_account_id :: string
  vc_account_uuid :: string
  vc_fingerprint :: string
  vc_mfa_verified :: bool
  vc_reauth_verified :: bool
  vc_correlation_id :: string
  vc_idempotency_key :: string
  vc_now :: time

record 's approval_bus =
  bs_env :: "'s approval_env"
  bs_authorizer :: "authz_env option"
  bs_policy_authorizer :: "authz_env option"
  bs_catalog :: policy_catalog
  bs_prims :: prims
  bs_jsonb :: "pydict \<Rightarrow> pydict"
  bs_escalation_role :: string
  bs_parse_uuid :: "string \<Rightarrow> string option"

record approval_result =
  vr_resource_id :: string
  vr_event_id :: string
  vr_aggregate_seq :: int
  vr_replayed :: bool
  vr_data :: pydict

section \<open>Handlers\<close>

text \<open>The authorizer of the decision path, with the default of the handler.\<close>

definition decision_authorizer :: "'s approval_bus \<Rightarrow> approval_context \<Rightarrow> authz_env" where
  "decision_authorizer B cx =
     (case bs_policy_authorizer B of Some A \<Rightarrow> A
      | None \<Rightarrow> (case bs_authorizer B of Some A \<Rightarrow> A
        | None \<Rightarrow> \<lparr>ae_prims = bs_prims B, ae_jsonb = bs_jsonb B, ae_catalog = bs_catalog B,
            ae_now = vc_now cx, ae_audit_now = vc_now cx\<rparr>))"

text \<open>\<^verbatim>\<open>uuid.UUID(x) if x else None\<close>\<close>

definition uuid_field :: "'s approval_bus \<Rightarrow> string option \<Rightarrow> string option res" where
  "uuid_field B x =
     (if truthy x then (case bs_parse_uuid B (the x) of None \<Rightarrow> Inl ''ValueError'' | Some u \<Rightarrow> Inr (Some u))
      else Inr None)"

definition handle_request ::
  "'s approval_bus \<Rightarrow> approval_context \<Rightarrow> request_fields \<Rightarrow> 's approval_world \<Rightarrow> ('s approval_world \<times> approval_result) res" where
  "handle_request B cx f w =
     bind_res (uuid_field B (rf_implementing_agent f)) (\<lambda>agent.
     bind_res (uuid_field B (rf_channel f)) (\<lambda>channel.
     bind_res (request_approval (bs_env B) (bs_catalog B) (vc_now cx)
         \<lparr>qa_workspace = vc_workspace_id cx, qa_requested_by = vc_account_uuid cx,
          qa_subject_type = rf_subject_type f, qa_subject_id = rf_subject_id f, qa_action = rf_action f,
          qa_correlation_id = vc_correlation_id cx, qa_idempotency_key = vc_idempotency_key cx,
          qa_resource_scope = rf_resource_scope f, qa_risk = rf_risk f,
          qa_valid_for = (case rf_valid_for_seconds f of None \<Rightarrow> None
            | Some n \<Rightarrow> if n = 0 then None else Some (seconds n)),
          qa_max_uses = rf_max_uses f, qa_implementing_agent = agent, qa_channel = channel,
          qa_requires_human = rf_requires_human f\<rparr> w) (\<lambda>(w', r).
       Inr (w', \<lparr>vr_resource_id = rr_approval_id r, vr_event_id = res_event_id (rr_event r),
         vr_aggregate_seq = res_aggregate_seq (rr_event r), vr_replayed = res_replayed (rr_event r),
         vr_data = [(''risk'', JStr (rr_risk r)), (''quorum_required'', JInt (rr_quorum_required r)),
           (''expires_at'', JStr (py_isoformat (rr_expires_at r)))]\<rparr>))))"

definition handle_decide ::
  "'s approval_bus \<Rightarrow> approval_context \<Rightarrow> string \<Rightarrow> string \<Rightarrow> string \<Rightarrow> 's approval_world
    \<Rightarrow> audit_log \<times> ('s approval_world \<times> approval_result) res" where
  "handle_decide B cx approval_id decision reason_code w =
     (case decide_approval (bs_env B) (decision_authorizer B cx) (bs_catalog B) (vc_now cx)
         \<lparr>da_approval_id = approval_id, da_approver_account_id = vc_account_id cx, da_decision = decision,
          da_credential_fingerprint = vc_fingerprint cx,
          da_reauth_verified = (vc_reauth_verified cx \<or> vc_mfa_verified cx),
          da_correlation_id = vc_correlation_id cx, da_idempotency_key = vc_idempotency_key cx,
          da_reason_code = reason_code\<rparr> w of
        (log', r) \<Rightarrow> (log', bind_res r (\<lambda>(w', d).
          Inr (w', \<lparr>vr_resource_id = dr_approval_id d,
            vr_event_id = (case dr_event d of None \<Rightarrow> [] | Some e \<Rightarrow> res_event_id e),
            vr_aggregate_seq = (case dr_event d of None \<Rightarrow> 0 | Some e \<Rightarrow> res_aggregate_seq e),
            vr_replayed = False,
            vr_data = [(''status'', JStr (approval_status_value (dr_status d))),
              (''approvals_recorded'', JInt (dr_approvals_recorded d)),
              (''quorum_required'', JInt (dr_quorum_required d))]\<rparr>))))"

definition appended_result :: "string \<Rightarrow> 's approval_world \<times> append_result \<Rightarrow> 's approval_world \<times> approval_result" where
  "appended_result approval_id = (\<lambda>(w, r).
     (w, \<lparr>vr_resource_id = approval_id, vr_event_id = res_event_id r, vr_aggregate_seq = res_aggregate_seq r,
       vr_replayed = res_replayed r, vr_data = []\<rparr>))"

definition handle_cancel ::
  "'s approval_bus \<Rightarrow> approval_context \<Rightarrow> string \<Rightarrow> string \<Rightarrow> 's approval_world \<Rightarrow> ('s approval_world \<times> approval_result) res" where
  "handle_cancel B cx approval_id reason_code w =
     bind_res (cancel_approval (bs_env B) (vc_now cx) approval_id (vc_account_uuid cx) (vc_correlation_id cx)
       (vc_idempotency_key cx) reason_code w) (\<lambda>x. Inr (appended_result approval_id x))"

definition handle_revoke ::
  "'s approval_bus \<Rightarrow> approval_context \<Rightarrow> string \<Rightarrow> string \<Rightarrow> 's approval_world \<Rightarrow> ('s approval_world \<times> approval_result) res" where
  "handle_revoke B cx approval_id reason_code w =
     bind_res (revoke_approval (bs_env B) (vc_now cx) approval_id (vc_account_uuid cx) (vc_correlation_id cx)
       (vc_idempotency_key cx) reason_code w) (\<lambda>x. Inr (appended_result approval_id x))"

definition handle_expire ::
  "'s approval_bus \<Rightarrow> approval_context \<Rightarrow> 's approval_world \<Rightarrow> ('s approval_world \<times> approval_result) res" where
  "handle_expire B cx w =
     bind_res (expire_approvals (bs_env B) (vc_now cx) (bs_escalation_role B) (vc_account_uuid cx)
       (vc_correlation_id cx) (Some (vc_workspace_id cx)) w) (\<lambda>(w', ids).
       Inr (w', \<lparr>vr_resource_id = [], vr_event_id = [], vr_aggregate_seq = 0, vr_replayed = False,
         vr_data = [(''expired'', JArr (map JStr ids)), (''escalated_to'', JStr (bs_escalation_role B))]\<rparr>))"

definition handle_consume ::
  "'s approval_bus \<Rightarrow> approval_context \<Rightarrow> string \<Rightarrow> string \<Rightarrow> string \<Rightarrow> string \<Rightarrow> 's approval_world
    \<Rightarrow> ('s approval_world \<times> approval_result) res" where
  "handle_consume B cx approval_id key subject_type subject_id w =
     bind_res (consume_approval (bs_env B) (vc_now cx) approval_id key (vc_account_uuid cx)
       (subject_type, subject_id) (vc_correlation_id cx) w) (\<lambda>(w', r).
       Inr (w', \<lparr>vr_resource_id = co_approval_id r, vr_event_id = co_event_id r, vr_aggregate_seq = 0,
         vr_replayed = co_replayed r,
         vr_data = [(''used_count'', JInt (co_used_count r)), (''status'', JStr (approval_status_value (co_status r)))]\<rparr>))"

section \<open>One bus call\<close>

text \<open>The permission a handler requires first: permission, action and channel.\<close>

fun command_permission :: "approval_command \<Rightarrow> (string \<times> string \<times> string option) option" where
  "command_permission (RequestApproval f) = Some (''approval.request'', ''api:approval_request'', rf_channel f)"
| "command_permission (DecideApproval _ _ _) = None"
| "command_permission (CancelApproval _ _) = Some (''approval.request'', ''api:approval_request'', None)"
| "command_permission (RevokeApproval _ _) = Some (''approval.revoke'', ''api:approval_revoke'', None)"
| "command_permission ExpireApprovals = Some (''approval.revoke'', ''api:approval_revoke'', None)"
| "command_permission (ConsumeApproval _ _ _ _) = None"

definition permission_request :: "approval_context \<Rightarrow> string \<times> string \<times> string option \<Rightarrow> authorization_request" where
  "permission_request cx = (\<lambda>(permission, action, channel).
     \<lparr>az_permission = permission, az_action = Some action, az_domain = None, az_channel_id = channel,
      az_resource = None, az_side_effect = False, az_required_capability = None,
      az_correlation_id = vc_correlation_id cx, az_target_type = ''action'', az_target_id = ''-''\<rparr>)"

fun handle_approval ::
  "'s approval_bus \<Rightarrow> approval_context \<Rightarrow> approval_command \<Rightarrow> 's approval_world
    \<Rightarrow> audit_log \<times> ('s approval_world \<times> approval_result) res" where
  "handle_approval B cx (RequestApproval f) w = (aw_log w, handle_request B cx f w)"
| "handle_approval B cx (DecideApproval aid dec reason) w = handle_decide B cx aid dec reason w"
| "handle_approval B cx (CancelApproval aid reason) w = (aw_log w, handle_cancel B cx aid reason w)"
| "handle_approval B cx (RevokeApproval aid reason) w = (aw_log w, handle_revoke B cx aid reason w)"
| "handle_approval B cx ExpireApprovals w = (aw_log w, handle_expire B cx w)"
| "handle_approval B cx (ConsumeApproval aid key ty sid) w = (aw_log w, handle_consume B cx aid key ty sid w)"

definition run_approval ::
  "'s approval_bus \<Rightarrow> approval_context \<Rightarrow> approval_command \<Rightarrow> 's approval_world \<Rightarrow> 's approval_world \<times> approval_result res" where
  "run_approval B cx cmd w =
     (if vc_idempotency_key cx = [] then (w, Inl ''IDEMPOTENCY_KEY_REQUIRED'')
      else let (log', allowed) = (case command_permission cmd of
          None \<Rightarrow> (aw_log w, Inr ())
        | Some p \<Rightarrow> require_permission (bs_authorizer B) (aw_db w) (aw_log w) (vc_account_id cx) (permission_request cx p))
      in case allowed of
        Inl e \<Rightarrow> (w\<lparr>aw_log := log'\<rparr>, Inl e)
      | Inr _ \<Rightarrow>
          (case handle_approval B cx cmd w of
             (log'', Inl e) \<Rightarrow> (w\<lparr>aw_log := log''\<rparr>, Inl e)
           | (log'', Inr (w', r)) \<Rightarrow> (w', Inr r)))"

definition run_approvals ::
  "'s approval_bus \<Rightarrow> (approval_context \<times> approval_command) list \<Rightarrow> 's approval_world \<Rightarrow> 's approval_world" where
  "run_approvals B cmds w = fold (\<lambda>(cx, cmd) w. fst (run_approval B cx cmd w)) cmds w"

section \<open>Bus calls are steps\<close>

lemma log_step: "approval_step E w (w\<lparr>aw_log := l\<rparr>)"
  by (rule approval_step.elsewhere) simp_all

lemma handle_approval_step:
  assumes "handle_approval B cx cmd w = (log', Inr (w', r))"
  shows "approval_step (bs_env B) w w'"
proof (cases cmd)
  case (RequestApproval f)
  then show ?thesis using assms
    by (auto simp: handle_request_def res_simps intro: approval_step.requested)
next
  case (DecideApproval aid dec reason)
  then show ?thesis using assms
    by (auto simp: handle_decide_def res_simps split: prod.splits intro: approval_step.decided)
next
  case (CancelApproval aid reason)
  then show ?thesis using assms
    by (auto simp: handle_cancel_def res_simps appended_result_def intro: approval_step.cancelled)
next
  case (RevokeApproval aid reason)
  then show ?thesis using assms
    by (auto simp: handle_revoke_def res_simps appended_result_def intro: approval_step.revoked)
next
  case ExpireApprovals
  then show ?thesis using assms
    by (auto simp: handle_expire_def res_simps intro: approval_step.expired)
next
  case (ConsumeApproval aid key ty sid)
  then show ?thesis using assms
    by (auto simp: handle_consume_def res_simps intro: approval_step.consumed)
qed

lemma run_approval_step: "approval_steps (bs_env B) w (fst (run_approval B cx cmd w))"
proof -
  obtain log1 a1 where p: "(case command_permission cmd of None \<Rightarrow> (aw_log w, Inr ())
      | Some p \<Rightarrow> require_permission (bs_authorizer B) (aw_db w) (aw_log w) (vc_account_id cx) (permission_request cx p)) =
      (log1, a1)"
    by fastforce
  show ?thesis
  proof (cases a1)
    case (Inl e)
    then show ?thesis using p log_step [of "bs_env B" w] by (auto simp: run_approval_def Let_def)
  next
    case (Inr u)
    obtain log2 r where h: "handle_approval B cx cmd w = (log2, r)" by fastforce
    show ?thesis
    proof (cases r)
      case (Inl e)
      then show ?thesis using p Inr h log_step [of "bs_env B" w] by (auto simp: run_approval_def Let_def)
    next
      case ok: (Inr x)
      obtain w' y where "x = (w', y)" by (cases x)
      then show ?thesis using p Inr h ok handle_approval_step [of B cx cmd w log2 w' y] by (auto simp: run_approval_def Let_def)
    qed
  qed
qed

lemma run_approvals_steps: "approval_steps (bs_env B) w (run_approvals B cmds w)"
proof (induction cmds rule: rev_induct)
  case (snoc c cmds)
  then show ?case
    using run_approval_step [of B "run_approvals B cmds w" "fst c" "snd c"]
    by (simp add: run_approvals_def case_prod_beta)
qed (simp add: run_approvals_def)

end
