(* ===== verification/Approval_Projection.thy ===== *)
theory Approval_Projection
  imports Approval_Commands
begin

text \<open>
  The approvals projection: the read-after-write updates of \<^verbatim>\<open>src/server/approvals/service.py\<close> and the
  rebuild of \<^verbatim>\<open>src/server/projections/approvals.py\<close>. An Event's \<^verbatim>\<open>expires_at\<close> and \<^verbatim>\<open>occurred_at\<close> are
  texts that PostgreSQL casts to a timestamp; \<open>pj_time\<close> is that cast.
\<close>

section \<open>Rebuild\<close>

definition apply_status :: "string \<Rightarrow> string option" where
  "apply_status t = map_of [(''APPROVAL_GRANTED'', ''APPROVED''), (''APPROVAL_REJECTED'', ''REJECTED''),
     (''APPROVAL_CANCELLED'', ''CANCELLED''), (''APPROVAL_EXPIRED'', ''EXPIRED''), (''APPROVAL_REVOKED'', ''REVOKED'')] t"

definition update_views :: "string \<Rightarrow> (approval_view \<Rightarrow> approval_view) \<Rightarrow> approval_view list \<Rightarrow> approval_view list" where
  "update_views aid f = map (\<lambda>v. if vw_approval_id v = aid then f v else v)"

definition item_text :: "pydict \<Rightarrow> string \<Rightarrow> string res" where
  "item_text p k = (case get_str p k of None \<Rightarrow> Inl ''KeyError'' | Some s \<Rightarrow> Inr s)"

definition requested_view :: "(string \<Rightarrow> time) \<Rightarrow> event \<Rightarrow> approval_view res" where
  "requested_view pj_time e =
     (let p = ev_payload e in
      bind_res (item_text p ''subject_type'') (\<lambda>st.
      bind_res (item_text p ''subject_id'') (\<lambda>si.
      bind_res (item_text p ''action'') (\<lambda>ac.
      bind_res (item_text p ''risk'') (\<lambda>r.
      bind_res (item_text p ''expires_at'') (\<lambda>ex.
        Inr \<lparr>vw_approval_id = ev_aggregate_id e, vw_workspace = ev_workspace_id e, vw_subject_type = st,
          vw_subject_id = si, vw_action = ac, vw_risk = r, vw_status = ''PENDING'', vw_used_count = 0,
          vw_max_uses = get_int p ''max_uses'', vw_expires_at = pj_time ex,
          vw_requested_by = ev_actor_account_id e, vw_decided_by = [], vw_last_event_id = ev_event_id e,
          vw_updated_at = pj_time (ev_occurred_at e)\<rparr>))))))"

definition apply_approval ::
  "(string \<Rightarrow> time) \<Rightarrow> approval_decision list \<Rightarrow> event \<Rightarrow> approval_view list \<Rightarrow> approval_view list res" where
  "apply_approval pj_time ledger e views =
     (let aid = ev_aggregate_id e;
          deciders = map de_decided_by (filter (\<lambda>d. de_approval_id d = aid) ledger);
          seen = (\<lambda>v. v\<lparr>vw_last_event_id := ev_event_id e, vw_updated_at := pj_time (ev_occurred_at e)\<rparr>)
      in if ev_type e = ''APPROVAL_REQUESTED''
      then bind_res (requested_view pj_time e) (\<lambda>v.
        Inr (if list_ex (\<lambda>x. vw_approval_id x = aid) views then views else views @ [v]))
      else if ev_type e = ''APPROVAL_CONSUMED''
      then (case get_int (ev_payload e) ''used_count'' of
          None \<Rightarrow> Inl ''KeyError''
        | Some used \<Rightarrow> Inr (update_views aid (\<lambda>v. seen (v\<lparr>vw_used_count := used,
            vw_status := (if vw_max_uses v \<noteq> None \<and> used \<ge> the (vw_max_uses v) then ''CONSUMED'' else ''PARTIALLY_CONSUMED''),
            vw_decided_by := deciders\<rparr>)) views))
      else if ev_type e = ''APPROVAL_ESCALATED'' then Inr (update_views aid seen views)
      else (case apply_status (ev_type e) of
          None \<Rightarrow> Inr views
        | Some s \<Rightarrow> Inr (update_views aid (\<lambda>v. seen (v\<lparr>vw_status := s, vw_decided_by := deciders\<rparr>)) views)))"

definition rebuild_approvals ::
  "(string \<Rightarrow> time) \<Rightarrow> event list \<Rightarrow> string option \<Rightarrow> 's approval_world \<Rightarrow> ('s approval_world \<times> nat) res" where
  "rebuild_approvals pj_time log workspace w =
     (let mine = (\<lambda>ws. workspace = None \<or> workspace = Some ws);
          events = filter (\<lambda>e. ev_aggregate_type e = ''approval'' \<and> mine (ev_workspace_id e)) log
      in bind_res (fold_res (apply_approval pj_time (aw_decisions w)) events
           (filter (\<lambda>v. \<not> mine (vw_workspace v)) (aw_views w))) (\<lambda>views.
         Inr (w\<lparr>aw_views := views\<rparr>, length events)))"

section \<open>The live projection\<close>

text \<open>The row a grant should have, from the tables that decide.\<close>

definition view_of :: "'s approval_world \<Rightarrow> approval_grant \<Rightarrow> approval_view \<Rightarrow> bool" where
  "view_of w g v \<longleftrightarrow>
     vw_workspace v = gr_workspace g \<and> vw_subject_type v = gr_subject_type g \<and> vw_subject_id v = gr_subject_id g \<and>
     vw_action v = gr_action g \<and> vw_risk v = gr_risk g \<and> vw_status v = approval_status_value (gr_status g) \<and>
     vw_used_count v = int (length (uses_of w (gr_approval_id g))) \<and> vw_max_uses v = gr_max_uses g \<and>
     vw_expires_at v = gr_expires_at g \<and> vw_requested_by v = gr_requested_by g \<and>
     vw_decided_by v = map de_decided_by (decisions_of w (gr_approval_id g))"

definition views_ok :: "'s approval_world \<Rightarrow> bool" where
  "views_ok w \<longleftrightarrow> distinct (map vw_approval_id (aw_views w)) \<and>
     set (map vw_approval_id (aw_views w)) = set (map gr_approval_id (aw_grants w)) \<and>
     (\<forall>v \<in> set (aw_views w). \<forall>g \<in> set (aw_grants w). vw_approval_id v = gr_approval_id g \<longrightarrow> view_of w g v)"

text \<open>A transaction that ends by projecting the grant it changed keeps the projection right.\<close>

lemma view_of_cong:
  assumes "uses_of w' (gr_approval_id g) = uses_of w (gr_approval_id g)"
    and "decisions_of w' (gr_approval_id g) = decisions_of w (gr_approval_id g)"
  shows "view_of w' g v = view_of w g v"
  using assms by (simp add: view_of_def)

lemma grants_with_ids: "map gr_approval_id (grants_with aid st q gs) = map gr_approval_id gs"
  by (simp add: grants_with_def)

lemma grants_with_cases:
  assumes "h \<in> set (grants_with aid st q gs)"
  obtains (same) "h \<in> set gs" "gr_approval_id h \<noteq> aid"
    | (moved) g where "g \<in> set gs" "gr_approval_id g = aid" "h = g\<lparr>gr_status := st, gr_aggregate_seq := q\<rparr>"
proof -
  obtain g where g: "g \<in> set gs"
      "h = (if gr_approval_id g = aid then g\<lparr>gr_status := st, gr_aggregate_seq := q\<rparr> else g)"
    using assms by (auto simp: grants_with_def)
  then show thesis using same moved [of g] by (cases "gr_approval_id g = aid") auto
qed

lemma project_view_views:
  assumes "list_ex (\<lambda>v. vw_approval_id v = gr_approval_id g) (aw_views w)"
  shows "aw_views (project_view g st ev now w) = update_views (gr_approval_id g)
    (\<lambda>v. v\<lparr>vw_status := approval_status_value st, vw_used_count := int (length (uses_of w (gr_approval_id g))),
       vw_decided_by := map de_decided_by (decisions_of w (gr_approval_id g)), vw_last_event_id := ev,
       vw_updated_at := now\<rparr>) (aw_views w)"
  using assms by (simp add: project_view_def Let_def update_views_def)

lemma update_views_ids: "(\<And>v. vw_approval_id (f v) = vw_approval_id v) \<Longrightarrow>
    map vw_approval_id (update_views aid f vs) = map vw_approval_id vs"
  by (simp add: update_views_def)

lemma ledgers_project [simp]:
  "uses_of (project_view g st ev now w) a = uses_of w a" "decisions_of (project_view g st ev now w) a = decisions_of w a"
  by (simp_all add: uses_of_def decisions_of_def)

lemma project_sync:
  assumes ok: "views_ok w" and dist: "distinct (map gr_approval_id (aw_grants w))" and g: "g \<in> set (aw_grants w)"
    and w1: "aw_views w1 = aw_views w" "aw_grants w1 = grants_with (gr_approval_id g) st q (aw_grants w)"
    and other: "\<And>a. a \<noteq> gr_approval_id g \<Longrightarrow> uses_of w1 a = uses_of w a \<and> decisions_of w1 a = decisions_of w a"
  shows "views_ok (project_view g st ev now w1)"
proof -
  let ?aid = "gr_approval_id g"
  let ?w' = "project_view g st ev now w1"
  have ex: "list_ex (\<lambda>v. vw_approval_id v = ?aid) (aw_views w1)"
  proof -
    have "?aid \<in> vw_approval_id ` set (aw_views w1)" using ok g w1(1) by (simp add: views_ok_def)
    then show ?thesis by (auto simp: list_ex_iff)
  qed
  note vs = project_view_views [OF ex, of st ev now]
  have ids: "map vw_approval_id (aw_views ?w') = map vw_approval_id (aw_views w)"
    unfolding vs w1(1) by (rule update_views_ids) simp
  have rows: "view_of ?w' h v" if v: "v \<in> set (aw_views ?w')" and h: "h \<in> set (aw_grants ?w')"
    and same: "vw_approval_id v = gr_approval_id h" for v h
  proof -
    obtain u where u: "u \<in> set (aw_views w)" "v = (if vw_approval_id u = ?aid then u\<lparr>vw_status := approval_status_value st,
        vw_used_count := int (length (uses_of w1 ?aid)), vw_decided_by := map de_decided_by (decisions_of w1 ?aid),
        vw_last_event_id := ev, vw_updated_at := now\<rparr> else u)"
      using v unfolding vs w1(1) by (auto simp: update_views_def)
    have uid: "vw_approval_id u = vw_approval_id v" using u(2) by simp
    have "h \<in> set (grants_with ?aid st q (aw_grants w))" using h w1(2) by simp
    then show ?thesis
    proof (cases rule: grants_with_cases)
      case same': same
      then have "view_of w h u" using ok u(1) same uid by (simp add: views_ok_def)
      moreover have "v = u" using u(2) uid same same'(2) by simp
      ultimately show ?thesis using view_of_cong [of ?w' h w] other [OF same'(2)] by simp
    next
      case (moved k)
      then have "k = g" using dist g by (auto simp: distinct_map inj_on_def)
      then have "view_of w g u" using ok u(1) same uid moved(3) g by (simp add: views_ok_def)
      then show ?thesis
        using u(2) uid same moved(3) \<open>k = g\<close> by (simp add: view_of_def)
    qed
  qed
  have gids: "set (map gr_approval_id (aw_grants ?w')) = set (map gr_approval_id (aw_grants w))"
    using w1(2) grants_with_ids by (metis project_view_tables(1))
  show ?thesis unfolding views_ok_def ids gids using ok rows by (auto simp: views_ok_def)
qed

subsection \<open>Every service projects what it did\<close>

lemma approval_append_views: "approval_append E g ty actor corr sc key pl w = Inr (w', r) \<Longrightarrow> aw_views w' = aw_views w"
  by (auto simp: approval_append_def res_simps)

lemma set_grant_status_views [simp]: "aw_views (set_grant_status aid st q w) = aw_views w"
  by (simp add: set_grant_status_def)

lemma same_ledgers:
  assumes "aw_consumptions w' = aw_consumptions w" and "aw_decisions w' = aw_decisions w"
  shows "uses_of w' a = uses_of w a" and "decisions_of w' a = decisions_of w a"
  using assms by (simp_all add: uses_of_def decisions_of_def)

lemma terminate_views:
  assumes t: "terminate_approval E now aid ev actor corr key reason sc w = Inr (w', r)"
    and ok: "views_ok w" and dist: "distinct (map gr_approval_id (aw_grants w))"
  shows "views_ok w'"
proof -
  obtain g st pl w1 where g: "load_grant w aid = Inr g" and app: "approval_append E g ev actor corr sc key pl w = Inr (w1, r)"
    and w': "w' = project_view g st (res_event_id r) now (set_grant_status aid st (res_aggregate_seq r) w1)"
    using t by (auto simp: terminate_approval_def res_simps)
  note tb = approval_append_tables [OF app] and gf = load_grant_found [OF g]
  show ?thesis
    unfolding w' by (rule project_sync [OF ok dist gf(1), where q = "res_aggregate_seq r"])
      (use tb gf(2) approval_append_views [OF app] in \<open>simp_all add: uses_of_def decisions_of_def\<close>)
qed

lemma expire_one_views:
  assumes e: "expire_one E now role actor corr aid w = Inr w'"
    and ok: "views_ok w" and dist: "distinct (map gr_approval_id (aw_grants w))"
  shows "views_ok w' \<and> distinct (map gr_approval_id (aw_grants w'))"
proof -
  obtain w1 r1 g w2 r2 where t: "terminate_approval E now aid ''APPROVAL_EXPIRED'' actor corr (''expire:'' @ aid)
      ''EXPIRED'' ''expire'' w = Inr (w1, r1)" and g: "load_grant w1 aid = Inr g"
    and app: "approval_append E g ''APPROVAL_ESCALATED'' actor corr ''escalate'' (''escalate:'' @ aid)
      [(''approval_id'', JStr aid), (''escalated_to_role'', JStr role)] w1 = Inr (w2, r2)"
    and w': "w' = project_view g EXPIRED (res_event_id r2) now (set_grant_status aid EXPIRED (res_aggregate_seq r2) w2)"
    using e by (auto simp: expire_one_def res_simps)
  note tb = approval_append_tables [OF app] and gf = load_grant_found [OF g]
  have ids: "map gr_approval_id (aw_grants w1) = map gr_approval_id (aw_grants w)"
    by (rule terminate_effect [OF t]) (simp add: grants_with_ids)
  have "views_ok w'"
    unfolding w' by (rule project_sync [OF terminate_views [OF t ok dist] _ gf(1), where q = "res_aggregate_seq r2"])
      (use tb gf(2) ids dist approval_append_views [OF app] in \<open>simp_all add: uses_of_def decisions_of_def\<close>)
  then show ?thesis using w' tb ids dist by (simp add: grants_with_ids)
qed

lemma expire_views:
  assumes "expire_approvals E now role actor corr ws w = Inr (w', ids)"
    and "views_ok w" and "distinct (map gr_approval_id (aw_grants w))"
  shows "views_ok w'"
proof -
  have f: "fold_res (expire_one E now role actor corr) (due_ids now ws w) w = Inr w'"
    using assms(1) by (auto simp: expire_approvals_def Let_def res_simps)
  have "views_ok w' \<and> distinct (map gr_approval_id (aw_grants w'))"
    by (rule fold_res_invariant [where P = "\<lambda>u. views_ok u \<and> distinct (map gr_approval_id (aw_grants u))", OF _ _ f])
      (use assms(2,3) expire_one_views in blast)+
  then show ?thesis by blast
qed

lemma consume_views:
  assumes c: "consume_approval E now aid key actor target corr w = Inr (w', r)"
    and ok: "views_ok w" and dist: "distinct (map gr_approval_id (aw_grants w))"
  shows "views_ok w'"
proof -
  obtain g where g: "load_grant w aid = Inr g" using c by (auto simp: consume_approval_def res_simps)
  show ?thesis
  proof (cases "List.find (\<lambda>c. cn_consumption_key c = key) (uses_in (aw_consumptions w) aid)")
    case (Some u)
    then show ?thesis using c g ok by (simp add: consume_approval_def uses_of_in Let_def)
  next
    case None
    note gf = load_grant_found [OF g]
    show ?thesis
    proof (rule consume_new [OF c g None])
      fix w1 and res :: append_result and pl
      let ?st = "status_after_consumption (int (length (uses_in (aw_consumptions w) aid)) + 1) (gr_max_uses g)"
      let ?u = "\<lparr>cn_approval_id = aid, cn_consumption_key = key, cn_consumed_by = actor, cn_consumed_for_type = fst target,
        cn_consumed_for_id = snd target, cn_event_id = res_event_id res\<rparr>"
      assume app: "approval_append E g ''APPROVAL_CONSUMED'' actor corr ''consume'' (aid @ '':'' @ key) pl w = Inr (w1, res)"
        and w': "w' = project_view g ?st (res_event_id res) now (set_grant_status aid ?st (res_aggregate_seq res)
          (w1\<lparr>aw_consumptions := aw_consumptions w1 @ [?u]\<rparr>))"
      show ?thesis
        unfolding w' by (rule project_sync [OF ok dist gf(1), where q = "res_aggregate_seq res"])
          (use approval_append_tables [OF app] gf(2) approval_append_views [OF app]
            in \<open>simp_all add: uses_of_def decisions_of_def\<close>)
    qed
  qed
qed

lemma decide_with_views:
  assumes d: "decide_with E now a g p prior w = Inr (w', r)" and g: "load_grant w (da_approval_id a) = Inr g"
    and pend: "gr_status g = PENDING" and ok: "views_ok w" and dist: "distinct (map gr_approval_id (aw_grants w))"
  shows "views_ok w'"
proof -
  note gf = load_grant_found [OF g]
  have resolve: "views_ok w'" if rs: "resolve_decision E now a g acct dec ty pl n w = Inr (w', r)" for acct dec ty pl n
  proof -
    obtain w1 res w2 st where app: "approval_append E g ty acct (da_correlation_id a) ''decide'' (da_idempotency_key a) pl w = Inr (w1, res)"
      and rc: "record_decision a acct dec (res_event_id res) w1 = Inr w2"
      and w': "w' = project_view g st (res_event_id res) now (set_grant_status (da_approval_id a) st (res_aggregate_seq res) w2)"
      using rs by (auto simp: resolve_decision_def res_simps)
    show ?thesis
      unfolding w' by (rule project_sync [OF ok dist gf(1), where q = "res_aggregate_seq res"])
        (use approval_append_tables [OF app] gf(2) record_decision_effect [OF rc] approval_append_views [OF app]
          in \<open>simp_all add: uses_of_def decisions_of_def decision_row_def\<close>)
  qed
  have partial: "views_ok (project_view g PENDING ev now w1)"
    if rc: "record_decision a acct ''APPROVE'' ev w = Inr w1" for acct ev w1
    by (rule project_sync [OF ok dist gf(1), where q = "gr_aggregate_seq g"])
      (use gf(2) pend record_decision_effect [OF rc] grants_with_same [OF dist gf(1)]
        in \<open>simp_all add: uses_of_def decisions_of_def decision_row_def\<close>)
  show ?thesis
    using d by (auto simp: decide_with_def Let_def res_simps split: if_splits intro: resolve partial)
qed

lemma views_ok_log [simp]: "views_ok (w\<lparr>aw_log := l\<rparr>) = views_ok w"
  by (simp add: views_ok_def view_of_def uses_of_def decisions_of_def)

lemma decide_views:
  assumes d: "decide_approval E A c now a w = (log', Inr (w', r))"
    and ok: "views_ok w" and dist: "distinct (map gr_approval_id (aw_grants w))"
  shows "views_ok w'"
proof -
  obtain g p prior where g: "load_grant w (da_approval_id a) = Inr g" and pend: "gr_status g = PENDING"
    and dw: "decide_with E now a g p prior (w\<lparr>aw_log := log'\<rparr>) = Inr (w', r)"
    using d by (auto simp: decide_approval_def Let_def split: if_splits sum.splits)
  show ?thesis
    by (rule decide_with_views [OF dw _ pend]) (use g ok dist in \<open>simp_all add: load_grant_def\<close>)
qed

lemma request_views:
  assumes q: "request_approval E c now q w = Inr (w', r)"
    and ok: "views_ok w" and inv: "approval_inv w"
  shows "views_ok w'"
proof (cases "w' = w")
  case True
  then show ?thesis using ok by simp
next
  case False
  obtain risk ex qr where "create_request E now q risk ex qr w = Inr (w', r)"
    using q False by (auto simp: request_approval_def Let_def res_simps split: option.splits if_splits)
  then obtain aid g w1 w2 res where g: "g = new_grant q aid risk now ex qr"
    and ins: "insert_grant g (w\<lparr>aw_drawn := aw_drawn w + 1\<rparr>) = Inr w1"
    and app: "approval_append E g ''APPROVAL_REQUESTED'' (qa_requested_by q) (qa_correlation_id q) ''request''
         (qa_idempotency_key q) (requested_payload g) w1 = Inr (w2, res)"
    and w': "w' = project_view g PENDING (res_event_id res) now (set_grant_status aid PENDING (res_aggregate_seq res) w2)"
    by (auto simp: create_request_def Let_def res_simps)
  have gid: "gr_approval_id g = aid" and st: "gr_status g = PENDING" using g by (simp_all add: new_grant_def)
  have fresh: "aid \<notin> gr_approval_id ` set (aw_grants w)" and w1: "w1 = w\<lparr>aw_drawn := aw_drawn w + 1, aw_grants := aw_grants w @ [g]\<rparr>"
    using ins gid by (auto simp: insert_grant_def list_ex_iff split: if_splits)
  let ?w2 = "set_grant_status aid PENDING (res_aggregate_seq res) w2"
  let ?g = "g\<lparr>gr_aggregate_seq := res_aggregate_seq res\<rparr>"
  have gs: "aw_grants ?w2 = aw_grants w @ [?g]"
    using approval_append_tables(1) [OF app] w1 grants_with_absent [OF fresh, of PENDING] gid st by (simp add: grants_with_def)
  have tb: "aw_views ?w2 = aw_views w" "aw_consumptions ?w2 = aw_consumptions w" "aw_decisions ?w2 = aw_decisions w"
    using approval_append_tables [OF app] approval_append_views [OF app] w1 by simp_all
  have ids: "vw_approval_id ` set (aw_views w) = gr_approval_id ` set (aw_grants w)" using ok by (simp add: views_ok_def)
  have none: "\<not> list_ex (\<lambda>v. vw_approval_id v = gr_approval_id g) (aw_views ?w2)"
    using ids fresh gid tb(1) by (metis (mono_tags, lifting) image_eqI list_ex_iff)
  have old: "view_of w' h v" if "h \<in> set (aw_grants w)" "v \<in> set (aw_views w)" "vw_approval_id v = gr_approval_id h" for h v
    using ok that view_of_cong [of w' h w v] same_ledgers [of ?w2 w] tb unfolding w' views_ok_def by simp
  let ?v = "\<lparr>vw_approval_id = gr_approval_id g, vw_workspace = gr_workspace g,
           vw_subject_type = gr_subject_type g, vw_subject_id = gr_subject_id g, vw_action = gr_action g,
           vw_risk = gr_risk g, vw_status = approval_status_value PENDING,
           vw_used_count = int (length (uses_of ?w2 (gr_approval_id g))),
           vw_max_uses = gr_max_uses g, vw_expires_at = gr_expires_at g, vw_requested_by = gr_requested_by g,
           vw_decided_by = map de_decided_by (decisions_of ?w2 (gr_approval_id g)),
           vw_last_event_id = res_event_id res, vw_updated_at = now\<rparr>"
  have vs: "aw_views w' = aw_views w @ [?v]" using none tb(1) by (simp add: w' project_view_def Let_def)
  have new: "view_of w' ?g ?v" using st by (simp add: view_of_def w')
  have gs': "aw_grants w' = aw_grants w @ [?g]" using gs by (simp add: w')
  have "view_of w' h v" if "h \<in> set (aw_grants w')" "v \<in> set (aw_views w')" "vw_approval_id v = gr_approval_id h" for h v
  proof -
    have "h \<in> set (aw_grants w) \<or> h = ?g" "v \<in> set (aw_views w) \<or> v = ?v" using that(1,2) gs' vs by auto
    moreover have "\<not> (h \<in> set (aw_grants w) \<and> v = ?v)"
    proof
      assume hv: "h \<in> set (aw_grants w) \<and> v = ?v"
      then have "gr_approval_id h = aid" using that(3) gid by simp
      then show False using hv fresh by blast
    qed
    moreover have "\<not> (h = ?g \<and> v \<in> set (aw_views w))"
    proof
      assume hv: "h = ?g \<and> v \<in> set (aw_views w)"
      then have "vw_approval_id v = aid" using that(3) gid by simp
      then have "aid \<in> vw_approval_id ` set (aw_views w)" using hv by blast
      then show False using ids fresh by simp
    qed
    ultimately have "h \<in> set (aw_grants w) \<and> v \<in> set (aw_views w) \<or> h = ?g \<and> v = ?v" by blast
    then show ?thesis using old that(3) new by blast
  qed
  moreover have "distinct (map vw_approval_id (aw_views w'))" using ok fresh gid ids by (simp add: views_ok_def vs)
  moreover have "set (map vw_approval_id (aw_views w')) = set (map gr_approval_id (aw_grants w'))"
    using ids by (simp add: gs' vs)
  ultimately show ?thesis unfolding views_ok_def by blast
qed

lemma run_approval_views:
  assumes "views_ok w" and "approval_inv w"
  shows "views_ok (fst (run_approval B cx cmd w))"
proof -
  have "views_ok w'" if h: "handle_approval B cx cmd w = (l, Inr (w', r))" for l w' r
  proof (cases cmd)
    case (RequestApproval f)
    then show ?thesis using h assms request_views by (fastforce simp: handle_request_def res_simps)
  next
    case (DecideApproval aid dec reason)
    then show ?thesis using h assms decide_views ledger_invD(1)
      by (fastforce simp: handle_decide_def res_simps split: prod.splits)
  next
    case (CancelApproval aid reason)
    then show ?thesis using h assms terminate_views ledger_invD(1)
      by (fastforce simp: handle_cancel_def cancel_approval_def appended_result_def res_simps split: if_splits)
  next
    case (RevokeApproval aid reason)
    then show ?thesis using h assms terminate_views ledger_invD(1)
      by (fastforce simp: handle_revoke_def revoke_approval_def appended_result_def res_simps)
  next
    case ExpireApprovals
    then show ?thesis using h assms expire_views ledger_invD(1) by (fastforce simp: handle_expire_def res_simps)
  next
    case (ConsumeApproval aid key ty sid)
    then show ?thesis using h assms consume_views ledger_invD(1) by (fastforce simp: handle_consume_def res_simps)
  qed
  then show ?thesis
    using assms(1) by (auto simp: run_approval_def Let_def split: prod.splits sum.splits)
qed

lemma run_approvals_views:
  assumes "views_ok w" and "approval_inv w"
  shows "views_ok (run_approvals B cmds w)"
proof (induction cmds rule: rev_induct)
  case (snoc c cmds)
  then show ?case
    using run_approval_views [OF snoc approval_steps_keep [OF run_approvals_steps assms(2)], of B "fst c" "snd c"]
    by (simp add: run_approvals_def case_prod_beta)
qed (simp add: run_approvals_def assms(1))

text \<open>
  The rebuild is not the live projection for a grant that waits for its quorum: the decisions in the
  ledger have no Event of their own, and the row of the request starts without deciders.
\<close>

lemma rebuild_forgets_partial_decisions:
  assumes "filter (\<lambda>e. ev_aggregate_type e = ''approval'') log = [e]" and "ev_type e = ''APPROVAL_REQUESTED''"
    and "requested_view pj_time e = Inr v"
  shows "rebuild_approvals pj_time log None w = Inr (w\<lparr>aw_views := [v]\<rparr>, 1)" and "vw_decided_by v = []"
proof -
  show "rebuild_approvals pj_time log None w = Inr (w\<lparr>aw_views := [v]\<rparr>, 1)"
    using assms by (simp add: rebuild_approvals_def apply_approval_def)
  show "vw_decided_by v = []"
    using assms(3) by (auto simp: requested_view_def Let_def res_simps)
qed

end
