(* ===== verification/Approval_Properties.thy ===== *)
theory Approval_Properties
  imports Approval_Projection
begin

text \<open>
  What approvals promise: a bound on their uses, an independent quorum behind every use, final
  states that stay, retries that take no second use, an expiry that clears what is due, and the
  meaning of an eligible approver.
\<close>

section \<open>Ledgers only grow\<close>

lemma terminate_ledgers:
  "terminate_approval E now aid ev actor corr key reason sc w = Inr (w', r) \<Longrightarrow> aw_consumptions w' = aw_consumptions w"
  by (erule terminate_effect)

lemma expire_one_ledgers:
  "expire_one E now role actor corr aid w = Inr w' \<Longrightarrow> aw_consumptions w' = aw_consumptions w"
  by (auto simp: expire_one_def res_simps dest!: terminate_ledgers approval_append_tables(3))

lemma expire_ledgers:
  assumes "expire_approvals E now role actor corr ws w = Inr (w', ids)"
  shows "aw_consumptions w' = aw_consumptions w"
proof -
  have f: "fold_res (expire_one E now role actor corr) (due_ids now ws w) w = Inr w'"
    using assms by (auto simp: expire_approvals_def Let_def res_simps)
  show ?thesis
    by (rule fold_res_invariant [where P = "\<lambda>u. aw_consumptions u = aw_consumptions w", OF _ _ f])
      (auto dest: expire_one_ledgers)
qed

lemma approval_step_ledger:
  assumes "approval_step E w w'" and inv: "approval_inv w"
  shows "prefix (aw_consumptions w) (aw_consumptions w')"
  using assms(1)
proof cases
  case (requested c now q r)
  then show ?thesis by (auto elim!: request_effect)
next
  case (decided A c now a log' r)
  show ?thesis by (rule decide_effect [OF decided ledger_invD(1) [OF inv]]) simp
next
  case (consumed now aid key actor target corr r)
  then show ?thesis by (auto elim!: consume_effect)
qed (auto simp: cancel_approval_def revoke_approval_def res_simps split: if_splits
    dest: terminate_ledgers expire_ledgers)

lemma approval_steps_ledger:
  assumes "approval_steps E w w'" and "approval_inv w"
  shows "prefix (aw_consumptions w) (aw_consumptions w')"
  using assms(1)
proof (induction rule: rtranclp_induct)
  case (step y z)
  then show ?case
    using approval_step_ledger [OF step(2) approval_steps_keep [OF step(1) assms(2)]] by (metis prefix_order.trans)
qed simp

section \<open>Uses\<close>

lemma uses_bounded:
  assumes "approval_inv w" and "g \<in> set (aw_grants w)"
  shows "distinct (map cn_consumption_key (uses_of w (gr_approval_id g))) \<and>
    (\<forall>m. gr_max_uses g = Some m \<longrightarrow> int (length (uses_of w (gr_approval_id g))) \<le> m \<and>
      (gr_status g = CONSUMED \<longleftrightarrow> int (length (uses_of w (gr_approval_id g))) = m)) \<and>
    (gr_max_uses g = None \<longrightarrow> gr_status g \<noteq> CONSUMED)"
proof -
  have "distinct (map cn_consumption_key (uses_of w (gr_approval_id g)))"
    using ledger_invD(3) [OF assms(1)] by (auto simp: uses_of_def distinct_map inj_on_def)
  then show ?thesis
    using ledger_invD(4) [OF assms] by (cases "gr_max_uses g") (simp_all add: grant_ok_def Let_def uses_of_in)
qed

text \<open>
  C20. An approval with a limit is never used more often than the limit, under any interleaving of
  the services with each other and with arbitrary changes of the rest of the database: the rows of
  the consumption ledger for a grant carry distinct keys, there are at most max_uses of them, and
  the grant is CONSUMED exactly when the last use is taken (never, without a limit).
\<close>

theorem approval_uses_bounded:
  assumes "fresh_world w\<^sub>0" and "approval_steps E w\<^sub>0 w" and "g \<in> set (aw_grants w)"
  shows "distinct (map cn_consumption_key (uses_of w (gr_approval_id g))) \<and>
    (\<forall>m. gr_max_uses g = Some m \<longrightarrow> int (length (uses_of w (gr_approval_id g))) \<le> m \<and>
      (gr_status g = CONSUMED \<longleftrightarrow> int (length (uses_of w (gr_approval_id g))) = m)) \<and>
    (gr_max_uses g = None \<longrightarrow> gr_status g \<noteq> CONSUMED)"
  using uses_bounded [OF approval_steps_keep [OF assms(2) fresh_inv [OF assms(1)]] assms(3)] .

lemma quorum_behind_uses:
  assumes inv: "approval_inv w" and g: "g \<in> set (aw_grants w)"
    and "gr_status g \<in> {APPROVED, PARTIALLY_CONSUMED, CONSUMED} \<or> uses_of w (gr_approval_id g) \<noteq> []"
  shows "\<exists>ds. ds = filter (\<lambda>d. de_decision d = ''APPROVE'') (decisions_of w (gr_approval_id g)) \<and>
    int (card (de_decided_by ` set ds)) \<ge> max 1 (gr_quorum_required g) \<and>
    gr_requested_by g \<notin> de_decided_by ` set ds \<and>
    (\<forall>i. gr_implementing_agent g = Some i \<longrightarrow> i \<notin> de_decided_by ` set ds) \<and>
    (gr_risk g \<in> {''HIGH'', ''CRITICAL''} \<longrightarrow> (\<forall>d \<in> set ds. de_reauth_verified d))"
proof -
  let ?ds = "approvals_in (aw_decisions w) (gr_approval_id g)"
  have ds: "?ds = filter (\<lambda>d. de_decision d = ''APPROVE'') (decisions_of w (gr_approval_id g))"
    by (simp add: approvals_in_def decisions_of_in)
  have ok: "grant_ok (aw_decisions w) (aw_consumptions w) g" using ledger_invD(4) [OF inv g] .
  have "inj_on de_decided_by (set ?ds)" "distinct ?ds"
    using ledger_invD(2) [OF inv] by (auto simp: approvals_in_def decisions_in_def distinct_map inj_on_def)
  then have "card (de_decided_by ` set ?ds) = length ?ds" by (simp add: card_image distinct_card)
  moreover have "int (length ?ds) \<ge> max 1 (gr_quorum_required g)"
    using ok assms(3) by (auto simp: grant_ok_def Let_def needed_def uses_of_in)
  moreover have "\<forall>d \<in> set ?ds. independent_decision g d"
    using ok by (auto simp: grant_ok_def Let_def approvals_in_def)
  ultimately show ?thesis
    using ds by (intro exI [of _ ?ds]) (auto simp: independent_decision_def)
qed

text \<open>
  C21. Nothing is used without an independent quorum: whenever a grant is approved or consumed, or
  has a use in the ledger (also after it was revoked or expired), at least quorum_required, and at
  least one, different accounts have approved it, none of them the requester or the implementing
  Agent, and for HIGH and CRITICAL risk each of them freshly re-authenticated.
\<close>

theorem uses_need_independent_quorum:
  assumes "fresh_world w\<^sub>0" and "approval_steps E w\<^sub>0 w" and "g \<in> set (aw_grants w)"
    and "gr_status g \<in> {APPROVED, PARTIALLY_CONSUMED, CONSUMED} \<or> uses_of w (gr_approval_id g) \<noteq> []"
  shows "\<exists>ds. ds = filter (\<lambda>d. de_decision d = ''APPROVE'') (decisions_of w (gr_approval_id g)) \<and>
    int (card (de_decided_by ` set ds)) \<ge> max 1 (gr_quorum_required g) \<and>
    gr_requested_by g \<notin> de_decided_by ` set ds \<and>
    (\<forall>i. gr_implementing_agent g = Some i \<longrightarrow> i \<notin> de_decided_by ` set ds) \<and>
    (gr_risk g \<in> {''HIGH'', ''CRITICAL''} \<longrightarrow> (\<forall>d \<in> set ds. de_reauth_verified d))"
  using quorum_behind_uses [OF approval_steps_keep [OF assms(2) fresh_inv [OF assms(1)]] assms(3,4)] .

text \<open>
  C23. Final states are final: once a grant is consumed, rejected, cancelled, expired or revoked, its
  row never changes again, and neither a decision nor a use is added to its ledgers.
\<close>

theorem final_approvals_stay:
  assumes "fresh_world w\<^sub>0" and "approval_steps E w\<^sub>0 w" and "g \<in> set (aw_grants w)"
    and "gr_status g \<in> set APPROVAL_TERMINAL" and "approval_steps E w w'"
  shows "g \<in> set (aw_grants w') \<and>
    uses_of w' (gr_approval_id g) = uses_of w (gr_approval_id g) \<and>
    decisions_of w' (gr_approval_id g) = decisions_of w (gr_approval_id g)"
  using approval_steps_settle [OF assms(5) approval_steps_keep [OF assms(2) fresh_inv [OF assms(1)]] assms(3,4)]
  by (simp add: settled_def)

section \<open>Retries\<close>

lemma consume_again:
  assumes inv: "approval_inv w"
    and row: "u \<in> set (aw_consumptions w)" "cn_approval_id u = aid" "cn_consumption_key u = key"
  shows "\<exists>r. consume_approval E now aid key actor target corr w = Inr (w, r) \<and> co_replayed r \<and>
    co_event_id r = cn_event_id u"
proof -
  have "aid \<in> gr_approval_id ` set (aw_grants w)" using inv row by (auto simp: ledger_inv_def)
  then obtain g where g: "load_grant w aid = Inr g"
    using load_grant_unique [OF ledger_invD(1) [OF inv]] by auto
  have u: "u \<in> set (uses_of w aid)" using row by (simp add: uses_of_def)
  obtain v where v: "List.find (\<lambda>c. cn_consumption_key c = key) (uses_of w aid) = Some v"
    using u row(3) by (cases "List.find (\<lambda>c. cn_consumption_key c = key) (uses_of w aid)") (auto simp: find_None_iff)
  have "v \<in> set (uses_of w aid)" "cn_consumption_key v = key" using v by (auto simp: find_Some_iff)
  then have "v = u"
    using uses_bounded [OF inv load_grant_found(1) [OF g]] load_grant_found(2) [OF g] u row(3)
    by (auto simp: distinct_map inj_on_def)
  then show ?thesis using g v by (simp add: consume_approval_def)
qed

text \<open>
  Retrying a consumption is safe: after a consumption under a key has succeeded, and whatever
  happened since - the grant may be exhausted, expired or revoked by now - the same call succeeds
  again, returns the Event of the first one marked as replayed, and changes nothing.
\<close>

theorem consume_retry:
  assumes "fresh_world w\<^sub>0" and "approval_steps E w\<^sub>0 w"
    and "consume_approval E now aid key actor target corr w = Inr (w\<^sub>1, r)" and "approval_steps E w\<^sub>1 w\<^sub>2"
  shows "\<exists>r'. consume_approval E now' aid key actor' target' corr' w\<^sub>2 = Inr (w\<^sub>2, r') \<and> co_replayed r' \<and>
    co_event_id r' = co_event_id r"
proof -
  have inv: "approval_inv w\<^sub>1"
    using consume_keeps [OF assms(3)] approval_steps_keep [OF assms(2) fresh_inv [OF assms(1)]] by blast
  have "\<exists>u \<in> set (aw_consumptions w\<^sub>1). cn_approval_id u = aid \<and> cn_consumption_key u = key \<and>
      cn_event_id u = co_event_id r"
    using assms(3) by (cases rule: consume_effect) auto
  then obtain u where u: "u \<in> set (aw_consumptions w\<^sub>2)" "cn_approval_id u = aid" "cn_consumption_key u = key"
      "cn_event_id u = co_event_id r"
    using approval_steps_ledger [OF assms(4) inv] by (meson in_mono set_mono_prefix)
  show ?thesis
    using consume_again [OF approval_steps_keep [OF assms(4) inv] u(1-3), of E now' actor' target' corr'] u(4) by simp
qed

section \<open>Expiry\<close>

lemma expire_one_effect:
  assumes "expire_one E now role actor corr aid w = Inr w'"
  obtains q where "aw_grants w' = grants_with aid EXPIRED q (aw_grants w)"
    "aw_decisions w' = aw_decisions w" "aw_consumptions w' = aw_consumptions w"
proof -
  obtain w1 r1 h w2 r2 where t: "terminate_approval E now aid ''APPROVAL_EXPIRED'' actor corr (''expire:'' @ aid)
      ''EXPIRED'' ''expire'' w = Inr (w1, r1)"
    and app: "approval_append E h ''APPROVAL_ESCALATED'' actor corr ''escalate'' (''escalate:'' @ aid)
      [(''approval_id'', JStr aid), (''escalated_to_role'', JStr role)] w1 = Inr (w2, r2)"
    and w': "w' = project_view h EXPIRED (res_event_id r2) now (set_grant_status aid EXPIRED (res_aggregate_seq r2) w2)"
    using assms by (auto simp: expire_one_def res_simps)
  have "grants_with aid EXPIRED q (grants_with aid st q' gs) = grants_with aid EXPIRED q gs" for st q q' gs
    by (simp add: grants_with_def)
  then show thesis
    using that w' approval_append_tables [OF app] terminate_effect [OF t] by (metis project_view_tables set_grant_status_tables)
qed

lemma mem_grants_with:
  assumes "g \<in> set gs"
  shows "(if gr_approval_id g = aid then g\<lparr>gr_status := st, gr_aggregate_seq := q\<rparr> else g) \<in> set (grants_with aid st q gs)"
  using assms unfolding grants_with_def by (auto intro: rev_image_eqI)

lemma expire_fold:
  assumes "fold_res (expire_one E now role actor corr) ids w = Inr w'"
  shows "map gr_approval_id (aw_grants w') = map gr_approval_id (aw_grants w) \<and>
    (\<forall>g \<in> set (aw_grants w). if gr_approval_id g \<in> set ids
       then \<exists>q. g\<lparr>gr_status := EXPIRED, gr_aggregate_seq := q\<rparr> \<in> set (aw_grants w') else g \<in> set (aw_grants w'))"
  using assms
proof (induction ids arbitrary: w)
  case (Cons aid ids)
  obtain u where u: "expire_one E now role actor corr aid w = Inr u"
      "fold_res (expire_one E now role actor corr) ids u = Inr w'"
    using Cons.prems by (auto simp: res_simps)
  obtain q where gs: "aw_grants u = grants_with aid EXPIRED q (aw_grants w)"
    by (rule expire_one_effect [OF u(1)])
  note IH = Cons.IH [OF u(2)]
  have "if gr_approval_id g \<in> set (aid # ids)
      then \<exists>q. g\<lparr>gr_status := EXPIRED, gr_aggregate_seq := q\<rparr> \<in> set (aw_grants w') else g \<in> set (aw_grants w')"
    if g: "g \<in> set (aw_grants w)" for g
  proof (cases "gr_approval_id g = aid")
    case True
    then have "g\<lparr>gr_status := EXPIRED, gr_aggregate_seq := q\<rparr> \<in> set (aw_grants u)"
      using mem_grants_with [OF g, where aid = aid and st = EXPIRED and q = q] gs by simp
    with IH True show ?thesis by (cases "aid \<in> set ids") fastforce+
  next
    case False
    then have "g \<in> set (aw_grants u)" using mem_grants_with [OF g, where aid = aid and st = EXPIRED and q = q] gs by simp
    with IH False show ?thesis by auto
  qed
  moreover have "map gr_approval_id (aw_grants u) = map gr_approval_id (aw_grants w)"
    using gs by (auto simp: grants_with_def)
  ultimately show ?case using IH by simp
qed simp

text \<open>Only the store can stop an expiry.\<close>

lemma terminate_refused:
  assumes "terminate_approval E now aid ''APPROVAL_EXPIRED'' actor corr key reason sc w = Inl e"
    and "load_grant w aid = Inr g" and "gr_status g \<in> {PENDING, APPROVED, PARTIALLY_CONSUMED}"
  shows "\<exists>s req. so_append (ap_store E) s req = Inl e"
proof -
  have "approval_next_status (gr_status g) ''APPROVAL_EXPIRED'' = Inr EXPIRED"
    using assms(3) by (auto simp: approval_next_status_def APPROVAL_TERMINAL_def APPROVAL_TRANSITIONS_def)
  then show ?thesis
    using assms(1,2) by (auto simp: terminate_approval_def approval_append_def bind_res_def split: sum.splits)
qed

lemma expire_one_refused:
  assumes "expire_one E now role actor corr aid w = Inl e"
    and "load_grant w aid = Inr g" and "gr_status g \<in> {PENDING, APPROVED, PARTIALLY_CONSUMED}"
  shows "\<exists>s req. so_append (ap_store E) s req = Inl e"
proof (cases "terminate_approval E now aid ''APPROVAL_EXPIRED'' actor corr (''expire:'' @ aid) ''EXPIRED'' ''expire'' w")
  case (Inl e')
  then have "e' = e" using assms(1) by (simp add: expire_one_def)
  then show ?thesis using terminate_refused [OF Inl assms(2,3)] by simp
next
  case (Inr b)
  obtain w1 r1 where b: "b = (w1, r1)" by (cases b)
  obtain st where gs: "aw_grants w1 = grants_with aid st (res_aggregate_seq r1) (aw_grants w)"
    by (rule terminate_effect [OF Inr [unfolded b]])
  have "g\<lparr>gr_status := st, gr_aggregate_seq := res_aggregate_seq r1\<rparr> \<in> set (aw_grants w1)"
    using mem_grants_with [OF load_grant_found(1) [OF assms(2)], where aid = aid] gs load_grant_found(2) [OF assms(2)] by simp
  then have "\<exists>h \<in> set (aw_grants w1). gr_approval_id h = aid"
    by (rule rev_bexI) (use load_grant_found(2) [OF assms(2)] in simp)
  then obtain h where "load_grant w1 aid = Inr h"
    by (cases "load_grant w1 aid") (auto simp: load_grant_def find_None_iff split: option.splits)
  then show ?thesis
    using assms(1) Inr b by (auto simp: expire_one_def approval_append_def bind_res_def split: sum.splits)
qed

lemma expire_fold_refused:
  assumes "fold_res (expire_one E now role actor corr) ids w = Inl e" and "distinct ids"
    and "distinct (map gr_approval_id (aw_grants w))"
    and "\<forall>aid \<in> set ids. \<exists>g \<in> set (aw_grants w). gr_approval_id g = aid \<and> gr_status g \<in> {PENDING, APPROVED, PARTIALLY_CONSUMED}"
  shows "\<exists>s req. so_append (ap_store E) s req = Inl e"
  using assms
proof (induction ids arbitrary: w)
  case (Cons aid ids)
  obtain g where g: "g \<in> set (aw_grants w)" "gr_approval_id g = aid" "gr_status g \<in> {PENDING, APPROVED, PARTIALLY_CONSUMED}"
    using Cons.prems(4) by auto
  have lg: "load_grant w aid = Inr g" using load_grant_unique [OF Cons.prems(3) g(1)] g(2) by simp
  show ?case
  proof (cases "expire_one E now role actor corr aid w")
    case (Inl e')
    then show ?thesis using expire_one_refused [OF Inl lg g(3)] Cons.prems(1) by simp
  next
    case (Inr u)
    have one: "fold_res (expire_one E now role actor corr) [aid] w = Inr u" using Inr by simp
    note ef = expire_fold [OF one]
    have "\<forall>a \<in> set ids. \<exists>g \<in> set (aw_grants u). gr_approval_id g = a \<and> gr_status g \<in> {PENDING, APPROVED, PARTIALLY_CONSUMED}"
    proof
      fix a assume a: "a \<in> set ids"
      then obtain h where h: "h \<in> set (aw_grants w)" "gr_approval_id h = a" "gr_status h \<in> {PENDING, APPROVED, PARTIALLY_CONSUMED}"
        using Cons.prems(4) by auto
      have "a \<noteq> aid" using a Cons.prems(2) by auto
      then show "\<exists>g \<in> set (aw_grants u). gr_approval_id g = a \<and> gr_status g \<in> {PENDING, APPROVED, PARTIALLY_CONSUMED}"
        using ef h by (intro bexI [of _ h]) auto
    qed
    then show ?thesis
      using Cons.IH [of u] Cons.prems(1-3) Inr ef by simp
  qed
qed simp

lemma due_ids_set:
  assumes "distinct (map gr_approval_id (aw_grants w))" and "g \<in> set (aw_grants w)"
  shows "gr_approval_id g \<in> set (due_ids now ws w) \<longleftrightarrow> expiry_due now ws g"
  using assms by (auto simp: due_ids_def distinct_map inj_on_def)

text \<open>
  C24. The expiry job clears everything that is due: in any reachable state it fails only when the
  Event store refuses an append, and when it returns, no grant of the workspace that is pending,
  approved or partly consumed has an expiry time in the past; exactly the grants that were due are
  EXPIRED now, in the order the result lists them, and no other row has changed.
\<close>

theorem expiry_clears:
  assumes "fresh_world w\<^sub>0" and "approval_steps E w\<^sub>0 w"
  shows "case expire_approvals E now role actor corr ws w of
      Inl e \<Rightarrow> \<exists>s req. so_append (ap_store E) s req = Inl e
    | Inr (w', ids) \<Rightarrow>
        (\<forall>g \<in> set (aw_grants w'). \<not> expiry_due now ws g) \<and>
        ids = sort (map gr_approval_id (filter (expiry_due now ws) (aw_grants w))) \<and>
        (\<forall>g \<in> set (aw_grants w). if expiry_due now ws g
           then \<exists>q. g\<lparr>gr_status := EXPIRED, gr_aggregate_seq := q\<rparr> \<in> set (aw_grants w') else g \<in> set (aw_grants w'))"
proof -
  have dist: "distinct (map gr_approval_id (aw_grants w))"
    using ledger_invD(1) [OF approval_steps_keep [OF assms(2) fresh_inv [OF assms(1)]]] .
  note due = due_ids_set [OF dist, of _ now ws]
  show ?thesis
  proof (cases "fold_res (expire_one E now role actor corr) (due_ids now ws w) w")
    case (Inl e)
    have "distinct (due_ids now ws w)" using dist by (simp add: due_ids_def distinct_map_filter)
    moreover have "\<forall>aid \<in> set (due_ids now ws w). \<exists>g \<in> set (aw_grants w). gr_approval_id g = aid \<and>
        gr_status g \<in> {PENDING, APPROVED, PARTIALLY_CONSUMED}"
      by (auto simp: due_ids_def expiry_due_def)
    ultimately show ?thesis
      using expire_fold_refused [OF Inl _ dist] Inl by (simp add: expire_approvals_def Let_def)
  next
    case (Inr w')
    note ef = expire_fold [OF Inr]
    have all: "if expiry_due now ws g then \<exists>q. g\<lparr>gr_status := EXPIRED, gr_aggregate_seq := q\<rparr> \<in> set (aw_grants w')
        else g \<in> set (aw_grants w')" if "g \<in> set (aw_grants w)" for g
      using ef due [OF that] that by simp
    have dist': "distinct (map gr_approval_id (aw_grants w'))" using ef dist by simp
    have "\<not> expiry_due now ws h" if h: "h \<in> set (aw_grants w')" for h
    proof -
      have "gr_approval_id h \<in> set (map gr_approval_id (aw_grants w))" using ef h by (metis in_set_conv_nth length_map nth_map)
      then obtain g where g: "g \<in> set (aw_grants w)" "gr_approval_id g = gr_approval_id h" by auto
      have same: "k = h" if "k \<in> set (aw_grants w')" "gr_approval_id k = gr_approval_id h" for k
        using dist' h that by (auto simp: distinct_map inj_on_def)
      show ?thesis
      proof (cases "expiry_due now ws g")
        case True
        then obtain q where "g\<lparr>gr_status := EXPIRED, gr_aggregate_seq := q\<rparr> \<in> set (aw_grants w')"
          using all [OF g(1)] by auto
        from same [OF this] g(2) have "gr_status h = EXPIRED" by auto
        then show ?thesis by (simp add: expiry_due_def)
      next
        case False
        then have "g \<in> set (aw_grants w')" using all [OF g(1)] by simp
        from same [OF this g(2)] False show ?thesis by simp
      qed
    qed
    then show ?thesis
      using Inr all by (simp add: expire_approvals_def Let_def due_ids_def)
  qed
qed

section \<open>Eligible approvers\<close>

definition eligible_for ::
  "authz_env \<Rightarrow> policy_catalog \<Rightarrow> 's approval_world \<Rightarrow> string \<Rightarrow> approval_grant \<Rightarrow> string list \<Rightarrow> bool \<Rightarrow> string
    \<Rightarrow> principal_info \<Rightarrow> bool" where
  "eligible_for A c w acct g prior re corr p \<longleftrightarrow>
     (let graph = approver_graph w (gr_workspace g); q = decide_request g corr in
      principal (aw_db w) acct = Some p \<and>
      effective_principal (pr_account_uuid p) graph \<noteq> effective_principal (gr_requested_by g) graph \<and>
      (\<forall>i. gr_implementing_agent g = Some i \<longrightarrow>
         effective_principal (pr_account_uuid p) graph \<noteq> effective_principal i graph) \<and>
      pr_account_uuid p \<notin> set prior \<and>
      (human_only c (gr_risk g) = Inr True \<or> gr_requires_human g \<longrightarrow> pr_account_type p = ''human'') \<and>
      authorized A (aw_db w) acct q \<and>
      (\<exists>roles. effective_roles (aw_db w) p (ae_now A) = Inr roles \<and>
        (\<exists>r \<in> set roles. granting (action_of q) r \<and> risk_le (gr_risk g) (co_max_risk (ro_constraints r)))) \<and>
      (gr_risk g \<in> {''HIGH'', ''CRITICAL''} \<longrightarrow> re))"

lemma high_risk:
  assumes "risk_index r = Inr i"
  shows "i \<ge> 2 \<longleftrightarrow> r \<in> {''HIGH'', ''CRITICAL''}"
  using assms by (auto simp: risk_index_def RISK_ORDER_def res_simps split: if_splits)

lemma matched_granting:
  assumes "policy_inv P db" and "authorize A db log acct q = Inr (log', auth)" and "auth_allowed auth"
    and "principal db acct = Some p" and "effective_roles db p (ae_now A) = Inr roles" and "r \<in> set roles"
  shows "ro_role_id r \<in> set (auth_matched_roles auth) \<longleftrightarrow> granting (action_of q) r"
  using assms(2)
proof (cases rule: authorize_cases)
  case (granted cls p' rs d)
  then have rs: "rs = roles" using assms(4,5) by simp
  moreover have "auth_matched_roles auth = pd_matched_roles d"
    using granted(10) by (auto simp: grant_with_def res_simps Let_def)
  ultimately show ?thesis
    using evaluate_grants [OF effective_roles_inj [OF assms(1,5)] granted(6) [unfolded granted(5) rs] assms(6)] granted(5) by simp
qed (use assms(3) deny_with_denies(1) in blast)+

lemma covering_granting:
  assumes "covering_roles roles matched i = Inr cov" and "risk_index risk = Inr i"
    and "\<And>r. r \<in> set roles \<Longrightarrow> ro_role_id r \<in> set matched \<longleftrightarrow> Q r"
  shows "cov \<noteq> [] \<longleftrightarrow> (\<exists>r \<in> set roles. Q r \<and> risk_le risk (co_max_risk (ro_constraints r)))"
  using covering_roles_iff [OF assms(1)] assms(2,3) by (auto simp: risk_le_def)

lemma check_eligibility_reaches:
  assumes "check_eligibility A c w acct g prior re now corr = Inr (log', el)"
    and "principal (aw_db w) acct = Some p" "pr_status p = ''ACTIVE''" "\<not> self_approval w g p"
      "pr_account_uuid p \<notin> set prior"
    and "human_only c (gr_risk g) = Inr True \<or> gr_requires_human g \<longrightarrow> pr_account_type p = ''human''"
  obtains human log1 auth where "human_only c (gr_risk g) = Inr human"
    "authorize A (aw_db w) (aw_log w) acct (decide_request g corr) = Inr (log1, auth)"
    "auth_allowed auth \<longrightarrow> (\<exists>roles i cov. effective_roles (aw_db w) p now = Inr roles \<and> risk_index (gr_risk g) = Inr i \<and>
       covering_roles roles (auth_matched_roles auth) i = Inr cov)"
proof -
  obtain human where h: "human_only c (gr_risk g) = Inr human"
    using assms by (auto simp: check_eligibility_def Let_def res_simps)
  then have hum: "\<not> ((human \<or> gr_requires_human g) \<and> pr_account_type p \<noteq> ''human'')" using assms(6) by auto
  note eq = assms(1) [unfolded check_eligibility_def Let_def assms(2) option.case h bind_res_Inr]
  obtain log1 auth where az: "authorize A (aw_db w) (aw_log w) acct (decide_request g corr) = Inr (log1, auth)"
    using eq assms(3-5) hum by (auto simp: res_simps split: if_splits)
  show thesis
    using that [OF h az] eq assms(3-5) hum az by (auto simp: res_simps split: if_splits)
qed

lemma eligibility_decides:
  assumes inv: "policy_inv P (aw_db w)" and now: "ae_now A = now"
    and ck: "check_eligibility A c w acct g prior re now corr = Inr (log', el)"
  shows "qualifies A c w acct g prior re now corr p \<longleftrightarrow> eligible_for A c w acct g prior re corr p"
proof (cases "principal (aw_db w) acct = Some p \<and> pr_status p = ''ACTIVE'' \<and> \<not> self_approval w g p \<and>
    pr_account_uuid p \<notin> set prior \<and>
    (human_only c (gr_risk g) = Inr True \<or> gr_requires_human g \<longrightarrow> pr_account_type p = ''human'')")
  case False
  then show ?thesis
    by (auto simp: qualifies_def eligible_for_def Let_def same_principal_def authorized_def split: option.splits)
next
  case True
  then obtain human log1 auth where h: "human_only c (gr_risk g) = Inr human"
    and az: "authorize A (aw_db w) (aw_log w) acct (decide_request g corr) = Inr (log1, auth)"
    and rest: "auth_allowed auth \<longrightarrow> (\<exists>roles i cov. effective_roles (aw_db w) p now = Inr roles \<and>
       risk_index (gr_risk g) = Inr i \<and> covering_roles roles (auth_matched_roles auth) i = Inr cov)"
    using check_eligibility_reaches [OF ck] by blast
  note dec = authorize_decides [OF inv az]
  have self: "\<not> self_approval w g p \<longleftrightarrow>
      effective_principal (pr_account_uuid p) (approver_graph w (gr_workspace g)) \<noteq>
        effective_principal (gr_requested_by g) (approver_graph w (gr_workspace g)) \<and>
      (\<forall>i. gr_implementing_agent g = Some i \<longrightarrow>
        effective_principal (pr_account_uuid p) (approver_graph w (gr_workspace g)) \<noteq>
        effective_principal i (approver_graph w (gr_workspace g)))"
    by (auto simp: same_principal_def split: option.splits)
  show ?thesis
  proof (cases "auth_allowed auth")
    case False
    then show ?thesis using dec az by (auto simp: qualifies_def eligible_for_def Let_def)
  next
    case al: True
    then obtain roles i cov where r: "effective_roles (aw_db w) p now = Inr roles" "risk_index (gr_risk g) = Inr i"
        "covering_roles roles (auth_matched_roles auth) i = Inr cov" using rest by blast
    have m: "ro_role_id x \<in> set (auth_matched_roles auth) \<longleftrightarrow> granting (action_of (decide_request g corr)) x"
      if "x \<in> set roles" for x
      using matched_granting [OF inv az al _ _ that] True r(1) now by simp
    have q: "qualifies A c w acct g prior re now corr p \<longleftrightarrow> cov \<noteq> [] \<and> (i \<ge> 2 \<longrightarrow> re)"
      using True h az al r dec by (auto simp: qualifies_def)
    have e: "eligible_for A c w acct g prior re corr p \<longleftrightarrow>
        (\<exists>x \<in> set roles. granting (action_of (decide_request g corr)) x \<and> risk_le (gr_risk g) (co_max_risk (ro_constraints x))) \<and>
        (gr_risk g \<in> {''HIGH'', ''CRITICAL''} \<longrightarrow> re)"
      using True r(1) now dec al self by (simp add: eligible_for_def Let_def)
    show ?thesis
      unfolding q e high_risk [OF r(2)] using covering_granting [OF r(3,2) m] by blast
  qed
qed


text \<open>
  Two decisions count as different when their accounts differ: an alias of an earlier decider is
  accepted, so one Human with two accounts can meet a quorum of two.
\<close>

lemma alias_of_decider_accepted:
  assumes "principal (aw_db w) acct = Some p" and "d \<noteq> pr_account_uuid p"
  shows "check_eligibility A c w acct g (d # prior) re now corr = check_eligibility A c w acct g prior re now corr"
  using assms by (simp add: check_eligibility_def)

section \<open>A run\<close>

text \<open>
  The properties hold for every store; the run below uses one that accepts every Event and counts
  them. The Agent \<open>u2\<close> asks to deploy once, the Human \<open>u1\<close> approves, \<open>u2\<close> uses the approval.
\<close>

definition tally_ops :: "nat store_ops" where
  "tally_ops = \<lparr>so_append = (\<lambda>s r. Inr (s + 1, \<lparr>res_event_id = ''evt'', res_aggregate_seq = int s + 1,
     res_content_hash = [], res_recorded_seq = int s + 1, res_replayed = False\<rparr>)),
     so_stream = (\<lambda>_ _ _ _. Inr []), so_get = (\<lambda>_ _. None)\<rparr>"

definition tally_env :: "nat approval_env" where
  "tally_env = \<lparr>ap_store = tally_ops, ap_uuid_hex = (\<lambda>_. ''0'')\<rparr>"

definition decide_role :: role where
  "decide_role = sample_read_role\<lparr>ro_permissions := [''approval.decide'']\<rparr>"

definition approver_db :: policy_db where
  "approver_db = sample_db\<lparr>pb_accounts := [sample_account, \<lparr>ac_account_id = ''agent-b'', ac_uuid = ''u2'',
       ac_workspace = ''w'', ac_type = ''agent'', ac_status = ''ACTIVE''\<rparr>],
     pb_roles := [sample_role_rec\<lparr>rr_current_version := 1\<rparr>],
     pb_versions := [\<lparr>rv_role_id = ''role-a'', rv_version = 1, rv_permissions = [''approval.decide''], rv_deny = [],
       rv_constraints = [], rv_policy_hash = ''h'', rv_event_id = None, rv_created_by = ''u1''\<rparr>],
     pb_assignments := [sample_assignment]\<rparr>"

definition deploy_catalog :: policy_catalog where
  "deploy_catalog = \<lparr>pc_permissions = [(''approval.decide'', True)],
     pc_classes = [(''decide'', (''LOW'', ''none'')), (''deploy'', (''HIGH'', ''human_1''))],
     pc_actions = [(''command:approve.grant'', (''decide'', ''approval.decide'')), (''deploy'', (''deploy'', ''none''))],
     pc_unclassified_default = ''HIGH'', pc_quorum = (\<lambda>_. 1), pc_human_only_from = ''HIGH'',
     pc_capabilities = [], pc_roles = []\<rparr>"

definition deploy_authz :: authz_env where
  "deploy_authz = \<lparr>ae_prims = flat_prims, ae_jsonb = (\<lambda>p. p), ae_catalog = deploy_catalog, ae_now = 2, ae_audit_now = 2\<rparr>"

definition idle_world :: "nat approval_world" where
  "idle_world = \<lparr>aw_store = 0, aw_db = approver_db, aw_workspaces = [''w''], aw_aliases = [], aw_subjects = [],
     aw_grants = [], aw_decisions = [], aw_consumptions = [], aw_views = [], aw_log = empty_log, aw_drawn = 0\<rparr>"

definition deploy_request :: request_args where
  "deploy_request = \<lparr>qa_workspace = ''w'', qa_requested_by = ''u2'', qa_subject_type = ''action'',
     qa_subject_id = ''x'', qa_action = ''deploy'', qa_correlation_id = ''c'', qa_idempotency_key = ''k'',
     qa_resource_scope = [], qa_risk = None, qa_valid_for = Some 9, qa_max_uses = Some 1,
     qa_implementing_agent = Some ''u2'', qa_channel = None, qa_requires_human = True\<rparr>"

definition deploy_grant :: approval_grant where
  "deploy_grant = (new_grant deploy_request ''apr-0'' ''HIGH'' 1 10 1)\<lparr>gr_aggregate_seq := 1\<rparr>"

definition deploy_decision :: decide_args where
  "deploy_decision = \<lparr>da_approval_id = ''apr-0'', da_approver_account_id = ''human-a'', da_decision = ''APPROVE'',
     da_credential_fingerprint = ''f'', da_reauth_verified = True, da_correlation_id = ''c'',
     da_idempotency_key = ''d'', da_reason_code = []\<rparr>"

lemma deploy_request_sel [simp]:
  "qa_workspace deploy_request = ''w''" "qa_requested_by deploy_request = ''u2''" "qa_subject_type deploy_request = ''action''"
  "qa_subject_id deploy_request = ''x''" "qa_action deploy_request = ''deploy''" "qa_risk deploy_request = None"
  "qa_valid_for deploy_request = Some 9" "qa_max_uses deploy_request = Some 1" "qa_channel deploy_request = None"
  "qa_implementing_agent deploy_request = Some ''u2''" "qa_requires_human deploy_request = True"
  by (simp_all add: deploy_request_def)

lemma idle_world_sel [simp]:
  "aw_store idle_world = 0" "aw_db idle_world = approver_db" "aw_workspaces idle_world = [''w'']"
  "aw_aliases idle_world = []" "aw_grants idle_world = []" "aw_decisions idle_world = []"
  "aw_consumptions idle_world = []" "aw_log idle_world = empty_log" "aw_drawn idle_world = 0"
  by (simp_all add: idle_world_def)

lemma approver_accounts: "map ac_uuid (pb_accounts approver_db) = [''u1'', ''u2'']"
  by (simp add: approver_db_def sample_account_def)

lemma tally_append:
  "approval_append tally_env g ty actor corr sc key pl w = Inr (w\<lparr>aw_store := aw_store w + 1\<rparr>,
     \<lparr>res_event_id = ''evt'', res_aggregate_seq = int (aw_store w) + 1, res_content_hash = [],
      res_recorded_seq = int (aw_store w) + 1, res_replayed = False\<rparr>)"
  by (simp add: approval_append_def tally_env_def tally_ops_def)

lemma deploy_requested:
  "\<exists>w r. request_approval tally_env deploy_catalog 1 deploy_request idle_world = Inr (w, r) \<and>
     aw_grants w = [deploy_grant] \<and> aw_decisions w = [] \<and> aw_consumptions w = [] \<and>
     aw_db w = approver_db \<and> aw_aliases w = [] \<and> aw_log w = empty_log \<and> aw_store w = 1"
proof -
  have v: "validate_subject idle_world ''w'' ''action'' ''x'' = Inr ()"
    by (simp add: validate_subject_def SUBJECT_ACTIVATION_def CURRENT_PHASE_def)
  have r: "effective_risk deploy_catalog ''deploy'' None = Inr ''HIGH''"
    by (simp add: effective_risk_def risk_for_def deploy_catalog_def)
  have q: "request_quorum deploy_catalog ''HIGH'' True = Inr 1"
    by (simp add: request_quorum_def quorum_def deploy_catalog_def RISK_ORDER_def)
  let ?g = "new_grant deploy_request ''apr-0'' ''HIGH'' 1 10 1"
  have i: "insert_grant ?g (idle_world\<lparr>aw_drawn := 1\<rparr>) = Inr (idle_world\<lparr>aw_drawn := 1, aw_grants := [?g]\<rparr>)"
    by (simp add: insert_grant_def new_grant_def account_known_def approver_accounts int4_def)
  obtain r where "create_request tally_env 1 deploy_request ''HIGH'' 10 1 idle_world =
      Inr (project_view ?g PENDING ''evt'' 1 (set_grant_status ''apr-0'' PENDING 1
        (idle_world\<lparr>aw_drawn := 1, aw_grants := [?g], aw_store := 1\<rparr>)), r)"
    using i by (simp add: create_request_def Let_def tally_append) (simp add: tally_env_def)
  moreover have "existing_request deploy_request idle_world = None"
    by (simp add: existing_request_def)
  moreover have "grants_with ''apr-0'' PENDING 1 [?g] = [deploy_grant]"
    by (simp add: grants_with_def deploy_grant_def new_grant_def)
  ultimately show ?thesis
    using v r q by (simp add: request_approval_def request_expiry_def)
qed

lemma qualifies_eligible:
  assumes "qualifies A c w acct g prior re now corr p"
  shows "check_eligibility A c w acct g prior re now corr =
    Inr (aw_log w, \<lparr>el_eligible = True, el_code = ''ELIGIBLE'', el_approver = Some p\<rparr>)"
proof -
  have high: "risk_index ''HIGH'' = Inr 2" by (simp add: risk_index_def RISK_ORDER_def res_simps)
  show ?thesis using assms high unfolding qualifies_def by (auto simp: check_eligibility_def Let_def)
qed

lemma deploy_grant_sel [simp]:
  "gr_approval_id deploy_grant = ''apr-0''" "gr_workspace deploy_grant = ''w''" "gr_risk deploy_grant = ''HIGH''"
  "gr_status deploy_grant = PENDING" "gr_requested_by deploy_grant = ''u2''" "gr_channel deploy_grant = None"
  "gr_implementing_agent deploy_grant = Some ''u2''" "gr_expires_at deploy_grant = 10" "gr_valid_from deploy_grant = 1"
  "gr_quorum_required deploy_grant = 1" "gr_max_uses deploy_grant = Some 1" "gr_aggregate_seq deploy_grant = 1"
  "gr_subject_type deploy_grant = ''action''" "gr_subject_id deploy_grant = ''x''"
  by (simp_all add: deploy_grant_def new_grant_def)

lemma approver_inv: "policy_inv flat_prims approver_db"
proof -
  let ?d = "JObj [(''permissions'', JArr [JStr ''approval.decide'']), (''deny'', JArr []), (''constraints'', JObj [])]"
  obtain b where "canonical_bytes ?d = Inr b" using canonical_bytes_total [of ?d] by auto
  then have "policy_hash flat_prims [''approval.decide''] [] [] = Inr ''h''"
    by (simp add: policy_hash_def flat_prims_def sha256_hex_def)
  then show ?thesis
    by (simp add: policy_inv_def approver_db_def sample_db_def sample_role_rec_def versions_of_def version_ok_def)
qed

lemma approver_reads:
  shows "principal approver_db ''human-a'' = Some sample_principal"
    and "0 \<le> now \<Longrightarrow> effective_roles approver_db sample_principal now = Inr [decide_role]"
proof -
  show "principal approver_db ''human-a'' = Some sample_principal"
    by (simp add: principal_def approver_db_def sample_db_def sample_account_def sample_principal_def)
  show "effective_roles approver_db sample_principal now = Inr [decide_role]" if "0 \<le> now"
    by (simp add: effective_roles_def effective_rows_def approver_db_def sample_db_def sample_role_rec_def
        sample_assignment_effective [OF that] role_of_rows_def role_from_version_def optional_set_def
        decide_role_def sample_read_role_def map_filter_simps del: One_nat_def)
      (simp add: sample_assignment_def)
qed

lemma deploy_granting: "granting (action_of (decide_request deploy_grant corr)) decide_role"
  by (simp add: granting_def action_of_def decide_request_def decide_role_def sample_read_role_def matches_any_def
      permission_matches_def scope_violation_def ends_with_def suffix_def)

lemma deploy_authorized:
  "\<exists>auth. authorize deploy_authz approver_db lg ''human-a'' (decide_request deploy_grant corr) = Inr (lg, auth) \<and>
     auth_allowed auth"
proof -
  let ?q = "decide_request deploy_grant corr"
  have cat: "catalog_ok deploy_catalog"
    by (simp add: catalog_ok_def deploy_catalog_def validate_cross_references_def vocabulary_def RISK_ORDER_def)
  have roles: "effective_roles approver_db sample_principal (ae_now deploy_authz) = Inr [decide_role]"
    using approver_reads(2) by (simp add: deploy_authz_def)
  obtain lg' auth where az: "authorize deploy_authz approver_db lg ''human-a'' ?q = Inr (lg', auth)"
    using authorize_returns [of deploy_authz approver_db "''human-a''" lg ?q] cat roles approver_reads(1)
    by (auto simp: deploy_authz_def decide_role_def sample_read_role_def RISK_ORDER_def)
  have cls: "classify (ae_catalog deploy_authz) ?q = Inr (''LOW'', ''decide'', ''none'')"
    by (simp add: classify_def deploy_authz_def deploy_catalog_def decide_request_def risk_for_def)
  have "risk_le ''LOW'' (co_max_risk (ro_constraints decide_role))"
    by (simp add: risk_le_def risk_index_def RISK_ORDER_def decide_role_def sample_read_role_def)
  then have "authorized deploy_authz approver_db ''human-a'' ?q"
    unfolding authorized_iff [OF approver_reads(1) roles cls] using deploy_granting [of corr]
    by (simp add: sample_principal_def decide_request_def deploy_authz_def deploy_catalog_def vocabulary_def
        decide_role_def sample_read_role_def matches_any_def)
  then show ?thesis using authorize_decides [OF approver_inv az] az by auto
qed

lemma approver_eligible:
  assumes "aw_db w = approver_db" and "aw_aliases w = []"
  shows "check_eligibility deploy_authz deploy_catalog w ''human-a'' deploy_grant [] True 2 ''c'' =
    Inr (aw_log w, \<lparr>el_eligible = True, el_code = ''ELIGIBLE'', el_approver = Some sample_principal\<rparr>)"
proof (rule qualifies_eligible)
  obtain auth where az: "authorize deploy_authz approver_db (aw_log w) ''human-a'' (decide_request deploy_grant ''c'') =
      Inr (aw_log w, auth)" "auth_allowed auth"
    using deploy_authorized by blast
  have roles: "effective_roles approver_db sample_principal 2 = Inr [decide_role]" using approver_reads(2) by simp
  have "ro_role_id decide_role \<in> set (auth_matched_roles auth)"
    using matched_granting [OF approver_inv az approver_reads(1), of "[decide_role]" decide_role] roles deploy_granting
    by (simp add: deploy_authz_def)
  then have cov: "covering_roles [decide_role] (auth_matched_roles auth) 2 = Inr [decide_role]"
    by (simp add: risk_index_def RISK_ORDER_def decide_role_def sample_read_role_def)
  have g: "approver_graph w ''w'' = []"
    using assms by (simp add: approver_graph_def alias_graph_def dict_of_def)
  have h: "human_only deploy_catalog ''HIGH'' = Inr True"
    by (simp add: human_only_def deploy_catalog_def risk_index_def RISK_ORDER_def)
  have i: "risk_index ''HIGH'' = Inr 2" by (simp add: risk_index_def RISK_ORDER_def res_simps)
  show "qualifies deploy_authz deploy_catalog w ''human-a'' deploy_grant [] True 2 ''c'' sample_principal"
    unfolding qualifies_def using assms(1) approver_reads(1) az roles cov g h i
    by (auto simp: sample_principal_def same_principal_def effective_principal_def follow_aliases.simps)
qed

lemma deploy_decided:
  assumes "aw_db w = approver_db" "aw_aliases w = []" "aw_grants w = [deploy_grant]" "aw_decisions w = []"
    "aw_consumptions w = []" "aw_store w = 1"
  shows "\<exists>w' r. decide_approval tally_env deploy_authz deploy_catalog 2 deploy_decision w = (aw_log w, Inr (w', r)) \<and>
    aw_grants w' = [deploy_grant\<lparr>gr_status := APPROVED, gr_aggregate_seq := 2\<rparr>] \<and> aw_db w' = approver_db \<and>
    aw_consumptions w' = [] \<and> aw_store w' = 2"
proof -
  have lg: "load_grant w ''apr-0'' = Inr deploy_grant" using assms(3) by (simp add: load_grant_def)
  have d: "decisions_of w ''apr-0'' = []" using assms(4) by (simp add: decisions_of_def)
  have ns: "approval_next_status PENDING ''APPROVAL_GRANTED'' = Inr APPROVED"
    by (simp add: approval_next_status_def APPROVAL_TERMINAL_def APPROVAL_TRANSITIONS_def)
  have kn: "account_known w ''u1''" using assms(1) by (simp add: account_known_def approver_accounts)
  show ?thesis
    using lg d ns kn approver_eligible [OF assms(1,2)] assms
    by (simp add: decide_approval_def deploy_decision_def decide_with_def resolve_decision_def tally_append Let_def
        record_decision_def account_known_def grants_with_def sample_principal_def)
qed

lemma deploy_consumed:
  assumes "aw_db w = approver_db" "aw_consumptions w = []" "aw_store w = 2"
    "aw_grants w = [deploy_grant\<lparr>gr_status := APPROVED, gr_aggregate_seq := 2\<rparr>]"
  shows "\<exists>w' r. consume_approval tally_env 3 ''apr-0'' ''once'' ''u2'' (''action'', ''x'') ''c'' w = Inr (w', r) \<and>
    \<not> co_replayed r \<and> length (aw_consumptions w') = 1 \<and>
    aw_grants w' = [deploy_grant\<lparr>gr_status := CONSUMED, gr_aggregate_seq := 3\<rparr>]"
proof -
  have lg: "load_grant w ''apr-0'' = Inr (deploy_grant\<lparr>gr_status := APPROVED, gr_aggregate_seq := 2\<rparr>)"
    using assms(4) by (simp add: load_grant_def)
  have u: "uses_of w ''apr-0'' = []" using assms(2) by (simp add: uses_of_def)
  have "''u2'' \<in> ac_uuid ` set (pb_accounts approver_db)" by (simp add: approver_db_def)
  then show ?thesis
    using lg u assms
    by (simp add: consume_approval_def tally_append Let_def account_known_def approver_accounts CONSUMABLE_def
        status_after_consumption_def grants_with_def)
qed

lemma deploy_run:
  obtains w\<^sub>1 w\<^sub>2 w\<^sub>3 r where "approval_steps tally_env idle_world w\<^sub>1" "aw_grants w\<^sub>1 = [deploy_grant]"
    "aw_db w\<^sub>1 = approver_db" "aw_aliases w\<^sub>1 = []" "approval_steps tally_env idle_world w\<^sub>2"
    "consume_approval tally_env 3 ''apr-0'' ''once'' ''u2'' (''action'', ''x'') ''c'' w\<^sub>2 = Inr (w\<^sub>3, r)" "\<not> co_replayed r"
    "approval_steps tally_env idle_world w\<^sub>3" "length (aw_consumptions w\<^sub>3) = 1"
    "aw_grants w\<^sub>3 = [deploy_grant\<lparr>gr_status := CONSUMED, gr_aggregate_seq := 3\<rparr>]"
proof -
  obtain w\<^sub>1 r\<^sub>1 where 1: "request_approval tally_env deploy_catalog 1 deploy_request idle_world = Inr (w\<^sub>1, r\<^sub>1)"
      "aw_grants w\<^sub>1 = [deploy_grant]" "aw_decisions w\<^sub>1 = []" "aw_consumptions w\<^sub>1 = []"
      "aw_db w\<^sub>1 = approver_db" "aw_aliases w\<^sub>1 = []" "aw_store w\<^sub>1 = 1"
    using deploy_requested by blast
  obtain w\<^sub>2 r\<^sub>2 where 2: "decide_approval tally_env deploy_authz deploy_catalog 2 deploy_decision w\<^sub>1 = (aw_log w\<^sub>1, Inr (w\<^sub>2, r\<^sub>2))"
      "aw_grants w\<^sub>2 = [deploy_grant\<lparr>gr_status := APPROVED, gr_aggregate_seq := 2\<rparr>]" "aw_db w\<^sub>2 = approver_db"
      "aw_consumptions w\<^sub>2 = []" "aw_store w\<^sub>2 = 2"
    using deploy_decided [OF 1(5,6,2,3,4,7)] by blast
  obtain w\<^sub>3 r\<^sub>3 where 3: "consume_approval tally_env 3 ''apr-0'' ''once'' ''u2'' (''action'', ''x'') ''c'' w\<^sub>2 = Inr (w\<^sub>3, r\<^sub>3)"
      "\<not> co_replayed r\<^sub>3" "length (aw_consumptions w\<^sub>3) = 1"
      "aw_grants w\<^sub>3 = [deploy_grant\<lparr>gr_status := CONSUMED, gr_aggregate_seq := 3\<rparr>]"
    using deploy_consumed [OF 2(3,4,5,2)] by blast
  have s1: "approval_steps tally_env idle_world w\<^sub>1" using approval_step.requested [OF 1(1)] by blast
  then have s2: "approval_steps tally_env idle_world w\<^sub>2"
    using approval_step.decided [OF 2(1)] by (rule rtranclp.rtrancl_into_rtrancl)
  then have s3: "approval_steps tally_env idle_world w\<^sub>3"
    using approval_step.consumed [OF 3(1)] by (rule rtranclp.rtrancl_into_rtrancl)
  show thesis using that [OF s1 1(2,5,6) s2 3(1,2) s3 3(3,4)] .
qed

lemma idle_fresh: "fresh_world idle_world"
  by (simp add: fresh_world_def)

theorem approval_uses_bounded_witness:
  "\<exists>w g. approval_steps tally_env idle_world w \<and> g \<in> set (aw_grants w) \<and> gr_max_uses g = Some 1 \<and>
     gr_status g = CONSUMED \<and> length (uses_of w (gr_approval_id g)) = 1"
proof -
  obtain w where w: "approval_steps tally_env idle_world w"
      "aw_grants w = [deploy_grant\<lparr>gr_status := CONSUMED, gr_aggregate_seq := 3\<rparr>]"
    using deploy_run by metis
  then show ?thesis
    using approval_uses_bounded [OF idle_fresh w(1), of "deploy_grant\<lparr>gr_status := CONSUMED, gr_aggregate_seq := 3\<rparr>"]
    by (intro exI [of _ w] exI [of _ "deploy_grant\<lparr>gr_status := CONSUMED, gr_aggregate_seq := 3\<rparr>"]) simp
qed

theorem uses_need_independent_quorum_witness:
  "\<exists>w ds. approval_steps tally_env idle_world w \<and>
     ds = filter (\<lambda>d. de_decision d = ''APPROVE'') (decisions_of w ''apr-0'') \<and>
     int (card (de_decided_by ` set ds)) \<ge> 1 \<and> ''u2'' \<notin> de_decided_by ` set ds"
proof -
  obtain w where w: "approval_steps tally_env idle_world w"
      "aw_grants w = [deploy_grant\<lparr>gr_status := CONSUMED, gr_aggregate_seq := 3\<rparr>]"
    using deploy_run by metis
  then show ?thesis
    using uses_need_independent_quorum [OF idle_fresh w(1), of "deploy_grant\<lparr>gr_status := CONSUMED, gr_aggregate_seq := 3\<rparr>"]
    by auto
qed

theorem final_approvals_stay_witness:
  "\<exists>w w'. approval_steps tally_env idle_world w \<and> approval_steps tally_env w w' \<and> aw_store w' = 99 \<and> aw_aliases w' = [(''u1'', ''u2'')] \<and>
     deploy_grant\<lparr>gr_status := CONSUMED, gr_aggregate_seq := 3\<rparr> \<in> set (aw_grants w')"
proof -
  let ?g = "deploy_grant\<lparr>gr_status := CONSUMED, gr_aggregate_seq := 3\<rparr>"
  obtain w where w: "approval_steps tally_env idle_world w" "aw_grants w = [?g]" using deploy_run by metis
  let ?w' = "w\<lparr>aw_store := 99, aw_aliases := [(''u1'', ''u2'')]\<rparr>"
  have s: "approval_steps tally_env w ?w'" by (intro r_into_rtranclp approval_step.elsewhere) simp_all
  have "?g \<in> set (aw_grants w)" "gr_status ?g \<in> set APPROVAL_TERMINAL" using w(2) by (simp_all add: APPROVAL_TERMINAL_def)
  from final_approvals_stay [OF idle_fresh w(1) this s] have "?g \<in> set (aw_grants ?w')" by blast
  then show ?thesis using w(1) s by (intro exI [of _ w] exI [of _ ?w']) simp
qed

theorem consume_retry_example:
  "\<exists>w w\<^sub>1 r r'. approval_steps tally_env idle_world w \<and>
     consume_approval tally_env 3 ''apr-0'' ''once'' ''u2'' (''action'', ''x'') ''c'' w = Inr (w\<^sub>1, r) \<and> \<not> co_replayed r \<and>
     consume_approval tally_env 99 ''apr-0'' ''once'' ''u2'' (''action'', ''x'') ''c'' w\<^sub>1 = Inr (w\<^sub>1, r') \<and> co_replayed r'"
proof -
  obtain w w\<^sub>1 r where w: "approval_steps tally_env idle_world w" "\<not> co_replayed r"
      "consume_approval tally_env 3 ''apr-0'' ''once'' ''u2'' (''action'', ''x'') ''c'' w = Inr (w\<^sub>1, r)"
    using deploy_run by metis
  then show ?thesis using consume_retry [OF idle_fresh w(1,3) rtranclp.rtrancl_refl, of 99 "''u2''" "(''action'', ''x'')" "''c''"]
    by blast
qed

theorem expiry_clears_witness:
  "\<exists>w w' ids. approval_steps tally_env idle_world w \<and>
     expire_approvals tally_env 50 ''role-admin'' ''u1'' ''c'' (Some ''w'') w = Inr (w', ids) \<and> ids = [''apr-0''] \<and>
     (\<exists>q. deploy_grant\<lparr>gr_status := EXPIRED, gr_aggregate_seq := q\<rparr> \<in> set (aw_grants w'))"
proof -
  obtain w where w: "approval_steps tally_env idle_world w" "aw_grants w = [deploy_grant]" using deploy_run by metis
  have "so_append (ap_store tally_env) s req \<noteq> Inl e" for s req e by (simp add: tally_env_def tally_ops_def)
  moreover have "expiry_due 50 (Some ''w'') deploy_grant" by (simp add: expiry_due_def)
  ultimately show ?thesis
    using expiry_clears [OF idle_fresh w(1), where now = 50 and role = "''role-admin''" and actor = "''u1''" and
        corr = "''c''" and ws = "Some ''w''"] w
    by (cases "expire_approvals tally_env 50 ''role-admin'' ''u1'' ''c'' (Some ''w'') w") auto
qed


section \<open>The projection\<close>

text \<open>
  C25. The displayed state is the decided state: starting from tables and a projection that agree
  (an empty database, say), after any sequence of approval commands on the bus, refused and failing
  ones included, the projection has exactly one row per grant, and the row shows the status, the
  number of uses, the deciders in order and the other columns of the tables that decide.
\<close>

theorem projection_matches_authority:
  assumes "approval_inv w\<^sub>0" and "views_ok w\<^sub>0" and w: "w = run_approvals B cmds w\<^sub>0"
  shows "distinct (map vw_approval_id (aw_views w)) \<and>
    vw_approval_id ` set (aw_views w) = gr_approval_id ` set (aw_grants w) \<and>
    (\<forall>g \<in> set (aw_grants w). \<exists>v \<in> set (aw_views w). vw_approval_id v = gr_approval_id g \<and> view_of w g v)"
proof -
  have ok: "views_ok w" unfolding w by (rule run_approvals_views [OF assms(2,1)])
  have "\<exists>v \<in> set (aw_views w). vw_approval_id v = gr_approval_id g \<and> view_of w g v" if g: "g \<in> set (aw_grants w)" for g
  proof -
    have "gr_approval_id g \<in> vw_approval_id ` set (aw_views w)" using ok g by (simp add: views_ok_def)
    then show ?thesis using ok g unfolding views_ok_def by force
  qed
  then show ?thesis using ok by (simp add: views_ok_def)
qed

definition deploy_bus :: "nat approval_bus" where
  "deploy_bus = \<lparr>bs_env = tally_env, bs_authorizer = None, bs_policy_authorizer = Some deploy_authz,
     bs_catalog = deploy_catalog, bs_prims = flat_prims, bs_jsonb = (\<lambda>p. p), bs_escalation_role = ''role-a'',
     bs_parse_uuid = Some\<rparr>"

definition approver_context :: approval_context where
  "approver_context = \<lparr>vc_workspace_id = ''w'', vc_account_id = ''human-a'', vc_account_uuid = ''u1'',
     vc_fingerprint = ''f'', vc_mfa_verified = True, vc_reauth_verified = False, vc_correlation_id = ''c'',
     vc_idempotency_key = ''d'', vc_now = 2\<rparr>"

theorem projection_matches_authority_witness:
  "\<exists>w\<^sub>0 w v. approval_steps tally_env idle_world w\<^sub>0 \<and>
     w = run_approvals deploy_bus [(approver_context, DecideApproval ''apr-0'' ''APPROVE'' [])] w\<^sub>0 \<and>
     v \<in> set (aw_views w) \<and> vw_approval_id v = ''apr-0'' \<and> vw_status v = ''APPROVED''"
proof -
  obtain w\<^sub>0 r\<^sub>0 where 1: "request_approval tally_env deploy_catalog 1 deploy_request idle_world = Inr (w\<^sub>0, r\<^sub>0)"
      "aw_grants w\<^sub>0 = [deploy_grant]" "aw_decisions w\<^sub>0 = []" "aw_consumptions w\<^sub>0 = []"
      "aw_db w\<^sub>0 = approver_db" "aw_aliases w\<^sub>0 = []" "aw_store w\<^sub>0 = 1"
    using deploy_requested by blast
  have idle: "approval_inv idle_world" "views_ok idle_world"
    using fresh_inv [OF idle_fresh] by (simp_all add: views_ok_def idle_world_def)
  have start: "approval_inv w\<^sub>0" "views_ok w\<^sub>0"
    using request_keeps [OF 1(1) idle(1)] request_views [OF 1(1) idle(2,1)] by simp_all
  obtain w r where 2: "decide_approval tally_env deploy_authz deploy_catalog 2 deploy_decision w\<^sub>0 = (aw_log w\<^sub>0, Inr (w, r))"
      "aw_grants w = [deploy_grant\<lparr>gr_status := APPROVED, gr_aggregate_seq := 2\<rparr>]"
    using deploy_decided [OF 1(5,6,2,3,4,7)] by blast
  have run: "w = run_approvals deploy_bus [(approver_context, DecideApproval ''apr-0'' ''APPROVE'' [])] w\<^sub>0"
    using 2(1) by (simp add: run_approvals_def run_approval_def approver_context_def handle_decide_def deploy_bus_def
        decision_authorizer_def deploy_decision_def)
  have "\<exists>v \<in> set (aw_views w). vw_approval_id v = ''apr-0'' \<and> vw_status v = ''APPROVED''"
    using projection_matches_authority [OF start run] 2(2) by (auto simp: view_of_def)
  moreover have "approval_steps tally_env idle_world w\<^sub>0" using approval_step.requested [OF 1(1)] by blast
  ultimately show ?thesis using run by blast
qed

end
