(* ===== verification/Verification_Runs.thy ===== *)
theory Verification_Runs
  imports Authorization Task_Runs Independence
begin

text \<open>
  VerificationRuns: \<^verbatim>\<open>src/server/verification/runs.py\<close> and \<^verbatim>\<open>gate.py\<close>. A \<open>verification_run\<close> is a row of
  \<^verbatim>\<open>verification_runs\<close>; the chained revisions, the findings, the evidence and the identity snapshots are
  lists in insertion order. A \<open>verification_world\<close> holds these tables, the offers of the assignment
  engine, the world of the Task handlers and the audit log.

  A call runs in one transaction. \<open>vw_log\<close> is the audit log this transaction sees and \<open>vw_kept\<close> the log
  that survives its rollback. A row that is written in a transaction of its own goes to both; a row
  of this transaction only to \<open>vw_log\<close>, and from then on this transaction holds the lock of the audit
  chain, so that a call that writes in a transaction of its own waits for it and never returns
  (\<open>AUDIT_LOCK_WAIT\<close>). An error carries the world in which it was raised, which a caller that catches
  it goes on with.
\<close>

section \<open>States and transitions\<close>

datatype verification_status =
    PLANNED | ASSIGNED | RUNNING | PASSED | FAILED | BLOCKED | CANCELLED | FIX_SUBMITTED | RECHECK_ASSIGNED

datatype verification_op = ASSIGN | START | VERDICT | FIX | RECHECK | CANCEL

fun run_status_value :: "verification_status \<Rightarrow> string" where
  "run_status_value PLANNED = ''PLANNED''"
| "run_status_value ASSIGNED = ''ASSIGNED''"
| "run_status_value RUNNING = ''RUNNING''"
| "run_status_value PASSED = ''PASSED''"
| "run_status_value FAILED = ''FAILED''"
| "run_status_value BLOCKED = ''BLOCKED''"
| "run_status_value CANCELLED = ''CANCELLED''"
| "run_status_value FIX_SUBMITTED = ''FIX_SUBMITTED''"
| "run_status_value RECHECK_ASSIGNED = ''RECHECK_ASSIGNED''"

fun op_value :: "verification_op \<Rightarrow> string" where
  "op_value ASSIGN = ''assign''"
| "op_value START = ''start''"
| "op_value VERDICT = ''verdict''"
| "op_value FIX = ''fix''"
| "op_value RECHECK = ''recheck''"
| "op_value CANCEL = ''cancel''"

definition RUN_TERMINAL :: "verification_status list" where
  "RUN_TERMINAL = [PASSED, CANCELLED]"

text \<open>A verdict resolves to the submitted result.\<close>

definition RUN_TRANSITIONS ::
  "((verification_status \<times> verification_op) \<times> verification_status option) list" where
  "RUN_TRANSITIONS =
    [((PLANNED, ASSIGN), Some ASSIGNED),
     ((ASSIGNED, START), Some RUNNING),
     ((RECHECK_ASSIGNED, START), Some RUNNING),
     ((RUNNING, VERDICT), None),
     ((FAILED, FIX), Some FIX_SUBMITTED),
     ((BLOCKED, FIX), Some FIX_SUBMITTED),
     ((FIX_SUBMITTED, RECHECK), Some RECHECK_ASSIGNED),
     ((BLOCKED, RECHECK), Some RECHECK_ASSIGNED),
     ((PLANNED, CANCEL), Some CANCELLED),
     ((ASSIGNED, CANCEL), Some CANCELLED),
     ((RUNNING, CANCEL), Some CANCELLED),
     ((FAILED, CANCEL), Some CANCELLED),
     ((BLOCKED, CANCEL), Some CANCELLED),
     ((FIX_SUBMITTED, CANCEL), Some CANCELLED),
     ((RECHECK_ASSIGNED, CANCEL), Some CANCELLED)]"

definition status_of_result :: "string option \<Rightarrow> verification_status option" where
  "status_of_result result =
     map_of [(Some ''PASSED'', PASSED), (Some ''FAILED'', FAILED), (Some ''BLOCKED'', BLOCKED)] result"

definition run_next_status ::
  "verification_status \<Rightarrow> verification_op \<Rightarrow> string option \<Rightarrow> verification_status res" where
  "run_next_status current op result =
     (if current \<in> set RUN_TERMINAL then Inl ''VERIFICATION_TERMINAL''
      else case map_of RUN_TRANSITIONS (current, op) of
        None \<Rightarrow> Inl ''VERIFICATION_TRANSITION_INVALID''
      | Some (Some target) \<Rightarrow> Inr target
      | Some None \<Rightarrow> (case status_of_result result of
            None \<Rightarrow> Inl ''VERIFICATION_RESULT_INVALID'' | Some s \<Rightarrow> Inr s))"

section \<open>Tables\<close>

record verification_run =
  rn_verification_id :: string
  rn_workspace :: string
  rn_target_type :: string
  rn_target_id :: string
  rn_phase :: "int option"
  rn_task_id :: "string option"
  rn_implementer :: string
  rn_verifier :: string
  rn_implementer_agent :: "string option"
  rn_verifier_agent :: "string option"
  rn_implementer_fingerprint :: string
  rn_verifier_fingerprint :: string
  rn_identity_graph_version :: string
  rn_effective_policy_hash :: string
  rn_criteria_version :: string
  rn_target_commit :: string
  rn_status :: verification_status
  rn_current_revision :: int
  rn_result :: "string option"
  rn_snapshot_hash :: string
  rn_created_by :: string
  rn_created_at :: time
  rn_row_id :: string

record verification_revision =
  re_id :: int
  re_revision_id :: string
  re_verification_id :: string
  re_revision :: int
  re_result :: string
  re_submitted_by :: string
  re_fingerprint :: string
  re_report :: pydict
  re_report_sha256 :: string
  re_event_id :: string
  re_previous_hash :: "string option"
  re_content_hash :: string
  re_created_at :: time

record evidence_row =
  ee_verification_id :: string
  ee_revision :: int
  ee_ref :: string
  ee_sha256 :: "string option"
  ee_submitted_by :: string

record finding_row =
  fi_finding_id :: string
  fi_verification_id :: string
  fi_revision :: int
  fi_severity :: string
  fi_summary :: string
  fi_detail :: pydict

record snapshot_row =
  sn_verification_id :: string
  sn_snapshot :: pydict
  sn_hash :: string

text \<open>
  What the assignment engine reads and writes: Agents with their presence, capacity and the domains
  of their capabilities, credentials, channels with the definition of their template, and offers.
\<close>

record agent_row =
  ag_agent_id :: string
  ag_account :: string
  ag_status :: string
  ag_online :: bool
  ag_capacity :: "int option"
  ag_domains :: "string list"

record credential_row =
  cd_account :: string
  cd_fingerprint :: string
  cd_status :: string

record channel_row =
  ch_workspace :: string
  ch_channel_id :: string
  ch_uuid :: string
  ch_definition :: "pydict option"

record offer_row =
  of_id :: int
  of_workspace :: string
  of_task_id :: string
  of_verification_id :: string
  of_rank :: int
  of_account :: string
  of_agent :: "string option"
  of_score :: int
  of_work_item :: "string option"
  of_offered_at :: time
  of_deadline :: time
  of_status :: string
  of_resolved_at :: "time option"

record 's verification_world =
  vw_tasks :: "'s task_world"
  vw_db :: policy_db
  vw_aliases :: "(string \<times> string) list"
  vw_agents :: "agent_row list"
  vw_credentials :: "credential_row list"
  vw_channels :: "channel_row list"
  vw_runs :: "verification_run list"
  vw_snapshots :: "snapshot_row list"
  vw_revisions :: "verification_revision list"
  vw_next_revision :: int
  vw_evidence :: "evidence_row list"
  vw_findings :: "finding_row list"
  vw_offers :: "offer_row list"
  vw_next_offer :: int
  vw_log :: audit_log
  vw_kept :: audit_log
  vw_drawn :: nat

type_synonym ('s, 'a) vres = "(string \<times> 's verification_world) + 'a"

definition raise_in :: "'s verification_world \<Rightarrow> string \<Rightarrow> ('s, 'a) vres" where
  "raise_in w code = Inl (code, w)"

definition lift_in :: "'s verification_world \<Rightarrow> 'a res \<Rightarrow> ('s, 'a) vres" where
  "lift_in w r = (case r of Inl e \<Rightarrow> raise_in w e | Inr x \<Rightarrow> Inr x)"

section \<open>Runs\<close>

definition load_run :: "'s verification_world \<Rightarrow> string \<Rightarrow> verification_run res" where
  "load_run w verification_id =
     (case List.find (\<lambda>r. rn_verification_id r = verification_id) (vw_runs w) of
        None \<Rightarrow> Inl ''VERIFICATION_NOT_FOUND'' | Some r \<Rightarrow> Inr r)"

definition load_snapshot :: "'s verification_world \<Rightarrow> string \<Rightarrow> (pydict \<times> string) res" where
  "load_snapshot w verification_id =
     (case List.find (\<lambda>s. sn_verification_id s = verification_id) (vw_snapshots w) of
        None \<Rightarrow> Inl ''VERIFICATION_SNAPSHOT_MISSING'' | Some s \<Rightarrow> Inr (sn_snapshot s, sn_hash s))"

definition update_run ::
  "string \<Rightarrow> (verification_run \<Rightarrow> verification_run) \<Rightarrow> 's verification_world \<Rightarrow> 's verification_world" where
  "update_run verification_id f w =
     w\<lparr>vw_runs := map (\<lambda>r. if rn_verification_id r = verification_id then f r else r) (vw_runs w)\<rparr>"

definition set_run_status ::
  "string \<Rightarrow> verification_status \<Rightarrow> 's verification_world \<Rightarrow> 's verification_world" where
  "set_run_status verification_id status w = update_run verification_id (\<lambda>r. r\<lparr>rn_status := status\<rparr>) w"

definition world_graph :: "'s verification_world \<Rightarrow> string \<Rightarrow> alias_dict" where
  "world_graph w workspace =
     alias_graph (map (\<lambda>a. (ac_uuid a, ac_workspace a)) (pb_accounts (vw_db w))) (vw_aliases w) workspace"

definition check_submitter ::
  "verification_run \<Rightarrow> string \<Rightarrow> string \<Rightarrow> alias_dict \<Rightarrow> unit res" where
  "check_submitter run submitter fingerprint graph =
     (if submitter = rn_implementer run \<or>
         effective_principal submitter graph = effective_principal (rn_implementer run) graph \<or>
         fingerprint = rn_implementer_fingerprint run
      then Inl ''SELF_VERIFICATION_FORBIDDEN''
      else if submitter \<noteq> rn_verifier run then Inl ''VERIFIER_MISMATCH''
      else Inr ())"

section \<open>Verdict reports\<close>

text \<open>
  The schema \<^verbatim>\<open>schemas/documents/verification-verdict.v1.schema.json\<close>, keyword by keyword: a required
  member, a member of a type where present, the members of a list.
\<close>

definition is_str :: "json \<Rightarrow> bool" where
  "is_str v = (case v of JStr _ \<Rightarrow> True | _ \<Rightarrow> False)"

definition nonempty_str :: "json \<Rightarrow> bool" where
  "nonempty_str v = (case v of JStr s \<Rightarrow> s \<noteq> [] | _ \<Rightarrow> False)"

definition one_of :: "string list \<Rightarrow> json \<Rightarrow> bool" where
  "one_of ss v = (case v of JStr s \<Rightarrow> s \<in> set ss | _ \<Rightarrow> False)"

definition array_of :: "(json \<Rightarrow> bool) \<Rightarrow> json \<Rightarrow> bool" where
  "array_of Q v = (case v of JArr vs \<Rightarrow> list_all Q vs | _ \<Rightarrow> False)"

definition required :: "pydict \<Rightarrow> string \<Rightarrow> (json \<Rightarrow> bool) \<Rightarrow> bool" where
  "required d k Q = (case map_of d k of None \<Rightarrow> False | Some v \<Rightarrow> Q v)"

definition optional :: "pydict \<Rightarrow> string \<Rightarrow> (json \<Rightarrow> bool) \<Rightarrow> bool" where
  "optional d k Q = (case map_of d k of None \<Rightarrow> True | Some v \<Rightarrow> Q v)"

definition valid_test :: "json \<Rightarrow> bool" where
  "valid_test v = (case v of
      JObj d \<Rightarrow> required d ''id'' nonempty_str \<and>
        required d ''result'' (one_of [''PASS'', ''FAIL'', ''NOT_RUN'', ''NOT_APPLICABLE'']) \<and>
        required d ''evidence_ref'' is_str \<and> optional d ''note'' is_str
    | _ \<Rightarrow> False)"

definition valid_finding :: "json \<Rightarrow> bool" where
  "valid_finding v = (case v of
      JObj d \<Rightarrow> required d ''id'' nonempty_str \<and>
        required d ''severity'' (one_of [''Critical'', ''High'', ''Medium'', ''Low'']) \<and>
        required d ''summary'' nonempty_str \<and> optional d ''affected'' (array_of is_str) \<and>
        optional d ''reproduction'' (array_of is_str) \<and>
        list_all (\<lambda>k. optional d k is_str)
          [''expected'', ''actual'', ''evidence_ref'', ''impact'', ''fix_condition'']
    | _ \<Rightarrow> False)"

definition verdict_valid :: "pydict \<Rightarrow> bool" where
  "verdict_valid d \<longleftrightarrow>
     required d ''result'' (one_of [''PASSED'', ''FAILED'', ''BLOCKED'']) \<and>
     required d ''criteria_version'' nonempty_str \<and>
     list_all (\<lambda>k. optional d k is_str) [''environment_fingerprint'', ''started_at'', ''completed_at''] \<and>
     required d ''tests'' (array_of valid_test) \<and> required d ''findings'' (array_of valid_finding) \<and>
     required d ''residual_risks'' (array_of is_str)"

text \<open>The members of a list of the report; a valid report has objects there.\<close>

definition report_items :: "pydict \<Rightarrow> string \<Rightarrow> pydict list" where
  "report_items d k = (case map_of d k of
      Some (JArr vs) \<Rightarrow> List.map_filter (\<lambda>v. case v of JObj o' \<Rightarrow> Some o' | _ \<Rightarrow> None) vs
    | _ \<Rightarrow> [])"

definition item_field :: "pydict \<Rightarrow> string \<Rightarrow> string" where
  "item_field d k = get_default [] (get_str d k)"

definition pass_justified :: "pydict \<Rightarrow> bool" where
  "pass_justified report \<longleftrightarrow>
     \<not> list_ex (\<lambda>f. item_field f ''severity'' \<in> {''Critical'', ''High'', ''Medium''}) (report_items report ''findings'') \<and>
     list_all (\<lambda>t. item_field t ''result'' \<in> {''PASS'', ''NOT_APPLICABLE''}) (report_items report ''tests'')"

definition validate_verdict :: "pydict \<Rightarrow> string \<Rightarrow> unit res" where
  "validate_verdict report result =
     (if \<not> verdict_valid report then Inl ''VERDICT_REPORT_INVALID''
      else if get_str report ''result'' \<noteq> Some result then Inl ''VERDICT_RESULT_MISMATCH''
      else if result = ''PASSED'' \<and> \<not> pass_justified report then Inl ''VERDICT_PASS_NOT_JUSTIFIED''
      else Inr ())"

definition report_sha256 :: "prims \<Rightarrow> pydict \<Rightarrow> string res" where
  "report_sha256 P report = bind_res (canonical_bytes (JObj report)) (\<lambda>b. Inr (sha256_hex P b))"

section \<open>Revisions\<close>

definition revision_fields :: "verification_revision \<Rightarrow> (string \<times> cell) list" where
  "revision_fields r =
     [(''revision_id'', CVal (JStr (re_revision_id r))),
      (''verification_id'', CVal (JStr (re_verification_id r))),
      (''revision'', CVal (JInt (re_revision r))), (''result'', CVal (JStr (re_result r))),
      (''submitted_by_account_id'', CUuid (re_submitted_by r)),
      (''submitter_credential_fingerprint'', CVal (JStr (re_fingerprint r))),
      (''report_sha256'', CVal (JStr (re_report_sha256 r))), (''event_id'', CVal (JStr (re_event_id r))),
      (''created_at'', CTime (re_created_at r))]"

text \<open>A revision as a row of the chained table.\<close>

definition revision_row :: "verification_revision \<Rightarrow> chain_row" where
  "revision_row r = \<lparr>cr_id = re_id r, cr_cells = revision_fields r,
     cr_previous_hash = re_previous_hash r, cr_content_hash = re_content_hash r\<rparr>"

definition finding_of :: "(pydict \<Rightarrow> pydict) \<Rightarrow> string \<Rightarrow> int \<Rightarrow> pydict \<Rightarrow> finding_row" where
  "finding_of jsonb vid revision f =
     \<lparr>fi_finding_id = vid @ '':'' @ int_str revision @ '':'' @ item_field f ''id'',
      fi_verification_id = vid, fi_revision = revision, fi_severity = item_field f ''severity'',
      fi_summary = item_field f ''summary'', fi_detail = jsonb f\<rparr>"

text \<open>The guard of the insert: no row of a submitter that is the implementer of the run.\<close>

definition self_submitted :: "'s verification_world \<Rightarrow> string \<Rightarrow> string \<Rightarrow> string \<Rightarrow> bool" where
  "self_submitted w vid submitter fingerprint \<longleftrightarrow>
     list_ex (\<lambda>r. rn_verification_id r = vid \<and>
       (rn_implementer r = submitter \<or> rn_implementer_fingerprint r = fingerprint)) (vw_runs w)"

definition new_revision ::
  "prims \<Rightarrow> 's verification_world \<Rightarrow> verification_run \<Rightarrow> string \<Rightarrow> string \<Rightarrow> string \<Rightarrow> pydict \<Rightarrow> string
    \<Rightarrow> time \<Rightarrow> verification_revision res" where
  "new_revision P w run result submitter fingerprint report event_id now =
     bind_res (report_sha256 P report) (\<lambda>digest.
     let n = rn_current_revision run + 1;
         draft = \<lparr>re_id = vw_next_revision w,
           re_revision_id = ''vrr-'' @ rn_verification_id run @ ''-'' @ pad 3 n,
           re_verification_id = rn_verification_id run, re_revision = n, re_result = result,
           re_submitted_by = submitter, re_fingerprint = fingerprint, re_report = report,
           re_report_sha256 = digest, re_event_id = event_id,
           re_previous_hash = last_hash (map revision_row (vw_revisions w)), re_content_hash = [],
           re_created_at = now\<rparr>
     in bind_res (chain_hash P (hashed_row_fields VERIFICATION_CHAIN (revision_fields draft))
          (re_previous_hash draft)) (\<lambda>h. Inr (draft\<lparr>re_content_hash := h\<rparr>)))"

definition insert_revision ::
  "(pydict \<Rightarrow> pydict) \<Rightarrow> verification_revision \<Rightarrow> 's verification_world \<Rightarrow> 's verification_world res" where
  "insert_revision jsonb r w =
     (if self_submitted w (re_verification_id r) (re_submitted_by r) (re_fingerprint r)
      then Inl ''SELF_VERIFICATION_FORBIDDEN''
      else if list_ex (\<lambda>x. re_revision_id x = re_revision_id r \<or>
          re_verification_id x = re_verification_id r \<and> re_revision x = re_revision r) (vw_revisions w)
      then Inl ''IntegrityError''
      else Inr (w\<lparr>vw_revisions := vw_revisions w @ [r\<lparr>re_report := jsonb (re_report r)\<rparr>],
        vw_next_revision := vw_next_revision w + 1\<rparr>))"

definition insert_finding :: "finding_row \<Rightarrow> 's verification_world \<Rightarrow> 's verification_world res" where
  "insert_finding f w =
     (if list_ex (\<lambda>x. fi_finding_id x = fi_finding_id f) (vw_findings w) then Inl ''IntegrityError''
      else Inr (w\<lparr>vw_findings := vw_findings w @ [f]\<rparr>))"

definition append_revision ::
  "prims \<Rightarrow> (pydict \<Rightarrow> pydict) \<Rightarrow> verification_run \<Rightarrow> string \<Rightarrow> string \<Rightarrow> string \<Rightarrow> pydict \<Rightarrow> string \<Rightarrow> time
    \<Rightarrow> 's verification_world \<Rightarrow> ('s verification_world \<times> verification_revision) res" where
  "append_revision P jsonb run result submitter fingerprint report event_id now w =
     bind_res (new_revision P w run result submitter fingerprint report event_id now) (\<lambda>r.
     bind_res (insert_revision jsonb r w) (\<lambda>w1.
     bind_res (fold_res insert_finding
         (map (finding_of jsonb (rn_verification_id run) (re_revision r)) (report_items report ''findings'')) w1) (\<lambda>w2.
       Inr (update_run (rn_verification_id run)
         (\<lambda>x. x\<lparr>rn_current_revision := re_revision r, rn_result := Some result,
            rn_status := get_default (rn_status x) (status_of_result (Some result))\<rparr>) w2, r))))"

definition list_revisions :: "'s verification_world \<Rightarrow> string \<Rightarrow> verification_revision list" where
  "list_revisions w verification_id =
     sort_key re_revision (filter (\<lambda>r. re_verification_id r = verification_id) (vw_revisions w))"

section \<open>The completion gate\<close>

record verification_gate_row =
  vg_passed :: bool
  vg_verification_id :: "string option"
  vg_revision :: int
  vg_result :: "string option"

definition verification_gate :: "'s verification_world \<Rightarrow> string \<Rightarrow> string \<Rightarrow> verification_gate_row" where
  "verification_gate w target_type target_id =
     (case rev (sort_key (\<lambda>r. (rn_created_at r, rn_row_id r))
         (filter (\<lambda>r. rn_target_type r = target_type \<and> rn_target_id r = target_id \<and>
            rn_status r \<noteq> CANCELLED) (vw_runs w))) of
        [] \<Rightarrow> \<lparr>vg_passed = False, vg_verification_id = None, vg_revision = 0, vg_result = None\<rparr>
      | r # _ \<Rightarrow> \<lparr>vg_passed = (rn_result r = Some ''PASSED''),
          vg_verification_id = Some (rn_verification_id r), vg_revision = rn_current_revision r,
          vg_result = rn_result r\<rparr>)"

definition require_verified ::
  "'s verification_world \<Rightarrow> string \<Rightarrow> string \<Rightarrow> verification_gate_row res" where
  "require_verified w target_type target_id =
     (let gate = verification_gate w target_type target_id in
      if vg_passed gate then Inr gate else Inl ''VERIFICATION_REQUIRED'')"

end
