(* ===== verification/Verifier_Assignment.thy ===== *)
theory Verifier_Assignment
  imports Verification_Runs
begin

text \<open>
  The selection of a Verifier and its offer: the first half of \<^verbatim>\<open>src/server/verification/assignment.py\<close>
  with \<^verbatim>\<open>load_of\<close>, \<^verbatim>\<open>_policy_allows\<close> and \<^verbatim>\<open>record_decision\<close> of \<^verbatim>\<open>src/server/agents/routing.py\<close>. The
  policy check of a candidate writes a denial in a transaction of its own. The rows of
  \<^verbatim>\<open>routing_decisions\<close> are read by no part of the model and are left out; their audit row is kept.
\<close>

section \<open>Environment\<close>

record verification_context =
  vx_base :: command_context
  vx_account_id :: string
  vx_fingerprint :: string
  vx_now :: time
  vx_db_now :: time

text \<open>
  What the handlers call in other packages: the Task handlers with their own environment, the
  criteria and Artifacts of a Task, the work inbox and the Documentation Service. The inbox refuses
  to cancel an item by \<open>None\<close> (\<^verbatim>\<open>WorkItemError\<close>).
\<close>

record 's verification_env =
  ve_store :: "'s store_ops"
  ve_tasks :: "'s task_env"
  ve_authorizer :: "authz_env option"
  ve_prims :: prims
  ve_jsonb :: "pydict \<Rightarrow> pydict"
  ve_uuid5_hex :: "string \<Rightarrow> string"
  ve_criteria :: "'s verification_world \<Rightarrow> string \<Rightarrow> json list res"
  ve_artifacts :: "'s verification_world \<Rightarrow> string \<Rightarrow> string list"
  ve_enqueue :: "verification_context \<Rightarrow> string \<Rightarrow> pydict \<Rightarrow> time \<Rightarrow> string \<Rightarrow> string option
      \<Rightarrow> 's verification_world \<Rightarrow> ('s verification_world \<times> string) res"
  ve_cancel_item :: "verification_context \<Rightarrow> string \<Rightarrow> 's verification_world \<Rightarrow> 's verification_world option res"
  ve_on_terminal :: "verification_context \<Rightarrow> string \<Rightarrow> string \<Rightarrow> 's verification_world \<Rightarrow> 's verification_world res"

section \<open>Audit rows and permissions\<close>

definition audit_locked :: "'s verification_world \<Rightarrow> bool" where
  "audit_locked w \<longleftrightarrow> vw_log w \<noteq> vw_kept w"

text \<open>A row of this transaction.\<close>

definition session_audit ::
  "'s verification_env \<Rightarrow> audit_args \<Rightarrow> 's verification_world \<Rightarrow> ('s, 's verification_world) vres" where
  "session_audit V x w =
     bind_res (lift_in w (append_audit (ve_prims V) (ve_jsonb V) (vw_log w) x)) (\<lambda>(log', _).
       Inr (w\<lparr>vw_log := log'\<rparr>))"

text \<open>The log after a call that writes in a transaction of its own, when it writes.\<close>

definition own_transaction ::
  "'s verification_world \<Rightarrow> audit_log \<Rightarrow> ('s, 's verification_world) vres" where
  "own_transaction w log' =
     (if log' = vw_log w then Inr w
      else if audit_locked w then raise_in w ''AUDIT_LOCK_WAIT''
      else Inr (w\<lparr>vw_log := log', vw_kept := log'\<rparr>))"

definition independent_audit ::
  "'s verification_env \<Rightarrow> audit_args \<Rightarrow> 's verification_world \<Rightarrow> ('s, 's verification_world) vres" where
  "independent_audit V x w =
     bind_res (lift_in w (append_audit (ve_prims V) (ve_jsonb V) (vw_log w) x)) (\<lambda>(log', _).
       own_transaction w log')"

definition permission_query :: "verification_context \<Rightarrow> string \<Rightarrow> string option \<Rightarrow> authorization_request" where
  "permission_query cx permission action =
     \<lparr>az_permission = permission, az_action = action, az_domain = None, az_channel_id = None,
      az_resource = None, az_side_effect = False, az_required_capability = None,
      az_correlation_id = cx_correlation_id (vx_base cx), az_target_type = ''action'', az_target_id = ''-''\<rparr>"

definition need_permission ::
  "'s verification_env \<Rightarrow> verification_context \<Rightarrow> string \<Rightarrow> string option \<Rightarrow> 's verification_world
    \<Rightarrow> ('s, 's verification_world) vres" where
  "need_permission V cx permission action w =
     (case require_permission (ve_authorizer V) (vw_db w) (vw_log w) (vx_account_id cx)
         (permission_query cx permission action) of
        (log', r) \<Rightarrow> bind_res (own_transaction w log') (\<lambda>w1. bind_res (lift_in w1 r) (\<lambda>_. Inr w1)))"

section \<open>Eligible verifiers\<close>

record verifier_candidate =
  ca_account_uuid :: string
  ca_account_id :: string
  ca_account_type :: string
  ca_agent_id :: "string option"
  ca_fingerprint :: string
  ca_score :: int
  ca_domain_match :: bool
  ca_load :: int
  ca_human :: bool

definition HUMAN_REQUIRED_RISKS :: "string list" where
  "HUMAN_REQUIRED_RISKS = [''HIGH'', ''CRITICAL'']"

definition ACCEPT_TIMEOUT :: int where
  "ACCEPT_TIMEOUT = minutes 10"

definition WORK_DEADLINE :: int where
  "WORK_DEADLINE = hours 24"

definition find_channel :: "'s verification_world \<Rightarrow> string \<Rightarrow> string \<Rightarrow> channel_row option" where
  "find_channel w workspace channel =
     List.find (\<lambda>c. ch_workspace c = workspace \<and> (ch_channel_id c = channel \<or> ch_uuid c = channel)) (vw_channels w)"

definition human_required :: "'s verification_world \<Rightarrow> string \<Rightarrow> string option \<Rightarrow> string \<Rightarrow> bool" where
  "human_required w workspace channel risk =
     (if risk \<in> set HUMAN_REQUIRED_RISKS then True
      else if \<not> truthy channel then False
      else case List.find (\<lambda>c. ch_workspace c = workspace \<and> ch_definition c \<noteq> None \<and>
             (ch_channel_id c = the channel \<or> ch_uuid c = the channel)) (vw_channels w) of
        None \<Rightarrow> False
      | Some c \<Rightarrow> ''verification'' \<in> set (get_default []
          (get_strs (get_default [] (get_obj (the (ch_definition c)) ''risk_policy'')) ''requires_human_approval'')))"

definition channel_uuid :: "'s verification_world \<Rightarrow> string \<Rightarrow> string option \<Rightarrow> string option" where
  "channel_uuid w workspace channel =
     (if truthy channel then map_option ch_uuid (find_channel w workspace (the channel)) else None)"

definition account_fingerprint :: "'s verification_world \<Rightarrow> string \<Rightarrow> string option" where
  "account_fingerprint w account =
     (case sort (map cd_fingerprint (filter (\<lambda>c. cd_account c = account \<and> cd_status c = ''active'') (vw_credentials w))) of
        [] \<Rightarrow> None | f # _ \<Rightarrow> Some f)"

definition ACTIVE_TASK_STATUSES :: "string list" where
  "ACTIVE_TASK_STATUSES = [''DELEGATED'', ''ACCEPTED'', ''RUNNING'', ''WAITING'', ''IMPLEMENTED'', ''VERIFYING'']"

definition load_of :: "'s verification_world \<Rightarrow> string \<Rightarrow> int" where
  "load_of w account = int (card {t. \<exists>row. wd_tasks (vw_tasks w) t = Some row \<and>
     tr_assignee_account_id row = Some account \<and> status_value (tr_status row) \<in> set ACTIVE_TASK_STATUSES})"

definition policy_allows ::
  "'s verification_env \<Rightarrow> string \<Rightarrow> string option \<Rightarrow> string option \<Rightarrow> string \<Rightarrow> 's verification_world
    \<Rightarrow> ('s, 's verification_world \<times> bool) vres" where
  "policy_allows V account_id channel domain correlation_id w =
     (case ve_authorizer V of
        None \<Rightarrow> Inr (w, True)
      | Some A \<Rightarrow> bind_res (lift_in w (authorize A (vw_db w) (vw_log w) account_id
          \<lparr>az_permission = ''verification.submit'', az_action = None, az_domain = domain,
           az_channel_id = channel, az_resource = None, az_side_effect = False,
           az_required_capability = None, az_correlation_id = correlation_id,
           az_target_type = ''routing'', az_target_id = account_id\<rparr>)) (\<lambda>(log', a).
          bind_res (own_transaction w log') (\<lambda>w1. Inr (w1, auth_allowed a))))"

definition human_domain_match ::
  "'s verification_env \<Rightarrow> 's verification_world \<Rightarrow> string \<Rightarrow> string option \<Rightarrow> bool res" where
  "human_domain_match V w account_id domain =
     (case (domain, ve_authorizer V) of
        (Some d, Some A) \<Rightarrow> (case principal (vw_db w) account_id of
            None \<Rightarrow> Inr False
          | Some p \<Rightarrow> bind_res (effective_roles (vw_db w) p (ae_now A)) (\<lambda>roles.
              Inr (list_ex (\<lambda>r. (case co_domains (ro_constraints r) of None \<Rightarrow> False | Some ds \<Rightarrow> d \<in> set ds) \<and>
                ''verification.submit'' \<in> set (ro_permissions r)) roles)))
      | _ \<Rightarrow> Inr False)"

text \<open>The rows of the query: accounts in the order of their identifiers, joined with their Agents.\<close>

definition verifier_rows :: "'s verification_world \<Rightarrow> string \<Rightarrow> (account_rec \<times> agent_row option) list" where
  "verifier_rows w workspace =
     concat (map (\<lambda>a. case filter (\<lambda>g. ag_account g = ac_uuid a) (vw_agents w) of
         [] \<Rightarrow> [(a, None)] | gs \<Rightarrow> map (\<lambda>g. (a, Some g)) gs)
       (sort_key ac_account_id (filter (\<lambda>a. ac_workspace a = workspace \<and> ac_type a \<in> {''human'', ''agent''})
         (pb_accounts (vw_db w)))))"

record verifier_query =
  vq_workspace :: string
  vq_domain :: "string option"
  vq_risk :: string
  vq_channel :: "string option"
  vq_implementer :: identity
  vq_excluded :: "string list"
  vq_correlation_id :: string

text \<open>The tests of a row before the policy is asked.\<close>

definition domain_matches :: "verifier_query \<Rightarrow> agent_row option \<Rightarrow> bool" where
  "domain_matches q g = (case (vq_domain q, g) of (Some d, Some g) \<Rightarrow> d \<in> set (ag_domains g) | _ \<Rightarrow> False)"

definition row_fingerprint :: "'s verification_world \<Rightarrow> account_rec \<Rightarrow> string" where
  "row_fingerprint w a =
     (let f = account_fingerprint w (ac_uuid a) in if truthy f then the f else ''none:'' @ ac_account_id a)"

definition row_admissible ::
  "verifier_query \<Rightarrow> 's verification_world \<Rightarrow> account_rec \<times> agent_row option \<Rightarrow> bool" where
  "row_admissible q w = (\<lambda>(a, g).
     ac_uuid a \<notin> set (vq_excluded q) \<and> ac_account_id a \<notin> set (vq_excluded q) \<and>
     \<not> (human_required w (vq_workspace q) (vq_channel q) (vq_risk q) \<and> ac_type a = ''agent'') \<and>
     (ac_type a = ''agent'' \<longrightarrow>
        (case g of None \<Rightarrow> False | Some g \<Rightarrow> ag_status g = ''active'' \<and> ag_online g) \<and> domain_matches q g) \<and>
     check_independence (vq_implementer q)
       \<lparr>id_account_id = ac_uuid a, id_credential_fingerprint = row_fingerprint w a,
        id_agent_id = map_option ag_agent_id g\<rparr> (world_graph w (vq_workspace q)) None None = Inr () \<and>
     (ac_type a = ''agent'' \<longrightarrow>
        (case g of None \<Rightarrow> 0 | Some g \<Rightarrow> get_default 0 (ag_capacity g)) - load_of w (ac_uuid a) > 0))"

definition consider_row ::
  "'s verification_env \<Rightarrow> verifier_query \<Rightarrow> account_rec \<times> agent_row option \<Rightarrow> 's verification_world
    \<Rightarrow> ('s, 's verification_world \<times> verifier_candidate option) vres" where
  "consider_row V q row w =
     (if \<not> row_admissible q w row then Inr (w, None)
      else case row of (a, g) \<Rightarrow>
        bind_res (policy_allows V (ac_account_id a) (channel_uuid w (vq_workspace q) (vq_channel q))
            (vq_domain q) (vq_correlation_id q) w) (\<lambda>(w1, allowed).
        if \<not> allowed then Inr (w1, None)
        else bind_res (if ac_type a = ''agent'' then Inr (domain_matches q g)
                       else lift_in w1 (human_domain_match V w1 (ac_account_id a) (vq_domain q))) (\<lambda>dm.
          let load = load_of w (ac_uuid a);
              need_human = human_required w (vq_workspace q) (vq_channel q) (vq_risk q)
          in Inr (w1, Some \<lparr>ca_account_uuid = ac_uuid a, ca_account_id = ac_account_id a,
               ca_account_type = ac_type a, ca_agent_id = map_option ag_agent_id g,
               ca_fingerprint = row_fingerprint w a,
               ca_score = (if dm then 2 else 0) + (if load = 0 then 1 else 0) + (if need_human then 1 else 0),
               ca_domain_match = dm, ca_load = load, ca_human = (ac_type a \<noteq> ''agent'')\<rparr>))))"

fun consider_rows ::
  "'s verification_env \<Rightarrow> verifier_query \<Rightarrow> (account_rec \<times> agent_row option) list \<Rightarrow> 's verification_world
    \<Rightarrow> ('s, 's verification_world \<times> verifier_candidate list) vres" where
  "consider_rows V q [] w = Inr (w, [])"
| "consider_rows V q (row # rows) w =
     bind_res (consider_row V q row w) (\<lambda>(w1, c).
     bind_res (consider_rows V q rows w1) (\<lambda>(w2, cs).
       Inr (w2, (case c of None \<Rightarrow> cs | Some c \<Rightarrow> c # cs))))"

definition eligible_verifiers ::
  "'s verification_env \<Rightarrow> verifier_query \<Rightarrow> 's verification_world
    \<Rightarrow> ('s, 's verification_world \<times> verifier_candidate list) vres" where
  "eligible_verifiers V q w =
     bind_res (consider_rows V q (verifier_rows w (vq_workspace q)) w) (\<lambda>(w1, cs).
       Inr (w1, sort_key (\<lambda>c. (- ca_score c, ca_account_id c)) cs))"

section \<open>Offers\<close>

definition offered_accounts :: "'s verification_world \<Rightarrow> string \<Rightarrow> string list" where
  "offered_accounts w task_id = map of_account (filter (\<lambda>x. of_task_id x = task_id) (vw_offers w))"

definition next_rank :: "'s verification_world \<Rightarrow> string \<Rightarrow> int" where
  "next_rank w task_id =
     (case map of_rank (filter (\<lambda>x. of_task_id x = task_id) (vw_offers w)) of
        [] \<Rightarrow> 1 | r # rs \<Rightarrow> fold max rs r + 1)"

record create_run_fields =
  cf_target_type :: string
  cf_target_id :: string
  cf_implementer :: string
  cf_verifier :: string
  cf_implementer_fingerprint :: string
  cf_verifier_fingerprint :: string
  cf_target_commit :: string
  cf_effective_policy_hash :: string
  cf_criteria_version :: string
  cf_identity_graph_version :: string
  cf_implementer_agent :: "string option"
  cf_verifier_agent :: "string option"
  cf_phase :: "int option"
  cf_task_id :: "string option"
  cf_auto_assign :: bool

definition find_account :: "'s verification_world \<Rightarrow> string \<Rightarrow> string \<Rightarrow> string res" where
  "find_account w workspace account_id =
     (case List.find (\<lambda>a. ac_account_id a = account_id \<and> ac_workspace a = workspace) (pb_accounts (vw_db w)) of
        None \<Rightarrow> Inl ''ACCOUNT_NOT_FOUND'' | Some a \<Rightarrow> Inr (ac_uuid a))"

text \<open>The audit row of \<^verbatim>\<open>record_decision\<close>, as the engine calls it: no candidates and nobody selected.\<close>

definition routing_audit ::
  "verification_context \<Rightarrow> string \<Rightarrow> string option \<Rightarrow> string \<Rightarrow> audit_args" where
  "routing_audit cx task_id domain reason_code =
     \<lparr>au_action = ''routing.select'', au_target_type = ''task'', au_target_id = task_id,
      au_result = ''NO_CANDIDATE'', au_actor_label = vx_account_id cx,
      au_correlation_id = cx_correlation_id (vx_base cx),
      au_workspace_id = Some (cx_workspace_id (vx_base cx)),
      au_actor_account_id = Some (cx_account_uuid (vx_base cx)), au_error_code = Some reason_code,
      au_metadata = Some [(''purpose'', JStr ''verification''), (''candidates'', JArr []),
        (''selected'', JNull), (''required_capability'', JNull), (''domain'', jopt domain)],
      au_now = vx_now cx\<rparr>"

definition resolve_auto_assign ::
  "'s verification_env \<Rightarrow> verification_context \<Rightarrow> create_run_fields \<Rightarrow> 's verification_world
    \<Rightarrow> ('s, 's verification_world \<times> create_run_fields \<times> verifier_candidate) vres" where
  "resolve_auto_assign V cx f w =
     (if \<not> truthy (cf_task_id f) then raise_in w ''VERIFICATION_TARGET_INVALID''
      else let task_id = the (cf_task_id f); workspace = cx_workspace_id (vx_base cx) in
        bind_res (lift_in w (load_task (ve_store V) workspace (wd_store (vw_tasks w)) task_id)) (\<lambda>task.
        bind_res (lift_in w (find_account w workspace (cf_implementer f))) (\<lambda>impl.
        let domain = (if ts_domain task = [] then None else Some (ts_domain task)) in
        bind_res (eligible_verifiers V
            \<lparr>vq_workspace = workspace, vq_domain = domain, vq_risk = ts_risk task,
             vq_channel = ts_channel_id task,
             vq_implementer = \<lparr>id_account_id = impl, id_credential_fingerprint = cf_implementer_fingerprint f,
               id_agent_id = cf_implementer_agent f\<rparr>,
             vq_excluded = offered_accounts w task_id,
             vq_correlation_id = cx_correlation_id (vx_base cx)\<rparr> w) (\<lambda>(w1, found).
        bind_res (session_audit V (routing_audit cx task_id domain
            (if found = [] then ''NO_CANDIDATE'' else ''SELECTED'')) w1) (\<lambda>w2.
          case found of
            [] \<Rightarrow> raise_in w2 ''VERIFIER_NONE_ELIGIBLE''
          | c # _ \<Rightarrow> Inr (w2, f\<lparr>cf_verifier := ca_account_id c, cf_verifier_fingerprint := ca_fingerprint c,
              cf_verifier_agent := ca_agent_id c\<rparr>, c))))))"

definition offer_task :: "verification_run \<Rightarrow> string" where
  "offer_task run = get_default (rn_target_id run) (or_none (rn_task_id run))"

definition submitted_evidence :: "event list \<Rightarrow> string list" where
  "submitted_evidence es = foldl (\<lambda>acc e. if ev_type e = ''IMPLEMENTATION_SUBMITTED''
     then get_default [] (get_strs (ev_payload e) ''evidence_refs'') else acc) [] es"

definition assignment_payload ::
  "'s verification_env \<Rightarrow> verification_context \<Rightarrow> verification_run \<Rightarrow> 's verification_world \<Rightarrow> pydict res" where
  "assignment_payload V cx run w =
     (let task_id = offer_task run;
          criteria = (case ve_criteria V w task_id of Inl _ \<Rightarrow> [] | Inr cs \<Rightarrow> cs);
          artifacts = ve_artifacts V w task_id
      in bind_res (so_stream (ve_store V) (wd_store (vw_tasks w)) (cx_workspace_id (vx_base cx)) ''task'' task_id) (\<lambda>es.
         Inr [(''verification_id'', JStr (rn_verification_id run)), (''task_id'', JStr task_id),
           (''criteria'', JArr criteria), (''evidence_manifest'', JArr (map JStr (submitted_evidence es))),
           (''artifact_refs'', JArr (map JStr artifacts)), (''target_commit'', JStr (rn_target_commit run)),
           (''snapshot_hash'', JStr (rn_snapshot_hash run)),
           (''read_only_access'', JObj [(''task'', JStr (''colab://task/'' @ task_id)),
             (''artifacts'', JArr (map (\<lambda>a. JStr (''colab://artifact/'' @ a)) artifacts)),
             (''events'', JStr (''/api/v1/events?task_id='' @ task_id))])]))"

definition new_offer ::
  "verification_context \<Rightarrow> verification_run \<Rightarrow> verifier_candidate \<Rightarrow> string option \<Rightarrow> 's verification_world \<Rightarrow> offer_row" where
  "new_offer cx run c item w =
     \<lparr>of_id = vw_next_offer w, of_workspace = cx_workspace_id (vx_base cx), of_task_id = offer_task run,
      of_verification_id = rn_verification_id run, of_rank = next_rank w (offer_task run),
      of_account = ca_account_uuid c, of_agent = ca_agent_id c, of_score = ca_score c, of_work_item = item,
      of_offered_at = vx_now cx, of_deadline = vx_now cx + ACCEPT_TIMEOUT, of_status = ''offered'',
      of_resolved_at = None\<rparr>"

text \<open>\<^verbatim>\<open>ON CONFLICT (task_id, candidate_rank) DO NOTHING\<close>\<close>

definition insert_offer :: "offer_row \<Rightarrow> 's verification_world \<Rightarrow> 's verification_world" where
  "insert_offer x w =
     (if list_ex (\<lambda>y. of_task_id y = of_task_id x \<and> of_rank y = of_rank x) (vw_offers w) then w
      else w\<lparr>vw_offers := vw_offers w @ [x], vw_next_offer := vw_next_offer w + 1\<rparr>)"

definition deliver_offer ::
  "'s verification_env \<Rightarrow> verification_context \<Rightarrow> verification_run \<Rightarrow> verifier_candidate \<Rightarrow> pydict \<Rightarrow> 's verification_world
    \<Rightarrow> ('s verification_world \<times> string option) res" where
  "deliver_offer V cx run c payload w =
     (case ca_agent_id c of
        None \<Rightarrow> Inr (w, None)
      | Some agent \<Rightarrow> bind_res (ve_enqueue V cx agent payload (vx_now cx + WORK_DEADLINE)
          (''verify:'' @ rn_verification_id run) (rn_task_id run) w) (\<lambda>(w1, i). Inr (w1, Some i)))"

definition record_offer ::
  "'s verification_env \<Rightarrow> verification_context \<Rightarrow> verification_run \<Rightarrow> verifier_candidate \<Rightarrow> 's verification_world
    \<Rightarrow> 's verification_world res" where
  "record_offer V cx run c w =
     bind_res (assignment_payload V cx run w) (\<lambda>payload.
     bind_res (deliver_offer V cx run c payload w) (\<lambda>(w1, item).
       Inr (insert_offer (new_offer cx run c item w1) w1)))"

end
