(* ===== verification/Verification_Commands.thy ===== *)
theory Verification_Commands
  imports Verifier_Assignment
begin

text \<open>
  The VerificationRun commands of the bus: \<^verbatim>\<open>src/server/application/verification.py\<close>. A verdict on a Task
  and the start of its verification go through the Task handlers on the same world. A command that
  raises is rolled back; only the audit rows written in transactions of their own stay.
\<close>

section \<open>Commands\<close>

datatype verification_command =
    CreateVerificationRun create_run_fields
  | AssignVerifier string
  | StartVerification string
  | SubmitEvidence string "string list" "string option"
      \<comment> \<open>run, references, digest\<close>
  | SubmitVerdict string string pydict
      \<comment> \<open>run, result, report\<close>
  | SubmitFix string string string
      \<comment> \<open>run, commit, note\<close>
  | RequestRecheck string
  | CancelVerification string string
      \<comment> \<open>run, reason code\<close>

record run_result =
  rs_resource_id :: string
  rs_event_id :: string
  rs_aggregate_seq :: int
  rs_replayed :: bool
  rs_data :: pydict

section \<open>Helpers\<close>

definition run_or_error ::
  "verification_context \<Rightarrow> 's verification_world \<Rightarrow> string \<Rightarrow> verification_run res" where
  "run_or_error cx w vid = bind_res (load_run w vid) (\<lambda>run.
     if rn_workspace run \<noteq> cx_workspace_id (vx_base cx) then Inl ''VERIFICATION_NOT_FOUND'' else Inr run)"

definition run_stream ::
  "'s verification_env \<Rightarrow> verification_context \<Rightarrow> 's verification_world \<Rightarrow> string \<Rightarrow> event list res" where
  "run_stream V cx w vid =
     so_stream (ve_store V) (wd_store (vw_tasks w)) (cx_workspace_id (vx_base cx)) ''verification_run'' vid"

definition run_replay ::
  "'s verification_env \<Rightarrow> verification_context \<Rightarrow> 's verification_world \<Rightarrow> string \<Rightarrow> string
    \<Rightarrow> append_result option res" where
  "run_replay V cx w vid scope = bind_res (run_stream V cx w vid) (\<lambda>es.
     Inr (map_option (result_of_event True) (List.find (\<lambda>e. ev_idempotency_scope e = scope \<and>
       ev_idempotency_key e = cx_idempotency_key (vx_base cx) \<and>
       ev_actor_account_id e = cx_account_uuid (vx_base cx)) es)))"

definition run_event ::
  "'s verification_env \<Rightarrow> verification_context \<Rightarrow> verification_run \<Rightarrow> string \<Rightarrow> pydict \<Rightarrow> string
    \<Rightarrow> 's verification_world \<Rightarrow> ('s verification_world \<times> append_result) res" where
  "run_event V cx run event_type payload scope w =
     bind_res (run_stream V cx w (rn_verification_id run)) (\<lambda>es.
     bind_res (so_append (ve_store V) (wd_store (vw_tasks w))
       \<lparr>ar_workspace_id = cx_workspace_id (vx_base cx), ar_aggregate_type = ''verification_run'',
        ar_aggregate_id = rn_verification_id run, ar_type = event_type,
        ar_actor_account_id = cx_account_uuid (vx_base cx),
        ar_correlation_id = cx_correlation_id (vx_base cx), ar_idempotency_scope = scope,
        ar_idempotency_key = cx_idempotency_key (vx_base cx), ar_payload = payload,
        ar_policy_version = ''policy-v1'', ar_channel_id = None, ar_task_id = rn_task_id run,
        ar_caused_by = (if es = [] then None else Some (ev_event_id (last es))),
        ar_expected_seq = Some (if es = [] then 1 else ev_aggregate_seq (last es) + 1),
        ar_sensitive = None, ar_schema_version = 1\<rparr>) (\<lambda>(s, r).
       Inr (w\<lparr>vw_tasks := (vw_tasks w)\<lparr>wd_store := s\<rparr>\<rparr>, r)))"

definition run_result_of :: "append_result \<Rightarrow> string \<Rightarrow> string \<Rightarrow> pydict \<Rightarrow> run_result" where
  "run_result_of r vid status extra =
     \<lparr>rs_resource_id = vid, rs_event_id = res_event_id r, rs_aggregate_seq = res_aggregate_seq r,
      rs_replayed = res_replayed r, rs_data = (''status'', JStr status) # extra\<rparr>"

definition run_audit ::
  "verification_context \<Rightarrow> string \<Rightarrow> string \<Rightarrow> string \<Rightarrow> string \<Rightarrow> string option \<Rightarrow> pydict \<Rightarrow> audit_args" where
  "run_audit cx action target_type target_id result error_code metadata =
     \<lparr>au_action = action, au_target_type = target_type, au_target_id = target_id, au_result = result,
      au_actor_label = vx_account_id cx, au_correlation_id = cx_correlation_id (vx_base cx),
      au_workspace_id = Some (cx_workspace_id (vx_base cx)),
      au_actor_account_id = Some (cx_account_uuid (vx_base cx)), au_error_code = error_code,
      au_metadata = Some metadata, au_now = vx_now cx\<rparr>"

section \<open>Creation\<close>

text \<open>The checks of the table; the identifiers and the target type are checked by the handler.\<close>

definition run_insert_ok :: "'s verification_world \<Rightarrow> verification_run \<Rightarrow> bool" where
  "run_insert_ok w run \<longleftrightarrow>
     \<not> list_ex (\<lambda>r. rn_verification_id r = rn_verification_id run) (vw_runs w) \<and>
     rn_implementer run \<noteq> rn_verifier run \<and>
     (rn_implementer_agent run = None \<or> rn_verifier_agent run = None \<or>
        rn_verifier_agent run \<noteq> rn_implementer_agent run) \<and>
     rn_implementer_fingerprint run \<noteq> rn_verifier_fingerprint run"

definition insert_run ::
  "'s verification_env \<Rightarrow> verification_run \<Rightarrow> pydict \<Rightarrow> 's verification_world \<Rightarrow> 's verification_world res" where
  "insert_run V run snap w =
     bind_res (case rn_phase run of
        Some p \<Rightarrow> if p < - 32768 \<or> 32767 < p then Inl ''DataError'' else Inr ()
      | None \<Rightarrow> Inr ()) (\<lambda>_.
     if \<not> run_insert_ok w run then Inl ''VERIFIER_NOT_INDEPENDENT_DB''
     else Inr (w\<lparr>vw_runs := vw_runs w @ [run],
       vw_snapshots := vw_snapshots w @ [\<lparr>sn_verification_id = rn_verification_id run,
         sn_snapshot = ve_jsonb V snap, sn_hash = rn_snapshot_hash run\<rparr>],
       vw_drawn := vw_drawn w + 1\<rparr>))"

text \<open>The identifier is a name-based UUID, so that a retry finds the run of the first call.\<close>

definition new_verification_id :: "'s verification_env \<Rightarrow> verification_context \<Rightarrow> string" where
  "new_verification_id V cx = ''vr-'' @ take 20 (ve_uuid5_hex V
     (cx_workspace_id (vx_base cx) @ ''|'' @ cx_account_uuid (vx_base cx) @ ''|'' @
      cx_idempotency_key (vx_base cx)))"

definition planned_run ::
  "'s verification_env \<Rightarrow> verification_context \<Rightarrow> create_run_fields \<Rightarrow> string \<Rightarrow> string \<Rightarrow> string
    \<Rightarrow> 's verification_world \<Rightarrow> verification_run" where
  "planned_run V cx f impl ver snap_hash w =
     \<lparr>rn_verification_id = new_verification_id V cx, rn_workspace = cx_workspace_id (vx_base cx),
      rn_target_type = cf_target_type f, rn_target_id = cf_target_id f, rn_phase = cf_phase f,
      rn_task_id = cf_task_id f, rn_implementer = impl, rn_verifier = ver,
      rn_implementer_agent = cf_implementer_agent f, rn_verifier_agent = cf_verifier_agent f,
      rn_implementer_fingerprint = cf_implementer_fingerprint f,
      rn_verifier_fingerprint = cf_verifier_fingerprint f,
      rn_identity_graph_version = cf_identity_graph_version f,
      rn_effective_policy_hash = cf_effective_policy_hash f,
      rn_criteria_version = cf_criteria_version f, rn_target_commit = cf_target_commit f,
      rn_status = PLANNED, rn_current_revision = 0, rn_result = None, rn_snapshot_hash = snap_hash,
      rn_created_by = cx_account_uuid (vx_base cx), rn_created_at = vx_db_now cx,
      rn_row_id = uuid_hex (ve_prims V) (vw_drawn w)\<rparr>"

definition insert_and_announce ::
  "'s verification_env \<Rightarrow> verification_context \<Rightarrow> create_run_fields \<Rightarrow> verifier_candidate option \<Rightarrow> identity \<Rightarrow> identity
    \<Rightarrow> 's verification_world \<Rightarrow> ('s verification_world \<times> run_result) res" where
  "insert_and_announce V cx f candidate implementer verifier w =
     (let impl = id_account_id implementer; ver = id_account_id verifier;
          snap = build_snapshot implementer verifier (cf_identity_graph_version f)
            (cf_effective_policy_hash f) (cf_criteria_version f) (cf_target_commit f)
            (relevant_alias_edges (world_graph w (cx_workspace_id (vx_base cx))) [impl, ver])
      in bind_res (snapshot_hash (ve_prims V) snap) (\<lambda>h.
         let run = planned_run V cx f impl ver h w; vid = rn_verification_id run in
         bind_res (insert_run V run snap w) (\<lambda>w1.
         bind_res (run_event V cx run ''VERIFIER_ASSIGNED''
           [(''verification_id'', JStr vid), (''target_type'', JStr (cf_target_type f)),
            (''target_id'', JStr (cf_target_id f)), (''verifier_account_id'', JStr (cf_verifier f)),
            (''implementer_account_id'', JStr (cf_implementer f)),
            (''criteria_version'', JStr (cf_criteria_version f)), (''snapshot_hash'', JStr h)]
           ''verification_run:create'' w1) (\<lambda>(w2, r).
         bind_res (case candidate of
             Some c \<Rightarrow> if cf_auto_assign f \<and> \<not> res_replayed r then record_offer V cx run c w2 else Inr w2
           | None \<Rightarrow> Inr w2) (\<lambda>w3.
           Inr (w3, run_result_of r vid ''PLANNED'' [(''snapshot_hash'', JStr h)]))))))"

definition create_for ::
  "'s verification_env \<Rightarrow> verification_context \<Rightarrow> create_run_fields \<Rightarrow> verifier_candidate option
    \<Rightarrow> 's verification_world \<Rightarrow> ('s, 's verification_world \<times> run_result) vres" where
  "create_for V cx f candidate w =
     (let workspace = cx_workspace_id (vx_base cx) in
      bind_res (lift_in w (find_account w workspace (cf_implementer f))) (\<lambda>impl.
      bind_res (lift_in w (find_account w workspace (cf_verifier f))) (\<lambda>ver.
      let implementer = \<lparr>id_account_id = impl, id_credential_fingerprint = cf_implementer_fingerprint f,
            id_agent_id = cf_implementer_agent f\<rparr>;
          verifier = \<lparr>id_account_id = ver, id_credential_fingerprint = cf_verifier_fingerprint f,
            id_agent_id = cf_verifier_agent f\<rparr>
      in case check_independence implementer verifier (world_graph w workspace) None None of
        Inl code \<Rightarrow> bind_res (independent_audit V (run_audit cx ''verification.create_rejected''
            (cf_target_type f) (cf_target_id f) ''REJECTED'' (Some code)
            [(''implementer'', JStr (cf_implementer f)), (''verifier'', JStr (cf_verifier f))]) w)
          (\<lambda>w1. raise_in w1 code)
      | Inr _ \<Rightarrow>
          let vid = new_verification_id V cx in
          bind_res (lift_in w (run_replay V cx w vid ''verification_run:create'')) (\<lambda>replay.
          case (load_run w vid, replay) of
            (Inr run, Some r) \<Rightarrow> Inr (w, run_result_of r vid (run_status_value (rn_status run)) [])
          | _ \<Rightarrow> lift_in w (insert_and_announce V cx f candidate implementer verifier w)))))"

definition create_verification_run ::
  "'s verification_env \<Rightarrow> verification_context \<Rightarrow> create_run_fields \<Rightarrow> 's verification_world
    \<Rightarrow> ('s, 's verification_world \<times> run_result) vres" where
  "create_verification_run V cx f w =
     bind_res (need_permission V cx ''verification.assign'' (Some ''tool:verification_assign'') w) (\<lambda>w1.
     if cf_target_type f \<notin> {''phase'', ''task''} then raise_in w1 ''VERIFICATION_TARGET_INVALID''
     else if cf_auto_assign f \<and> cf_verifier f = []
     then bind_res (resolve_auto_assign V cx f w1) (\<lambda>(w2, f', c). create_for V cx f' (Some c) w2)
     else create_for V cx f None w1)"

section \<open>Moves\<close>

datatype move_party = Anyone | VerifierOnly | ImplementerOnly

definition simple_move ::
  "'s verification_env \<Rightarrow> verification_context \<Rightarrow> string \<Rightarrow> verification_op \<Rightarrow> string \<Rightarrow> string \<Rightarrow> move_party \<Rightarrow> pydict
    \<Rightarrow> 's verification_world \<Rightarrow> ('s, 's verification_world \<times> run_result) vres" where
  "simple_move V cx vid op permission scope party payload w =
     bind_res (lift_in w (run_or_error cx w vid)) (\<lambda>run.
     if party = VerifierOnly \<and> cx_account_uuid (vx_base cx) \<noteq> rn_verifier run
     then raise_in w ''VERIFIER_MISMATCH''
     else if party = ImplementerOnly \<and> cx_account_uuid (vx_base cx) \<noteq> rn_implementer run
     then raise_in w ''IMPLEMENTER_MISMATCH''
     else bind_res (need_permission V cx permission None w) (\<lambda>w1.
       bind_res (lift_in w1 (run_replay V cx w1 vid scope)) (\<lambda>replay.
       case replay of
         Some r \<Rightarrow> Inr (w1, run_result_of r vid (run_status_value (rn_status run)) [])
       | None \<Rightarrow>
           bind_res (lift_in w1 (run_next_status (rn_status run) op None)) (\<lambda>target.
           bind_res (session_audit V (run_audit cx (''verification.'' @ op_value op) ''verification_run'' vid
               (run_status_value target) None payload) (set_run_status vid target w1)) (\<lambda>w2.
           bind_res (lift_in w2 (run_stream V cx w2 vid)) (\<lambda>es.
             Inr (w2, \<lparr>rs_resource_id = vid, rs_event_id = (if es = [] then [] else ev_event_id (last es)),
               rs_aggregate_seq = (if es = [] then 0 else ev_aggregate_seq (last es)),
               rs_replayed = False, rs_data = [(''status'', JStr (run_status_value target))]\<rparr>)))))))"

definition assign_verifier where
  "assign_verifier V cx vid w =
     simple_move V cx vid ASSIGN ''verification.assign'' ''verification_run:assign'' Anyone [] w"

definition submit_fix where
  "submit_fix V cx vid fix_commit note w =
     simple_move V cx vid FIX ''task.submit'' ''verification_run:fix'' ImplementerOnly
       [(''fix_commit'', JStr fix_commit), (''note'', JStr note)] w"

definition request_recheck where
  "request_recheck V cx vid w =
     simple_move V cx vid RECHECK ''verification.assign'' ''verification_run:recheck'' Anyone [] w"

definition cancel_verification where
  "cancel_verification V cx vid reason w =
     simple_move V cx vid CANCEL ''verification.assign'' ''verification_run:cancel'' Anyone
       [(''reason_code'', JStr reason)] w"

text \<open>
  A Task target enters VERIFYING through the Task handler. Its permission check writes a denial in a
  transaction of its own, which waits for the audit lock that the move has taken.
\<close>

definition enter_task_verifying ::
  "'s verification_env \<Rightarrow> verification_context \<Rightarrow> string \<Rightarrow> 's verification_world \<Rightarrow> ('s, 's verification_world) vres" where
  "enter_task_verifying V cx vid w =
     bind_res (lift_in w (load_run w vid)) (\<lambda>run.
     if rn_target_type run \<noteq> ''task'' \<or> \<not> truthy (rn_task_id run) then Inr w
     else let tid = the (rn_task_id run) in
       bind_res (lift_in w (load_task (ve_store V) (cx_workspace_id (vx_base cx)) (wd_store (vw_tasks w)) tid)) (\<lambda>st.
       if ts_status st \<noteq> IMPLEMENTED then Inr w
       else bind_res (lift_in w (Task_Commands.start_verification (ve_store V) (ve_tasks V) (vx_base cx) tid vid (vw_tasks w)))
         (\<lambda>(t, _). Inr (w\<lparr>vw_tasks := t\<rparr>))))"

definition start_verification_run ::
  "'s verification_env \<Rightarrow> verification_context \<Rightarrow> string \<Rightarrow> 's verification_world
    \<Rightarrow> ('s, 's verification_world \<times> run_result) vres" where
  "start_verification_run V cx vid w =
     bind_res (simple_move V cx vid START ''verification.submit'' ''verification_run:start'' VerifierOnly [] w) (\<lambda>(w1, r).
     bind_res (if rs_replayed r then Inr w1 else enter_task_verifying V cx vid w1) (\<lambda>w2. Inr (w2, r)))"

section \<open>Evidence\<close>

definition evidence_rows ::
  "verification_context \<Rightarrow> verification_run \<Rightarrow> string list \<Rightarrow> string option \<Rightarrow> evidence_row list" where
  "evidence_rows cx run refs sha =
     map (\<lambda>r. \<lparr>ee_verification_id = rn_verification_id run, ee_revision = rn_current_revision run + 1, ee_ref = r,
       ee_sha256 = sha, ee_submitted_by = cx_account_uuid (vx_base cx)\<rparr>) refs"

definition submit_evidence ::
  "'s verification_env \<Rightarrow> verification_context \<Rightarrow> string \<Rightarrow> string list \<Rightarrow> string option \<Rightarrow> 's verification_world
    \<Rightarrow> ('s, 's verification_world \<times> run_result) vres" where
  "submit_evidence V cx vid refs sha w =
     bind_res (lift_in w (run_or_error cx w vid)) (\<lambda>run.
     bind_res (if cx_account_uuid (vx_base cx) \<in> {rn_implementer run, rn_verifier run} then Inr w
               else need_permission V cx ''verification.submit'' None w) (\<lambda>w1.
     if rn_status run \<in> {PASSED, CANCELLED} then raise_in w1 ''VERIFICATION_TERMINAL''
     else let w2 = w1\<lparr>vw_evidence := vw_evidence w1 @ evidence_rows cx run refs sha\<rparr> in
       bind_res (lift_in w2 (run_stream V cx w2 vid)) (\<lambda>es.
       if es = [] then raise_in w2 ''IndexError''
       else Inr (w2, \<lparr>rs_resource_id = vid, rs_event_id = ev_event_id (last es),
         rs_aggregate_seq = ev_aggregate_seq (last es), rs_replayed = False,
         rs_data = [(''status'', JStr (run_status_value (rn_status run))),
           (''evidence_count'', JInt (int (length refs)))]\<rparr>))))"

section \<open>Verdicts\<close>

text \<open>\<^verbatim>\<open>bool(x)\<close> and \<^verbatim>\<open>str(x)\<close> of a decoded JSON value, for the reason code of a blocked verdict.\<close>

fun py_bool :: "json \<Rightarrow> bool" where
  "py_bool JNull = False"
| "py_bool (JBool b) = b"
| "py_bool (JInt n) = (n \<noteq> 0)"
| "py_bool (JFloat x) = (case x of FFin _ ip fp _ \<Rightarrow> \<not> list_all ((=) 0) (ip @ fp) | _ \<Rightarrow> True)"
| "py_bool (JStr s) = (s \<noteq> [])"
| "py_bool (JArr vs) = (vs \<noteq> [])"
| "py_bool (JObj kvs) = (kvs \<noteq> [])"
| "py_bool JBadKeys = True"
| "py_bool JOpaque = True"

definition repr_digit :: "nat \<Rightarrow> char" where
  "repr_digit n = ''0123456789abcdef'' ! (n mod 16)"

definition repr_char :: "char \<Rightarrow> char \<Rightarrow> string" where
  "repr_char quote c = (let n = of_char c :: nat in
     if c = quote \<or> n = 92 then [CHR 0x5C, c]
     else if n = 9 then [CHR 0x5C, CHR ''t''] else if n = 10 then [CHR 0x5C, CHR ''n'']
     else if n = 13 then [CHR 0x5C, CHR ''r'']
     else if n < 32 \<or> 127 \<le> n \<and> n \<le> 160 \<or> n = 173 then [CHR 0x5C, CHR ''x'', repr_digit (n div 16), repr_digit n]
     else [c])"

definition repr_str :: "string \<Rightarrow> string" where
  "repr_str s = (let quote = (if CHR 0x27 \<in> set s \<and> CHR 0x22 \<notin> set s then CHR 0x22 else CHR 0x27)
     in [quote] @ concat (map (repr_char quote) s) @ [quote])"

fun joined :: "string list \<Rightarrow> string" where
  "joined [] = []"
| "joined [s] = s"
| "joined (s # t # ss) = s @ '', '' @ joined (t # ss)"

fun repr_json :: "json \<Rightarrow> string" where
  "repr_json JNull = ''None''"
| "repr_json (JBool b) = (if b then ''True'' else ''False'')"
| "repr_json (JInt n) = int_str n"
| "repr_json (JFloat x) = float_str x"
| "repr_json (JStr s) = repr_str s"
| "repr_json (JArr vs) = ''['' @ joined (map repr_json vs) @ '']''"
| "repr_json (JObj kvs) = ''{'' @ joined (map (\<lambda>(k, v). repr_str k @ '': '' @ repr_json v) kvs) @ ''}''"
| "repr_json JBadKeys = []"
| "repr_json JOpaque = []"

definition py_str :: "json \<Rightarrow> string" where
  "py_str v = (case v of JStr s \<Rightarrow> s | _ \<Rightarrow> repr_json v)"

definition block_reason :: "pydict \<Rightarrow> string" where
  "block_reason report = (case map_of report ''reason_code'' of
      None \<Rightarrow> ''EXTERNAL_CONDITION'' | Some v \<Rightarrow> if py_bool v then py_str v else ''EXTERNAL_CONDITION'')"

definition default_report :: "verification_run \<Rightarrow> string \<Rightarrow> pydict" where
  "default_report run result =
     [(''result'', JStr result), (''criteria_version'', JStr (rn_criteria_version run)), (''tests'', JArr []),
      (''findings'', JArr []), (''residual_risks'', JArr [])]"

definition verdict_evidence :: "pydict \<Rightarrow> string list" where
  "verdict_evidence report = map (\<lambda>t. item_field t ''evidence_ref'') (report_items report ''tests'')"

definition verdict_findings :: "pydict \<Rightarrow> string list" where
  "verdict_findings report = map (\<lambda>f. item_field f ''id'') (report_items report ''findings'')"

definition verdict_payload :: "verification_run \<Rightarrow> string \<Rightarrow> pydict \<Rightarrow> pydict" where
  "verdict_payload run result report =
     [(''verification_id'', JStr (rn_verification_id run)), (''revision'', JInt (rn_current_revision run + 1)),
      (if result = ''PASSED'' then (''evidence_refs'', JArr (map JStr (verdict_evidence report)))
       else if result = ''FAILED'' then (''finding_ids'', JArr (map JStr (verdict_findings report)))
       else (''reason_code'', JStr (block_reason report)))]"

definition task_target :: "verification_run \<Rightarrow> bool" where
  "task_target run \<longleftrightarrow> rn_target_type run = ''task'' \<and> truthy (rn_task_id run)"

definition task_verdict_event ::
  "'s verification_env \<Rightarrow> verification_context \<Rightarrow> verification_run \<Rightarrow> string \<Rightarrow> pydict
    \<Rightarrow> 's verification_world \<Rightarrow> ('s verification_world \<times> append_result) res" where
  "task_verdict_event V cx run result report w =
     bind_res (record_verification_result (ve_store V) (ve_tasks V) (vx_base cx) (the (rn_task_id run))
         (rn_verification_id run) result (rn_current_revision run + 1)
         (if result = ''PASSED'' then verdict_evidence report else [])
         (if result = ''FAILED'' then verdict_findings report else [])
         (if result = ''BLOCKED'' then block_reason report else ''EXTERNAL_CONDITION'') (vw_tasks w)) (\<lambda>(t, r).
       Inr (w\<lparr>vw_tasks := t\<rparr>, \<lparr>res_event_id = cmd_event_id r, res_aggregate_seq = cmd_aggregate_seq r,
         res_content_hash = [], res_recorded_seq = 0, res_replayed = cmd_replayed r\<rparr>))"

definition record_verdict ::
  "'s verification_env \<Rightarrow> verification_context \<Rightarrow> verification_run \<Rightarrow> string \<Rightarrow> pydict
    \<Rightarrow> 's verification_world \<Rightarrow> ('s verification_world \<times> run_result) res" where
  "record_verdict V cx run result report w =
     bind_res (validate_verdict report result) (\<lambda>_.
     bind_res (run_next_status (rn_status run) VERDICT (Some result)) (\<lambda>target.
     bind_res (if task_target run then task_verdict_event V cx run result report w
               else run_event V cx run (''VERIFICATION_'' @ result) (verdict_payload run result report)
                 ''verification_run:result'' w) (\<lambda>(w1, r).
     bind_res (append_revision (ve_prims V) (ve_jsonb V) run result (cx_account_uuid (vx_base cx))
         (vx_fingerprint cx) report (res_event_id r) (vx_now cx) w1) (\<lambda>(w2, revision).
     bind_res (if task_target run \<and> \<not> res_replayed r
               then ve_on_terminal V cx (the (rn_task_id run)) (rn_verification_id run) w2 else Inr w2) (\<lambda>w3.
       Inr (w3, run_result_of r (rn_verification_id run) (run_status_value target)
         [(''revision'', JInt (re_revision revision)), (''revision_id'', JStr (re_revision_id revision)),
          (''content_hash'', JStr (re_content_hash revision)),
          (''report_sha256'', JStr (re_report_sha256 revision))]))))))"

definition submit_verdict ::
  "'s verification_env \<Rightarrow> verification_context \<Rightarrow> string \<Rightarrow> string \<Rightarrow> pydict \<Rightarrow> 's verification_world
    \<Rightarrow> ('s, 's verification_world \<times> run_result) vres" where
  "submit_verdict V cx vid result report w =
     bind_res (lift_in w (run_or_error cx w vid)) (\<lambda>run.
     case check_submitter run (cx_account_uuid (vx_base cx)) (vx_fingerprint cx)
         (world_graph w (cx_workspace_id (vx_base cx))) of
       Inl code \<Rightarrow> bind_res (independent_audit V (run_audit cx
           (if code = ''SELF_VERIFICATION_FORBIDDEN'' then ''verification.self_submit_rejected''
            else ''verification.submit_rejected'')
           ''verification_run'' vid ''REJECTED'' (Some code) [(''attempted_result'', JStr result)]) w)
         (\<lambda>w1. raise_in w1 code)
     | Inr _ \<Rightarrow>
         bind_res (need_permission V cx ''verification.submit'' (Some ''tool:verification_submit'') w) (\<lambda>w1.
         bind_res (lift_in w1 (run_replay V cx w1 vid ''verification_run:result'')) (\<lambda>replay.
         case replay of
           Some r \<Rightarrow> Inr (w1, run_result_of r vid (run_status_value (rn_status run))
             [(''revision'', JInt (rn_current_revision run))])
         | None \<Rightarrow> lift_in w1 (record_verdict V cx run result
             (if report = [] then default_report run result else report) w1))))"

section \<open>Reading\<close>

record run_view =
  vv_run :: verification_run
  vv_snapshot :: pydict
  vv_snapshot_hash :: string
  vv_revisions :: "verification_revision list"

definition get_run ::
  "'s verification_env \<Rightarrow> verification_context \<Rightarrow> string \<Rightarrow> 's verification_world
    \<Rightarrow> ('s, 's verification_world \<times> run_view) vres" where
  "get_run V cx vid w =
     bind_res (lift_in w (run_or_error cx w vid)) (\<lambda>run.
     bind_res (if cx_account_uuid (vx_base cx) \<in> {rn_implementer run, rn_verifier run} then Inr w
               else need_permission V cx ''verification.read'' None w) (\<lambda>w1.
     bind_res (lift_in w1 (load_snapshot w1 vid)) (\<lambda>(snap, h).
       Inr (w1, \<lparr>vv_run = run, vv_snapshot = snap, vv_snapshot_hash = h,
         vv_revisions = list_revisions w1 vid\<rparr>))))"

section \<open>The bus\<close>

fun handle_verification ::
  "'s verification_env \<Rightarrow> verification_context \<Rightarrow> verification_command \<Rightarrow> 's verification_world
    \<Rightarrow> ('s, 's verification_world \<times> run_result) vres" where
  "handle_verification V cx (CreateVerificationRun f) w = create_verification_run V cx f w"
| "handle_verification V cx (AssignVerifier vid) w = assign_verifier V cx vid w"
| "handle_verification V cx (StartVerification vid) w = start_verification_run V cx vid w"
| "handle_verification V cx (SubmitEvidence vid refs sha) w = submit_evidence V cx vid refs sha w"
| "handle_verification V cx (SubmitVerdict vid result report) w = submit_verdict V cx vid result report w"
| "handle_verification V cx (SubmitFix vid fix_commit note) w = submit_fix V cx vid fix_commit note w"
| "handle_verification V cx (RequestRecheck vid) w = request_recheck V cx vid w"
| "handle_verification V cx (CancelVerification vid reason) w = cancel_verification V cx vid reason w"

definition execute_verification ::
  "'s verification_env \<Rightarrow> verification_context \<Rightarrow> verification_command \<Rightarrow> 's verification_world
    \<Rightarrow> ('s, 's verification_world \<times> run_result) vres" where
  "execute_verification V cx cmd w =
     (if cx_idempotency_key (vx_base cx) = [] then raise_in w ''IDEMPOTENCY_KEY_REQUIRED''
      else handle_verification V cx cmd w)"

text \<open>A transaction around a call: it commits, or leaves the audit rows that were written outside it.\<close>

definition in_transaction ::
  "('s verification_world \<Rightarrow> ('s, 's verification_world \<times> 'a) vres) \<Rightarrow> 's verification_world
    \<Rightarrow> 's verification_world \<times> 'a res" where
  "in_transaction f w =
     (case f (w\<lparr>vw_kept := vw_log w\<rparr>) of
        Inl (e, w') \<Rightarrow> (w\<lparr>vw_log := vw_kept w', vw_kept := vw_kept w'\<rparr>, Inl e)
      | Inr (w', r) \<Rightarrow> (w'\<lparr>vw_kept := vw_log w'\<rparr>, Inr r))"

definition run_verification ::
  "'s verification_env \<Rightarrow> verification_context \<Rightarrow> verification_command \<Rightarrow> 's verification_world
    \<Rightarrow> 's verification_world \<times> run_result res" where
  "run_verification V cx cmd w = in_transaction (execute_verification V cx cmd) w"

end
