(* ===== verification/Verifier_Sweep.thy ===== *)
theory Verifier_Sweep
  imports Verification_Commands
begin

text \<open>
  The timeout sweep over offers, the second half of \<^verbatim>\<open>src/server/verification/assignment.py\<close>. The whole
  sweep of a workspace is one transaction; \<open>sweep_offer\<close> is one round of its loop.
\<close>

section \<open>Steps of a round\<close>

datatype offer_outcome_code = REASSIGNED | EXHAUSTED | ACCEPTED

record timeout_outcome =
  to_task_id :: string
  to_verification_id :: string
  to_code :: offer_outcome_code
  to_next :: "string option"

definition sweep_context :: "verification_context \<Rightarrow> string \<Rightarrow> verification_context" where
  "sweep_context cx key = cx\<lparr>vx_base := (vx_base cx)\<lparr>cx_correlation_id := key, cx_idempotency_key := key\<rparr>\<rparr>"

definition set_offer :: "int \<Rightarrow> string \<Rightarrow> time \<Rightarrow> 's verification_world \<Rightarrow> 's verification_world" where
  "set_offer i status now w =
     w\<lparr>vw_offers := map (\<lambda>x. if of_id x = i then x\<lparr>of_status := status, of_resolved_at := Some now\<rparr> else x) (vw_offers w)\<rparr>"

definition set_offers_of_task :: "string \<Rightarrow> string \<Rightarrow> time \<Rightarrow> 's verification_world \<Rightarrow> 's verification_world" where
  "set_offers_of_task task_id status now w =
     w\<lparr>vw_offers := map (\<lambda>x. if of_task_id x = task_id \<and> of_status x = ''offered''
       then x\<lparr>of_status := status, of_resolved_at := Some now\<rparr> else x) (vw_offers w)\<rparr>"

definition public_id :: "'s verification_world \<Rightarrow> string \<Rightarrow> string" where
  "public_id w account = (case List.find (\<lambda>a. ac_uuid a = account) (pb_accounts (vw_db w)) of
      None \<Rightarrow> account | Some a \<Rightarrow> ac_account_id a)"

definition release_item ::
  "'s verification_env \<Rightarrow> verification_context \<Rightarrow> string option \<Rightarrow> 's verification_world \<Rightarrow> 's verification_world res" where
  "release_item V cx item w =
     (if \<not> truthy item then Inr w
      else bind_res (ve_cancel_item V cx (the item) w) (\<lambda>x. Inr (get_default w x)))"

definition exhausted_event ::
  "'s verification_env \<Rightarrow> verification_context \<Rightarrow> verification_run \<Rightarrow> string \<Rightarrow> 's verification_world
    \<Rightarrow> 's verification_world res" where
  "exhausted_event V cx run task_id w =
     bind_res (run_stream V cx w (rn_verification_id run)) (\<lambda>es.
     case so_append (ve_store V) (wd_store (vw_tasks w))
       \<lparr>ar_workspace_id = cx_workspace_id (vx_base cx), ar_aggregate_type = ''verification_run'',
        ar_aggregate_id = rn_verification_id run, ar_type = ''VERIFIER_ASSIGNMENT_EXHAUSTED'',
        ar_actor_account_id = cx_account_uuid (vx_base cx), ar_correlation_id = ''vr-exhausted:'' @ task_id,
        ar_idempotency_scope = ''verification_run:exhausted'',
        ar_idempotency_key = ''exhausted:'' @ rn_verification_id run,
        ar_payload = [(''verification_id'', JStr (rn_verification_id run)), (''task_id'', JStr task_id),
          (''offers'', JInt (int (length (offered_accounts w task_id))))],
        ar_policy_version = ''policy-v1'', ar_channel_id = None, ar_task_id = rn_task_id run,
        ar_caused_by = (if es = [] then None else Some (ev_event_id (last es))),
        ar_expected_seq = Some (if es = [] then 1 else ev_aggregate_seq (last es) + 1),
        ar_sensitive = None, ar_schema_version = 1\<rparr> of
       Inl code \<Rightarrow> if code = ''IDEMPOTENCY_CONFLICT'' then Inr w else Inl code
     | Inr (s, _) \<Rightarrow> Inr (w\<lparr>vw_tasks := (vw_tasks w)\<lparr>wd_store := s\<rparr>\<rparr>))"

definition wait_for_verifier ::
  "'s verification_env \<Rightarrow> verification_context \<Rightarrow> string \<Rightarrow> 's verification_world \<Rightarrow> 's verification_world res" where
  "wait_for_verifier V cx task_id w =
     (case execute_command (ve_store V) (ve_tasks V) (vx_base cx) (MarkWaiting task_id ''NO_VERIFIER'') (vw_tasks w) of
        Inl code \<Rightarrow> if code \<in> {''TASK_TRANSITION_INVALID'', ''TASK_TERMINAL''} then Inr w else Inl code
      | Inr (t, _) \<Rightarrow> Inr (w\<lparr>vw_tasks := t\<rparr>))"

definition next_run_fields :: "'s verification_world \<Rightarrow> verification_run \<Rightarrow> create_run_fields" where
  "next_run_fields w run =
     \<lparr>cf_target_type = rn_target_type run, cf_target_id = rn_target_id run,
      cf_implementer = public_id w (rn_implementer run), cf_verifier = [],
      cf_implementer_fingerprint = rn_implementer_fingerprint run, cf_verifier_fingerprint = [],
      cf_target_commit = rn_target_commit run, cf_effective_policy_hash = rn_effective_policy_hash run,
      cf_criteria_version = rn_criteria_version run,
      cf_identity_graph_version = rn_identity_graph_version run,
      cf_implementer_agent = rn_implementer_agent run, cf_verifier_agent = None, cf_phase = rn_phase run,
      cf_task_id = rn_task_id run, cf_auto_assign = True\<rparr>"

section \<open>The sweep\<close>

definition accepted_status :: "verification_status \<Rightarrow> bool" where
  "accepted_status s \<longleftrightarrow> s \<in> {RUNNING, PASSED, FAILED, BLOCKED, FIX_SUBMITTED}"

definition give_up ::
  "'s verification_env \<Rightarrow> verification_context \<Rightarrow> verification_run \<Rightarrow> offer_row \<Rightarrow> 's verification_world
    \<Rightarrow> 's verification_world res" where
  "give_up V cx run x w =
     bind_res (exhausted_event V cx run (of_task_id x) w) (\<lambda>w1.
       wait_for_verifier V (sweep_context cx (''vr-exhausted:'' @ of_task_id x)) (of_task_id x)
         (set_offers_of_task (of_task_id x) ''exhausted'' (vx_now cx)
           (set_offer (of_id x) ''exhausted'' (vx_now cx) w1)))"

definition replace_verifier ::
  "'s verification_env \<Rightarrow> verification_context \<Rightarrow> verification_run \<Rightarrow> offer_row \<Rightarrow> 's verification_world
    \<Rightarrow> ('s, 's verification_world \<times> timeout_outcome) vres" where
  "replace_verifier V cx run x w =
     (let task_id = of_task_id x; vid = rn_verification_id run in
      case execute_verification V
          (sweep_context cx (''vr-next:'' @ task_id @ '':'' @ int_str (next_rank w task_id)))
          (CreateVerificationRun (next_run_fields w run)) w of
        Inr (w1, r) \<Rightarrow> Inr (w1, \<lparr>to_task_id = task_id, to_verification_id = vid, to_code = REASSIGNED,
          to_next = Some (rs_resource_id r)\<rparr>)
      | Inl (code, w1) \<Rightarrow>
          if code \<noteq> ''VERIFIER_NONE_ELIGIBLE'' then Inl (code, w1)
          else bind_res (lift_in w1 (give_up V cx run x w1)) (\<lambda>w2.
            Inr (w2, \<lparr>to_task_id = task_id, to_verification_id = vid, to_code = EXHAUSTED, to_next = None\<rparr>)))"

definition sweep_offer ::
  "'s verification_env \<Rightarrow> verification_context \<Rightarrow> offer_row \<Rightarrow> 's verification_world
    \<Rightarrow> ('s, 's verification_world \<times> timeout_outcome) vres" where
  "sweep_offer V cx x w =
     bind_res (lift_in w (load_run w (of_verification_id x))) (\<lambda>run.
     let vid = rn_verification_id run in
     if accepted_status (rn_status run)
     then Inr (set_offer (of_id x) ''accepted'' (vx_now cx) w,
       \<lparr>to_task_id = of_task_id x, to_verification_id = vid, to_code = ACCEPTED, to_next = None\<rparr>)
     else let w1 = set_offer (of_id x) ''timed_out'' (vx_now cx) w in
       bind_res (lift_in w1 (release_item V cx (of_work_item x) w1)) (\<lambda>w2.
       bind_res (execute_verification V (sweep_context cx (''vr-timeout:'' @ vid))
           (CancelVerification vid ''VERIFIER_ACCEPT_TIMEOUT'') w2) (\<lambda>(w3, _).
         replace_verifier V cx run x w3)))"

definition offer_due :: "string \<Rightarrow> time \<Rightarrow> offer_row \<Rightarrow> bool" where
  "offer_due workspace now x \<longleftrightarrow> of_workspace x = workspace \<and> of_status x = ''offered'' \<and> of_deadline x \<le> now"

definition due_offers :: "verification_context \<Rightarrow> 's verification_world \<Rightarrow> offer_row list" where
  "due_offers cx w = sort_key of_id (filter (offer_due (cx_workspace_id (vx_base cx)) (vx_now cx)) (vw_offers w))"

fun sweep_offers ::
  "'s verification_env \<Rightarrow> verification_context \<Rightarrow> offer_row list \<Rightarrow> 's verification_world
    \<Rightarrow> ('s, 's verification_world \<times> timeout_outcome list) vres" where
  "sweep_offers V cx [] w = Inr (w, [])"
| "sweep_offers V cx (x # xs) w =
     bind_res (sweep_offer V cx x w) (\<lambda>(w1, o1).
     bind_res (sweep_offers V cx xs w1) (\<lambda>(w2, os). Inr (w2, o1 # os)))"

definition sweep_timeouts ::
  "'s verification_env \<Rightarrow> verification_context \<Rightarrow> 's verification_world
    \<Rightarrow> ('s, 's verification_world \<times> timeout_outcome list) vres" where
  "sweep_timeouts V cx w = sweep_offers V cx (due_offers cx w) w"

end
