(* ===== verification/Verification_Machine.thy ===== *)
theory Verification_Machine
  imports Verifier_Sweep
begin

text \<open>
  The life of VerificationRuns as a step relation on the verification tables. A step plans a run, moves
  one along its transitions, records a verdict, or happens elsewhere and leaves the tables alone.
  The bus commands and the sweep are shown to be such steps, for any Event store and any Task
  environment; the invariant of the tables is proved for the steps.
\<close>

section \<open>Steps\<close>

definition same_tables :: "'s verification_world \<Rightarrow> 's verification_world \<Rightarrow> bool" where
  "same_tables w w' \<longleftrightarrow> vw_runs w' = vw_runs w \<and> vw_snapshots w' = vw_snapshots w \<and>
     vw_revisions w' = vw_revisions w \<and> vw_next_revision w' = vw_next_revision w"

text \<open>The parts of the world that a call of another package leaves alone.\<close>

definition untouched :: "'s verification_world \<Rightarrow> 's verification_world \<Rightarrow> bool" where
  "untouched w w' \<longleftrightarrow> same_tables w w' \<and> vw_offers w' = vw_offers w \<and> vw_next_offer w' = vw_next_offer w"

text \<open>What is relied on of the hooks: they do not write the verification tables.\<close>

definition hooks_keep_tables :: "'s verification_env \<Rightarrow> bool" where
  "hooks_keep_tables V \<longleftrightarrow>
     (\<forall>cx agent payload deadline key task w w' i.
        ve_enqueue V cx agent payload deadline key task w = Inr (w', i) \<longrightarrow> untouched w w') \<and>
     (\<forall>cx i w w'. ve_cancel_item V cx i w = Inr (Some w') \<longrightarrow> untouched w w') \<and>
     (\<forall>cx t v w w'. ve_on_terminal V cx t v w = Inr w' \<longrightarrow> untouched w w')"

lemma enqueue_untouched:
  "hooks_keep_tables V \<Longrightarrow> ve_enqueue V cx agent payload deadline key task w = Inr (w', i) \<Longrightarrow> untouched w w'"
  unfolding hooks_keep_tables_def by blast

lemma cancel_item_untouched:
  "hooks_keep_tables V \<Longrightarrow> ve_cancel_item V cx i w = Inr (Some w') \<Longrightarrow> untouched w w'"
  unfolding hooks_keep_tables_def by blast

lemma on_terminal_untouched: "hooks_keep_tables V \<Longrightarrow> ve_on_terminal V cx t v w = Inr w' \<Longrightarrow> untouched w w'"
  unfolding hooks_keep_tables_def by blast

text \<open>A new run with its snapshot: the identities passed the check on the alias graph of the moment.\<close>

definition planned_with :: "'s verification_env \<Rightarrow> verification_run \<Rightarrow> snapshot_row \<Rightarrow> bool" where
  "planned_with V run s \<longleftrightarrow>
     rn_status run = PLANNED \<and> rn_current_revision run = 0 \<and> rn_result run = None \<and>
     sn_verification_id s = rn_verification_id run \<and> sn_hash s = rn_snapshot_hash run \<and>
     (\<exists>snap. sn_snapshot s = ve_jsonb V snap \<and> snapshot_hash (ve_prims V) snap = Inr (sn_hash s) \<and>
        independence_from_snapshot snap = Inr () \<and>
        item_str snap ''implementer_account_id'' = Inr (rn_implementer run) \<and>
        item_str snap ''verifier_account_id'' = Inr (rn_verifier run))"

inductive verification_step :: "'s verification_env \<Rightarrow> 's verification_world \<Rightarrow> 's verification_world \<Rightarrow> bool" for V where
  planned: "verification_step V w w'"
  if "run_insert_ok w run" and "planned_with V run s" and "vw_runs w' = vw_runs w @ [run]"
    and "vw_snapshots w' = vw_snapshots w @ [s]" and "vw_revisions w' = vw_revisions w"
    and "vw_next_revision w' = vw_next_revision w"
| moved: "verification_step V w w'"
  if "load_run w vid = Inr run" and "run_next_status (rn_status run) op None = Inr target"
    and "same_tables (set_run_status vid target w) w'"
| judged: "verification_step V w w'"
  if "load_run w vid = Inr run" and "check_submitter run submitter fingerprint graph = Inr ()"
    and "validate_verdict report result = Inr ()"
    and "run_next_status (rn_status run) VERDICT (Some result) = Inr target"
    and "same_tables w w1"
    and "append_revision (ve_prims V) (ve_jsonb V) run result submitter fingerprint report event_id now w1 =
      Inr (w2, r)"
    and "same_tables w2 w'"
| elsewhere: "verification_step V w w'" if "same_tables w w'"

abbreviation verification_steps where
  "verification_steps V \<equiv> (verification_step V)\<^sup>*\<^sup>*"

section \<open>Tables that stay\<close>

lemma lift_in_Inr [simp]: "lift_in w r = Inr x \<longleftrightarrow> r = Inr x"
  by (cases r) (auto simp: lift_in_def raise_in_def)

lemma lift_in_simps [simp]: "lift_in w (Inr x) = Inr x" "lift_in w (Inl e) = Inl (e, w)"
  by (simp_all add: lift_in_def raise_in_def)

lemma raise_in_Inr [simp]: "raise_in w e \<noteq> Inr x"
  by (simp add: raise_in_def)

lemma same_tables_refl [simp]: "same_tables w w"
  by (simp add: same_tables_def)

lemma same_tables_trans: "same_tables u v \<Longrightarrow> same_tables v w \<Longrightarrow> same_tables u w"
  by (simp add: same_tables_def)

lemma same_tables_update [simp]:
  "same_tables w (w\<lparr>vw_tasks := t\<rparr>)" "same_tables w (w\<lparr>vw_log := l\<rparr>)" "same_tables w (w\<lparr>vw_kept := l\<rparr>)"
  "same_tables w (w\<lparr>vw_log := l, vw_kept := m\<rparr>)"
  "same_tables w (w\<lparr>vw_evidence := e\<rparr>)" "same_tables w (w\<lparr>vw_findings := f\<rparr>)"
  "same_tables w (w\<lparr>vw_offers := os\<rparr>)" "same_tables w (w\<lparr>vw_offers := os, vw_next_offer := n\<rparr>)"
  by (simp_all add: same_tables_def)

lemma untouched_refl [simp]: "untouched w w"
  by (simp add: untouched_def)

lemma untouched_trans: "untouched u v \<Longrightarrow> untouched v w \<Longrightarrow> untouched u w"
  by (auto simp: untouched_def intro: same_tables_trans)

lemma untouched_update [simp]:
  "untouched w (w\<lparr>vw_tasks := t\<rparr>)" "untouched w (w\<lparr>vw_log := l\<rparr>)" "untouched w (w\<lparr>vw_kept := l\<rparr>)"
  "untouched w (w\<lparr>vw_log := l, vw_kept := m\<rparr>)"
  by (simp_all add: untouched_def)

lemma untouched_tables: "untouched w w' \<Longrightarrow> same_tables w w'"
  by (simp add: untouched_def)

lemma own_transaction_untouched: "own_transaction w l = Inr w' \<Longrightarrow> untouched w w'"
  by (auto simp: own_transaction_def split: if_splits)

lemma session_audit_untouched: "session_audit V x w = Inr w' \<Longrightarrow> untouched w w'"
  by (auto simp: session_audit_def res_simps)

lemma independent_audit_untouched: "independent_audit V x w = Inr w' \<Longrightarrow> untouched w w'"
  by (auto simp: independent_audit_def res_simps intro: own_transaction_untouched)

lemma need_permission_untouched: "need_permission V cx p a w = Inr w' \<Longrightarrow> untouched w w'"
  by (auto simp: need_permission_def res_simps split: prod.splits intro: own_transaction_untouched)

lemma policy_allows_untouched: "policy_allows V a c d i w = Inr (w', b) \<Longrightarrow> untouched w w'"
  by (auto simp: policy_allows_def res_simps split: option.splits intro: own_transaction_untouched)

lemma consider_row_untouched: "consider_row V q row w = Inr (w', c) \<Longrightarrow> untouched w w'"
  by (auto simp: consider_row_def res_simps Let_def split: if_splits prod.splits dest: policy_allows_untouched)

lemma consider_rows_untouched: "consider_rows V q rows w = Inr (w', cs) \<Longrightarrow> untouched w w'"
  by (induction rows arbitrary: w cs)
    (auto simp: res_simps dest: consider_row_untouched intro: untouched_trans)

lemma eligible_verifiers_untouched: "eligible_verifiers V q w = Inr (w', cs) \<Longrightarrow> untouched w w'"
  by (auto simp: eligible_verifiers_def res_simps dest: consider_rows_untouched)

lemma resolve_auto_assign_result:
  assumes "resolve_auto_assign V cx f w = Inr (w', f', c)"
  obtains q w1 cs task_id domain where "eligible_verifiers V q w = Inr (w1, c # cs)"
    and "session_audit V (routing_audit cx task_id domain ''SELECTED'') w1 = Inr w'"
    and "vq_workspace q = cx_workspace_id (vx_base cx)" and "vq_excluded q = offered_accounts w task_id"
    and "f' = f\<lparr>cf_verifier := ca_account_id c, cf_verifier_fingerprint := ca_fingerprint c,
      cf_verifier_agent := ca_agent_id c\<rparr>"
proof -
  obtain q w1 found task_id domain w2 where e: "eligible_verifiers V q w = Inr (w1, found)"
    and a: "session_audit V (routing_audit cx task_id domain (if found = [] then ''NO_CANDIDATE'' else ''SELECTED'')) w1 = Inr w2"
    and q: "vq_workspace q = cx_workspace_id (vx_base cx)" "vq_excluded q = offered_accounts w task_id"
    and r: "(case found of [] \<Rightarrow> raise_in w2 ''VERIFIER_NONE_ELIGIBLE''
       | c # _ \<Rightarrow> Inr (w2, f\<lparr>cf_verifier := ca_account_id c, cf_verifier_fingerprint := ca_fingerprint c,
              cf_verifier_agent := ca_agent_id c\<rparr>, c)) = Inr (w', f', c)"
    using assms by (auto simp: resolve_auto_assign_def bind_res_eq_Inr Let_def split: if_split_asm)
  from r show thesis using that e a q by (cases found) auto
qed

lemma resolve_auto_assign_untouched:
  assumes "resolve_auto_assign V cx f w = Inr (w', f', c)"
  shows "untouched w w'"
  by (rule resolve_auto_assign_result [OF assms])
    (blast intro: untouched_trans eligible_verifiers_untouched session_audit_untouched)

lemma run_event_untouched: "run_event V cx run t p s w = Inr (w', r) \<Longrightarrow> untouched w w'"
  by (auto simp: run_event_def res_simps)

lemma task_verdict_untouched: "task_verdict_event V cx run res rep w = Inr (w', r) \<Longrightarrow> untouched w w'"
  by (auto simp: task_verdict_event_def res_simps)

lemma deliver_offer_untouched:
  assumes "hooks_keep_tables V" and "deliver_offer V cx run c p w = Inr (w', i)"
  shows "untouched w w'"
proof (cases "ca_agent_id c")
  case None
  then show ?thesis using assms(2) by (simp add: deliver_offer_def)
next
  case (Some agent)
  then show ?thesis using assms by (auto simp: deliver_offer_def bind_res_eq_Inr intro: enqueue_untouched)
qed

lemma record_offer_result:
  assumes "hooks_keep_tables V" and "record_offer V cx run c w = Inr w'"
  shows "\<exists>w1 i. untouched w w1 \<and> w' = insert_offer (new_offer cx run c i w1) w1"
proof -
  obtain p w1 i where "deliver_offer V cx run c p w = Inr (w1, i)"
    and "w' = insert_offer (new_offer cx run c i w1) w1"
    using assms(2) by (auto simp: record_offer_def bind_res_eq_Inr)
  then show ?thesis using deliver_offer_untouched [OF assms(1)] by blast
qed

lemma insert_offer_tables: "same_tables w (insert_offer x w)"
  by (simp add: insert_offer_def)

lemma record_offer_tables:
  assumes "hooks_keep_tables V" and "record_offer V cx run c w = Inr w'"
  shows "same_tables w w'"
  using record_offer_result [OF assms] insert_offer_tables same_tables_trans unfolding untouched_def by blast

section \<open>Commands are steps\<close>

lemma elsewhere_steps: "same_tables w w' \<Longrightarrow> verification_steps V w w'"
  by (blast intro: verification_step.elsewhere)

lemma untouched_steps: "untouched w w' \<Longrightarrow> verification_steps V w w'"
  by (simp add: untouched_def elsewhere_steps)

lemma same_tables_update_run:
  "same_tables w w1 \<Longrightarrow> same_tables (update_run vid f w) (update_run vid f w1)"
  by (simp add: same_tables_def update_run_def)

lemma load_run_same_tables: "same_tables w w1 \<Longrightarrow> load_run w1 vid = load_run w vid"
  by (simp add: load_run_def same_tables_def)

lemma load_run_id: "load_run w vid = Inr run \<Longrightarrow> rn_verification_id run = vid \<and> run \<in> set (vw_runs w)"
  by (auto simp: load_run_def find_Some_iff split: option.splits)

lemma run_or_error_load: "run_or_error cx w vid = Inr run \<Longrightarrow> load_run w vid = Inr run"
  by (auto simp: run_or_error_def res_simps split: if_splits)

lemma snapshot_check:
  "distinct (map fst graph) \<Longrightarrow>
   independence_from_snapshot (build_snapshot i v gv ph cv tc
     (relevant_alias_edges graph [id_account_id i, id_account_id v])) = check_independence i v graph None None"
  by (simp add: independence_from_snapshot_def check_independence_def relevant_edges_keep_principal)

definition run_snapshot ::
  "verification_context \<Rightarrow> create_run_fields \<Rightarrow> identity \<Rightarrow> identity \<Rightarrow> 's verification_world \<Rightarrow> pydict" where
  "run_snapshot cx f i v w = build_snapshot i v (cf_identity_graph_version f) (cf_effective_policy_hash f)
    (cf_criteria_version f) (cf_target_commit f)
    (relevant_alias_edges (world_graph w (cx_workspace_id (vx_base cx))) [id_account_id i, id_account_id v])"

lemma insert_and_announce_result:
  assumes "insert_and_announce V cx f candidate i v w = Inr (w', r)"
  obtains h run w1 w2 r1 t p s where "snapshot_hash (ve_prims V) (run_snapshot cx f i v w) = Inr h"
    and "run = planned_run V cx f (id_account_id i) (id_account_id v) h w"
    and "insert_run V run (run_snapshot cx f i v w) w = Inr w1"
    and "run_event V cx run t p s w1 = Inr (w2, r1)"
    and "w' = w2 \<or> (\<exists>c. record_offer V cx run c w2 = Inr w')"
proof -
  obtain h where h: "snapshot_hash (ve_prims V) (run_snapshot cx f i v w) = Inr h"
    using assms by (auto simp: insert_and_announce_def run_snapshot_def Let_def bind_res_eq_Inr)
  let ?run = "planned_run V cx f (id_account_id i) (id_account_id v) h w"
  obtain w1 w2 r1 where ins: "insert_run V ?run (run_snapshot cx f i v w) w = Inr w1"
    and ev: "\<exists>t p s. run_event V cx ?run t p s w1 = Inr (w2, r1)"
    and offer: "w' = w2 \<or> (\<exists>c. record_offer V cx ?run c w2 = Inr w')"
    using assms h by (auto simp: insert_and_announce_def run_snapshot_def Let_def bind_res_eq_Inr
        split: option.split_asm if_split_asm) blast+
  then show thesis using that [OF h refl ins] by blast
qed

lemma insert_and_announce_steps:
  assumes hooks: "hooks_keep_tables V"
    and ind: "check_independence implementer verifier (world_graph w (cx_workspace_id (vx_base cx))) None None = Inr ()"
    and ok: "insert_and_announce V cx f candidate implementer verifier w = Inr (w', r)"
  shows "verification_steps V w w'"
proof (rule insert_and_announce_result [OF ok])
  let ?snap = "run_snapshot cx f implementer verifier w"
  fix h run w1 w2 r1 t p s
  assume h: "snapshot_hash (ve_prims V) ?snap = Inr h"
    and run: "run = planned_run V cx f (id_account_id implementer) (id_account_id verifier) h w"
    and ins: "insert_run V run ?snap w = Inr w1" and ev: "run_event V cx run t p s w1 = Inr (w2, r1)"
    and offer: "w' = w2 \<or> (\<exists>c. record_offer V cx run c w2 = Inr w')"
  have ind': "independence_from_snapshot ?snap = Inr ()"
    using ind by (simp add: run_snapshot_def snapshot_check distinct_dict_of alias_graph_def world_graph_def)
  have "same_tables w1 w2" using ev run_event_untouched untouched_tables by blast
  then have same: "same_tables w1 w'"
    using offer record_offer_tables [OF hooks] same_tables_trans by blast
  let ?s = "\<lparr>sn_verification_id = rn_verification_id run, sn_snapshot = ve_jsonb V ?snap, sn_hash = rn_snapshot_hash run\<rparr>"
  have ins': "run_insert_ok w run" "vw_runs w1 = vw_runs w @ [run]" "vw_snapshots w1 = vw_snapshots w @ [?s]"
    "vw_revisions w1 = vw_revisions w" "vw_next_revision w1 = vw_next_revision w"
    using ins by (auto simp: insert_run_def bind_res_eq_Inr split: if_split_asm)
  moreover have "planned_with V run ?s"
    unfolding planned_with_def using h ind' by (auto simp: run planned_run_def run_snapshot_def intro!: exI [of _ ?snap])
  ultimately have "verification_step V w w'"
    using same by (intro verification_step.planned) (auto simp: same_tables_def)
  then show ?thesis by blast
qed

lemma create_for_result:
  assumes "create_for V cx f candidate w = Inr (w', r)"
  obtains i v where "check_independence i v (world_graph w (cx_workspace_id (vx_base cx))) None None = Inr ()"
    and "w' = w \<or> insert_and_announce V cx f candidate i v w = Inr (w', r)"
proof -
  let ?ws = "cx_workspace_id (vx_base cx)"
  obtain impl ver where acc: "find_account w ?ws (cf_implementer f) = Inr impl" "find_account w ?ws (cf_verifier f) = Inr ver"
    using assms by (auto simp: create_for_def Let_def bind_res_eq_Inr)
  let ?i = "\<lparr>id_account_id = impl, id_credential_fingerprint = cf_implementer_fingerprint f,
    id_agent_id = cf_implementer_agent f\<rparr>"
  let ?v = "\<lparr>id_account_id = ver, id_credential_fingerprint = cf_verifier_fingerprint f,
    id_agent_id = cf_verifier_agent f\<rparr>"
  have ind: "check_independence ?i ?v (world_graph w ?ws) None None = Inr ()"
    using assms acc by (cases "check_independence ?i ?v (world_graph w ?ws) None None")
      (auto simp: create_for_def Let_def bind_res_eq_Inr)
  obtain replay where "(case (load_run w (new_verification_id V cx), replay) of
      (Inr run, Some r) \<Rightarrow> Inr (w, run_result_of r (new_verification_id V cx) (run_status_value (rn_status run)) [])
    | _ \<Rightarrow> lift_in w (insert_and_announce V cx f candidate ?i ?v w)) = Inr (w', r)"
    using assms acc ind by (auto simp: create_for_def Let_def bind_res_eq_Inr)
  then have "w' = w \<or> insert_and_announce V cx f candidate ?i ?v w = Inr (w', r)"
    by (cases "load_run w (new_verification_id V cx)"; cases replay) simp_all
  then show thesis using that [OF ind] by blast
qed

lemma create_for_steps:
  assumes "hooks_keep_tables V" and "create_for V cx f candidate w = Inr (w', r)"
  shows "verification_steps V w w'"
  by (rule create_for_result [OF assms(2)]) (use insert_and_announce_steps [OF assms(1)] in blast)

lemma create_result:
  assumes "create_verification_run V cx f w = Inr (w', r)"
  obtains w2 f' c where "untouched w w2" and "create_for V cx f' c w2 = Inr (w', r)"
proof -
  obtain w1 where w1: "need_permission V cx ''verification.assign'' (Some ''tool:verification_assign'') w = Inr w1"
    and c: "(if cf_auto_assign f \<and> cf_verifier f = []
      then bind_res (resolve_auto_assign V cx f w1) (\<lambda>(w2, f', c). create_for V cx f' (Some c) w2)
      else create_for V cx f None w1) = Inr (w', r)"
    using assms by (auto simp: create_verification_run_def bind_res_eq_Inr split: if_split_asm)
  obtain w2 f' c' where "w2 = w1 \<or> (\<exists>c. resolve_auto_assign V cx f w1 = Inr (w2, f', c))"
    and cf: "create_for V cx f' c' w2 = Inr (w', r)"
    using c by (auto simp: bind_res_eq_Inr split: if_split_asm)
  then have "untouched w1 w2" using resolve_auto_assign_untouched by auto
  then show thesis using that need_permission_untouched [OF w1] untouched_trans cf by blast
qed

lemma create_steps:
  assumes "hooks_keep_tables V" and "create_verification_run V cx f w = Inr (w', r)"
  shows "verification_steps V w w'"
proof (rule create_result [OF assms(2)])
  fix w2 f' c assume "untouched w w2" and "create_for V cx f' c w2 = Inr (w', r)"
  then show ?thesis using create_for_steps [OF assms(1)] untouched_steps rtranclp_trans by metis
qed

lemma simple_move_steps:
  assumes "simple_move V cx vid op permission scope party payload w = Inr (w', r)"
  shows "verification_steps V w w'"
proof -
  obtain run w1 where run: "run_or_error cx w vid = Inr run" and w1: "need_permission V cx permission None w = Inr w1"
    and rest: "w' = w1 \<or> (\<exists>target x. run_next_status (rn_status run) op None = Inr target \<and>
      session_audit V x (set_run_status vid target w1) = Inr w')"
    using assms by (auto simp: simple_move_def bind_res_eq_Inr split: if_split_asm option.split_asm) blast+
  from rest show ?thesis
  proof
    assume "w' = w1"
    then show ?thesis using need_permission_untouched [OF w1] untouched_steps by blast
  next
    assume "\<exists>target x. run_next_status (rn_status run) op None = Inr target \<and>
      session_audit V x (set_run_status vid target w1) = Inr w'"
    then obtain target x where t: "run_next_status (rn_status run) op None = Inr target"
      "session_audit V x (set_run_status vid target w1) = Inr w'" by blast
    have "same_tables (set_run_status vid target w) (set_run_status vid target w1)"
      using need_permission_untouched [OF w1] by (simp add: set_run_status_def untouched_def same_tables_update_run)
    then have "same_tables (set_run_status vid target w) w'"
      using session_audit_untouched [OF t(2)] same_tables_trans by (auto simp: untouched_def)
    then have "verification_step V w w'" using run_or_error_load [OF run] t(1) by (blast intro: verification_step.moved)
    then show ?thesis by blast
  qed
qed

lemma enter_task_verifying_untouched: "enter_task_verifying V cx vid w = Inr w' \<Longrightarrow> untouched w w'"
  by (auto simp: enter_task_verifying_def bind_res_eq_Inr Let_def split: if_split_asm)

lemma start_steps:
  assumes "start_verification_run V cx vid w = Inr (w', r)"
  shows "verification_steps V w w'"
proof -
  obtain w1 r1 where m: "simple_move V cx vid START ''verification.submit'' ''verification_run:start'' VerifierOnly [] w = Inr (w1, r1)"
    and e: "w' = w1 \<or> enter_task_verifying V cx vid w1 = Inr w'"
    using assms by (auto simp: start_verification_run_def bind_res_eq_Inr split: if_split_asm)
  have "untouched w1 w'" using e enter_task_verifying_untouched by (auto intro: untouched_refl)
  then show ?thesis using simple_move_steps [OF m] untouched_steps rtranclp_trans by metis
qed

lemma submit_evidence_steps:
  assumes "submit_evidence V cx vid refs sha w = Inr (w', r)"
  shows "verification_steps V w w'"
proof -
  obtain w1 e where "w1 = w \<or> need_permission V cx ''verification.submit'' None w = Inr w1"
    and w': "w' = w1\<lparr>vw_evidence := e\<rparr>"
    using assms by (auto simp: submit_evidence_def bind_res_eq_Inr Let_def split: if_split_asm)
  then have "untouched w w1" using need_permission_untouched by (auto intro: untouched_refl)
  then have "same_tables w w1" by (simp add: untouched_def)
  then show ?thesis using w' elsewhere_steps same_tables_trans same_tables_update(5) by blast
qed

lemma record_verdict_step:
  assumes hooks: "hooks_keep_tables V" and run: "load_run w vid = Inr run"
    and sub: "check_submitter run (cx_account_uuid (vx_base cx)) (vx_fingerprint cx) graph = Inr ()"
    and ok: "record_verdict V cx run result report w = Inr (w', r)"
  shows "verification_step V w w'"
proof -
  obtain target w1 a w2 revision where v: "validate_verdict report result = Inr ()"
    and t: "run_next_status (rn_status run) VERDICT (Some result) = Inr target"
    and ev: "(if task_target run then task_verdict_event V cx run result report w
               else run_event V cx run (''VERIFICATION_'' @ result) (verdict_payload run result report)
                 ''verification_run:result'' w) = Inr (w1, a)"
    and rev: "append_revision (ve_prims V) (ve_jsonb V) run result (cx_account_uuid (vx_base cx))
         (vx_fingerprint cx) report (res_event_id a) (vx_now cx) w1 = Inr (w2, revision)"
    and h: "(if task_target run \<and> \<not> res_replayed a
       then ve_on_terminal V cx (the (rn_task_id run)) (rn_verification_id run) w2 else Inr w2) = Inr w'"
    using ok by (fastforce simp: record_verdict_def bind_res_eq_Inr)
  have "untouched w w1"
    using ev task_verdict_untouched run_event_untouched by (auto split: if_split_asm)
  moreover have "untouched w2 w'"
    using h on_terminal_untouched [OF hooks] by (auto split: if_split_asm)
  ultimately show ?thesis
    using verification_step.judged [OF run sub v t _ rev] by (simp add: untouched_def)
qed

lemma submit_verdict_steps:
  assumes "hooks_keep_tables V" and "submit_verdict V cx vid result report w = Inr (w', r)"
  shows "verification_steps V w w'"
proof -
  obtain run where run: "run_or_error cx w vid = Inr run"
    using assms(2) by (auto simp: submit_verdict_def bind_res_eq_Inr)
  let ?graph = "world_graph w (cx_workspace_id (vx_base cx))"
  have sub: "check_submitter run (cx_account_uuid (vx_base cx)) (vx_fingerprint cx) ?graph = Inr ()"
    using assms(2) run by (cases "check_submitter run (cx_account_uuid (vx_base cx)) (vx_fingerprint cx) ?graph")
      (auto simp: submit_verdict_def bind_res_eq_Inr)
  obtain w1 report' where w1: "need_permission V cx ''verification.submit'' (Some ''tool:verification_submit'') w = Inr w1"
    and rest: "w' = w1 \<or> record_verdict V cx run result report' w1 = Inr (w', r)"
    using assms(2) run sub by (auto simp: submit_verdict_def bind_res_eq_Inr split: option.split_asm)
  have same: "same_tables w w1" using need_permission_untouched [OF w1] by (simp add: untouched_def)
  then have "load_run w1 vid = Inr run" using run_or_error_load [OF run] load_run_same_tables by metis
  then have "w' = w1 \<or> verification_step V w1 w'"
    using rest record_verdict_step [OF assms(1) _ sub] by blast
  then show ?thesis using elsewhere_steps [OF same, of V] by (auto intro: rtranclp.rtrancl_into_rtrancl)
qed

lemma execute_verification_steps:
  assumes "hooks_keep_tables V" and "execute_verification V cx cmd w = Inr (w', r)"
  shows "verification_steps V w w'"
  using assms
  by (cases cmd) (auto simp: execute_verification_def assign_verifier_def submit_fix_def request_recheck_def
      cancel_verification_def split: if_split_asm
      intro: create_steps simple_move_steps start_steps submit_evidence_steps submit_verdict_steps)

lemma in_transaction_steps:
  assumes "\<And>v v' r. f v = Inr (v', r) \<Longrightarrow> verification_steps V v v'"
  shows "verification_steps V w (fst (in_transaction f w))"
proof (cases "f (w\<lparr>vw_kept := vw_log w\<rparr>)")
  case (Inl e)
  then show ?thesis by (cases e) (simp add: in_transaction_def elsewhere_steps)
next
  case (Inr x)
  obtain w' r where x: "x = (w', r)" by (cases x)
  have "verification_steps V w (w\<lparr>vw_kept := vw_log w\<rparr>)" by (simp add: elsewhere_steps)
  also have "verification_steps V (w\<lparr>vw_kept := vw_log w\<rparr>) w'" using assms Inr x by blast
  also have "verification_steps V w' (w'\<lparr>vw_kept := vw_log w'\<rparr>)" by (simp add: elsewhere_steps)
  finally show ?thesis using Inr x by (simp add: in_transaction_def)
qed

section \<open>The sweep is a sequence of steps\<close>

lemma lift_in_Inl: "lift_in w r = Inl (e, w1) \<longleftrightarrow> r = Inl e \<and> w1 = w"
  by (cases r) (auto simp: lift_in_def raise_in_def)

lemma raise_in_Inl: "raise_in w c = Inl (e, w1) \<longleftrightarrow> c = e \<and> w1 = w"
  by (auto simp: raise_in_def)

lemma own_transaction_Inl: "own_transaction w l = Inl (e, w1) \<Longrightarrow> w1 = w \<and> e = ''AUDIT_LOCK_WAIT''"
  by (auto simp: own_transaction_def raise_in_Inl split: if_splits)

lemma session_audit_Inl: "session_audit V x w = Inl (e, w1) \<Longrightarrow> w1 = w"
  by (auto simp: session_audit_def res_simps lift_in_Inl)

lemma independent_audit_Inl: "independent_audit V x w = Inl (e, w1) \<Longrightarrow> w1 = w"
  by (auto simp: independent_audit_def res_simps lift_in_Inl dest: own_transaction_Inl)

lemma need_permission_Inl: "need_permission V cx p a w = Inl (e, w1) \<Longrightarrow> untouched w w1"
  by (auto simp: need_permission_def res_simps lift_in_Inl split: prod.splits
      dest: own_transaction_Inl own_transaction_untouched)

lemma policy_allows_Inl: "policy_allows V a c d i w = Inl (e, w1) \<Longrightarrow> w1 = w"
  by (auto simp: policy_allows_def res_simps lift_in_Inl split: option.splits dest: own_transaction_Inl)

lemma consider_row_Inl: "consider_row V q row w = Inl (e, w1) \<Longrightarrow> untouched w w1"
  by (auto simp: consider_row_def res_simps lift_in_Inl Let_def split: if_splits prod.splits
      dest: policy_allows_Inl policy_allows_untouched)

lemma consider_rows_Inl: "consider_rows V q rows w = Inl (e, w1) \<Longrightarrow> untouched w w1"
proof (induction rows arbitrary: w)
  case (Cons row rows)
  then show ?case
    by (auto simp: bind_res_eq_Inl dest!: consider_row_Inl consider_row_untouched intro: untouched_trans)
qed simp

lemma eligible_verifiers_Inl: "eligible_verifiers V q w = Inl (e, w1) \<Longrightarrow> untouched w w1"
  by (auto simp: eligible_verifiers_def bind_res_eq_Inl dest: consider_rows_Inl)

lemma resolve_auto_assign_Inl:
  assumes "resolve_auto_assign V cx f w = Inl (e, w1)"
  shows "untouched w w1"
proof (cases "w1 = w")
  case False
  then consider (search) q where "eligible_verifiers V q w = Inl (e, w1)"
    | (found) q w2 cs x where "eligible_verifiers V q w = Inr (w2, cs)"
      "bind_res (session_audit V x w2) (\<lambda>w3. case cs of [] \<Rightarrow> raise_in w3 ''VERIFIER_NONE_ELIGIBLE''
         | c # _ \<Rightarrow> Inr (w3, f\<lparr>cf_verifier := ca_account_id c, cf_verifier_fingerprint := ca_fingerprint c,
              cf_verifier_agent := ca_agent_id c\<rparr>, c)) = Inl (e, w1)"
    using assms unfolding resolve_auto_assign_def bind_res_eq_Inl [of "lift_in _ _"]
      bind_res_eq_Inl [of "eligible_verifiers _ _ _"]
    by (auto simp: lift_in_Inl raise_in_Inl Let_def bind_res_eq_Inl [of "lift_in _ _"]
        bind_res_eq_Inl [of "eligible_verifiers _ _ _"] split: if_split_asm)
  then show ?thesis
  proof cases
    case search
    then show ?thesis by (rule eligible_verifiers_Inl)
  next
    case found
    then have "session_audit V x w2 = Inl (e, w1) \<or> session_audit V x w2 = Inr w1"
      by (cases cs) (auto simp: bind_res_eq_Inl raise_in_Inl)
    then have "untouched w2 w1" using session_audit_Inl session_audit_untouched by (metis untouched_refl)
    then show ?thesis using eligible_verifiers_untouched [OF found(1)] untouched_trans by blast
  qed
qed simp

lemma create_for_Inl:
  assumes "create_for V cx f candidate w = Inl (e, w1)"
  shows "untouched w w1"
proof (cases "w1 = w")
  case False
  let ?ws = "cx_workspace_id (vx_base cx)"
  obtain impl ver where acc: "find_account w ?ws (cf_implementer f) = Inr impl" "find_account w ?ws (cf_verifier f) = Inr ver"
    using assms False by (auto simp: create_for_def Let_def bind_res_eq_Inl lift_in_Inl)
  let ?i = "\<lparr>id_account_id = impl, id_credential_fingerprint = cf_implementer_fingerprint f,
    id_agent_id = cf_implementer_agent f\<rparr>"
  let ?v = "\<lparr>id_account_id = ver, id_credential_fingerprint = cf_verifier_fingerprint f,
    id_agent_id = cf_verifier_agent f\<rparr>"
  show ?thesis
  proof (cases "check_independence ?i ?v (world_graph w ?ws) None None")
    case (Inl code)
    then obtain x where "independent_audit V x w = Inl (e, w1) \<or> independent_audit V x w = Inr w1"
      using assms acc by (auto simp: create_for_def Let_def bind_res_eq_Inl raise_in_Inl lift_in_Inl)
    then show ?thesis using independent_audit_Inl independent_audit_untouched by (metis untouched_refl)
  next
    case (Inr u)
    then obtain replay where "(case (load_run w (new_verification_id V cx), replay) of
        (Inr run, Some r) \<Rightarrow> Inr (w, run_result_of r (new_verification_id V cx) (run_status_value (rn_status run)) [])
      | _ \<Rightarrow> lift_in w (insert_and_announce V cx f candidate ?i ?v w)) = Inl (e, w1)"
      using assms acc False by (auto simp: create_for_def Let_def bind_res_eq_Inl lift_in_Inl)
    then show ?thesis
      using False by (cases "load_run w (new_verification_id V cx)"; cases replay) (simp_all add: lift_in_Inl)
  qed
qed simp

lemma create_Inl:
  assumes "execute_verification V cx (CreateVerificationRun f) w = Inl (e, w1)"
  shows "untouched w w1"
proof (cases "w1 = w")
  case False
  then consider (denied) "need_permission V cx ''verification.assign'' (Some ''tool:verification_assign'') w = Inl (e, w1)"
    | (allowed) w2 where "need_permission V cx ''verification.assign'' (Some ''tool:verification_assign'') w = Inr w2"
      "w1 = w2 \<or> resolve_auto_assign V cx f w2 = Inl (e, w1) \<or>
       (\<exists>w3 f' c c'. (w3 = w2 \<or> resolve_auto_assign V cx f w2 = Inr (w3, f', c)) \<and> create_for V cx f' c' w3 = Inl (e, w1))"
    using assms by (auto simp: execute_verification_def create_verification_run_def bind_res_eq_Inl raise_in_Inl
        split: if_split_asm)
  then show ?thesis
  proof cases
    case denied
    then show ?thesis by (rule need_permission_Inl)
  next
    case allowed
    from allowed(2) have "untouched w2 w1"
      using resolve_auto_assign_Inl resolve_auto_assign_untouched create_for_Inl untouched_trans
      by (metis untouched_refl)
    then show ?thesis using need_permission_untouched [OF allowed(1)] untouched_trans by blast
  qed
qed simp

lemma set_offer_tables [simp]: "same_tables w (set_offer i s t w)" "same_tables w (set_offers_of_task k s t w)"
  by (simp_all add: set_offer_def set_offers_of_task_def)

lemma release_item_untouched:
  assumes "hooks_keep_tables V" and "release_item V cx item w = Inr w'"
  shows "untouched w w'"
proof (cases "truthy item")
  case True
  then obtain x where "ve_cancel_item V cx (the item) w = Inr x" "w' = get_default w x"
    using assms(2) by (auto simp: release_item_def bind_res_eq_Inr)
  then show ?thesis using cancel_item_untouched [OF assms(1)] by (cases x) auto
qed (use assms(2) in \<open>simp add: release_item_def\<close>)

lemma tolerated_untouched:
  assumes "(case m of Inl code \<Rightarrow> if Q code then Inr w else Inl code | Inr (s, _) \<Rightarrow> Inr (w\<lparr>vw_tasks := g s\<rparr>)) = Inr w'"
  shows "untouched w w'"
  using assms by (cases m) (auto split: if_splits)

lemma exhausted_event_untouched: "exhausted_event V cx run t w = Inr w' \<Longrightarrow> untouched w w'"
  unfolding exhausted_event_def bind_res_eq_Inr by (elim exE conjE tolerated_untouched)

lemma wait_untouched: "wait_for_verifier V cx t w = Inr w' \<Longrightarrow> untouched w w'"
  unfolding wait_for_verifier_def
  by (rule tolerated_untouched [where g = "\<lambda>t. t" and Q = "\<lambda>c. c \<in> {''TASK_TRANSITION_INVALID'', ''TASK_TERMINAL''}"])

lemma give_up_tables:
  assumes "give_up V cx run x w = Inr w'"
  shows "same_tables w w'"
proof -
  obtain w1 where "exhausted_event V cx run (of_task_id x) w = Inr w1"
    and "wait_for_verifier V (sweep_context cx (''vr-exhausted:'' @ of_task_id x)) (of_task_id x)
      (set_offers_of_task (of_task_id x) ''exhausted'' (vx_now cx)
        (set_offer (of_id x) ''exhausted'' (vx_now cx) w1)) = Inr w'"
    using assms by (auto simp: give_up_def bind_res_eq_Inr)
  then show ?thesis
    by (meson exhausted_event_untouched wait_untouched untouched_tables set_offer_tables same_tables_trans)
qed

lemma replace_verifier_steps:
  assumes "hooks_keep_tables V" and "replace_verifier V cx run x w = Inr (w', out)"
  shows "verification_steps V w w'"
proof -
  let ?cmd = "CreateVerificationRun (next_run_fields w run)"
  let ?cx = "sweep_context cx (''vr-next:'' @ of_task_id x @ '':'' @ int_str (next_rank w (of_task_id x)))"
  show ?thesis
  proof (cases "execute_verification V ?cx ?cmd w")
    case (Inl ew)
    obtain e w1 where ew: "ew = (e, w1)" by (cases ew)
    then have "give_up V cx run x w1 = Inr w'"
      using assms(2) Inl by (auto simp: replace_verifier_def Let_def bind_res_eq_Inr split: if_split_asm)
    moreover have "untouched w w1" using create_Inl Inl ew by blast
    ultimately show ?thesis using give_up_tables untouched_tables same_tables_trans elsewhere_steps by metis
  next
    case (Inr y)
    then have "execute_verification V ?cx ?cmd w = Inr (w', snd y)"
      using assms(2) by (cases y) (auto simp: replace_verifier_def Let_def)
    then show ?thesis by (rule execute_verification_steps [OF assms(1)])
  qed
qed

lemma sweep_offer_steps:
  assumes "hooks_keep_tables V" and "sweep_offer V cx x w = Inr (w', out)"
  shows "verification_steps V w w'"
proof -
  obtain run where run: "load_run w (of_verification_id x) = Inr run"
    using assms(2) by (auto simp: sweep_offer_def bind_res_eq_Inr)
  show ?thesis
  proof (cases "accepted_status (rn_status run)")
    case True
    then show ?thesis using assms(2) run by (auto simp: sweep_offer_def Let_def intro: elsewhere_steps)
  next
    case False
    let ?w1 = "set_offer (of_id x) ''timed_out'' (vx_now cx) w"
    obtain w2 w3 r where w2: "release_item V cx (of_work_item x) ?w1 = Inr w2"
      and w3: "execute_verification V (sweep_context cx (''vr-timeout:'' @ rn_verification_id run))
        (CancelVerification (rn_verification_id run) ''VERIFIER_ACCEPT_TIMEOUT'') w2 = Inr (w3, r)"
      and w': "replace_verifier V cx run x w3 = Inr (w', out)"
      using assms(2) run False by (auto simp: sweep_offer_def Let_def bind_res_eq_Inr)
    have "verification_steps V w w2"
      by (rule elsewhere_steps [OF same_tables_trans [OF set_offer_tables(1)
            untouched_tables [OF release_item_untouched [OF assms(1) w2]]]])
    also have "verification_steps V w2 w3" using execute_verification_steps [OF assms(1) w3] .
    also have "verification_steps V w3 w'" using replace_verifier_steps [OF assms(1) w'] .
    finally show ?thesis .
  qed
qed

lemma sweep_offers_steps:
  assumes "hooks_keep_tables V" and "sweep_offers V cx xs w = Inr (w', outs)"
  shows "verification_steps V w w'"
  using assms(2)
proof (induction xs arbitrary: w outs)
  case (Cons x xs)
  then obtain w1 o1 os where "sweep_offer V cx x w = Inr (w1, o1)" "sweep_offers V cx xs w1 = Inr (w', os)"
    by (auto simp: bind_res_eq_Inr)
  then show ?case using Cons.IH sweep_offer_steps [OF assms(1)] rtranclp_trans by metis
qed simp

section \<open>The invariant\<close>

definition run_revisions :: "'s verification_world \<Rightarrow> string \<Rightarrow> verification_revision list" where
  "run_revisions w vid = filter (\<lambda>r. re_verification_id r = vid) (vw_revisions w)"

text \<open>
  A run counts its revisions without gaps, shows the result of the last one, and is in the final state
  of a passed run exactly when that result is a pass.
\<close>

definition run_consistent :: "'s verification_world \<Rightarrow> verification_run \<Rightarrow> bool" where
  "run_consistent w run \<longleftrightarrow>
     rn_implementer run \<noteq> rn_verifier run \<and> rn_implementer_fingerprint run \<noteq> rn_verifier_fingerprint run \<and>
     map re_revision (run_revisions w (rn_verification_id run)) = [1..rn_current_revision run] \<and> 0 \<le> rn_current_revision run \<and>
     rn_result run = (if run_revisions w (rn_verification_id run) = [] then None
       else Some (re_result (last (run_revisions w (rn_verification_id run))))) \<and>
     (rn_status run = PASSED \<longleftrightarrow> rn_result run = Some ''PASSED'')"

text \<open>A revision was submitted by the verifier of its run, with a validated report.\<close>

definition revision_justified ::
  "'s verification_env \<Rightarrow> 's verification_world \<Rightarrow> verification_revision \<Rightarrow> bool" where
  "revision_justified V w r \<longleftrightarrow>
     (\<exists>run \<in> set (vw_runs w). rn_verification_id run = re_verification_id r \<and>
        re_submitted_by r = rn_verifier run \<and> re_fingerprint r \<noteq> rn_implementer_fingerprint run) \<and>
     (\<exists>report. re_report r = ve_jsonb V report \<and> validate_verdict report (re_result r) = Inr () \<and>
        report_sha256 (ve_prims V) report = Inr (re_report_sha256 r))"

definition snapshot_kept :: "'s verification_env \<Rightarrow> 's verification_world \<Rightarrow> verification_run \<Rightarrow> bool" where
  "snapshot_kept V w run \<longleftrightarrow>
     (\<exists>s snap. load_snapshot w (rn_verification_id run) = Inr (s, rn_snapshot_hash run) \<and> s = ve_jsonb V snap \<and>
        snapshot_hash (ve_prims V) snap = Inr (rn_snapshot_hash run) \<and>
        independence_from_snapshot snap = Inr () \<and>
        item_str snap ''implementer_account_id'' = Inr (rn_implementer run) \<and>
        item_str snap ''verifier_account_id'' = Inr (rn_verifier run))"

definition chain_kept :: "'s verification_env \<Rightarrow> 's verification_world \<Rightarrow> bool" where
  "chain_kept V w \<longleftrightarrow>
     sorted_wrt (<) (map re_id (vw_revisions w)) \<and> (\<forall>r \<in> set (vw_revisions w). re_id r < vw_next_revision w) \<and>
     rows_intact (ve_prims V) VERIFICATION_CHAIN None (map revision_row (vw_revisions w))"

definition verification_inv :: "'s verification_env \<Rightarrow> 's verification_world \<Rightarrow> bool" where
  "verification_inv V w \<longleftrightarrow>
     distinct (map rn_verification_id (vw_runs w)) \<and>
     set (map sn_verification_id (vw_snapshots w)) = set (map rn_verification_id (vw_runs w)) \<and>
     (\<forall>run \<in> set (vw_runs w). run_consistent w run \<and> snapshot_kept V w run) \<and>
     (\<forall>r \<in> set (vw_revisions w). revision_justified V w r) \<and> chain_kept V w"

lemmas verification_inv_defs = verification_inv_def run_consistent_def revision_justified_def snapshot_kept_def
  chain_kept_def run_revisions_def load_snapshot_def

lemma verification_inv_same_tables:
  "same_tables w w' \<Longrightarrow> verification_inv V w' \<longleftrightarrow> verification_inv V w"
  by (simp add: verification_inv_defs same_tables_def)

lemma load_run_unique:
  assumes "distinct (map rn_verification_id (vw_runs w))" and "load_run w vid = Inr run"
    and "x \<in> set (vw_runs w)" and "rn_verification_id x = vid"
  shows "x = run"
  using assms load_run_id [OF assms(2)] by (metis distinct_map inj_onD)

lemma next_status_facts:
  assumes "run_next_status s op result = Inr t"
  shows "s \<noteq> PASSED" and "s \<noteq> CANCELLED" and "result = None \<Longrightarrow> t \<noteq> PASSED"
    and "op = VERDICT \<Longrightarrow> result = Some x \<Longrightarrow> status_of_result result = Some t"
  using assms by (auto simp: run_next_status_def RUN_TERMINAL_def RUN_TRANSITIONS_def status_of_result_def
      split: if_split_asm option.split_asm)

lemma status_of_result_passed: "status_of_result (Some x) = Some PASSED \<longleftrightarrow> x = ''PASSED''"
  by (auto simp: status_of_result_def)

lemma update_run_sel [simp]:
  "vw_revisions (update_run vid f w) = vw_revisions w" "vw_snapshots (update_run vid f w) = vw_snapshots w"
  "vw_next_revision (update_run vid f w) = vw_next_revision w"
  "vw_runs (update_run vid f w) = map (\<lambda>r. if rn_verification_id r = vid then f r else r) (vw_runs w)"
  by (simp_all add: update_run_def)

text \<open>A row as the identity columns of a run, which no update writes.\<close>

definition same_identity :: "verification_run \<Rightarrow> verification_run \<Rightarrow> bool" where
  "same_identity x y \<longleftrightarrow> rn_verification_id y = rn_verification_id x \<and> rn_implementer y = rn_implementer x \<and>
     rn_verifier y = rn_verifier x \<and> rn_implementer_fingerprint y = rn_implementer_fingerprint x \<and>
     rn_verifier_fingerprint y = rn_verifier_fingerprint x \<and> rn_snapshot_hash y = rn_snapshot_hash x"

text \<open>The invariant while the counters of one run lag behind its revisions.\<close>

definition inv_but :: "'s verification_env \<Rightarrow> string \<Rightarrow> 's verification_world \<Rightarrow> bool" where
  "inv_but V vid w \<longleftrightarrow>
     distinct (map rn_verification_id (vw_runs w)) \<and>
     set (map sn_verification_id (vw_snapshots w)) = set (map rn_verification_id (vw_runs w)) \<and>
     (\<forall>run \<in> set (vw_runs w). (rn_verification_id run \<noteq> vid \<longrightarrow> run_consistent w run) \<and> snapshot_kept V w run) \<and>
     (\<forall>r \<in> set (vw_revisions w). revision_justified V w r) \<and> chain_kept V w"

lemma update_run_inv:
  assumes inv: "inv_but V vid w" and f: "\<And>x. same_identity x (f x)"
    and ok: "\<And>x. x \<in> set (vw_runs w) \<Longrightarrow> rn_verification_id x = vid \<Longrightarrow> run_consistent w (f x)"
  shows "verification_inv V (update_run vid f w)"
proof -
  let ?g = "\<lambda>r. if rn_verification_id r = vid then f r else r"
  have id: "same_identity x (?g x)" for x using f [of x] by (simp add: same_identity_def)
  have ids: "map rn_verification_id (map ?g (vw_runs w)) = map rn_verification_id (vw_runs w)"
    using f by (simp add: same_identity_def)
  have rc: "run_consistent (update_run vid f w) r = run_consistent w r" for r
    by (simp add: run_consistent_def run_revisions_def)
  have sk: "snapshot_kept V (update_run vid f w) (?g x) = snapshot_kept V w x" for x
    using id [of x] by (simp add: snapshot_kept_def load_snapshot_def same_identity_def)
  have "run_consistent (update_run vid f w) (?g x) \<and> snapshot_kept V (update_run vid f w) (?g x)"
    if "x \<in> set (vw_runs w)" for x
    unfolding rc sk using that inv ok [OF that] by (auto simp: inv_but_def)
  then have A: "\<forall>run \<in> set (vw_runs (update_run vid f w)).
      run_consistent (update_run vid f w) run \<and> snapshot_kept V (update_run vid f w) run"
    unfolding update_run_sel set_map by blast
  have B: "revision_justified V (update_run vid f w) r" if r: "revision_justified V w r" for r
  proof -
    from r obtain x where x: "x \<in> set (vw_runs w)" "rn_verification_id x = re_verification_id r"
      "re_submitted_by r = rn_verifier x" "re_fingerprint r \<noteq> rn_implementer_fingerprint x"
      unfolding revision_justified_def by blast
    then have "\<exists>y \<in> set (vw_runs (update_run vid f w)). rn_verification_id y = re_verification_id r \<and>
        re_submitted_by r = rn_verifier y \<and> re_fingerprint r \<noteq> rn_implementer_fingerprint y"
      using id [of x] by (intro bexI [of _ "?g x"]) (simp_all add: same_identity_def)
    then show ?thesis using r unfolding revision_justified_def by blast
  qed
  have C: "chain_kept V (update_run vid f w) = chain_kept V w" by (simp add: chain_kept_def)
  have D: "map rn_verification_id (vw_runs (update_run vid f w)) = map rn_verification_id (vw_runs w)"
    using ids by (simp only: update_run_sel)
  show ?thesis
    using inv A B unfolding verification_inv_def inv_but_def C D by simp
qed

lemma moved_inv:
  assumes inv: "verification_inv V w" and run: "load_run w vid = Inr run"
    and t: "run_next_status (rn_status run) op None = Inr target"
  shows "verification_inv V (set_run_status vid target w)"
  unfolding set_run_status_def
proof (rule update_run_inv)
  fix x assume x: "x \<in> set (vw_runs w)" "rn_verification_id x = vid"
  have "distinct (map rn_verification_id (vw_runs w))" using inv by (simp add: verification_inv_def)
  then have "x = run" using load_run_unique [OF _ run x] by blast
  moreover have "run_consistent w x" using inv x by (simp add: verification_inv_def)
  ultimately show "run_consistent w (x\<lparr>rn_status := target\<rparr>)"
    using next_status_facts [OF t] by (auto simp: run_consistent_def)
qed (use inv in \<open>auto simp: same_identity_def inv_but_def verification_inv_def\<close>)

lemma new_revision_result:
  assumes "new_revision P w run result submitter fingerprint report event_id now = Inr r"
  shows "re_id r = vw_next_revision w" "re_verification_id r = rn_verification_id run"
    "re_revision r = rn_current_revision run + 1" "re_result r = result" "re_submitted_by r = submitter"
    "re_fingerprint r = fingerprint" "re_report r = report"
    "report_sha256 P report = Inr (re_report_sha256 r)"
    "re_previous_hash r = last_hash (map revision_row (vw_revisions w))"
    "chain_hash P (hashed_row_fields VERIFICATION_CHAIN (revision_fields r)) (re_previous_hash r) = Inr (re_content_hash r)"
  using assms by (auto simp: new_revision_def Let_def bind_res_eq_Inr revision_fields_def)

lemma insert_revision_result:
  "insert_revision jsonb r w = Inr w' \<Longrightarrow>
   w' = w\<lparr>vw_revisions := vw_revisions w @ [r\<lparr>re_report := jsonb (re_report r)\<rparr>],
     vw_next_revision := vw_next_revision w + 1\<rparr>"
  by (auto simp: insert_revision_def split: if_splits)

lemma insert_findings_tables:
  assumes "fold_res insert_finding fs w = Inr w'"
  shows "same_tables w w'"
  by (rule fold_res_invariant [OF _ _ assms, where P = "same_tables w"])
    (auto simp: insert_finding_def same_tables_def split: if_splits)

lemma revision_row_report [simp]: "revision_row (r\<lparr>re_report := x\<rparr>) = revision_row r"
  by (simp add: revision_row_def revision_fields_def)

lemma insert_revision_chain:
  assumes "chain_kept V w" and new: "new_revision (ve_prims V) w run result submitter fp report ev now = Inr r"
    and "insert_revision jsonb r w = Inr w'"
  shows "chain_kept V w'"
proof -
  have ids: "map cr_id (map revision_row (vw_revisions w)) = map re_id (vw_revisions w)"
    by (simp add: revision_row_def)
  have "last_hash (map revision_row (vw_revisions w)) = rows_end None (map revision_row (vw_revisions w))"
    using assms(1) by (intro last_hash_end) (simp only: chain_kept_def ids)
  moreover have "chain_hash (ve_prims V) (hashed_row_fields VERIFICATION_CHAIN (cr_cells (revision_row r)))
      (cr_previous_hash (revision_row r)) = Inr (cr_content_hash (revision_row r))"
    using new_revision_result(10) [OF new] by (simp add: revision_row_def)
  moreover have "cr_previous_hash (revision_row r) = last_hash (map revision_row (vw_revisions w))"
    using new_revision_result(9) [OF new] by (simp add: revision_row_def)
  ultimately show ?thesis
    using assms(1) new_revision_result(1) [OF new] insert_revision_result [OF assms(3)]
    by (auto simp: chain_kept_def sorted_wrt_append rows_intact_append)
qed

lemma append_revision_inv:
  assumes inv: "verification_inv V w" and run: "load_run w vid = Inr run"
    and sub: "check_submitter run submitter fp graph = Inr ()"
    and v: "validate_verdict report result = Inr ()"
    and t: "run_next_status (rn_status run) VERDICT (Some result) = Inr target"
    and app: "append_revision (ve_prims V) (ve_jsonb V) run result submitter fp report ev now w = Inr (w', r)"
  shows "verification_inv V w'"
proof -
  obtain w1 w2 where new: "new_revision (ve_prims V) w run result submitter fp report ev now = Inr r"
    and ins: "insert_revision (ve_jsonb V) r w = Inr w1"
    and fs: "\<exists>fs. fold_res insert_finding fs w1 = Inr w2"
    and w': "w' = update_run (rn_verification_id run) (\<lambda>x. x\<lparr>rn_current_revision := re_revision r, rn_result := Some result,
            rn_status := get_default (rn_status x) (status_of_result (Some result))\<rparr>) w2"
    using app by (auto simp: append_revision_def bind_res_eq_Inr)
  note nr = new_revision_result [OF new]
  let ?r = "r\<lparr>re_report := ve_jsonb V (re_report r)\<rparr>"
  have vid: "rn_verification_id run = vid" "run \<in> set (vw_runs w)" using load_run_id [OF run] by auto
  have w1: "w1 = w\<lparr>vw_revisions := vw_revisions w @ [?r], vw_next_revision := vw_next_revision w + 1\<rparr>"
    using insert_revision_result [OF ins] .
  have same: "same_tables w1 w2" using fs insert_findings_tables by blast
  have w2: "vw_runs w2 = vw_runs w" "vw_snapshots w2 = vw_snapshots w" "vw_revisions w2 = vw_revisions w @ [?r]"
    using same w1 by (simp_all add: same_tables_def)
  have others: "run_consistent w2 x = run_consistent w x" if "rn_verification_id x \<noteq> vid" for x
    using that nr(2) vid(1) w2(3) by (simp add: run_consistent_def run_revisions_def)
  have just: "revision_justified V w2 x" if "revision_justified V w x" for x
    using that w2(1) by (simp add: revision_justified_def)
  have "revision_justified V w2 ?r"
    unfolding revision_justified_def w2(1) using vid v sub nr
    by (auto simp: check_submitter_def split: if_splits intro!: bexI [of _ run] exI [of _ report])
  moreover have "chain_kept V w2"
    using insert_revision_chain [OF _ new ins] inv same
    by (simp add: verification_inv_def chain_kept_def same_tables_def)
  ultimately have but: "inv_but V vid w2"
    using inv others just unfolding inv_but_def verification_inv_def w2 snapshot_kept_def load_snapshot_def by auto
  show ?thesis
    unfolding w' vid(1)
  proof (rule update_run_inv [OF but])
    fix x assume "x \<in> set (vw_runs w2)" "rn_verification_id x = vid"
    then have x: "x = run"
      using load_run_unique [OF _ run] inv w2(1) by (auto simp: verification_inv_def)
    have c: "run_consistent w run" using inv vid(2) by (simp add: verification_inv_def)
    have rr: "run_revisions w2 vid = run_revisions w vid @ [?r]"
      using w2(3) nr(2) vid(1) by (simp add: run_revisions_def)
    have "[1..rn_current_revision run + 1] = [1..rn_current_revision run] @ [rn_current_revision run + 1]"
      using c by (simp add: run_consistent_def upto_rec2)
    then have "map re_revision (run_revisions w2 vid) = [1..re_revision r]"
      using c rr nr(3) vid(1) by (simp add: run_consistent_def)
    moreover have "status_of_result (Some result) = Some target"
      using next_status_facts(4) [OF t] by simp
    ultimately show "run_consistent w2 (x\<lparr>rn_current_revision := re_revision r, rn_result := Some result,
            rn_status := get_default (rn_status x) (status_of_result (Some result))\<rparr>)"
      using c rr x nr vid(1) status_of_result_passed [of result] by (simp add: run_consistent_def)
  qed (simp add: same_identity_def)
qed

lemma find_append: "List.find Q (xs @ ys) = (case List.find Q xs of None \<Rightarrow> List.find Q ys | Some x \<Rightarrow> Some x)"
  by (induction xs) simp_all

lemma planned_inv:
  assumes inv: "verification_inv V w" and ok: "run_insert_ok w run" and p: "planned_with V run s"
    and w': "vw_runs w' = vw_runs w @ [run]" "vw_snapshots w' = vw_snapshots w @ [s]"
      "vw_revisions w' = vw_revisions w" "vw_next_revision w' = vw_next_revision w"
  shows "verification_inv V w'"
proof -
  let ?vid = "rn_verification_id run"
  have new: "?vid \<notin> rn_verification_id ` set (vw_runs w)"
    using ok by (auto simp: run_insert_ok_def list_ex_iff)
  have "re_verification_id r \<noteq> ?vid" if "r \<in> set (vw_revisions w)" for r
  proof -
    have "revision_justified V w r" using inv that by (simp add: verification_inv_def)
    then have "re_verification_id r \<in> rn_verification_id ` set (vw_runs w)"
      unfolding revision_justified_def by force
    then show ?thesis using new by auto
  qed
  then have none: "run_revisions w' ?vid = []"
    using w'(3) by (simp add: run_revisions_def filter_empty_conv)
  have old: "run_consistent w' x = run_consistent w x" for x
    using w'(3) by (simp add: run_consistent_def run_revisions_def)
  have snap_old: "snapshot_kept V w' x" if "snapshot_kept V w x" for x
  proof -
    have "load_snapshot w' i = Inr y" if "load_snapshot w i = Inr y" for i y
      using that w'(2) by (auto simp: load_snapshot_def find_append split: option.splits)
    then show ?thesis using that unfolding snapshot_kept_def by blast
  qed
  have "List.find (\<lambda>s. sn_verification_id s = ?vid) (vw_snapshots w) = None"
  proof -
    have "sn_verification_id ` set (vw_snapshots w) = rn_verification_id ` set (vw_runs w)"
      using inv by (simp add: verification_inv_def)
    then show ?thesis using new by (metis (mono_tags, lifting) find_None_iff image_eqI)
  qed
  then have "load_snapshot w' ?vid = Inr (sn_snapshot s, sn_hash s)"
    using p w'(2) by (simp add: load_snapshot_def find_append planned_with_def)
  then have "snapshot_kept V w' run"
    using p by (auto simp: snapshot_kept_def planned_with_def)
  moreover have "run_consistent w' run"
    using none ok p by (simp add: run_consistent_def run_insert_ok_def planned_with_def)
  moreover have "revision_justified V w' r" if "revision_justified V w r" for r
    using that w'(1) by (auto simp: revision_justified_def)
  moreover have "chain_kept V w' = chain_kept V w" using w' by (simp add: chain_kept_def)
  moreover have "sn_verification_id s = ?vid" using p by (simp add: planned_with_def)
  ultimately show ?thesis
    using inv new old snap_old unfolding verification_inv_def w' by auto
qed

lemma verification_step_inv:
  assumes "verification_step V w w'" and "verification_inv V w"
  shows "verification_inv V w'"
  using assms(1)
proof cases
  case (planned run s)
  then show ?thesis using planned_inv [OF assms(2)] by blast
next
  case (moved vid run op target)
  then show ?thesis using moved_inv [OF assms(2)] verification_inv_same_tables by blast
next
  case (judged vid run submitter fp graph report result target w1 ev now w2 r)
  have "verification_inv V w1" using assms(2) judged(5) verification_inv_same_tables by blast
  moreover have "load_run w1 vid = Inr run" using judged(1,5) load_run_same_tables by metis
  ultimately show ?thesis
    using append_revision_inv judged(2,3,4,6,7) verification_inv_same_tables by blast
next
  case elsewhere
  then show ?thesis using assms(2) verification_inv_same_tables by blast
qed

lemma verification_steps_inv:
  assumes "verification_steps V w w'" and "verification_inv V w"
  shows "verification_inv V w'"
  using assms by (induction rule: rtranclp_induct) (auto intro: verification_step_inv)

definition no_runs :: "'s verification_world \<Rightarrow> bool" where
  "no_runs w \<longleftrightarrow> vw_runs w = [] \<and> vw_snapshots w = [] \<and> vw_revisions w = []"

lemma no_runs_inv: "no_runs w \<Longrightarrow> verification_inv V w"
  by (simp add: no_runs_def verification_inv_def chain_kept_def)

end
