(* ===== verification/Verification_Trial.thy ===== *)
theory Verification_Trial
  imports Verification_Machine
begin

text \<open>
  A run to evaluate the properties on: the Human \<open>human-a\<close> may assign Verifiers, the Human \<open>human-c\<close>
  verifies what the Agent \<open>agent-b\<close> implemented. The trial run is planned, assigned, started and passed.
\<close>

section \<open>Accounts and policy\<close>

definition trial_accounts :: "account_rec list" where
  "trial_accounts = [sample_account,
     \<lparr>ac_account_id = ''agent-b'', ac_uuid = ''u2'', ac_workspace = ''w'', ac_type = ''agent'', ac_status = ''ACTIVE''\<rparr>,
     \<lparr>ac_account_id = ''human-c'', ac_uuid = ''u3'', ac_workspace = ''w'', ac_type = ''human'', ac_status = ''ACTIVE''\<rparr>]"

definition trial_role :: role where
  "trial_role = sample_read_role\<lparr>ro_permissions := [''verification.assign'']\<rparr>"

definition trial_db :: policy_db where
  "trial_db = sample_db\<lparr>pb_accounts := trial_accounts, pb_roles := [sample_role_rec\<lparr>rr_current_version := 1\<rparr>],
     pb_versions := [\<lparr>rv_role_id = ''role-a'', rv_version = 1, rv_permissions = [''verification.assign''], rv_deny = [],
       rv_constraints = [], rv_policy_hash = ''h'', rv_event_id = None, rv_created_by = ''u1''\<rparr>],
     pb_assignments := [sample_assignment]\<rparr>"

definition trial_catalog :: policy_catalog where
  "trial_catalog = \<lparr>pc_permissions = [(''verification.assign'', True)], pc_classes = [(''assign'', (''LOW'', ''none''))],
     pc_actions = [(''tool:verification_assign'', (''assign'', ''verification.assign''))],
     pc_unclassified_default = ''HIGH'', pc_quorum = (\<lambda>_. 1), pc_human_only_from = ''CRITICAL'',
     pc_capabilities = [], pc_roles = []\<rparr>"

definition trial_authz :: authz_env where
  "trial_authz = \<lparr>ae_prims = flat_prims, ae_jsonb = (\<lambda>p. p), ae_catalog = trial_catalog, ae_now = 5, ae_audit_now = 5\<rparr>"

text \<open>Hooks that do nothing, and the in-memory Event store.\<close>

definition trial_env :: "mem_store verification_env" where
  "trial_env = \<lparr>ve_store = mem_ops flat_prims, ve_tasks = open_env, ve_authorizer = Some trial_authz,
     ve_prims = flat_prims, ve_jsonb = (\<lambda>p. p), ve_uuid5_hex = (\<lambda>s. s), ve_criteria = (\<lambda>_ _. Inr []),
     ve_artifacts = (\<lambda>_ _. []), ve_enqueue = (\<lambda>_ _ _ _ _ _ w. Inr (w, ''item'')),
     ve_cancel_item = (\<lambda>_ _ w. Inr (Some w)), ve_on_terminal = (\<lambda>_ _ _ w. Inr w)\<rparr>"

definition trial_context :: "string \<Rightarrow> string \<Rightarrow> string \<Rightarrow> time \<Rightarrow> verification_context" where
  "trial_context uuid account fp now =
     \<lparr>vx_base = (at_key ''k'')\<lparr>cx_workspace_id := ''w'', cx_account_uuid := uuid\<rparr>, vx_account_id = account,
      vx_fingerprint = fp, vx_now = now, vx_db_now = now\<rparr>"

lemma trial_env_sel [simp]:
  "ve_store trial_env = mem_ops flat_prims" "ve_tasks trial_env = open_env" "ve_authorizer trial_env = Some trial_authz"
  "ve_prims trial_env = flat_prims" "ve_jsonb trial_env p = p" "ve_on_terminal trial_env cx t v w = Inr w"
  by (simp_all add: trial_env_def)

lemma trial_context_sel [simp]:
  "cx_workspace_id (vx_base (trial_context uuid account fp now)) = ''w''"
  "cx_account_uuid (vx_base (trial_context uuid account fp now)) = uuid"
  "cx_idempotency_key (vx_base (trial_context uuid account fp now)) = ''k''"
  "vx_account_id (trial_context uuid account fp now) = account"
  "vx_fingerprint (trial_context uuid account fp now) = fp" "vx_now (trial_context uuid account fp now) = now"
  by (simp_all add: trial_context_def)

lemma trial_hooks: "hooks_keep_tables trial_env"
  by (auto simp: hooks_keep_tables_def trial_env_def)

lemma trial_inv: "policy_inv flat_prims trial_db"
proof -
  let ?d = "JObj [(''permissions'', JArr [JStr ''verification.assign'']), (''deny'', JArr []), (''constraints'', JObj [])]"
  obtain b where "canonical_bytes ?d = Inr b" using canonical_bytes_total [of ?d] by auto
  then have "policy_hash flat_prims [''verification.assign''] [] [] = Inr ''h''"
    by (simp add: policy_hash_def flat_prims_def sha256_hex_def)
  then show ?thesis
    by (simp add: policy_inv_def trial_db_def sample_db_def sample_role_rec_def versions_of_def version_ok_def)
qed

lemma trial_reads:
  shows "principal trial_db ''human-a'' = Some sample_principal"
    and "0 \<le> now \<Longrightarrow> effective_roles trial_db sample_principal now = Inr [trial_role]"
proof -
  show "principal trial_db ''human-a'' = Some sample_principal"
    by (simp add: principal_def trial_db_def trial_accounts_def sample_db_def sample_account_def sample_principal_def)
  show "effective_roles trial_db sample_principal now = Inr [trial_role]" if "0 \<le> now"
    by (simp add: effective_roles_def effective_rows_def trial_db_def sample_db_def sample_role_rec_def
        sample_assignment_effective [OF that] role_of_rows_def role_from_version_def optional_set_def
        trial_role_def sample_read_role_def map_filter_simps del: One_nat_def)
      (simp add: sample_assignment_def)
qed

lemma trial_authorized:
  assumes q: "q = permission_query cx ''verification.assign'' None"
  shows "\<exists>auth. authorize trial_authz trial_db lg ''human-a'' q = Inr (lg, auth) \<and> auth_allowed auth"
proof -
  have cat: "catalog_ok trial_catalog"
    by (simp add: catalog_ok_def trial_catalog_def validate_cross_references_def vocabulary_def RISK_ORDER_def)
  have roles: "effective_roles trial_db sample_principal (ae_now trial_authz) = Inr [trial_role]"
    using trial_reads(2) by (simp add: trial_authz_def)
  obtain lg' auth where az: "authorize trial_authz trial_db lg ''human-a'' q = Inr (lg', auth)"
    using authorize_returns [of trial_authz trial_db "''human-a''" lg q] cat roles trial_reads(1)
    by (auto simp: trial_authz_def trial_role_def sample_read_role_def RISK_ORDER_def)
  have cls: "classify (ae_catalog trial_authz) q = Inr (''LOW'', ''assign'', ''none'')"
    by (simp add: q classify_def trial_authz_def trial_catalog_def permission_query_def risk_for_def)
  have "risk_le ''LOW'' (co_max_risk (ro_constraints trial_role))"
    by (simp add: risk_le_def risk_index_def RISK_ORDER_def trial_role_def sample_read_role_def)
  moreover have "granting (action_of q) trial_role"
    by (simp add: q granting_def action_of_def permission_query_def trial_role_def sample_read_role_def matches_any_def
        permission_matches_def scope_violation_def ends_with_def suffix_def)
  ultimately have "authorized trial_authz trial_db ''human-a'' q"
    unfolding authorized_iff [OF trial_reads(1) roles cls]
    by (simp add: q sample_principal_def permission_query_def trial_authz_def trial_catalog_def vocabulary_def
        trial_role_def sample_read_role_def matches_any_def)
  then show ?thesis using authorize_decides [OF trial_inv az] az by auto
qed

section \<open>The world of the trial\<close>

definition trial_world :: "mem_store verification_world" where
  "trial_world = \<lparr>vw_tasks = empty_world (empty_store ''now''), vw_db = trial_db, vw_aliases = [], vw_agents = [],
     vw_credentials = [], vw_channels = [], vw_runs = [], vw_snapshots = [], vw_revisions = [], vw_next_revision = 1,
     vw_evidence = [], vw_findings = [], vw_offers = [], vw_next_offer = 1, vw_log = empty_log, vw_kept = empty_log,
     vw_drawn = 0\<rparr>"

definition trial_snapshot :: pydict where
  "trial_snapshot = build_snapshot
     \<lparr>id_account_id = ''u2'', id_credential_fingerprint = ''f2'', id_agent_id = Some ''agent-b''\<rparr>
     \<lparr>id_account_id = ''u3'', id_credential_fingerprint = ''f3'', id_agent_id = None\<rparr> ''g'' ''p'' ''c'' ''t'' []"

definition trial_run :: "verification_status \<Rightarrow> verification_run" where
  "trial_run status = \<lparr>rn_verification_id = ''vr-1'', rn_workspace = ''w'', rn_target_type = ''phase'', rn_target_id = ''p1'',
     rn_phase = Some 1, rn_task_id = None, rn_implementer = ''u2'', rn_verifier = ''u3'',
     rn_implementer_agent = Some ''agent-b'', rn_verifier_agent = None, rn_implementer_fingerprint = ''f2'',
     rn_verifier_fingerprint = ''f3'', rn_identity_graph_version = ''g'', rn_effective_policy_hash = ''p'',
     rn_criteria_version = ''c'', rn_target_commit = ''t'', rn_status = status, rn_current_revision = 0,
     rn_result = None, rn_snapshot_hash = ''h'', rn_created_by = ''u1'', rn_created_at = 0, rn_row_id = ''r1''\<rparr>"

definition trial_at :: "verification_status \<Rightarrow> mem_store verification_world" where
  "trial_at status = trial_world\<lparr>vw_runs := [trial_run status],
     vw_snapshots := [\<lparr>sn_verification_id = ''vr-1'', sn_snapshot = trial_snapshot, sn_hash = ''h''\<rparr>]\<rparr>"

definition trial_report :: pydict where
  "trial_report = [(''result'', JStr ''PASSED''), (''criteria_version'', JStr ''c''),
     (''tests'', JArr [JObj [(''id'', JStr ''t1''), (''result'', JStr ''PASS''), (''evidence_ref'', JStr ''e1'')]]),
     (''findings'', JArr [JObj [(''id'', JStr ''n1''), (''severity'', JStr ''Low''), (''summary'', JStr ''s'')]]),
     (''residual_risks'', JArr [])]"

text \<open>The offer to the Verifier, open until minute ten.\<close>

definition trial_offer :: offer_row where
  "trial_offer = \<lparr>of_id = 1, of_workspace = ''w'', of_task_id = ''p1'', of_verification_id = ''vr-1'', of_rank = 1,
     of_account = ''u3'', of_agent = None, of_score = 1, of_work_item = None, of_offered_at = 0,
     of_deadline = ACCEPT_TIMEOUT, of_status = ''offered'', of_resolved_at = None\<rparr>"

lemma trial_run_sel [simp]:
  "rn_verification_id (trial_run s) = ''vr-1''" "rn_status (trial_run s) = s" "rn_implementer (trial_run s) = ''u2''"
  "rn_verifier (trial_run s) = ''u3''" "rn_implementer_fingerprint (trial_run s) = ''f2''" "rn_workspace (trial_run s) = ''w''"
  "rn_target_type (trial_run s) = ''phase''" "rn_target_id (trial_run s) = ''p1''" "rn_current_revision (trial_run s) = 0"
  "rn_criteria_version (trial_run s) = ''c''"
  by (simp_all add: trial_run_def)

lemma trial_at_sel [simp]:
  "vw_runs (trial_at s) = [trial_run s]" "vw_revisions (trial_at s) = []" "vw_log (trial_at s) = empty_log"
  "vw_kept (trial_at s) = empty_log" "vw_offers (trial_at s) = []" "vw_db (trial_at s) = trial_db"
  "vw_aliases (trial_at s) = []" "vw_findings (trial_at s) = []" "vw_tasks (trial_at s) = empty_world (empty_store ''now'')"
  by (simp_all add: trial_at_def trial_world_def)

lemma trial_load [simp]: "load_run (trial_at s) ''vr-1'' = Inr (trial_run s)"
  by (simp add: load_run_def)

lemma no_aliases: "alias_graph rows [] ws = []"
  by (simp add: alias_graph_def dict_of_def)

lemma flat_hash:
  assumes "printable (map_jval codes v)"
  shows "bind_res (canonical_bytes v) (\<lambda>b. Inr (sha256_hex flat_prims b)) = Inr ''h''"
  using canonical_bytes_total [OF assms] by (auto simp: sha256_hex_def flat_prims_def)

section \<open>The steps of the trial\<close>

lemma trial_planned: "verification_step trial_env trial_world (trial_at PLANNED)"
proof (rule verification_step.planned)
  have h: "snapshot_hash flat_prims trial_snapshot = Inr ''h''"
    unfolding snapshot_hash_def by (rule flat_hash) (simp add: trial_snapshot_def build_snapshot_def)
  have i: "independence_from_snapshot trial_snapshot = Inr ()"
    by (simp add: independence_from_snapshot_def trial_snapshot_def dict_of_def check_independence_def effective_principal_def follow_aliases.simps)
  show "planned_with trial_env (trial_run PLANNED) \<lparr>sn_verification_id = ''vr-1'', sn_snapshot = trial_snapshot, sn_hash = ''h''\<rparr>"
    using h i by (simp add: planned_with_def) (simp add: trial_run_def trial_snapshot_def)
qed (simp_all add: run_insert_ok_def trial_at_def trial_world_def trial_run_def)

lemma trial_moved:
  assumes "run_next_status s op None = Inr t"
  shows "verification_step trial_env (trial_at s) (trial_at t)"
proof (rule verification_step.moved)
  show "load_run (trial_at s) ''vr-1'' = Inr (trial_run s)" by simp
  show "run_next_status (rn_status (trial_run s)) op None = Inr t" using assms by simp
  show "same_tables (set_run_status ''vr-1'' t (trial_at s)) (trial_at t)"
    by (simp add: same_tables_def set_run_status_def update_run_def) (simp add: trial_at_def trial_run_def)
qed

lemma trial_running: "verification_steps trial_env trial_world (trial_at RUNNING)"
proof -
  have "verification_step trial_env (trial_at PLANNED) (trial_at ASSIGNED)" "verification_step trial_env (trial_at ASSIGNED) (trial_at RUNNING)"
    by (rule trial_moved [of _ ASSIGN] trial_moved [of _ START],
        simp add: run_next_status_def RUN_TERMINAL_def RUN_TRANSITIONS_def)+
  then show ?thesis using trial_planned by (meson rtranclp.rtrancl_into_rtrancl rtranclp.rtrancl_refl)
qed

lemma trial_verdict:
  obtains w r where "append_revision flat_prims (\<lambda>p. p) (trial_run RUNNING) ''PASSED'' ''u3'' ''f3'' trial_report ''evt'' 7
      (trial_at RUNNING) = Inr (w, r)"
    and "vw_runs w = [(trial_run RUNNING)\<lparr>rn_status := PASSED, rn_current_revision := 1, rn_result := Some ''PASSED''\<rparr>]"
    and "length (vw_revisions w) = 1"
proof -
  let ?w = "trial_at RUNNING"
  have p: "report_sha256 flat_prims trial_report = Inr ''h''"
    unfolding report_sha256_def by (rule flat_hash) (simp add: trial_report_def)
  have "\<exists>r. new_revision flat_prims ?w (trial_run RUNNING) ''PASSED'' ''u3'' ''f3'' trial_report ''evt'' 7 = Inr r"
  proof -
    have "chain_hash flat_prims (hashed_row_fields VERIFICATION_CHAIN (revision_fields d)) h = Inr ''h''" for d h
      unfolding chain_hash_def by (rule flat_hash)
        (simp add: hashed_row_fields_def VERIFICATION_CHAIN_def revision_fields_def jopt_def split: option.split)
    then show ?thesis using p by (simp add: new_revision_def Let_def)
  qed
  then obtain r where r: "new_revision flat_prims ?w (trial_run RUNNING) ''PASSED'' ''u3'' ''f3'' trial_report ''evt'' 7 = Inr r"
    by blast
  have c: "re_verification_id r = ''vr-1''" "re_submitted_by r = ''u3''" "re_fingerprint r = ''f3''" "re_revision r = 1"
    using r p by (auto simp: new_revision_def Let_def bind_res_eq_Inr)
  have "report_items trial_report ''findings'' = [[(''id'', JStr ''n1''), (''severity'', JStr ''Low''), (''summary'', JStr ''s'')]]"
    by (simp add: report_items_def trial_report_def map_filter_simps)
  then show thesis
    using that r c by (simp add: append_revision_def insert_revision_def self_submitted_def insert_finding_def
        update_run_def status_of_result_def)
qed

lemma trial_passed:
  obtains w where "verification_steps trial_env trial_world w"
    and "vw_runs w = [(trial_run RUNNING)\<lparr>rn_status := PASSED, rn_current_revision := 1, rn_result := Some ''PASSED''\<rparr>]"
    and "length (vw_revisions w) = 1"
proof -
  obtain w r where a: "append_revision flat_prims (\<lambda>p. p) (trial_run RUNNING) ''PASSED'' ''u3'' ''f3'' trial_report ''evt'' 7
      (trial_at RUNNING) = Inr (w, r)"
    and w: "vw_runs w = [(trial_run RUNNING)\<lparr>rn_status := PASSED, rn_current_revision := 1, rn_result := Some ''PASSED''\<rparr>]"
      "length (vw_revisions w) = 1"
    by (rule trial_verdict)
  have "verification_step trial_env (trial_at RUNNING) w"
  proof (rule verification_step.judged)
    show "load_run (trial_at RUNNING) ''vr-1'' = Inr (trial_run RUNNING)" by simp
    show "check_submitter (trial_run RUNNING) ''u3'' ''f3'' [] = Inr ()"
      by (simp add: check_submitter_def effective_principal_def follow_aliases.simps)
    show "validate_verdict trial_report ''PASSED'' = Inr ()"
      by (simp add: validate_verdict_def verdict_valid_def pass_justified_def report_items_def trial_report_def required_def
          optional_def one_of_def nonempty_str_def array_of_def valid_test_def valid_finding_def is_str_def item_field_def
          get_str_def map_filter_simps)
    show "run_next_status (rn_status (trial_run RUNNING)) VERDICT (Some ''PASSED'') = Inr PASSED"
      by (simp add: run_next_status_def RUN_TERMINAL_def RUN_TRANSITIONS_def status_of_result_def)
    show "append_revision (ve_prims trial_env) (ve_jsonb trial_env) (trial_run RUNNING) ''PASSED'' ''u3'' ''f3'' trial_report
        ''evt'' 7 (trial_at RUNNING) = Inr (w, r)"
      using a by (simp add: trial_env_def)
  qed simp_all
  then show thesis using that w trial_running by (meson rtranclp.rtrancl_into_rtrancl)
qed

lemma trial_start: "no_runs trial_world"
  by (simp add: no_runs_def trial_world_def)

lemma trial_cancelled:
  assumes "cx = trial_context ''u1'' ''human-a'' ''f1'' now" and "w = (trial_at PLANNED)\<lparr>vw_offers := os\<rparr>"
  obtains w' r where "run_verification trial_env cx (CancelVerification ''vr-1'' reason) w = (w', Inr r)"
    and "\<not> rs_replayed r" and "vw_tasks w' = vw_tasks w"
proof -
  let ?q = "permission_query cx ''verification.assign'' None"
  have db: "vw_db w = trial_db" "vw_log w = empty_log" "vw_tasks w = empty_world (empty_store ''now'')"
    using assms(2) by simp_all
  have load: "load_run (w\<lparr>vw_kept := l\<rparr>) ''vr-1'' = Inr (trial_run PLANNED)" for l
    using assms(2) by (simp add: load_run_def)
  have perm: "need_permission trial_env cx ''verification.assign'' None (w\<lparr>vw_kept := l\<rparr>) = Inr (w\<lparr>vw_kept := l\<rparr>)" for l
  proof -
    have c: "az_correlation_id ?q = ''c''" "?q\<lparr>az_correlation_id := ''c''\<rparr> = ?q"
      using assms(1) by (simp_all add: permission_query_def trial_context_def at_key_def)
    obtain auth where auth: "authorize trial_authz trial_db empty_log ''human-a'' ?q = Inr (empty_log, auth)" "auth_allowed auth"
      using trial_authorized [OF refl] by blast
    have "bus_require trial_authz trial_db empty_log ''human-a'' ?q = (empty_log, Inr auth)"
      unfolding bus_require_def c(1) using c(2) auth by (simp add: require_def)
    then show ?thesis
      using db assms(1) by (simp add: need_permission_def require_permission_def own_transaction_def)
  qed
  have st: "mem_stream (empty_store ''now'') ''w'' t i = []" for t i by (simp add: mem_stream_def empty_store_def)
  let ?x = "run_audit cx (''verification.'' @ op_value CANCEL) ''verification_run'' ''vr-1'' (run_status_value CANCELLED) None
    [(''reason_code'', JStr reason)]"
  obtain l i where a: "append_audit flat_prims (\<lambda>p. p) empty_log ?x = Inr (l, i)"
    using append_audit_total [of ?x flat_prims "\<lambda>p. p" empty_log] by (auto simp: run_audit_def)
  have ns: "run_next_status PLANNED CANCEL None = Inr CANCELLED"
    by (simp add: run_next_status_def RUN_TERMINAL_def RUN_TRANSITIONS_def)
  have key: "cx_idempotency_key (vx_base cx) \<noteq> []" "cx_workspace_id (vx_base cx) = ''w''" using assms(1) by simp_all
  show thesis
    using that a ns load perm key db st
    by (simp add: run_verification_def in_transaction_def execute_verification_def cancel_verification_def simple_move_def
        run_or_error_def run_replay_def run_stream_def session_audit_def set_run_status_def update_run_def empty_world_def
        trial_env_def)
qed

section \<open>A query for Verifiers\<close>

definition trial_query :: verifier_query where
  "trial_query = \<lparr>vq_workspace = ''w'', vq_domain = None, vq_risk = ''LOW'', vq_channel = None,
     vq_implementer = \<lparr>id_account_id = ''u2'', id_credential_fingerprint = ''f2'', id_agent_id = Some ''agent-b''\<rparr>,
     vq_excluded = [''u1''], vq_correlation_id = ''c''\<rparr>"

lemma trial_eligible:
  obtains c where "eligible_verifiers (trial_env\<lparr>ve_authorizer := None\<rparr>) trial_query trial_world = Inr (trial_world, [c])"
    and "ca_account_id c = ''human-c''" and "ca_score c = 1"
proof -
  let ?a = "\<lparr>ac_account_id = ''agent-b'', ac_uuid = ''u2'', ac_workspace = ''w'', ac_type = ''agent'', ac_status = ''ACTIVE''\<rparr>"
  let ?c = "\<lparr>ac_account_id = ''human-c'', ac_uuid = ''u3'', ac_workspace = ''w'', ac_type = ''human'', ac_status = ''ACTIVE''\<rparr>"
  have rows: "verifier_rows trial_world ''w'' = [(?a, None), (sample_account, None), (?c, None)]"
    by (simp add: verifier_rows_def trial_world_def trial_db_def trial_accounts_def sample_account_def sort_key_def)
  have load: "load_of trial_world u = 0" for u by (simp add: load_of_def trial_world_def empty_world_def)
  have fp: "row_fingerprint trial_world x = ''none:'' @ ac_account_id x" for x
    by (simp add: row_fingerprint_def account_fingerprint_def trial_world_def Let_def)
  have g: "world_graph trial_world ''w'' = []" by (simp add: world_graph_def trial_world_def no_aliases)
  have h: "\<not> human_required trial_world ''w'' None ''LOW''"
    by (simp add: human_required_def HUMAN_REQUIRED_RISKS_def)
  have "\<not> row_admissible trial_query trial_world (?a, None)" "\<not> row_admissible trial_query trial_world (sample_account, None)"
    by (simp_all add: row_admissible_def trial_query_def sample_account_def)
  moreover have "row_admissible trial_query trial_world (?c, None)"
    using h g fp by (simp add: row_admissible_def trial_query_def check_independence_def effective_principal_def follow_aliases.simps)
  ultimately show thesis
    using that rows load h
    by (simp add: eligible_verifiers_def consider_row_def policy_allows_def human_domain_match_def trial_query_def)
qed

end
