(* ===== verification/Verification_Properties.thy ===== *)
theory Verification_Properties
  imports Verification_Trial
begin

text \<open>
  What the verification component promises: passed gates are justified by an independent verdict, the
  revisions form an intact chain, final runs stay, self-verdicts are refused and audited, the
  selection of a Verifier follows its rule, and what the offer sweep does.
\<close>

section \<open>Refinement\<close>

text \<open>
  C29. Every bus command and every sweep of the offers, whether it succeeds or raises, changes the
  verification tables only by steps of the machine: planning an independent run, a move of the
  transition table, or a verdict of the run's verifier with a validated report. This holds for any
  Event store, any policy and any Task environment, as long as the hooks of other packages do not
  write these tables.
\<close>

theorem commands_refine_machine:
  assumes "hooks_keep_tables V"
  shows "verification_steps V w (fst (run_verification V cx cmd w)) \<and>
    verification_steps V w (fst (in_transaction (sweep_timeouts V cx) w))"
  using execute_verification_steps [OF assms] sweep_offers_steps [OF assms]
  by (auto simp: run_verification_def sweep_timeouts_def intro!: in_transaction_steps)

theorem commands_refine_machine_witness:
  "hooks_keep_tables trial_env \<and>
   verification_steps trial_env (trial_at PLANNED) (fst (run_verification trial_env (trial_context ''u1'' ''human-a'' ''f1'' 5)
     (CancelVerification ''vr-1'' ''R'') (trial_at PLANNED)))"
  using trial_hooks commands_refine_machine [OF trial_hooks] by blast

section \<open>The gate\<close>

lemma sort_key_last_max:
  assumes "rev (sort_key f xs) = y # ys"
  shows "y \<in> set xs" and "\<forall>x \<in> set xs. f x \<le> f y"
proof -
  have e: "sort_key f xs = rev ys @ [y]" using assms by (metis rev_rev_ident rev.simps(2))
  have "set (sort_key f xs) = set xs" by simp
  then show "y \<in> set xs" using e by (metis in_set_conv_decomp)
  have s: "sorted (map f (rev ys @ [y]))" using sorted_sort_key [of f xs] e by simp
  show "\<forall>x \<in> set xs. f x \<le> f y"
  proof
    fix x assume "x \<in> set xs"
    then have "x \<in> set (rev ys @ [y])" using e by (metis set_sort)
    then show "f x \<le> f y" using s by (auto simp: sorted_append)
  qed
qed

lemma load_run_member:
  assumes "distinct (map rn_verification_id (vw_runs w))" and "run \<in> set (vw_runs w)"
  shows "load_run w (rn_verification_id run) = Inr run"
proof -
  obtain y where y: "List.find (\<lambda>r. rn_verification_id r = rn_verification_id run) (vw_runs w) = Some y"
    using assms(2) by (cases "List.find (\<lambda>r. rn_verification_id r = rn_verification_id run) (vw_runs w)")
      (auto simp: find_None_iff)
  then have "load_run w (rn_verification_id run) = Inr y" by (simp add: load_run_def)
  then show ?thesis using load_run_unique [OF assms(1) _ assms(2) refl] by simp
qed

lemma no_revisions:
  assumes "run_consistent w run"
  shows "run_revisions w (rn_verification_id run) = [] \<longleftrightarrow> rn_current_revision run = 0"
proof -
  have m: "map re_revision (run_revisions w (rn_verification_id run)) = [1..rn_current_revision run]"
    and "0 \<le> rn_current_revision run"
    using assms by (simp_all add: run_consistent_def)
  have "run_revisions w (rn_verification_id run) = [] \<longleftrightarrow> [1..rn_current_revision run] = []"
    by (metis m list.map_disc_iff)
  then show ?thesis using \<open>0 \<le> rn_current_revision run\<close> by auto
qed

lemma list_revisions_sorted:
  assumes "run_consistent w run"
  shows "list_revisions w (rn_verification_id run) = run_revisions w (rn_verification_id run)"
proof -
  have "sorted (map re_revision (run_revisions w (rn_verification_id run)))"
    using assms by (simp add: run_consistent_def)
  then show ?thesis by (simp add: list_revisions_def run_revisions_def sort_key_id_if_sorted)
qed

text \<open>
  C28. When the gate lets a target pass, its latest run that is not cancelled is PASSED, and the last
  revision of that run is a pass submitted by the run's verifier, an account that is not the
  implementer, under a credential that is not the implementer's. The submitted report satisfied the
  schema, had every test passed or not applicable and no finding above Low, and the identity
  snapshot of the run re-evaluates to independent identities.
\<close>

theorem verified_targets_justified:
  assumes "no_runs w0" and "verification_steps V w0 w" and "require_verified w target_type target_id = Inr gate"
  shows "\<exists>run r report snap vid. vg_verification_id gate = Some vid \<and> load_run w vid = Inr run \<and>
    rn_target_type run = target_type \<and> rn_target_id run = target_id \<and> rn_status run = PASSED \<and>
    (\<forall>x \<in> set (vw_runs w). rn_target_type x = target_type \<and> rn_target_id x = target_id \<and> rn_status x \<noteq> CANCELLED \<longrightarrow>
       (rn_created_at x, rn_row_id x) \<le> (rn_created_at run, rn_row_id run)) \<and>
    list_revisions w vid \<noteq> [] \<and> r = last (list_revisions w vid) \<and> re_revision r = vg_revision gate \<and>
    re_result r = ''PASSED'' \<and> re_submitted_by r = rn_verifier run \<and> rn_verifier run \<noteq> rn_implementer run \<and>
    re_fingerprint r \<noteq> rn_implementer_fingerprint run \<and>
    re_report r = ve_jsonb V report \<and> verdict_valid report \<and> pass_justified report \<and>
    load_snapshot w vid = Inr (ve_jsonb V snap, rn_snapshot_hash run) \<and> independence_from_snapshot snap = Inr ()"
proof -
  have inv: "verification_inv V w" using verification_steps_inv [OF assms(2) no_runs_inv [OF assms(1)]] .
  let ?xs = "filter (\<lambda>r. rn_target_type r = target_type \<and> rn_target_id r = target_id \<and> rn_status r \<noteq> CANCELLED) (vw_runs w)"
  let ?k = "\<lambda>r. (rn_created_at r, rn_row_id r)"
  obtain run ys where run: "rev (sort_key ?k ?xs) = run # ys"
    and gate: "vg_verification_id gate = Some (rn_verification_id run)" "vg_revision gate = rn_current_revision run"
      "rn_result run = Some ''PASSED''"
    using assms(3) by (auto simp: require_verified_def verification_gate_def Let_def split: if_splits list.splits)
  note top = sort_key_last_max [OF run]
  have mem: "run \<in> set (vw_runs w)" using top(1) by simp
  let ?vid = "rn_verification_id run"
  have c: "run_consistent w run" and s: "snapshot_kept V w run" using inv mem by (auto simp: verification_inv_def)
  have rs: "run_revisions w ?vid \<noteq> []" "re_result (last (run_revisions w ?vid)) = ''PASSED''"
    using c gate(3) by (auto simp: run_consistent_def split: if_splits)
  let ?r = "last (run_revisions w ?vid)"
  have in_r: "?r \<in> set (vw_revisions w)" "re_verification_id ?r = ?vid"
    using last_in_set [OF rs(1)] by (auto simp: run_revisions_def)
  have "re_revision ?r = last [1..rn_current_revision run]"
    using c rs(1) last_map [of "run_revisions w ?vid" re_revision] by (simp add: run_consistent_def)
  moreover have "1 \<le> rn_current_revision run"
    using c rs(1) no_revisions [OF c] by (simp add: run_consistent_def)
  ultimately have n: "re_revision ?r = rn_current_revision run" by (simp add: upto_rec2)
  have "revision_justified V w ?r" using inv in_r by (simp add: verification_inv_def)
  then obtain x report where x: "x \<in> set (vw_runs w)" "rn_verification_id x = ?vid"
      "re_submitted_by ?r = rn_verifier x" "re_fingerprint ?r \<noteq> rn_implementer_fingerprint x"
    and report: "re_report ?r = ve_jsonb V report" "validate_verdict report (re_result ?r) = Inr ()"
    unfolding revision_justified_def in_r(2) by blast
  have d: "distinct (map rn_verification_id (vw_runs w))" using inv by (simp add: verification_inv_def)
  have load: "load_run w ?vid = Inr run" using load_run_member [OF d mem] .
  have "x = run" using load_run_unique [OF d load x(1,2)] .
  moreover have "verdict_valid report \<and> pass_justified report"
    using report(2) rs(2) by (auto simp: validate_verdict_def split: if_splits)
  moreover obtain snap where "load_snapshot w ?vid = Inr (ve_jsonb V snap, rn_snapshot_hash run)"
    "independence_from_snapshot snap = Inr ()"
    using s unfolding snapshot_kept_def by blast
  moreover have "rn_status run = PASSED" "rn_verifier run \<noteq> rn_implementer run"
    using c gate(3) by (auto simp: run_consistent_def)
  ultimately show ?thesis
    using gate load top rs x(3,4) report(1) n list_revisions_sorted [OF c]
    by (intro exI [of _ run] exI [of _ ?r] exI [of _ report] exI [of _ snap] exI [of _ ?vid]) auto
qed

theorem verified_targets_justified_witness:
  "\<exists>w gate run. require_verified w ''phase'' ''p1'' = Inr gate \<and> verification_steps trial_env trial_world w \<and>
     load_run w ''vr-1'' = Inr run \<and> rn_status run = PASSED \<and>
     re_submitted_by (last (list_revisions w ''vr-1'')) = ''u3''"
proof -
  obtain w where s: "verification_steps trial_env trial_world w"
    and w: "vw_runs w = [(trial_run RUNNING)\<lparr>rn_status := PASSED, rn_current_revision := 1, rn_result := Some ''PASSED''\<rparr>]"
    by (rule trial_passed)
  obtain gate where g: "require_verified w ''phase'' ''p1'' = Inr gate" "vg_verification_id gate = Some ''vr-1''"
    using w by (simp add: require_verified_def verification_gate_def)
  have l: "load_run w ''vr-1'' =
      Inr ((trial_run RUNNING)\<lparr>rn_status := PASSED, rn_current_revision := 1, rn_result := Some ''PASSED''\<rparr>)"
    using w by (simp add: load_run_def)
  show ?thesis using verified_targets_justified [OF trial_start s g(1)] g l s by auto
qed

text \<open>
  C30. In every reachable state the chain of verification revisions verifies without a problem, and the
  revisions of every run are numbered 1 to its current revision, the run showing the result of the
  last one.
\<close>

theorem revision_chain_verifies:
  assumes "no_runs w0" and "verification_steps V w0 w"
  shows "verify_table (ve_prims V) VERIFICATION_CHAIN (map revision_row (vw_revisions w)) = Inr [] \<and>
    (\<forall>run \<in> set (vw_runs w).
       map re_revision (list_revisions w (rn_verification_id run)) = [1..rn_current_revision run] \<and>
       rn_result run = (if rn_current_revision run = 0 then None
         else Some (re_result (last (list_revisions w (rn_verification_id run))))))"
proof
  have inv: "verification_inv V w" using verification_steps_inv [OF assms(2) no_runs_inv [OF assms(1)]] .
  let ?rows = "map revision_row (vw_revisions w)"
  have "map cr_id ?rows = map re_id (vw_revisions w)" by (simp add: revision_row_def)
  moreover have k: "sorted_wrt (<) (map re_id (vw_revisions w))"
    "rows_intact (ve_prims V) VERIFICATION_CHAIN None ?rows"
    using inv by (simp_all add: verification_inv_def chain_kept_def)
  ultimately have "sort_key cr_id ?rows = ?rows" using sort_key_asc by metis
  then show "verify_table (ve_prims V) VERIFICATION_CHAIN ?rows = Inr []"
    using k(2) by (simp add: verify_table_def verify_rows_intact)
  show "\<forall>run \<in> set (vw_runs w).
       map re_revision (list_revisions w (rn_verification_id run)) = [1..rn_current_revision run] \<and>
       rn_result run = (if rn_current_revision run = 0 then None
         else Some (re_result (last (list_revisions w (rn_verification_id run)))))"
  proof
    fix run assume "run \<in> set (vw_runs w)"
    then have c: "run_consistent w run" using inv by (simp add: verification_inv_def)
    show "map re_revision (list_revisions w (rn_verification_id run)) = [1..rn_current_revision run] \<and>
       rn_result run = (if rn_current_revision run = 0 then None
         else Some (re_result (last (list_revisions w (rn_verification_id run)))))"
      using c no_revisions [OF c] by (simp add: list_revisions_sorted [OF c] run_consistent_def)
  qed
qed

theorem revision_chain_verifies_witness:
  "\<exists>w. verification_steps trial_env trial_world w \<and> length (vw_revisions w) = 1 \<and>
     verify_table flat_prims VERIFICATION_CHAIN (map revision_row (vw_revisions w)) = Inr []"
proof -
  obtain w where w: "verification_steps trial_env trial_world w" "length (vw_revisions w) = 1" by (rule trial_passed)
  then show ?thesis using revision_chain_verifies [OF trial_start w(1)] by auto
qed

section \<open>Final runs\<close>

lemma load_run_map:
  assumes "\<And>x. rn_verification_id (f x) = rn_verification_id x"
  shows "load_run (w\<lparr>vw_runs := map f (vw_runs w)\<rparr>) vid = map_sum id f (load_run w vid)"
proof -
  have "List.find (\<lambda>r. rn_verification_id r = vid) (map f xs) =
      map_option f (List.find (\<lambda>r. rn_verification_id r = vid) xs)" for xs
    using assms by (induction xs) auto
  then show ?thesis by (simp add: load_run_def split: option.split)
qed

lemma load_run_update_other:
  assumes "\<And>x. rn_verification_id (f x) = rn_verification_id x" and "load_run w vid = Inr run" and "vid \<noteq> u"
  shows "load_run (update_run u f w) vid = Inr run"
proof -
  have "load_run (update_run u f w) vid =
      map_sum id (\<lambda>r. if rn_verification_id r = u then f r else r) (load_run w vid)"
    unfolding update_run_def using assms(1) by (intro load_run_map) auto
  then show ?thesis using assms(2,3) load_run_id [OF assms(2)] by simp
qed

lemma append_revision_result:
  assumes "append_revision P jsonb run result submitter fp report ev now w = Inr (w', r)"
  shows "\<exists>x f. vw_runs w' = vw_runs (update_run (rn_verification_id run) f w) \<and>
    (\<forall>y. rn_verification_id (f y) = rn_verification_id y) \<and>
    vw_revisions w' = vw_revisions w @ [x] \<and> re_verification_id x = rn_verification_id run"
proof -
  let ?f = "\<lambda>x. x\<lparr>rn_current_revision := re_revision r, rn_result := Some result,
            rn_status := get_default (rn_status x) (status_of_result (Some result))\<rparr>"
  obtain w1 w2 fs where new: "new_revision P w run result submitter fp report ev now = Inr r"
    and ins: "insert_revision jsonb r w = Inr w1" and fs: "fold_res insert_finding fs w1 = Inr w2"
    and w': "w' = update_run (rn_verification_id run) ?f w2"
    using assms by (auto simp: append_revision_def bind_res_eq_Inr)
  have same: "vw_runs w2 = vw_runs w1" "vw_revisions w2 = vw_revisions w1"
    using insert_findings_tables [OF fs] by (simp_all add: same_tables_def)
  let ?x = "r\<lparr>re_report := jsonb (re_report r)\<rparr>"
  have "vw_runs w' = vw_runs (update_run (rn_verification_id run) ?f w)" "vw_revisions w' = vw_revisions w @ [?x]"
    using same insert_revision_result [OF ins] by (simp_all add: w')
  then show ?thesis
    using new_revision_result(2) [OF new] by (intro exI [of _ ?x] exI [of _ ?f]) simp
qed

lemma final_run_step:
  assumes "verification_step V w w'" and "load_run w vid = Inr run" and "rn_status run \<in> set RUN_TERMINAL"
  shows "load_run w' vid = Inr run \<and> run_revisions w' vid = run_revisions w vid"
  using assms(1)
proof cases
  case (planned x s)
  then show ?thesis using assms(2) by (auto simp: load_run_def find_append run_revisions_def split: option.splits)
next
  case (moved u x op target)
  have "u \<noteq> vid"
  proof
    assume "u = vid"
    then have "x = run" using moved(1) assms(2) by simp
    then show False using next_status_facts(1,2) [OF moved(2)] assms(3) by (simp add: RUN_TERMINAL_def)
  qed
  then have "load_run (set_run_status u target w) vid = Inr run"
    unfolding set_run_status_def using assms(2) by (intro load_run_update_other) auto
  then show ?thesis
    using moved(3) load_run_same_tables [OF moved(3)] by (simp add: run_revisions_def same_tables_def set_run_status_def)
next
  case (judged u x submitter fp graph report result target w1 ev now w2 r)
  have x: "rn_verification_id x = u" using load_run_id [OF judged(1)] by simp
  have "u \<noteq> vid"
  proof
    assume "u = vid"
    then have "x = run" using judged(1) assms(2) by simp
    then show False using next_status_facts(1,2) [OF judged(4)] assms(3) by (simp add: RUN_TERMINAL_def)
  qed
  moreover obtain y f where a: "vw_runs w2 = vw_runs (update_run u f w1)" "\<forall>y. rn_verification_id (f y) = rn_verification_id y"
    "vw_revisions w2 = vw_revisions w1 @ [y]" "re_verification_id y = u"
    using append_revision_result [OF judged(6)] x by blast
  moreover have "load_run w1 vid = Inr run" using assms(2) load_run_same_tables [OF judged(5)] by simp
  ultimately have "load_run (update_run u f w1) vid = Inr run" by (intro load_run_update_other) auto
  then have "load_run w' vid = Inr run" using a(1) judged(7) by (simp add: load_run_def same_tables_def)
  then show ?thesis using a(3,4) judged(5,7) \<open>u \<noteq> vid\<close> by (simp add: run_revisions_def same_tables_def)
next
  case elsewhere
  then show ?thesis using assms(2) by (simp add: run_revisions_def same_tables_def load_run_def)
qed

lemma final_run_steps:
  assumes "verification_steps V w w'" and "load_run w vid = Inr run" and "rn_status run \<in> set RUN_TERMINAL"
  shows "load_run w' vid = Inr run \<and> run_revisions w' vid = run_revisions w vid"
  using assms(1)
proof (induction rule: rtranclp_induct)
  case (step y z)
  then show ?case using final_run_step [OF step.hyps(2), of vid run] assms(3) by simp
qed (simp add: assms(2))

text \<open>
  C32. A run that is PASSED or CANCELLED is final: whatever commands, sweeps and changes elsewhere follow,
  its row and its list of revisions stay as they are, and every further operation on it is refused
  with VERIFICATION_TERMINAL by the transition table.
\<close>

theorem final_runs_stay:
  assumes "load_run w vid = Inr run" and "rn_status run \<in> set RUN_TERMINAL" and "verification_steps V w w'"
  shows "load_run w' vid = Inr run \<and> list_revisions w' vid = list_revisions w vid \<and>
    (\<forall>op result. run_next_status (rn_status run) op result = Inl ''VERIFICATION_TERMINAL'')"
  using final_run_steps [OF assms(3,1,2)] assms(2)
  by (simp add: list_revisions_def run_revisions_def run_next_status_def)

theorem final_runs_stay_witness:
  "\<exists>w run. verification_steps trial_env trial_world w \<and> load_run w ''vr-1'' = Inr run \<and> rn_status run = PASSED \<and>
     run_next_status (rn_status run) CANCEL None = Inl ''VERIFICATION_TERMINAL''"
proof -
  obtain w where st: "verification_steps trial_env trial_world w"
    and w: "vw_runs w = [(trial_run RUNNING)\<lparr>rn_status := PASSED, rn_current_revision := 1, rn_result := Some ''PASSED''\<rparr>]"
    by (rule trial_passed)
  from w have l: "load_run w ''vr-1'' =
      Inr ((trial_run RUNNING)\<lparr>rn_status := PASSED, rn_current_revision := 1, rn_result := Some ''PASSED''\<rparr>)"
    by (simp add: load_run_def)
  from final_runs_stay [OF l, of trial_env w] show ?thesis using l st by (auto simp: RUN_TERMINAL_def)
qed

section \<open>Refused verdicts\<close>

lemma append_audit_grows: "append_audit P jsonb log x = Inr (log', i) \<Longrightarrow> log' \<noteq> log"
  by (auto simp: append_audit_def Let_def bind_res_eq_Inr dest: arg_cong [of _ _ "\<lambda>l. length (al_rows l)"])

text \<open>
  C31. A verdict submitted by the implementer of the run, by an account with the same effective principal,
  or under the implementer's credential is refused with SELF_VERIFICATION_FORBIDDEN, whatever report it
  carries; so is, with VERIFIER_MISMATCH, a verdict of any other account than the run's verifier. The
  refusal leaves exactly one row in the audit log and changes nothing else.
\<close>

theorem foreign_verdict_refused:
  assumes "load_run w vid = Inr run" and "rn_workspace run = cx_workspace_id (vx_base cx)"
    and "cx_idempotency_key (vx_base cx) \<noteq> []"
    and "graph = world_graph w (cx_workspace_id (vx_base cx))" and "me = cx_account_uuid (vx_base cx)"
    and "self \<longleftrightarrow> effective_principal me graph = effective_principal (rn_implementer run) graph \<or>
      vx_fingerprint cx = rn_implementer_fingerprint run"
    and "self \<or> me \<noteq> rn_verifier run"
    and "append_audit (ve_prims V) (ve_jsonb V) (vw_log w) (run_audit cx
      (if self then ''verification.self_submit_rejected'' else ''verification.submit_rejected'')
      ''verification_run'' vid ''REJECTED'' (Some (if self then ''SELF_VERIFICATION_FORBIDDEN'' else ''VERIFIER_MISMATCH''))
      [(''attempted_result'', JStr result)]) = Inr (log', i)"
  shows "run_verification V cx (SubmitVerdict vid result report) w =
    (w\<lparr>vw_log := log', vw_kept := log'\<rparr>,
     Inl (if self then ''SELF_VERIFICATION_FORBIDDEN'' else ''VERIFIER_MISMATCH''))"
proof -
  let ?code = "if self then ''SELF_VERIFICATION_FORBIDDEN'' else ''VERIFIER_MISMATCH''"
  let ?w = "w\<lparr>vw_kept := vw_log w\<rparr>"
  have run: "run_or_error cx ?w vid = Inr run"
    using assms(1,2) by (simp add: run_or_error_def load_run_def)
  have graph: "world_graph ?w (cx_workspace_id (vx_base cx)) = graph"
    using assms(4) by (simp add: world_graph_def)
  have sub: "check_submitter run me (vx_fingerprint cx) graph = Inl ?code"
    using assms(6,7) by (auto simp: check_submitter_def)
  have "submit_verdict V cx vid result report ?w = Inl (?code, w\<lparr>vw_log := log', vw_kept := log'\<rparr>)"
    using run graph sub assms(5,8) append_audit_grows [OF assms(8)]
    by (auto simp: submit_verdict_def independent_audit_def own_transaction_def audit_locked_def raise_in_def)
  then show ?thesis
    using assms(3) by (simp add: run_verification_def in_transaction_def execute_verification_def)
qed

theorem foreign_verdict_refused_witness:
  "\<exists>w'. run_verification trial_env (trial_context ''u2'' ''agent-b'' ''f9'' 5) (SubmitVerdict ''vr-1'' ''PASSED'' []) (trial_at RUNNING) =
     (w', Inl ''SELF_VERIFICATION_FORBIDDEN'') \<and> vw_runs w' = [trial_run RUNNING]"
proof -
  let ?cx = "trial_context ''u2'' ''agent-b'' ''f9'' 5"
  let ?x = "run_audit ?cx ''verification.self_submit_rejected'' ''verification_run'' ''vr-1'' ''REJECTED''
    (Some ''SELF_VERIFICATION_FORBIDDEN'') [(''attempted_result'', JStr ''PASSED'')]"
  obtain l i where "append_audit flat_prims (\<lambda>p. p) empty_log ?x = Inr (l, i)"
    using append_audit_total [of ?x flat_prims "\<lambda>p. p" empty_log] by (auto simp: run_audit_def)
  then show ?thesis
    using foreign_verdict_refused [of "trial_at RUNNING" "''vr-1''" "trial_run RUNNING" ?cx _ "''u2''" True trial_env "''PASSED''" l i "[]"]
    by (simp add: trial_env_def)
qed

section \<open>The selection of a Verifier\<close>

definition only_logs :: "'s verification_world \<Rightarrow> 's verification_world \<Rightarrow> bool" where
  "only_logs w w' \<longleftrightarrow> w' = w\<lparr>vw_log := vw_log w', vw_kept := vw_kept w'\<rparr>"

lemma only_logs_refl [simp]: "only_logs w w"
  by (simp add: only_logs_def)

lemma only_logs_trans: "only_logs u v \<Longrightarrow> only_logs v w \<Longrightarrow> only_logs u w"
  unfolding only_logs_def by (cases u; cases v; cases w) simp

lemma own_transaction_logs: "own_transaction w l = Inr w' \<Longrightarrow> only_logs w w'"
  by (auto simp: own_transaction_def only_logs_def split: if_splits)

lemma policy_allows_logs: "policy_allows V a c d i w = Inr (w', b) \<Longrightarrow> only_logs w w'"
  by (auto simp: policy_allows_def bind_res_eq_Inr split: option.splits dest: own_transaction_logs)

lemma consider_row_logs: "consider_row V q row w = Inr (w', c) \<Longrightarrow> only_logs w w'"
  by (auto simp: consider_row_def bind_res_eq_Inr Let_def split: if_splits prod.splits dest: policy_allows_logs)

lemma logs_columns:
  assumes "only_logs w w'"
  shows "row_admissible q w' row = row_admissible q w row" "row_fingerprint w' a = row_fingerprint w a"
    "load_of w' u = load_of w u" "human_required w' ws ch risk = human_required w ws ch risk"
    "channel_uuid w' ws ch = channel_uuid w ws ch"
proof -
  have "vw_tasks w' = vw_tasks w" "vw_db w' = vw_db w" "vw_aliases w' = vw_aliases w"
    "vw_credentials w' = vw_credentials w" "vw_channels w' = vw_channels w"
    using assms by (cases w; cases w'; simp add: only_logs_def)+
  then show f: "row_fingerprint w' a = row_fingerprint w a" and l: "load_of w' u = load_of w u"
    and h: "human_required w' ws ch risk = human_required w ws ch risk"
    and "channel_uuid w' ws ch = channel_uuid w ws ch" for a u ws ch risk
    by (simp_all add: row_fingerprint_def account_fingerprint_def load_of_def human_required_def channel_uuid_def
        find_channel_def)
  show "row_admissible q w' row = row_admissible q w row"
    using \<open>vw_db w' = vw_db w\<close> \<open>vw_aliases w' = vw_aliases w\<close>
    by (simp add: row_admissible_def f l h world_graph_def split: prod.split)
qed

text \<open>What the policy says of a row, asked with some state of the audit log.\<close>

definition policy_says ::
  "'s verification_env \<Rightarrow> verifier_query \<Rightarrow> 's verification_world \<Rightarrow> account_rec \<Rightarrow> bool \<Rightarrow> bool" where
  "policy_says V q w a answer \<longleftrightarrow> (\<exists>v v'. only_logs w v \<and>
     policy_allows V (ac_account_id a) (channel_uuid w (vq_workspace q) (vq_channel q)) (vq_domain q)
       (vq_correlation_id q) v = Inr (v', answer))"

text \<open>A candidate as the row and the outcome of the policy give it.\<close>

definition candidate_of ::
  "'s verification_env \<Rightarrow> verifier_query \<Rightarrow> 's verification_world \<Rightarrow> account_rec \<times> agent_row option \<Rightarrow> verifier_candidate \<Rightarrow> bool" where
  "candidate_of V q w row c \<longleftrightarrow> row_admissible q w row \<and> policy_says V q w (fst row) True \<and>
     ca_account_uuid c = ac_uuid (fst row) \<and> ca_account_id c = ac_account_id (fst row) \<and>
     ca_agent_id c = map_option ag_agent_id (snd row) \<and> ca_fingerprint c = row_fingerprint w (fst row) \<and>
     ca_load c = load_of w (ac_uuid (fst row)) \<and>
     ca_score c = (if ca_domain_match c then 2 else 0) + (if ca_load c = 0 then 1 else 0) +
       (if human_required w (vq_workspace q) (vq_channel q) (vq_risk q) then 1 else 0)"

lemma consider_row_spec:
  assumes "consider_row V q row w = Inr (w', c)"
  shows "case c of
      None \<Rightarrow> row_admissible q w row \<longrightarrow> policy_says V q w (fst row) False
    | Some c \<Rightarrow> candidate_of V q w row c"
proof (cases "row_admissible q w row")
  case False
  then show ?thesis using assms by (auto simp: consider_row_def)
next
  case True
  obtain a g where row: "row = (a, g)" by (cases row)
  then obtain w1 allowed where p: "policy_allows V (ac_account_id a) (channel_uuid w (vq_workspace q) (vq_channel q))
      (vq_domain q) (vq_correlation_id q) w = Inr (w1, allowed)"
    using assms True by (auto simp: consider_row_def bind_res_eq_Inr)
  then have s: "policy_says V q w a allowed" unfolding policy_says_def using only_logs_refl by blast
  show ?thesis
    using assms True row p s by (cases allowed) (auto simp: consider_row_def bind_res_eq_Inr Let_def candidate_of_def)
qed

lemma candidate_of_logs:
  assumes "only_logs w v"
  shows "candidate_of V q v row c \<Longrightarrow> candidate_of V q w row c" and "policy_says V q v a b \<Longrightarrow> policy_says V q w a b"
proof -
  show s: "policy_says V q v a b \<Longrightarrow> policy_says V q w a b" for a b
    using only_logs_trans [OF assms] unfolding policy_says_def logs_columns(5) [OF assms] by blast
  show "candidate_of V q v row c \<Longrightarrow> candidate_of V q w row c"
    using s unfolding candidate_of_def logs_columns [OF assms] by blast
qed

lemma consider_rows_spec:
  assumes "consider_rows V q rows w = Inr (w', cs)"
  shows "(\<forall>c \<in> set cs. \<exists>row \<in> set rows. candidate_of V q w row c) \<and>
    (\<forall>row \<in> set rows. row_admissible q w row \<longrightarrow>
       (\<exists>c \<in> set cs. candidate_of V q w row c) \<or> policy_says V q w (fst row) False)"
  using assms
proof (induction rows arbitrary: w cs)
  case (Cons row rows)
  obtain w1 c cs1 where c: "consider_row V q row w = Inr (w1, c)" and r: "consider_rows V q rows w1 = Inr (w', cs1)"
    and cs: "cs = (case c of None \<Rightarrow> cs1 | Some c \<Rightarrow> c # cs1)"
    using Cons.prems by (auto simp: bind_res_eq_Inr)
  have l: "only_logs w w1" using consider_row_logs [OF c] .
  have sub: "set cs1 \<subseteq> set cs" "c = Some x \<Longrightarrow> x \<in> set cs" for x using cs by (auto split: option.splits)
  note spec = consider_row_spec [OF c]
  note IH = Cons.IH [OF r, unfolded logs_columns(1) [OF l]]
  have "\<exists>row' \<in> set (row # rows). candidate_of V q w row' x" if "x \<in> set cs" for x
  proof (cases "c = Some x")
    case True
    then show ?thesis using spec by auto
  next
    case False
    then have "x \<in> set cs1" using that cs by (auto split: option.splits)
    then obtain row' where "row' \<in> set rows" "candidate_of V q w1 row' x" using IH by blast
    then show ?thesis using candidate_of_logs(1) [OF l] by (intro bexI [of _ row']) simp_all
  qed
  moreover have "(\<exists>x \<in> set cs. candidate_of V q w row' x) \<or> policy_says V q w (fst row') False"
    if "row' \<in> set (row # rows)" "row_admissible q w row'" for row'
  proof (cases "row' = row")
    case True
    then show ?thesis using spec that(2) sub(2) by (cases c) auto
  next
    case False
    then have "row' \<in> set rows" using that(1) by simp
    then show ?thesis using IH that(2) candidate_of_logs [OF l] sub(1) by blast
  qed
  ultimately show ?case by blast
qed simp



section \<open>The offer sweep\<close>

definition due_offer_ids :: "verification_context \<Rightarrow> 's verification_world \<Rightarrow> int set" where
  "due_offer_ids cx w = of_id ` {x \<in> set (vw_offers w). offer_due (cx_workspace_id (vx_base cx)) (vx_now cx) x}"

lemma due_offer_ids_same: "vw_offers w' = vw_offers w \<Longrightarrow> due_offer_ids cx w' = due_offer_ids cx w"
  by (simp add: due_offer_ids_def)

lemma due_offer_ids_context [simp]: "due_offer_ids (sweep_context cx key) w = due_offer_ids cx w"
  by (simp add: due_offer_ids_def sweep_context_def)

lemma due_offer_ids_map:
  assumes "\<And>x. offer_due (cx_workspace_id (vx_base cx)) (vx_now cx) (f x) \<Longrightarrow> f x = x \<and> of_id x \<notin> I"
  shows "due_offer_ids cx (w\<lparr>vw_offers := map f (vw_offers w)\<rparr>) \<subseteq> due_offer_ids cx w - I"
  using assms by (fastforce simp: due_offer_ids_def)

lemma set_offer_due:
  assumes "s \<noteq> ''offered''"
  shows "due_offer_ids cx (set_offer i s t w) \<subseteq> due_offer_ids cx w - {i}"
    and "due_offer_ids cx (set_offers_of_task k s t w) \<subseteq> due_offer_ids cx w"
proof -
  show "due_offer_ids cx (set_offer i s t w) \<subseteq> due_offer_ids cx w - {i}"
    unfolding set_offer_def by (rule due_offer_ids_map) (use assms in \<open>simp add: offer_due_def split: if_splits\<close>)
  have "due_offer_ids cx (set_offers_of_task k s t w) \<subseteq> due_offer_ids cx w - {}"
    unfolding set_offers_of_task_def
    by (rule due_offer_ids_map) (use assms in \<open>simp add: offer_due_def split: if_splits\<close>)
  then show "due_offer_ids cx (set_offers_of_task k s t w) \<subseteq> due_offer_ids cx w" by simp
qed

lemma insert_offer_due: "due_offer_ids cx (insert_offer (new_offer cx run c i w) w) \<subseteq> due_offer_ids cx w"
  by (auto simp: due_offer_ids_def insert_offer_def new_offer_def offer_due_def ACCEPT_TIMEOUT_def minutes_def
      seconds_def)

lemma untouched_due: "untouched w w' \<Longrightarrow> due_offer_ids cx w' = due_offer_ids cx w"
  by (simp add: untouched_def due_offer_ids_def)

lemma simple_move_offers:
  assumes "simple_move V cx vid op permission scope party payload w = Inr (w', r)"
  shows "vw_offers w' = vw_offers w"
proof -
  obtain w1 where w1: "need_permission V cx permission None w = Inr w1"
    and rest: "w' = w1 \<or> (\<exists>target x. session_audit V x (set_run_status vid target w1) = Inr w')"
    using assms by (auto simp: simple_move_def bind_res_eq_Inr split: if_split_asm option.split_asm)
  have "vw_offers w1 = vw_offers w" using need_permission_untouched [OF w1] by (simp add: untouched_def)
  then show ?thesis
    using rest session_audit_untouched by (fastforce simp: untouched_def set_run_status_def update_run_def)
qed

lemma insert_and_announce_due:
  assumes "hooks_keep_tables V" and "insert_and_announce V cx f candidate i v w = Inr (w', r)"
  shows "due_offer_ids cx w' \<subseteq> due_offer_ids cx w"
proof (rule insert_and_announce_result [OF assms(2)])
  fix run w1 w2 r1 t p s
  assume ins: "insert_run V run (run_snapshot cx f i v w) w = Inr w1"
    and ev: "run_event V cx run t p s w1 = Inr (w2, r1)"
    and offer: "w' = w2 \<or> (\<exists>c. record_offer V cx run c w2 = Inr w')"
  have "due_offer_ids cx w1 = due_offer_ids cx w"
    using ins by (intro due_offer_ids_same) (auto simp: insert_run_def bind_res_eq_Inr split: if_split_asm)
  moreover have "due_offer_ids cx w2 = due_offer_ids cx w1" using untouched_due [OF run_event_untouched [OF ev]] .
  moreover have "due_offer_ids cx w' \<subseteq> due_offer_ids cx w2"
    using offer record_offer_result [OF assms(1)] insert_offer_due untouched_due by (metis order_refl)
  ultimately show ?thesis by simp
qed

lemma create_due:
  assumes "hooks_keep_tables V" and "execute_verification V cx (CreateVerificationRun f) w = Inr (w', r)"
  shows "due_offer_ids cx w' \<subseteq> due_offer_ids cx w"
proof -
  have "create_verification_run V cx f w = Inr (w', r)"
    using assms(2) by (simp add: execute_verification_def split: if_splits)
  then show ?thesis
  proof (rule create_result)
    fix w2 f' c assume w2: "untouched w w2" and c: "create_for V cx f' c w2 = Inr (w', r)"
    have "due_offer_ids cx w' \<subseteq> due_offer_ids cx w2"
      by (rule create_for_result [OF c]) (use insert_and_announce_due [OF assms(1)] in blast)
    then show ?thesis using untouched_due [OF w2] by simp
  qed
qed

lemma give_up_due:
  assumes "give_up V cx run x w = Inr w'"
  shows "due_offer_ids cx w' \<subseteq> due_offer_ids cx w"
proof -
  obtain w1 where e: "exhausted_event V cx run (of_task_id x) w = Inr w1"
    and t: "wait_for_verifier V (sweep_context cx (''vr-exhausted:'' @ of_task_id x)) (of_task_id x)
      (set_offers_of_task (of_task_id x) ''exhausted'' (vx_now cx)
        (set_offer (of_id x) ''exhausted'' (vx_now cx) w1)) = Inr w'"
    using assms by (auto simp: give_up_def bind_res_eq_Inr)
  have "due_offer_ids cx w' \<subseteq> due_offer_ids cx (set_offer (of_id x) ''exhausted'' (vx_now cx) w1)"
    using untouched_due [OF wait_untouched [OF t]] set_offer_due(2) [of "''exhausted''"] by simp
  then show ?thesis
    using set_offer_due(1) [of "''exhausted''" cx "of_id x" "vx_now cx" w1] untouched_due [OF exhausted_event_untouched [OF e]]
    by auto
qed

lemma replace_verifier_due:
  assumes "hooks_keep_tables V" and "replace_verifier V cx run x w = Inr (w', out)"
  shows "due_offer_ids cx w' \<subseteq> due_offer_ids cx w"
proof -
  let ?cmd = "CreateVerificationRun (next_run_fields w run)"
  let ?cx = "sweep_context cx (''vr-next:'' @ of_task_id x @ '':'' @ int_str (next_rank w (of_task_id x)))"
  show ?thesis
  proof (cases "execute_verification V ?cx ?cmd w")
    case (Inl ew)
    obtain e w1 where ew: "ew = (e, w1)" by (cases ew)
    then have "give_up V cx run x w1 = Inr w'"
      using assms(2) Inl by (auto simp: replace_verifier_def Let_def bind_res_eq_Inr split: if_split_asm)
    moreover have "untouched w w1" using create_Inl Inl ew by blast
    ultimately show ?thesis using give_up_due untouched_due by metis
  next
    case (Inr y)
    then have "execute_verification V ?cx ?cmd w = Inr (w', snd y)"
      using assms(2) by (cases y) (auto simp: replace_verifier_def Let_def)
    from create_due [OF assms(1) this] show ?thesis by simp
  qed
qed

lemma sweep_offer_due:
  assumes "hooks_keep_tables V" and "sweep_offer V cx x w = Inr (w', out)"
  shows "due_offer_ids cx w' \<subseteq> due_offer_ids cx w - {of_id x}"
proof -
  obtain run where run: "load_run w (of_verification_id x) = Inr run"
    using assms(2) by (auto simp: sweep_offer_def bind_res_eq_Inr)
  show ?thesis
  proof (cases "accepted_status (rn_status run)")
    case True
    then have "w' = set_offer (of_id x) ''accepted'' (vx_now cx) w"
      using assms(2) run by (simp add: sweep_offer_def Let_def)
    then show ?thesis using set_offer_due(1) [of "''accepted''" cx "of_id x" "vx_now cx" w] by simp
  next
    case False
    let ?w1 = "set_offer (of_id x) ''timed_out'' (vx_now cx) w"
    obtain w2 w3 r where w2: "release_item V cx (of_work_item x) ?w1 = Inr w2"
      and w3: "execute_verification V (sweep_context cx (''vr-timeout:'' @ rn_verification_id run))
        (CancelVerification (rn_verification_id run) ''VERIFIER_ACCEPT_TIMEOUT'') w2 = Inr (w3, r)"
      and w': "replace_verifier V cx run x w3 = Inr (w', out)"
      using assms(2) run False by (auto simp: sweep_offer_def Let_def bind_res_eq_Inr)
    have "vw_offers w3 = vw_offers w2"
      using w3 by (auto simp: execute_verification_def cancel_verification_def split: if_split_asm dest: simple_move_offers)
    then have "due_offer_ids cx w3 = due_offer_ids cx ?w1"
      using untouched_due [OF release_item_untouched [OF assms(1) w2]] due_offer_ids_same by metis
    then show ?thesis
      using replace_verifier_due [OF assms(1) w'] set_offer_due(1) [of "''timed_out''" cx "of_id x" "vx_now cx" w] by auto
  qed
qed

lemma sweep_offers_due:
  assumes "hooks_keep_tables V" and "sweep_offers V cx xs w = Inr (w', outs)"
  shows "due_offer_ids cx w' \<subseteq> due_offer_ids cx w - of_id ` set xs \<and> length outs = length xs"
  using assms(2)
proof (induction xs arbitrary: w outs)
  case (Cons x xs)
  then obtain w1 o1 os where "sweep_offer V cx x w = Inr (w1, o1)" "sweep_offers V cx xs w1 = Inr (w', os)" "outs = o1 # os"
    by (auto simp: bind_res_eq_Inr)
  then show ?case using Cons.IH [of w1 os] sweep_offer_due [OF assms(1), of cx x w w1 o1] by auto
qed simp

text \<open>
  C34. When the sweep returns, it has settled every offer of the workspace whose time to accept is over,
  with one outcome for each, and no overdue offer is left; the offers it made meanwhile are open for
  ten more minutes.
\<close>

theorem sweep_settles_offers:
  assumes "hooks_keep_tables V" and "sweep_timeouts V cx w = Inr (w', outs)"
  shows "due_offers cx w' = [] \<and> length outs = length (due_offers cx w)"
proof -
  have s: "sweep_offers V cx (due_offers cx w) w = Inr (w', outs)" using assms(2) by (simp add: sweep_timeouts_def)
  have "due_offer_ids cx w = of_id ` set (due_offers cx w)" by (simp add: due_offer_ids_def due_offers_def)
  then have "due_offer_ids cx w' = {}" using sweep_offers_due [OF assms(1) s] by auto
  then have "filter (offer_due (cx_workspace_id (vx_base cx)) (vx_now cx)) (vw_offers w') = []"
    by (auto simp: due_offer_ids_def filter_empty_conv)
  then show ?thesis using sweep_offers_due [OF assms(1) s] by (simp add: due_offers_def)
qed

theorem sweep_settles_offers_witness:
  "\<exists>w' out. due_offers (trial_context ''u1'' ''human-a'' ''f1'' ACCEPT_TIMEOUT) ((trial_at RUNNING)\<lparr>vw_offers := [trial_offer]\<rparr>) = [trial_offer] \<and>
     sweep_timeouts trial_env (trial_context ''u1'' ''human-a'' ''f1'' ACCEPT_TIMEOUT) ((trial_at RUNNING)\<lparr>vw_offers := [trial_offer]\<rparr>) =
       Inr (w', [out]) \<and> to_code out = ACCEPTED \<and> due_offers (trial_context ''u1'' ''human-a'' ''f1'' ACCEPT_TIMEOUT) w' = []"
proof -
  let ?cx = "trial_context ''u1'' ''human-a'' ''f1'' ACCEPT_TIMEOUT" and ?w = "(trial_at RUNNING)\<lparr>vw_offers := [trial_offer]\<rparr>"
  have due: "due_offers ?cx ?w = [trial_offer]" by (simp add: due_offers_def offer_due_def trial_offer_def)
  have "load_run ?w ''vr-1'' = Inr (trial_run RUNNING)" by (simp add: load_run_def)
  then obtain w' out where s: "sweep_timeouts trial_env ?cx ?w = Inr (w', [out])" "to_code out = ACCEPTED"
    by (simp add: sweep_timeouts_def due sweep_offer_def accepted_status_def) (simp add: trial_offer_def)
  show ?thesis using sweep_settles_offers [OF trial_hooks s(1)] s due by blast
qed

subsection \<open>What stops the sweep\<close>

lemma run_replay_flag: "run_replay V cx w vid scope = Inr (Some a) \<Longrightarrow> res_replayed a"
  by (auto simp: run_replay_def bind_res_eq_Inr result_of_event_def)

lemma simple_move_fresh:
  assumes "simple_move V cx vid op permission scope party payload w = Inr (w', r)" and "\<not> rs_replayed r"
  obtains run w1 target x where "run_or_error cx w vid = Inr run" and "need_permission V cx permission None w = Inr w1"
    and "run_replay V cx w1 vid scope = Inr None"
    and "run_next_status (rn_status run) op None = Inr target"
    and "session_audit V x (set_run_status vid target w1) = Inr w'"
proof -
  obtain run w1 replay where run: "run_or_error cx w vid = Inr run" and w1: "need_permission V cx permission None w = Inr w1"
    and rp: "run_replay V cx w1 vid scope = Inr replay"
    using assms(1) by (auto simp: simple_move_def bind_res_eq_Inr split: if_split_asm)
  have party: "\<not> (party = VerifierOnly \<and> cx_account_uuid (vx_base cx) \<noteq> rn_verifier run)"
    "\<not> (party = ImplementerOnly \<and> cx_account_uuid (vx_base cx) \<noteq> rn_implementer run)"
    using assms(1) run by (auto simp: simple_move_def split: if_split_asm)
  have none: "replay = None"
  proof (rule ccontr)
    assume "replay \<noteq> None"
    then obtain a where a: "replay = Some a" by blast
    then have "r = run_result_of a vid (run_status_value (rn_status run)) []"
      using assms(1) run w1 rp party by (simp add: simple_move_def)
    then show False using assms(2) run_replay_flag [of V cx w1 vid scope a] rp a by (simp add: run_result_of_def)
  qed
  show thesis
    using assms(1) run w1 rp none party that by (auto simp: simple_move_def bind_res_eq_Inr)
qed

lemma cancel_moves:
  assumes "execute_verification V cx (CancelVerification vid reason) w = Inr (w', r)" and "\<not> rs_replayed r"
  shows "\<exists>run. load_run w' vid = Inr run \<and> rn_status run = CANCELLED" and "vw_offers w' = vw_offers w"
proof -
  have m: "simple_move V cx vid CANCEL ''verification.assign'' ''verification_run:cancel'' Anyone
      [(''reason_code'', JStr reason)] w = Inr (w', r)"
    using assms(1) by (simp add: execute_verification_def cancel_verification_def split: if_splits)
  then show "vw_offers w' = vw_offers w" by (rule simple_move_offers)
  obtain run w1 target x where run: "run_or_error cx w vid = Inr run"
    and w1: "need_permission V cx ''verification.assign'' None w = Inr w1"
    and t: "run_next_status (rn_status run) CANCEL None = Inr target"
    and a: "session_audit V x (set_run_status vid target w1) = Inr w'"
    using simple_move_fresh [OF m assms(2)] by metis
  have target: "target = CANCELLED"
    using t by (cases "rn_status run") (simp_all add: run_next_status_def RUN_TERMINAL_def RUN_TRANSITIONS_def)
  have "load_run w1 vid = Inr run"
    using run_or_error_load [OF run] load_run_same_tables [OF untouched_tables [OF need_permission_untouched [OF w1]]] by simp
  then have "load_run (set_run_status vid target w1) vid = Inr (run\<lparr>rn_status := target\<rparr>)"
    using load_run_map [of "\<lambda>r. if rn_verification_id r = vid then r\<lparr>rn_status := target\<rparr> else r" w1 vid] load_run_id
    by (auto simp: set_run_status_def update_run_def)
  then show "\<exists>run. load_run w' vid = Inr run \<and> rn_status run = CANCELLED"
    using load_run_same_tables [OF untouched_tables [OF session_audit_untouched [OF a]]] target by auto
qed

lemma cancel_of_final_run:
  assumes "load_run w vid = Inr run" and "rn_status run \<in> set RUN_TERMINAL"
    and "run_replay V cx w vid ''verification_run:cancel'' = Inr None"
  shows "execute_verification V cx (CancelVerification vid reason) w \<noteq> Inr y"
proof
  assume "execute_verification V cx (CancelVerification vid reason) w = Inr y"
  then have m: "simple_move V cx vid CANCEL ''verification.assign'' ''verification_run:cancel'' Anyone
      [(''reason_code'', JStr reason)] w = Inr y"
    by (simp add: execute_verification_def cancel_verification_def split: if_splits)
  have r: "run_or_error cx w vid = Inr x \<Longrightarrow> x = run" for x
    using run_or_error_load [of cx w vid x] assms(1) by simp
  have same: "run_replay V cx w1 vid s = run_replay V cx w vid s" if "need_permission V cx p a w = Inr w1" for w1 p a s
    using that by (auto simp: need_permission_def bind_res_eq_Inr own_transaction_def run_replay_def run_stream_def
        split: prod.splits if_splits)
  show False
    using m assms(2,3) same by (auto simp: simple_move_def bind_res_eq_Inr run_next_status_def split: if_split_asm option.split_asm dest!: r)
qed

text \<open>
  Cancelling a run leaves the offer to its Verifier open. From the moment its time to accept is over,
  a sweep that comes to this offer raises: the transaction is rolled back with all tables and offers
  as they were, the offer is due again for the next sweep, and no later offer of the workspace is
  settled. The premises name a human Verifier (an offer without work item) and a Task stream without
  an Event under the key of the sweep, which only a cancellation by the sweep could have written.
\<close>

theorem cancelled_run_stops_sweep:
  assumes "run_verification V cx (CancelVerification vid reason) w = (w', Inr r)" and "\<not> rs_replayed r"
    and "due_offers sweeper w = x # xs" and "of_verification_id x = vid" and "of_work_item x = None"
    and "run_replay V (sweep_context sweeper (''vr-timeout:'' @ vid)) w' vid ''verification_run:cancel'' = Inr None"
  shows "\<exists>e w''. in_transaction (sweep_timeouts V sweeper) w' = (w'', Inl e) \<and> untouched w' w'' \<and>
    due_offers sweeper w'' = x # xs"
proof -
  obtain w1 where c: "execute_verification V cx (CancelVerification vid reason) (w\<lparr>vw_kept := vw_log w\<rparr>) = Inr (w1, r)"
    and w': "w' = w1\<lparr>vw_kept := vw_log w1\<rparr>"
    using assms(1) by (auto simp: run_verification_def in_transaction_def split: sum.splits)
  have off: "vw_offers w' = vw_offers w" using cancel_moves(2) [OF c assms(2)] by (simp add: w')
  obtain run where run: "load_run w1 vid = Inr run" "rn_status run = CANCELLED"
    using cancel_moves(1) [OF c assms(2)] by blast
  let ?w = "w'\<lparr>vw_kept := vw_log w'\<rparr>"
  let ?v = "set_offer (of_id x) ''timed_out'' (vx_now sweeper) ?w"
  have vid: "rn_verification_id run = vid" using load_run_id [OF run(1)] by simp
  have l: "load_run ?w vid = Inr run" "load_run ?v vid = Inr run"
    using run(1) by (simp_all add: w' load_run_def set_offer_def)
  have "run_replay V (sweep_context sweeper (''vr-timeout:'' @ vid)) ?v vid ''verification_run:cancel'' = Inr None"
    using assms(6) by (simp add: run_replay_def run_stream_def set_offer_def)
  then have no: "execute_verification V (sweep_context sweeper (''vr-timeout:'' @ vid))
      (CancelVerification vid ''VERIFIER_ACCEPT_TIMEOUT'') ?v \<noteq> Inr y" for y
    using l(2) run(2) by (intro cancel_of_final_run) (auto simp: RUN_TERMINAL_def)
  have due: "due_offers sweeper u = x # xs" if "vw_offers u = vw_offers w" for u :: "'a verification_world"
    using assms(3) that by (simp add: due_offers_def)
  have "sweep_timeouts V sweeper ?w \<noteq> Inr y" for y
    using no l(1) vid run(2) assms(4,5) due [of ?w] off
    by (auto simp: sweep_timeouts_def sweep_offer_def release_item_def Let_def bind_res_eq_Inr accepted_status_def)
  then obtain e v where "sweep_timeouts V sweeper ?w = Inl (e, v)" by (metis old.sum.exhaust surj_pair)
  then show ?thesis using off due by (auto simp: in_transaction_def intro!: due)
qed

theorem cancelled_run_stops_sweep_example:
  "\<exists>w' w'' e. fst (run_verification trial_env (trial_context ''u1'' ''human-a'' ''f1'' 5) (CancelVerification ''vr-1'' ''R'')
       ((trial_at PLANNED)\<lparr>vw_offers := [trial_offer]\<rparr>)) = w' \<and>
     in_transaction (sweep_timeouts trial_env (trial_context ''u1'' ''human-a'' ''f1'' ACCEPT_TIMEOUT)) w' = (w'', Inl e) \<and>
     due_offers (trial_context ''u1'' ''human-a'' ''f1'' ACCEPT_TIMEOUT) w'' = [trial_offer]"
proof -
  let ?cx = "trial_context ''u1'' ''human-a'' ''f1'' ACCEPT_TIMEOUT" and ?w = "(trial_at PLANNED)\<lparr>vw_offers := [trial_offer]\<rparr>"
  have due: "due_offers ?cx ?w = [trial_offer]" by (simp add: due_offers_def offer_due_def trial_offer_def)
  obtain w' r where c: "run_verification trial_env (trial_context ''u1'' ''human-a'' ''f1'' 5) (CancelVerification ''vr-1'' ''R'') ?w = (w', Inr r)"
      "\<not> rs_replayed r" "vw_tasks w' = vw_tasks ?w"
    using trial_cancelled [OF refl refl] by metis
  have "run_replay trial_env (sweep_context ?cx k) w' ''vr-1'' s = Inr None" for k s
    using c(3) by (simp add: run_replay_def run_stream_def sweep_context_def empty_world_def mem_stream_def empty_store_def)
  then show ?thesis
    using cancelled_run_stops_sweep [OF c(1,2) due] c(1) by (auto simp: trial_offer_def)
qed

text \<open>
  The sweep audits a cancellation in its own transaction and then asks the policy about the next
  candidates. A denial is audited in another transaction, which waits for the lock of the first.
\<close>

lemma sweep_waits_for_itself:
  assumes "vw_kept w = vw_log w"
    and "execute_verification V cx (CancelVerification vid reason) w = Inr (w', r)" and "\<not> rs_replayed r"
    and "ve_authorizer V = Some A" and "row_admissible q w' (a, g)"
    and "authorize A (vw_db w') (vw_log w') (ac_account_id a)
      \<lparr>az_permission = ''verification.submit'', az_action = None, az_domain = vq_domain q,
       az_channel_id = channel_uuid w' (vq_workspace q) (vq_channel q), az_resource = None, az_side_effect = False,
       az_required_capability = None, az_correlation_id = vq_correlation_id q,
       az_target_type = ''routing'', az_target_id = ac_account_id a\<rparr> = Inr (log', denied)"
    and "log' \<noteq> vw_log w'"
  shows "consider_row V q (a, g) w' = Inl (''AUDIT_LOCK_WAIT'', w')"
proof -
  have "simple_move V cx vid CANCEL ''verification.assign'' ''verification_run:cancel'' Anyone
      [(''reason_code'', JStr reason)] w = Inr (w', r)"
    using assms(2) by (simp add: execute_verification_def cancel_verification_def split: if_splits)
  from simple_move_fresh [OF this assms(3)]
  obtain w1 x target where w1: "need_permission V cx ''verification.assign'' None w = Inr w1"
    and au: "session_audit V x (set_run_status vid target w1) = Inr w'" by metis
  have "own_transaction w l = Inr w1 \<Longrightarrow> vw_kept w1 = vw_log w1" for l
    using assms(1) by (auto simp: own_transaction_def split: if_splits)
  then have k: "vw_kept w1 = vw_log w1" using w1 by (auto simp: need_permission_def bind_res_eq_Inr split: prod.splits)
  obtain log'' i where ap: "append_audit (ve_prims V) (ve_jsonb V) (vw_log w1) x = Inr (log'', i)"
    "w' = (set_run_status vid target w1)\<lparr>vw_log := log''\<rparr>"
    using au by (auto simp: session_audit_def bind_res_eq_Inr set_run_status_def update_run_def)
  then have "audit_locked w'"
    using k append_audit_grows [OF ap(1)] by (simp add: audit_locked_def set_run_status_def update_run_def)
  then show ?thesis
    using assms(4-7) by (auto simp: consider_row_def policy_allows_def own_transaction_def raise_in_def)
qed

section \<open>Retries and records\<close>

text \<open>
  A move writes no Event of its own, so a retry with the same idempotency key finds nothing to
  replay and is refused by the transition table.
\<close>

lemma moved_once:
  assumes "run_next_status s op None = Inr t"
  shows "\<exists>e. run_next_status t op None = Inl e"
  using assms by (cases s; cases op) (auto simp: run_next_status_def RUN_TERMINAL_def RUN_TRANSITIONS_def status_of_result_def)

lemma need_permission_tasks: "need_permission V cx p a w = Inr w' \<Longrightarrow> vw_tasks w' = vw_tasks w"
  by (auto simp: need_permission_def bind_res_eq_Inr own_transaction_def split: prod.splits if_splits)

lemma run_replay_tasks: "vw_tasks w' = vw_tasks w \<Longrightarrow> run_replay V cx w' vid scope = run_replay V cx w vid scope"
  by (simp add: run_replay_def run_stream_def)

lemma moves_not_replayed:
  assumes "simple_move V cx vid op permission scope party payload w = Inr (w', r)" and "\<not> rs_replayed r"
    and w'': "vw_runs w'' = vw_runs w'" "vw_tasks w'' = vw_tasks w'"
  shows "simple_move V cx vid op permission scope party payload w'' \<noteq> Inr y"
proof
  assume again: "simple_move V cx vid op permission scope party payload w'' = Inr y"
  obtain run w1 target x where run: "run_or_error cx w vid = Inr run" and w1: "need_permission V cx permission None w = Inr w1"
    and rp: "run_replay V cx w1 vid scope = Inr None" and t: "run_next_status (rn_status run) op None = Inr target"
    and au: "session_audit V x (set_run_status vid target w1) = Inr w'"
    by (rule simple_move_fresh [OF assms(1,2)])
  have same: "vw_runs w1 = vw_runs w" "vw_tasks w1 = vw_tasks w" "vw_tasks w' = vw_tasks w1"
    using need_permission_untouched [OF w1] need_permission_tasks [OF w1] au
    by (auto simp: untouched_def same_tables_def session_audit_def bind_res_eq_Inr set_run_status_def update_run_def)
  have "vw_runs w'' = vw_runs (set_run_status vid target w1)"
    using w''(1) session_audit_untouched [OF au] by (simp add: untouched_def same_tables_def)
  then have "load_run w'' vid = load_run (set_run_status vid target w1) vid" by (simp add: load_run_def)
  moreover have "load_run w1 vid = Inr run" using run_or_error_load [OF run] same(1) by (simp add: load_run_def)
  ultimately have l: "load_run w'' vid = Inr (run\<lparr>rn_status := target\<rparr>)"
    using load_run_map [of "\<lambda>r. if rn_verification_id r = vid then r\<lparr>rn_status := target\<rparr> else r" w1 vid] load_run_id
    by (auto simp: set_run_status_def update_run_def)
  obtain v where v: "run_or_error cx w'' vid = Inr v" using again by (auto simp: simple_move_def bind_res_eq_Inr)
  then have v': "rn_status v = target" using run_or_error_load [OF v] l by auto
  have none: "run_replay V cx u vid scope = Inr None" if "need_permission V cx permission None w'' = Inr u" for u
    using rp w''(2) same(3) need_permission_tasks [OF that] run_replay_tasks [of u w1] by simp
  obtain e where "run_next_status target op None = Inl e" using moved_once [OF t] by blast
  then show False
    using again v v' none by (auto simp: simple_move_def bind_res_eq_Inr split: if_split_asm option.split_asm)
qed

text \<open>
  The Verifier of a Task needs a permission it is not asked for: the start of its run enters the Task
  handler, which requires \<^verbatim>\<open>verification.assign\<close>.
\<close>

lemma start_needs_assign_permission:
  assumes "simple_move V cx vid START ''verification.submit'' ''verification_run:start'' VerifierOnly [] w = Inr (w1, r)"
    and "\<not> rs_replayed r" and "load_run w1 vid = Inr run" and "task_target run" and "rn_task_id run = Some tid"
    and "load_task (ve_store V) (cx_workspace_id (vx_base cx)) (wd_store (vw_tasks w1)) tid = Inr st"
    and "ts_status st = IMPLEMENTED"
    and "\<forall>channel domain. te_require (ve_tasks V) ''verification.assign'' channel domain = Inl code"
  shows "start_verification_run V cx vid w = Inl (code, w1)"
  using assms by (simp add: start_verification_run_def enter_task_verifying_def task_target_def
      Task_Commands.start_verification_def simple_task_def Let_def)

text \<open>The audit row of a choice that found a Verifier says that there was no candidate.\<close>

lemma chosen_verifier_audited_as_none:
  assumes "resolve_auto_assign V cx f w = Inr (w', f', c)"
  shows "\<exists>x w1. session_audit V x w1 = Inr w' \<and> au_action x = ''routing.select'' \<and> au_result x = ''NO_CANDIDATE'' \<and>
    au_error_code x = Some ''SELECTED''"
proof (rule resolve_auto_assign_result [OF assms])
  fix w1 task_id domain
  assume "session_audit V (routing_audit cx task_id domain ''SELECTED'') w1 = Inr w'"
  then show ?thesis by (intro exI [of _ "routing_audit cx task_id domain ''SELECTED''"] exI [of _ w1]) (simp add: routing_audit_def)
qed

end
