(* ===== verification/Cron.thy ===== *)
theory Cron
  imports Hash_Chain
begin

text \<open>
  Schedules: the cron grammar and the next occurrences, \<^verbatim>\<open>src/server/schedules/cron.py\<close>, and the
  occurrence and idempotency keys, \<^verbatim>\<open>src/server/schedules/occurrence.py\<close>.

  A date is the number of days since 1970-01-01, a naive wall-clock minute the number of minutes
  since that midnight. A frozen set of numbers is a list without repetitions. A zone of the tz
  database is a \<open>tz_zone\<close>: the two directions of \<^verbatim>\<open>astimezone\<close>, on microseconds; which zones exist is
  the parameter of \<open>load_zone\<close>.
\<close>

section \<open>Fields\<close>

datatype cron_field = Minute | Hour | Day_of_month | Month | Day_of_week

definition FIELDS :: "(cron_field \<times> int \<times> int) list" where
  "FIELDS = [(Minute, 0, 59), (Hour, 0, 23), (Day_of_month, 1, 31), (Month, 1, 12), (Day_of_week, 0, 6)]"

record cron_expression =
  ce_expression :: string
  ce_minutes :: "int list"
  ce_hours :: "int list"
  ce_days_of_month :: "int list"
  ce_months :: "int list"
  ce_days_of_week :: "int list"
  ce_dom_restricted :: bool
  ce_dow_restricted :: bool

definition is_letter :: "char \<Rightarrow> bool" where
  "is_letter c \<longleftrightarrow> (let n = of_char c :: nat in 65 \<le> n \<and> n \<le> 90 \<or> 97 \<le> n \<and> n \<le> 122)"

definition is_number :: "string \<Rightarrow> bool" where
  "is_number s \<longleftrightarrow> s \<noteq> [] \<and> list_all is_digit s"

text \<open>\<^verbatim>\<open>range(start, stop + 1, step)\<close> for a positive step.\<close>

definition steps :: "int \<Rightarrow> int \<Rightarrow> int \<Rightarrow> int list" where
  "steps start stop step = filter (\<lambda>v. (v - start) mod step = 0) [start..stop]"

definition parse_step :: "string \<Rightarrow> (string \<times> int) res" where
  "parse_step part =
     (if CHR ''/'' \<in> set part then
        (case partition_at (CHR ''/'') part of (base, _, step_text) \<Rightarrow>
           if \<not> is_number step_text \<or> str_value step_text < 1 then Inl ''CRON_STEP_INVALID''
           else if base \<noteq> ''*'' \<and> CHR ''-'' \<notin> set base then Inl ''CRON_STEP_INVALID''
           else Inr (base, int (str_value step_text)))
      else Inr (part, 1))"

definition parse_range :: "int \<Rightarrow> int \<Rightarrow> string \<Rightarrow> (int \<times> int) res" where
  "parse_range low high base =
     (if base = ''*'' then Inr (low, high)
      else if CHR ''-'' \<in> set base then
        (case partition_at (CHR ''-'') base of (a, _, b) \<Rightarrow>
           if \<not> (is_number a \<and> is_number b) then Inl ''CRON_TOKEN_INVALID''
           else if str_value a > str_value b then Inl ''CRON_RANGE_INVALID''
           else Inr (int (str_value a), int (str_value b)))
      else if \<not> is_number base then Inl ''CRON_TOKEN_INVALID''
      else Inr (int (str_value base), int (str_value base)))"

definition check_bound :: "cron_field \<Rightarrow> int \<Rightarrow> int \<Rightarrow> int \<Rightarrow> unit res" where
  "check_bound name low high v =
     (if name = Day_of_week \<and> v = 7 then Inl ''CRON_DOW7_REJECTED''
      else if v < low \<or> v > high then Inl ''CRON_RANGE_INVALID'' else Inr ())"

definition parse_part :: "cron_field \<Rightarrow> int \<Rightarrow> int \<Rightarrow> string \<Rightarrow> int list res" where
  "parse_part name low high part =
     (if part = [] then Inl ''CRON_TOKEN_INVALID''
      else bind_res (parse_step part) (\<lambda>(base, step).
        bind_res (parse_range low high base) (\<lambda>(start, stop).
        bind_res (check_bound name low high start) (\<lambda>_.
        bind_res (check_bound name low high stop) (\<lambda>_. Inr (steps start stop step))))))"

definition add_part :: "cron_field \<Rightarrow> int \<Rightarrow> int \<Rightarrow> string \<Rightarrow> int list \<Rightarrow> int list res" where
  "add_part name low high part vals =
     bind_res (parse_part name low high part) (\<lambda>vs. Inr (vals @ vs))"

definition parse_field :: "string \<Rightarrow> cron_field \<times> int \<times> int \<Rightarrow> (int list \<times> bool) res" where
  "parse_field txt fld =
     (case fld of (name, low, high) \<Rightarrow>
      if txt = [] then Inl ''CRON_TOKEN_INVALID''
      else if list_ex (\<lambda>c. c \<in> set ''?LW#'') txt then Inl ''CRON_EXTENDED_TOKEN_REJECTED''
      else if list_ex is_letter txt then Inl ''CRON_NAME_REJECTED''
      else if txt = ''*'' then Inr ([low..high], False)
      else bind_res (fold_res (add_part name low high) (split_at (CHR '','') txt) [])
             (\<lambda>vals. Inr (remdups vals, True)))"

definition parse :: "string \<Rightarrow> cron_expression res" where
  "parse expression =
     (let txt = strip expression; tokens = words_of txt in
      if starts_with ''@'' txt then Inl ''CRON_ALIAS_REJECTED''
      else if length tokens = 6 then Inl ''CRON_SECONDS_REJECTED''
      else if length tokens \<noteq> 5 then Inl ''CRON_FIELD_COUNT''
      else bind_res (sequence_res (map2 parse_field tokens FIELDS)) (\<lambda>p.
        Inr \<lparr>ce_expression = join_with (CHR '' '') tokens, ce_minutes = fst (p ! 0), ce_hours = fst (p ! 1),
          ce_days_of_month = fst (p ! 2), ce_months = fst (p ! 3), ce_days_of_week = fst (p ! 4),
          ce_dom_restricted = snd (p ! 2), ce_dow_restricted = snd (p ! 4)\<rparr>))"

section \<open>Matching and spacing\<close>

text \<open>\<^verbatim>\<open>(day.weekday() + 1) % 7\<close>: the epoch was a Thursday.\<close>

definition day_of_week :: "int \<Rightarrow> int" where
  "day_of_week day = (day + 4) mod 7"

definition day_matches :: "cron_expression \<Rightarrow> int \<Rightarrow> bool" where
  "day_matches c day =
     (let (_, month, dom) = civil_of_days day;
          dom_ok = dom \<in> set (ce_days_of_month c); dow_ok = day_of_week day \<in> set (ce_days_of_week c)
      in if month \<notin> set (ce_months c) then False
         else if ce_dom_restricted c \<and> ce_dow_restricted c then dom_ok \<or> dow_ok
         else if ce_dom_restricted c then dom_ok
         else if ce_dow_restricted c then dow_ok
         else True)"

definition cron_matches :: "cron_expression \<Rightarrow> int \<Rightarrow> bool" where
  "cron_matches c local \<longleftrightarrow> (local mod 60) \<in> set (ce_minutes c) \<and>
     (local mod 1440 div 60) \<in> set (ce_hours c) \<and> day_matches c (local div 1440)"

definition times_of_day :: "cron_expression \<Rightarrow> int list" where
  "times_of_day c = sort [h * 60 + m. h \<leftarrow> ce_hours c, m \<leftarrow> ce_minutes c]"

fun pair_gaps :: "int list \<Rightarrow> int list" where
  "pair_gaps (a # b # xs) = (b - a) # pair_gaps (b # xs)"
| "pair_gaps _ = []"

definition min_of :: "int \<Rightarrow> int list \<Rightarrow> int" where
  "min_of x xs = fold min xs x"

text \<open>The loop over the days, with its early exit; it returns the last day set and the best gap.\<close>

fun gap_loop :: "cron_expression \<Rightarrow> int \<Rightarrow> int \<Rightarrow> int list \<Rightarrow> int option \<Rightarrow> int \<Rightarrow> int option \<times> int" where
  "gap_loop c first final [] previous best = (previous, best)"
| "gap_loop c first final (day # days) previous best =
     (if day_matches c day then
        (case previous of
           None \<Rightarrow> gap_loop c first final days (Some day) best
         | Some p \<Rightarrow>
            let best' = min best ((day - p) * 1440 - final + first) in
            if best' \<le> 1 then (Some p, best')
            else gap_loop c first final days (Some day) best')
      else gap_loop c first final days previous best)"

text \<open>2024-01-01 to 2051-12-31.\<close>

definition WINDOW :: "int list" where
  "WINDOW = [19723..29949]"

definition min_interval_minutes :: "cron_expression \<Rightarrow> int res" where
  "min_interval_minutes c =
     (case times_of_day c of
        [] \<Rightarrow> Inl ''IndexError''
      | first # rest \<Rightarrow>
         (let times = first # rest;
              best = (case pair_gaps times of [] \<Rightarrow> 1000000000 | g # gs \<Rightarrow> min_of g gs);
              (previous, result) = gap_loop c first (last times) WINDOW None best
          in if previous = None then Inl ''CRON_UNREACHABLE'' else Inr result))"

definition validate :: "string \<Rightarrow> int \<Rightarrow> cron_expression res" where
  "validate expression min_interval =
     (if min_interval < 1 then Inl ''CRON_INTERVAL_FLOOR''
      else bind_res (parse expression) (\<lambda>cron.
        bind_res (min_interval_minutes cron) (\<lambda>interval.
          if interval < min_interval then Inl ''CRON_INTERVAL_TOO_SHORT'' else Inr cron)))"

section \<open>Keys\<close>

definition wall_minute :: "int \<Rightarrow> string" where
  "wall_minute local = iso_date (local div 1440) @ ''T'' @ pad 2 (local mod 1440 div 60) @ '':'' @ pad 2 (local mod 60)"

definition utf8_bytes :: "string \<Rightarrow> bytes" where
  "utf8_bytes s = concat (map utf8_char (codes s))"

definition occurrence_key :: "prims \<Rightarrow> string \<Rightarrow> string \<Rightarrow> int \<Rightarrow> string" where
  "occurrence_key P schedule_id timezone local =
     sha256_hex P (utf8_bytes (schedule_id @ ''|'' @ timezone @ ''|'' @ wall_minute local))"

definition manual_idempotency_key :: "string \<Rightarrow> string \<Rightarrow> string \<Rightarrow> string res" where
  "manual_idempotency_key schedule_id requester client_key =
     (if list_ex (\<lambda>p. p = [] \<or> CHR '':'' \<in> set p) [schedule_id, requester, client_key] then Inl ''ValueError''
      else Inr (''MANUAL:'' @ schedule_id @ '':'' @ requester @ '':'' @ client_key))"

definition retry_idempotency_key :: "string \<Rightarrow> int \<Rightarrow> string res" where
  "retry_idempotency_key run_id retry_no =
     (if run_id = [] \<or> CHR '':'' \<in> set run_id \<or> retry_no < 1 then Inl ''ValueError''
      else Inr (''RETRY:'' @ run_id @ '':'' @ int_str retry_no))"

definition scheduled_idempotency_key :: "string \<Rightarrow> string \<Rightarrow> string" where
  "scheduled_idempotency_key schedule_id key = ''SCHEDULED:'' @ schedule_id @ '':'' @ key"

section \<open>Occurrences\<close>

record tz_zone =
  tz_to_utc :: "nat \<Rightarrow> int \<Rightarrow> time"
  tz_from_utc :: "time \<Rightarrow> int"

record occurrence =
  oc_local :: int
  oc_utc :: "time option"
  oc_key :: string
  oc_reason :: "string option"

definition executable :: "occurrence \<Rightarrow> bool" where
  "executable o' \<longleftrightarrow> oc_utc o' \<noteq> None"

definition load_zone :: "(string \<Rightarrow> tz_zone option) \<Rightarrow> string \<Rightarrow> tz_zone res" where
  "load_zone zones timezone =
     (if timezone = [] \<or> timezone \<noteq> strip timezone \<or> char_of (92::nat) \<in> set timezone then Inl ''TIMEZONE_INVALID''
      else case zones timezone of None \<Rightarrow> Inl ''TIMEZONE_INVALID'' | Some z \<Rightarrow> Inr z)"

text \<open>A wall-clock minute as a naive \<^verbatim>\<open>datetime\<close>, in microseconds.\<close>

definition resolve_local :: "tz_zone \<Rightarrow> int \<Rightarrow> time option \<times> string option" where
  "resolve_local zone local =
     (let naive = minutes local; utc0 = tz_to_utc zone 0 naive in
      if tz_from_utc zone utc0 \<noteq> naive then (None, Some ''DST_GAP'')
      else let utc1 = tz_to_utc zone 1 naive in
        if utc1 \<noteq> utc0 then (Some (min utc0 utc1), Some ''DST_FOLD'') else (Some utc0, None))"

record occ_query =
  oq_prims :: prims
  oq_cron :: cron_expression
  oq_timezone :: string
  oq_zone :: tz_zone
  oq_after :: time
  oq_count :: int
  oq_schedule_id :: string
  oq_include_gaps :: bool

definition start_local :: "occ_query \<Rightarrow> int" where
  "start_local q = tz_from_utc (oq_zone q) (oq_after q) div minutes 1 + 1"

fun day_loop :: "occ_query \<Rightarrow> int \<Rightarrow> int list \<Rightarrow> int \<Rightarrow> occurrence list \<times> int" where
  "day_loop q day [] found = ([], found)"
| "day_loop q day (tod # tods) found =
     (let local = day * 1440 + tod in
      if local < start_local q then day_loop q day tods found
      else case resolve_local (oq_zone q) local of
        (None, reason) \<Rightarrow>
          (let (out, n) = day_loop q day tods found;
               gap = \<lparr>oc_local = local, oc_utc = None,
                 oc_key = occurrence_key (oq_prims q) (oq_schedule_id q) (oq_timezone q) local, oc_reason = reason\<rparr>
           in (if oq_include_gaps q then gap # out else out, n))
      | (Some utc, reason) \<Rightarrow>
          if utc \<le> oq_after q then day_loop q day tods found
          else
            let hit = \<lparr>oc_local = local, oc_utc = Some utc,
                  oc_key = occurrence_key (oq_prims q) (oq_schedule_id q) (oq_timezone q) local, oc_reason = reason\<rparr>
            in if found + 1 \<ge> oq_count q then ([hit], found + 1)
               else let (out, n) = day_loop q day tods (found + 1) in (hit # out, n))"

fun days_loop :: "occ_query \<Rightarrow> int list \<Rightarrow> int \<Rightarrow> occurrence list" where
  "days_loop q [] found = []"
| "days_loop q (day # days) found =
     (if found < oq_count q then
        (let (out, n) = (if day_matches (oq_cron q) day then day_loop q day (times_of_day (oq_cron q)) found
                         else ([], found))
         in out @ days_loop q days n)
      else [])"

definition PREVIEW_HORIZON_DAYS :: int where
  "PREVIEW_HORIZON_DAYS = 366 * 5"

definition occurrences_of :: "occ_query \<Rightarrow> occurrence list" where
  "occurrences_of q =
     (let day = start_local q div 1440 in days_loop q [day..day + PREVIEW_HORIZON_DAYS] 0)"

definition next_occurrences ::
  "prims \<Rightarrow> (string \<Rightarrow> tz_zone option) \<Rightarrow> string \<Rightarrow> string \<Rightarrow> time \<Rightarrow> int \<Rightarrow> string \<Rightarrow> bool
    \<Rightarrow> occurrence list res" where
  "next_occurrences P zones expression timezone after_utc wanted schedule_id include_gaps =
     bind_res (parse expression) (\<lambda>cron.
     bind_res (load_zone zones timezone) (\<lambda>zone.
       Inr (occurrences_of \<lparr>oq_prims = P, oq_cron = cron, oq_timezone = timezone, oq_zone = zone,
         oq_after = after_utc, oq_count = wanted, oq_schedule_id = schedule_id,
         oq_include_gaps = include_gaps\<rparr>)))"


section \<open>Parsed fields\<close>

lemma steps_start: "start \<le> stop \<Longrightarrow> start \<in> set (steps start stop step)"
  by (simp add: steps_def)

lemma steps_range: "v \<in> set (steps start stop step) \<Longrightarrow> start \<le> v \<and> v \<le> stop"
  by (auto simp: steps_def)

lemma parse_range_ordered: "parse_range low high base = Inr (a, b) \<Longrightarrow> low \<le> high \<Longrightarrow> a \<le> b"
  by (auto simp: parse_range_def split: if_splits prod.splits)

lemma parse_part_values:
  assumes "parse_part name low high part = Inr vs" and "low \<le> high"
  shows "vs \<noteq> [] \<and> (\<forall>v \<in> set vs. low \<le> v \<and> v \<le> high)"
proof -
  obtain a b step where r: "\<exists>base. parse_range low high base = Inr (a, b)" "vs = steps a b step"
      "check_bound name low high a = Inr ()" "check_bound name low high b = Inr ()"
    using assms(1) by (auto simp: parse_part_def res_simps split: if_splits)
  then have "a \<le> b" "low \<le> a" "b \<le> high"
    using parse_range_ordered assms(2) by (auto simp: check_bound_def split: if_splits)
  then show ?thesis using r(2) steps_start [of a b step] steps_range [of _ a b step] by fastforce
qed

lemma parse_parts_values:
  assumes "fold_res (add_part name low high) parts acc = Inr out" and "low \<le> high"
    and "\<forall>v \<in> set acc. low \<le> v \<and> v \<le> high"
  shows "(\<forall>v \<in> set out. low \<le> v \<and> v \<le> high) \<and> (parts \<noteq> [] \<or> acc \<noteq> [] \<longrightarrow> out \<noteq> [])"
  using assms
proof (induction parts arbitrary: acc)
  case (Cons part parts)
  from Cons.prems(1) obtain vs where vs: "parse_part name low high part = Inr vs"
      "fold_res (add_part name low high) parts (acc @ vs) = Inr out"
    by (auto simp: res_simps add_part_def [of _ _ _ part])
  have "\<forall>v \<in> set (acc @ vs). low \<le> v \<and> v \<le> high" "acc @ vs \<noteq> []"
    using Cons.prems(3) parse_part_values [OF vs(1) Cons.prems(2)] by auto
  then show ?case using Cons.IH [OF vs(2) Cons.prems(2)] by blast
qed simp

definition field_ok :: "int \<Rightarrow> int \<Rightarrow> int list \<Rightarrow> bool" where
  "field_ok low high vs \<longleftrightarrow> vs \<noteq> [] \<and> distinct vs \<and> (\<forall>v \<in> set vs. low \<le> v \<and> v \<le> high)"

lemma parse_field_ok:
  assumes "parse_field txt (name, low, high) = Inr p" and "low \<le> high"
  shows "field_ok low high (fst p) \<and> (\<not> snd p \<longrightarrow> set (fst p) = {low..high})"
proof (cases "txt = ''*''")
  case True
  then show ?thesis
    using assms by (auto simp: parse_field_def field_ok_def is_letter_def split: if_splits)
next
  case False
  then obtain vals where v: "fold_res (add_part name low high) (split_at (CHR '','') txt) [] = Inr vals"
      "p = (remdups vals, True)"
    using assms(1) by (auto simp: parse_field_def res_simps split: if_splits)
  show ?thesis using parse_parts_values [OF v(1) assms(2)] v(2) by (simp add: field_ok_def)
qed

text \<open>A well-formed expression: every field is non-empty and within its range.\<close>

definition cron_ok :: "cron_expression \<Rightarrow> bool" where
  "cron_ok c \<longleftrightarrow> field_ok 0 59 (ce_minutes c) \<and> field_ok 0 23 (ce_hours c) \<and>
     field_ok 1 31 (ce_days_of_month c) \<and> field_ok 1 12 (ce_months c) \<and> field_ok 0 6 (ce_days_of_week c) \<and>
     (\<not> ce_dom_restricted c \<longrightarrow> set (ce_days_of_month c) = {1..31}) \<and>
     (\<not> ce_dow_restricted c \<longrightarrow> set (ce_days_of_week c) = {0..6})"

lemma length_5:
  assumes "length xs = 5"
  obtains a b c d e where "xs = [a, b, c, d, e]"
  using assms by (auto simp: length_Suc_conv numeral_eq_Suc)

lemma parse_cases:
  assumes "parse expression = Inr c"
  obtains t0 t1 t2 t3 t4 p0 p1 p2 p3 p4 where
    "words_of (strip expression) = [t0, t1, t2, t3, t4]" "\<not> starts_with ''@'' (strip expression)"
    "parse_field t0 (Minute, 0, 59) = Inr p0" "parse_field t1 (Hour, 0, 23) = Inr p1"
    "parse_field t2 (Day_of_month, 1, 31) = Inr p2" "parse_field t3 (Month, 1, 12) = Inr p3"
    "parse_field t4 (Day_of_week, 0, 6) = Inr p4"
    "c = \<lparr>ce_expression = join_with (CHR '' '') [t0, t1, t2, t3, t4], ce_minutes = fst p0, ce_hours = fst p1,
       ce_days_of_month = fst p2, ce_months = fst p3, ce_days_of_week = fst p4,
       ce_dom_restricted = snd p2, ce_dow_restricted = snd p4\<rparr>"
proof -
  have "length (words_of (strip expression)) = 5"
    using assms by (auto simp: parse_def Let_def split: if_splits)
  then obtain t0 t1 t2 t3 t4 where t: "words_of (strip expression) = [t0, t1, t2, t3, t4]" by (rule length_5)
  then show thesis
    using assms that by (auto simp: parse_def Let_def FIELDS_def res_simps numeral_eq_Suc split: if_splits)
qed

lemma parse_ok:
  assumes "parse expression = Inr c"
  shows "cron_ok c"
proof -
  obtain t0 t1 t2 t3 t4 p0 p1 p2 p3 p4 where
    "parse_field t0 (Minute, 0, 59) = Inr p0" "parse_field t1 (Hour, 0, 23) = Inr p1"
    "parse_field t2 (Day_of_month, 1, 31) = Inr p2" "parse_field t3 (Month, 1, 12) = Inr p3"
    "parse_field t4 (Day_of_week, 0, 6) = Inr p4"
    and c: "c = \<lparr>ce_expression = join_with (CHR '' '') [t0, t1, t2, t3, t4], ce_minutes = fst p0, ce_hours = fst p1,
       ce_days_of_month = fst p2, ce_months = fst p3, ce_days_of_week = fst p4,
       ce_dom_restricted = snd p2, ce_dow_restricted = snd p4\<rparr>"
    by (rule parse_cases [OF assms])
  then show ?thesis
    using parse_field_ok [of t0 Minute 0 59 p0] parse_field_ok [of t1 Hour 0 23 p1]
      parse_field_ok [of t2 Day_of_month 1 31 p2] parse_field_ok [of t3 Month 1 12 p3]
      parse_field_ok [of t4 Day_of_week 0 6 p4]
    by (simp add: cron_ok_def)
qed

text \<open>The normalized text of an expression parses to the same expression.\<close>

lemma strip_id:
  assumes "s \<noteq> []" and "\<not> is_space (hd s)" and "\<not> is_space (last s)"
  shows "strip s = s"
proof -
  have "dropWhile is_space s = s" using assms by (cases s) auto
  moreover have "dropWhile is_space (rev s) = rev s"
    using assms by (metis dropWhile_eq_self_iff hd_rev rev_is_Nil_conv)
  ultimately show ?thesis by (simp add: strip_def)
qed

lemma strip_hd: "strip s \<noteq> [] \<Longrightarrow> \<not> is_space (hd (strip s))"
proof -
  let ?t = "dropWhile is_space s"
  assume ne: "strip s \<noteq> []"
  have "prefix (strip s) ?t"
    unfolding strip_def using suffix_dropWhile [of is_space "rev ?t"]
    by (metis rev_rev_ident suffix_to_prefix)
  then have "hd (strip s) = hd ?t" using ne by (auto simp: prefix_def)
  moreover have "?t \<noteq> []" using ne unfolding strip_def by (cases ?t) simp_all
  ultimately show "\<not> is_space (hd (strip s))" using hd_dropWhile by force
qed

lemma words_of_hd:
  assumes "s \<noteq> []" and "\<not> is_space (hd s)"
  shows "\<exists>w ws. words_of s = w # ws \<and> w \<noteq> [] \<and> hd w = hd s"
proof -
  obtain x xs where s: "s = x # xs" using assms(1) by (cases s) auto
  obtain w ws where w: "split_by is_space xs = w # ws" by (cases "split_by is_space xs") auto
  then show ?thesis using assms s by (simp add: words_of_def)
qed

lemma words_of_clean:
  assumes "w \<in> set (words_of s)"
  shows "w \<noteq> [] \<and> (\<forall>c \<in> set w. \<not> is_space c)"
  using assms split_by_clean unfolding words_of_def by fastforce

lemma hd_join: "w \<noteq> [] \<Longrightarrow> join_with c (w # ws) \<noteq> [] \<and> hd (join_with c (w # ws)) = hd w"
  by (cases ws) auto

lemma last_join: "\<forall>w \<in> set ws. w \<noteq> [] \<Longrightarrow> ws \<noteq> [] \<Longrightarrow> join_with c ws \<noteq> [] \<and> last (join_with c ws) = last (last ws)"
  by (induction c ws rule: join_with.induct) auto

lemma join_stripped:
  assumes "ws \<noteq> []" and "\<forall>w \<in> set ws. w \<noteq> [] \<and> (\<forall>c \<in> set w. \<not> is_space c)"
  shows "strip (join_with (CHR '' '') ws) = join_with (CHR '' '') ws"
proof (rule strip_id)
  obtain w vs where w: "ws = w # vs" using assms(1) by (cases ws) auto
  show "join_with (CHR '' '') ws \<noteq> []" and "\<not> is_space (hd (join_with (CHR '' '') ws))"
    using hd_join [of w "CHR '' ''" vs] assms(2) w by auto
  have "last ws \<in> set ws" using assms(1) by simp
  then have "last (last ws) \<in> set (last ws)" and "\<forall>c \<in> set (last ws). \<not> is_space c"
    using assms(2) last_in_set by blast+
  then show "\<not> is_space (last (join_with (CHR '' '') ws))"
    using last_join [of ws "CHR '' ''"] assms by auto
qed

lemma parse_normal:
  assumes "parse expression = Inr c"
  shows "parse (ce_expression c) = Inr c"
proof -
  let ?ws = "words_of (strip expression)"
  have c: "ce_expression c = join_with (CHR '' '') ?ws" and ne: "?ws \<noteq> []" "\<not> starts_with ''@'' (strip expression)"
    using assms by (rule parse_cases, simp)+
  have clean: "\<forall>w \<in> set ?ws. w \<noteq> [] \<and> (\<forall>c \<in> set w. \<not> is_space c)" using words_of_clean by blast
  have st: "strip (ce_expression c) = ce_expression c" unfolding c by (rule join_stripped [OF ne(1) clean])
  have ws: "words_of (ce_expression c) = ?ws" unfolding c by (rule words_of_join [OF clean])
  have "strip expression \<noteq> []" using ne(1) by (auto simp: words_of_def)
  then obtain w vs where w: "?ws = w # vs" "w \<noteq> []" "hd w = hd (strip expression)"
    using words_of_hd strip_hd by blast
  have "starts_with ''@'' s \<longleftrightarrow> s \<noteq> [] \<and> hd s = CHR ''@''" for s
    by (cases s) (auto simp: starts_with_def)
  then have "\<not> starts_with ''@'' (ce_expression c)"
    using ne(2) hd_join [OF w(2)] w \<open>strip expression \<noteq> []\<close> unfolding c by auto
  moreover have "parse expression = (if length ?ws = 6 then Inl ''CRON_SECONDS_REJECTED''
      else if length ?ws \<noteq> 5 then Inl ''CRON_FIELD_COUNT''
      else bind_res (sequence_res (map2 parse_field ?ws FIELDS)) (\<lambda>p.
        Inr \<lparr>ce_expression = join_with (CHR '' '') ?ws, ce_minutes = fst (p ! 0), ce_hours = fst (p ! 1),
          ce_days_of_month = fst (p ! 2), ce_months = fst (p ! 3), ce_days_of_week = fst (p ! 4),
          ce_dom_restricted = snd (p ! 2), ce_dow_restricted = snd (p ! 4)\<rparr>))"
    using ne(2) by (simp add: parse_def Let_def)
  ultimately show ?thesis using assms unfolding parse_def [of "ce_expression c"] Let_def st ws by simp
qed

section \<open>Spacing\<close>

lemma min_of_le: "x \<in> insert g (set gs) \<Longrightarrow> min_of g gs \<le> x"
proof -
  have "fold min gs g \<le> g \<and> (\<forall>x \<in> set gs. fold min gs g \<le> x)" for gs and g :: int
    by (induction gs arbitrary: g) (auto, metis min.bounded_iff, metis min.bounded_iff)
  then show "x \<in> insert g (set gs) \<Longrightarrow> min_of g gs \<le> x" unfolding min_of_def by blast
qed

lemma min_of_greatest: "k \<le> g \<Longrightarrow> (\<forall>x \<in> set gs. k \<le> x) \<Longrightarrow> k \<le> min_of g gs" for k :: int
  unfolding min_of_def by (induction gs arbitrary: g) auto

lemma pair_gap_le:
  assumes "sorted_wrt (<) xs" and "a \<in> set xs" and "b \<in> set xs" and "a < b"
  shows "\<exists>g \<in> set (pair_gaps xs). g \<le> b - a"
  using assms
proof (induction xs rule: pair_gaps.induct)
  case (1 x y xs)
  show ?case
  proof (cases "a = x")
    case True
    then have "y \<le> b" using 1 by auto
    then show ?thesis using True by auto
  next
    case False
    then have "a \<in> set (y # xs)" "b \<in> set (y # xs)" using 1 by auto
    then show ?thesis using 1 by auto
  qed
qed auto

lemma pair_gaps_pos: "sorted_wrt (<) xs \<Longrightarrow> g \<in> set (pair_gaps xs) \<Longrightarrow> 1 \<le> g"
  by (induction xs rule: pair_gaps.induct) auto

lemma gap_loop_spec:
  assumes "gap_loop c f l days prev best = (p', r)" and "sorted_wrt (<) days"
    and "\<forall>p. prev = Some p \<longrightarrow> (\<forall>d \<in> set days. p < d)"
  shows "r \<le> best \<and> (r \<le> 1 \<or> (\<forall>d1 d2. (prev = Some d1 \<or> d1 \<in> set days \<and> day_matches c d1) \<and>
    d2 \<in> set days \<and> day_matches c d2 \<and> d1 < d2 \<longrightarrow> r \<le> (d2 - d1) * 1440 - l + f))"
  using assms
proof (induction c f l days prev best rule: gap_loop.induct)
  case (2 c f l day days prev best)
  show ?case
  proof (cases "day_matches c day")
    case False
    then have "gap_loop c f l days prev best = (p', r)" using 2(4) by simp
    from 2(3) [OF False this] 2(5,6) False show ?thesis by auto
  next
    case m: True
    show ?thesis
    proof (cases prev)
      case None
      have "gap_loop c f l days (Some day) best = (p', r)" using 2(4) m None by simp
      from 2(1) [OF m None this] 2(5) show ?thesis using None by auto
    next
      case (Some p)
      let ?b = "min best ((day - p) * 1440 - l + f)"
      show ?thesis
      proof (cases "?b \<le> 1")
        case True
        then show ?thesis using 2(4) m Some by auto
      next
        case False
        then have "gap_loop c f l days (Some day) ?b = (p', r)" using 2(4) m Some by simp
        from 2(2) [OF m Some refl False this] 2(5)
        have ih: "r \<le> ?b" "r \<le> 1 \<or> (\<forall>d1 d2. (Some day = Some d1 \<or> d1 \<in> set days \<and> day_matches c d1) \<and>
            d2 \<in> set days \<and> day_matches c d2 \<and> d1 < d2 \<longrightarrow> r \<le> (d2 - d1) * 1440 - l + f)" by auto
        have "r \<le> (d2 - p) * 1440 - l + f" if "d2 \<in> set (day # days)" for d2
        proof -
          have "day \<le> d2" using that 2(5) by auto
          then show ?thesis using ih(1) by auto
        qed
        then show ?thesis using ih Some 2(5) by auto
      qed
    qed
  qed
qed simp

lemma gap_loop_lower:
  assumes "gap_loop c f l days prev best = (p', r)" and "k \<le> best"
    and "\<And>p d. p < d \<Longrightarrow> k \<le> (d - p) * 1440 - l + f" and "sorted_wrt (<) days"
    and "\<forall>p. prev = Some p \<longrightarrow> (\<forall>d \<in> set days. p < d)"
  shows "k \<le> r"
  using assms
proof (induction c f l days prev best rule: gap_loop.induct)
  case (2 c f l day days prev best)
  have k: "k \<le> min best ((day - p) * 1440 - l + f)" if "prev = Some p" for p
    using 2(5) 2(6) [of p day] 2(8) that by simp
  show ?case
  proof (cases "day_matches c day")
    case False
    then show ?thesis using 2(3) [OF False _ 2(5,6)] 2(4,7,8) by simp
  next
    case m: True
    show ?thesis
    proof (cases prev)
      case None
      then show ?thesis using 2(1) [OF m None _ 2(5,6)] 2(4,7) m by simp
    next
      case (Some p)
      show ?thesis
      proof (cases "min best ((day - p) * 1440 - l + f) \<le> 1")
        case True
        then show ?thesis using 2(4) m Some k [OF Some] by (simp add: Let_def)
      next
        case False
        then show ?thesis using 2(2) [OF m Some refl False _ k [OF Some] 2(6)] 2(4,7) m Some by (simp add: Let_def)
      qed
    qed
  qed
qed simp

lemma gap_loop_reached:
  "gap_loop c f l days prev best = (p', r) \<Longrightarrow> prev \<noteq> None \<or> (\<exists>d \<in> set days. day_matches c d) \<Longrightarrow> p' \<noteq> None"
  by (induction c f l days prev best rule: gap_loop.induct) (auto simp: Let_def split: if_splits option.splits)

lemma sorted_le_last: "sorted xs \<Longrightarrow> x \<in> set xs \<Longrightarrow> x \<le> last xs" for x :: int
  by (induction xs) auto

lemma set_times: "set (times_of_day c) = {h * 60 + m |h m. h \<in> set (ce_hours c) \<and> m \<in> set (ce_minutes c)}"
  by (auto simp: times_of_day_def)

lemma times_sorted:
  assumes "cron_ok c"
  shows "sorted_wrt (<) (times_of_day c)"
proof -
  have inj: "h = h' \<and> m = m'" if "h * 60 + m = h' * 60 + m'" "m \<in> set (ce_minutes c)" "m' \<in> set (ce_minutes c)" for h m h' m'
  proof -
    have "0 \<le> m" "m \<le> 59" "0 \<le> m'" "m' \<le> 59" using assms that(2,3) by (auto simp: cron_ok_def field_ok_def)
    then have "(h * 60 + m) div 60 = h" "(h' * 60 + m') div 60 = h'" by simp_all
    then show ?thesis using that(1) by auto
  qed
  have dm: "distinct (ce_minutes c)" and dh: "distinct (ce_hours c)" using assms by (auto simp: cron_ok_def field_ok_def)
  have "distinct [h * 60 + m. h \<leftarrow> hs, m \<leftarrow> ce_minutes c]" if "distinct hs" for hs
    using that
  proof (induction hs)
    case (Cons h hs)
    have "inj_on (\<lambda>m. h * 60 + m) (set (ce_minutes c))" by (auto simp: inj_on_def)
    moreover have "set (map (\<lambda>m. h * 60 + m) (ce_minutes c)) \<inter> set [h * 60 + m. h \<leftarrow> hs, m \<leftarrow> ce_minutes c] = {}"
    proof (intro equals0I)
      fix x
      assume "x \<in> set (map (\<lambda>m. h * 60 + m) (ce_minutes c)) \<inter> set [h * 60 + m. h \<leftarrow> hs, m \<leftarrow> ce_minutes c]"
      then obtain m h' m' where "h * 60 + m = h' * 60 + m'" "m \<in> set (ce_minutes c)" "h' \<in> set hs" "m' \<in> set (ce_minutes c)"
        by auto
      then show False using inj [of h m h' m'] Cons.prems by simp
    qed
    ultimately show ?case using Cons dm by (simp add: distinct_map)
  qed simp
  then show ?thesis using dh unfolding times_of_day_def by (simp add: strict_sorted_iff)
qed

lemma time_of_match: "cron_matches c l \<Longrightarrow> l mod 1440 \<in> set (times_of_day c) \<and> day_matches c (l div 1440)"
proof -
  assume m: "cron_matches c l"
  have "l mod 1440 mod 60 = l mod 60" by (rule mod_mod_cancel) simp
  then have "l mod 1440 = l mod 1440 div 60 * 60 + l mod 60" by (metis div_mult_mod_eq)
  then show ?thesis using m unfolding cron_matches_def set_times by blast
qed

lemma match_of_time:
  assumes "cron_ok c" and "t \<in> set (times_of_day c)" and "day_matches c d"
  shows "cron_matches c (d * 1440 + t)" and "0 \<le> t" and "t < 1440"
proof -
  obtain h m where t: "t = h * 60 + m" "h \<in> set (ce_hours c)" "m \<in> set (ce_minutes c)"
    using assms(2) by (auto simp: set_times)
  then have r: "0 \<le> h" "h \<le> 23" "0 \<le> m" "m \<le> 59" using assms(1) by (auto simp: cron_ok_def field_ok_def)
  then show b: "0 \<le> t" "t < 1440" using t by auto
  have "d * 1440 + t = m + (d * 24 + h) * 60" using t(1) by simp
  then have "(d * 1440 + t) mod 60 = m" using r by (simp only: mod_mult_self1) simp
  moreover have "(d * 1440 + t) mod 1440 = t" "(d * 1440 + t) div 1440 = d" using b by auto
  moreover have "t div 60 = h" using r t(1) by auto
  ultimately show "cron_matches c (d * 1440 + t)" using t assms(3) by (simp add: cron_matches_def)
qed

lemma set_WINDOW: "set WINDOW = {19723..29949}"
  unfolding WINDOW_def by (rule set_upto)

lemma sorted_WINDOW: "sorted_wrt (<) WINDOW"
  unfolding WINDOW_def by (rule sorted_wrt_upto)

lemma min_interval_spacing:
  assumes ok: "cron_ok c" and i: "min_interval_minutes c = Inr i" and m: "1 \<le> m" "m \<le> i"
    and l: "cron_matches c l1" "cron_matches c l2" "l1 < l2"
      "l1 div 1440 \<in> set WINDOW" "l2 div 1440 \<in> set WINDOW"
  shows "m \<le> l2 - l1"
proof (cases "m = 1")
  case True
  then show ?thesis using l(3) by simp
next
  case big: False
  let ?ts = "times_of_day c"
  obtain f r where ts: "?ts = f # r" using i by (auto simp: min_interval_minutes_def split: list.splits)
  define best where "best = (case pair_gaps (f # r) of [] \<Rightarrow> 1000000000 | g # gs \<Rightarrow> min_of g gs)"
  obtain p' where gl: "gap_loop c f (last ?ts) WINDOW None best = (p', i)"
    using i unfolding min_interval_minutes_def ts list.case Let_def best_def [symmetric]
    by (auto split: prod.splits if_splits)
  have sw: "sorted_wrt (<) WINDOW" by (rule sorted_WINDOW)
  have sts: "sorted_wrt (<) ?ts" by (rule times_sorted [OF ok])
  note spec = gap_loop_spec [OF gl sw]
  have t: "l1 mod 1440 \<in> set ?ts" "l2 mod 1440 \<in> set ?ts" "day_matches c (l1 div 1440)" "day_matches c (l2 div 1440)"
    using time_of_match l by blast+
  have "sorted ?ts" using sts by (simp add: strict_sorted_iff)
  then have lr: "l1 mod 1440 \<le> last ?ts" "f \<le> l2 mod 1440"
    using sorted_le_last t(1) t(2) ts by (blast, auto)
  have split: "l2 - l1 = (l2 div 1440 - l1 div 1440) * 1440 + l2 mod 1440 - l1 mod 1440"
    unfolding left_diff_distrib using div_mult_mod_eq [of l1 1440] div_mult_mod_eq [of l2 1440] by linarith
  show ?thesis
  proof (cases "l1 div 1440 = l2 div 1440")
    case True
    then have "l1 mod 1440 < l2 mod 1440" using split l(3) by simp
    then obtain g where g: "g \<in> set (pair_gaps ?ts)" "g \<le> l2 mod 1440 - l1 mod 1440"
      using pair_gap_le [OF sts t(1,2)] by blast
    then have "best \<le> g" using min_of_le unfolding best_def ts by (cases "pair_gaps (f # r)") auto
    then show ?thesis using g(2) spec m(2) split True by simp
  next
    case False
    have "l1 div 1440 < l2 div 1440" using l(3) False zdiv_mono1 [of l1 l2 1440] by simp
    then have "i \<le> (l2 div 1440 - l1 div 1440) * 1440 - last ?ts + f"
      using spec big m l(4,5) t(3,4) by auto
    then show ?thesis using lr split m(2) by linarith
  qed
qed

section \<open>Occurrences against a reference\<close>

text \<open>What one matching minute contributes, and the reference: all minutes of the horizon in order.\<close>

definition occurrence_at :: "occ_query \<Rightarrow> int \<Rightarrow> occurrence option" where
  "occurrence_at q l =
     (let key = occurrence_key (oq_prims q) (oq_schedule_id q) (oq_timezone q) l in
      case resolve_local (oq_zone q) l of
        (None, reason) \<Rightarrow>
          if oq_include_gaps q then Some \<lparr>oc_local = l, oc_utc = None, oc_key = key, oc_reason = reason\<rparr> else None
      | (Some utc, reason) \<Rightarrow>
          if utc \<le> oq_after q then None
          else Some \<lparr>oc_local = l, oc_utc = Some utc, oc_key = key, oc_reason = reason\<rparr>)"

fun take_executable :: "int \<Rightarrow> occurrence list \<Rightarrow> occurrence list" where
  "take_executable n [] = []"
| "take_executable n (x # xs) =
     (if n \<le> 0 then [] else x # take_executable (if executable x then n - 1 else n) xs)"

definition horizon_minutes :: "occ_query \<Rightarrow> int list" where
  "horizon_minutes q = (let day = start_local q div 1440 in
     filter (\<lambda>l. start_local q \<le> l \<and> cron_matches (oq_cron q) l)
       [day * 1440..(day + PREVIEW_HORIZON_DAYS) * 1440 + 1439])"

definition reference_occurrences :: "occ_query \<Rightarrow> occurrence list" where
  "reference_occurrences q =
     take_executable (oq_count q) (List.map_filter (occurrence_at q) (horizon_minutes q))"

definition executed :: "occurrence list \<Rightarrow> int" where
  "executed xs = int (length (filter executable xs))"

lemma take_executable_done [simp]: "n \<le> 0 \<Longrightarrow> take_executable n xs = []"
  by (cases xs) simp_all

lemma executed_simps [simp]:
  "executed [] = 0" "executed (x # xs) = of_bool (executable x) + executed xs"
  by (simp_all add: executed_def)

lemma take_executable_append:
  "take_executable n (xs @ ys) = take_executable n xs @ take_executable (n - executed (take_executable n xs)) ys"
proof (induction xs arbitrary: n)
  case (Cons x xs)
  show ?case using Cons [of n] Cons [of "n - 1"] by (simp add: diff_diff_eq)
qed simp

lemma executed_le: "0 \<le> n \<Longrightarrow> executed (take_executable n xs) \<le> n"
proof (induction xs arbitrary: n)
  case (Cons x xs)
  show ?case
    using Cons.IH [of n] Cons.IH [of "n - 1"] Cons.prems by auto
qed simp

lemma prefix_take_executable: "prefix (take_executable n xs) xs"
  by (induction xs arbitrary: n) auto

text \<open>The minutes of a day in reference order.\<close>

definition day_minutes :: "occ_query \<Rightarrow> int \<Rightarrow> int list \<Rightarrow> int list" where
  "day_minutes q day tods = filter (\<lambda>l. start_local q \<le> l) (map (\<lambda>t. day * 1440 + t) tods)"

lemma day_loop_reference:
  assumes "found < oq_count q"
  shows "day_loop q day tods found =
    (let out = take_executable (oq_count q - found) (List.map_filter (occurrence_at q) (day_minutes q day tods))
     in (out, found + executed out))"
  using assms
proof (induction tods arbitrary: found)
  case (Cons t tods)
  let ?l = "day * 1440 + t"
  obtain u reason where r: "resolve_local (oq_zone q) ?l = (u, reason)" by fastforce
  show ?case
  proof (cases "?l < start_local q")
    case True
    then show ?thesis using Cons by (simp add: day_minutes_def)
  next
    case False
    show ?thesis
    proof (cases u)
      case None
      then show ?thesis
        using Cons False r by (simp add: day_minutes_def occurrence_at_def [of q ?l] map_filter_simps Let_def executable_def diff_diff_eq)
    next
      case (Some utc)
      show ?thesis
      proof (cases "utc \<le> oq_after q")
        case True
        then show ?thesis
          using Cons False r Some by (simp add: day_minutes_def occurrence_at_def [of q ?l] map_filter_simps Let_def)
      next
        case late: False
        show ?thesis
        proof (cases "found + 1 \<ge> oq_count q")
          case True
          then show ?thesis
            using Cons.prems False r Some late
            by (simp add: day_minutes_def occurrence_at_def [of q ?l] map_filter_simps Let_def executable_def diff_diff_eq)
        next
          case more: False
          show ?thesis
            using Cons.IH [of "found + 1"] Cons.prems False r Some late more
            by (simp add: day_minutes_def occurrence_at_def [of q ?l] map_filter_simps Let_def executable_def diff_diff_eq)
        qed
      qed
    qed
  qed
qed (simp add: day_minutes_def map_filter_simps)

lemma days_loop_reference:
  "days_loop q days found = take_executable (oq_count q - found) (List.map_filter (occurrence_at q)
     (concat (map (\<lambda>d. if day_matches (oq_cron q) d then day_minutes q d (times_of_day (oq_cron q)) else []) days)))"
proof (induction days arbitrary: found)
  case (Cons day days)
  let ?day = "\<lambda>d. if day_matches (oq_cron q) d then day_minutes q d (times_of_day (oq_cron q)) else []"
  let ?out = "take_executable (oq_count q - found) (List.map_filter (occurrence_at q) (?day day))"
  have mf: "List.map_filter g (xs @ ys) = List.map_filter g xs @ List.map_filter g ys" for g :: "int \<Rightarrow> occurrence option" and xs ys
    by (simp add: List.map_filter_def)
  show ?case
  proof (cases "found < oq_count q")
    case False
    then show ?thesis by simp
  next
    case True
    have "(if day_matches (oq_cron q) day then day_loop q day (times_of_day (oq_cron q)) found else ([], found)) =
        (?out, found + executed ?out)"
      using day_loop_reference [OF True] by (simp add: Let_def map_filter_simps executed_def)
    then have "days_loop q (day # days) found = ?out @ days_loop q days (found + executed ?out)"
      using True by simp
    also have "?out @ days_loop q days (found + executed ?out) = take_executable (oq_count q - found)
        (List.map_filter (occurrence_at q) (?day day) @ List.map_filter (occurrence_at q) (concat (map ?day days)))"
      unfolding Cons.IH take_executable_append by (simp add: diff_diff_eq)
    finally show ?thesis by (simp add: mf)
  qed
qed (simp add: map_filter_simps)

lemma day_filter:
  assumes ok: "cron_ok c"
  shows "filter (cron_matches c) [d * 1440..d * 1440 + 1439] =
    (if day_matches c d then map (\<lambda>t. d * 1440 + t) (times_of_day c) else [])"
proof (rule strict_sorted_equal)
  show "sorted_wrt (<) (filter (cron_matches c) [d * 1440..d * 1440 + 1439])"
    by (intro sorted_wrt_filter sorted_wrt_upto)
  show "sorted_wrt (<) (if day_matches c d then map (\<lambda>t. d * 1440 + t) (times_of_day c) else [])"
    using times_sorted [OF ok] by (simp add: sorted_wrt_map)
  have mem: "l \<in> set (filter (cron_matches c) [d * 1440..d * 1440 + 1439]) \<longleftrightarrow>
      day_matches c d \<and> (\<exists>t \<in> set (times_of_day c). l = d * 1440 + t)" for l
  proof
    assume "l \<in> set (filter (cron_matches c) [d * 1440..d * 1440 + 1439])"
    then have l: "cron_matches c l" "d * 1440 \<le> l" "l \<le> d * 1440 + 1439" by auto
    then have "l div 1440 = d" by (intro int_div_pos_eq [of _ _ _ "l - d * 1440"]) auto
    moreover have "l = l div 1440 * 1440 + l mod 1440" by simp
    ultimately show "day_matches c d \<and> (\<exists>t \<in> set (times_of_day c). l = d * 1440 + t)"
      using time_of_match [OF l(1)] by metis
  next
    assume "day_matches c d \<and> (\<exists>t \<in> set (times_of_day c). l = d * 1440 + t)"
    then show "l \<in> set (filter (cron_matches c) [d * 1440..d * 1440 + 1439])"
      using match_of_time [OF ok] by fastforce
  qed
  show "set (filter (cron_matches c) [d * 1440..d * 1440 + 1439]) =
      set (if day_matches c d then map (\<lambda>t. d * 1440 + t) (times_of_day c) else [])"
    using mem by (auto split: if_splits)
qed

lemma days_concat:
  "concat (map (\<lambda>d. [d * 1440..d * 1440 + 1439]) [a..a + int n]) = [a * 1440..(a + int n) * 1440 + 1439]"
proof (induction n)
  case (Suc n)
  have "[a..a + int (Suc n)] = [a..a + int n] @ [a + int (Suc n)]"
    using upto_rec2 [of a "a + int (Suc n)"] by simp
  moreover have "[a * 1440..(a + int (Suc n)) * 1440 + 1439] =
      [a * 1440..(a + int n) * 1440 + 1439] @ [(a + int (Suc n)) * 1440..(a + int (Suc n)) * 1440 + 1439]"
    using upto_split2 [of "a * 1440" "(a + int n) * 1440 + 1439" "(a + int (Suc n)) * 1440 + 1439"]
    by (simp add: algebra_simps)
  ultimately show ?case using Suc by simp
qed simp

lemma occurrences_reference:
  assumes "cron_ok (oq_cron q)"
  shows "occurrences_of q = reference_occurrences q"
proof -
  let ?c = "oq_cron q" and ?s = "start_local q" and ?a = "start_local q div 1440"
  have "PREVIEW_HORIZON_DAYS = int 1830" by (simp add: PREVIEW_HORIZON_DAYS_def)
  then have "horizon_minutes q = filter (\<lambda>l. ?s \<le> l) (filter (cron_matches ?c)
      (concat (map (\<lambda>d. [d * 1440..d * 1440 + 1439]) [?a..?a + PREVIEW_HORIZON_DAYS])))"
    using days_concat [of ?a 1830] by (simp add: horizon_minutes_def Let_def conj_commute)
  also have "\<dots> = concat (map (\<lambda>d. filter (\<lambda>l. ?s \<le> l) (filter (cron_matches ?c) [d * 1440..d * 1440 + 1439]))
      [?a..?a + PREVIEW_HORIZON_DAYS])"
    unfolding filter_concat map_map comp_def ..
  also have "(\<lambda>d. filter (\<lambda>l. ?s \<le> l) (filter (cron_matches ?c) [d * 1440..d * 1440 + 1439])) =
      (\<lambda>d. if day_matches ?c d then day_minutes q d (times_of_day ?c) else [])"
    unfolding day_filter [OF assms] day_minutes_def by (intro ext) simp
  finally show ?thesis
    by (simp add: occurrences_of_def Let_def days_loop_reference reference_occurrences_def)
qed

lemma reference_sound:
  "sorted_wrt (<) (map oc_local (reference_occurrences q)) \<and>
   (\<forall>x \<in> set (reference_occurrences q). cron_matches (oq_cron q) (oc_local x) \<and> start_local q \<le> oc_local x \<and>
      (\<forall>u. oc_utc x = Some u \<longrightarrow> oq_after q < u))"
proof -
  have at: "oc_local x = l \<and> (\<forall>u. oc_utc x = Some u \<longrightarrow> oq_after q < u)" if "occurrence_at q l = Some x" for l x
    using that by (auto simp: occurrence_at_def Let_def split: prod.splits option.splits if_splits)
  have loc: "map oc_local (List.map_filter (occurrence_at q) ls) = filter (\<lambda>l. occurrence_at q l \<noteq> None) ls" for ls
    using at by (induction ls) (auto simp: map_filter_simps split: option.split)
  have "sorted_wrt (<) (horizon_minutes q)"
    unfolding horizon_minutes_def Let_def by (intro sorted_wrt_filter sorted_wrt_upto)
  then have "sorted_wrt (<) (map oc_local (List.map_filter (occurrence_at q) (horizon_minutes q)))"
    unfolding loc by (rule sorted_wrt_filter)
  moreover obtain zs where zs: "List.map_filter (occurrence_at q) (horizon_minutes q) = reference_occurrences q @ zs"
    using prefix_take_executable unfolding reference_occurrences_def prefix_def by blast
  ultimately have "sorted_wrt (<) (map oc_local (reference_occurrences q))"
    by (simp add: sorted_wrt_append)
  moreover have "\<exists>l \<in> set (horizon_minutes q). occurrence_at q l = Some x" if "x \<in> set (reference_occurrences q)" for x
  proof -
    have "x \<in> set (List.map_filter (occurrence_at q) (horizon_minutes q))" using that zs by simp
    then show ?thesis by (auto simp: List.map_filter_def)
  qed
  ultimately show ?thesis using at unfolding horizon_minutes_def Let_def by fastforce
qed

section \<open>Keys commit to their parts\<close>

lemma utf8_bytes_inj:
  assumes "utf8_bytes s = utf8_bytes t"
  shows "s = t"
proof -
  have "utf8_encode (codes u) = Inr (utf8_bytes u)" for u
    using no_surrogates_codes [of u] by (auto simp: utf8_encode_def utf8_bytes_def list_ex_iff list_all_iff)
  then have "codes s = codes t"
    using utf8_encode_inj [of "codes s" "utf8_bytes s" "codes t"] codes_valid assms by metis
  then show ?thesis by simp
qed

lemma sep_unique:
  fixes c :: char
  assumes "a @ c # b = a' @ c # b'" and "c \<notin> set a" and "c \<notin> set a'"
  shows "a = a' \<and> b = b'"
  using partition_at_append [OF assms(2), of b] partition_at_append [OF assms(3), of b'] assms(1)
  by (metis prod.inject)

lemma occurrence_key_commits:
  assumes "occurrence_key P s tz l = occurrence_key P s' tz' l'"
    and "CHR ''|'' \<notin> set s \<union> set tz \<union> set s' \<union> set tz'"
  shows "collision P \<or> s = s' \<and> tz = tz' \<and> wall_minute l = wall_minute l'"
proof (cases "collision P")
  case False
  then have "utf8_bytes (s @ ''|'' @ tz @ ''|'' @ wall_minute l) = utf8_bytes (s' @ ''|'' @ tz' @ ''|'' @ wall_minute l')"
    using assms(1) unfolding occurrence_key_def sha256_hex_def collision_def by blast
  then have "s @ CHR ''|'' # tz @ CHR ''|'' # wall_minute l = s' @ CHR ''|'' # tz' @ CHR ''|'' # wall_minute l'"
    using utf8_bytes_inj by fastforce
  then show ?thesis using sep_unique assms(2) by (metis UnCI)
qed simp

section \<open>Properties\<close>

text \<open>
  A parsed cron expression is well formed: every field is a non-empty set of values within the
  range of the field, an unrestricted day field holds its whole range, and the normalized text of
  the expression parses back to the very same expression.
\<close>

lemma parse_wellformed:
  assumes "parse expression = Inr c"
  shows "cron_ok c \<and> parse (ce_expression c) = Inr c"
  using parse_ok [OF assms] parse_normal [OF assms] by blast

definition daily :: cron_expression where
  "daily = \<lparr>ce_expression = ''0 0 * * *'', ce_minutes = [0], ce_hours = [0], ce_days_of_month = [1..31],
     ce_months = [1..12], ce_days_of_week = [0..6], ce_dom_restricted = False, ce_dow_restricted = False\<rparr>"

lemma parse_daily: "parse ''  0  0 * * *'' = Inr daily" "parse ''0 0 * * *'' = Inr daily"
  by (simp_all add: daily_def parse_def strip_def is_space_def words_of_def FIELDS_def parse_field_def is_letter_def
      add_part_def parse_part_def parse_step_def parse_range_def is_number_def is_digit_def str_value_def
      digits_value_def digit_val_def check_bound_def steps_def starts_with_def Let_def numeral_eq_Suc)

lemma parse_wellformed_example:
  "parse ''  0  0 * * *'' = Inr daily \<and> cron_ok daily \<and> parse (ce_expression daily) = Inr daily"
  using parse_wellformed [OF parse_daily(1)] parse_daily(1) by blast

text \<open>
  C35. A validated schedule keeps its minimum interval: any two different minutes of the years
  2024 to 2051 at which a validated expression fires are at least the required number of minutes
  apart - within a day and across days, in spite of the early exit of the search.
\<close>

theorem validate_spacing:
  assumes "validate expression m = Inr c" and "cron_matches c l1" and "cron_matches c l2" and "l1 < l2"
    and "l1 div 1440 \<in> set WINDOW" and "l2 div 1440 \<in> set WINDOW"
  shows "m \<le> l2 - l1"
proof -
  obtain i where "parse expression = Inr c" "min_interval_minutes c = Inr i" "1 \<le> m" "m \<le> i"
    using assms(1) by (auto simp: validate_def res_simps split: if_splits)
  then show ?thesis using min_interval_spacing [OF parse_ok] assms(2-6) by blast
qed

lemma new_year: "civil_of_days 19723 = (2024, 1, 1)" "civil_of_days 19724 = (2024, 1, 2)"
  unfolding civil_of_days_def Let_def by simp_all

lemma daily_new_year: "day_matches daily 19723" "day_matches daily 19724"
  by (simp_all add: day_matches_def new_year daily_def)

lemma validate_daily: "validate ''0 0 * * *'' 1440 = Inr daily"
proof -
  have ts: "times_of_day daily = [0]" by (simp add: times_of_day_def daily_def)
  obtain p' r where gl: "gap_loop daily 0 0 WINDOW None 1000000000 = (p', r)" by fastforce
  have "19723 \<in> set WINDOW" by (simp add: set_WINDOW)
  then have "p' \<noteq> None" using gap_loop_reached [OF gl] daily_new_year(1) by blast
  moreover have "1440 \<le> r"
    by (rule gap_loop_lower [OF gl]) (auto intro: sorted_WINDOW)
  ultimately show ?thesis
    by (simp add: validate_def parse_daily min_interval_minutes_def ts gl)
qed

theorem validate_spacing_witness:
  "validate ''0 0 * * *'' 1440 = Inr daily \<and> cron_matches daily (19723 * 1440) \<and> cron_matches daily (19724 * 1440) \<and>
   (1440 :: int) \<le> 19724 * 1440 - 19723 * 1440"
proof -
  have m: "cron_matches daily (19723 * 1440)" "cron_matches daily (19724 * 1440)"
    using daily_new_year by (simp_all add: cron_matches_def) (simp_all add: daily_def)
  have "(1440 :: int) \<le> 19724 * 1440 - 19723 * 1440"
    by (rule validate_spacing [OF validate_daily m]) (simp_all add: set_WINDOW)
  then show ?thesis using validate_daily m by blast
qed

text \<open>
  C36. The search for the next occurrences computes the reference: of all minutes of the five-year
  horizon at which the expression fires, in order, it returns the ones that lie strictly after the
  given instant (and, when asked for, the skipped ones of a daylight-saving gap) up to and including
  the requested number of executable ones; the wall-clock minutes are strictly increasing and no
  more executable occurrences are returned than were asked for.
\<close>

theorem next_occurrences_reference:
  assumes "next_occurrences P zones expression timezone after_utc n schedule_id gaps = Inr out"
  shows "\<exists>q. parse expression = Inr (oq_cron q) \<and> load_zone zones timezone = Inr (oq_zone q) \<and>
    oq_after q = after_utc \<and> oq_count q = n \<and> oq_schedule_id q = schedule_id \<and> oq_timezone q = timezone \<and>
    oq_include_gaps q = gaps \<and> out = reference_occurrences q \<and>
    sorted_wrt (<) (map oc_local out) \<and> (0 \<le> n \<longrightarrow> int (length (filter executable out)) \<le> n) \<and>
    (\<forall>x \<in> set out. cron_matches (oq_cron q) (oc_local x) \<and> (\<forall>u. oc_utc x = Some u \<longrightarrow> after_utc < u))"
proof -
  obtain c z where cz: "parse expression = Inr c" "load_zone zones timezone = Inr z"
    using assms by (auto simp: next_occurrences_def res_simps)
  define q where "q = \<lparr>oq_prims = P, oq_cron = c, oq_timezone = timezone, oq_zone = z, oq_after = after_utc,
    oq_count = n, oq_schedule_id = schedule_id, oq_include_gaps = gaps\<rparr>"
  have "out = occurrences_of q" using assms cz by (simp add: next_occurrences_def q_def)
  also have "\<dots> = reference_occurrences q"
    using parse_ok [OF cz(1)] by (intro occurrences_reference) (simp add: q_def)
  finally have out: "out = reference_occurrences q" .
  have "0 \<le> n \<longrightarrow> int (length (filter executable out)) \<le> n"
    using executed_le [of n] unfolding out reference_occurrences_def executed_def by (simp add: q_def)
  then show ?thesis using reference_sound [of q] out cz by (intro exI [of _ q]) (auto simp: q_def)
qed

text \<open>The zone UTC: wall clock and instant agree.\<close>

definition utc_zone :: tz_zone where
  "utc_zone = \<lparr>tz_to_utc = (\<lambda>_ t. t), tz_from_utc = (\<lambda>t. t)\<rparr>"

theorem next_occurrences_reference_witness:
  "\<exists>out q. next_occurrences toy_prims (\<lambda>_. Some utc_zone) ''0 0 * * *'' ''UTC'' 0 3 ''s'' True = Inr out \<and>
     oq_cron q = daily \<and> out = reference_occurrences q"
proof -
  have "load_zone (\<lambda>_. Some utc_zone) ''UTC'' = Inr utc_zone"
    by (simp add: load_zone_def strip_def is_space_def char_of_def bit_0)
  then obtain out where out: "next_occurrences toy_prims (\<lambda>_. Some utc_zone) ''0 0 * * *'' ''UTC'' 0 3 ''s'' True = Inr out"
    by (simp add: next_occurrences_def parse_daily)
  from next_occurrences_reference [OF out] obtain q where "parse ''0 0 * * *'' = Inr (oq_cron q)" "out = reference_occurrences q"
    by blast
  then have "oq_cron q = daily" "out = reference_occurrences q" using parse_daily(2) by simp_all
  then show ?thesis using out by blast
qed

text \<open>
  C37. Run keys give back what they were made of, so Runs are never confused: the parts of a manual
  key and of a retry key are recovered by splitting at the colons (two retries with the same key
  are the same retry of the same Run), manual, retry and scheduled keys never coincide, and two
  occurrences with the same key have the same schedule, zone and wall-clock minute, or SHA-256 has a
  collision.
\<close>

theorem run_keys_recoverable:
  "(manual_idempotency_key s a k = Inr key \<longrightarrow> split_at (CHR '':'') key = [''MANUAL'', s, a, k]) \<and>
   (retry_idempotency_key r n = Inr key \<and> retry_idempotency_key r' n' = Inr key' \<longrightarrow>
      key = key' \<longleftrightarrow> r = r' \<and> n = n') \<and>
   (manual_idempotency_key s a k = Inr key \<and> retry_idempotency_key r n = Inr key' \<longrightarrow>
      key \<noteq> key' \<and> key \<noteq> scheduled_idempotency_key s' o' \<and> key' \<noteq> scheduled_idempotency_key s' o') \<and>
   (occurrence_key P s z l = occurrence_key P s' z' l' \<and> CHR ''|'' \<notin> set s \<union> set z \<union> set s' \<union> set z' \<longrightarrow>
      collision P \<or> s = s' \<and> z = z' \<and> wall_minute l = wall_minute l')"
proof (intro conjI impI)
  assume "manual_idempotency_key s a k = Inr key"
  then have p: "CHR '':'' \<notin> set s" "CHR '':'' \<notin> set a" "CHR '':'' \<notin> set k"
    and key: "key = ''MANUAL'' @ CHR '':'' # s @ CHR '':'' # a @ CHR '':'' # k"
    by (auto simp: manual_idempotency_key_def split: if_splits)
  show "split_at (CHR '':'') key = [''MANUAL'', s, a, k]"
    unfolding key using p by (simp add: split_at_append split_at_no_sep)
next
  assume h: "retry_idempotency_key r n = Inr key \<and> retry_idempotency_key r' n' = Inr key'"
  then have p: "CHR '':'' \<notin> set r" "CHR '':'' \<notin> set r'" "1 \<le> n" "1 \<le> n'"
    and key: "key = ''RETRY:'' @ r @ CHR '':'' # int_str n" "key' = ''RETRY:'' @ r' @ CHR '':'' # int_str n'"
    by (auto simp: retry_idempotency_key_def split: if_splits)
  have "n = n'" if "int_str n = int_str n'" using that p(3,4) by (simp add: int_str_def)
  then show "key = key' \<longleftrightarrow> r = r' \<and> n = n'"
    unfolding key using sep_unique [OF _ p(1,2)] by auto
next
  assume h: "manual_idempotency_key s a k = Inr key \<and> retry_idempotency_key r n = Inr key'"
  then show "key \<noteq> key'" "key \<noteq> scheduled_idempotency_key s' o'" "key' \<noteq> scheduled_idempotency_key s' o'"
    by (auto simp: manual_idempotency_key_def retry_idempotency_key_def scheduled_idempotency_key_def split: if_splits)
next
  assume "occurrence_key P s z l = occurrence_key P s' z' l' \<and> CHR ''|'' \<notin> set s \<union> set z \<union> set s' \<union> set z'"
  then show "collision P \<or> s = s' \<and> z = z' \<and> wall_minute l = wall_minute l'"
    using occurrence_key_commits by blast
qed

theorem run_keys_recoverable_witness:
  "manual_idempotency_key ''s1'' ''u1'' ''k'' = Inr ''MANUAL:s1:u1:k'' \<and>
   split_at (CHR '':'') ''MANUAL:s1:u1:k'' = [''MANUAL'', ''s1'', ''u1'', ''k'']"
proof -
  have "manual_idempotency_key ''s1'' ''u1'' ''k'' = Inr ''MANUAL:s1:u1:k''"
    by (simp add: manual_idempotency_key_def)
  then show ?thesis using run_keys_recoverable [of "''s1''" "''u1''" "''k''" "''MANUAL:s1:u1:k''"] by blast
qed

end
