(* ===== verification/Schedule_Contract.thy ===== *)
theory Schedule_Contract
  imports Complex_Main Cron "HOL-Library.Multiset"
begin

text \<open>
  The contract of Schedules and Runs: \<^verbatim>\<open>src/server/schedules/contract.py\<close>. Transitions, cancellation, the
  invariant of Run kinds, concurrency, missed Runs and retries. A float (the jitter of a retry) is
  taken as an exact rational number.
\<close>

section \<open>States\<close>

datatype schedule_status = DRAFT | ENABLED | PAUSED | DISABLED

datatype run_state =
    PENDING | DUE | CLAIMED | TASK_CREATED | RUNNING | VERIFYING | SUCCEEDED | FAILED | SKIPPED | TIMED_OUT
  | CANCEL_REQUESTED | CANCELLED

datatype run_kind = SCHEDULED | MANUAL | RETRY

datatype concurrency_policy = FORBID | ALLOW | REPLACE

datatype missed_run_policy = SKIP | RUN_ONCE | BACKFILL_LIMITED

datatype skip_code =
    SKIPPED_CONCURRENCY | SKIPPED_REPLACE_CANCEL_TIMEOUT | SKIPPED_POLICY | SKIPPED_AGENT_UNAVAILABLE | BUDGET_EXCEEDED

definition SCHEDULE_TRANSITIONS :: "schedule_status \<Rightarrow> schedule_status list" where
  "SCHEDULE_TRANSITIONS s = (case s of
      DRAFT \<Rightarrow> [ENABLED, DISABLED] | ENABLED \<Rightarrow> [PAUSED, DISABLED] | PAUSED \<Rightarrow> [ENABLED, DISABLED]
    | DISABLED \<Rightarrow> [])"

definition FINISHED_RUN :: "run_state list" where
  "FINISHED_RUN = [SUCCEEDED, FAILED, SKIPPED, TIMED_OUT, CANCELLED]"

definition PENDING_RUN :: "run_state list" where
  "PENDING_RUN = [PENDING, DUE]"

definition RUNNING_RUN :: "run_state list" where
  "RUNNING_RUN = [CLAIMED, TASK_CREATED, RUNNING, VERIFYING]"

definition RUN_MOVES :: "run_state \<Rightarrow> run_state list" where
  "RUN_MOVES s = (case s of
      PENDING \<Rightarrow> [DUE, CANCELLED, SKIPPED]
    | DUE \<Rightarrow> [CLAIMED, CANCELLED, SKIPPED]
    | CLAIMED \<Rightarrow> [TASK_CREATED, SKIPPED, FAILED, CANCEL_REQUESTED, DUE]
    | TASK_CREATED \<Rightarrow> [RUNNING, FAILED, CANCEL_REQUESTED, TIMED_OUT]
    | RUNNING \<Rightarrow> [VERIFYING, SUCCEEDED, FAILED, TIMED_OUT, CANCEL_REQUESTED]
    | VERIFYING \<Rightarrow> [SUCCEEDED, FAILED, TIMED_OUT, CANCEL_REQUESTED]
    | CANCEL_REQUESTED \<Rightarrow> [CANCELLED, TIMED_OUT]
    | _ \<Rightarrow> [])"

definition schedule_transition :: "schedule_status \<Rightarrow> schedule_status \<Rightarrow> schedule_status res" where
  "schedule_transition current target =
     (if target \<in> set (SCHEDULE_TRANSITIONS current) then Inr target else Inl ''SCHEDULE_TRANSITION_INVALID'')"

definition run_transition :: "run_state \<Rightarrow> run_state \<Rightarrow> run_state res" where
  "run_transition current target =
     (if current \<in> set FINISHED_RUN then Inl ''RUN_TERMINAL_CONFLICT''
      else if target \<notin> set (RUN_MOVES current) then Inl ''RUN_TRANSITION_INVALID''
      else Inr target)"

definition cancel_run :: "run_state \<Rightarrow> run_state res" where
  "cancel_run current =
     (if current \<in> set FINISHED_RUN then Inl ''RUN_TERMINAL_CONFLICT''
      else if current \<in> set PENDING_RUN then Inr CANCELLED
      else if current \<in> set RUNNING_RUN then Inr CANCEL_REQUESTED
      else if current = CANCEL_REQUESTED then Inl ''RUN_CANCEL_ALREADY_REQUESTED''
      else Inl ''RUN_TRANSITION_INVALID'')"

definition check_run_kind :: "run_kind \<Rightarrow> string option \<Rightarrow> string option \<Rightarrow> unit res" where
  "check_run_kind kind occurrence retry_of =
     (if kind = SCHEDULED then
        if \<not> truthy occurrence then Inl ''RUN_KIND_INVARIANT''
        else if retry_of \<noteq> None then Inl ''RUN_KIND_INVARIANT'' else Inr ()
      else if occurrence \<noteq> None then Inl ''RUN_KIND_INVARIANT''
      else if kind = RETRY \<and> \<not> truthy retry_of then Inl ''RUN_KIND_INVARIANT''
      else if kind = MANUAL \<and> retry_of \<noteq> None then Inl ''RUN_KIND_INVARIANT''
      else Inr ())"

section \<open>Concurrency\<close>

datatype concurrency_decision = START_RUN | SKIP_RUN | REPLACE_CANCEL_EXISTING

record concurrency_outcome =
  cc_decision :: concurrency_decision
  cc_error :: "skip_code option"

definition decide_concurrency :: "concurrency_policy \<Rightarrow> bool \<Rightarrow> bool option \<Rightarrow> concurrency_outcome" where
  "decide_concurrency policy active confirmed =
     (if \<not> active then \<lparr>cc_decision = START_RUN, cc_error = None\<rparr>
      else if policy = ALLOW then \<lparr>cc_decision = START_RUN, cc_error = None\<rparr>
      else if policy = FORBID then \<lparr>cc_decision = SKIP_RUN, cc_error = Some SKIPPED_CONCURRENCY\<rparr>
      else case confirmed of
        None \<Rightarrow> \<lparr>cc_decision = REPLACE_CANCEL_EXISTING, cc_error = None\<rparr>
      | Some True \<Rightarrow> \<lparr>cc_decision = START_RUN, cc_error = None\<rparr>
      | Some False \<Rightarrow> \<lparr>cc_decision = SKIP_RUN, cc_error = Some SKIPPED_REPLACE_CANCEL_TIMEOUT\<rparr>)"

definition REPLACE_CANCEL_TIMEOUT :: int where
  "REPLACE_CANCEL_TIMEOUT = seconds 60"

definition replace_cancel_confirmed :: "time \<Rightarrow> time option \<Rightarrow> bool" where
  "replace_cancel_confirmed requested_at confirmed_at =
     (case confirmed_at of None \<Rightarrow> False | Some t \<Rightarrow> t - requested_at \<le> REPLACE_CANCEL_TIMEOUT)"

section \<open>Missed Runs\<close>

record missed_occurrence =
  mo_key :: string
  mo_scheduled_for :: time

record missed_run_plan =
  mp_to_create :: "missed_occurrence list"
  mp_skipped :: "missed_occurrence list"
  mp_warning :: "string option"

definition truncation_warning :: "nat \<Rightarrow> nat \<Rightarrow> int \<Rightarrow> nat \<Rightarrow> nat \<Rightarrow> string" where
  "truncation_warning outside dropped limit created all =
     ''BACKFILL_TRUNCATED: '' @ nat_str outside @ '' outside window, '' @ nat_str dropped @ '' beyond limit '' @
     int_str limit @ ''; created '' @ nat_str created @ '' of '' @ nat_str all @ '' missed occurrences''"

definition plan_missed_runs ::
  "missed_run_policy \<Rightarrow> missed_occurrence list \<Rightarrow> time \<Rightarrow> int \<Rightarrow> int \<Rightarrow> missed_run_plan res" where
  "plan_missed_runs policy missed now window limit =
     (let ordered = sort_key mo_scheduled_for missed in
      if ordered = [] \<or> policy = SKIP then Inr \<lparr>mp_to_create = [], mp_skipped = ordered, mp_warning = None\<rparr>
      else if policy = RUN_ONCE
      then Inr \<lparr>mp_to_create = [last ordered], mp_skipped = butlast ordered, mp_warning = None\<rparr>
      else if window < 0 \<or> limit < 0 then Inl ''BACKFILL_INVALID''
      else
        let start = now - seconds window;
            in_window = filter (\<lambda>m. start \<le> mo_scheduled_for m) ordered;
            outside = filter (\<lambda>m. mo_scheduled_for m < start) ordered;
            chosen = take (nat limit) in_window;
            dropped = drop (nat limit) in_window
        in Inr \<lparr>mp_to_create = chosen, mp_skipped = outside @ dropped,
             mp_warning = (if outside \<noteq> [] \<or> dropped \<noteq> []
               then Some (truncation_warning (length outside) (length dropped) limit (length chosen) (length ordered))
               else None)\<rparr>)"

section \<open>Retries\<close>

definition RETRY_MAX_ATTEMPTS :: int where
  "RETRY_MAX_ATTEMPTS = 3"

definition RETRY_BACKOFF :: "int list" where
  "RETRY_BACKOFF = [1, 5, 25]"

definition RETRY_JITTER_MAX :: rat where
  "RETRY_JITTER_MAX = 1 / 5"

record retry_policy =
  rp_max_attempts :: int
  rp_backoff :: "int list"
  rp_jitter :: rat
  rp_transient :: "string list"

text \<open>\<^verbatim>\<open>__post_init__\<close>\<close>

definition check_retry_policy :: "retry_policy \<Rightarrow> retry_policy res" where
  "check_retry_policy p =
     (if rp_max_attempts p < 1 \<or> RETRY_MAX_ATTEMPTS < rp_max_attempts p then Inl ''RETRY_POLICY_INVALID''
      else if \<not> (0 \<le> rp_jitter p \<and> rp_jitter p \<le> RETRY_JITTER_MAX) then Inl ''RETRY_POLICY_INVALID''
      else Inr p)"

datatype retry_decision = RETRY_AGAIN | FAIL_PERMANENT | FAIL_EXHAUSTED

record retry_outcome =
  ry_decision :: retry_decision
  ry_next_attempt :: "int option"
  ry_delay_min :: "rat option"
  ry_delay_max :: "rat option"

text \<open>Python's index: from the end when negative.\<close>

definition py_item :: "'a list \<Rightarrow> int \<Rightarrow> 'a res" where
  "py_item xs i = (let j = (if i < 0 then i + int (length xs) else i) in
     if j < 0 \<or> int (length xs) \<le> j then Inl ''IndexError'' else Inr (xs ! nat j))"

definition decide_retry :: "retry_policy \<Rightarrow> int \<Rightarrow> string \<Rightarrow> retry_outcome res" where
  "decide_retry p attempt code =
     (let stop = (\<lambda>d. Inr \<lparr>ry_decision = d, ry_next_attempt = None, ry_delay_min = None, ry_delay_max = None\<rparr>) in
      if code \<notin> set (rp_transient p) then stop FAIL_PERMANENT
      else if rp_max_attempts p \<le> attempt then stop FAIL_EXHAUSTED
      else bind_res (py_item (rp_backoff p) (min (attempt - 1) (int (length (rp_backoff p)) - 1))) (\<lambda>base.
        Inr \<lparr>ry_decision = RETRY_AGAIN, ry_next_attempt = Some (attempt + 1), ry_delay_min = Some (rat_of_int base),
          ry_delay_max = Some (rat_of_int base * (1 + rp_jitter p))\<rparr>))"

section \<open>Facts\<close>

lemma cancel_is_transition: "cancel_run s = Inr t \<Longrightarrow> run_transition s t = Inr t"
  by (cases s) (auto simp: cancel_run_def run_transition_def FINISHED_RUN_def PENDING_RUN_def RUNNING_RUN_def RUN_MOVES_def)

text \<open>A Run that is not finished can finish, and a finished one does not move.\<close>

lemma finished_runs_stay: "run_transition s t = Inr u \<Longrightarrow> s \<notin> set FINISHED_RUN \<and> u = t"
  by (simp add: run_transition_def split: if_splits)

lemma unfinished_runs_move: "s \<notin> set FINISHED_RUN \<Longrightarrow> \<exists>t. run_transition s t = Inr t"
  by (cases s) (auto simp: run_transition_def FINISHED_RUN_def RUN_MOVES_def)

text \<open>Attempts are bounded: a retry is a next attempt within the limit of the policy.\<close>

lemma retries_bounded:
  assumes "check_retry_policy p = Inr p" and "decide_retry p attempt code = Inr r" and "ry_next_attempt r = Some n"
  shows "n = attempt + 1" and "n \<le> RETRY_MAX_ATTEMPTS" and "code \<in> set (rp_transient p)"
  using assms by (auto simp: check_retry_policy_def decide_retry_def Let_def bind_res_eq_Inr split: if_splits)

lemma sorted_last_max:
  assumes "sorted (map f xs)" and "x \<in> set xs"
  shows "f x \<le> (f (last xs) :: 'a::linorder)"
proof (cases xs rule: rev_cases)
  case (snoc ys y)
  then show ?thesis using assms by (auto simp: sorted_append)
qed (use assms(2) in simp)

text \<open>What becomes of the missed occurrences: a partition into created and skipped ones.\<close>

lemma missed_plan_partition:
  assumes "plan_missed_runs policy missed now window limit = Inr p"
  shows "mset (mp_to_create p) + mset (mp_skipped p) = mset missed"
proof -
  let ?o = "sort_key mo_scheduled_for missed"
  have o: "mset ?o = mset missed" by simp
  consider "p = \<lparr>mp_to_create = [], mp_skipped = ?o, mp_warning = None\<rparr>"
    | "?o \<noteq> []" "p = \<lparr>mp_to_create = [last ?o], mp_skipped = butlast ?o, mp_warning = None\<rparr>"
    | s where "mp_to_create p = take (nat limit) (filter (\<lambda>m. s \<le> mo_scheduled_for m) ?o)"
        "mp_skipped p = filter (\<lambda>m. mo_scheduled_for m < s) ?o @ drop (nat limit) (filter (\<lambda>m. s \<le> mo_scheduled_for m) ?o)"
    using assms by (auto simp: plan_missed_runs_def Let_def split: if_splits)
  then show ?thesis
  proof cases
    case 2
    have "mset (butlast ?o @ [last ?o]) = mset missed" unfolding append_butlast_last_id [OF 2(1)] using o .
    then show ?thesis unfolding 2(2) by simp
  next
    case (3 s)
    have "mset (take (nat limit) ys) + mset (drop (nat limit) ys) = mset ys" for ys :: "missed_occurrence list"
      by (metis append_take_drop_id mset_append)
    then have "mset (mp_to_create p) + mset (mp_skipped p) =
        mset (filter (\<lambda>m. mo_scheduled_for m < s) ?o) + mset (filter (\<lambda>m. s \<le> mo_scheduled_for m) ?o)"
      using 3 by (simp add: union_lcomm)
    also have "\<dots> = mset ?o"
      using multiset_partition [of "mset ?o" "\<lambda>m. mo_scheduled_for m < s"] by (simp add: not_less)
    finally show ?thesis using o by simp
  qed simp
qed


text \<open>
  C40. The plan for missed Runs after a downtime: every missed occurrence is either created or skipped,
  exactly once and with its original instant. SKIP creates none, RUN_ONCE only the latest, and
  BACKFILL_LIMITED the oldest ones within its window, at most as many as its limit; it warns exactly
  when it skips something. The plan fails only for a negative window or limit.
\<close>

theorem missed_runs_planned:
  assumes "missed \<noteq> []"
  shows "(\<forall>p. plan_missed_runs policy missed now window limit = Inr p \<longrightarrow>
      mset (mp_to_create p) + mset (mp_skipped p) = mset missed \<and>
      (policy = SKIP \<longrightarrow> mp_to_create p = []) \<and>
      (policy = RUN_ONCE \<longrightarrow> (\<exists>m \<in> set missed. mp_to_create p = [m] \<and>
         (\<forall>x \<in> set missed. mo_scheduled_for x \<le> mo_scheduled_for m))) \<and>
      (policy = BACKFILL_LIMITED \<longrightarrow> int (length (mp_to_create p)) \<le> limit \<and>
         (\<forall>x \<in> set (mp_to_create p). now - seconds window \<le> mo_scheduled_for x) \<and>
         (\<forall>x \<in> set (mp_to_create p). \<forall>y \<in> set (mp_skipped p). now - seconds window \<le> mo_scheduled_for y \<longrightarrow>
            int (length (mp_to_create p)) = limit \<and> mo_scheduled_for x \<le> mo_scheduled_for y) \<and>
         (mp_warning p = None \<longleftrightarrow> mp_skipped p = []))) \<and>
    ((\<exists>e. plan_missed_runs policy missed now window limit = Inl e) \<longleftrightarrow>
       policy = BACKFILL_LIMITED \<and> (window < 0 \<or> limit < 0))"
proof (intro conjI allI impI ballI)
  let ?o = "sort_key mo_scheduled_for missed"
  have o: "?o \<noteq> []" using assms by (metis set_sort set_empty)
  show "(\<exists>e. plan_missed_runs policy missed now window limit = Inl e) \<longleftrightarrow>
      policy = BACKFILL_LIMITED \<and> (window < 0 \<or> limit < 0)"
    using o by (cases policy) (auto simp: plan_missed_runs_def Let_def)
  fix p assume p: "plan_missed_runs policy missed now window limit = Inr p"
  show "mset (mp_to_create p) + mset (mp_skipped p) = mset missed" by (rule missed_plan_partition [OF p])
  show "mp_to_create p = []" if "policy = SKIP" using p that by (auto simp: plan_missed_runs_def Let_def)
  show "\<exists>m \<in> set missed. mp_to_create p = [m] \<and> (\<forall>x \<in> set missed. mo_scheduled_for x \<le> mo_scheduled_for m)"
    if "policy = RUN_ONCE"
  proof (intro bexI conjI ballI)
    show "mp_to_create p = [last ?o]" using p that o by (auto simp: plan_missed_runs_def Let_def)
    show "last ?o \<in> set missed" using last_in_set [OF o] by simp
    show "mo_scheduled_for x \<le> mo_scheduled_for (last ?o)" if "x \<in> set missed" for x
      using sorted_last_max [of mo_scheduled_for ?o x] that by simp
  qed
  assume b: "policy = BACKFILL_LIMITED"
  let ?s = "now - seconds window"
  let ?in = "filter (\<lambda>m. ?s \<le> mo_scheduled_for m) ?o"
  have "p = \<lparr>mp_to_create = take (nat limit) ?in, mp_skipped = filter (\<lambda>m. mo_scheduled_for m < ?s) ?o @ drop (nat limit) ?in,
      mp_warning = mp_warning p\<rparr>" and "0 \<le> limit"
    and w: "mp_warning p = None \<longleftrightarrow> mp_skipped p = []"
    using p b o by (auto simp: plan_missed_runs_def Let_def split: if_splits)
  then have pc: "mp_to_create p = take (nat limit) ?in" and ps: "mp_skipped p = filter (\<lambda>m. mo_scheduled_for m < ?s) ?o @ drop (nat limit) ?in"
    by (metis missed_run_plan.select_convs(1), metis missed_run_plan.select_convs(2))
  show "mp_warning p = None \<longleftrightarrow> mp_skipped p = []" by (rule w)
  show "int (length (mp_to_create p)) \<le> limit" using pc \<open>0 \<le> limit\<close> by simp
  show "?s \<le> mo_scheduled_for x" if "x \<in> set (mp_to_create p)" for x
    using that pc by (auto dest: in_set_takeD)
  have s: "sorted (map mo_scheduled_for (take (nat limit) ?in @ drop (nat limit) ?in))"
    by (simp add: sorted_filter)
  show "int (length (mp_to_create p)) = limit" "mo_scheduled_for x \<le> mo_scheduled_for y"
    if "x \<in> set (mp_to_create p)" and y: "y \<in> set (mp_skipped p)" "?s \<le> mo_scheduled_for y" for x y
  proof -
    have d: "y \<in> set (drop (nat limit) ?in)" using y ps by auto
    then have "nat limit < length ?in" by (metis drop_eq_Nil empty_iff list.set(1) not_le)
    then show "int (length (mp_to_create p)) = limit" using pc \<open>0 \<le> limit\<close> by simp
    show "mo_scheduled_for x \<le> mo_scheduled_for y"
      using s d that(1) pc unfolding map_append sorted_append by auto
  qed
qed

theorem missed_runs_planned_witness:
  "\<exists>p. plan_missed_runs BACKFILL_LIMITED [\<lparr>mo_key = ''b'', mo_scheduled_for = 20\<rparr>, \<lparr>mo_key = ''a'', mo_scheduled_for = 10\<rparr>] 30 1 1 = Inr p \<and>
     int (length (mp_to_create p)) \<le> 1 \<and> mp_warning p \<noteq> None"
proof -
  let ?m = "[\<lparr>mo_key = ''b'', mo_scheduled_for = 20\<rparr>, \<lparr>mo_key = ''a'', mo_scheduled_for = 10\<rparr>]"
  obtain p where p: "plan_missed_runs BACKFILL_LIMITED ?m 30 1 1 = Inr p" "mp_skipped p \<noteq> []"
    by (simp add: plan_missed_runs_def Let_def seconds_def)
  then show ?thesis using missed_runs_planned [of ?m BACKFILL_LIMITED 30 1 1] by simp
qed

end
