(* ===== verification/Planner.thy ===== *)
theory Planner
  imports Schedule_Contract
begin

text \<open>
  The occurrence planner: \<^verbatim>\<open>src/server/schedules/planner.py\<close> on the rows of \<^verbatim>\<open>schedules/store.py\<close> that it
  reads and writes. A tick plans the enabled Schedules of a Workspace whose rows no other planner has
  locked. The columns that it neither reads nor writes are left out.
\<close>

section \<open>Rows\<close>

record schedule_row =
  sr_schedule_id :: string
  sr_workspace :: string
  sr_status :: schedule_status
  sr_current_version :: "string option"
  sr_next_run_at :: "time option"
  sr_last_planned_until :: "time option"

record version_row =
  vr_id :: string
  vr_schedule_id :: string
  vr_cron :: string
  vr_timezone :: string
  vr_missed_policy :: string
  vr_backfill_limit :: int
  vr_backfill_window :: int
  vr_min_interval :: int
  vr_starts_at :: "time option"
  vr_ends_at :: "time option"
  vr_snapshot_hash :: string

record run_row =
  ru_run_id :: string
  ru_workspace :: string
  ru_schedule_id :: string
  ru_version :: string
  ru_kind :: run_kind
  ru_occurrence :: "string option"
  ru_scheduled_for :: time
  ru_local :: "int option"
  ru_retry_of :: "string option"
  ru_request_key :: "string option"
  ru_status :: run_state
  ru_idempotency_key :: string
  ru_version_hash :: string
  ru_requested_by :: "string option"
  ru_note :: "string option"
  ru_created_at :: time

record planner_note =
  pn_schedule_id :: string
  pn_key :: string
  pn_local :: "string option"
  pn_scheduled_for :: "time option"
  pn_reason :: string
  pn_detail :: "string option"
  pn_noted_at :: time

record planner_world =
  pl_schedules :: "schedule_row list"
  pl_versions :: "version_row list"
  pl_runs :: "run_row list"
  pl_notes :: "planner_note list"
  pl_drawn :: nat

record planner_env =
  pe_prims :: prims
  pe_zones :: "string \<Rightarrow> tz_zone option"
  pe_now :: time

definition load_version :: "planner_world \<Rightarrow> string \<Rightarrow> version_row option" where
  "load_version w version_id = List.find (\<lambda>v. vr_id v = version_id) (pl_versions w)"

text \<open>The unique constraints of \<^verbatim>\<open>schedule_runs\<close>, and its check of the kind.\<close>

definition run_conflict :: "run_row \<Rightarrow> run_row \<Rightarrow> bool" where
  "run_conflict r x \<longleftrightarrow>
     ru_run_id x = ru_run_id r \<or>
     ru_schedule_id x = ru_schedule_id r \<and>
       (ru_idempotency_key x = ru_idempotency_key r \<or>
        ru_occurrence r \<noteq> None \<and> ru_occurrence x = ru_occurrence r \<or>
        ru_kind x = ru_kind r \<and> ru_request_key r \<noteq> None \<and> ru_request_key x = ru_request_key r)"

definition run_kind_ok :: "run_row \<Rightarrow> bool" where
  "run_kind_ok r \<longleftrightarrow> (case ru_kind r of
      SCHEDULED \<Rightarrow> ru_occurrence r \<noteq> None \<and> ru_retry_of r = None
    | MANUAL \<Rightarrow> ru_occurrence r = None \<and> ru_retry_of r = None
    | RETRY \<Rightarrow> ru_occurrence r = None \<and> ru_retry_of r \<noteq> None)"

text \<open>\<^verbatim>\<open>ON CONFLICT DO NOTHING RETURNING run_id\<close>; the row gets a fresh Run identifier.\<close>

definition insert_run_row ::
  "prims \<Rightarrow> run_row \<Rightarrow> planner_world \<Rightarrow> (planner_world \<times> string option) res" where
  "insert_run_row P row w =
     (let r = row\<lparr>ru_run_id := ''run-'' @ take 16 (uuid_hex P (pl_drawn w))\<rparr>;
          w1 = w\<lparr>pl_drawn := pl_drawn w + 1\<rparr>
      in if \<not> run_kind_ok r then Inl ''IntegrityError''
         else if list_ex (run_conflict r) (pl_runs w) then Inr (w1, None)
         else Inr (w1\<lparr>pl_runs := pl_runs w @ [r]\<rparr>, Some (ru_run_id r)))"

definition add_planner_note :: "planner_note \<Rightarrow> planner_world \<Rightarrow> planner_world" where
  "add_planner_note n w =
     (if list_ex (\<lambda>x. pn_schedule_id x = pn_schedule_id n \<and> pn_key x = pn_key n \<and> pn_reason x = pn_reason n) (pl_notes w)
      then w else w\<lparr>pl_notes := pl_notes w @ [n]\<rparr>)"

definition update_schedule :: "string \<Rightarrow> time \<Rightarrow> time option \<Rightarrow> planner_world \<Rightarrow> planner_world" where
  "update_schedule schedule_id planned_until next_run w =
     w\<lparr>pl_schedules := map (\<lambda>s. if sr_schedule_id s = schedule_id
       then s\<lparr>sr_last_planned_until := Some planned_until, sr_next_run_at := next_run\<rparr> else s) (pl_schedules w)\<rparr>"

section \<open>Occurrences of a window\<close>

definition DEFAULT_HORIZON_S :: int where
  "DEFAULT_HORIZON_S = 900"

definition MAX_OCCURRENCES_PER_TICK :: int where
  "MAX_OCCURRENCES_PER_TICK = 500"

text \<open>\<^verbatim>\<open>math.ceil\<close> of the quotient, without the rounding of the float division.\<close>

definition expected_count :: "time \<Rightarrow> int \<Rightarrow> int" where
  "expected_count window min_interval =
     (let per = seconds (max 1 min_interval * 60) in
      max 1 (min MAX_OCCURRENCES_PER_TICK (- ((- window) div per) + 2)))"

fun until_end :: "time \<Rightarrow> occurrence list \<Rightarrow> occurrence list" where
  "until_end til [] = []"
| "until_end til (x # xs) =
     (case oc_utc x of
        None \<Rightarrow> x # until_end til xs
      | Some utc \<Rightarrow> if til < utc then [] else x # until_end til xs)"

definition window_occurrences :: "planner_env \<Rightarrow> version_row \<Rightarrow> time \<Rightarrow> time \<Rightarrow> occurrence list res" where
  "window_occurrences E v after til =
     bind_res (next_occurrences (pe_prims E) (pe_zones E) (vr_cron v) (vr_timezone v) after
        (expected_count (max 0 (til - after)) (vr_min_interval v)) (vr_schedule_id v) True) (\<lambda>xs.
       Inr (until_end til xs))"

definition within_validity :: "version_row \<Rightarrow> time \<Rightarrow> bool" where
  "within_validity v t \<longleftrightarrow>
     \<not> (case vr_starts_at v of None \<Rightarrow> False | Some s \<Rightarrow> t < s) \<and>
     \<not> (case vr_ends_at v of None \<Rightarrow> False | Some e \<Rightarrow> e < t)"

section \<open>Planning a Schedule\<close>

record plan_result =
  pr_schedule_id :: string
  pr_created :: "string list"
  pr_missed_created :: "string list"
  pr_skipped :: int
  pr_gaps :: int
  pr_warning :: "string option"
  pr_next_run_at :: "time option"

definition missed_policy_of :: "string \<Rightarrow> missed_run_policy res" where
  "missed_policy_of s =
     (if s = ''SKIP'' then Inr SKIP else if s = ''RUN_ONCE'' then Inr RUN_ONCE
      else if s = ''BACKFILL_LIMITED'' then Inr BACKFILL_LIMITED else Inl ''ValueError'')"

definition scheduled_run ::
  "planner_env \<Rightarrow> schedule_row \<Rightarrow> version_row \<Rightarrow> string \<Rightarrow> time \<Rightarrow> int option \<Rightarrow> string option \<Rightarrow> run_row" where
  "scheduled_run E s v key utc local note =
     \<lparr>ru_run_id = [], ru_workspace = sr_workspace s, ru_schedule_id = sr_schedule_id s, ru_version = vr_id v,
      ru_kind = SCHEDULED, ru_occurrence = Some key, ru_scheduled_for = utc, ru_local = local, ru_retry_of = None,
      ru_request_key = None, ru_status = PENDING,
      ru_idempotency_key = scheduled_idempotency_key (sr_schedule_id s) key,
      ru_version_hash = vr_snapshot_hash v, ru_requested_by = None, ru_note = note, ru_created_at = pe_now E\<rparr>"

record plan_state =
  ps_world :: planner_world
  ps_created :: "string list"
  ps_gaps :: int
  ps_missed :: "missed_occurrence list"
  ps_locals :: "(string \<times> int) list"

definition gap_note :: "planner_env \<Rightarrow> schedule_row \<Rightarrow> occurrence \<Rightarrow> planner_note" where
  "gap_note E s x =
     \<lparr>pn_schedule_id = sr_schedule_id s, pn_key = oc_key x, pn_local = Some (wall_minute (oc_local x)),
      pn_scheduled_for = None, pn_reason = ''DST_GAP'',
      pn_detail = Some ''non-existent local time; occurrence skipped'', pn_noted_at = pe_now E\<rparr>"

text \<open>One round of the loop over the occurrences.\<close>

definition plan_occurrence ::
  "planner_env \<Rightarrow> schedule_row \<Rightarrow> version_row \<Rightarrow> occurrence \<Rightarrow> plan_state \<Rightarrow> plan_state res" where
  "plan_occurrence E s v x p =
     (case oc_utc x of
        None \<Rightarrow> Inr (p\<lparr>ps_gaps := ps_gaps p + 1, ps_world := add_planner_note (gap_note E s x) (ps_world p)\<rparr>)
      | Some utc \<Rightarrow>
          if \<not> within_validity v utc then Inr p
          else let p1 = p\<lparr>ps_locals := (oc_key x, oc_local x) # ps_locals p\<rparr> in
            if utc \<le> pe_now E
            then Inr (p1\<lparr>ps_missed := ps_missed p @ [\<lparr>mo_key = oc_key x, mo_scheduled_for = utc\<rparr>]\<rparr>)
            else bind_res (insert_run_row (pe_prims E)
                (scheduled_run E s v (oc_key x) utc (Some (oc_local x)) None) (ps_world p)) (\<lambda>(w, r).
              Inr (p1\<lparr>ps_world := w,
                ps_created := (case r of None \<Rightarrow> ps_created p | Some i \<Rightarrow> ps_created p @ [i])\<rparr>)))"

definition create_missed ::
  "planner_env \<Rightarrow> schedule_row \<Rightarrow> version_row \<Rightarrow> (string \<times> int) list \<Rightarrow> missed_occurrence
    \<Rightarrow> planner_world \<times> string list \<Rightarrow> (planner_world \<times> string list) res" where
  "create_missed E s v locals m = (\<lambda>(w, ids).
     bind_res (insert_run_row (pe_prims E) (scheduled_run E s v (mo_key m) (mo_scheduled_for m)
         (map_of locals (mo_key m)) (Some (''MISSED_'' @ vr_missed_policy v))) w) (\<lambda>(w1, r).
       Inr (w1, case r of None \<Rightarrow> ids | Some i \<Rightarrow> ids @ [i])))"

definition skip_note ::
  "planner_env \<Rightarrow> schedule_row \<Rightarrow> version_row \<Rightarrow> string option \<Rightarrow> missed_occurrence \<Rightarrow> planner_note" where
  "skip_note E s v warning m =
     \<lparr>pn_schedule_id = sr_schedule_id s, pn_key = mo_key m, pn_local = None, pn_scheduled_for = Some (mo_scheduled_for m),
      pn_reason = ''MISSED_SKIPPED_'' @ vr_missed_policy v, pn_detail = warning, pn_noted_at = pe_now E\<rparr>"

definition warn_of_truncation ::
  "planner_env \<Rightarrow> schedule_row \<Rightarrow> string option \<Rightarrow> planner_world \<Rightarrow> planner_world" where
  "warn_of_truncation E s warning w =
     (if \<not> truthy warning then w
      else add_planner_note
        \<lparr>pn_schedule_id = sr_schedule_id s, pn_key = ''warn-'' @ take 12 (uuid_hex (pe_prims E) (pl_drawn w)),
         pn_local = None, pn_scheduled_for = None, pn_reason = ''BACKFILL_TRUNCATED'', pn_detail = warning,
         pn_noted_at = pe_now E\<rparr> (w\<lparr>pl_drawn := pl_drawn w + 1\<rparr>))"

definition planned_from :: "planner_env \<Rightarrow> schedule_row \<Rightarrow> time" where
  "planned_from E s = get_default (pe_now E) (sr_last_planned_until s)"

definition plan_schedule ::
  "planner_env \<Rightarrow> int \<Rightarrow> schedule_row \<Rightarrow> version_row \<Rightarrow> planner_world \<Rightarrow> (planner_world \<times> plan_result) res" where
  "plan_schedule E horizon_s s v w =
     (let now = pe_now E; window_end = now + seconds horizon_s in
      bind_res (window_occurrences E v (planned_from E s) window_end) (\<lambda>occs.
      bind_res (fold_res (plan_occurrence E s v) occs
         \<lparr>ps_world = w, ps_created = [], ps_gaps = 0, ps_missed = [], ps_locals = []\<rparr>) (\<lambda>p.
      bind_res (missed_policy_of (vr_missed_policy v)) (\<lambda>policy.
      bind_res (plan_missed_runs policy (ps_missed p) now (vr_backfill_window v) (vr_backfill_limit v)) (\<lambda>plan.
      bind_res (fold_res (create_missed E s v (ps_locals p)) (mp_to_create plan) (ps_world p, [])) (\<lambda>(w1, missed_created).
      let w2 = fold (\<lambda>m. add_planner_note (skip_note E s v (mp_warning plan) m)) (mp_skipped plan) w1;
          w3 = warn_of_truncation E s (mp_warning plan) w2
      in bind_res (next_occurrences (pe_prims E) (pe_zones E) (vr_cron v) (vr_timezone v) now 1 (sr_schedule_id s) False)
        (\<lambda>upcoming.
        let next_run = (case upcoming of [] \<Rightarrow> None | x # _ \<Rightarrow> oc_utc x) in
        Inr (update_schedule (sr_schedule_id s) window_end next_run w3,
          \<lparr>pr_schedule_id = sr_schedule_id s, pr_created = ps_created p, pr_missed_created = missed_created,
           pr_skipped = int (length (mp_skipped plan)), pr_gaps = ps_gaps p, pr_warning = mp_warning plan,
           pr_next_run_at = next_run\<rparr>))))))))"

section \<open>Planning a Workspace\<close>

text \<open>\<open>locked\<close> are the Schedules whose rows another transaction holds (\<^verbatim>\<open>SKIP LOCKED\<close>).\<close>

definition enabled_schedules :: "string list \<Rightarrow> string \<Rightarrow> planner_world \<Rightarrow> schedule_row list" where
  "enabled_schedules locked workspace w =
     sort_key sr_schedule_id (filter (\<lambda>s. sr_workspace s = workspace \<and> sr_status s = ENABLED \<and>
       sr_schedule_id s \<notin> set locked) (pl_schedules w))"

definition plan_one ::
  "planner_env \<Rightarrow> int \<Rightarrow> schedule_row \<Rightarrow> planner_world \<times> plan_result list \<Rightarrow> (planner_world \<times> plan_result list) res" where
  "plan_one E horizon_s s = (\<lambda>(w, out).
     case Option.bind (sr_current_version s) (load_version w) of
       None \<Rightarrow> Inr (w, out)
     | Some v \<Rightarrow> bind_res (plan_schedule E horizon_s s v w) (\<lambda>(w1, r). Inr (w1, out @ [r])))"

definition plan_workspace ::
  "planner_env \<Rightarrow> int \<Rightarrow> string list \<Rightarrow> string \<Rightarrow> planner_world \<Rightarrow> (planner_world \<times> plan_result list) res" where
  "plan_workspace E horizon_s locked workspace w =
     fold_res (plan_one E horizon_s) (enabled_schedules locked workspace w) (w, [])"

definition materialize ::
  "planner_env \<Rightarrow> int \<Rightarrow> string list \<Rightarrow> string \<Rightarrow> planner_world \<Rightarrow> (planner_world \<times> int) res" where
  "materialize E horizon_s locked workspace w =
     bind_res (plan_workspace E horizon_s locked workspace w) (\<lambda>(w1, rs).
       Inr (w1, sum_list (map (\<lambda>r. int (length (pr_created r)) + int (length (pr_missed_created r))) rs)))"

end
