(* ===== verification/Planner_Properties.thy ===== *)
theory Planner_Properties
  imports Planner
begin

text \<open>
  What the planner promises: one Run per occurrence whoever plans and how often, and for one Schedule
  exactly the Runs and notes that its occurrences in the window call for.
\<close>

section \<open>Inserting Runs\<close>

definition same_pin :: "run_row \<Rightarrow> run_row \<Rightarrow> bool" where
  "same_pin x y \<longleftrightarrow> ru_run_id y = ru_run_id x \<and> ru_schedule_id y = ru_schedule_id x \<and> ru_version y = ru_version x \<and>
     ru_version_hash y = ru_version_hash x \<and> ru_kind y = ru_kind x \<and> ru_occurrence y = ru_occurrence x \<and>
     ru_idempotency_key y = ru_idempotency_key x \<and> ru_request_key y = ru_request_key x \<and>
     ru_scheduled_for y = ru_scheduled_for x"

lemma same_pin_refl [simp]: "same_pin x x"
  by (simp add: same_pin_def)

lemma same_pin_trans: "same_pin x y \<Longrightarrow> same_pin y z \<Longrightarrow> same_pin x z"
  by (simp add: same_pin_def)

definition runs_unique :: "run_row list \<Rightarrow> bool" where
  "runs_unique rs \<longleftrightarrow> sorted_wrt (\<lambda>x y. \<not> run_conflict y x) rs"

lemma insert_run_cases:
  assumes "insert_run_row P row w = Inr (w', i)"
  obtains x where "x \<in> set (pl_runs w)" and "run_conflict (row\<lparr>ru_run_id := ''run-'' @ take 16 (uuid_hex P (pl_drawn w))\<rparr>) x"
      and "i = None" and "w' = w\<lparr>pl_drawn := pl_drawn w + 1\<rparr>"
  | r where "r = row\<lparr>ru_run_id := ''run-'' @ take 16 (uuid_hex P (pl_drawn w))\<rparr>"
      and "\<forall>x \<in> set (pl_runs w). \<not> run_conflict r x" and "i = Some (ru_run_id r)"
      and "w' = w\<lparr>pl_drawn := pl_drawn w + 1, pl_runs := pl_runs w @ [r]\<rparr>"
  using assms by (auto simp: insert_run_row_def Let_def list_ex_iff split: if_splits)

text \<open>What a call does to the Runs: it keeps those there are, in order, and appends new ones.\<close>

definition appends_runs :: "planner_world \<Rightarrow> planner_world \<Rightarrow> bool" where
  "appends_runs w w' \<longleftrightarrow> (\<exists>new. pl_runs w' = pl_runs w @ new) \<and> (runs_unique (pl_runs w) \<longrightarrow> runs_unique (pl_runs w'))"

lemma appends_runs_same: "pl_runs w' = pl_runs w \<Longrightarrow> appends_runs w w'"
  by (simp add: appends_runs_def)

lemma appends_runs_refl [simp]: "appends_runs w w" "appends_runs w (add_planner_note n w)"
  by (simp_all add: appends_runs_def add_planner_note_def)

lemma appends_runs_trans: "appends_runs u v \<Longrightarrow> appends_runs v w \<Longrightarrow> appends_runs u w"
  by (auto simp: appends_runs_def)

lemma insert_run_appends: "insert_run_row P row w = Inr (w', i) \<Longrightarrow> appends_runs w w'"
  by (erule insert_run_cases) (auto simp: appends_runs_def runs_unique_def sorted_wrt_append)

lemma add_note_runs [simp]: "pl_runs (add_planner_note n w) = pl_runs w" "pl_drawn (add_planner_note n w) = pl_drawn w"
  by (simp_all add: add_planner_note_def)

lemma fold_notes_runs [simp]:
  "pl_runs (fold (\<lambda>m. add_planner_note (f m)) ms w) = pl_runs w"
  by (induction ms arbitrary: w) simp_all

lemma warn_runs [simp]: "pl_runs (warn_of_truncation E s x w) = pl_runs w"
  by (simp add: warn_of_truncation_def)

lemma update_schedule_runs [simp]: "pl_runs (update_schedule i t n w) = pl_runs w"
  by (simp add: update_schedule_def)

lemma plan_occurrence_cases:
  assumes "plan_occurrence E s v x p = Inr p'"
  obtains "oc_utc x = None" and "p' = p\<lparr>ps_gaps := ps_gaps p + 1, ps_world := add_planner_note (gap_note E s x) (ps_world p)\<rparr>"
  | utc where "oc_utc x = Some utc" and "\<not> within_validity v utc" and "p' = p"
  | utc where "oc_utc x = Some utc" and "within_validity v utc" and "utc \<le> pe_now E"
      and "p' = p\<lparr>ps_locals := (oc_key x, oc_local x) # ps_locals p,
        ps_missed := ps_missed p @ [\<lparr>mo_key = oc_key x, mo_scheduled_for = utc\<rparr>]\<rparr>"
  | utc w i where "oc_utc x = Some utc" and "within_validity v utc" and "pe_now E < utc"
      and "insert_run_row (pe_prims E) (scheduled_run E s v (oc_key x) utc (Some (oc_local x)) None) (ps_world p) = Inr (w, i)"
      and "ps_world p' = w" and "ps_missed p' = ps_missed p" and "ps_gaps p' = ps_gaps p"
proof (cases "oc_utc x")
  case None
  then show ?thesis using assms that(1) by (simp add: plan_occurrence_def)
next
  case (Some utc)
  consider "\<not> within_validity v utc" | "within_validity v utc" "utc \<le> pe_now E" | "within_validity v utc" "pe_now E < utc"
    by linarith
  then show ?thesis
  proof cases
    case 3
    let ?r = "insert_run_row (pe_prims E) (scheduled_run E s v (oc_key x) utc (Some (oc_local x)) None) (ps_world p)"
    have e: "plan_occurrence E s v x p = bind_res ?r (\<lambda>(w, i). Inr (p\<lparr>ps_locals := (oc_key x, oc_local x) # ps_locals p,
        ps_world := w, ps_created := (case i of None \<Rightarrow> ps_created p | Some i \<Rightarrow> ps_created p @ [i])\<rparr>))"
      using Some 3 by (simp add: plan_occurrence_def Let_def)
    obtain w i where r: "?r = Inr (w, i)" using assms unfolding e by (cases ?r) auto
    then have "p' = p\<lparr>ps_locals := (oc_key x, oc_local x) # ps_locals p, ps_world := w,
        ps_created := (case i of None \<Rightarrow> ps_created p | Some i \<Rightarrow> ps_created p @ [i])\<rparr>"
      using assms unfolding e by simp
    with r show ?thesis using that(4) Some 3 by simp
  qed (use assms Some that(2,3) in \<open>simp_all add: plan_occurrence_def Let_def\<close>)
qed

lemma plan_occurrence_appends:
  assumes "plan_occurrence E s v x p = Inr p'"
  shows "appends_runs (ps_world p) (ps_world p')"
  using assms by (cases rule: plan_occurrence_cases) (simp_all add: insert_run_appends)

lemma create_missed_appends: "create_missed E s v ls m a = Inr a' \<Longrightarrow> appends_runs (fst a) (fst a')"
  by (cases a) (auto simp: create_missed_def bind_res_eq_Inr intro: insert_run_appends)

lemma fold_appends:
  assumes "\<And>x a a'. f x a = Inr a' \<Longrightarrow> appends_runs (g a) (g a')" and "fold_res f xs a = Inr a'"
  shows "appends_runs (g a) (g a')"
  using assms(2)
  by (induction xs arbitrary: a) (auto simp: bind_res_eq_Inr intro: appends_runs_trans assms(1))

text \<open>The parts of a successful plan.\<close>

lemma plan_schedule_parts:
  assumes "plan_schedule E h s v w = Inr (w', r)"
  obtains occs p policy plan w1 ids upcoming where
    "window_occurrences E v (planned_from E s) (pe_now E + seconds h) = Inr occs"
    and "fold_res (plan_occurrence E s v) occs
      \<lparr>ps_world = w, ps_created = [], ps_gaps = 0, ps_missed = [], ps_locals = []\<rparr> = Inr p"
    and "missed_policy_of (vr_missed_policy v) = Inr policy"
    and "plan_missed_runs policy (ps_missed p) (pe_now E) (vr_backfill_window v) (vr_backfill_limit v) = Inr plan"
    and "fold_res (create_missed E s v (ps_locals p)) (mp_to_create plan) (ps_world p, []) = Inr (w1, ids)"
    and "w' = update_schedule (sr_schedule_id s) (pe_now E + seconds h) (pr_next_run_at r)
      (warn_of_truncation E s (mp_warning plan) (fold (\<lambda>m. add_planner_note (skip_note E s v (mp_warning plan) m)) (mp_skipped plan) w1))"
    and "pr_created r = ps_created p" and "pr_missed_created r = ids" and "pr_gaps r = ps_gaps p"
  using assms by (auto simp: plan_schedule_def Let_def bind_res_eq_Inr)

lemma plan_schedule_appends:
  assumes "plan_schedule E h s v w = Inr (w', r)"
  shows "appends_runs w w'"
proof (rule plan_schedule_parts [OF assms])
  fix occs p policy plan w1 ids upcoming
  assume p: "fold_res (plan_occurrence E s v) occs
      \<lparr>ps_world = w, ps_created = [], ps_gaps = 0, ps_missed = [], ps_locals = []\<rparr> = Inr p"
    and m: "fold_res (create_missed E s v (ps_locals p)) (mp_to_create plan) (ps_world p, []) = Inr (w1, ids)"
    and w': "w' = update_schedule (sr_schedule_id s) (pe_now E + seconds h) (pr_next_run_at r)
      (warn_of_truncation E s (mp_warning plan) (fold (\<lambda>m. add_planner_note (skip_note E s v (mp_warning plan) m)) (mp_skipped plan) w1))"
  have "appends_runs w (ps_world p)"
    using fold_appends [of "plan_occurrence E s v" ps_world, OF plan_occurrence_appends p] by simp
  moreover have "appends_runs (ps_world p) w1"
    using fold_appends [of "create_missed E s v (ps_locals p)" fst, OF create_missed_appends m] by simp
  moreover have "appends_runs w1 w'" by (rule appends_runs_same) (simp add: w')
  ultimately show ?thesis by (blast intro: appends_runs_trans)
qed

lemma plan_one_appends: "plan_one E h s a = Inr a' \<Longrightarrow> appends_runs (fst a) (fst a')"
  by (cases a) (auto simp: plan_one_def bind_res_eq_Inr split: option.splits dest: plan_schedule_appends)

lemma materialize_appends: "materialize E h locked ws w = Inr (w', n) \<Longrightarrow> appends_runs w w'"
  using fold_appends [of "plan_one E h" fst, OF plan_one_appends]
  by (fastforce simp: materialize_def plan_workspace_def bind_res_eq_Inr)

section \<open>One Run per occurrence\<close>

text \<open>
  What happens to the Runs: ticks of any planner with any clock, insertions by the commands, and
  updates of the columns that are not pinned. A tick that raises is rolled back.
\<close>

inductive planner_step :: "planner_world \<Rightarrow> planner_world \<Rightarrow> bool" where
  tick: "planner_step w w'" if "materialize E h locked ws w = Inr (w', n)"
| inserted: "planner_step w w'" if "insert_run_row P row w = Inr (w', i)"
| updated: "planner_step w w'" if "list_all2 same_pin (pl_runs w) (pl_runs w')"

abbreviation planner_steps where
  "planner_steps \<equiv> planner_step\<^sup>*\<^sup>*"

lemma run_conflict_pin: "same_pin x x' \<Longrightarrow> same_pin y y' \<Longrightarrow> run_conflict y' x' = run_conflict y x"
  by (simp add: run_conflict_def same_pin_def)

lemma pinned_unique:
  assumes "list_all2 same_pin xs ys" and "runs_unique xs"
  shows "runs_unique ys"
  unfolding runs_unique_def sorted_wrt_iff_nth_less
proof (intro allI impI)
  fix i j assume ij: "i < j" "j < length ys"
  have "same_pin (xs ! i) (ys ! i)" "same_pin (xs ! j) (ys ! j)" "j < length xs"
    using assms(1) ij by (simp_all add: list_all2_conv_all_nth)
  moreover have "\<not> run_conflict (xs ! j) (xs ! i)"
    using assms(2) ij(1) calculation(3) by (simp add: runs_unique_def sorted_wrt_iff_nth_less)
  ultimately show "\<not> run_conflict (ys ! j) (ys ! i)" using run_conflict_pin by simp
qed

lemma planner_step_runs:
  assumes "planner_step w w'"
  shows "(runs_unique (pl_runs w) \<longrightarrow> runs_unique (pl_runs w')) \<and>
    (\<exists>old new. pl_runs w' = old @ new \<and> list_all2 same_pin (pl_runs w) old)"
  using assms
proof cases
  case (tick E h locked ws n)
  from materialize_appends [OF this] show ?thesis
    by (auto simp: appends_runs_def list_all2_refl)
next
  case (inserted P row i)
  from insert_run_appends [OF this] show ?thesis
    by (auto simp: appends_runs_def list_all2_refl)
next
  case updated
  then show ?thesis using pinned_unique by (intro conjI exI [of _ "pl_runs w'"] exI [of _ "[]"]) auto
qed

lemma planner_steps_runs:
  assumes "planner_steps w w'" and "runs_unique (pl_runs w)"
  shows "runs_unique (pl_runs w') \<and> (\<exists>old new. pl_runs w' = old @ new \<and> list_all2 same_pin (pl_runs w) old)"
  using assms(1)
proof (induction rule: rtranclp_induct)
  case (step y z)
  obtain old new where y: "pl_runs y = old @ new" "list_all2 same_pin (pl_runs w) old" using step.IH by blast
  obtain old' new' where z: "pl_runs z = old' @ new'" "list_all2 same_pin (pl_runs y) old'"
    using planner_step_runs [OF step.hyps(2)] by blast
  obtain a b where ab: "old' = a @ b" "list_all2 same_pin old a" using z(2) unfolding y(1) list_all2_append1 by blast
  have "list_all2 same_pin (pl_runs w) a"
    using list_all2_trans [of same_pin same_pin same_pin] same_pin_trans y(2) ab(2) by blast
  then have "\<exists>old new. pl_runs z = old @ new \<and> list_all2 same_pin (pl_runs w) old"
    using z(1) ab(1) by (intro exI [of _ a] exI [of _ "b @ new'"]) simp
  then show ?case using planner_step_runs [OF step.hyps(2)] step.IH by blast
next
  case base
  have "list_all2 same_pin (pl_runs w) (pl_runs w)" by (simp add: list_all2_refl)
  then show ?case using assms(2) by (intro conjI exI [of _ "pl_runs w"] exI [of _ "[]"]) simp_all
qed

text \<open>
  C38. However many planners tick, with whatever clocks, between manual and retry Runs and updates by the
  rest of the system, an occurrence of a Schedule has at most one Run, as has an idempotency key;
  and a Run once there stays, with its version, its kind and its original instant.
\<close>

theorem one_run_per_occurrence:
  assumes "pl_runs w0 = []" and "planner_steps w0 w" and "planner_steps w w'"
    and "i < length (pl_runs w')" and "j < length (pl_runs w')" and "i \<noteq> j"
    and "ru_schedule_id (pl_runs w' ! i) = ru_schedule_id (pl_runs w' ! j)"
  shows "ru_idempotency_key (pl_runs w' ! i) \<noteq> ru_idempotency_key (pl_runs w' ! j) \<and>
    (ru_occurrence (pl_runs w' ! i) \<noteq> None \<longrightarrow> ru_occurrence (pl_runs w' ! i) \<noteq> ru_occurrence (pl_runs w' ! j)) \<and>
    (\<forall>k < length (pl_runs w). k < length (pl_runs w') \<and> same_pin (pl_runs w ! k) (pl_runs w' ! k))"
proof -
  have u: "runs_unique (pl_runs w)" using planner_steps_runs [OF assms(2)] assms(1) by (simp add: runs_unique_def)
  obtain old new where on: "pl_runs w' = old @ new" "list_all2 same_pin (pl_runs w) old" and u': "runs_unique (pl_runs w')"
    using planner_steps_runs [OF assms(3) u] by blast
  have c: "\<not> run_conflict (pl_runs w' ! b) (pl_runs w' ! a)" if "a < b" "b < length (pl_runs w')" for a b
    using u' that by (simp add: runs_unique_def sorted_wrt_iff_nth_less)
  have "k < length (pl_runs w') \<and> same_pin (pl_runs w ! k) (pl_runs w' ! k)" if "k < length (pl_runs w)" for k
    using that on by (auto simp: list_all2_conv_all_nth nth_append)
  moreover have "ru_idempotency_key (pl_runs w' ! i) \<noteq> ru_idempotency_key (pl_runs w' ! j) \<and>
    (ru_occurrence (pl_runs w' ! i) \<noteq> None \<longrightarrow> ru_occurrence (pl_runs w' ! i) \<noteq> ru_occurrence (pl_runs w' ! j))"
    using c [of i j] c [of j i] assms(4-7) by (auto simp: run_conflict_def neq_iff)
  ultimately show ?thesis by blast
qed

lemma insert_run_ok: "run_kind_ok row \<Longrightarrow> \<exists>w' i. insert_run_row P row w = Inr (w', i)"
  by (cases "ru_kind row") (auto simp: insert_run_row_def run_kind_ok_def Let_def)

definition toy_manual :: "string \<Rightarrow> run_row" where
  "toy_manual key =
     \<lparr>ru_run_id = [], ru_workspace = ''ws'', ru_schedule_id = ''s'', ru_version = ''v'', ru_kind = MANUAL,
      ru_occurrence = None, ru_scheduled_for = 0, ru_local = None, ru_retry_of = None, ru_request_key = Some key,
      ru_status = PENDING, ru_idempotency_key = key, ru_version_hash = ''h'', ru_requested_by = None,
      ru_note = None, ru_created_at = 0\<rparr>"

definition no_runs :: planner_world where
  "no_runs = \<lparr>pl_schedules = [], pl_versions = [], pl_runs = [], pl_notes = [], pl_drawn = 0\<rparr>"

theorem one_run_per_occurrence_witness:
  "\<exists>w w'. planner_steps no_runs w \<and> planner_steps w w' \<and> length (pl_runs w) = 1 \<and> length (pl_runs w') = 2 \<and>
     ru_idempotency_key (pl_runs w' ! 0) \<noteq> ru_idempotency_key (pl_runs w' ! 1) \<and> same_pin (pl_runs w ! 0) (pl_runs w' ! 0)"
proof -
  define w where "w = fst (projr (insert_run_row toy_prims (toy_manual ''a'') no_runs))"
  define w' where "w' = fst (projr (insert_run_row toy_prims (toy_manual ''b'') w))"
  note defs = insert_run_row_def Let_def run_kind_ok_def toy_manual_def run_conflict_def toy_prims_def
  have n: "nat_str 0 = ''0''" "nat_str (Suc 0) = ''1''" by (simp_all add: nat_str_def dec_digits.simps digit_char_def char_of_def bit_0)
  have 1: "insert_run_row toy_prims (toy_manual ''a'') no_runs = Inr (w, Some ''run-0'')"
    by (simp add: w_def no_runs_def defs n)
  have 2: "insert_run_row toy_prims (toy_manual ''b'') w = Inr (w', Some ''run-1'')"
    by (simp add: w'_def w_def no_runs_def defs n)
  have steps: "planner_steps no_runs w" "planner_steps w w'"
    using planner_step.inserted [OF 1] planner_step.inserted [OF 2] by (simp_all add: r_into_rtranclp)
  have l: "length (pl_runs w) = 1" "length (pl_runs w') = 2" "pl_runs no_runs = []"
    "ru_schedule_id (pl_runs w' ! 0) = ru_schedule_id (pl_runs w' ! 1)"
    by (simp_all add: w'_def w_def no_runs_def defs n)
  then have "ru_idempotency_key (pl_runs w' ! 0) \<noteq> ru_idempotency_key (pl_runs w' ! 1) \<and>
      (\<forall>k < length (pl_runs w). k < length (pl_runs w') \<and> same_pin (pl_runs w ! k) (pl_runs w' ! k))"
    using one_run_per_occurrence [of no_runs w w' 0 1, OF l(3) steps] by simp
  then show ?thesis using steps l by (intro exI [of _ w] exI [of _ w']) simp
qed

section \<open>The plan of one Schedule\<close>

text \<open>
  The identifiers of the draws before \<open>N\<close> that are still to come are different, and no Run has one.
\<close>

definition run_id_of :: "prims \<Rightarrow> nat \<Rightarrow> string" where
  "run_id_of P n = ''run-'' @ take 16 (uuid_hex P n)"

definition fresh_run_ids :: "prims \<Rightarrow> nat \<Rightarrow> planner_world \<Rightarrow> bool" where
  "fresh_run_ids P N w \<longleftrightarrow> inj_on (run_id_of P) {pl_drawn w..<N} \<and>
     (\<forall>r \<in> set (pl_runs w). \<forall>n \<in> {pl_drawn w..<N}. ru_run_id r \<noteq> run_id_of P n)"

lemma insert_run_drawn: "insert_run_row P row w = Inr (w', i) \<Longrightarrow> pl_drawn w' = pl_drawn w + 1"
  by (erule insert_run_cases) simp_all

lemma insert_run_fresh:
  assumes "insert_run_row P row w = Inr (w', i)" and "fresh_run_ids P N w"
  shows "fresh_run_ids P N w'"
  using assms(1)
proof (cases rule: insert_run_cases)
  case (1 x)
  then show ?thesis using assms(2) by (auto simp: fresh_run_ids_def intro: inj_on_subset)
next
  case (2 r)
  have i: "inj_on (run_id_of P) {pl_drawn w..<N}" using assms(2) by (simp add: fresh_run_ids_def)
  have "ru_run_id r = run_id_of P (pl_drawn w)" by (simp add: 2(1) run_id_of_def)
  then have "ru_run_id r \<noteq> run_id_of P n" if "n \<in> {pl_drawn w + 1..<N}" for n
    using inj_onD [OF i, of "pl_drawn w" n] that by auto
  moreover have "inj_on (run_id_of P) {pl_drawn w + 1..<N}" using i by (rule inj_on_subset) auto
  ultimately show ?thesis using assms(2) unfolding 2(4) by (auto simp: fresh_run_ids_def)
qed

definition has_run :: "planner_world \<Rightarrow> string \<Rightarrow> string \<Rightarrow> bool" where
  "has_run w sid key \<longleftrightarrow> (\<exists>r \<in> set (pl_runs w). ru_schedule_id r = sid \<and>
     (ru_occurrence r = Some key \<or> ru_idempotency_key r = scheduled_idempotency_key sid key))"

text \<open>The Runs that a call adds are Runs of given occurrences.\<close>

definition adds_runs :: "planner_env \<Rightarrow> schedule_row \<Rightarrow> version_row \<Rightarrow> (string \<times> time) set \<Rightarrow> planner_world \<Rightarrow> planner_world \<Rightarrow> bool" where
  "adds_runs E s v A w w' \<longleftrightarrow> (\<exists>new. pl_runs w' = pl_runs w @ new \<and>
     (\<forall>r \<in> set new. \<exists>key u local note. (key, u) \<in> A \<and>
        r = (scheduled_run E s v key u local note)\<lparr>ru_run_id := ru_run_id r\<rparr>))"

lemma adds_runs_same: "pl_runs w' = pl_runs w \<Longrightarrow> adds_runs E s v A w w'"
  by (simp add: adds_runs_def)

lemma adds_runs_trans: "adds_runs E s v A u w \<Longrightarrow> adds_runs E s v B w x \<Longrightarrow> adds_runs E s v (A \<union> B) u x"
  unfolding adds_runs_def by (elim exE conjE) (intro exI conjI, simp, fastforce)

lemma adds_runs_mono: "adds_runs E s v A w w' \<Longrightarrow> A \<subseteq> B \<Longrightarrow> adds_runs E s v B w w'"
  unfolding adds_runs_def by blast

lemma adds_runs_has: "adds_runs E s v A w w' \<Longrightarrow> has_run w sid key \<Longrightarrow> has_run w' sid key"
  by (auto simp: adds_runs_def has_run_def)

lemma insert_scheduled:
  assumes "insert_run_row P (scheduled_run E s v key u local note) w = Inr (w', i)" and "fresh_run_ids P N w"
    and "pl_drawn w < N"
  shows "has_run w' (sr_schedule_id s) key" and "adds_runs E s v {(key, u)} w w'"
proof -
  have "has_run w' (sr_schedule_id s) key \<and> adds_runs E s v {(key, u)} w w'"
    using assms(1)
  proof (cases rule: insert_run_cases)
    case (1 x)
    have "ru_run_id x \<noteq> ''run-'' @ take 16 (uuid_hex P (pl_drawn w))"
      using assms(2,3) 1(1) by (auto simp: fresh_run_ids_def run_id_of_def)
    then have "ru_schedule_id x = sr_schedule_id s \<and>
        (ru_occurrence x = Some key \<or> ru_idempotency_key x = scheduled_idempotency_key (sr_schedule_id s) key)"
      using 1(2) by (auto simp: run_conflict_def scheduled_run_def)
    then show ?thesis using 1(1,4) by (auto simp: has_run_def intro: adds_runs_same)
  next
    case (2 r)
    have "r = (scheduled_run E s v key u local note)\<lparr>ru_run_id := ru_run_id r\<rparr>" using 2(1) by simp
    then have "adds_runs E s v {(key, u)} w w'" unfolding adds_runs_def 2(4) by (intro exI [of _ "[r]"]) auto
    moreover have "has_run w' (sr_schedule_id s) key"
      unfolding has_run_def 2(4) using 2(1) by (intro bexI [of _ r]) (simp_all add: scheduled_run_def)
    ultimately show ?thesis by blast
  qed
  then show "has_run w' (sr_schedule_id s) key" "adds_runs E s v {(key, u)} w w'" by blast+
qed

subsection \<open>The occurrences of the window\<close>

lemma until_end_uncut:
  assumes "executed (until_end til (take_executable n xs)) < n"
  shows "until_end til (take_executable n xs) = until_end til xs"
  using assms
proof (induction xs arbitrary: n)
  case (Cons x xs)
  show ?case
    using Cons.IH [of n] Cons.IH [of "n - 1"] Cons.prems
    by (cases "oc_utc x") (auto simp: executable_def split: if_splits)
qed simp

lemma until_end_bound: "x \<in> set (until_end til xs) \<Longrightarrow> x \<in> set xs \<and> (\<forall>u. oc_utc x = Some u \<longrightarrow> u \<le> til)"
  by (induction xs) (auto split: option.splits if_splits)

definition window_query :: "planner_env \<Rightarrow> version_row \<Rightarrow> time \<Rightarrow> time \<Rightarrow> cron_expression \<Rightarrow> tz_zone \<Rightarrow> occ_query" where
  "window_query E v after til c z = \<lparr>oq_prims = pe_prims E, oq_cron = c, oq_timezone = vr_timezone v, oq_zone = z,
     oq_after = after, oq_count = expected_count (max 0 (til - after)) (vr_min_interval v),
     oq_schedule_id = vr_schedule_id v, oq_include_gaps = True\<rparr>"

lemma window_occurrences_result:
  assumes "window_occurrences E v after til = Inr occs"
  obtains c z where "parse (vr_cron v) = Inr c" and "load_zone (pe_zones E) (vr_timezone v) = Inr z"
    and "occs = until_end til (reference_occurrences (window_query E v after til c z))"
proof -
  obtain c z where cz: "parse (vr_cron v) = Inr c" "load_zone (pe_zones E) (vr_timezone v) = Inr z"
    and occs: "occs = until_end til (occurrences_of (window_query E v after til c z))"
    using assms by (auto simp: window_occurrences_def next_occurrences_def window_query_def bind_res_eq_Inr)
  have "cron_ok (oq_cron (window_query E v after til c z))" using parse_ok [OF cz(1)] by (simp add: window_query_def)
  then show thesis using that cz occs occurrences_reference by metis
qed

lemma window_occurrences_uncut:
  assumes "executed (until_end til (reference_occurrences q)) < oq_count q"
  shows "until_end til (reference_occurrences q) = until_end til (List.map_filter (occurrence_at q) (horizon_minutes q))"
  using assms until_end_uncut unfolding reference_occurrences_def by blast

lemma window_occurrences_sound:
  assumes "x \<in> set (until_end til (reference_occurrences q))" and "oc_utc x = Some u"
  shows "cron_matches (oq_cron q) (oc_local x)" and "oq_after q < u" and "u \<le> til"
  using until_end_bound [OF assms(1)] reference_sound [of q] assms(2) by auto

lemma window_occurrences_limit:
  assumes "window_occurrences E v after til = Inr occs"
  shows "executed occs \<le> MAX_OCCURRENCES_PER_TICK"
proof (rule window_occurrences_result [OF assms])
  fix c z
  let ?q = "window_query E v after til c z"
  assume occs: "occs = until_end til (reference_occurrences ?q)"
  have "executed (until_end til xs) \<le> executed xs" for xs
    by (induction xs) (auto split: option.splits simp: executed_def)
  moreover have "executed (reference_occurrences ?q) \<le> oq_count ?q"
    unfolding reference_occurrences_def by (rule executed_le) (simp add: window_query_def expected_count_def Let_def)
  moreover have "oq_count ?q \<le> MAX_OCCURRENCES_PER_TICK"
    by (simp add: window_query_def expected_count_def Let_def MAX_OCCURRENCES_PER_TICK_def)
  ultimately show "executed occs \<le> MAX_OCCURRENCES_PER_TICK" unfolding occs by (meson order_trans)
qed

subsection \<open>The loops\<close>

definition upcoming :: "planner_env \<Rightarrow> version_row \<Rightarrow> occurrence list \<Rightarrow> (string \<times> time) set" where
  "upcoming E v occs = {(oc_key x, u) |x u. x \<in> set occs \<and> oc_utc x = Some u \<and> within_validity v u \<and> pe_now E < u}"

definition missed_of :: "planner_env \<Rightarrow> version_row \<Rightarrow> occurrence list \<Rightarrow> missed_occurrence list" where
  "missed_of E v occs = List.map_filter (\<lambda>x. case oc_utc x of None \<Rightarrow> None
     | Some u \<Rightarrow> if within_validity v u \<and> u \<le> pe_now E then Some \<lparr>mo_key = oc_key x, mo_scheduled_for = u\<rparr> else None) occs"

definition noted :: "planner_world \<Rightarrow> string \<Rightarrow> string \<Rightarrow> string \<Rightarrow> bool" where
  "noted w sid key reason \<longleftrightarrow> (\<exists>n \<in> set (pl_notes w). pn_schedule_id n = sid \<and> pn_key n = key \<and> pn_reason n = reason)"

lemma noted_added: "noted (add_planner_note n w) (pn_schedule_id n) (pn_key n) (pn_reason n)"
  by (auto simp: noted_def add_planner_note_def list_ex_iff)

lemma noted_kept [intro]: "noted w sid key reason \<Longrightarrow> noted (add_planner_note n w) sid key reason"
  by (auto simp: noted_def add_planner_note_def)

lemma noted_fold:
  "noted w sid key reason \<Longrightarrow> noted (fold (\<lambda>m. add_planner_note (f m)) ms w) sid key reason"
  by (induction ms arbitrary: w) auto

lemma noted_fold_added:
  "m \<in> set ms \<Longrightarrow> noted (fold (\<lambda>m. add_planner_note (f m)) ms w) (pn_schedule_id (f m)) (pn_key (f m)) (pn_reason (f m))"
proof (induction ms arbitrary: w)
  case (Cons x ms)
  then show ?case using noted_fold [OF noted_added [of "f m" w]] by (cases "m = x") auto
qed simp

lemma fresh_notes [simp]: "fresh_run_ids P N (add_planner_note n w) = fresh_run_ids P N w"
  by (simp add: fresh_run_ids_def)

text \<open>What the rest of a loop keeps.\<close>

definition kept :: "planner_world \<Rightarrow> planner_world \<Rightarrow> bool" where
  "kept w w' \<longleftrightarrow> (\<forall>sid key. has_run w sid key \<longrightarrow> has_run w' sid key) \<and>
     (\<forall>sid key reason. noted w sid key reason \<longrightarrow> noted w' sid key reason)"

lemma kept_trans: "kept u v \<Longrightarrow> kept v w \<Longrightarrow> kept u w"
  by (simp add: kept_def)

lemma kept_refl [simp]: "kept w w" "kept w (add_planner_note n w)"
  by (auto simp: kept_def has_run_def)

lemma insert_run_kept: "insert_run_row P row w = Inr (w', i) \<Longrightarrow> kept w w'"
  by (erule insert_run_cases) (auto simp: kept_def has_run_def noted_def)

lemma plan_occurrence_spec:
  assumes "plan_occurrence E s v x p = Inr p'" and "fresh_run_ids (pe_prims E) N (ps_world p)"
    and "executable x \<Longrightarrow> pl_drawn (ps_world p) < N"
  shows "fresh_run_ids (pe_prims E) N (ps_world p') \<and> kept (ps_world p) (ps_world p') \<and>
    pl_drawn (ps_world p') + length (ps_missed p') \<le>
      pl_drawn (ps_world p) + length (ps_missed p) + of_bool (executable x) \<and>
    adds_runs E s v (upcoming E v [x]) (ps_world p) (ps_world p') \<and>
    (\<forall>(key, u) \<in> upcoming E v [x]. has_run (ps_world p') (sr_schedule_id s) key) \<and>
    ps_missed p' = ps_missed p @ missed_of E v [x] \<and>
    (oc_utc x = None \<longrightarrow> noted (ps_world p') (sr_schedule_id s) (oc_key x) ''DST_GAP'')"
  using assms(1)
proof (cases rule: plan_occurrence_cases)
  case 1
  have "noted (add_planner_note (gap_note E s x) (ps_world p)) (sr_schedule_id s) (oc_key x) ''DST_GAP''"
    using noted_added [of "gap_note E s x"] by (simp add: gap_note_def)
  then show ?thesis using 1 assms(2) by (simp add: upcoming_def missed_of_def map_filter_simps adds_runs_same)
next
  case (4 utc w i)
  then have u: "upcoming E v [x] = {(oc_key x, utc)}" by (auto simp: upcoming_def)
  show ?thesis
    using insert_scheduled [OF 4(4) assms(2)] insert_run_fresh [OF 4(4) assms(2)] insert_run_kept [OF 4(4)]
      insert_run_drawn [OF 4(4)] 4 assms(3)
    by (simp add: u missed_of_def map_filter_simps executable_def)
qed (use assms(2) in \<open>auto simp: executable_def upcoming_def missed_of_def map_filter_simps adds_runs_same\<close>)

lemma upcoming_Cons: "upcoming E v (x # xs) = upcoming E v [x] \<union> upcoming E v xs"
  by (auto simp: upcoming_def)

lemma missed_of_Cons: "missed_of E v (x # xs) = missed_of E v [x] @ missed_of E v xs"
  by (simp add: missed_of_def map_filter_simps split: option.split)

lemma plan_loop_spec:
  assumes "fold_res (plan_occurrence E s v) occs p = Inr p'" and "fresh_run_ids (pe_prims E) N (ps_world p)"
    and "pl_drawn (ps_world p) + length (ps_missed p) + length (filter executable occs) \<le> N"
  shows "fresh_run_ids (pe_prims E) N (ps_world p') \<and> kept (ps_world p) (ps_world p') \<and>
    pl_drawn (ps_world p') + length (ps_missed p') \<le>
      pl_drawn (ps_world p) + length (ps_missed p) + length (filter executable occs) \<and>
    adds_runs E s v (upcoming E v occs) (ps_world p) (ps_world p') \<and>
    (\<forall>(key, u) \<in> upcoming E v occs. has_run (ps_world p') (sr_schedule_id s) key) \<and>
    ps_missed p' = ps_missed p @ missed_of E v occs \<and>
    (\<forall>x \<in> set occs. oc_utc x = None \<longrightarrow> noted (ps_world p') (sr_schedule_id s) (oc_key x) ''DST_GAP'')"
  using assms
proof (induction occs arbitrary: p)
  case Nil
  then show ?case by (auto simp: upcoming_def missed_of_def map_filter_simps adds_runs_same)
next
  case (Cons x xs)
  obtain p1 where p1: "plan_occurrence E s v x p = Inr p1" and rest: "fold_res (plan_occurrence E s v) xs p1 = Inr p'"
    using Cons.prems(1) by (auto simp: bind_res_eq_Inr)
  have one: "fresh_run_ids (pe_prims E) N (ps_world p1) \<and> kept (ps_world p) (ps_world p1) \<and>
    pl_drawn (ps_world p1) + length (ps_missed p1) \<le>
      pl_drawn (ps_world p) + length (ps_missed p) + of_bool (executable x) \<and>
    adds_runs E s v (upcoming E v [x]) (ps_world p) (ps_world p1) \<and>
    (\<forall>(key, u) \<in> upcoming E v [x]. has_run (ps_world p1) (sr_schedule_id s) key) \<and>
    ps_missed p1 = ps_missed p @ missed_of E v [x] \<and>
    (oc_utc x = None \<longrightarrow> noted (ps_world p1) (sr_schedule_id s) (oc_key x) ''DST_GAP'')"
    by (rule plan_occurrence_spec [OF p1 Cons.prems(2)]) (use Cons.prems(3) in simp)
  have n: "pl_drawn (ps_world p1) + length (ps_missed p1) + length (filter executable xs) \<le> N"
    using one Cons.prems(3) by (auto split: if_splits)
  note IH = Cons.IH [OF rest conjunct1 [OF one] n]
  have k: "kept (ps_world p1) (ps_world p')" using IH by blast
  have "adds_runs E s v (upcoming E v (x # xs)) (ps_world p) (ps_world p')"
    unfolding upcoming_Cons [of E v x xs] using one IH adds_runs_trans by blast
  moreover have "has_run (ps_world p') (sr_schedule_id s) key" if "(key, u) \<in> upcoming E v (x # xs)" for key u
  proof (cases "(key, u) \<in> upcoming E v xs")
    case True
    then show ?thesis using IH by blast
  next
    case False
    then have "(key, u) \<in> upcoming E v [x]" using that upcoming_Cons by blast
    then have "has_run (ps_world p1) (sr_schedule_id s) key" using one by blast
    then show ?thesis using k by (simp add: kept_def)
  qed
  moreover have "noted (ps_world p') (sr_schedule_id s) (oc_key y) ''DST_GAP''" if "y \<in> set (x # xs)" "oc_utc y = None" for y
  proof (cases "y \<in> set xs")
    case True
    then show ?thesis using IH that(2) by blast
  next
    case False
    then have "noted (ps_world p1) (sr_schedule_id s) (oc_key y) ''DST_GAP''" using one that by simp
    then show ?thesis using k by (simp add: kept_def)
  qed
  moreover have "ps_missed p' = ps_missed p @ missed_of E v (x # xs)"
    using one IH missed_of_Cons [of E v x xs] by simp
  moreover have "pl_drawn (ps_world p') + length (ps_missed p') \<le>
      pl_drawn (ps_world p) + length (ps_missed p) + length (filter executable (x # xs))"
    using IH one by (auto split: if_splits)
  moreover have "fresh_run_ids (pe_prims E) N (ps_world p')" "kept (ps_world p) (ps_world p')"
    using IH one kept_trans by blast+
  ultimately show ?case by blast
qed

lemma create_loop_spec:
  assumes "fold_res (create_missed E s v ls) ms (w, ids) = Inr (w', ids')" and "fresh_run_ids (pe_prims E) N w"
    and "pl_drawn w + length ms \<le> N"
  shows "kept w w' \<and> adds_runs E s v ((\<lambda>m. (mo_key m, mo_scheduled_for m)) ` set ms) w w' \<and>
    (\<forall>m \<in> set ms. has_run w' (sr_schedule_id s) (mo_key m))"
  using assms
proof (induction ms arbitrary: w ids)
  case (Cons m ms)
  obtain w1 i ids1 where ins: "insert_run_row (pe_prims E) (scheduled_run E s v (mo_key m) (mo_scheduled_for m)
      (map_of ls (mo_key m)) (Some (''MISSED_'' @ vr_missed_policy v))) w = Inr (w1, i)"
    and rest: "fold_res (create_missed E s v ls) ms (w1, ids1) = Inr (w', ids')"
  proof -
    obtain b where b: "create_missed E s v ls m (w, ids) = Inr b" "fold_res (create_missed E s v ls) ms b = Inr (w', ids')"
      using Cons.prems(1) by (auto simp: bind_res_eq_Inr)
    obtain w1 ids1 where "b = (w1, ids1)" by (cases b)
    then show thesis using that b by (auto simp: create_missed_def bind_res_eq_Inr)
  qed
  have n: "pl_drawn w < N" "pl_drawn w1 + length ms \<le> N" using Cons.prems(3) insert_run_drawn [OF ins] by simp_all
  note IH = Cons.IH [OF rest insert_run_fresh [OF ins Cons.prems(2)] n(2)]
  note one = insert_scheduled [OF ins Cons.prems(2) n(1)]
  have "adds_runs E s v ({(mo_key m, mo_scheduled_for m)} \<union> (\<lambda>m. (mo_key m, mo_scheduled_for m)) ` set ms) w w'"
    using one(2) IH adds_runs_trans by blast
  moreover have "has_run w' (sr_schedule_id s) (mo_key m)" using IH one(1) by (simp add: kept_def)
  ultimately show ?case using IH insert_run_kept [OF ins] kept_trans by auto
qed (simp add: adds_runs_same)

subsection \<open>The whole plan\<close>

lemma executable_count: "length (filter executable occs) = nat (executed occs)"
  by (simp add: executed_def)

lemma missed_of_length: "length (missed_of E v occs) \<le> length (filter executable occs)"
  by (induction occs) (auto simp: missed_of_def map_filter_simps executable_def split: option.splits)

lemma planned_length:
  assumes "plan_missed_runs policy missed now window limit = Inr plan"
  shows "length (mp_to_create plan) \<le> length missed"
proof -
  have "size (mset (mp_to_create plan) + mset (mp_skipped plan)) = size (mset missed)"
    using missed_plan_partition [OF assms] by simp
  then show ?thesis by simp
qed

lemma noted_warn: "noted w sid key reason \<Longrightarrow> noted (warn_of_truncation E s x w) sid key reason"
  by (auto simp: warn_of_truncation_def noted_def add_planner_note_def)

lemma noted_update [simp]: "noted (update_schedule i t n w) = noted w"
  by (simp add: noted_def [abs_def] update_schedule_def)

text \<open>The occurrences a Schedule is to have a Run of: the upcoming ones, and the missed ones its policy chooses.\<close>

definition due_runs :: "planner_env \<Rightarrow> version_row \<Rightarrow> occurrence list \<Rightarrow> missed_run_plan \<Rightarrow> (string \<times> time) set" where
  "due_runs E v occs plan = upcoming E v occs \<union> (\<lambda>m. (mo_key m, mo_scheduled_for m)) ` set (mp_to_create plan)"

lemma plan_schedule_runs:
  assumes "plan_schedule E h s v w = Inr (w', r)" and "fresh_run_ids (pe_prims E) (pl_drawn w + 500) w"
  obtains occs policy plan where
    "window_occurrences E v (planned_from E s) (pe_now E + seconds h) = Inr occs"
    and "missed_policy_of (vr_missed_policy v) = Inr policy"
    and "plan_missed_runs policy (missed_of E v occs) (pe_now E) (vr_backfill_window v) (vr_backfill_limit v) = Inr plan"
    and "adds_runs E s v (due_runs E v occs plan) w w'"
    and "\<forall>(key, u) \<in> due_runs E v occs plan. has_run w' (sr_schedule_id s) key"
    and "\<forall>x \<in> set occs. oc_utc x = None \<longrightarrow> noted w' (sr_schedule_id s) (oc_key x) ''DST_GAP''"
    and "\<forall>m \<in> set (mp_skipped plan). noted w' (sr_schedule_id s) (mo_key m) (''MISSED_SKIPPED_'' @ vr_missed_policy v)"
proof (rule plan_schedule_parts [OF assms(1)])
  fix occs p policy plan w1 ids ups
  assume o: "window_occurrences E v (planned_from E s) (pe_now E + seconds h) = Inr occs"
    and p: "fold_res (plan_occurrence E s v) occs
      \<lparr>ps_world = w, ps_created = [], ps_gaps = 0, ps_missed = [], ps_locals = []\<rparr> = Inr p"
    and m: "missed_policy_of (vr_missed_policy v) = Inr policy"
    and pl: "plan_missed_runs policy (ps_missed p) (pe_now E) (vr_backfill_window v) (vr_backfill_limit v) = Inr plan"
    and c: "fold_res (create_missed E s v (ps_locals p)) (mp_to_create plan) (ps_world p, []) = Inr (w1, ids)"
    and w': "w' = update_schedule (sr_schedule_id s) (pe_now E + seconds h) (pr_next_run_at r)
      (warn_of_truncation E s (mp_warning plan) (fold (\<lambda>m. add_planner_note (skip_note E s v (mp_warning plan) m)) (mp_skipped plan) w1))"
  have l: "length (filter executable occs) \<le> 500"
    using window_occurrences_limit [OF o] by (simp add: executed_def MAX_OCCURRENCES_PER_TICK_def)
  note loop = plan_loop_spec [OF p, of "pl_drawn w + 500", simplified, OF assms(2) l]
  have missed: "ps_missed p = missed_of E v occs" using loop by simp
  have n: "pl_drawn (ps_world p) + length (mp_to_create plan) \<le> pl_drawn w + 500"
    using loop l planned_length [OF pl] by linarith
  note create = create_loop_spec [OF c _ n]
  have f: "fresh_run_ids (pe_prims E) (pl_drawn w + 500) (ps_world p)" using loop by blast
  note create = create [OF f]
  have runs: "pl_runs w' = pl_runs w1" by (simp add: w')
  have "adds_runs E s v (due_runs E v occs plan) w w1"
    unfolding due_runs_def using loop create adds_runs_trans by blast
  then have a: "adds_runs E s v (due_runs E v occs plan) w w'" by (simp add: adds_runs_def runs)
  have hr: "has_run w' (sr_schedule_id s) key" if "(key, u) \<in> due_runs E v occs plan" for key u
  proof (cases "(key, u) \<in> upcoming E v occs")
    case True
    then have "has_run (ps_world p) (sr_schedule_id s) key" using loop by blast
    then have "has_run w1 (sr_schedule_id s) key" using create by (simp add: kept_def)
    then show ?thesis by (simp add: has_run_def runs)
  next
    case False
    then have "has_run w1 (sr_schedule_id s) key" using that create by (auto simp: due_runs_def)
    then show ?thesis by (simp add: has_run_def runs)
  qed
  have g: "noted w' (sr_schedule_id s) (oc_key x) ''DST_GAP''" if "x \<in> set occs" "oc_utc x = None" for x
  proof -
    have "noted (ps_world p) (sr_schedule_id s) (oc_key x) ''DST_GAP''" using loop that by blast
    then have "noted w1 (sr_schedule_id s) (oc_key x) ''DST_GAP''" using create by (simp add: kept_def)
    then show ?thesis unfolding w' by (simp add: noted_warn noted_fold)
  qed
  have k: "noted w' (sr_schedule_id s) (mo_key x) (''MISSED_SKIPPED_'' @ vr_missed_policy v)"
    if "x \<in> set (mp_skipped plan)" for x
    using noted_fold_added [OF that, of "skip_note E s v (mp_warning plan)" w1] unfolding w'
    by (simp add: skip_note_def noted_warn)
  show thesis by (rule that [OF o m pl [unfolded missed] a]) (use hr g k in blast)+
qed

text \<open>Planning does not fail on a version that its commands accept.\<close>

lemma fold_res_total:
  assumes "\<And>x a. \<exists>b. f x a = Inr b"
  shows "\<exists>b. fold_res f xs a = Inr b"
proof (induction xs arbitrary: a)
  case (Cons x xs)
  obtain b where "f x a = Inr b" using assms by blast
  then show ?case using Cons.IH [of b] by simp
qed simp

lemma scheduled_run_ok: "run_kind_ok (scheduled_run E s v key u local note)"
  by (simp add: run_kind_ok_def scheduled_run_def)

lemma plan_occurrence_total: "\<exists>p'. plan_occurrence E s v x p = Inr p'"
proof (cases "oc_utc x")
  case (Some utc)
  obtain w i where "insert_run_row (pe_prims E) (scheduled_run E s v (oc_key x) utc (Some (oc_local x)) None) (ps_world p) = Inr (w, i)"
    using insert_run_ok [OF scheduled_run_ok] by blast
  then show ?thesis using Some by (simp add: plan_occurrence_def Let_def)
qed (simp add: plan_occurrence_def)

lemma create_missed_total: "\<exists>b. create_missed E s v ls m a = Inr b"
  using insert_run_ok [OF scheduled_run_ok, of "pe_prims E" E s v "mo_key m" "mo_scheduled_for m"
      "map_of ls (mo_key m)" "Some (''MISSED_'' @ vr_missed_policy v)" "fst a"]
  by (cases a) (fastforce simp: create_missed_def)

lemma plan_missed_total: "0 \<le> window \<Longrightarrow> 0 \<le> limit \<Longrightarrow> \<exists>p. plan_missed_runs policy missed now window limit = Inr p"
  by (simp add: plan_missed_runs_def Let_def)

lemma next_occurrences_total:
  "parse expression = Inr c \<Longrightarrow> load_zone zones timezone = Inr z \<Longrightarrow>
    \<exists>out. next_occurrences P zones expression timezone t n sid gaps = Inr out"
  by (simp add: next_occurrences_def)

lemma plan_schedule_total:
  assumes "parse (vr_cron v) = Inr c" and "load_zone (pe_zones E) (vr_timezone v) = Inr z"
    and "missed_policy_of (vr_missed_policy v) = Inr policy" and "0 \<le> vr_backfill_window v" and "0 \<le> vr_backfill_limit v"
  shows "\<exists>w' r. plan_schedule E h s v w = Inr (w', r)"
proof -
  obtain occs where occs: "window_occurrences E v (planned_from E s) (pe_now E + seconds h) = Inr occs"
    using assms(1,2) by (simp add: window_occurrences_def next_occurrences_def)
  obtain p where p: "fold_res (plan_occurrence E s v) occs
      \<lparr>ps_world = w, ps_created = [], ps_gaps = 0, ps_missed = [], ps_locals = []\<rparr> = Inr p"
    using fold_res_total [of "plan_occurrence E s v", OF plan_occurrence_total] by blast
  obtain plan where plan: "plan_missed_runs policy (ps_missed p) (pe_now E) (vr_backfill_window v) (vr_backfill_limit v) = Inr plan"
    using plan_missed_total [OF assms(4,5)] by blast
  obtain b where b: "fold_res (create_missed E s v (ps_locals p)) (mp_to_create plan) (ps_world p, []) = Inr b"
    using fold_res_total [of "create_missed E s v (ps_locals p)", OF create_missed_total] by blast
  obtain ups where "next_occurrences (pe_prims E) (pe_zones E) (vr_cron v) (vr_timezone v) (pe_now E) 1 (sr_schedule_id s) False = Inr ups"
    using next_occurrences_total [OF assms(1,2)] by blast
  then show ?thesis
    by (cases b) (simp add: plan_schedule_def Let_def occs p assms(3) plan b)
qed


lemma dec_digits_short: "n < 1000 \<Longrightarrow> length (dec_digits n) \<le> 3"
  using dec_digits.simps [of n] dec_digits.simps [of "n div 10"] dec_digits.simps [of "n div 10 div 10"] by simp

lemma toy_fresh: "fresh_run_ids toy_prims 500 no_runs"
proof -
  have "run_id_of toy_prims n = ''run-'' @ nat_str n" if "n < 500" for n
    using dec_digits_short [of n] that by (simp add: run_id_of_def toy_prims_def nat_str_def)
  then have "inj_on (run_id_of toy_prims) {0..<500}" by (auto intro: inj_onI)
  then show ?thesis by (simp add: fresh_run_ids_def no_runs_def)
qed

definition toy_version :: version_row where
  "toy_version =
     \<lparr>vr_id = ''v'', vr_schedule_id = ''s'', vr_cron = ''0 0 * * *'', vr_timezone = ''UTC'', vr_missed_policy = ''RUN_ONCE'',
      vr_backfill_limit = 0, vr_backfill_window = 0, vr_min_interval = 5, vr_starts_at = None, vr_ends_at = None,
      vr_snapshot_hash = ''h''\<rparr>"

definition toy_schedule :: schedule_row where
  "toy_schedule = \<lparr>sr_schedule_id = ''s'', sr_workspace = ''ws'', sr_status = ENABLED, sr_current_version = Some ''v'',
     sr_next_run_at = None, sr_last_planned_until = Some 0\<rparr>"

definition toy_planner :: planner_env where
  "toy_planner = \<lparr>pe_prims = toy_prims, pe_zones = (\<lambda>_. Some utc_zone), pe_now = seconds 200000\<rparr>"


text \<open>
  The bound of a tick and the next window: a tick looks at no more than 500 occurrences, but it counts
  the whole window as planned, and the next plan has only later ones. After a downtime longer than 500
  occurrences the rest is never planned - neither as missed nor, when it lies ahead, as upcoming.
\<close>

lemma planner_forgets_beyond_limit:
  assumes "plan_schedule E h s v w = Inr (w', r)"
    and "s' \<in> set (pl_schedules w')" and "sr_schedule_id s' = sr_schedule_id s"
    and "window_occurrences E v (planned_from E s) (pe_now E + seconds h) = Inr occs"
    and "window_occurrences E' v' (planned_from E' s') til = Inr occs'" and "x \<in> set occs'" and "oc_utc x = Some u"
  shows "executed occs \<le> 500 \<and> pe_now E + seconds h < u"
proof -
  have "sr_last_planned_until s' = Some (pe_now E + seconds h)"
    by (rule plan_schedule_parts [OF assms(1)]) (use assms(2,3) in \<open>auto simp: update_schedule_def\<close>)
  then have from_end: "planned_from E' s' = pe_now E + seconds h" by (simp add: planned_from_def get_default_def)
  have "planned_from E' s' < u"
  proof (rule window_occurrences_result [OF assms(5)])
    fix c z
    assume "occs' = until_end til (reference_occurrences (window_query E' v' (planned_from E' s') til c z))"
    then show ?thesis
      using window_occurrences_sound(2) [of x til "window_query E' v' (planned_from E' s') til c z"] assms(6,7)
      by (simp add: window_query_def)
  qed
  then show ?thesis using from_end window_occurrences_limit [OF assms(4)] by (simp add: MAX_OCCURRENCES_PER_TICK_def)
qed

end
