(* ===== verification/Spec2Isabelle.thy ===== *)
theory Spec2Isabelle
  imports Integrity Assignments Roles Approval_Properties Verification_Properties Planner_Properties
begin

text \<open>
  Verification of the Agent-Colab server (\<^verbatim>\<open>src/server\<close>).

  Agent-Colab coordinates humans and Agents that work on Tasks. Every change is a command on a bus;
  a handler checks the policy, folds the Event stream of the aggregate it changes, appends a new
  Event and writes projection tables. Events and audit rows are hash-chained, work is handed to
  Agents through an inbox of leased items, and schedules start Runs at cron times.

  \<^bold>\<open>Parts and theories.\<close>

  \<^item> \<open>Prelude\<close>: calls that may raise (\<open>'a res\<close>, the error code is kept), time in microseconds, Python
    values as \<open>jval\<close>, the string functions of the standard library the sources use.
  \<^item> \<open>Canonical\<close>, \<open>Events\<close>: canonical JSON (\<^verbatim>\<open>events/canonical.py\<close>), content hashes and stream chains
    (\<^verbatim>\<open>events/hashing.py\<close>). Canonical bytes determine a value up to key order; a verified chain pins
    every Event before its head, unless SHA-256 collides. SHA-256 and the random identifiers are the
    parameter \<open>prims\<close>.
  \<^item> \<open>Event_Store\<close>, \<open>Pg_Store\<close>, \<open>Contract\<close>, \<open>Clock\<close>: the two Event stores (\<^verbatim>\<open>events/store.py\<close>,
    \<^verbatim>\<open>events/postgres_store.py\<close>), payload contracts and timestamps. The locale \<open>event_log\<close> is what
    clients rely on; both stores interpret it. Appends are exactly-once, streams always verify; a
    concurrent transaction is the list of rows it commits first (\<open>commit_race\<close>).
  \<^item> \<open>Hash_Chain\<close>, \<open>Integrity\<close>: chained tables with daily anchors (\<^verbatim>\<open>events/chain.py\<close>), the audit log with
    its redaction (\<^verbatim>\<open>observability/audit.py\<close>), and the integrity job (\<^verbatim>\<open>events/integrity.py\<close>).
  \<^item> \<open>Task\<close>, \<open>Task_Graph\<close>: the Task state machine as a fold of Events (\<^verbatim>\<open>domain/task.py\<close>), the graph of
    sub-Tasks and join policies (\<^verbatim>\<open>tasks/graph.py\<close>).
  \<^item> \<open>Task_Commands\<close>, \<open>Task_Histories\<close>, \<open>Task_Runs\<close>: the fourteen Task handlers (\<^verbatim>\<open>application/tasks.py\<close>) in a
    \<open>task_world\<close> of store and tables. The locale \<open>task_store\<close> extends \<open>event_log\<close>; in it, over any run
    of commands, every Task stream stays loadable. \<open>mem_tasks\<close> and \<open>pg_tasks\<close> interpret it.
  \<^item> \<open>Orchestration\<close>: the graph queries over \<^verbatim>\<open>task_edges\<close> (\<^verbatim>\<open>application/orchestration.py\<close>) against the
    specification of \<open>Task_Graph\<close>. The edge trigger keeps chains within 64 hops, which is why the
    query loop with its fixed bound finds every ancestor.
  \<^item> \<open>Work_State\<close>, \<open>Work_Inbox\<close>, \<open>Work_Runs\<close>, \<open>Assignments\<close>: the work inbox (\<^verbatim>\<open>work/state.py\<close>, \<^verbatim>\<open>work/inbox.py\<close>,
    \<^verbatim>\<open>work/receipts.py\<close>, \<^verbatim>\<open>work/timeouts.py\<close>): deliveries, leases, results, the sweep; its invariant, its
    refinement of the result ledger, and the assignment items of a Task.
  \<^item> \<open>Policy\<close>, \<open>Policy_Store\<close>, \<open>Authorization\<close>, \<open>Roles\<close>: the engine and the catalog (\<^verbatim>\<open>policy/model.py\<close>,
    \<^verbatim>\<open>policy/engine.py\<close>, \<^verbatim>\<open>policy/catalog.py\<close>), the policy tables (\<^verbatim>\<open>policy/repository.py\<close>), the authorizer
    (\<^verbatim>\<open>policy/authorization.py\<close>) and the role commands (\<^verbatim>\<open>application/roles.py\<close>). The engine and the
    authorizer decide their declared policies, denials are audited, role versions are an
    append-only history, and accounts without the administrative permission change nothing.
  \<^item> \<open>Independence\<close>: who counts as whom: alias resolution, the independence check and the identity
    snapshots that reproduce it (\<^verbatim>\<open>verification/independence.py\<close>, \<^verbatim>\<open>verification/runs.py\<close>).
  \<^item> \<open>Approvals\<close>, \<open>Approval_Runs\<close>, \<open>Approval_Commands\<close>, \<open>Approval_Projection\<close>, \<open>Approval_Properties\<close>: grants with
    their ledgers of decisions and uses (\<^verbatim>\<open>approvals/model.py\<close>, \<^verbatim>\<open>eligibility.py\<close>, \<^verbatim>\<open>service.py\<close>), the bus commands
    (\<^verbatim>\<open>application/approvals.py\<close>) and the projection (\<^verbatim>\<open>projections/approvals.py\<close>). \<open>approval_step\<close> interleaves the
    services with arbitrary changes of the rest of the database, for any Event store; its invariant
    bounds the uses, puts an independent quorum behind each, and keeps final states final.
  \<^item> \<open>Verification_Runs\<close>, \<open>Verifier_Assignment\<close>, \<open>Verification_Commands\<close>, \<open>Verifier_Sweep\<close>: VerificationRuns with their
    chained revisions and the completion gate (\<^verbatim>\<open>verification/runs.py\<close>, \<^verbatim>\<open>gate.py\<close>), the choice of a Verifier and
    its offer (\<^verbatim>\<open>verification/assignment.py\<close>, parts of \<^verbatim>\<open>agents/routing.py\<close>), the eight bus commands
    (\<^verbatim>\<open>application/verification.py\<close>) and the sweep over offers. A \<open>verification_world\<close> holds the tables next to
    the \<open>task_world\<close> and two audit logs: the one the transaction sees and the one that survives its
    rollback; errors carry the world, because the sweep catches one and goes on.
  \<^item> \<open>Verification_Machine\<close>, \<open>Verification_Trial\<close>, \<open>Verification_Properties\<close>: \<open>verification_step\<close> is the specification
    (plan, move, judge); the commands and the sweep refine it for any store, policy and hooks that keep
    the tables. Its invariant puts an independent, justified verdict behind every passed gate, keeps
    the revision chain intact and final runs final.
  \<^item> \<open>Cron\<close>: cron expressions, the spacing check and the next occurrences (\<^verbatim>\<open>schedules/cron.py\<close>), Run keys
    (\<^verbatim>\<open>schedules/occurrence.py\<close>).
  \<^item> \<open>Schedule_Contract\<close>, \<open>Planner\<close>, \<open>Planner_Properties\<close>: states, retries, concurrency and missed Runs of Schedules
    (\<^verbatim>\<open>schedules/contract.py\<close>) and the occurrence planner (\<^verbatim>\<open>schedules/planner.py\<close>, parts of \<^verbatim>\<open>schedules/store.py\<close>) on
    the rows of a \<open>planner_world\<close>. \<open>planner_step\<close> interleaves ticks with any other change of the Runs: an
    occurrence has one Run; a tick gives a Run to just the occurrences that its version calls for.

  \<^bold>\<open>Loops and bounds.\<close> Loops are structural recursion over the data they walk (events, rows, days, times);
  the day loops of \<open>Cron\<close> run over the explicit lists of days the source iterates (a 28-year window,
  a five-year horizon). The ancestor walk of \<open>Task_Graph\<close> and the alias walks of \<open>Independence\<close>
  terminate by a measure on unvisited nodes. No model runs on fuel.

  \<^bold>\<open>Parameters.\<close> SHA-256 and identifier generation, \<^verbatim>\<open>jsonb\<close> columns (which keep the canonical form), the
  encryption of sensitive payloads, the tz database, \<^verbatim>\<open>datetime.fromisoformat\<close> of an assignment's end,
  name-based UUIDs, and what other packages do for the Task and verification handlers (criteria, Artifacts,
  inbox, documents). What is required of them is a named hypothesis (\<open>jsonb_law\<close>, \<open>env_laws\<close>, \<open>env_ok\<close>,
  \<open>hooks_keep_tables\<close>), shown satisfiable by the witnesses.

  \<^bold>\<open>What the modelling showed.\<close> The PostgreSQL store reads its clock twice (\<open>clock_skew_breaks_chain\<close>); redaction
  does not enter lists; the preview of a decision is more generous than the authorizer
  (\<open>preview_overpromises\<close>); a role constraint of the wrong type passes validation and then blocks every
  holder of the role (\<open>untyped_constraints_block_holders\<close>); alias resolution can separate an account from
  its alias (\<open>alias_cycle_splits_principals\<close>, \<open>second_alias_hides_first\<close>), two aliases of one person count as
  two approvers (\<open>alias_of_decider_accepted\<close>), and a rebuild loses the deciders of a grant below its
  quorum (\<open>rebuild_forgets_partial_decisions\<close>). Moves of a VerificationRun cannot be retried (\<open>moves_not_replayed\<close>), a
  cancelled run blocks the offer sweep (\<open>cancelled_run_stops_sweep\<close>), which can also wait for its own audit
  lock (\<open>sweep_waits_for_itself\<close>); the start of a Task's run needs a permission Verifiers do not have
  (\<open>start_needs_assign_permission\<close>), and a chosen Verifier is audited as no candidate
  (\<open>chosen_verifier_audited_as_none\<close>). After a long downtime the planner forgets occurrences
  beyond its bound (\<open>planner_forgets_beyond_limit\<close>).

  \<^bold>\<open>Not modelled.\<close> The HTTP layer, chat providers, documents, artifacts, secrets, notifications and the setup
  wizard are I/O or third-party protocols around the commands. Schedule
  execution, budgets and brainstorm rooms are core logic that is left out.
\<close>

end
